(* ===== verification/JFS_Prelude.thy ===== *)
theory JFS_Prelude
  imports Main "HOL-Library.Word"
begin

text \<open>
  Shared vocabulary of the development: bytes and the fixed-size byte arrays of the on-disk
  structures, the little-endian accessors (what \<open>LittleEndian::read_u32\<close> and its kin compute, that
  is \<open>u32::from_le_bytes\<close> and \<open>to_le_bytes\<close>), the three-way outcome of a fallible Rust function
  (\<open>Ok\<close>, \<open>Err\<close>, or the process stops), slices of byte vectors, and the list lemmas the components
  share.

  Conventions used everywhere:
  \<^item> \<open>[u8; 2]\<close>, \<open>[u8; 4]\<close>, \<open>[u8; 8]\<close> are the datatypes \<open>arr2\<close>, \<open>arr4\<close>, \<open>arr8\<close>; \<open>Vec<u8>\<close> and
    \<open>&[u8]\<close> are \<open>byte list\<close>;
  \<^item> bit-level code works on words (\<open>32 word\<close>, \<open>64 word\<close>); block numbers, lengths and byte offsets
    that the code only adds, subtracts and compares are \<open>nat\<close> (unsigned) or \<open>int\<close> (signed), with
    each narrowing cast written out and with \<open>Panic\<close> where an unsigned operation can leave
    its 64-bit range (the overflow check of the dev profile that the README builds).
\<close>

unbundle bit_operations_syntax

named_theorems codec \<open>round trips and projections of the byte-array codec\<close>
named_theorems slice_simps \<open>slices and splices of byte vectors\<close>

section \<open>Bytes and fixed-size arrays\<close>

type_synonym byte = "8 word"
type_synonym bytes = "byte list"

datatype arr2 = A2 byte byte
datatype arr4 = A4 byte byte byte byte
datatype arr8 = A8 byte byte byte byte byte byte byte byte

fun list_of_arr2 :: "arr2 \<Rightarrow> bytes" where
  "list_of_arr2 (A2 a b) = [a, b]"

fun list_of_arr4 :: "arr4 \<Rightarrow> bytes" where
  "list_of_arr4 (A4 a b c d) = [a, b, c, d]"

fun list_of_arr8 :: "arr8 \<Rightarrow> bytes" where
  "list_of_arr8 (A8 a b c d e f g h) = [a, b, c, d, e, f, g, h]"

text \<open>\<open>data[i..i+n].try_into().unwrap_or([0; n])\<close>: the array when the length fits, zeros otherwise.\<close>

definition arr2_of :: "bytes \<Rightarrow> arr2" where
  "arr2_of bs = (case bs of [a, b] \<Rightarrow> A2 a b | _ \<Rightarrow> A2 0 0)"

definition arr4_of :: "bytes \<Rightarrow> arr4" where
  "arr4_of bs = (case bs of [a, b, c, d] \<Rightarrow> A4 a b c d | _ \<Rightarrow> A4 0 0 0 0)"

definition arr8_of :: "bytes \<Rightarrow> arr8" where
  "arr8_of bs = (case bs of [a, b, c, d, e, f, g, h] \<Rightarrow> A8 a b c d e f g h | _ \<Rightarrow> A8 0 0 0 0 0 0 0 0)"

abbreviation zero2 :: arr2 where "zero2 \<equiv> A2 0 0"
abbreviation zero4 :: arr4 where "zero4 \<equiv> A4 0 0 0 0"
abbreviation zero8 :: arr8 where "zero8 \<equiv> A8 0 0 0 0 0 0 0 0"

section \<open>Little-endian accessors\<close>

fun read_u16 :: "arr2 \<Rightarrow> 16 word" where
  "read_u16 (A2 a b) = ucast a OR push_bit 8 (ucast b)"

fun read_u32 :: "arr4 \<Rightarrow> 32 word" where
  "read_u32 (A4 a b c d) =
     ucast a OR push_bit 8 (ucast b) OR push_bit 16 (ucast c) OR push_bit 24 (ucast d)"

fun read_u64 :: "arr8 \<Rightarrow> 64 word" where
  "read_u64 (A8 a b c d e f g h) =
     ucast a OR push_bit 8 (ucast b) OR push_bit 16 (ucast c) OR push_bit 24 (ucast d) OR
     push_bit 32 (ucast e) OR push_bit 40 (ucast f) OR push_bit 48 (ucast g) OR
     push_bit 56 (ucast h)"

definition write_u16 :: "16 word \<Rightarrow> arr2" where
  "write_u16 w = A2 (ucast w) (ucast (drop_bit 8 w))"

definition write_u32 :: "32 word \<Rightarrow> arr4" where
  "write_u32 w = A4 (ucast w) (ucast (drop_bit 8 w)) (ucast (drop_bit 16 w)) (ucast (drop_bit 24 w))"

definition write_u64 :: "64 word \<Rightarrow> arr8" where
  "write_u64 w = A8 (ucast w) (ucast (drop_bit 8 w)) (ucast (drop_bit 16 w)) (ucast (drop_bit 24 w))
     (ucast (drop_bit 32 w)) (ucast (drop_bit 40 w)) (ucast (drop_bit 48 w)) (ucast (drop_bit 56 w))"

lemma byte_bit_high: "8 \<le> n \<Longrightarrow> \<not> bit (x :: byte) n"
  by (auto dest: bit_imp_le_length)

lemma read_write_u16 [simp, codec]: "read_u16 (write_u16 w) = w"
proof (rule bit_word_eqI)
  fix n assume "n < LENGTH(16)"
  then consider "n < 8" | "8 \<le> n" "n < 16" by fastforce
  then show "bit (read_u16 (write_u16 w)) n = bit w n"
    by cases (simp_all add: write_u16_def bit_simps less_diff_conv2)
qed

lemma read_write_u32 [simp, codec]: "read_u32 (write_u32 w) = w"
proof (rule bit_word_eqI)
  fix n assume "n < LENGTH(32)"
  then consider "n < 8" | "8 \<le> n" "n < 16" | "16 \<le> n" "n < 24" | "24 \<le> n" "n < 32"
    by fastforce
  then show "bit (read_u32 (write_u32 w)) n = bit w n"
    by cases (simp_all add: write_u32_def bit_simps less_diff_conv2)
qed

lemma read_write_u64 [simp, codec]: "read_u64 (write_u64 w) = w"
proof (rule bit_word_eqI)
  fix n assume "n < LENGTH(64)"
  then consider "n < 8" | "8 \<le> n" "n < 16" | "16 \<le> n" "n < 24" | "24 \<le> n" "n < 32"
    | "32 \<le> n" "n < 40" | "40 \<le> n" "n < 48" | "48 \<le> n" "n < 56" | "56 \<le> n" "n < 64"
    by fastforce
  then show "bit (read_u64 (write_u64 w)) n = bit w n"
    by cases (simp_all add: write_u64_def bit_simps less_diff_conv2)
qed

lemma write_read_u16 [simp, codec]: "write_u16 (read_u16 a) = a"
  by (cases a) (auto simp: write_u16_def byte_bit_high bit_simps intro!: bit_word_eqI)

lemma write_read_u32 [simp, codec]: "write_u32 (read_u32 a) = a"
  by (cases a) (auto simp: write_u32_def byte_bit_high bit_simps intro!: bit_word_eqI)

lemma write_read_u64 [simp, codec]: "write_u64 (read_u64 a) = a"
  by (cases a) (auto simp: write_u64_def byte_bit_high bit_simps intro!: bit_word_eqI)

lemma arr_of_list [simp, codec]:
  "arr2_of (list_of_arr2 a) = a" "arr4_of (list_of_arr4 b) = b" "arr8_of (list_of_arr8 c) = c"
  by (cases a, cases b, cases c, simp add: arr2_of_def arr4_of_def arr8_of_def)+

lemma length_list_of_arr [simp]:
  "length (list_of_arr2 a) = 2" "length (list_of_arr4 b) = 4" "length (list_of_arr8 c) = 8"
  by (cases a, cases b, cases c, simp)+

lemma list_of_arr2_of [simp, codec]: "length bs = 2 \<Longrightarrow> list_of_arr2 (arr2_of bs) = bs"
  by (auto simp: arr2_of_def length_Suc_conv numeral_2_eq_2 split: list.split)

lemma list_of_arr4_of [simp, codec]: "length bs = 4 \<Longrightarrow> list_of_arr4 (arr4_of bs) = bs"
  by (auto simp: arr4_of_def length_Suc_conv numeral_eq_Suc split: list.split)

lemma list_of_arr8_of [simp, codec]: "length bs = 8 \<Longrightarrow> list_of_arr8 (arr8_of bs) = bs"
  by (auto simp: arr8_of_def length_Suc_conv numeral_eq_Suc split: list.split)

section \<open>Outcomes of fallible functions\<close>

text \<open>
  \<open>StorageError\<close> of \<open>storage/mod.rs\<close>, variant by variant. The \<open>Io\<close> variant carries an operating
  system error, of which the code only inspects whether its kind is \<open>UnexpectedEof\<close>.
\<close>

datatype storage_error =
    Io bool
  | InvalidSuperblock
  | JournalNotReplayed
  | UnsupportedBlockSize nat
  | PageNotFound
  | ReadOnly
  | FaultInjection
  | BlockOutOfRange nat nat
  | ShortRead nat nat
  | ShortWrite nat nat
  | UnexpectedEof nat nat
  | Interrupted
  | XattrNotFound
  | XattrAlreadyExists
  | XattrNameTooLong
  | XattrValueTooLarge
  | XattrDataTooLarge
  | AlreadyExists
  | InvalidName
  | NoFreeInode
  | NotADirectory
  | DirectoryNotEmpty
  | NotFound
  | InvalidFileType
  | NotSupported
  | CannotLinkDir
  | XattrBufferTooSmall nat
  | Other string

text \<open>
  A \<open>StorageResult<T>\<close> computation returns \<open>Ok\<close> or \<open>Err\<close>; it may also panic (slice out of range,
  arithmetic overflow, failed assertion) or leave the process (\<open>std::process::exit\<close>).
\<close>

datatype 'a res = Ok 'a | Err storage_error | Panic | Exit

fun res_bind :: "'a res \<Rightarrow> ('a \<Rightarrow> 'b res) \<Rightarrow> 'b res" where
  "res_bind (Ok x) f = f x"
| "res_bind (Err e) f = Err e"
| "res_bind Panic f = Panic"
| "res_bind Exit f = Exit"

lemma res_bind_Ok_iff: "res_bind r f = Ok y \<longleftrightarrow> (\<exists>x. r = Ok x \<and> f x = Ok y)"
  by (cases r) auto

lemma res_bind_Ok_right [simp]: "res_bind r Ok = r"
  by (cases r) auto

text \<open>
  With state: a computation returns its outcome and the new state, whatever the outcome is (an early
  \<open>?\<close> return keeps the changes made so far).
\<close>

fun st_bind :: "'a res \<times> 's \<Rightarrow> ('a \<Rightarrow> 's \<Rightarrow> 'b res \<times> 's) \<Rightarrow> 'b res \<times> 's" where
  "st_bind (Ok x, s) f = f x s"
| "st_bind (Err e, s) f = (Err e, s)"
| "st_bind (Panic, s) f = (Panic, s)"
| "st_bind (Exit, s) f = (Exit, s)"

lemma st_bind_Ok_iff:
  "st_bind m f = (Ok y, t) \<longleftrightarrow> (\<exists>x s. m = (Ok x, s) \<and> f x s = (Ok y, t))"
  by (cases m; cases "fst m") auto

lemma st_bind_assoc: "st_bind (st_bind m f) g = st_bind m (\<lambda>x s. st_bind (f x s) g)"
  by (cases "(m, f)" rule: st_bind.cases) auto

definition add_u64 :: "nat \<Rightarrow> nat \<Rightarrow> nat res" where
  "add_u64 a b = (if a + b < 2 ^ 64 then Ok (a + b) else Panic)"

definition sub_u64 :: "nat \<Rightarrow> nat \<Rightarrow> nat res" where
  "sub_u64 a b = (if b \<le> a then Ok (a - b) else Panic)"

section \<open>Slices and splices\<close>

text \<open>\<open>slice a b xs\<close> is \<open>xs[a..b]\<close>; \<open>slice_res\<close> panics where Rust does.\<close>

definition slice :: "nat \<Rightarrow> nat \<Rightarrow> 'a list \<Rightarrow> 'a list" where
  "slice a b xs = take (b - a) (drop a xs)"

definition slice_res :: "nat \<Rightarrow> nat \<Rightarrow> 'a list \<Rightarrow> 'a list res" where
  "slice_res a b xs = (if a \<le> b \<and> b \<le> length xs then Ok (slice a b xs) else Panic)"

text \<open>\<open>splice a ys xs\<close> is \<open>xs[a..a + ys.len()].copy_from_slice(ys)\<close> for an in-range target.\<close>

definition splice :: "nat \<Rightarrow> 'a list \<Rightarrow> 'a list \<Rightarrow> 'a list" where
  "splice a ys xs = take a xs @ ys @ drop (a + length ys) xs"

lemma length_slice [simp, slice_simps]: "length (slice a b xs) = min (b - a) (length xs - a)"
  by (simp add: slice_def)

lemma nth_slice [simp, slice_simps]: "i < b - a \<Longrightarrow> a + i < length xs \<Longrightarrow> slice a b xs ! i = xs ! (a + i)"
  by (simp add: slice_def)

lemma length_splice [simp, slice_simps]: "a + length ys \<le> length xs \<Longrightarrow> length (splice a ys xs) = length xs"
  by (simp add: splice_def)

lemma nth_splice:
  assumes "a + length ys \<le> length xs" "i < length xs"
  shows "splice a ys xs ! i = (if a \<le> i \<and> i < a + length ys then ys ! (i - a) else xs ! i)"
  using assms by (auto simp: splice_def nth_append min_def not_less)

lemma slice_splice_same [simp, slice_simps]:
  assumes "a + length ys \<le> length xs"
  shows "slice a (a + length ys) (splice a ys xs) = ys"
  using assms by (auto simp: slice_def splice_def)

lemma slice_splice_same' [slice_simps]:
  assumes "a + length ys \<le> length xs" "b = a + length ys"
  shows "slice a b (splice a ys xs) = ys"
  using assms by simp

lemma slice_splice_other [slice_simps]:
  assumes "a + length ys \<le> length xs" "c \<le> a \<or> a + length ys \<le> b"
  shows "slice b c (splice a ys xs) = slice b c xs"
proof (rule nth_equalityI)
  show "length (slice b c (splice a ys xs)) = length (slice b c xs)"
    using assms(1) by simp
next
  fix i assume "i < length (slice b c (splice a ys xs))"
  with assms show "slice b c (splice a ys xs) ! i = slice b c xs ! i"
    by (auto simp: nth_splice)
qed

lemma slice_slice [slice_simps]: "d \<le> b - a \<Longrightarrow> slice c d (slice a b xs) = slice (a + c) (a + d) xs"
  by (simp add: slice_def drop_take take_take min_def add.commute)

lemma slice_all [simp]: "slice 0 (length xs) xs = xs"
  by (simp add: slice_def)

lemma slice_empty [simp]: "slice a a xs = []"
  by (simp add: slice_def)

lemma splice_Nil [simp]: "splice a [] xs = xs"
  by (simp add: splice_def)

lemma slice_res_Ok [simp]: "a \<le> b \<Longrightarrow> b \<le> length xs \<Longrightarrow> slice_res a b xs = Ok (slice a b xs)"
  by (simp add: slice_res_def)

lemma slice_split:
  assumes "a \<le> b" "b \<le> c"
  shows "slice a c xs = slice a b xs @ slice b c xs"
proof -
  have "take (c - a) (drop a xs) = take (b - a) (drop a xs) @ take (c - b) (drop (b - a) (drop a xs))"
    using assms take_add [of "b - a" "c - b" "drop a xs"] by simp
  then show ?thesis using assms by (simp add: slice_def)
qed

lemma slice_append_left: "b \<le> length xs \<Longrightarrow> slice a b (xs @ ys) = slice a b xs"
  by (simp add: slice_def)

lemma slice_append_right:
  "length xs \<le> a \<Longrightarrow> slice a b (xs @ ys) = slice (a - length xs) (b - length xs) ys"
  by (cases "a \<le> b") (auto simp: slice_def)

lemma slice_whole: "length xs = n \<Longrightarrow> slice 0 n xs = xs"
  by (simp add: slice_def)

lemma slice_snoc_update:
  "a \<le> k \<Longrightarrow> k < length xs \<Longrightarrow> slice a (Suc k) (xs[k := v]) = slice a k xs @ [v]"
  by (rule nth_equalityI) (auto simp: nth_append nth_list_update)

lemma slice_reversed [simp]: "b \<le> a \<Longrightarrow> slice a b xs = []"
  by (simp add: slice_def)

lemma slice_update_other: "i < a \<or> b \<le> i \<Longrightarrow> slice a b (xs[i := v]) = slice a b xs"
  by (rule nth_equalityI) auto

text \<open>Fields of a packed layout: select a field out of a concatenation, or join adjacent fields.\<close>

lemmas layout_select = slice_append_left slice_append_right slice_whole

lemma slice_join:
  "a \<le> b \<Longrightarrow> b \<le> c \<Longrightarrow> slice a b xs @ slice b c xs = slice a c xs"
  "a \<le> b \<Longrightarrow> b \<le> c \<Longrightarrow> slice a b xs @ slice b c xs @ ys = slice a c xs @ ys"
  using slice_split [of a b c xs] by simp_all

lemma find_SomeD: "find P xs = Some x \<Longrightarrow> x \<in> set xs \<and> P x"
  by (induction xs) (auto split: if_splits)

lemma st_bind_unit: "st_bind m (\<lambda>_. Pair (Ok ())) = m"
  by (cases m; cases "fst m") auto

lemma splice_slice: "a \<le> b \<Longrightarrow> b \<le> length xs \<Longrightarrow> splice a (slice a b xs) xs = xs"
  by (intro nth_equalityI) (auto simp: nth_splice)

lemma splice_over: "length xs = length ys \<Longrightarrow> a + length ys \<le> length zs \<Longrightarrow> splice a xs (splice a ys zs) = splice a xs zs"
  by (intro nth_equalityI) (auto simp: nth_splice)

end
