(* ===== verification/OnDisk.thy ===== *)
theory OnDisk
  imports JFS_Prelude
begin

text \<open>
  The on-disk structures of \<open>types.rs\<close>: physical extents (\<open>pxd_t\<close>), data extents (\<open>dxd_t\<close>), extent
  tree entries (\<open>xad_t\<close>), time stamps, the disk inode, the log superblock, log pages, log record
  descriptors and the aggregate superblock, each as a record of the raw byte arrays the source
  stores, with the source's accessors on top. The layout functions (\<open>pxd_into_bytes\<close>, \<open>lrd_bytes\<close>,
  the \<open>repr(C, packed)\<close> image of \<open>Dinode\<close>) and the parsers are proved inverse to each other.
\<close>

section \<open>Constants\<close>

definition PSIZE :: nat where "PSIZE = 4096"
definition BLOCK_SIZE :: nat where "BLOCK_SIZE = PSIZE"
definition DISIZE :: nat where "DISIZE = 512"
definition INOSPERPAGE :: nat where "INOSPERPAGE = 8"
definition LOGPSIZE :: nat where "LOGPSIZE = 4096"
definition SUPER1_OFF :: nat where "SUPER1_OFF = 0x8000"
definition FILESYSTEM_I :: nat where "FILESYSTEM_I = 16"
definition BMAP_I :: nat where "BMAP_I = 2"
definition ROOT_I :: nat where "ROOT_I = 2"
definition LOGMAGIC :: "32 word" where "LOGMAGIC = 0x87654321"
definition LOGVERSION :: "32 word" where "LOGVERSION = 1"
definition JFS_MAGIC :: arr4 where "JFS_MAGIC = A4 0x4A 0x46 0x53 0x31"

definition FM_CLEAN :: "32 word" where "FM_CLEAN = 0"
definition FM_DIRTY :: "32 word" where "FM_DIRTY = 2"
definition FM_LOGREDO :: "32 word" where "FM_LOGREDO = 4"

definition LOGREDONE :: "32 word" where "LOGREDONE = 1"
definition LOGWRAP :: "32 word" where "LOGWRAP = 2"

definition LOG_COMMIT :: "16 word" where "LOG_COMMIT = 0x8000"
definition LOG_SYNCPT :: "16 word" where "LOG_SYNCPT = 0x4000"
definition LOG_MOUNT :: "16 word" where "LOG_MOUNT = 0x2000"
definition LOG_REDOPAGE :: "16 word" where "LOG_REDOPAGE = 0x0800"
definition LOG_NOREDOPAGE :: "16 word" where "LOG_NOREDOPAGE = 0x0080"
definition LOG_NOREDOINOEXT :: "16 word" where "LOG_NOREDOINOEXT = 0x0040"
definition LOG_UPDATEMAP :: "16 word" where "LOG_UPDATEMAP = 0x0008"
definition LOG_INODE :: "16 word" where "LOG_INODE = 0x0001"
definition LOG_DATA :: "16 word" where "LOG_DATA = 0x0080"

lemmas block_size_defs = BLOCK_SIZE_def PSIZE_def
lemmas log_type_defs = LOG_COMMIT_def LOG_SYNCPT_def LOG_MOUNT_def LOG_REDOPAGE_def
  LOG_NOREDOPAGE_def LOG_NOREDOINOEXT_def LOG_UPDATEMAP_def LOG_INODE_def LOG_DATA_def

lemma BLOCK_SIZE_pos [simp]: "0 < BLOCK_SIZE" "BLOCK_SIZE \<noteq> 0"
  by (simp_all add: block_size_defs)

section \<open>Physical extent descriptor\<close>

record pxd =
  len_addr :: arr4
  addr2 :: arr4

definition pxd_default :: pxd where
  "pxd_default = \<lparr>len_addr = zero4, addr2 = zero4\<rparr>"

definition pxd_length :: "pxd \<Rightarrow> 32 word" where
  "pxd_length p = read_u32 (len_addr p) AND 0xffffff"

definition pxd_set_length :: "pxd \<Rightarrow> 32 word \<Rightarrow> pxd" where
  "pxd_set_length p n =
     (let l = read_u32 (len_addr p);
          masked = l AND NOT 0xffffff;
          new_val = masked OR (n AND 0xffffff)
      in p\<lparr>len_addr := write_u32 new_val\<rparr>)"

definition pxd_address :: "pxd \<Rightarrow> 64 word" where
  "pxd_address p =
     (let l = ucast (read_u32 (len_addr p)) :: 64 word;
          high = push_bit 8 (l AND NOT 0xffffff);
          low = ucast (read_u32 (addr2 p))
      in high + low)"

definition pxd_set_address :: "pxd \<Rightarrow> 64 word \<Rightarrow> pxd" where
  "pxd_set_address p addr =
     (let high_addr = ucast (drop_bit 32 addr) :: 32 word;
          low_addr = ucast addr :: 32 word;
          l = read_u32 (len_addr p);
          reserved = l AND 0xffffff;
          new_len_addr = reserved OR (push_bit 24 high_addr AND NOT 0xffffff)
      in p\<lparr>len_addr := write_u32 new_len_addr, addr2 := write_u32 low_addr\<rparr>)"

definition pxd_into_bytes :: "pxd \<Rightarrow> bytes" where
  "pxd_into_bytes p = list_of_arr4 (len_addr p) @ list_of_arr4 (addr2 p)"

definition pxd_from_bytes :: "bytes \<Rightarrow> pxd" where
  "pxd_from_bytes bs =
     (if 8 \<le> length bs
      then \<lparr>len_addr = arr4_of (slice 0 4 bs), addr2 = arr4_of (slice 4 8 bs)\<rparr>
      else pxd_default)"

text \<open>The masks of the 24-bit length and the 40-bit address as bit predicates.\<close>

lemma mask24_word: "(0xffffff :: 'a::len word) = mask 24"
  by (simp add: mask_eq_exp_minus_1)

lemma pxd_length_alt: "pxd_length p = take_bit 24 (read_u32 (len_addr p))"
  by (simp add: pxd_length_def mask24_word take_bit_eq_mask)

lemma pxd_address_alt:
  "pxd_address p =
     push_bit 32 (ucast (drop_bit 24 (read_u32 (len_addr p)))) OR ucast (read_u32 (addr2 p))"
  (is "_ = ?h OR ?l")
proof -
  let ?w = "read_u32 (len_addr p)"
  have h: "push_bit 8 ((ucast ?w :: 64 word) AND NOT 0xffffff) = ?h"
    by (rule bit_word_eqI) (auto simp: mask24_word bit_simps)
  have "?h AND ?l = 0"
    by (rule bit_word_eqI) (auto simp: bit_simps dest: bit_imp_le_length)
  then have "?h + ?l = ?h OR ?l"
    by (simp add: disjunctive_add_eq_or)
  with h show ?thesis by (simp add: pxd_address_def Let_def)
qed

lemma pxd_length_set_length [simp, codec]: "pxd_length (pxd_set_length p n) = take_bit 24 n"
  by (rule bit_word_eqI)
    (auto simp: pxd_length_alt pxd_set_length_def Let_def mask24_word bit_simps)

lemma pxd_address_set_length [simp, codec]: "pxd_address (pxd_set_length p n) = pxd_address p"
proof -
  have "drop_bit 24 (read_u32 (len_addr (pxd_set_length p n))) = drop_bit 24 (read_u32 (len_addr p))"
    by (rule bit_word_eqI)
      (auto simp: pxd_set_length_def Let_def mask24_word bit_simps dest: bit_imp_le_length)
  moreover have "addr2 (pxd_set_length p n) = addr2 p"
    by (simp add: pxd_set_length_def Let_def)
  ultimately show ?thesis by (simp only: pxd_address_alt)
qed

lemma pxd_length_set_address [simp, codec]: "pxd_length (pxd_set_address p a) = pxd_length p"
  by (rule bit_word_eqI)
    (auto simp: pxd_length_alt pxd_set_address_def Let_def mask24_word bit_simps)

lemma pxd_address_set_address [simp, codec]: "pxd_address (pxd_set_address p a) = take_bit 40 a"
  by (rule bit_word_eqI)
    (auto simp: pxd_address_alt pxd_set_address_def Let_def mask24_word bit_simps)

lemma pxd_length_bound: "unat (pxd_length p) < 2 ^ 24"
proof -
  have "take_bit 24 (unat (read_u32 (len_addr p))) < 2 ^ 24"
    by (rule take_bit_nat_less_exp)
  then show ?thesis by (simp add: pxd_length_alt unsigned_take_bit_eq)
qed

lemma pxd_address_bound: "unat (pxd_address p) < 2 ^ 40"
proof -
  have "take_bit 40 (pxd_address p) = pxd_address p"
    by (rule bit_word_eqI) (auto simp: pxd_address_alt bit_simps dest: bit_imp_le_length)
  then have "unat (pxd_address p) = take_bit 40 (unat (pxd_address p))"
    by (metis unsigned_take_bit_eq)
  also have "\<dots> < 2 ^ 40" by (rule take_bit_nat_less_exp)
  finally show ?thesis .
qed

lemma length_pxd_into_bytes [simp]: "length (pxd_into_bytes p) = 8"
  by (simp add: pxd_into_bytes_def)

lemma pxd_from_into_bytes [simp, codec]: "pxd_from_bytes (pxd_into_bytes p) = p"
  by (simp add: pxd_from_bytes_def pxd_into_bytes_def layout_select)

lemma pxd_into_from_bytes [simp, codec]: "length bs = 8 \<Longrightarrow> pxd_into_bytes (pxd_from_bytes bs) = bs"
  by (simp add: pxd_from_bytes_def pxd_into_bytes_def slice_join slice_whole)

section \<open>Data extent descriptor\<close>

record dxd =
  dxd_flag :: byte
  dxd_rsrvd :: "byte \<times> byte \<times> byte"
  dxd_size :: arr4
  dxd_loc :: pxd

definition dxd_default :: dxd where
  "dxd_default = \<lparr>dxd_flag = 0, dxd_rsrvd = (0, 0, 0), dxd_size = zero4, dxd_loc = pxd_default\<rparr>"

definition DXD_INLINE :: byte where "DXD_INLINE = 0x40"

definition dxd_length :: "dxd \<Rightarrow> 32 word" where
  "dxd_length d = read_u32 (dxd_size d)"

definition dxd_set_length :: "dxd \<Rightarrow> 32 word \<Rightarrow> dxd" where
  "dxd_set_length d n = d\<lparr>dxd_size := write_u32 n\<rparr>"

definition dxd_loc_length :: "dxd \<Rightarrow> 32 word" where
  "dxd_loc_length d = pxd_length (dxd_loc d)"

definition dxd_loc_address :: "dxd \<Rightarrow> 64 word" where
  "dxd_loc_address d = pxd_address (dxd_loc d)"

definition dxd_set_loc :: "dxd \<Rightarrow> 32 word \<Rightarrow> 64 word \<Rightarrow> dxd" where
  "dxd_set_loc d n a = d\<lparr>dxd_loc := pxd_set_address (pxd_set_length pxd_default n) a\<rparr>"

fun dxd_bytes :: "dxd \<Rightarrow> bytes" where
  "dxd_bytes d = (case dxd_rsrvd d of (r0, r1, r2) \<Rightarrow>
     [dxd_flag d, r0, r1, r2] @ list_of_arr4 (dxd_size d) @ pxd_into_bytes (dxd_loc d))"

section \<open>Extent tree entry\<close>

record xad =
  xad_flag :: byte
  xad_rsvrd :: "byte \<times> byte"
  xad_off1 :: byte
  xad_off2 :: arr4
  xad_loc :: pxd

definition xad_default :: xad where
  "xad_default = \<lparr>xad_flag = 0, xad_rsvrd = (0, 0), xad_off1 = 0, xad_off2 = zero4, xad_loc = pxd_default\<rparr>"

definition XAD_NEW :: byte where "XAD_NEW = 0x01"

definition xad_offset_word :: "xad \<Rightarrow> 64 word" where
  "xad_offset_word x = push_bit 32 (ucast (xad_off1 x)) OR ucast (read_u32 (xad_off2 x))"

text \<open>\<open>Xad::offset\<close> returns the 40-bit value as an \<open>i64\<close>.\<close>

definition xad_offset :: "xad \<Rightarrow> int" where
  "xad_offset x = sint (xad_offset_word x)"

definition xad_set_offset :: "xad \<Rightarrow> int \<Rightarrow> xad" where
  "xad_set_offset x off =
     (let val = word_of_int off :: 64 word
      in x\<lparr>xad_off1 := ucast (drop_bit 32 val AND 0xff),
           xad_off2 := write_u32 (ucast (val AND 0xffffffff))\<rparr>)"

definition xad_length :: "xad \<Rightarrow> nat" where
  "xad_length x = unat (pxd_length (xad_loc x))"

definition xad_set_length :: "xad \<Rightarrow> nat \<Rightarrow> xad" where
  "xad_set_length x n = x\<lparr>xad_loc := pxd_set_length (xad_loc x) (word_of_nat n)\<rparr>"

definition xad_address :: "xad \<Rightarrow> nat" where
  "xad_address x = unat (pxd_address (xad_loc x))"

definition xad_set_address :: "xad \<Rightarrow> nat \<Rightarrow> xad" where
  "xad_set_address x a = x\<lparr>xad_loc := pxd_set_address (xad_loc x) (word_of_nat a)\<rparr>"

definition xad_set_flag :: "xad \<Rightarrow> byte \<Rightarrow> xad" where
  "xad_set_flag x f = x\<lparr>xad_flag := f\<rparr>"

lemma xad_offset_word_bound: "uint (xad_offset_word x) < 2 ^ 40"
proof -
  have "take_bit 40 (xad_offset_word x) = xad_offset_word x"
    by (rule bit_word_eqI) (auto simp: xad_offset_word_def bit_simps dest: bit_imp_le_length)
  then have "uint (xad_offset_word x) = take_bit 40 (uint (xad_offset_word x))"
    by (metis unsigned_take_bit_eq)
  also have "\<dots> < 2 ^ 40" by (rule take_bit_int_less_exp)
  finally show ?thesis .
qed

lemma xad_offset_uint: "xad_offset x = uint (xad_offset_word x)"
proof -
  have "uint (xad_offset_word x) < 2 ^ 63" using xad_offset_word_bound [of x] by simp
  moreover have "- (2 ^ 63) \<le> uint (xad_offset_word x)"
    by (rule order_trans [of _ 0]) simp_all
  ultimately show ?thesis
    by (simp add: xad_offset_def sint_uint signed_take_bit_int_eq_self_iff)
qed

lemma xad_offset_bounds [simp]: "0 \<le> xad_offset x" "xad_offset x < 2 ^ 40"
  using xad_offset_word_bound [of x] by (simp_all add: xad_offset_uint)

lemma xad_length_bound [simp]: "xad_length x < 2 ^ 24"
  using pxd_length_bound [of "xad_loc x"] by (simp add: xad_length_def)

lemma xad_address_bound [simp]: "xad_address x < 2 ^ 40"
  using pxd_address_bound [of "xad_loc x"] by (simp add: xad_address_def)

text \<open>How the setters act on the three coordinates \<open>(offset, length, address)\<close>.\<close>

lemma xad_set_length_simps [simp, codec]:
  "xad_offset (xad_set_length x n) = xad_offset x"
  "xad_length (xad_set_length x n) = n mod 2 ^ 24"
  "xad_address (xad_set_length x n) = xad_address x"
proof -
  show "xad_offset (xad_set_length x n) = xad_offset x"
    by (simp add: xad_set_length_def xad_offset_def xad_offset_word_def)
  show "xad_address (xad_set_length x n) = xad_address x"
    by (simp add: xad_set_length_def xad_address_def)
  have "xad_length (xad_set_length x n) = take_bit 24 n"
    by (simp add: xad_set_length_def xad_length_def unsigned_take_bit_eq unsigned_of_nat)
  then show "xad_length (xad_set_length x n) = n mod 2 ^ 24"
    by (simp add: take_bit_eq_mod)
qed

lemma xad_set_address_simps [simp, codec]:
  "xad_offset (xad_set_address x a) = xad_offset x"
  "xad_length (xad_set_address x a) = xad_length x"
  "xad_address (xad_set_address x a) = a mod 2 ^ 40"
proof -
  show "xad_offset (xad_set_address x a) = xad_offset x"
    by (simp add: xad_set_address_def xad_offset_def xad_offset_word_def)
  show "xad_length (xad_set_address x a) = xad_length x"
    by (simp add: xad_set_address_def xad_length_def)
  have "xad_address (xad_set_address x a) = take_bit 40 a"
    by (simp add: xad_set_address_def xad_address_def unsigned_take_bit_eq unsigned_of_nat)
  then show "xad_address (xad_set_address x a) = a mod 2 ^ 40"
    by (simp add: take_bit_eq_mod)
qed

lemma xad_offset_word_set_offset:
  "xad_offset_word (xad_set_offset x off) = take_bit 40 (word_of_int off)"
proof -
  have ff: "(0xff :: 64 word) = mask 8" "(0xffffffff :: 64 word) = mask 32"
    by (simp_all add: mask_eq_exp_minus_1)
  show ?thesis
    by (rule bit_word_eqI)
      (auto simp: xad_offset_word_def xad_set_offset_def Let_def ff bit_simps less_diff_conv2
        dest: bit_imp_le_length)
qed

lemma xad_set_offset_simps [simp, codec]:
  "xad_offset (xad_set_offset x off) = off mod 2 ^ 40"
  "xad_length (xad_set_offset x off) = xad_length x"
  "xad_address (xad_set_offset x off) = xad_address x"
proof -
  have "uint (take_bit 40 (word_of_int off :: 64 word)) = take_bit 40 off"
    by (simp add: unsigned_take_bit_eq unsigned_of_int)
  then show "xad_offset (xad_set_offset x off) = off mod 2 ^ 40"
    by (simp add: xad_offset_uint xad_offset_word_set_offset take_bit_eq_mod)
  show "xad_length (xad_set_offset x off) = xad_length x"
    "xad_address (xad_set_offset x off) = xad_address x"
    by (simp_all add: xad_set_offset_def Let_def xad_length_def xad_address_def)
qed

lemma xad_set_flag_simps [simp, codec]:
  "xad_offset (xad_set_flag x f) = xad_offset x"
  "xad_length (xad_set_flag x f) = xad_length x"
  "xad_address (xad_set_flag x f) = xad_address x"
  by (simp_all add: xad_set_flag_def xad_offset_def xad_offset_word_def xad_length_def xad_address_def)

lemma xad_flag_update_simps [simp, codec]:
  "xad_offset (x\<lparr>xad_flag := f\<rparr>) = xad_offset x"
  "xad_length (x\<lparr>xad_flag := f\<rparr>) = xad_length x"
  "xad_address (x\<lparr>xad_flag := f\<rparr>) = xad_address x"
  by (simp_all add: xad_offset_def xad_offset_word_def xad_length_def xad_address_def)

lemma xad_default_simps [simp]:
  "xad_offset xad_default = 0" "xad_length xad_default = 0" "xad_address xad_default = 0"
  by (simp_all add: xad_default_def pxd_default_def xad_offset_def xad_offset_word_def xad_length_def
      xad_address_def pxd_length_def pxd_address_def)

fun xad_bytes :: "xad \<Rightarrow> bytes" where
  "xad_bytes x = (case xad_rsvrd x of (r0, r1) \<Rightarrow>
     [xad_flag x, r0, r1, xad_off1 x] @ list_of_arr4 (xad_off2 x) @
     list_of_arr4 (len_addr (xad_loc x)) @ list_of_arr4 (addr2 (xad_loc x)))"

lemma length_xad_bytes [simp]: "length (xad_bytes x) = 16"
  by (simp split: prod.split)

section \<open>Time stamps\<close>

record timestruc =
  tv_sec :: arr4
  tv_nsec :: arr4

definition timestruc_default :: timestruc where
  "timestruc_default = \<lparr>tv_sec = zero4, tv_nsec = zero4\<rparr>"

definition seconds :: "timestruc \<Rightarrow> 32 word" where "seconds t = read_u32 (tv_sec t)"
definition set_seconds :: "timestruc \<Rightarrow> 32 word \<Rightarrow> timestruc" where
  "set_seconds t s = t\<lparr>tv_sec := write_u32 s\<rparr>"
definition nanoseconds :: "timestruc \<Rightarrow> 32 word" where "nanoseconds t = read_u32 (tv_nsec t)"
definition set_nanoseconds :: "timestruc \<Rightarrow> 32 word \<Rightarrow> timestruc" where
  "set_nanoseconds t n = t\<lparr>tv_nsec := write_u32 n\<rparr>"

definition timestruc_bytes :: "timestruc \<Rightarrow> bytes" where
  "timestruc_bytes t = list_of_arr4 (tv_sec t) @ list_of_arr4 (tv_nsec t)"

lemma length_timestruc_bytes [simp]: "length (timestruc_bytes t) = 8"
  by (simp add: timestruc_bytes_def)

section \<open>Disk inode\<close>

record dinode =
  di_inostamp :: arr4
  di_fileset :: arr4
  di_number :: arr4
  di_generation :: arr4
  di_ixpxd :: pxd
  di_size :: arr8
  di_nblocks :: arr8
  di_nlink :: arr4
  di_uid :: arr4
  di_gid :: arr4
  di_mode :: arr4
  di_atime :: timestruc
  di_ctime :: timestruc
  di_mtime :: timestruc
  di_otime :: timestruc
  di_acl :: dxd
  di_ea :: dxd
  di_next_index :: arr4
  di_acltype :: arr4
  di_u :: bytes

text \<open>The image of the packed struct in memory: 128 bytes of base area, then the 384-byte union.\<close>

definition dinode_bytes :: "dinode \<Rightarrow> bytes" where
  "dinode_bytes d =
     list_of_arr4 (di_inostamp d) @ list_of_arr4 (di_fileset d) @ list_of_arr4 (di_number d) @
     list_of_arr4 (di_generation d) @ pxd_into_bytes (di_ixpxd d) @ list_of_arr8 (di_size d) @
     list_of_arr8 (di_nblocks d) @ list_of_arr4 (di_nlink d) @ list_of_arr4 (di_uid d) @
     list_of_arr4 (di_gid d) @ list_of_arr4 (di_mode d) @ timestruc_bytes (di_atime d) @
     timestruc_bytes (di_ctime d) @ timestruc_bytes (di_mtime d) @ timestruc_bytes (di_otime d) @
     dxd_bytes (di_acl d) @ dxd_bytes (di_ea d) @ list_of_arr4 (di_next_index d) @
     list_of_arr4 (di_acltype d) @ di_u d"

definition parse_timestruc :: "bytes \<Rightarrow> nat \<Rightarrow> timestruc" where
  "parse_timestruc data at =
     \<lparr>tv_sec = arr4_of (slice at (at + 4) data), tv_nsec = arr4_of (slice (at + 4) (at + 8) data)\<rparr>"

definition parse_dxd :: "bytes \<Rightarrow> nat \<Rightarrow> dxd" where
  "parse_dxd data at =
     \<lparr>dxd_flag = data ! at,
      dxd_rsrvd = (data ! (at + 1), data ! (at + 2), data ! (at + 3)),
      dxd_size = arr4_of (slice (at + 4) (at + 8) data),
      dxd_loc = pxd_from_bytes (slice (at + 8) (at + 16) data)\<rparr>"

definition dinode_parse :: "bytes \<Rightarrow> string + dinode" where
  "dinode_parse data =
     (if length data < 512 then Inl ''insufficient data for dinode''
      else Inr
        \<lparr>di_inostamp = arr4_of (slice 0 4 data),
         di_fileset = arr4_of (slice 4 8 data),
         di_number = arr4_of (slice 8 12 data),
         di_generation = arr4_of (slice 12 16 data),
         di_ixpxd = pxd_from_bytes (slice 16 24 data),
         di_size = arr8_of (slice 24 32 data),
         di_nblocks = arr8_of (slice 32 40 data),
         di_nlink = arr4_of (slice 40 44 data),
         di_uid = arr4_of (slice 44 48 data),
         di_gid = arr4_of (slice 48 52 data),
         di_mode = arr4_of (slice 52 56 data),
         di_atime = parse_timestruc data 56,
         di_ctime = parse_timestruc data 64,
         di_mtime = parse_timestruc data 72,
         di_otime = parse_timestruc data 80,
         di_acl = parse_dxd data 88,
         di_ea = parse_dxd data 104,
         di_next_index = arr4_of (slice 120 124 data),
         di_acltype = arr4_of (slice 124 128 data),
         di_u = slice 128 512 data\<rparr>)"

definition inostamp :: "dinode \<Rightarrow> 32 word" where "inostamp d = read_u32 (di_inostamp d)"
definition fileset :: "dinode \<Rightarrow> 32 word" where "fileset d = read_u32 (di_fileset d)"
definition number :: "dinode \<Rightarrow> 32 word" where "number d = read_u32 (di_number d)"
definition generation :: "dinode \<Rightarrow> 32 word" where "generation d = read_u32 (di_generation d)"
definition size_val :: "dinode \<Rightarrow> 64 word" where "size_val d = read_u64 (di_size d)"
definition set_size_val :: "dinode \<Rightarrow> 64 word \<Rightarrow> dinode" where
  "set_size_val d v = d\<lparr>di_size := write_u64 v\<rparr>"
definition nblocks :: "dinode \<Rightarrow> 64 word" where "nblocks d = read_u64 (di_nblocks d)"
definition set_nblocks :: "dinode \<Rightarrow> 64 word \<Rightarrow> dinode" where
  "set_nblocks d v = d\<lparr>di_nblocks := write_u64 v\<rparr>"
definition nlink :: "dinode \<Rightarrow> 32 word" where "nlink d = read_u32 (di_nlink d)"
definition uid :: "dinode \<Rightarrow> 32 word" where "uid d = read_u32 (di_uid d)"
definition gid :: "dinode \<Rightarrow> 32 word" where "gid d = read_u32 (di_gid d)"
definition mode :: "dinode \<Rightarrow> 32 word" where "mode d = read_u32 (di_mode d)"

definition is_dir :: "dinode \<Rightarrow> bool" where
  "is_dir d \<longleftrightarrow> mode d AND 0xf000 = 0x4000"
definition is_regular :: "dinode \<Rightarrow> bool" where
  "is_regular d \<longleftrightarrow> mode d AND 0xf000 = 0x8000"
definition is_symlink :: "dinode \<Rightarrow> bool" where
  "is_symlink d \<longleftrightarrow> mode d AND 0xf000 = 0xa000"

definition xtroot_bytes :: "dinode \<Rightarrow> bytes" where "xtroot_bytes d = drop 96 (di_u d)"
definition dtroot_bytes :: "dinode \<Rightarrow> bytes" where "dtroot_bytes d = drop 96 (di_u d)"

lemma file_types_exclusive:
  "\<not> (is_dir d \<and> is_regular d)" "\<not> (is_dir d \<and> is_symlink d)" "\<not> (is_regular d \<and> is_symlink d)"
  by (auto simp: is_dir_def is_regular_def is_symlink_def)

lemma length_dxd_bytes [simp]: "length (dxd_bytes d) = 16"
  by (simp split: prod.split)

lemma length_dinode_bytes [simp]: "length (di_u d) = 384 \<Longrightarrow> length (dinode_bytes d) = 512"
  by (simp add: dinode_bytes_def del: dxd_bytes.simps)

lemma slice4: "p + 4 \<le> length data \<Longrightarrow> slice p (p + 4) data = [data ! p, data ! (p + 1), data ! (p + 2), data ! (p + 3)]"
  by (rule nth_equalityI) (auto simp: less_Suc_eq numeral_eq_Suc)

lemma parse_timestruc_slice:
  assumes "slice p (p + 8) data = timestruc_bytes t"
  shows "parse_timestruc data p = t"
proof -
  have "slice p (p + 4) data = slice 0 4 (timestruc_bytes t)"
    "slice (p + 4) (p + 8) data = slice 4 8 (timestruc_bytes t)"
    by (simp_all flip: assms add: slice_slice)
  then show ?thesis
    by (simp add: parse_timestruc_def timestruc_bytes_def layout_select)
qed

lemma timestruc_bytes_parse:
  "p + 8 \<le> length data \<Longrightarrow> timestruc_bytes (parse_timestruc data p) = slice p (p + 8) data"
  by (simp add: parse_timestruc_def timestruc_bytes_def slice_join)

lemma parse_dxd_slice:
  assumes "slice p (p + 16) data = dxd_bytes d" "p + 16 \<le> length data"
  shows "parse_dxd data p = d"
proof -
  obtain r0 r1 r2 where r: "dxd_rsrvd d = (r0, r1, r2)" by (cases "dxd_rsrvd d")
  have b: "dxd_bytes d = [dxd_flag d, r0, r1, r2] @ list_of_arr4 (dxd_size d) @ pxd_into_bytes (dxd_loc d)"
    by (simp add: r)
  have "slice p (p + 4) data = slice 0 4 (dxd_bytes d)"
    "slice (p + 4) (p + 8) data = slice 4 8 (dxd_bytes d)"
    "slice (p + 8) (p + 16) data = slice 8 16 (dxd_bytes d)"
    by (simp_all only: assms(1) [symmetric]) (simp_all add: slice_slice)
  moreover have "slice p (p + 4) data = [data ! p, data ! (p + 1), data ! (p + 2), data ! (p + 3)]"
    using assms(2) by (intro slice4) simp
  ultimately show ?thesis
    by (simp add: parse_dxd_def b r layout_select del: dxd_bytes.simps)
      (simp add: slice_def r)
qed

lemma dxd_bytes_parse:
  assumes "p + 16 \<le> length data"
  shows "dxd_bytes (parse_dxd data p) = slice p (p + 16) data"
proof -
  have "dxd_bytes (parse_dxd data p) =
      [data ! p, data ! (p + 1), data ! (p + 2), data ! (p + 3)] @ slice (p + 4) (p + 8) data @
      slice (p + 8) (p + 16) data"
    using assms by (simp add: parse_dxd_def)
  also have "\<dots> = slice p (p + 4) data @ slice (p + 4) (p + 8) data @ slice (p + 8) (p + 16) data"
    using assms by (simp only: slice4)
  finally show ?thesis by (simp add: slice_join)
qed

lemma dinode_parse_bytes:
  assumes "length (di_u d) = 384"
  shows "dinode_parse (dinode_bytes d) = Inr d"
proof -
  let ?b = "dinode_bytes d"
  note [simp] = layout_select assms
  have l: "length ?b = 512" by simp
  have "parse_timestruc ?b 56 = di_atime d" "parse_timestruc ?b 64 = di_ctime d"
    "parse_timestruc ?b 72 = di_mtime d" "parse_timestruc ?b 80 = di_otime d"
    by (rule parse_timestruc_slice, simp add: dinode_bytes_def del: dxd_bytes.simps)+
  moreover have "parse_dxd ?b 88 = di_acl d"
    by (rule parse_dxd_slice) (simp_all add: dinode_bytes_def del: dxd_bytes.simps)
  moreover have "parse_dxd ?b 104 = di_ea d"
    by (rule parse_dxd_slice) (simp_all add: dinode_bytes_def del: dxd_bytes.simps)
  ultimately show ?thesis
    by (simp add: dinode_parse_def l del: dxd_bytes.simps)
      (simp add: dinode_bytes_def del: dxd_bytes.simps)
qed

lemma dinode_bytes_parse:
  assumes "length data = 512" "dinode_parse data = Inr d"
  shows "dinode_bytes d = data"
  using assms by (auto simp: dinode_parse_def dinode_bytes_def timestruc_bytes_parse dxd_bytes_parse
      slice_join slice_whole simp del: dxd_bytes.simps)

section \<open>Log superblock\<close>

record logsuper =
  ls_magic :: arr4
  ls_version :: arr4
  ls_serial :: arr4
  ls_size :: arr4
  ls_bsize :: arr4
  ls_l2bsize :: arr4
  ls_flag :: arr4
  ls_state :: arr4
  ls_end :: arr4
  ls_uuid :: bytes
  ls_label :: bytes
  ls_active :: "bytes list"

definition MAX_ACTIVE :: nat where "MAX_ACTIVE = 128"

definition logsuper_default :: logsuper where
  "logsuper_default =
     \<lparr>ls_magic = zero4, ls_version = zero4, ls_serial = zero4, ls_size = zero4, ls_bsize = zero4,
      ls_l2bsize = zero4, ls_flag = zero4, ls_state = zero4, ls_end = zero4,
      ls_uuid = replicate 16 0, ls_label = replicate 16 0,
      ls_active = replicate MAX_ACTIVE (replicate 16 0)\<rparr>"

definition ls_magic_val :: "logsuper \<Rightarrow> 32 word" where "ls_magic_val l = read_u32 (ls_magic l)"
definition ls_is_valid :: "logsuper \<Rightarrow> bool" where "ls_is_valid l \<longleftrightarrow> ls_magic_val l = LOGMAGIC"
definition ls_version_val :: "logsuper \<Rightarrow> 32 word" where "ls_version_val l = read_u32 (ls_version l)"
definition ls_page_size :: "logsuper \<Rightarrow> nat" where "ls_page_size l = unat (read_u32 (ls_size l))"
definition ls_state_val :: "logsuper \<Rightarrow> 32 word" where "ls_state_val l = read_u32 (ls_state l)"
definition ls_end_val :: "logsuper \<Rightarrow> nat" where "ls_end_val l = unat (read_u32 (ls_end l))"
definition ls_flag_val :: "logsuper \<Rightarrow> 32 word" where "ls_flag_val l = read_u32 (ls_flag l)"
definition ls_set_state :: "logsuper \<Rightarrow> 32 word \<Rightarrow> logsuper" where
  "ls_set_state l v = l\<lparr>ls_state := write_u32 v\<rparr>"
definition ls_set_end :: "logsuper \<Rightarrow> nat \<Rightarrow> logsuper" where
  "ls_set_end l v = l\<lparr>ls_end := write_u32 (word_of_nat v)\<rparr>"

section \<open>Log page\<close>

record logpage =
  h_page :: arr4
  h_rsrvd :: arr2
  h_eor :: arr2
  lp_data :: "arr4 list"
  t_page :: arr4
  t_rsrvd :: arr2
  t_eor :: arr2

definition LOG_PAGE_DATA_WORDS :: nat where "LOG_PAGE_DATA_WORDS = LOGPSIZE div 4 - 4"

definition logpage_default :: logpage where
  "logpage_default = \<lparr>h_page = zero4, h_rsrvd = zero2, h_eor = zero2,
     lp_data = replicate LOG_PAGE_DATA_WORDS zero4, t_page = zero4, t_rsrvd = zero2, t_eor = zero2\<rparr>"

section \<open>Log record descriptor\<close>

record lrd =
  logtid :: arr4
  backchain :: arr4
  lrd_type :: arr2
  lrd_length :: arr2
  aggregate :: arr4
  redopage_fileset :: arr4
  redopage_inode :: arr4
  redopage_type :: arr2
  redopage_l2linesize :: arr2
  redopage_pxd :: pxd

definition lrd_default :: lrd where
  "lrd_default = \<lparr>logtid = zero4, backchain = zero4, lrd_type = zero2, lrd_length = zero2,
     aggregate = zero4, redopage_fileset = zero4, redopage_inode = zero4, redopage_type = zero2,
     redopage_l2linesize = zero2, redopage_pxd = pxd_default\<rparr>"

definition logtid_val :: "lrd \<Rightarrow> 32 word" where "logtid_val r = read_u32 (logtid r)"
definition backchain_val :: "lrd \<Rightarrow> 32 word" where "backchain_val r = read_u32 (backchain r)"
definition type_val :: "lrd \<Rightarrow> 16 word" where "type_val r = read_u16 (lrd_type r)"
definition length_val :: "lrd \<Rightarrow> nat" where "length_val r = unat (read_u16 (lrd_length r))"
definition aggregate_val :: "lrd \<Rightarrow> nat" where "aggregate_val r = unat (read_u32 (aggregate r))"
definition inode_val :: "lrd \<Rightarrow> 32 word" where "inode_val r = read_u32 (redopage_inode r)"
definition redopage_type_val :: "lrd \<Rightarrow> 16 word" where "redopage_type_val r = read_u16 (redopage_type r)"
definition syncpt_sync :: "lrd \<Rightarrow> nat" where "syncpt_sync r = unat (read_u32 (redopage_fileset r))"

definition is_commit :: "lrd \<Rightarrow> bool" where "is_commit r \<longleftrightarrow> type_val r AND LOG_COMMIT \<noteq> 0"
definition is_syncpt :: "lrd \<Rightarrow> bool" where "is_syncpt r \<longleftrightarrow> type_val r AND LOG_SYNCPT \<noteq> 0"
definition is_redopage :: "lrd \<Rightarrow> bool" where "is_redopage r \<longleftrightarrow> type_val r AND LOG_REDOPAGE \<noteq> 0"
definition is_noredopage :: "lrd \<Rightarrow> bool" where "is_noredopage r \<longleftrightarrow> type_val r AND LOG_NOREDOPAGE \<noteq> 0"
definition is_updatemap :: "lrd \<Rightarrow> bool" where "is_updatemap r \<longleftrightarrow> type_val r AND LOG_UPDATEMAP \<noteq> 0"
definition is_noredoinoext :: "lrd \<Rightarrow> bool" where
  "is_noredoinoext r \<longleftrightarrow> type_val r AND LOG_NOREDOINOEXT \<noteq> 0"
definition is_mount :: "lrd \<Rightarrow> bool" where "is_mount r \<longleftrightarrow> type_val r AND LOG_MOUNT \<noteq> 0"

section \<open>Aggregate superblock\<close>

record superblock =
  s_magic :: arr4
  s_version :: arr4
  s_size :: arr8
  s_bsize :: arr4
  s_l2bsize :: arr2
  s_l2bfactor :: arr2
  s_pbsize :: arr4
  s_l2pbsize :: arr2
  s_pad :: arr2
  s_agsize :: arr4
  s_flag :: arr4
  s_state :: arr4
  s_compress :: arr4
  s_ait2 :: pxd
  s_aim2 :: pxd
  s_logpxd :: pxd

text \<open>
  Of \<open>JfsSuperblock\<close> the record keeps the fields that \<open>Volume::read_super\<close> fills (the others stay
  zero in every value the library builds from a device).
\<close>

definition is_valid_magic :: "superblock \<Rightarrow> bool" where "is_valid_magic sb \<longleftrightarrow> s_magic sb = JFS_MAGIC"
definition sb_version :: "superblock \<Rightarrow> nat" where "sb_version sb = unat (read_u32 (s_version sb))"
definition sb_block_size :: "superblock \<Rightarrow> nat" where "sb_block_size sb = unat (read_u32 (s_bsize sb))"
definition sb_agsize :: "superblock \<Rightarrow> nat" where "sb_agsize sb = unat (read_u32 (s_agsize sb))"
definition sb_flag :: "superblock \<Rightarrow> 32 word" where "sb_flag sb = read_u32 (s_flag sb)"
definition sb_state :: "superblock \<Rightarrow> 32 word" where "sb_state sb = read_u32 (s_state sb)"
definition has_inline_log :: "superblock \<Rightarrow> bool" where "has_inline_log sb \<longleftrightarrow> sb_flag sb AND 0x800 \<noteq> 0"
definition aggregate_size :: "superblock \<Rightarrow> nat" where "aggregate_size sb = unat (read_u64 (s_size sb))"

section \<open>Log sequence numbers\<close>

definition logdiff :: "int \<Rightarrow> int \<Rightarrow> int \<Rightarrow> int" where
  "logdiff syncpt lsn logsize =
     (let diff = lsn - syncpt in if diff < 0 then diff + logsize else diff)"

lemma logdiff_mod:
  assumes "0 \<le> syncpt" "syncpt < logsize" "0 \<le> lsn" "lsn < logsize"
  shows "logdiff syncpt lsn logsize = (lsn - syncpt) mod logsize"
proof (cases "lsn < syncpt")
  case True
  then have "(lsn - syncpt) mod logsize = (lsn - syncpt + logsize) mod logsize" by simp
  also have "\<dots> = lsn - syncpt + logsize" using True assms by (intro mod_pos_pos_trivial) simp_all
  finally show ?thesis using True by (simp add: logdiff_def)
next
  case False
  then show ?thesis using assms by (simp add: logdiff_def)
qed

section \<open>Properties\<close>

text \<open>
  C39. The packed extent descriptor keeps its two fields apart: setting a length below \<open>2^24\<close> and an
  address below \<open>2^40\<close> reads both back, and larger values are cut to those widths.
\<close>

theorem pxd_fields:
  "pxd_length (pxd_set_address (pxd_set_length p n) a) = take_bit 24 n \<and>
   pxd_address (pxd_set_address (pxd_set_length p n) a) = take_bit 40 a \<and>
   pxd_length (pxd_set_length (pxd_set_address p a) n) = take_bit 24 n \<and>
   pxd_address (pxd_set_length (pxd_set_address p a) n) = take_bit 40 a \<and>
   pxd_from_bytes (pxd_into_bytes p) = p"
  by simp

text \<open>
  C38. Parsing is the inverse of the packed in-memory layout of the disk inode, in both directions:
  every field is read at its offset, and no byte of the 512 is lost. Short input is refused.
\<close>

theorem dinode_roundtrip:
  "(length (di_u d) = 384 \<longrightarrow> dinode_parse (dinode_bytes d) = Inr d) \<and>
   (length data = 512 \<longrightarrow> (\<exists>d'. dinode_parse data = Inr d' \<and> dinode_bytes d' = data)) \<and>
   (length data < 512 \<longrightarrow> (\<exists>e. dinode_parse data = Inl e))"
proof (intro conjI impI)
  assume l: "length data = 512"
  then obtain d' where d': "dinode_parse data = Inr d'" by (auto simp: dinode_parse_def)
  with dinode_bytes_parse [OF l d'] show "\<exists>d'. dinode_parse data = Inr d' \<and> dinode_bytes d' = data" by blast
next
  assume "length data < 512" then show "\<exists>e. dinode_parse data = Inl e" by (simp add: dinode_parse_def)
qed (rule dinode_parse_bytes)

theorem dinode_roundtrip_witness:
  "\<exists>d. dinode_parse (replicate 512 7) = Inr d \<and> dinode_bytes d = replicate 512 7"
  using dinode_roundtrip [of _ "replicate 512 7"] by simp

end
