(* ===== verification/Block_Device.thy ===== *)
theory Block_Device
  imports OnDisk
begin

text \<open>
  What the rest of the library relies on of a storage device, as two locales: \<open>block_device\<close> for the clients
  that read and write whole blocks (page cache, transactions, volume) and \<open>byte_device\<close> for those that address
  the device by byte offset (log manager, recovery). Both are interpreted on the memory storage, on the
  file storage and on the trait object.
\<close>

text \<open>A sequence of block writes, stopped by the first failure.\<close>

fun write_seq :: "('s \<Rightarrow> nat \<Rightarrow> bytes \<Rightarrow> unit res \<times> 's) \<Rightarrow> 's \<Rightarrow> (nat \<times> bytes) list \<Rightarrow> unit res \<times> 's" where
  "write_seq wr s [] = (Ok (), s)"
| "write_seq wr s ((b, d) # ws) = st_bind (wr s b d) (\<lambda>_ s'. write_seq wr s' ws)"

locale block_device =
  fixes rd :: "'s \<Rightarrow> nat \<Rightarrow> bytes res"
    and wr :: "'s \<Rightarrow> nat \<Rightarrow> bytes \<Rightarrow> unit res \<times> 's"
    and nblk :: "'s \<Rightarrow> nat"
    and ok :: "'s \<Rightarrow> bool"
  assumes read_total: "ok s \<Longrightarrow> b < nblk s \<Longrightarrow> \<exists>d. rd s b = Ok d \<and> length d = BLOCK_SIZE"
    and write_total: "ok s \<Longrightarrow> b < nblk s \<Longrightarrow> length d = BLOCK_SIZE \<Longrightarrow>
      \<exists>s'. wr s b d = (Ok (), s') \<and> ok s' \<and> nblk s' = nblk s"
    and read_same: "ok s \<Longrightarrow> b < nblk s \<Longrightarrow> length d = BLOCK_SIZE \<Longrightarrow> wr s b d = (Ok (), s') \<Longrightarrow>
      rd s' b = Ok d"
    and read_other: "ok s \<Longrightarrow> b < nblk s \<Longrightarrow> length d = BLOCK_SIZE \<Longrightarrow> wr s b d = (Ok (), s') \<Longrightarrow>
      c \<noteq> b \<Longrightarrow> rd s' c = rd s c"
begin

lemma write_seq_last_wins:
  assumes "ok s" "\<And>b d. (b, d) \<in> set ws \<Longrightarrow> b < nblk s \<and> length d = BLOCK_SIZE"
  shows "\<exists>s'. write_seq wr s ws = (Ok (), s') \<and> ok s' \<and> nblk s' = nblk s \<and>
    (\<forall>c. rd s' c = (case map_of (rev ws) c of Some d \<Rightarrow> Ok d | None \<Rightarrow> rd s c))"
  using assms
proof (induction ws arbitrary: s)
  case Nil
  then show ?case by simp
next
  case (Cons w ws)
  obtain b d where w: "w = (b, d)" by (cases w)
  with Cons.prems have bd: "b < nblk s" "length d = BLOCK_SIZE" by auto
  from write_total [OF Cons.prems(1) bd] obtain s1 where
    s1: "wr s b d = (Ok (), s1)" "ok s1" "nblk s1 = nblk s" by auto
  from Cons.IH [OF s1(2)] Cons.prems(2) s1(3) obtain s' where
    s': "write_seq wr s1 ws = (Ok (), s')" "ok s'" "nblk s' = nblk s1"
    "\<And>c. rd s' c = (case map_of (rev ws) c of Some e \<Rightarrow> Ok e | None \<Rightarrow> rd s1 c)"
    by (metis list.set_intros(2))
  have "rd s' c = (case map_of (rev (w # ws)) c of Some e \<Rightarrow> Ok e | None \<Rightarrow> rd s c)" for c
    using s'(4) [of c] read_same [OF Cons.prems(1) bd s1(1)]
      read_other [OF Cons.prems(1) bd s1(1), of c]
    by (auto simp: w map_add_def split: option.splits)
  with s1 s' show ?case by (auto simp: w)
qed

end

text \<open>
  The byte-granular part of the trait, for the clients that address the device by offset (the log
  manager, recovery): reads return a slice of the contents, writes splice into them.
\<close>

locale byte_device =
  fixes rdb :: "'s \<Rightarrow> nat \<Rightarrow> nat \<Rightarrow> bytes res \<times> 's"
    and wrb :: "'s \<Rightarrow> nat \<Rightarrow> bytes \<Rightarrow> unit res \<times> 's"
    and bytes_of :: "'s \<Rightarrow> bytes"
    and good :: "'s \<Rightarrow> bool"
  assumes read_slice: "good s \<Longrightarrow> a + n \<le> length (bytes_of s) \<Longrightarrow>
      rdb s a n = (Ok (slice a (a + n) (bytes_of s)), s)"
    and write_splice: "good s \<Longrightarrow> a + length d \<le> length (bytes_of s) \<Longrightarrow>
      \<exists>s'. wrb s a d = (Ok (), s') \<and> good s' \<and> bytes_of s' = splice a d (bytes_of s)"
begin

lemma write_read_back:
  assumes "good s" "a + length d \<le> length (bytes_of s)"
  shows "\<exists>s'. wrb s a d = (Ok (), s') \<and> rdb s' a (length d) = (Ok d, s')"
proof -
  from write_splice [OF assms] obtain s' where
    s': "wrb s a d = (Ok (), s')" "good s'" "bytes_of s' = splice a d (bytes_of s)" by blast
  with read_slice [OF s'(2), of a "length d"] assms(2) show ?thesis by simp
qed

lemma write_keeps_slice:
  assumes "good s" "a + length d \<le> length (bytes_of s)" "wrb s a d = (e, s')" "c \<le> a \<or> a + length d \<le> b"
  shows "e = Ok () \<and> good s' \<and> length (bytes_of s') = length (bytes_of s) \<and>
    slice a (a + length d) (bytes_of s') = d \<and> slice b c (bytes_of s') = slice b c (bytes_of s)"
  using write_splice [OF assms(1,2)] assms(2-4) by (auto simp: slice_splice_other)

end

text \<open>
  A block device that keeps its blocks side by side in one byte vector: it is enough to say where a
  block lies and that reads outside the device do not look at the data.
\<close>

lemma block_disjoint:
  assumes "c \<noteq> (b :: nat)"
  shows "c * BLOCK_SIZE + BLOCK_SIZE \<le> b * BLOCK_SIZE \<or> b * BLOCK_SIZE + BLOCK_SIZE \<le> c * BLOCK_SIZE"
proof (cases "c < b")
  case True
  then have "Suc c * BLOCK_SIZE \<le> b * BLOCK_SIZE" by (intro mult_le_mono1) simp
  then show ?thesis by simp
next
  case False
  with assms have "Suc b * BLOCK_SIZE \<le> c * BLOCK_SIZE" by (intro mult_le_mono1) simp
  then show ?thesis by simp
qed

lemma block_fits_in:
  assumes "b < n div BLOCK_SIZE"
  shows "b * BLOCK_SIZE + BLOCK_SIZE \<le> n"
proof -
  have "Suc b * BLOCK_SIZE \<le> n div BLOCK_SIZE * BLOCK_SIZE" using assms by (intro mult_le_mono1) simp
  also have "\<dots> \<le> n" by simp
  finally show ?thesis by simp
qed

lemma block_out_of_range: "\<not> b < n div BLOCK_SIZE \<Longrightarrow> n < b * BLOCK_SIZE + BLOCK_SIZE"
  by (metis BLOCK_SIZE_pos(1) add.commute div_less_iff_less_mult less_Suc_eq_le mult_Suc not_less_eq)

locale sliced_device =
  fixes rd :: "'s \<Rightarrow> nat \<Rightarrow> bytes res"
    and wr :: "'s \<Rightarrow> nat \<Rightarrow> bytes \<Rightarrow> unit res \<times> 's"
    and nblk :: "'s \<Rightarrow> nat"
    and ok :: "'s \<Rightarrow> bool"
    and data :: "'s \<Rightarrow> bytes"
  assumes size_data: "ok s \<Longrightarrow> nblk s = length (data s) div BLOCK_SIZE"
    and read_slice: "ok s \<Longrightarrow> b < nblk s \<Longrightarrow> rd s b = Ok (slice (b * BLOCK_SIZE) (b * BLOCK_SIZE + BLOCK_SIZE) (data s))"
    and write_splice: "ok s \<Longrightarrow> b < nblk s \<Longrightarrow> length d = BLOCK_SIZE \<Longrightarrow>
      \<exists>s'. wr s b d = (Ok (), s') \<and> ok s' \<and> data s' = splice (b * BLOCK_SIZE) d (data s) \<and>
        (\<forall>c. \<not> c < nblk s \<longrightarrow> rd s' c = rd s c)"
begin

lemma block_fits: "ok s \<Longrightarrow> b < nblk s \<Longrightarrow> b * BLOCK_SIZE + BLOCK_SIZE \<le> length (data s)"
  using block_fits_in [of b "length (data s)"] by (simp add: size_data)

lemma write_effect:
  assumes "ok s" "b < nblk s" "length d = BLOCK_SIZE" "wr s b d = (e, s')"
  shows "e = Ok ()" "ok s'" "nblk s' = nblk s" "data s' = splice (b * BLOCK_SIZE) d (data s)"
    "\<not> c < nblk s \<Longrightarrow> rd s' c = rd s c"
  using write_splice [OF assms(1-3)] assms(4) block_fits [OF assms(1,2)] assms(1,3)
  by (auto simp: size_data)

lemma read_written: "ok s \<Longrightarrow> b < nblk s \<Longrightarrow> length d = BLOCK_SIZE \<Longrightarrow> wr s b d = (Ok (), s') \<Longrightarrow> rd s' b = Ok d"
  using write_effect [of s b d "Ok ()" s'] block_fits [of s b] by (simp add: read_slice slice_splice_same')

lemma read_unwritten:
  assumes "ok s" "b < nblk s" "length d = BLOCK_SIZE" "wr s b d = (Ok (), s')" "c \<noteq> b"
  shows "rd s' c = rd s c"
proof (cases "c < nblk s")
  case True
  with assms(1) block_fits [OF assms(1,2)] block_disjoint [OF assms(5)] write_effect [OF assms(1-4)] show ?thesis
    by (simp add: read_slice slice_splice_other assms(3))
qed (use write_effect(5) [OF assms(1-4)] in simp)

end

sublocale sliced_device \<subseteq> block_device
proof unfold_locales
  fix s b assume *: "ok s" "b < nblk s"
  then show "\<exists>d. rd s b = Ok d \<and> length d = BLOCK_SIZE" using block_fits [OF *] by (simp add: read_slice)
next
  fix s b and d :: bytes assume *: "ok s" "b < nblk s" "length d = BLOCK_SIZE"
  from write_splice [OF *] write_effect [OF *] show "\<exists>s'. wr s b d = (Ok (), s') \<and> ok s' \<and> nblk s' = nblk s" by blast
qed (fact read_written read_unwritten)+

end
