(* ===== verification/File_Storage.thy ===== *)
theory File_Storage
  imports Block_Device
begin

text \<open>
  Files and devices of the operating system and the storage on top of them: the write validation, the
  read and write loops and \<open>FileStorage\<close> of \<open>storage/mod.rs\<close>, the geometry of \<open>storage/geometry.rs\<close> and the size
  of \<open>storage/device_size.rs\<close>.

  An open \<open>std::fs::File\<close> is the record \<open>os_file\<close>. What the operating system decides is in its fields: what kind
  of file it is, what \<open>stat\<close> and the \<open>ioctl\<close>s report, how many bytes one positional read or write transfers (fewer
  than asked for, or an error), and whether syncing succeeds. Writes past the end extend a regular file
  and fail on a device.
\<close>

section \<open>Write validation\<close>

definition validate_block_write :: "nat \<Rightarrow> nat \<Rightarrow> bytes \<Rightarrow> unit res" where
  "validate_block_write storage_size block data =
     (if length data \<noteq> BLOCK_SIZE then Err (Other ''write_block: wrong buffer length'')
      else if storage_size \<le> block then Err (BlockOutOfRange block storage_size)
      else Ok ())"

definition validate_block_range :: "nat \<Rightarrow> nat \<Rightarrow> bytes \<Rightarrow> unit res" where
  "validate_block_range storage_size block data =
     (if length data mod BLOCK_SIZE \<noteq> 0 then Err (Other ''write_blocks: not a multiple of BLOCK_SIZE'')
      else
        let count = length data div BLOCK_SIZE in
        if count = 0 then Err (Other ''write_blocks: data length is zero'')
        else if 2 ^ 64 \<le> block + count then Err (Other ''write_blocks: block range overflow'')
        else
          let end = block + count in
          if storage_size \<le> block then Err (BlockOutOfRange block storage_size)
          else if storage_size < end then Err (BlockOutOfRange end storage_size)
          else Ok ())"

section \<open>Files of the operating system\<close>

datatype os_file_type = IsFile | IsBlockDevice | IsCharDevice | IsOther

record os_file =
  of_type :: os_file_type
  of_data :: bytes
  of_stat_size :: nat
  of_media :: "nat option"
  of_sector :: "nat option"
  of_moved :: "nat \<Rightarrow> nat \<Rightarrow> nat option"
  of_syncs :: bool

text \<open>\<open>file.metadata()?.len()\<close>.\<close>

definition metadata_len :: "os_file \<Rightarrow> nat" where
  "metadata_len f = (if of_type f = IsFile then length (of_data f) else of_stat_size f)"

text \<open>One \<open>FileExt::read_at\<close> and one \<open>FileExt::write_at\<close>; \<open>of_moved offset n\<close> is how much the call transfers.\<close>

definition os_read_at :: "os_file \<Rightarrow> nat \<Rightarrow> nat \<Rightarrow> bytes res" where
  "os_read_at f n a =
     (case of_moved f a n of
        None \<Rightarrow> Err (Io False)
      | Some k \<Rightarrow> Ok (slice a (a + min k n) (of_data f)))"

definition os_write_at :: "os_file \<Rightarrow> nat \<Rightarrow> bytes \<Rightarrow> nat res \<times> os_file" where
  "os_write_at f a d =
     (case of_moved f a (length d) of
        None \<Rightarrow> (Err (Io False), f)
      | Some k \<Rightarrow>
          if of_type f = IsFile then
            let d' = take k d in
            if d' = [] then (Ok 0, f)
            else (Ok (length d'),
                  f\<lparr>of_data := splice a d' (of_data f @ replicate (a + length d' - length (of_data f)) 0)\<rparr>)
          else if length (of_data f) \<le> a \<and> d \<noteq> [] then (Err (Io False), f)
          else
            let d' = take (min k (length (of_data f) - a)) d in
            (Ok (length d'), f\<lparr>of_data := splice a d' (of_data f)\<rparr>))"

definition os_sync :: "os_file \<Rightarrow> unit res" where
  "os_sync f = (if of_syncs f then Ok () else Err (Io False))"

section \<open>Exact-length positional reads\<close>

text \<open>
  \<open>read_exact_at\<close> over the operating system's \<open>read_at\<close>, a parameter: given the number of bytes
  wanted and an offset it returns the bytes it read (possibly fewer), or an I/O error. The loop
  runs at most once per missing byte, because a call that returns nothing ends it.
\<close>

function read_exact_at :: "(nat \<Rightarrow> nat \<Rightarrow> bytes res) \<Rightarrow> nat \<Rightarrow> nat \<Rightarrow> bytes \<Rightarrow> bytes res" where
  "read_exact_at read_at offset want filled =
     (if length filled < want then
        case res_bind (add_u64 offset (length filled)) (read_at (want - length filled)) of
          Ok got \<Rightarrow>
            if got = [] then Err (UnexpectedEof want (length filled))
            else read_exact_at read_at offset want (filled @ got)
        | Err e \<Rightarrow> Err e
        | Panic \<Rightarrow> Panic
        | Exit \<Rightarrow> Exit
      else Ok filled)"
  by pat_completeness auto
termination
  by (relation "measure (\<lambda>(_, _, want, filled). want - length filled)")
    (auto intro!: diff_less_mono2)

declare read_exact_at.simps [simp del]

section \<open>Exact-length positional writes\<close>

function write_all_at :: "os_file \<Rightarrow> nat \<Rightarrow> bytes \<Rightarrow> nat \<Rightarrow> unit res \<times> os_file" where
  "write_all_at f offset data written =
     (if written < length data then
        case add_u64 offset written of
          Ok pos \<Rightarrow>
            (case os_write_at f pos (drop written data) of
               (Ok n, f') \<Rightarrow>
                 if n = 0 then (Err (ShortWrite (length data) written), f')
                 else write_all_at f' offset data (written + n)
             | (Err e, f') \<Rightarrow> (Err e, f')
             | (Panic, f') \<Rightarrow> (Panic, f')
             | (Exit, f') \<Rightarrow> (Exit, f'))
        | _ \<Rightarrow> (Panic, f)
      else (Ok (), f))"
  by pat_completeness auto
termination
  by (relation "measure (\<lambda>(_, _, data, written). length data - written)") auto

declare write_all_at.simps [simp del]

section \<open>Device geometry\<close>

record geometry =
  media_size :: nat
  num_sectors :: nat
  sector_size :: nat

definition num_fs_blocks :: "geometry \<Rightarrow> nat" where
  "num_fs_blocks g = media_size g div PSIZE"

definition as_parts :: "geometry \<Rightarrow> nat \<times> nat \<times> nat" where
  "as_parts g = (media_size g, PSIZE, sector_size g)"

definition is_valid_sector_size :: "nat \<Rightarrow> bool" where
  "is_valid_sector_size n \<longleftrightarrow> n \<noteq> 0 \<and> n \<in> (\<lambda>k. 2 ^ k) ` set [0..<32] \<and> n \<le> 4096"

definition sector_size_compatible :: "geometry \<Rightarrow> bool res" where
  "sector_size_compatible g = (if sector_size g = 0 then Panic else Ok (PSIZE mod sector_size g = 0))"

definition validate_against_superblock :: "geometry \<Rightarrow> superblock \<Rightarrow> unit res" where
  "validate_against_superblock g sb =
     (if \<not> is_valid_sector_size (sector_size g) then Err (Other ''invalid sector size'')
      else
        res_bind (sector_size_compatible g) (\<lambda>ok.
        if \<not> ok then Err (Other ''filesystem block size is not a multiple of sector size'')
        else if media_size g < SUPER1_OFF + PSIZE then Err (Other ''device too small to hold JFS superblock'')
        else if 2 ^ 64 \<le> aggregate_size sb * sb_block_size sb then Panic
        else if media_size g < aggregate_size sb * sb_block_size sb
          then Err (Other ''device media size is smaller than filesystem declared size'')
        else Ok ()))"

text \<open>The platform the code is built for (\<open>cfg(target_os)\<close>), which selects the body of \<open>from_device\<close>.\<close>

datatype platform = Linux | FreeBSD | OtherOS

definition stat_geometry :: "nat \<Rightarrow> geometry" where
  "stat_geometry len = \<lparr>media_size = len, num_sectors = (if 0 < len then len div 512 else 0), sector_size = 512\<rparr>"

text \<open>The part the two platforms with \<open>ioctl\<close>s share: capacity, then sector size with a default.\<close>

definition ioctl_geometry :: "os_file \<Rightarrow> geometry res" where
  "ioctl_geometry f =
     (case of_media f of
        None \<Rightarrow> Err (Io False)
      | Some cap \<Rightarrow>
          let sector = max (case of_sector f of None \<Rightarrow> 512 | Some n \<Rightarrow> n) 1
          in Ok \<lparr>media_size = cap, num_sectors = cap div sector, sector_size = sector\<rparr>)"

fun from_device :: "platform \<Rightarrow> os_file \<Rightarrow> geometry res" where
  "from_device Linux f =
     (if of_type f = IsBlockDevice then ioctl_geometry f
      else Ok (stat_geometry
             (if of_type f = IsCharDevice
              then (case of_media f of None \<Rightarrow> metadata_len f | Some n \<Rightarrow> if 0 < n then n else metadata_len f)
              else metadata_len f)))"
| "from_device FreeBSD f =
     (if of_type f = IsCharDevice then ioctl_geometry f else Ok (stat_geometry (metadata_len f)))"
| "from_device OtherOS f = Ok (stat_geometry (metadata_len f))"

definition from_file :: "platform \<Rightarrow> os_file \<Rightarrow> geometry res" where
  "from_file p f =
     (if of_type f = IsFile
      then Ok \<lparr>media_size = metadata_len f, num_sectors = metadata_len f div 512, sector_size = 512\<rparr>
      else case from_device p f of Err _ \<Rightarrow> Ok (stat_geometry (metadata_len f)) | r \<Rightarrow> r)"

text \<open>\<open>get_storage_size\<close> of \<open>device_size.rs\<close>.\<close>

definition device_size :: "os_file \<Rightarrow> nat res" where
  "device_size f = (case of_media f of None \<Rightarrow> Err (Io False) | Some n \<Rightarrow> Ok n)"

definition get_storage_size :: "os_file \<Rightarrow> nat res" where
  "get_storage_size f = (if of_type f = IsFile then Ok (metadata_len f) else device_size f)"

section \<open>File storage\<close>

record file_storage =
  fd_file :: os_file
  fd_size :: nat
  fd_read_only :: bool
  fd_geometry :: geometry

text \<open>The files of the machine by path; a path that is not there fails to open.\<close>

type_synonym files = "string \<rightharpoonup> os_file"

definition open_with_options :: "platform \<Rightarrow> files \<Rightarrow> string \<Rightarrow> bool \<Rightarrow> file_storage res" where
  "open_with_options p fs path ro =
     (case fs path of
        None \<Rightarrow> Err (Io False)
      | Some f \<Rightarrow>
          res_bind (from_file p f) (\<lambda>g.
            Ok \<lparr>fd_file = f, fd_size = media_size g, fd_read_only = ro, fd_geometry = g\<rparr>))"

definition file_open :: "platform \<Rightarrow> files \<Rightarrow> string \<Rightarrow> file_storage res" where
  "file_open p fs path = open_with_options p fs path False"

definition open_readonly :: "platform \<Rightarrow> files \<Rightarrow> string \<Rightarrow> file_storage res" where
  "open_readonly p fs path = open_with_options p fs path True"

definition file_block_to_offset :: "nat \<Rightarrow> nat res" where
  "file_block_to_offset block = (if block * BLOCK_SIZE < 2 ^ 64 then Ok (block * BLOCK_SIZE) else Panic)"

definition file_size_blocks :: "file_storage \<Rightarrow> nat" where
  "file_size_blocks fd = fd_size fd div BLOCK_SIZE"

definition validate_write :: "file_storage \<Rightarrow> nat \<Rightarrow> bytes \<Rightarrow> unit res" where
  "validate_write fd block data =
     (if fd_read_only fd then Err ReadOnly else validate_block_write (file_size_blocks fd) block data)"

definition file_read_bytes :: "file_storage \<Rightarrow> nat \<Rightarrow> nat \<Rightarrow> bytes res" where
  "file_read_bytes fd offset len = read_exact_at (os_read_at (fd_file fd)) offset len []"

definition file_write_bytes :: "file_storage \<Rightarrow> nat \<Rightarrow> bytes \<Rightarrow> unit res \<times> file_storage" where
  "file_write_bytes fd offset data =
     (if fd_read_only fd then (Err ReadOnly, fd)
      else let (r, f) = write_all_at (fd_file fd) offset data 0 in (r, fd\<lparr>fd_file := f\<rparr>))"

definition file_read_block :: "file_storage \<Rightarrow> nat \<Rightarrow> bytes res" where
  "file_read_block fd block =
     res_bind (file_block_to_offset block) (\<lambda>offset. file_read_bytes fd offset BLOCK_SIZE)"

definition file_write_block :: "file_storage \<Rightarrow> nat \<Rightarrow> bytes \<Rightarrow> unit res \<times> file_storage" where
  "file_write_block fd block data =
     st_bind (validate_write fd block data, fd) (\<lambda>_ fd.
     st_bind (file_block_to_offset block, fd) (\<lambda>offset fd. file_write_bytes fd offset data))"

definition file_read_blocks :: "file_storage \<Rightarrow> nat \<Rightarrow> nat \<Rightarrow> bytes res" where
  "file_read_blocks fd block count =
     (if 2 ^ 64 \<le> count * BLOCK_SIZE then Panic
      else res_bind (file_block_to_offset block) (\<lambda>offset. file_read_bytes fd offset (count * BLOCK_SIZE)))"

definition file_write_blocks :: "file_storage \<Rightarrow> nat \<Rightarrow> bytes \<Rightarrow> unit res \<times> file_storage" where
  "file_write_blocks fd block data =
     (if fd_read_only fd then (Err ReadOnly, fd)
      else
        st_bind (validate_block_range (file_size_blocks fd) block data, fd) (\<lambda>_ fd.
        st_bind (file_block_to_offset block, fd) (\<lambda>offset fd. file_write_bytes fd offset data)))"

text \<open>\<open>sync\<close> and \<open>flush_metadata\<close> call \<open>sync_all\<close>, \<open>flush_data\<close> calls \<open>sync_data\<close>.\<close>

definition file_sync :: "file_storage \<Rightarrow> unit res" where
  "file_sync fd = (if fd_read_only fd then Ok () else os_sync (fd_file fd))"

section \<open>The loops transfer everything\<close>

text \<open>
  What the operating system promises of \<open>read_at\<close> on a file with the given contents: it returns a
  prefix of what is there, and nothing only at the end of the file or when nothing is asked for.
\<close>

definition short_reader :: "bytes \<Rightarrow> (nat \<Rightarrow> nat \<Rightarrow> bytes res) \<Rightarrow> bool" where
  "short_reader file read_at \<longleftrightarrow>
     (\<forall>n a. \<exists>k\<le>n. read_at n a = Ok (slice a (a + k) file) \<and> (0 < n \<and> a < length file \<longrightarrow> 0 < k))"

lemma read_exact_at_from:
  assumes "short_reader file read_at" "length file < 2 ^ 64" "filled = slice a (a + length filled) file"
    "length filled \<le> want" "a \<le> length file"
  shows "read_exact_at read_at a want filled =
    (if a + want \<le> length file then Ok (slice a (a + want) file)
     else Err (UnexpectedEof want (length file - a)))"
  using assms(3-)
proof (induction "want - length filled" arbitrary: filled rule: less_induct)
  case less
  let ?n = "want - length filled" and ?p = "a + length filled"
  have fl: "?p \<le> length file" using less.prems by (metis add_le_cancel_left length_slice diff_add_inverse le_add_diff_inverse min.cobounded2)
  then have add: "add_u64 a (length filled) = Ok ?p" using assms(2) by (simp add: add_u64_def)
  show ?case
  proof (cases "length filled < want")
    case False
    with less.prems fl show ?thesis by (simp add: read_exact_at.simps)
  next
    case True
    from assms(1) obtain k where k: "k \<le> ?n" "read_at ?n ?p = Ok (slice ?p (?p + k) file)"
      "0 < ?n \<and> ?p < length file \<longrightarrow> 0 < k"
      unfolding short_reader_def by blast
    show ?thesis
    proof (cases "slice ?p (?p + k) file = []")
      case True
      then have "?p = length file" using k \<open>length filled < want\<close> fl
        by (metis add_diff_cancel_left' diff_is_0_eq length_0_conv length_slice min_def nat_less_le zero_less_diff le_zero_eq)
      with True k add \<open>length filled < want\<close> show ?thesis by (subst read_exact_at.simps) auto
    next
      case False
      let ?f = "filled @ slice ?p (?p + k) file"
      have "?f = slice a (?p + k) file" using less.prems slice_split [where a = a and b = ?p and c = "?p + k" and xs = "file"] by simp
      moreover have "slice a (?p + k) file = slice a (a + length ?f) file"
        using fl by (auto simp: slice_def min_def)
      ultimately have "?f = slice a (a + length ?f) file" by (rule trans)
      moreover have "length ?f \<le> want" using k(1) \<open>length filled < want\<close> by simp
      moreover have "want - length ?f < want - length filled"
        using False \<open>length filled < want\<close> by (intro diff_less_mono2) (auto simp del: length_slice)
      ultimately have "read_exact_at read_at a want ?f =
          (if a + want \<le> length file then Ok (slice a (a + want) file)
           else Err (UnexpectedEof want (length file - a)))"
        using less.hyps less.prems(3) by blast
      then show ?thesis using True False k add by (subst read_exact_at.simps) simp
    qed
  qed
qed

lemma read_exact_at_short:
  assumes "short_reader file read_at" "length file < 2 ^ 64" "0 < want" "a < 2 ^ 64"
  shows "read_exact_at read_at a want [] =
    (if a + want \<le> length file then Ok (slice a (a + want) file)
     else Err (UnexpectedEof want (length file - a)))"
proof (cases "a \<le> length file")
  case True
  with read_exact_at_from [OF assms(1,2), of "[]"] show ?thesis by simp
next
  case False
  from assms(1) obtain k where "read_at want a = Ok (slice a (a + k) file)" unfolding short_reader_def by blast
  with False assms(3,4) show ?thesis by (simp add: read_exact_at.simps add_u64_def slice_def)
qed

text \<open>A file or device that serves every request: each call moves at least one byte, and syncing works.\<close>

definition steady :: "os_file \<Rightarrow> bool" where
  "steady f \<longleftrightarrow> of_syncs f \<and> (\<forall>a n. \<exists>k. of_moved f a n = Some k \<and> (0 < n \<longrightarrow> 0 < k))"

lemma steady_reader: "steady f \<Longrightarrow> short_reader (of_data f) (os_read_at f)"
  unfolding short_reader_def steady_def
proof (intro allI)
  fix n a
  assume "of_syncs f \<and> (\<forall>a n. \<exists>k. of_moved f a n = Some k \<and> (0 < n \<longrightarrow> 0 < k))"
  then obtain k where "of_moved f a n = Some k" "0 < n \<longrightarrow> 0 < k" by blast
  then show "\<exists>k\<le>n. os_read_at f n a = Ok (slice a (a + k) (of_data f)) \<and> (0 < n \<and> a < length (of_data f) \<longrightarrow> 0 < k)"
    by (intro exI [of _ "min k n"]) (auto simp: os_read_at_def)
qed

lemma splice_splice:
  assumes "a + length xs + length ys \<le> length zs"
  shows "splice (a + length xs) ys (splice a xs zs) = splice a (xs @ ys) zs"
  using assms by (simp add: splice_def take_append drop_append) (simp add: ac_simps)

lemma os_write_at_steady:
  assumes "steady f" "a + length d \<le> length (of_data f)" "d \<noteq> []"
  shows "\<exists>k. 0 < k \<and> k \<le> length d \<and> os_write_at f a d = (Ok k, f\<lparr>of_data := splice a (take k d) (of_data f)\<rparr>)"
proof -
  from assms(1,3) obtain k where k: "of_moved f a (length d) = Some k" "0 < k"
    unfolding steady_def by (metis length_greater_0_conv)
  have l: "min (length d) k + a \<le> length (of_data f)" "a < length (of_data f)"
    using assms(2) length_greater_0_conv [THEN iffD2, OF assms(3)] by linarith+
  have "take (min k (length (of_data f) - a)) d = take k d" using assms(2) by (cases "k \<le> length d") (auto simp: min_def)
  moreover have "take (min (length d) k) d = take k d" by (simp add: min_def)
  ultimately have "os_write_at f a d =
      (Ok (min (length d) k), f\<lparr>of_data := splice a (take (min (length d) k) d) (of_data f)\<rparr>)"
    using k l assms(3) by (auto simp: os_write_at_def Let_def add.commute)
  with k assms(3) show ?thesis by (intro exI [of _ "min (length d) k"]) (auto simp: min_def)
qed

lemma write_all_at_from:
  assumes "steady f" "a + length d \<le> length (of_data f)" "length (of_data f) < 2 ^ 64" "w \<le> length d"
    "of_data f = splice a (take w d) z" "length z = length (of_data f)"
  shows "write_all_at f a d w = (Ok (), f\<lparr>of_data := splice a d z\<rparr>)"
  using assms
proof (induction "length d - w" arbitrary: f w rule: less_induct)
  case less
  show ?case
  proof (cases "w < length d")
    case False
    with less.prems(4,5) have "of_data f = splice a d z" by simp
    moreover have "f\<lparr>of_data := of_data f\<rparr> = f" by simp
    ultimately show ?thesis using False by (metis write_all_at.simps)
  next
    case True
    have add: "add_u64 a w = Ok (a + w)" using less.prems(2,3) True by (simp add: add_u64_def)
    obtain k where k: "0 < k" "k \<le> length (drop w d)"
      "os_write_at f (a + w) (drop w d) = (Ok k, f\<lparr>of_data := splice (a + w) (take k (drop w d)) (of_data f)\<rparr>)"
      using os_write_at_steady [of f "a + w" "drop w d"] less.prems(1,2) True by auto
    let ?f = "f\<lparr>of_data := splice (a + w) (take k (drop w d)) (of_data f)\<rparr>"
    have lw: "length (take w d) = w" "length (take k (drop w d)) = k" using True k(2) by auto
    have "of_data ?f = splice (a + w) (take k (drop w d)) (splice a (take w d) z)" by (simp flip: less.prems(5))
    also have "\<dots> = splice a (take (w + k) d) z"
      using splice_splice [of a "take w d" "take k (drop w d)" z] less.prems(2,6) k(2) True
      unfolding lw take_add by simp
    finally have e: "of_data ?f = splice a (take (w + k) d) z" .
    have "length (of_data ?f) = length (of_data f)" using less.prems(2) k(2) lw by simp
    moreover have "steady ?f" using less.prems(1) by (simp add: steady_def)
    ultimately have "write_all_at ?f a d (w + k) = (Ok (), ?f\<lparr>of_data := splice a d z\<rparr>)"
      using less.prems(2,3,6) True k(1,2) e by (intro less.hyps) auto
    with True add k show ?thesis by (subst write_all_at.simps) simp
  qed
qed

text \<open>
  C37. The exact-length loops over a file or device that may transfer less than it is asked for: reading returns
  exactly the bytes of the range, or \<open>UnexpectedEof\<close> with the number of bytes that were there; writing
  within the file puts exactly the data in the range and changes nothing else. Both end.
\<close>

theorem positional_io_correct:
  assumes "steady f" "length (of_data f) < 2 ^ 64"
  shows "(0 < want \<and> a < 2 ^ 64 \<longrightarrow>
      read_exact_at (os_read_at f) a want [] =
        (if a + want \<le> length (of_data f) then Ok (slice a (a + want) (of_data f))
         else Err (UnexpectedEof want (length (of_data f) - a)))) \<and>
    (a + length d \<le> length (of_data f) \<longrightarrow>
      write_all_at f a d 0 = (Ok (), f\<lparr>of_data := splice a d (of_data f)\<rparr>))"
  using read_exact_at_short [OF steady_reader] write_all_at_from [of f a d 0 "of_data f"] assms by auto

text \<open>A regular file of five bytes whose calls move at most two.\<close>

definition slow_file :: "bytes \<Rightarrow> os_file" where
  "slow_file bs = \<lparr>of_type = IsFile, of_data = bs, of_stat_size = 0, of_media = None, of_sector = None,
     of_moved = (\<lambda>a n. Some (min n 2)), of_syncs = True\<rparr>"

lemma slow_file_steady: "steady (slow_file bs)"
  by (simp add: steady_def slow_file_def)

theorem positional_io_correct_witness:
  "read_exact_at (os_read_at (slow_file [1, 2, 3, 4, 5])) 1 3 [] = Ok [2, 3, 4] \<and>
   write_all_at (slow_file [1, 2, 3, 4, 5]) 1 [7, 8, 9] 0 = (Ok (), slow_file [1, 7, 8, 9, 5])"
  using positional_io_correct [OF slow_file_steady, of "[1, 2, 3, 4, 5]" 3 1 "[7, 8, 9]"]
  by (simp add: slow_file_def slice_def splice_def)

section \<open>File storage implements the interfaces\<close>

definition file_ok :: "file_storage \<Rightarrow> bool" where
  "file_ok fd \<longleftrightarrow> \<not> fd_read_only fd \<and> steady (fd_file fd) \<and> fd_size fd = length (of_data (fd_file fd)) \<and>
     fd_size fd < 2 ^ 64"

abbreviation fd_data :: "file_storage \<Rightarrow> bytes" where
  "fd_data fd \<equiv> of_data (fd_file fd)"

lemma file_read_bytes_eq:
  assumes "file_ok fd" "0 < n" "a < 2 ^ 64"
  shows "file_read_bytes fd a n =
    (if a + n \<le> length (fd_data fd) then Ok (slice a (a + n) (fd_data fd))
     else Err (UnexpectedEof n (length (fd_data fd) - a)))"
  using assms read_exact_at_short [OF steady_reader, of "fd_file fd" n a]
  by (simp add: file_ok_def file_read_bytes_def)

lemma file_read_bytes_slice:
  "file_ok fd \<Longrightarrow> a + n \<le> length (fd_data fd) \<Longrightarrow> file_read_bytes fd a n = Ok (slice a (a + n) (fd_data fd))"
  using read_exact_at_from [OF steady_reader, of "fd_file fd" "[]" a n]
  by (simp add: file_ok_def file_read_bytes_def)

lemma file_write_bytes_eq:
  assumes "file_ok fd" "a + length d \<le> length (fd_data fd)"
  shows "file_write_bytes fd a d = (Ok (), fd\<lparr>fd_file := fd_file fd\<lparr>of_data := splice a d (fd_data fd)\<rparr>\<rparr>)"
    "file_ok (fd\<lparr>fd_file := fd_file fd\<lparr>of_data := splice a d (fd_data fd)\<rparr>\<rparr>)"
  using assms write_all_at_from [of "fd_file fd" a d 0 "fd_data fd"]
  by (auto simp: file_ok_def file_write_bytes_def steady_def)

interpretation fbytes: byte_device "\<lambda>fd a n. (file_read_bytes fd a n, fd)" file_write_bytes fd_data file_ok
  by unfold_locales (simp_all add: file_read_bytes_slice file_write_bytes_eq)

interpretation fblocks: sliced_device file_read_block file_write_block file_size_blocks file_ok fd_data
proof unfold_locales
  fix fd b assume *: "file_ok fd" "b < file_size_blocks fd"
  then have "b * BLOCK_SIZE + BLOCK_SIZE \<le> length (fd_data fd)"
    using block_fits_in [of b "length (fd_data fd)"] by (simp add: file_size_blocks_def file_ok_def)
  with * show "file_read_block fd b = Ok (slice (b * BLOCK_SIZE) (b * BLOCK_SIZE + BLOCK_SIZE) (fd_data fd))"
    by (simp add: file_read_block_def file_block_to_offset_def file_read_bytes_slice) (simp add: file_ok_def)
next
  fix fd b and d :: bytes assume *: "file_ok fd" "b < file_size_blocks fd" "length d = BLOCK_SIZE"
  then have r: "b * BLOCK_SIZE + length d \<le> length (fd_data fd)" "b * BLOCK_SIZE < 2 ^ 64"
    using block_fits_in [of b "length (fd_data fd)"] by (auto simp: file_size_blocks_def file_ok_def)
  let ?fd = "fd\<lparr>fd_file := fd_file fd\<lparr>of_data := splice (b * BLOCK_SIZE) d (fd_data fd)\<rparr>\<rparr>"
  have w: "file_write_block fd b d = (Ok (), ?fd)" "file_ok ?fd"
    using * r file_write_bytes_eq [OF *(1) r(1)]
    by (simp_all add: file_write_block_def validate_write_def validate_block_write_def file_block_to_offset_def file_ok_def)
  have "file_read_block ?fd c = file_read_block fd c" if "\<not> c < file_size_blocks fd" for c
    using * r w(2) that block_out_of_range [of c "length (fd_data fd)"]
    by (simp add: file_read_block_def file_block_to_offset_def file_read_bytes_eq)
      (auto simp: file_size_blocks_def file_ok_def)
  with w show "\<exists>s'. file_write_block fd b d = (Ok (), s') \<and> file_ok s' \<and>
      fd_data s' = splice (b * BLOCK_SIZE) d (fd_data fd) \<and>
      (\<forall>c. \<not> c < file_size_blocks fd \<longrightarrow> file_read_block s' c = file_read_block fd c)"
    by auto
qed (simp add: file_size_blocks_def file_ok_def)

end
