(* ===== verification/Storage.thy ===== *)
theory Storage
  imports File_Storage
begin

text \<open>
  The block storage layer of \<open>storage/mod.rs\<close>. The trait object \<open>dyn Storage\<close> is the datatype
  \<open>storage\<close>, with one constructor per implementation in the crate: \<open>NullStorage\<close>, \<open>MemoryStorage\<close>,
  \<open>FileStorage\<close>, the \<open>ReadOnlyStorage\<close> wrapper and the \<open>FaultInjector\<close> wrapper. Every trait method is a
  function on \<open>storage\<close> that returns its outcome and the new storage, since wrappers count calls.

  Memory storage and the trait object are interpretations of the device locales; a healthy trait
  object is a well-formed memory image or a file that serves every request.
\<close>

section \<open>Memory-backed storage\<close>

record mem =
  ms_data :: bytes
  ms_size :: nat

definition mem_new :: "nat \<Rightarrow> mem" where
  "mem_new size_blocks =
     \<lparr>ms_data = replicate (size_blocks * BLOCK_SIZE) 0, ms_size = size_blocks * BLOCK_SIZE\<rparr>"

definition mem_read_bytes :: "mem \<Rightarrow> nat \<Rightarrow> nat \<Rightarrow> bytes res" where
  "mem_read_bytes m offset len =
     res_bind (add_u64 offset len) (\<lambda>end.
       if ms_size m < end then Err (Other ''read beyond end of storage'')
       else slice_res offset end (ms_data m))"

definition mem_write_bytes :: "mem \<Rightarrow> nat \<Rightarrow> bytes \<Rightarrow> unit res \<times> mem" where
  "mem_write_bytes m offset data =
     (case add_u64 offset (length data) of
        Ok end \<Rightarrow>
          if ms_size m < end then (Err (Other ''write beyond end of storage''), m)
          else if length (ms_data m) < end then (Panic, m)
          else (Ok (), m\<lparr>ms_data := splice offset data (ms_data m)\<rparr>)
      | _ \<Rightarrow> (Panic, m))"

definition mem_block_to_offset :: "nat \<Rightarrow> nat res" where
  "mem_block_to_offset block = (if block * BLOCK_SIZE < 2 ^ 64 then Ok (block * BLOCK_SIZE) else Panic)"

definition mem_read_block :: "mem \<Rightarrow> nat \<Rightarrow> bytes res" where
  "mem_read_block m block =
     res_bind (mem_block_to_offset block) (\<lambda>offset. mem_read_bytes m offset BLOCK_SIZE)"

definition mem_write_block :: "mem \<Rightarrow> nat \<Rightarrow> bytes \<Rightarrow> unit res \<times> mem" where
  "mem_write_block m block data =
     (case mem_block_to_offset block of
        Ok offset \<Rightarrow> mem_write_bytes m offset data
      | _ \<Rightarrow> (Panic, m))"

definition mem_read_blocks :: "mem \<Rightarrow> nat \<Rightarrow> nat \<Rightarrow> bytes res" where
  "mem_read_blocks m block count =
     res_bind (mem_block_to_offset block) (\<lambda>offset. mem_read_bytes m offset (count * BLOCK_SIZE))"

definition mem_size_blocks :: "mem \<Rightarrow> nat" where
  "mem_size_blocks m = ms_size m div BLOCK_SIZE"

definition mem_write_blocks :: "mem \<Rightarrow> nat \<Rightarrow> bytes \<Rightarrow> unit res \<times> mem" where
  "mem_write_blocks m block data =
     (case validate_block_range (mem_size_blocks m) block data of
        Ok _ \<Rightarrow>
          (case mem_block_to_offset block of
             Ok offset \<Rightarrow> mem_write_bytes m offset data
           | _ \<Rightarrow> (Panic, m))
      | Err e \<Rightarrow> (Err e, m)
      | Panic \<Rightarrow> (Panic, m)
      | Exit \<Rightarrow> (Exit, m))"

section \<open>Fault injection\<close>

record injector =
  write_count :: nat
  write_fail_at :: nat
  sync_count :: nat
  sync_fail_at :: nat
  crash_on_sync :: bool
  short_write :: bool
  short_read :: bool
  read_fail_at :: nat
  read_count :: nat

definition U64_MAX :: nat where "U64_MAX = 2 ^ 64 - 1"

definition injector_new :: injector where
  "injector_new = \<lparr>write_count = 0, write_fail_at = U64_MAX, sync_count = 0, sync_fail_at = U64_MAX,
     crash_on_sync = False, short_write = False, short_read = False, read_fail_at = U64_MAX,
     read_count = 0\<rparr>"

definition set_write_fail :: "nat \<Rightarrow> injector \<Rightarrow> injector" where
  "set_write_fail n i = i\<lparr>write_fail_at := n\<rparr>"
definition set_read_fail :: "nat \<Rightarrow> injector \<Rightarrow> injector" where
  "set_read_fail n i = i\<lparr>read_fail_at := n\<rparr>"
definition set_sync_fail :: "nat \<Rightarrow> injector \<Rightarrow> injector" where
  "set_sync_fail n i = i\<lparr>sync_fail_at := n\<rparr>"
definition set_crash_on_sync :: "bool \<Rightarrow> injector \<Rightarrow> injector" where
  "set_crash_on_sync b i = i\<lparr>crash_on_sync := b\<rparr>"
definition set_short_write :: "bool \<Rightarrow> injector \<Rightarrow> injector" where
  "set_short_write b i = i\<lparr>short_write := b\<rparr>"
definition set_short_read :: "bool \<Rightarrow> injector \<Rightarrow> injector" where
  "set_short_read b i = i\<lparr>short_read := b\<rparr>"

definition injector_reset :: "injector \<Rightarrow> injector" where
  "injector_reset i = i\<lparr>write_fail_at := U64_MAX, sync_fail_at := U64_MAX, read_fail_at := U64_MAX,
     crash_on_sync := False, short_write := False, short_read := False\<rparr>"

text \<open>\<open>fetch_add(1) + 1\<close>: the number of this call; the test \<open>n >= fail_at && fail_at != 0\<close>.\<close>

definition trips :: "nat \<Rightarrow> nat \<Rightarrow> bool" where
  "trips n fail_at \<longleftrightarrow> fail_at \<le> n \<and> fail_at \<noteq> 0"

section \<open>The storage trait\<close>

datatype storage =
    NullStorage
  | MemoryStorage mem
  | FileStorage file_storage
  | ReadOnlyStorage storage
  | FaultInjector injector storage

fun size_blocks :: "storage \<Rightarrow> nat" where
  "size_blocks NullStorage = 0"
| "size_blocks (MemoryStorage m) = mem_size_blocks m"
| "size_blocks (FileStorage fd) = file_size_blocks fd"
| "size_blocks (ReadOnlyStorage s) = size_blocks s"
| "size_blocks (FaultInjector i s) = size_blocks s"

fun read_block :: "storage \<Rightarrow> nat \<Rightarrow> bytes res \<times> storage" where
  "read_block NullStorage block = (Ok (replicate BLOCK_SIZE 0), NullStorage)"
| "read_block (MemoryStorage m) block = (mem_read_block m block, MemoryStorage m)"
| "read_block (FileStorage fd) block = (file_read_block fd block, FileStorage fd)"
| "read_block (ReadOnlyStorage s) block =
     (let (r, s') = read_block s block in (r, ReadOnlyStorage s'))"
| "read_block (FaultInjector i s) block =
     (let n = read_count i + 1; i' = i\<lparr>read_count := n\<rparr> in
      if trips n (read_fail_at i) then (Err FaultInjection, FaultInjector i' s)
      else
        let (r, s') = read_block s block in
        (res_bind r (\<lambda>data.
           if short_read i then Err (ShortRead BLOCK_SIZE (max (BLOCK_SIZE div 2) 1)) else Ok data),
         FaultInjector i' s'))"

fun read_blocks :: "storage \<Rightarrow> nat \<Rightarrow> nat \<Rightarrow> bytes res \<times> storage" where
  "read_blocks NullStorage block count = (Ok (replicate (count * BLOCK_SIZE) 0), NullStorage)"
| "read_blocks (MemoryStorage m) block count = (mem_read_blocks m block count, MemoryStorage m)"
| "read_blocks (FileStorage fd) block count = (file_read_blocks fd block count, FileStorage fd)"
| "read_blocks (ReadOnlyStorage s) block count =
     (let (r, s') = read_blocks s block count in (r, ReadOnlyStorage s'))"
| "read_blocks (FaultInjector i s) block count =
     (let n = read_count i + 1; i' = i\<lparr>read_count := n\<rparr> in
      if trips n (read_fail_at i) then (Err FaultInjection, FaultInjector i' s)
      else
        let (r, s') = read_blocks s block count; expected = count * BLOCK_SIZE in
        (res_bind r (\<lambda>data.
           if short_read i then Err (ShortRead expected (max (expected div 2) 1)) else Ok data),
         FaultInjector i' s'))"

text \<open>
  The injector's \<open>read_bytes\<close> hands back a truncated buffer when \<open>short_read\<close> is set; slicing an
  empty result to one byte panics.
\<close>

fun read_bytes :: "storage \<Rightarrow> nat \<Rightarrow> nat \<Rightarrow> bytes res \<times> storage" where
  "read_bytes NullStorage offset len = (Ok (replicate len 0), NullStorage)"
| "read_bytes (MemoryStorage m) offset len = (mem_read_bytes m offset len, MemoryStorage m)"
| "read_bytes (FileStorage fd) offset len = (file_read_bytes fd offset len, FileStorage fd)"
| "read_bytes (ReadOnlyStorage s) offset len =
     (let (r, s') = read_bytes s offset len in (r, ReadOnlyStorage s'))"
| "read_bytes (FaultInjector i s) offset len =
     (let n = read_count i + 1; i' = i\<lparr>read_count := n\<rparr> in
      if trips n (read_fail_at i) then (Err FaultInjection, FaultInjector i' s)
      else
        let (r, s') = read_bytes s offset len in
        (res_bind r (\<lambda>data.
           if short_read i then slice_res 0 (max (length data div 2) 1) data else Ok data),
         FaultInjector i' s'))"

fun write_block :: "storage \<Rightarrow> nat \<Rightarrow> bytes \<Rightarrow> unit res \<times> storage" where
  "write_block NullStorage block data = (Ok (), NullStorage)"
| "write_block (MemoryStorage m) block data =
     (let (r, m') = mem_write_block m block data in (r, MemoryStorage m'))"
| "write_block (FileStorage fd) block data =
     (let (r, fd') = file_write_block fd block data in (r, FileStorage fd'))"
| "write_block (ReadOnlyStorage s) block data = (Err ReadOnly, ReadOnlyStorage s)"
| "write_block (FaultInjector i s) block data =
     (let n = write_count i + 1; i' = i\<lparr>write_count := n\<rparr> in
      if trips n (write_fail_at i) then (Err FaultInjection, FaultInjector i' s)
      else if short_write i
      then (Err (ShortWrite (length data) (max (length data div 2) 1)), FaultInjector i' s)
      else let (r, s') = write_block s block data in (r, FaultInjector i' s'))"

fun write_blocks :: "storage \<Rightarrow> nat \<Rightarrow> bytes \<Rightarrow> unit res \<times> storage" where
  "write_blocks NullStorage block data = (Ok (), NullStorage)"
| "write_blocks (MemoryStorage m) block data =
     (let (r, m') = mem_write_blocks m block data in (r, MemoryStorage m'))"
| "write_blocks (FileStorage fd) block data =
     (let (r, fd') = file_write_blocks fd block data in (r, FileStorage fd'))"
| "write_blocks (ReadOnlyStorage s) block data = (Err ReadOnly, ReadOnlyStorage s)"
| "write_blocks (FaultInjector i s) block data =
     (let n = write_count i + 1; i' = i\<lparr>write_count := n\<rparr> in
      if trips n (write_fail_at i) then (Err FaultInjection, FaultInjector i' s)
      else if short_write i
      then (Err (ShortWrite (length data) (max (length data div 2) 1)), FaultInjector i' s)
      else let (r, s') = write_blocks s block data in (r, FaultInjector i' s'))"

fun write_bytes :: "storage \<Rightarrow> nat \<Rightarrow> bytes \<Rightarrow> unit res \<times> storage" where
  "write_bytes NullStorage offset data = (Ok (), NullStorage)"
| "write_bytes (MemoryStorage m) offset data =
     (let (r, m') = mem_write_bytes m offset data in (r, MemoryStorage m'))"
| "write_bytes (FileStorage fd) offset data =
     (let (r, fd') = file_write_bytes fd offset data in (r, FileStorage fd'))"
| "write_bytes (ReadOnlyStorage s) offset data = (Err ReadOnly, ReadOnlyStorage s)"
| "write_bytes (FaultInjector i s) offset data =
     (let n = write_count i + 1; i' = i\<lparr>write_count := n\<rparr> in
      if trips n (write_fail_at i) then (Err FaultInjection, FaultInjector i' s)
      else if short_write i
      then (Err (ShortWrite (length data) (max (length data div 2) 1)), FaultInjector i' s)
      else let (r, s') = write_bytes s offset data in (r, FaultInjector i' s'))"

fun sync :: "storage \<Rightarrow> unit res \<times> storage" where
  "sync NullStorage = (Ok (), NullStorage)"
| "sync (MemoryStorage m) = (Ok (), MemoryStorage m)"
| "sync (FileStorage fd) = (file_sync fd, FileStorage fd)"
| "sync (ReadOnlyStorage s) = (Ok (), ReadOnlyStorage s)"
| "sync (FaultInjector i s) =
     (let n = sync_count i + 1; i' = i\<lparr>sync_count := n\<rparr> in
      if crash_on_sync i then (Exit, FaultInjector i' s)
      else if trips n (sync_fail_at i) then (Err FaultInjection, FaultInjector i' s)
      else let (r, s') = sync s in (r, FaultInjector i' s'))"

text \<open>
  \<open>flush_data\<close> and \<open>flush_metadata\<close> keep the trait's default (\<open>sync\<close>) everywhere but in
  \<open>MemoryStorage\<close>, which returns at once, and in \<open>FileStorage\<close>, whose variants differ in the system call.
\<close>

fun flush_data :: "storage \<Rightarrow> unit res \<times> storage" where
  "flush_data (MemoryStorage m) = (Ok (), MemoryStorage m)"
| "flush_data s = sync s"

fun flush_metadata :: "storage \<Rightarrow> unit res \<times> storage" where
  "flush_metadata (MemoryStorage m) = (Ok (), MemoryStorage m)"
| "flush_metadata s = sync s"

section \<open>Unit conversion\<close>

definition disk_to_fs_block :: "nat \<Rightarrow> nat \<Rightarrow> nat" where
  "disk_to_fs_block pbn l2bfactor = push_bit l2bfactor pbn mod 2 ^ 64"

definition fs_to_disk_block :: "nat \<Rightarrow> nat \<Rightarrow> nat" where
  "fs_to_disk_block fsb l2cfactor = drop_bit l2cfactor fsb"

section \<open>Journal buffer pool\<close>

record buffer_pool =
  buffers :: "bytes list"
  free :: "nat list"

definition pool_new :: "nat \<Rightarrow> nat \<Rightarrow> buffer_pool" where
  "pool_new n page_size = \<lparr>buffers = replicate n (replicate page_size 0), free = [0..<n]\<rparr>"

definition pool_acquire :: "buffer_pool \<Rightarrow> nat option \<times> buffer_pool" where
  "pool_acquire p = (if free p = [] then (None, p) else (Some (last (free p)), p\<lparr>free := butlast (free p)\<rparr>))"

definition pool_release :: "buffer_pool \<Rightarrow> nat \<Rightarrow> unit res \<times> buffer_pool" where
  "pool_release p idx =
     (if idx < length (buffers p)
      then (Ok (), p\<lparr>buffers := (buffers p)[idx := replicate (length (buffers p ! idx)) 0],
                     free := free p @ [idx]\<rparr>)
      else (Panic, p))"

section \<open>The interface the clients rely on\<close>

section \<open>Memory storage implements the interface\<close>

definition mem_ok :: "mem \<Rightarrow> bool" where
  "mem_ok m \<longleftrightarrow> length (ms_data m) = ms_size m \<and> ms_size m < 2 ^ 64"

lemma mem_block_range: "b < mem_size_blocks m \<Longrightarrow> b * BLOCK_SIZE + BLOCK_SIZE \<le> ms_size m"
  using block_fits_in [of b "ms_size m"] by (simp add: mem_size_blocks_def)

lemma mem_read_block_eq:
  assumes "mem_ok m" "b < mem_size_blocks m"
  shows "mem_read_block m b = Ok (slice (b * BLOCK_SIZE) (b * BLOCK_SIZE + BLOCK_SIZE) (ms_data m))"
  using assms mem_block_range [OF assms(2)]
  by (simp add: mem_read_block_def mem_block_to_offset_def mem_read_bytes_def add_u64_def mem_ok_def)

lemma mem_write_block_eq:
  assumes "mem_ok m" "b < mem_size_blocks m" "length d = BLOCK_SIZE"
  shows "mem_write_block m b d = (Ok (), m\<lparr>ms_data := splice (b * BLOCK_SIZE) d (ms_data m)\<rparr>)"
    "mem_ok (m\<lparr>ms_data := splice (b * BLOCK_SIZE) d (ms_data m)\<rparr>)"
  using assms mem_block_range [OF assms(2)]
  by (simp_all add: mem_write_block_def mem_block_to_offset_def mem_write_bytes_def add_u64_def mem_ok_def)

text \<open>A read beyond the end fails without looking at the data.\<close>

lemma mem_read_block_beyond:
  assumes "\<not> b < mem_size_blocks m"
  shows "mem_read_block (m\<lparr>ms_data := x\<rparr>) b = mem_read_block m b"
  using block_out_of_range [of b "ms_size m"] assms
  by (auto simp: mem_read_block_def mem_block_to_offset_def mem_read_bytes_def add_u64_def mem_size_blocks_def)

interpretation mem: sliced_device mem_read_block mem_write_block mem_size_blocks mem_ok ms_data
proof unfold_locales
  fix m b and d :: bytes assume "mem_ok m" "b < mem_size_blocks m" "length d = BLOCK_SIZE"
  from mem_write_block_eq [OF this] mem_read_block_beyond
  show "\<exists>m'. mem_write_block m b d = (Ok (), m') \<and> mem_ok m' \<and> ms_data m' = splice (b * BLOCK_SIZE) d (ms_data m) \<and>
      (\<forall>c. \<not> c < mem_size_blocks m \<longrightarrow> mem_read_block m' c = mem_read_block m c)"
    by auto
qed (simp_all add: mem_read_block_eq, simp add: mem_ok_def mem_size_blocks_def)

text \<open>
  The same interface for the trait object; reads of a healthy storage leave it as it is.
\<close>

fun st_ok :: "storage \<Rightarrow> bool" where
  "st_ok (MemoryStorage m) = mem_ok m"
| "st_ok (FileStorage fd) = file_ok fd"
| "st_ok _ = False"

fun contents :: "storage \<Rightarrow> bytes" where
  "contents (MemoryStorage m) = ms_data m"
| "contents (FileStorage fd) = fd_data fd"
| "contents _ = []"

definition peek_block :: "storage \<Rightarrow> nat \<Rightarrow> bytes res" where
  "peek_block s b = fst (read_block s b)"

lemma st_ok_cases:
  "st_ok s \<longleftrightarrow> (\<exists>m. s = MemoryStorage m \<and> mem_ok m) \<or> (\<exists>fd. s = FileStorage fd \<and> file_ok fd)"
  by (cases s) auto

lemma read_block_ok [simp]: "st_ok s \<Longrightarrow> read_block s b = (peek_block s b, s)"
  by (auto simp: st_ok_cases peek_block_def)

lemma read_bytes_ok: "st_ok s \<Longrightarrow> snd (read_bytes s a n) = s"
  by (auto simp: st_ok_cases)

lemma sync_ok [simp]:
  "st_ok s \<Longrightarrow> sync s = (Ok (), s)" "st_ok s \<Longrightarrow> flush_data s = (Ok (), s)"
  "st_ok s \<Longrightarrow> flush_metadata s = (Ok (), s)"
  by (auto simp: st_ok_cases file_sync_def file_ok_def steady_def os_sync_def)

interpretation dev: sliced_device peek_block write_block size_blocks st_ok contents
proof unfold_locales
  fix s b assume *: "st_ok s" "b < size_blocks s"
  then show "peek_block s b = Ok (slice (b * BLOCK_SIZE) (b * BLOCK_SIZE + BLOCK_SIZE) (contents s))"
    by (cases s) (auto simp: peek_block_def mem.read_slice fblocks.read_slice)
next
  fix s b and d :: bytes assume *: "st_ok s" "b < size_blocks s" "length d = BLOCK_SIZE"
  then show "\<exists>s'. write_block s b d = (Ok (), s') \<and> st_ok s' \<and> contents s' = splice (b * BLOCK_SIZE) d (contents s) \<and>
      (\<forall>c. \<not> c < size_blocks s \<longrightarrow> peek_block s' c = peek_block s c)"
    using mem.write_splice fblocks.write_splice by (cases s) (fastforce simp: peek_block_def)+
qed (auto simp: st_ok_cases mem.size_data fblocks.size_data)

interpretation bdev: byte_device read_bytes write_bytes contents st_ok
proof unfold_locales
  fix s a n assume *: "st_ok s" "a + n \<le> length (contents s)"
  then show "read_bytes s a n = (Ok (slice a (a + n) (contents s)), s)"
    by (cases s) (auto simp: mem_ok_def mem_read_bytes_def add_u64_def file_read_bytes_slice)
next
  fix s a and d :: bytes assume *: "st_ok s" "a + length d \<le> length (contents s)"
  then show "\<exists>s'. write_bytes s a d = (Ok (), s') \<and> st_ok s' \<and> contents s' = splice a d (contents s)"
    by (cases s) (auto simp: mem_ok_def mem_write_bytes_def add_u64_def file_write_bytes_eq)
qed

text \<open>The same device with other bytes on it: what a write leaves.\<close>

fun with_contents :: "storage \<Rightarrow> bytes \<Rightarrow> storage" where
  "with_contents (MemoryStorage m) x = MemoryStorage (m\<lparr>ms_data := x\<rparr>)"
| "with_contents (FileStorage fd) x = FileStorage (fd\<lparr>fd_file := fd_file fd\<lparr>of_data := x\<rparr>\<rparr>)"
| "with_contents s x = s"

lemma with_contents_simps:
  "with_contents (with_contents s x) y = with_contents s y" "with_contents s (contents s) = s"
  by (cases s; simp)+

lemma st_ok_with_contents:
  "st_ok s \<Longrightarrow> length x = length (contents s) \<Longrightarrow> st_ok (with_contents s x)"
  "st_ok s \<Longrightarrow> contents (with_contents s x) = x"
  by (cases s; simp add: mem_ok_def file_ok_def steady_def)+

lemma write_bytes_with_contents:
  assumes "st_ok s" "a + length d \<le> length (contents s)"
  shows "write_bytes s a d = (Ok (), with_contents s (splice a d (contents s)))"
  using assms by (cases s) (auto simp: mem_ok_def mem_write_bytes_def add_u64_def file_write_bytes_eq)

section \<open>Properties\<close>

text \<open>
  A sequence of in-range whole-block writes to a healthy device succeeds, and afterwards every
  block reads back the last data written to it, or what it held before when it was not written.
\<close>

theorem write_block_sequence:
  assumes "st_ok s" "\<And>b d. (b, d) \<in> set ws \<Longrightarrow> b < size_blocks s \<and> length d = BLOCK_SIZE"
  shows "\<exists>s'. write_seq write_block s ws = (Ok (), s') \<and> st_ok s' \<and> size_blocks s' = size_blocks s \<and>
    (\<forall>c. fst (read_block s' c) = (case map_of (rev ws) c of Some d \<Rightarrow> Ok d | None \<Rightarrow> fst (read_block s c)))"
  using dev.write_seq_last_wins [OF assms(1), of ws] assms(2) unfolding peek_block_def by blast

lemma mem_new_ok: "n * BLOCK_SIZE < 2 ^ 64 \<Longrightarrow> mem_ok (mem_new n)"
  by (simp add: mem_ok_def mem_new_def)

lemma mem_new_size [simp]: "mem_size_blocks (mem_new n) = n"
  by (simp add: mem_size_blocks_def mem_new_def)

theorem write_block_sequence_witness:
  "\<exists>s'. write_seq write_block (MemoryStorage (mem_new 4))
      [(1, replicate BLOCK_SIZE 7), (2, replicate BLOCK_SIZE 8), (1, replicate BLOCK_SIZE 9)] = (Ok (), s') \<and>
    fst (read_block s' 1) = Ok (replicate BLOCK_SIZE 9)"
proof -
  let ?ws = "[(1, replicate BLOCK_SIZE 7), (2, replicate BLOCK_SIZE 8), (1, replicate BLOCK_SIZE 9)] :: (nat \<times> bytes) list"
  have "st_ok (MemoryStorage (mem_new 4))" by (simp add: mem_new_ok block_size_defs)
  moreover have "(b, d) \<in> set ?ws \<Longrightarrow> b < size_blocks (MemoryStorage (mem_new 4)) \<and> length d = BLOCK_SIZE" for b d
    by auto
  ultimately obtain s' where s': "write_seq write_block (MemoryStorage (mem_new 4)) ?ws = (Ok (), s')"
    "\<And>c. fst (read_block s' c) = (case map_of (rev ?ws) c of Some d \<Rightarrow> Ok d | None \<Rightarrow>
       fst (read_block (MemoryStorage (mem_new 4)) c))"
    using write_block_sequence [of "MemoryStorage (mem_new 4)" ?ws] by blast
  have "fst (read_block s' 1) = Ok (replicate BLOCK_SIZE 9)" by (subst s'(2)) simp
  with s'(1) show ?thesis by blast
qed

text \<open>One call through the injector that does not trip reaches the wrapped storage unchanged.\<close>

lemma injector_write_pass:
  assumes "\<not> short_write i" "Suc (write_count i) < write_fail_at i"
  shows "write_block (FaultInjector i s) b d =
    (fst (write_block s b d), FaultInjector (i\<lparr>write_count := Suc (write_count i)\<rparr>) (snd (write_block s b d)))"
  using assms by (simp add: trips_def Let_def split: prod.split)

lemma injector_prefix_from:
  assumes "\<not> short_write i" "write_fail_at i = write_count i + Suc n" "n < length ws"
    "write_seq write_block s (take n ws) = (Ok (), s')"
  shows "write_seq write_block (FaultInjector i s) ws =
    (Err FaultInjection, FaultInjector (i\<lparr>write_count := write_count i + Suc n\<rparr>) s')"
  using assms
proof (induction n arbitrary: i s ws)
  case 0
  then obtain b d ws' where "ws = (b, d) # ws'" by (cases ws) auto
  with 0 show ?case by (simp add: trips_def Let_def)
next
  case (Suc n)
  then obtain b d ws' where ws: "ws = (b, d) # ws'" by (cases ws) auto
  let ?i = "i\<lparr>write_count := Suc (write_count i)\<rparr>"
  from Suc.prems(4) obtain s1 where s1: "write_block s b d = (Ok (), s1)"
    "write_seq write_block s1 (take n ws') = (Ok (), s')"
    by (auto simp: ws st_bind_Ok_iff)
  have "write_seq write_block (FaultInjector ?i s1) ws' =
      (Err FaultInjection, FaultInjector (?i\<lparr>write_count := write_count ?i + Suc n\<rparr>) s')"
    using Suc.prems s1(2) by (intro Suc.IH) (auto simp: ws)
  moreover have "write_block (FaultInjector i s) b d = (Ok (), FaultInjector ?i s1)"
    using Suc.prems(1,2) s1(1) by (simp add: injector_write_pass del: write_block.simps)
  ultimately show ?case by (simp add: ws del: write_block.simps)
qed

text \<open>
  Fault injection models a crash after a prefix of the writes: with \<open>set_write_fail(n + 1)\<close> on a
  fresh injector, a sequence of more than \<open>n\<close> writes fails with \<open>FaultInjection\<close>, and the wrapped
  storage is the one that the first \<open>n\<close> writes produce without the injector.
\<close>

theorem fault_injector_prefix:
  assumes "n < length ws" "write_seq write_block s (take n ws) = (Ok (), s')"
  shows "write_seq write_block (FaultInjector (set_write_fail (Suc n) injector_new) s) ws =
    (Err FaultInjection, FaultInjector (set_write_fail (Suc n) injector_new\<lparr>write_count := Suc n\<rparr>) s')"
  using injector_prefix_from [of "set_write_fail (Suc n) injector_new" n ws s s'] assms
  by (simp add: set_write_fail_def injector_new_def)

theorem fault_injector_prefix_witness:
  "fst (write_seq write_block (FaultInjector (set_write_fail 2 injector_new) NullStorage)
     [(5, []), (6, []), (7, [])]) = Err FaultInjection"
  using fault_injector_prefix [of 1 "[(5, []), (6, []), (7, [])]" NullStorage NullStorage]
  by (simp add: numeral_2_eq_2 del: write_block.simps(4))

text \<open>
  The methods of the trait as steps, for what holds along every sequence of calls.
\<close>

inductive trait_call :: "storage \<Rightarrow> storage \<Rightarrow> bool" where
  "trait_call s (snd (read_block s b))"
| "trait_call s (snd (read_blocks s b n))"
| "trait_call s (snd (read_bytes s a n))"
| "trait_call s (snd (write_block s b d))"
| "trait_call s (snd (write_blocks s b d))"
| "trait_call s (snd (write_bytes s a d))"
| "trait_call s (snd (sync s))"
| "trait_call s (snd (flush_data s))"
| "trait_call s (snd (flush_metadata s))"

inductive_cases trait_callE: "trait_call s t"

text \<open>What is on the medium, with the wrappers' call counters set aside.\<close>

fun medium :: "storage \<Rightarrow> storage" where
  "medium (ReadOnlyStorage s) = medium s"
| "medium (FaultInjector i s) = medium s"
| "medium s = s"

lemma reads_keep_medium [simp]:
  "medium (snd (read_block s b)) = medium s"
  "medium (snd (read_blocks s b n)) = medium s"
  "medium (snd (read_bytes s a n)) = medium s"
  by (induction s) (auto simp: Let_def split: prod.splits)

lemma sync_keeps_medium [simp]:
  "medium (snd (sync s)) = medium s"
  by (induction s) (auto simp: Let_def split: prod.splits)

lemma flush_keeps_medium [simp]:
  "medium (snd (flush_data s)) = medium s" "medium (snd (flush_metadata s)) = medium s"
  using sync_keeps_medium by (cases s; simp del: sync.simps)+

lemma read_only_step:
  assumes "trait_call (ReadOnlyStorage s) t"
  shows "\<exists>s'. t = ReadOnlyStorage s' \<and> medium s' = medium s"
  using assms
  by (rule trait_callE) (auto simp: Let_def split: prod.splits dest!: arg_cong [where f = "\<lambda>p. medium (snd p)"])

text \<open>
  C35. Whatever is called on a storage wrapped by \<open>ReadOnlyStorage\<close>, in whatever order, the wrapper
  stays in place, the medium is never changed, and each write returns \<open>ReadOnly\<close>.
\<close>

theorem read_only_storage_safe:
  assumes "trait_call\<^sup>*\<^sup>* (ReadOnlyStorage s) t"
  shows "medium t = medium s \<and> fst (write_block t b d) = Err ReadOnly \<and>
    fst (write_blocks t b d) = Err ReadOnly \<and> fst (write_bytes t a d) = Err ReadOnly"
proof -
  from assms have "\<exists>s'. t = ReadOnlyStorage s' \<and> medium s' = medium s"
    by (induction rule: rtranclp_induct) (auto dest: read_only_step)
  then show ?thesis by auto
qed

theorem read_only_storage_safe_witness:
  "medium (snd (write_bytes (ReadOnlyStorage (MemoryStorage (mem_new 1))) 0 [1])) = MemoryStorage (mem_new 1)"
  using read_only_storage_safe [of "MemoryStorage (mem_new 1)"
      "snd (write_bytes (ReadOnlyStorage (MemoryStorage (mem_new 1))) 0 [1])"]
    trait_call.intros(6) [of "ReadOnlyStorage (MemoryStorage (mem_new 1))" 0 "[1]"]
  by (metis medium.simps(4) r_into_rtranclp)

lemma validate_block_range_Ok:
  "validate_block_range n b d = Ok () \<longleftrightarrow>
     length d mod BLOCK_SIZE = 0 \<and> d \<noteq> [] \<and> b + length d div BLOCK_SIZE \<le> n \<and>
     b + length d div BLOCK_SIZE < 2 ^ 64"
proof -
  have "length d mod BLOCK_SIZE = 0 \<Longrightarrow> length d div BLOCK_SIZE = 0 \<longleftrightarrow> d = []"
    by (metis div_0 length_0_conv mod_div_trivial mult_div_mod_eq mult_is_0 add_is_0)
  then show ?thesis
    by (cases "length d mod BLOCK_SIZE = 0") (auto simp: validate_block_range_def Let_def not_less not_le)
qed

lemma validate_block_range_cases: "validate_block_range n b d = Ok () \<or> (\<exists>e. validate_block_range n b d = Err e)"
  by (simp add: validate_block_range_def Let_def)

lemma blocks_apart:
  "c < b \<or> b + n \<le> c \<Longrightarrow> c * BLOCK_SIZE + BLOCK_SIZE \<le> b * BLOCK_SIZE \<or> b * BLOCK_SIZE + n * BLOCK_SIZE \<le> c * BLOCK_SIZE"
  by (auto simp: block_size_defs)

lemma mem_read_blocks_slice:
  assumes "mem_ok m" "b * BLOCK_SIZE + n * BLOCK_SIZE \<le> ms_size m"
  shows "mem_read_blocks m b n = Ok (slice (b * BLOCK_SIZE) (b * BLOCK_SIZE + n * BLOCK_SIZE) (ms_data m))"
  using assms by (simp add: mem_read_blocks_def mem_block_to_offset_def mem_read_bytes_def add_u64_def mem_ok_def)

text \<open>
  C36. A multi-block write to memory is decided by its length and its range alone. If the length is a positive multiple of the
  block size and the range lies within the device, it is accepted, the range reads back as written and every other
  block reads as before. In all other cases it is refused with an error and the device is unchanged.
\<close>

theorem write_blocks_roundtrip:
  assumes "mem_ok m"
  shows "if length d mod BLOCK_SIZE = 0 \<and> d \<noteq> [] \<and> b + length d div BLOCK_SIZE \<le> mem_size_blocks m
     then \<exists>m'. mem_write_blocks m b d = (Ok (), m') \<and> mem_ok m' \<and> mem_size_blocks m' = mem_size_blocks m \<and>
            mem_read_blocks m' b (length d div BLOCK_SIZE) = Ok d \<and>
            (\<forall>c<mem_size_blocks m. c < b \<or> b + length d div BLOCK_SIZE \<le> c \<longrightarrow> mem_read_block m' c = mem_read_block m c)
     else \<exists>e. mem_write_blocks m b d = (Err e, m)"
proof (cases "length d mod BLOCK_SIZE = 0 \<and> d \<noteq> [] \<and> b + length d div BLOCK_SIZE \<le> mem_size_blocks m")
  case False
  then have "validate_block_range (mem_size_blocks m) b d \<noteq> Ok ()" by (auto simp: validate_block_range_Ok)
  then obtain e where "validate_block_range (mem_size_blocks m) b d = Err e" using validate_block_range_cases by blast
  then show ?thesis by (simp only: if_not_P [OF False]) (simp add: mem_write_blocks_def)
next
  case r: True
  let ?n = "length d div BLOCK_SIZE"
  let ?m = "m\<lparr>ms_data := splice (b * BLOCK_SIZE) d (ms_data m)\<rparr>"
  from r have l: "length d = ?n * BLOCK_SIZE"
    using mult_div_mod_eq [of BLOCK_SIZE "length d"] by (simp add: mult.commute)
  have "(b + ?n) * BLOCK_SIZE \<le> mem_size_blocks m * BLOCK_SIZE" using r by (intro mult_le_mono1) simp
  also have "\<dots> \<le> ms_size m" by (simp add: mem_size_blocks_def)
  finally have e: "b * BLOCK_SIZE + length d \<le> ms_size m" using l by (metis add_mult_distrib)
  have sz: "mem_size_blocks ?m = mem_size_blocks m" by (simp add: mem_size_blocks_def)
  have "mem_size_blocks m \<le> ms_size m" by (simp add: mem_size_blocks_def)
  with r assms have "validate_block_range (mem_size_blocks m) b d = Ok ()"
    by (simp add: validate_block_range_Ok mem_ok_def)
  with e assms have "mem_write_blocks m b d = (Ok (), ?m)"
    by (simp add: mem_write_blocks_def mem_block_to_offset_def mem_write_bytes_def add_u64_def mem_ok_def)
  moreover have ok: "mem_ok ?m" using assms e by (simp add: mem_ok_def)
  moreover have "mem_read_blocks ?m b ?n = Ok d"
    using mem_read_blocks_slice [OF ok, of b ?n] e assms unfolding l [symmetric]
    by (simp add: mem_ok_def)
  moreover have "mem_read_block ?m c = mem_read_block m c" if c: "c < mem_size_blocks m" "c < b \<or> b + ?n \<le> c" for c
    using mem_read_block_eq [OF assms c(1)] mem_read_block_eq [OF ok, of c] mem_block_range [OF c(1)] c sz e assms
      blocks_apart [OF c(2)] unfolding l [symmetric]
    by (simp add: slice_splice_other mem_ok_def)
  ultimately show ?thesis using r sz by auto
qed

theorem write_blocks_roundtrip_witness:
  "\<exists>m'. mem_write_blocks (mem_new 3) 1 (replicate (2 * BLOCK_SIZE) 5) = (Ok (), m') \<and>
     mem_read_blocks m' 1 2 = Ok (replicate (2 * BLOCK_SIZE) 5)"
  using write_blocks_roundtrip [of "mem_new 3" "replicate (2 * BLOCK_SIZE) 5" 1]
    mem_new_ok [of 3] by (simp add: block_size_defs) blast

end
