(* ===== verification/Xtree.thy ===== *)
theory Xtree
  imports Storage "HOL-Library.Multiset"
begin

text \<open>
  The inline extent tree of \<open>btree/xtree.rs\<close>: the root that sits in the inode (\<open>XtRoot\<close>, 18 slots of
  which the first two overlap the header), lookup and block mapping, reading file data through the
  map, and the operations that edit the map: insertion, truncation, hole punching, taking a range
  out, splitting, and the validity check.

  The map a root stands for is \<open>xmap\<close>: the physical block of each logical block. Editing operations
  are proved against it. Truncate, punch and take share one loop (decide per entry what is kept and
  what is given up, write the kept entries back), and one contract, the locale \<open>extent_editor\<close>.

  Signed 64-bit subtractions are over \<open>int\<close>; with \<open>0 \<le> start \<le> end\<close>, which every caller in
  \<open>volume.rs\<close> provides, none of them leaves the 64-bit range.
\<close>

section \<open>Data\<close>

definition XTROOTMAXSLOT :: nat where "XTROOTMAXSLOT = 18"
definition XTENTRYSTART :: nat where "XTENTRYSTART = 2"

lemmas xt_consts = XTROOTMAXSLOT_def XTENTRYSTART_def

record xt_header =
  xh_next :: arr8
  xh_prev :: arr8
  xh_flag :: byte
  xh_rsrvd1 :: byte
  xh_nextindex :: arr2
  xh_maxentry :: arr2
  xh_rsrvd2 :: arr2
  self_pxd :: pxd

definition xt_header_default :: xt_header where
  "xt_header_default = \<lparr>xh_next = zero8, xh_prev = zero8, xh_flag = 0, xh_rsrvd1 = 0,
     xh_nextindex = zero2, xh_maxentry = zero2, xh_rsrvd2 = zero2, self_pxd = pxd_default\<rparr>"

definition nextindex :: "xt_header \<Rightarrow> nat" where
  "nextindex h = unat (read_u16 (xh_nextindex h))"

definition set_nextindex :: "xt_header \<Rightarrow> nat \<Rightarrow> xt_header" where
  "set_nextindex h n = h\<lparr>xh_nextindex := write_u16 (word_of_nat n)\<rparr>"

lemma nextindex_set [simp]: "n < 2 ^ 16 \<Longrightarrow> nextindex (set_nextindex h n) = n"
  by (simp add: nextindex_def set_nextindex_def unsigned_of_nat take_bit_nat_eq_self)

record xtroot =
  header :: xt_header
  xads :: "xad list"

definition xtroot_default :: xtroot where
  "xtroot_default = \<lparr>header = xt_header_default, xads = replicate XTROOTMAXSLOT xad_default\<rparr>"

definition xt_wf :: "xtroot \<Rightarrow> bool" where
  "xt_wf r \<longleftrightarrow> length (xads r) = XTROOTMAXSLOT"

definition next_index :: "xtroot \<Rightarrow> nat" where
  "next_index r = nextindex (header r)"

text \<open>
  \<open>for i in XTENTRYSTART..next_index { if i >= XTROOTMAXSLOT { break; } ... self.root.xad[i] ... }\<close>:
  the entries every loop of the file visits.
\<close>

definition live :: "xtroot \<Rightarrow> xad list" where
  "live r = slice XTENTRYSTART (min (next_index r) XTROOTMAXSLOT) (xads r)"

section \<open>Parsing and serialisation\<close>

definition parse_xad :: "bytes \<Rightarrow> xad res" where
  "parse_xad data =
     (if length data < 16 then Err (Other ''insufficient data for xad'')
      else Ok \<lparr>xad_flag = data ! 0, xad_rsvrd = (data ! 1, data ! 2), xad_off1 = data ! 3,
               xad_off2 = arr4_of (slice 4 8 data), xad_loc = pxd_from_bytes (slice 8 16 data)\<rparr>)"

fun parse_xads :: "bytes \<Rightarrow> nat \<Rightarrow> nat list \<Rightarrow> xad list \<Rightarrow> xad list res" where
  "parse_xads data xad_base [] xs = Ok xs"
| "parse_xads data xad_base (i # is) xs =
     (let base = xad_base + i * 16 in
      if length data < base + 16 then Ok xs
      else res_bind (parse_xad (slice base (base + 16) data))
             (\<lambda>x. parse_xads data xad_base is (xs[XTENTRYSTART + i := x])))"

definition parse_xtroot :: "bytes \<Rightarrow> xtroot res" where
  "parse_xtroot data =
     (if length data < 20 then Err (Other ''insufficient data for xtroot header'')
      else if length data < 32 then Panic
      else
        res_bind (parse_xads data 32 [0..<XTROOTMAXSLOT - XTENTRYSTART] (xads xtroot_default))
          (\<lambda>xs. Ok
             \<lparr>header =
                \<lparr>xh_next = arr8_of (slice 0 8 data), xh_prev = arr8_of (slice 8 16 data),
                 xh_flag = data ! 16, xh_rsrvd1 = data ! 17,
                 xh_nextindex = arr2_of (slice 18 20 data), xh_maxentry = arr2_of (slice 20 22 data),
                 xh_rsrvd2 = arr2_of (slice 22 24 data), self_pxd = pxd_from_bytes (slice 24 32 data)\<rparr>,
              xads = xs\<rparr>))"

definition from_inode_data :: "bytes \<Rightarrow> xtroot res" where
  "from_inode_data data =
     (if length data < 96 then Err (Other ''insufficient data for xtroot'') else parse_xtroot data)"

definition xt_header_bytes :: "xt_header \<Rightarrow> bytes" where
  "xt_header_bytes h =
     list_of_arr8 (xh_next h) @ list_of_arr8 (xh_prev h) @ [xh_flag h, xh_rsrvd1 h] @
     list_of_arr2 (xh_nextindex h) @ list_of_arr2 (xh_maxentry h) @ list_of_arr2 (xh_rsrvd2 h) @
     list_of_arr4 (len_addr (self_pxd h)) @ list_of_arr4 (addr2 (self_pxd h))"

fun put_xads :: "xtroot \<Rightarrow> nat \<Rightarrow> nat list \<Rightarrow> bytes \<Rightarrow> bytes" where
  "put_xads r xad_base [] buf = buf"
| "put_xads r xad_base (i # is) buf =
     (let base = xad_base + i * 16 in
      if length buf < base + 16 then buf
      else put_xads r xad_base is (splice base (xad_bytes (xads r ! (XTENTRYSTART + i))) buf))"

definition to_bytes :: "xtroot \<Rightarrow> bytes" where
  "to_bytes r =
     put_xads r 32 [0..<XTROOTMAXSLOT - XTENTRYSTART]
       (splice 0 (xt_header_bytes (header r)) (replicate 288 0))"

section \<open>Lookup and block mapping\<close>

record extent =
  e_offset :: int
  e_length :: nat
  e_address :: nat
  e_flags :: byte

definition xadflag_truncate :: "byte \<Rightarrow> byte" where
  "xadflag_truncate f = f AND 0x1f"

definition covers :: "xad \<Rightarrow> nat \<Rightarrow> bool" where
  "covers x offset \<longleftrightarrow> nat (xad_offset x) \<le> offset \<and> offset < nat (xad_offset x) + xad_length x"

definition extent_of :: "xad \<Rightarrow> extent" where
  "extent_of x = \<lparr>e_offset = xad_offset x, e_length = xad_length x, e_address = xad_address x,
     e_flags = xadflag_truncate (xad_flag x)\<rparr>"

fun lookup_in :: "xad list \<Rightarrow> nat \<Rightarrow> extent option" where
  "lookup_in [] offset = None"
| "lookup_in (x # xs) offset = (if covers x offset then Some (extent_of x) else lookup_in xs offset)"

definition lookup :: "xtroot \<Rightarrow> nat \<Rightarrow> extent option" where
  "lookup r offset = lookup_in (live r) offset"

lemma lookup_in_Some:
  "lookup_in xs b = Some e \<Longrightarrow> \<exists>x\<in>set xs. e = extent_of x \<and> covers x b"
  by (induction xs) (auto split: if_splits)

lemma lookup_Some_bounds:
  assumes "lookup r b = Some e"
  shows "nat (e_offset e) \<le> b" "b < nat (e_offset e) + e_length e"
  using lookup_in_Some [OF assms [unfolded lookup_def]] by (auto simp: covers_def extent_of_def)

lemma lookup_Some_rel: "lookup r b = Some e \<Longrightarrow> b - nat (e_offset e) < e_length e"
  using lookup_Some_bounds [of r b e] by linarith

function map_blocks_loop :: "xtroot \<Rightarrow> nat \<Rightarrow> nat \<Rightarrow> (nat \<times> nat) list" where
  "map_blocks_loop r current end =
     (if current < end then
        (case lookup r current of
           Some e \<Rightarrow>
             let rel = current - nat (e_offset e);
                 remaining = end - current;
                 tk = min (e_length e - rel) remaining
             in (e_address e + rel, tk) # map_blocks_loop r (current + tk) end
         | None \<Rightarrow> [(0, end - current)])
      else [])"
  by pat_completeness auto
termination
  by (relation "measure (\<lambda>(_, current, end). end - current)")
    (auto dest: lookup_Some_rel intro!: diff_less_mono2)

declare map_blocks_loop.simps [simp del]

definition map_blocks :: "xtroot \<Rightarrow> nat \<Rightarrow> nat \<Rightarrow> (nat \<times> nat) list res" where
  "map_blocks r offset len =
     res_bind (add_u64 offset len) (\<lambda>end. Ok (map_blocks_loop r offset end))"

definition iter_extents :: "xtroot \<Rightarrow> extent list" where
  "iter_extents r = map extent_of (filter (\<lambda>x. xad_length x \<noteq> 0) (live r))"

section \<open>Reading file data\<close>

text \<open>
  The inner loop \<open>for blk in 0..block_count\<close>. The interruptible version polls its token before each
  block read; \<open>chk k\<close> is the outcome of the \<open>k\<close>-th poll (another thread may set the flag at any time).
  The plain version is the same loop with no poll.
\<close>

record read_state =
  rs_result :: bytes
  rs_remaining :: nat
  rs_buf_offset :: nat
  rs_polls :: nat

fun read_run :: "(nat \<Rightarrow> unit res) \<Rightarrow> nat \<Rightarrow> nat \<Rightarrow> read_state \<Rightarrow> storage \<Rightarrow> read_state res \<times> storage" where
  "read_run chk addr 0 st s = (Ok st, s)"
| "read_run chk addr (Suc n) st s =
     (if rs_remaining st = 0 then (Ok st, s)
      else
        case chk (rs_polls st) of
          Ok _ \<Rightarrow>
            st_bind (read_block s addr) (\<lambda>data s'.
              let to_copy = min (BLOCK_SIZE - rs_buf_offset st) (rs_remaining st) in
              case slice_res (rs_buf_offset st) (rs_buf_offset st + to_copy) data of
                Ok piece \<Rightarrow>
                  read_run chk (addr + 1) n
                    \<lparr>rs_result = rs_result st @ piece, rs_remaining = rs_remaining st - to_copy,
                     rs_buf_offset = 0, rs_polls = rs_polls st + 1\<rparr> s'
              | _ \<Rightarrow> (Panic, s'))
        | Err e \<Rightarrow> (Err e, s)
        | Panic \<Rightarrow> (Panic, s)
        | Exit \<Rightarrow> (Exit, s))"

fun read_extents :: "(nat \<Rightarrow> unit res) \<Rightarrow> (nat \<times> nat) list \<Rightarrow> read_state \<Rightarrow> storage \<Rightarrow> read_state res \<times> storage" where
  "read_extents chk [] st s = (Ok st, s)"
| "read_extents chk ((block_addr, block_count) # es) st s =
     (if block_addr = 0 then
        let zeros = min (block_count * BLOCK_SIZE) (rs_remaining st);
            st' = st\<lparr>rs_result := rs_result st @ replicate zeros 0,
                     rs_remaining := rs_remaining st - zeros, rs_buf_offset := 0\<rparr>
        in if rs_remaining st' = 0 then (Ok st', s) else read_extents chk es st' s
      else st_bind (read_run chk block_addr block_count st s) (\<lambda>st' s'. read_extents chk es st' s'))"

definition read_data_with :: "(nat \<Rightarrow> unit res) \<Rightarrow> xtroot \<Rightarrow> nat \<Rightarrow> nat \<Rightarrow> storage \<Rightarrow> bytes res \<times> storage" where
  "read_data_with chk r offset len s =
     (let fsb_offset = offset div BLOCK_SIZE; byte_offset = offset mod BLOCK_SIZE in
      case add_u64 (len + byte_offset) BLOCK_SIZE of
        Ok n \<Rightarrow>
          let fsb_count = (n - 1) div BLOCK_SIZE in
          (case map_blocks r fsb_offset fsb_count of
             Ok extents \<Rightarrow>
               st_bind
                 (read_extents chk extents
                    \<lparr>rs_result = [], rs_remaining = len, rs_buf_offset = byte_offset, rs_polls = 0\<rparr> s)
                 (\<lambda>st s'. (Ok (take len (rs_result st)), s'))
           | _ \<Rightarrow> (Panic, s))
      | _ \<Rightarrow> (Panic, s))"

definition read_data :: "xtroot \<Rightarrow> nat \<Rightarrow> nat \<Rightarrow> storage \<Rightarrow> bytes res \<times> storage" where
  "read_data = read_data_with (\<lambda>_. Ok ())"

text \<open>\<open>InterruptFlag::check\<close> on the value of the flag at the time of the poll.\<close>

definition flag_check :: "bool \<Rightarrow> unit res" where
  "flag_check is_set = (if is_set then Err Interrupted else Ok ())"

definition read_data_checked :: "xtroot \<Rightarrow> nat \<Rightarrow> nat \<Rightarrow> storage \<Rightarrow> (nat \<Rightarrow> bool) \<Rightarrow> bytes res \<times> storage" where
  "read_data_checked r offset len s flag = read_data_with (\<lambda>k. flag_check (flag k)) r offset len s"

section \<open>Editing the map\<close>

definition as_u32 :: "int \<Rightarrow> nat" where "as_u32 x = nat (x mod 2 ^ 32)"

definition put_entry :: "xtroot \<Rightarrow> nat \<Rightarrow> int \<Rightarrow> nat \<Rightarrow> nat \<Rightarrow> byte \<Rightarrow> xtroot" where
  "put_entry r idx logical_offset len physical_addr flag =
     r\<lparr>xads := (xads r)[idx := xad_set_flag (xad_set_address (xad_set_length (xad_set_offset
         (xads r ! idx) logical_offset) len) physical_addr) flag]\<rparr>"

definition set_next :: "xtroot \<Rightarrow> nat \<Rightarrow> xtroot" where
  "set_next r n = r\<lparr>header := set_nextindex (header r) n\<rparr>"

text \<open>
  \<open>insert_extent\<close>: extend the last entry when the new extent continues it logically and physically
  (the sum of the lengths is a checked \<open>u32\<close> addition), else append.
\<close>

definition extends_last :: "xtroot \<Rightarrow> int \<Rightarrow> nat \<Rightarrow> bool" where
  "extends_last r logical_offset physical_addr \<longleftrightarrow>
     (let last = xads r ! (next_index r - 1) in
      xad_offset last + int (xad_length last) = logical_offset \<and>
      xad_address last + xad_length last = physical_addr)"

definition slot_for :: "nat \<Rightarrow> nat" where
  "slot_for next_idx = (if next_idx \<le> XTENTRYSTART then XTENTRYSTART else next_idx)"

definition insert_extent :: "xtroot \<Rightarrow> int \<Rightarrow> nat \<Rightarrow> nat \<Rightarrow> bool res \<times> xtroot" where
  "insert_extent r logical_offset len physical_addr =
     (let next_idx = next_index r; last_idx = next_idx - 1 in
      if XTENTRYSTART < next_idx \<and> XTROOTMAXSLOT \<le> last_idx then (Ok False, r)
      else if XTENTRYSTART < next_idx \<and> extends_last r logical_offset physical_addr then
        (let last_length = xad_length (xads r ! last_idx) in
         if 2 ^ 32 \<le> last_length + len then (Panic, r)
         else (Ok True, r\<lparr>xads := (xads r)[last_idx := xad_set_length (xads r ! last_idx) (last_length + len)]\<rparr>))
      else if XTROOTMAXSLOT \<le> next_idx then (Ok False, r)
      else
        let idx = slot_for next_idx in
        (Ok True, set_next (put_entry r idx logical_offset len physical_addr XAD_NEW) (idx + 1)))"

definition set_extent :: "xtroot \<Rightarrow> nat \<Rightarrow> int \<Rightarrow> nat \<Rightarrow> nat \<Rightarrow> bool \<times> xtroot" where
  "set_extent r idx logical_offset len physical_addr =
     (if idx < XTENTRYSTART \<or> XTROOTMAXSLOT \<le> idx then (False, r)
      else (True, put_entry r idx logical_offset len physical_addr XAD_NEW))"

definition insert_taken_extent :: "xtroot \<Rightarrow> int \<Rightarrow> nat \<Rightarrow> nat \<Rightarrow> bool \<times> xtroot" where
  "insert_taken_extent r logical_offset len physical_addr =
     (let next_idx = next_index r in
      if XTROOTMAXSLOT \<le> next_idx then (False, r)
      else
        let idx = slot_for next_idx in
        (True, set_next (put_entry r idx logical_offset len physical_addr 0) (idx + 1)))"

text \<open>Truncate, punch and take decide per entry what is kept and what is given up.\<close>

definition truncate_entry :: "int \<Rightarrow> xad \<Rightarrow> xad list \<times> (nat \<times> nat) list" where
  "truncate_entry new_eof_fsb x =
     (let ext_offset = xad_offset x; ext_length = xad_length x; ext_addr = xad_address x in
      if ext_length = 0 then ([], [])
      else if new_eof_fsb \<le> ext_offset then ([], [(ext_addr, ext_length)])
      else if new_eof_fsb < ext_offset + int ext_length then
        let keep_len = as_u32 (new_eof_fsb - ext_offset);
            free_len = as_u32 (ext_offset + int ext_length - new_eof_fsb)
        in ([xad_set_length x keep_len], [(ext_addr + keep_len, free_len)])
      else ([x], []))"

definition punch_entry :: "int \<Rightarrow> int \<Rightarrow> xad \<Rightarrow> xad list \<times> (nat \<times> nat) list" where
  "punch_entry start_fsb end_fsb x =
     (let ext_offset = xad_offset x; ext_length = xad_length x; ext_addr = xad_address x;
          ext_end = ext_offset + int ext_length
      in
      if ext_length = 0 then ([], [])
      else if ext_end \<le> start_fsb then ([x], [])
      else if end_fsb \<le> ext_offset then ([x], [])
      else if start_fsb \<le> ext_offset \<and> ext_end \<le> end_fsb then ([], [(ext_addr, ext_length)])
      else if ext_offset < start_fsb \<and> end_fsb < ext_end then
        let left_len = as_u32 (start_fsb - ext_offset);
            right_len = as_u32 (ext_end - end_fsb);
            right_addr = ext_addr + left_len
        in ([xad_set_length x left_len,
             xad_set_address (xad_set_length (xad_set_offset x end_fsb) right_len) right_addr],
            [(ext_addr + left_len, as_u32 (end_fsb - start_fsb))])
      else if ext_offset < start_fsb then
        let keep_len = as_u32 (start_fsb - ext_offset); free_len = ext_length - keep_len
        in ([xad_set_length x keep_len], [(ext_addr + keep_len, free_len)])
      else
        let keep_len = as_u32 (ext_end - end_fsb); free_len = as_u32 (end_fsb - ext_offset)
        in ([xad_set_address (xad_set_length (xad_set_offset x end_fsb) keep_len) (ext_addr + free_len)],
            [(ext_addr, free_len)]))"

definition take_entry :: "int \<Rightarrow> int \<Rightarrow> xad \<Rightarrow> xad list \<times> (int \<times> nat \<times> nat) list" where
  "take_entry start_fsb end_fsb x =
     (let ext_offset = xad_offset x; ext_length = xad_length x; ext_addr = xad_address x;
          ext_end = ext_offset + int ext_length
      in
      if ext_length = 0 then ([], [])
      else if ext_end \<le> start_fsb then ([x], [])
      else if end_fsb \<le> ext_offset then ([x], [])
      else if start_fsb \<le> ext_offset \<and> ext_end \<le> end_fsb then ([], [(ext_offset, ext_length, ext_addr)])
      else if ext_offset < start_fsb \<and> end_fsb < ext_end then
        let left_len = as_u32 (start_fsb - ext_offset);
            right_len = as_u32 (ext_end - end_fsb)
        in ([xad_set_length x left_len,
             xad_set_address (xad_set_length (xad_set_offset x end_fsb) right_len)
               (ext_addr + left_len + nat (end_fsb - start_fsb))],
            [(start_fsb, as_u32 (end_fsb - start_fsb), ext_addr + left_len)])
      else if ext_offset < start_fsb then
        let keep_len = as_u32 (start_fsb - ext_offset); take_len = ext_length - keep_len
        in ([xad_set_length x keep_len], [(start_fsb, take_len, ext_addr + keep_len)])
      else
        let take_len = as_u32 (end_fsb - ext_offset); keep_len = ext_length - take_len
        in ([xad_set_address (xad_set_length (xad_set_offset x end_fsb) keep_len) (ext_addr + take_len)],
            [(ext_offset, take_len, ext_addr)]))"

text \<open>
  The loop over the entries and the write-back of the kept ones: entries that do not fit into the
  slots are dropped, slots that are no longer used are cleared, \<open>nextindex\<close> counts all kept entries.
\<close>

definition edit_entries :: "(xad \<Rightarrow> xad list \<times> 'g list) \<Rightarrow> xad list \<Rightarrow> xad list \<times> 'g list" where
  "edit_entries f xs = (concat (map (fst \<circ> f) xs), concat (map (snd \<circ> f) xs))"

definition write_kept :: "xtroot \<Rightarrow> xad list \<Rightarrow> xtroot" where
  "write_kept r kept =
     (let next_idx = next_index r;
          new_next = XTENTRYSTART + length kept;
          stored = splice XTENTRYSTART (take (XTROOTMAXSLOT - XTENTRYSTART) kept) (xads r);
          cleared = fold (\<lambda>idx xs. xs[idx := xad_default]) [new_next..<min next_idx XTROOTMAXSLOT] stored
      in set_next (r\<lparr>xads := cleared\<rparr>) new_next)"

definition edit_root :: "(xad \<Rightarrow> xad list \<times> 'g list) \<Rightarrow> xtroot \<Rightarrow> 'g list \<times> xtroot" where
  "edit_root f r = (let e = edit_entries f (live r) in (snd e, write_kept r (fst e)))"

definition truncate_extents :: "xtroot \<Rightarrow> int \<Rightarrow> (nat \<times> nat) list \<times> xtroot" where
  "truncate_extents r new_eof_fsb = edit_root (truncate_entry new_eof_fsb) r"

definition punch_extents :: "xtroot \<Rightarrow> int \<Rightarrow> int \<Rightarrow> (nat \<times> nat) list \<times> xtroot" where
  "punch_extents r start_fsb end_fsb = edit_root (punch_entry start_fsb end_fsb) r"

definition take_extents :: "xtroot \<Rightarrow> int \<Rightarrow> int \<Rightarrow> (int \<times> nat \<times> nat) list \<times> xtroot" where
  "take_extents r start_fsb end_fsb = edit_root (take_entry start_fsb end_fsb) r"

section \<open>Validity and splitting\<close>

text \<open>\<open>validate\<close>: the loop's \<open>prev_end\<close>, or \<open>None\<close> when an extent starts before it.\<close>

fun validate_from :: "int \<Rightarrow> xad list \<Rightarrow> int option" where
  "validate_from prev_end [] = Some prev_end"
| "validate_from prev_end (x # xs) =
     (if xad_length x = 0 then validate_from prev_end xs
      else if xad_offset x < prev_end then None
      else validate_from (xad_offset x + int (xad_length x)) xs)"

definition validate :: "xtroot \<Rightarrow> bool" where
  "validate r \<longleftrightarrow> validate_from 0 (live r) \<noteq> None"

fun find_straddling :: "int \<Rightarrow> nat \<Rightarrow> xad list \<Rightarrow> nat option" where
  "find_straddling split_at i [] = None"
| "find_straddling split_at i (x # xs) =
     (if xad_offset x < split_at \<and> split_at < xad_offset x + int (xad_length x) then Some i
      else find_straddling split_at (Suc i) xs)"

definition split_extent :: "xtroot \<Rightarrow> int \<Rightarrow> bool \<times> xtroot" where
  "split_extent r split_at =
     (if split_at \<le> 0 then (False, r)
      else
        let next_idx = next_index r in
        case find_straddling split_at XTENTRYSTART (live r) of
          None \<Rightarrow> (False, r)
        | Some idx \<Rightarrow>
            let x = xads r ! idx;
                keep_len = as_u32 (split_at - xad_offset x);
                new_len = xad_length x - keep_len;
                new_addr = xad_address x + keep_len;
                new_next = next_idx + 1
            in if XTROOTMAXSLOT < new_next then (False, r)
               else
                 (True, set_next (put_entry (r\<lparr>xads := (xads r)[idx := xad_set_length x keep_len]\<rparr>)
                    next_idx split_at new_len new_addr 0) new_next))"

section \<open>The map an extent list stands for\<close>

text \<open>The physical block of a logical block: the first entry that covers it decides.\<close>

definition xmap_in :: "xad list \<Rightarrow> nat \<Rightarrow> nat option" where
  "xmap_in xs b = map_option (\<lambda>e. e_address e + (b - nat (e_offset e))) (lookup_in xs b)"

definition xmap :: "xtroot \<Rightarrow> nat \<Rightarrow> nat option" where
  "xmap r = xmap_in (live r)"

definition xad_ok :: "xad \<Rightarrow> bool" where
  "xad_ok x \<longleftrightarrow> xad_offset x + int (xad_length x) \<le> 2 ^ 40 \<and> xad_address x + xad_length x \<le> 2 ^ 40"

definition block_run :: "nat \<Rightarrow> nat \<Rightarrow> nat multiset" where
  "block_run a n = mset [a..<a + n]"

definition xad_blocks :: "xad \<Rightarrow> nat multiset" where
  "xad_blocks x = block_run (xad_address x) (xad_length x)"

lemma xmap_in_simps [simp]:
  "xmap_in [] b = None"
  "xmap_in (x # xs) b =
     (if covers x b then Some (xad_address x + (b - nat (xad_offset x))) else xmap_in xs b)"
  by (simp_all add: xmap_in_def extent_of_def)

lemma xmap_in_append:
  "xmap_in (xs @ ys) b = (case xmap_in xs b of Some p \<Rightarrow> Some p | None \<Rightarrow> xmap_in ys b)"
  by (induction xs) auto

lemma validate_from_append:
  "validate_from p (xs @ ys) = Option.bind (validate_from p xs) (\<lambda>q. validate_from q ys)"
  by (induction xs arbitrary: p) auto

lemma validate_from_append_Some:
  "validate_from p (xs @ ys) = Some q \<longleftrightarrow> (\<exists>m. validate_from p xs = Some m \<and> validate_from m ys = Some q)"
  by (simp add: validate_from_append bind_eq_Some_conv)

lemma validate_from_mono:
  assumes "validate_from p xs = Some q" "p' \<le> p"
  shows "\<exists>q'. validate_from p' xs = Some q' \<and> q' \<le> q"
  using assms
proof (induction xs arbitrary: p p')
  case (Cons x xs)
  then show ?case by (cases "xad_length x = 0") (auto split: if_splits)
qed auto

lemma as_u32_small [simp]: "0 \<le> x \<Longrightarrow> x < 2 ^ 24 \<Longrightarrow> as_u32 x = nat x"
  by (simp add: as_u32_def)

text \<open>Write-back stores the kept entries when they fit.\<close>

lemma fold_clear_nth:
  "length (fold (\<lambda>i xs. xs[i := v]) is xs) = length xs"
  "j \<notin> set is \<Longrightarrow> fold (\<lambda>i xs. xs[i := v]) is xs ! j = xs ! j"
  by (induction "is" arbitrary: xs) auto

lemma live_write_kept:
  assumes "xt_wf r" "length kept \<le> XTROOTMAXSLOT - XTENTRYSTART"
  shows "live (write_kept r kept) = kept" "xt_wf (write_kept r kept)"
proof -
  let ?s = "splice XTENTRYSTART kept (xads r)"
  let ?c = "fold (\<lambda>i xs. xs[i := xad_default]) [XTENTRYSTART + length kept..<min (next_index r) XTROOTMAXSLOT] ?s"
  have fits: "XTENTRYSTART + length kept \<le> length (xads r)" "XTENTRYSTART + length kept < 2 ^ 16"
    using assms by (simp_all add: xt_wf_def xt_consts)
  then have lc: "length ?c = XTROOTMAXSLOT" using assms by (simp add: fold_clear_nth xt_wf_def)
  have w: "write_kept r kept = set_next (r\<lparr>xads := ?c\<rparr>) (XTENTRYSTART + length kept)"
    using assms by (simp add: write_kept_def Let_def)
  then show "xt_wf (write_kept r kept)" using lc by (simp add: xt_wf_def set_next_def)
  have "slice XTENTRYSTART (XTENTRYSTART + length kept) ?c = kept"
  proof (rule nth_equalityI)
    show "length (slice XTENTRYSTART (XTENTRYSTART + length kept) ?c) = length kept"
      using fits lc assms by (simp add: xt_wf_def)
  next
    fix i assume "i < length (slice XTENTRYSTART (XTENTRYSTART + length kept) ?c)"
    then have i: "i < length kept" by simp
    with fits lc assms have "slice XTENTRYSTART (XTENTRYSTART + length kept) ?c ! i = ?c ! (XTENTRYSTART + i)"
      by (simp add: xt_wf_def)
    also have "\<dots> = ?s ! (XTENTRYSTART + i)" using i by (intro fold_clear_nth(2)) auto
    also have "\<dots> = kept ! i" using i fits by (simp add: nth_splice)
    finally show "slice XTENTRYSTART (XTENTRYSTART + length kept) ?c ! i = kept ! i" .
  qed
  then show "live (write_kept r kept) = kept"
    using fits assms by (simp add: w live_def next_index_def set_next_def min_def xt_consts xt_wf_def)
qed

definition all_ok :: "xtroot \<Rightarrow> bool" where
  "all_ok r \<longleftrightarrow> xt_wf r \<and> list_all xad_ok (live r)"

definition mapped_blocks :: "xtroot \<Rightarrow> nat multiset" where
  "mapped_blocks r = \<Sum>\<^sub># (image_mset xad_blocks (mset (live r)))"

lemma validate_live: "validate r \<longleftrightarrow> (\<exists>q. validate_from 0 (live r) = Some q)"
  by (simp add: validate_def)

section \<open>The contract of the range editors\<close>

text \<open>
  \<open>edit\<close> replaces one entry by the entries it keeps and says what it gives up. On entries that are
  \<open>good\<close> it promises: the kept entries map exactly the blocks selected by \<open>keep\<close>, as before; kept
  and given-up physical blocks are together those of the entry (nothing is lost or duplicated); and
  the kept entries stay in order within the entry's range.
\<close>

locale extent_editor =
  fixes edit :: "xad \<Rightarrow> xad list \<times> 'g list"
    and keep :: "nat \<Rightarrow> bool"
    and good :: "xad \<Rightarrow> bool"
    and given :: "'g \<Rightarrow> nat multiset"
  assumes edit_map: "good x \<Longrightarrow> xmap_in (fst (edit x)) b = (if keep b then xmap_in [x] b else None)"
    and edit_blocks: "good x \<Longrightarrow>
      \<Sum>\<^sub># (image_mset xad_blocks (mset (fst (edit x)))) + \<Sum>\<^sub># (image_mset given (mset (snd (edit x)))) = xad_blocks x"
    and edit_order: "good x \<Longrightarrow> validate_from p [x] = Some q \<Longrightarrow>
      \<exists>q'. validate_from p (fst (edit x)) = Some q' \<and> q' \<le> q"
begin

lemma edit_entries_Cons:
  "fst (edit_entries edit (x # xs)) = fst (edit x) @ fst (edit_entries edit xs)"
  "snd (edit_entries edit (x # xs)) = snd (edit x) @ snd (edit_entries edit xs)"
  by (simp_all add: edit_entries_def)

lemma edit_entries_map:
  assumes "\<And>x. x \<in> set xs \<Longrightarrow> good x"
  shows "xmap_in (fst (edit_entries edit xs)) b = (if keep b then xmap_in xs b else None)"
  using assms
proof (induction xs)
  case (Cons x xs)
  then have "xmap_in (fst (edit_entries edit xs)) b = (if keep b then xmap_in xs b else None)"
    "good x" by simp_all
  then show ?case
    by (simp only: edit_entries_Cons xmap_in_append edit_map) simp
qed (simp add: edit_entries_def)

lemma edit_entries_blocks:
  assumes "\<And>x. x \<in> set xs \<Longrightarrow> good x"
  shows "\<Sum>\<^sub># (image_mset xad_blocks (mset (fst (edit_entries edit xs)))) +
      \<Sum>\<^sub># (image_mset given (mset (snd (edit_entries edit xs)))) =
    \<Sum>\<^sub># (image_mset xad_blocks (mset xs))"
  using assms
proof (induction xs)
  case (Cons x xs)
  let ?E = "\<lambda>xs. \<Sum>\<^sub># (image_mset xad_blocks (mset (fst (edit_entries edit xs)))) +
      \<Sum>\<^sub># (image_mset given (mset (snd (edit_entries edit xs))))"
  have "?E (x # xs) = (\<Sum>\<^sub># (image_mset xad_blocks (mset (fst (edit x)))) +
      \<Sum>\<^sub># (image_mset given (mset (snd (edit x))))) + ?E xs"
    by (simp add: edit_entries_Cons)
  with Cons edit_blocks [of x] show ?case by simp
qed (simp add: edit_entries_def)

lemma edit_entries_order:
  assumes "\<And>x. x \<in> set xs \<Longrightarrow> good x" "validate_from p xs = Some q"
  shows "\<exists>q'. validate_from p (fst (edit_entries edit xs)) = Some q' \<and> q' \<le> q"
  using assms
proof (induction xs arbitrary: p q)
  case (Cons x xs)
  from Cons.prems(2) obtain m where m: "validate_from p [x] = Some m" "validate_from m xs = Some q"
    using validate_from_append_Some [of p "[x]" xs q] by (auto simp del: validate_from.simps)
  from edit_order [OF _ m(1)] Cons.prems obtain m' where
    m': "validate_from p (fst (edit x)) = Some m'" "m' \<le> m" by auto
  from validate_from_mono [OF m(2) m'(2)] obtain q1 where
    q1: "validate_from m' xs = Some q1" "q1 \<le> q" by auto
  from Cons.IH [OF _ q1(1)] Cons.prems(1) obtain q' where
    "validate_from m' (fst (edit_entries edit xs)) = Some q'" "q' \<le> q1" by auto
  with m' q1 show ?case by (auto simp: edit_entries_Cons validate_from_append)
qed (simp add: edit_entries_def)

lemma edit_root_correct:
  assumes "xt_wf r" "\<And>x. x \<in> set (live r) \<Longrightarrow> good x"
    "length (fst (edit_entries edit (live r))) \<le> XTROOTMAXSLOT - XTENTRYSTART"
  shows "xmap (snd (edit_root edit r)) = (\<lambda>b. if keep b then xmap r b else None)"
    "mapped_blocks (snd (edit_root edit r)) + \<Sum>\<^sub># (image_mset given (mset (fst (edit_root edit r)))) =
      mapped_blocks r"
    "validate r \<Longrightarrow> validate (snd (edit_root edit r))"
proof -
  let ?k = "fst (edit_entries edit (live r))"
  have l: "live (snd (edit_root edit r)) = ?k"
    using live_write_kept(1) [OF assms(1,3)] by (simp add: edit_root_def Let_def)
  show "xmap (snd (edit_root edit r)) = (\<lambda>b. if keep b then xmap r b else None)"
    using edit_entries_map [of "live r", OF assms(2)] by (simp add: xmap_def l fun_eq_iff)
  show "mapped_blocks (snd (edit_root edit r)) + \<Sum>\<^sub># (image_mset given (mset (fst (edit_root edit r)))) =
      mapped_blocks r"
    using edit_entries_blocks [of "live r", OF assms(2)]
    by (simp add: mapped_blocks_def l) (simp add: edit_root_def Let_def)
  assume "validate r"
  then obtain q where "validate_from 0 (live r) = Some q" by (auto simp: validate_live)
  from edit_entries_order [OF assms(2) this] show "validate (snd (edit_root edit r))"
    by (auto simp: validate_live l)
qed

end

text \<open>What each operation gives up, as physical blocks.\<close>

definition freed_blocks :: "nat \<times> nat \<Rightarrow> nat multiset" where
  "freed_blocks p = block_run (fst p) (snd p)"

definition taken_blocks :: "int \<times> nat \<times> nat \<Rightarrow> nat multiset" where
  "taken_blocks t = (case t of (_, n, a) \<Rightarrow> block_run a n)"

text \<open>Adjacent runs of blocks join.\<close>

lemma block_run_join: "k = n + m \<Longrightarrow> block_run a n + block_run (a + n) m = block_run a k"
  by (metis block_run_def add.assoc le_add1 mset_append upt_add_eq_append)

lemma block_run_empty [simp]: "block_run a 0 = {#}"
  by (simp add: block_run_def)

lemma xad_offset_nat: obtains n where "xad_offset x = int n"
  using nonneg_int_cases [OF xad_offset_bounds(1) [of x]] by blast

lemmas edit_simps = Let_def covers_def xad_blocks_def freed_blocks_def taken_blocks_def

interpretation truncate: extent_editor "truncate_entry eof" "\<lambda>b. int b < eof" xad_ok freed_blocks for eof
proof unfold_locales
  fix x b assume ok: "xad_ok x"
  obtain n where "xad_offset x = int n" by (rule xad_offset_nat)
  then show "xmap_in (fst (truncate_entry eof x)) b = (if int b < eof then xmap_in [x] b else None)"
    using xad_length_bound [of x] by (auto simp: truncate_entry_def edit_simps)
next
  fix x assume ok: "xad_ok x"
  obtain n where "xad_offset x = int n" by (rule xad_offset_nat)
  then show "\<Sum>\<^sub># (image_mset xad_blocks (mset (fst (truncate_entry eof x)))) +
      \<Sum>\<^sub># (image_mset freed_blocks (mset (snd (truncate_entry eof x)))) = xad_blocks x"
    using xad_length_bound [of x]
    by (auto simp: truncate_entry_def edit_simps intro!: block_run_join)
next
  fix x p q assume v: "xad_ok x" "validate_from p [x] = Some q"
  obtain n where "xad_offset x = int n" by (rule xad_offset_nat)
  with v show "\<exists>q'. validate_from p (fst (truncate_entry eof x)) = Some q' \<and> q' \<le> q"
    using xad_length_bound [of x] by (auto simp: truncate_entry_def Let_def split: if_splits)
qed

text \<open>The three pieces of an extent that spans the range.\<close>

lemma block_run_three:
  assumes "k = l + m + n"
  shows "block_run a l + block_run (a + l + m) n + block_run (a + l) m = block_run a k"
proof -
  have "block_run a l + block_run (a + l) m = block_run a (l + m)" by (rule block_run_join) simp
  moreover have "block_run a (l + m) + block_run (a + (l + m)) n = block_run a k"
    by (rule block_run_join) (simp add: assms)
  ultimately show ?thesis by (metis (no_types, lifting) add.assoc add.commute)
qed

text \<open>The coordinates of an entry, and how \<open>take_extents\<close> carves them.\<close>

definition at :: "xad \<Rightarrow> nat \<Rightarrow> nat \<Rightarrow> nat \<Rightarrow> bool" where
  "at x off n a \<longleftrightarrow> xad_offset x = int off \<and> xad_length x = n \<and> xad_address x = a"

lemma at_moved:
  assumes "off < 2 ^ 40" "n < 2 ^ 24" "a < 2 ^ 40"
  shows "at (xad_set_address (xad_set_length (xad_set_offset x (int off)) n) a) off n a"
proof -
  have "int off mod 2 ^ 40 = int off" using assms by (intro mod_pos_pos_trivial) auto
  with assms show ?thesis by (simp add: at_def)
qed

lemma at_shortened: "at x off n a \<Longrightarrow> k < 2 ^ 24 \<Longrightarrow> at (xad_set_length x k) off k a"
  by (simp add: at_def)

lemma take_entry_cases:
  assumes "xad_ok x" "at x off n a" "start \<le> end"
  obtains
    (empty) "n = 0" "take_entry start end x = ([], [])"
  | (outside) "0 < n" "int (off + n) \<le> start \<or> end \<le> int off" "take_entry start end x = ([x], [])"
  | (inside) "0 < n" "start \<le> int off" "int (off + n) \<le> end"
      "take_entry start end x = ([], [(int off, n, a)])"
  | (span) y z l m r where "n = l + m + r" "0 < l" "0 < r" "start = int (off + l)" "end = int (off + l + m)"
      "take_entry start end x = ([y, z], [(start, m, a + l)])" "at y off l a" "at z (off + l + m) r (a + l + m)"
  | (left) y l m where "n = l + m" "0 < l" "0 < m" "start = int (off + l)" "int (off + n) \<le> end"
      "take_entry start end x = ([y], [(start, m, a + l)])" "at y off l a"
  | (right) y m r where "n = m + r" "0 < m" "0 < r" "start \<le> int off" "end = int (off + m)"
      "take_entry start end x = ([y], [(int off, m, a)])" "at y (off + m) r (a + m)"
proof -
  have x: "xad_offset x = int off" "xad_length x = n" "xad_address x = a"
    and b: "n < 2 ^ 24" "off + n \<le> 2 ^ 40" "a + n \<le> 2 ^ 40"
    using assms(1,2) xad_length_bound [of x] by (auto simp: at_def xad_ok_def)
  note t = take_entry_def Let_def x
  consider "n = 0" | "0 < n" "int (off + n) \<le> start \<or> end \<le> int off"
    | "0 < n" "start < int (off + n)" "int off < end" "start \<le> int off" "int (off + n) \<le> end"
    | "0 < n" "int off < start" "end < int (off + n)"
    | "0 < n" "int off < start" "start < int (off + n)" "int (off + n) \<le> end"
    | "0 < n" "start \<le> int off" "int off < end" "end < int (off + n)"
    by linarith
  then show thesis
  proof cases
    case 1 then show thesis by (intro empty) (simp_all add: t)
  next
    case 2 then show thesis by (intro outside) (auto simp: t)
  next
    case 3 then show thesis by (intro inside) (auto simp: t)
  next
    case 4
    define l m r where "l = nat (start - int off)" "m = nat (end - start)" "r = nat (int (off + n) - end)"
    note lmr = this
    have s: "n = l + m + r" "0 < l" "0 < r" "start = int (off + l)" "end = int (off + l + m)"
      using 4 assms(3) by (simp_all add: lmr)
    show thesis
      using at_moved [of "off + l + m" r "a + l + m" x] at_shortened [OF assms(2), of l] b s(1-3)
      by (intro span [OF s]) (auto simp: t s(4,5))
  next
    case 5
    define l m where "l = nat (start - int off)" "m = nat (int (off + n) - start)"
    note lm = this
    have s: "n = l + m" "0 < l" "0 < m" "start = int (off + l)" using 5 by (simp_all add: lm)
    show thesis
      using at_shortened [OF assms(2), of l] b s(1-3) 5(4)
      by (intro left [OF s 5(4)]) (auto simp: t s(4))
  next
    case 6
    define m r where "m = nat (end - int off)" "r = nat (int (off + n) - end)"
    note mr = this
    have s: "n = m + r" "0 < m" "0 < r" "end = int (off + m)" using 6 by (simp_all add: mr)
    show thesis
      using at_moved [of "off + m" r "a + m" x] b s(1-3) 6(2)
      by (intro right [OF s(1-3) 6(2) s(4)]) (auto simp: t s(4))
  qed
qed

lemma at_intro: obtains off n a where "at x off n a"
  using xad_offset_nat [of x] by (auto simp: at_def)

lemma at_simps:
  assumes "at x off n a"
  shows "xad_offset x = int off" "xad_length x = n" "xad_address x = a"
    "xad_blocks x = block_run a n" "covers x b \<longleftrightarrow> off \<le> b \<and> b < off + n"
  using assms by (auto simp: at_def xad_blocks_def covers_def)

lemma take_entry_map:
  assumes "xad_ok x" "start \<le> end"
  shows "xmap_in (fst (take_entry start end x)) b =
    (if \<not> (start \<le> int b \<and> int b < end) then xmap_in [x] b else None)"
proof -
  obtain off n a where x: "at x off n a" by (rule at_intro)
  from assms(1) x assms(2) show ?thesis
    by (cases rule: take_entry_cases) (auto simp: at_simps [OF x] at_simps)
qed

lemma take_entry_blocks:
  assumes "xad_ok x" "start \<le> end"
  shows "\<Sum>\<^sub># (image_mset xad_blocks (mset (fst (take_entry start end x)))) +
      \<Sum>\<^sub># (image_mset taken_blocks (mset (snd (take_entry start end x)))) = xad_blocks x"
proof -
  obtain off n a where x: "at x off n a" by (rule at_intro)
  from assms(1) x assms(2) show ?thesis
    by (cases rule: take_entry_cases)
      (auto simp: at_simps [OF x] at_simps taken_blocks_def block_run_three block_run_join
        add.commute [of "block_run (a + _) _" "block_run a _"])
qed

lemma take_entry_order:
  assumes "xad_ok x" "start \<le> end" "validate_from p [x] = Some q"
  shows "\<exists>q'. validate_from p (fst (take_entry start end x)) = Some q' \<and> q' \<le> q"
proof -
  obtain off n a where x: "at x off n a" by (rule at_intro)
  from assms(1) x assms(2) show ?thesis using assms(3)
    by (cases rule: take_entry_cases) (auto simp: at_simps [OF x] at_simps split: if_splits)
qed

interpretation tk: extent_editor "take_entry start (start + int len)"
  "\<lambda>b. \<not> (start \<le> int b \<and> int b < start + int len)" xad_ok taken_blocks for start len
  by unfold_locales (auto simp: take_entry_map take_entry_blocks intro: take_entry_order simp del: xmap_in_simps)

text \<open>
  \<open>punch_extents\<close> carves like \<open>take_extents\<close>, except for an extent that spans the whole range: there
  the address of the right part does not account for the blocks that were punched out.
\<close>

definition spans :: "int \<Rightarrow> int \<Rightarrow> xad \<Rightarrow> bool" where
  "spans start end x \<longleftrightarrow> xad_offset x < start \<and> end < xad_offset x + int (xad_length x)"

lemma punch_entry_take:
  assumes "xad_ok x" "start \<le> end" "\<not> spans start end x"
  shows "fst (punch_entry start end x) = fst (take_entry start end x)"
    "snd (punch_entry start end x) = map (\<lambda>(_, n, a). (a, n)) (snd (take_entry start end x))"
proof -
  obtain n where "xad_offset x = int n" by (rule xad_offset_nat)
  with assms xad_length_bound [of x]
  show "fst (punch_entry start end x) = fst (take_entry start end x)"
    "snd (punch_entry start end x) = map (\<lambda>(_, n, a). (a, n)) (snd (take_entry start end x))"
    by (auto simp: punch_entry_def take_entry_def Let_def spans_def xad_ok_def nat_diff_distrib
        intro!: arg_cong2 [where f = xad_set_address] arg_cong2 [where f = xad_set_length])
qed

lemma freed_of_taken: "image_mset freed_blocks (mset (map (\<lambda>(_, n, a). (a, n)) ts)) = image_mset taken_blocks (mset ts)"
  by (induction ts) (auto simp: freed_blocks_def taken_blocks_def)

interpretation punch: extent_editor "punch_entry start (start + int len)"
  "\<lambda>b. \<not> (start \<le> int b \<and> int b < start + int len)"
  "\<lambda>x. xad_ok x \<and> \<not> spans start (start + int len) x" freed_blocks for start len
  by unfold_locales
    (auto simp: punch_entry_take take_entry_map take_entry_blocks freed_of_taken
      intro: take_entry_order simp del: xmap_in_simps mset_map)

section \<open>Properties of the range editors\<close>

lemma all_ok_memb: "all_ok r \<Longrightarrow> x \<in> set (live r) \<Longrightarrow> xad_ok x"
  by (simp add: all_ok_def list_all_iff)

lemma length_live: "length (live r) \<le> XTROOTMAXSLOT - XTENTRYSTART"
  by (simp add: live_def xt_consts)

lemma truncate_length: "length (fst (edit_entries (truncate_entry eof) xs)) \<le> length xs"
proof (induction xs)
  case (Cons x xs)
  have "length (fst (truncate_entry eof x)) \<le> 1" by (simp add: truncate_entry_def Let_def)
  with Cons show ?case by (simp add: truncate.edit_entries_Cons)
qed (simp add: edit_entries_def)

text \<open>
  C26. Truncation removes exactly the mappings at and beyond the new end of file and keeps every
  other mapping; the blocks it reports as freed and the blocks still mapped are together the blocks
  mapped before, each once; and a valid tree stays valid.
\<close>

theorem truncate_extents_correct:
  assumes "all_ok r"
  shows "xmap (snd (truncate_extents r eof)) = (\<lambda>b. if int b < eof then xmap r b else None) \<and>
    mapped_blocks (snd (truncate_extents r eof)) +
      \<Sum>\<^sub># (image_mset freed_blocks (mset (fst (truncate_extents r eof)))) = mapped_blocks r \<and>
    (validate r \<longrightarrow> validate (snd (truncate_extents r eof)))"
proof -
  have wf: "xt_wf r" using assms by (simp add: all_ok_def)
  have "length (fst (edit_entries (truncate_entry eof) (live r))) \<le> XTROOTMAXSLOT - XTENTRYSTART"
    using truncate_length length_live by (rule order_trans)
  from truncate.edit_root_correct [OF wf all_ok_memb [OF assms] this] show ?thesis
    by (simp add: truncate_extents_def)
qed

text \<open>
  Taking a range out of a file's map removes exactly the mappings in the range; the taken and
  the kept blocks are together the old ones, each once; a valid tree stays valid. This holds as long
  as the kept entries fit into the root (an extent that spans the range becomes two).
\<close>

theorem take_extents_correct:
  assumes "all_ok r" "start \<le> end"
    "length (fst (edit_entries (take_entry start end) (live r))) \<le> XTROOTMAXSLOT - XTENTRYSTART"
  shows "xmap (snd (take_extents r start end)) =
      (\<lambda>b. if \<not> (start \<le> int b \<and> int b < end) then xmap r b else None) \<and>
    mapped_blocks (snd (take_extents r start end)) +
      \<Sum>\<^sub># (image_mset taken_blocks (mset (fst (take_extents r start end)))) = mapped_blocks r \<and>
    (validate r \<longrightarrow> validate (snd (take_extents r start end)))"
proof -
  from zle_iff_zadd [THEN iffD1, OF assms(2)] obtain n where e: "end = start + int n" by blast
  have wf: "xt_wf r" using assms by (simp add: all_ok_def)
  from tk.edit_root_correct [OF wf all_ok_memb [OF assms(1)], of start n] assms(3) show ?thesis
    by (simp add: take_extents_def e)
qed

text \<open>
  C27. Punching a hole likewise removes exactly the mappings in the range and frees exactly the blocks
  that are no longer mapped, when no extent spans the whole range.
\<close>

theorem punch_extents_correct:
  assumes "all_ok r" "start \<le> end" "list_all (\<lambda>x. \<not> spans start end x) (live r)"
    "length (fst (edit_entries (punch_entry start end) (live r))) \<le> XTROOTMAXSLOT - XTENTRYSTART"
  shows "xmap (snd (punch_extents r start end)) =
      (\<lambda>b. if \<not> (start \<le> int b \<and> int b < end) then xmap r b else None) \<and>
    mapped_blocks (snd (punch_extents r start end)) +
      \<Sum>\<^sub># (image_mset freed_blocks (mset (fst (punch_extents r start end)))) = mapped_blocks r \<and>
    (validate r \<longrightarrow> validate (snd (punch_extents r start end)))"
proof -
  from zle_iff_zadd [THEN iffD1, OF assms(2)] obtain n where e: "end = start + int n" by blast
  have wf: "xt_wf r" using assms by (simp add: all_ok_def)
  have good: "x \<in> set (live r) \<Longrightarrow> xad_ok x \<and> \<not> spans start end x" for x
    using assms(3) all_ok_memb [OF assms(1)] by (simp add: list_all_iff)
  from punch.edit_root_correct [OF wf good [unfolded e]] assms(4) show ?thesis
    by (simp add: punch_extents_def e)
qed

text \<open>A concrete root with the extents \<open>[0, 10) \<rightarrow> 100\<close> and \<open>[20, 25) \<rightarrow> 300\<close>.\<close>

definition mk_xad :: "nat \<Rightarrow> nat \<Rightarrow> nat \<Rightarrow> xad" where
  "mk_xad off n a = xad_set_address (xad_set_length (xad_set_offset xad_default (int off)) n) a"

definition sample_root :: xtroot where
  "sample_root = set_next (xtroot_default\<lparr>xads :=
     [xad_default, xad_default, mk_xad 0 10 100, mk_xad 20 5 300] @ replicate 14 xad_default\<rparr>) 4"

lemma at_mk_xad: "off < 2 ^ 40 \<Longrightarrow> n < 2 ^ 24 \<Longrightarrow> a < 2 ^ 40 \<Longrightarrow> at (mk_xad off n a) off n a"
  unfolding mk_xad_def by (rule at_moved)

lemma live_sample_root: "live sample_root = [mk_xad 0 10 100, mk_xad 20 5 300]"
  by (simp add: live_def sample_root_def next_index_def set_next_def xtroot_default_def xt_consts slice_def)

lemma sample_at: "at (mk_xad 0 10 100) 0 10 100" "at (mk_xad 20 5 300) 20 5 300"
  by (rule at_mk_xad; simp)+

lemma sample_root_ok: "all_ok sample_root" "validate sample_root"
  by (simp_all add: all_ok_def xt_wf_def live_sample_root xad_ok_def at_simps [OF sample_at(1)]
      at_simps [OF sample_at(2)] validate_def)
    (simp add: sample_root_def set_next_def xtroot_default_def xt_consts)

lemma xmap_sample_root:
  "xmap sample_root b = (if b < 10 then Some (100 + b) else if 20 \<le> b \<and> b < 25 then Some (280 + b) else None)"
  by (simp add: xmap_def live_sample_root at_simps [OF sample_at(1)] at_simps [OF sample_at(2)])

theorem truncate_extents_correct_witness:
  "xmap (snd (truncate_extents sample_root 22)) 21 = Some 301 \<and>
   xmap (snd (truncate_extents sample_root 22)) 22 = None \<and>
   validate (snd (truncate_extents sample_root 22))"
  using truncate_extents_correct [OF sample_root_ok(1), of 22] sample_root_ok(2)
  by (simp add: xmap_sample_root)

lemma take_entry_length: "length (fst (take_entry start end x)) \<le> 2"
  by (simp add: take_entry_def Let_def)

lemma punch_entry_length: "length (fst (punch_entry start end x)) \<le> 2"
  by (simp add: punch_entry_def Let_def)

lemma edit_entries_fit:
  assumes "\<And>x. length (fst (f x)) \<le> 2"
  shows "length (fst (edit_entries f xs)) \<le> 2 * length xs"
proof (induction xs)
  case (Cons x xs)
  with assms [of x] show ?case by (simp add: edit_entries_def)
qed (simp add: edit_entries_def)

theorem take_extents_correct_witness:
  "xmap (snd (take_extents sample_root 4 6)) 5 = None \<and>
   xmap (snd (take_extents sample_root 4 6)) 6 = Some 106 \<and>
   validate (snd (take_extents sample_root 4 6))"
  using take_extents_correct [OF sample_root_ok(1), of 4 6] sample_root_ok(2)
    edit_entries_fit [of "take_entry 4 6" "live sample_root", OF take_entry_length]
  by (simp add: xmap_sample_root live_sample_root xt_consts)

theorem punch_extents_correct_witness:
  "xmap (snd (punch_extents sample_root 6 22)) 5 = Some 105 \<and>
   xmap (snd (punch_extents sample_root 6 22)) 6 = None \<and>
   xmap (snd (punch_extents sample_root 6 22)) 22 = Some 302"
  using punch_extents_correct [OF sample_root_ok(1), of 6 22]
    edit_entries_fit [of "punch_entry 6 22" "live sample_root", OF punch_entry_length]
  by (simp add: xmap_sample_root live_sample_root xt_consts spans_def at_simps [OF sample_at(1)]
      at_simps [OF sample_at(2)])

text \<open>
  When an extent does span the punched range, the entry kept for its right part starts at the
  first freed block: the block after the hole is mapped to a block the allocator is told to free.
\<close>

theorem punch_spanning_maps_freed:
  assumes "xad_ok x" "start < end" "spans start end x"
  shows "\<exists>p. xmap_in (fst (punch_entry start end x)) (nat end) = Some p \<and>
    p \<in># \<Sum>\<^sub># (image_mset freed_blocks (mset (snd (punch_entry start end x))))"
proof -
  obtain off where o: "xad_offset x = int off" by (rule xad_offset_nat)
  define l m r where "l = nat (start - int off)" "m = nat (end - start)"
    "r = nat (int off + int (xad_length x) - end)"
  note lmr = this
  have s: "xad_length x = l + m + r" "start = int (off + l)" "end = int (off + l + m)" "0 < l" "0 < m" "0 < r"
    using assms(2,3) o unfolding spans_def lmr by (simp_all add: nat_add_distrib [symmetric])
  have b: "l < 2 ^ 24" "m < 2 ^ 24" "r < 2 ^ 24" "off + l + m < 2 ^ 40" "xad_address x + l < 2 ^ 40"
    using xad_length_bound [of x] assms(1) s o by (auto simp: xad_ok_def)
  let ?z = "xad_set_address (xad_set_length (xad_set_offset x (int (off + l + m))) r) (xad_address x + l)"
  have z: "at ?z (off + l + m) r (xad_address x + l)" by (rule at_moved) (use b in auto)
  have "punch_entry start end x = ([xad_set_length x l, ?z], [(xad_address x + l, m)])"
    using s b by (simp add: punch_entry_def Let_def o)
  moreover have "nat end = off + l + m" "\<not> covers (xad_set_length x l) (off + l + m)" "covers ?z (off + l + m)"
    using s b at_simps(5) [OF z] by (auto simp: covers_def o)
  moreover have "xad_address ?z + (off + l + m - nat (xad_offset ?z)) = xad_address x + l"
    using at_simps(1,3) [OF z] by simp
  ultimately show ?thesis using s(5)
    by (simp add: freed_blocks_def block_run_def del: xad_set_address_simps xad_set_length_simps xad_set_offset_simps)
qed

theorem punch_spanning_maps_freed_witness:
  "\<exists>p. xmap_in (fst (punch_entry 4 6 (mk_xad 0 10 100))) 6 = Some p \<and>
    p \<in># \<Sum>\<^sub># (image_mset freed_blocks (mset (snd (punch_entry 4 6 (mk_xad 0 10 100)))))"
  using punch_spanning_maps_freed [of "mk_xad 0 10 100" 4 6]
  by (simp add: xad_ok_def spans_def at_simps [OF sample_at(1)])

section \<open>Insertion\<close>

lemma live_put_next:
  assumes "xt_wf r" "next_index r < XTROOTMAXSLOT"
  shows "live (set_next (put_entry r (slot_for (next_index r)) off n a f) (slot_for (next_index r) + 1)) =
      live r @ [xad_set_flag (xad_set_address (xad_set_length (xad_set_offset
        (xads r ! slot_for (next_index r)) off) n) a) f]"
    "xt_wf (set_next (put_entry r (slot_for (next_index r)) off n a f) (slot_for (next_index r) + 1))"
  using assms slice_snoc_update [of XTENTRYSTART "slot_for (next_index r)" "xads r"]
  by (auto simp: live_def set_next_def put_entry_def next_index_def xt_wf_def slot_for_def xt_consts)

lemma at_flagged: "at x off n a \<Longrightarrow> at (xad_set_flag x f) off n a"
  by (simp add: at_def)

lemma live_last:
  assumes "xt_wf r" "XTENTRYSTART < next_index r" "next_index r \<le> XTROOTMAXSLOT"
  shows "live r = slice XTENTRYSTART (next_index r - 1) (xads r) @ [xads r ! (next_index r - 1)]"
    "live (r\<lparr>xads := (xads r)[next_index r - 1 := v]\<rparr>) = slice XTENTRYSTART (next_index r - 1) (xads r) @ [v]"
proof -
  obtain k where k: "next_index r = Suc k" using assms(2) by (cases "next_index r") auto
  then show "live r = slice XTENTRYSTART (next_index r - 1) (xads r) @ [xads r ! (next_index r - 1)]"
    "live (r\<lparr>xads := (xads r)[next_index r - 1 := v]\<rparr>) = slice XTENTRYSTART (next_index r - 1) (xads r) @ [v]"
    using assms slice_snoc_update [of XTENTRYSTART k "xads r" "xads r ! k"]
      slice_snoc_update [of XTENTRYSTART k "xads r" v]
    by (simp_all add: live_def xt_wf_def min_def next_index_def)
qed

lemma insert_extent_mapped:
  assumes "xt_wf r" "insert_extent r (int off) n a = (Ok True, r')"
    and fits: "0 < n" "n < 2 ^ 24" "off + n \<le> 2 ^ 40" "a + n \<le> 2 ^ 40"
    and grow: "XTENTRYSTART < next_index r \<and> extends_last r (int off) a \<Longrightarrow>
      xad_length (xads r ! (next_index r - 1)) + n < 2 ^ 24"
    and free: "\<And>b. off \<le> b \<Longrightarrow> b < off + n \<Longrightarrow> xmap r b = None"
  shows "xmap r' = (\<lambda>b. if off \<le> b \<and> b < off + n then Some (a + (b - off)) else xmap r b) \<and> xt_wf r'"
proof (cases "XTENTRYSTART < next_index r \<and> extends_last r (int off) a")
  case True
  let ?l = "xads r ! (next_index r - 1)"
  let ?p = "slice XTENTRYSTART (next_index r - 1) (xads r)"
  obtain o0 n0 a0 where l: "at ?l o0 n0 a0" by (rule at_intro)
  have nx: "next_index r \<le> XTROOTMAXSLOT"
    using assms(2) True by (auto simp: insert_extent_def Let_def split: if_splits)
  have e: "off = o0 + n0" "a = a0 + n0" using True at_simps [OF l] by (auto simp: extends_last_def Let_def)
  have g: "at (xad_set_length ?l (n0 + n)) o0 (n0 + n) a0"
    using at_shortened [OF l] grow [OF True] at_simps [OF l] by simp
  have r': "r' = r\<lparr>xads := (xads r)[next_index r - 1 := xad_set_length ?l (n0 + n)]\<rparr>"
    using assms(2) True nx at_simps [OF l] by (auto simp: insert_extent_def Let_def split: if_splits)
  have "xmap r' b = (if off \<le> b \<and> b < off + n then Some (a + (b - off)) else xmap r b)" for b
    using live_last [OF assms(1) conjunct1 [OF True] nx] free [of b] at_simps [OF l] at_simps [OF g] e
    by (auto simp: r' xmap_def xmap_in_append split: option.splits)
  then show ?thesis using assms(1) by (auto simp: r' xt_wf_def)
next
  case False
  then have nx: "next_index r < XTROOTMAXSLOT"
    and r': "r' = set_next (put_entry r (slot_for (next_index r)) (int off) n a XAD_NEW) (slot_for (next_index r) + 1)"
    using assms(2) by (auto simp: insert_extent_def Let_def split: if_splits)
  have "at (xad_set_flag (xad_set_address (xad_set_length (xad_set_offset
      (xads r ! slot_for (next_index r)) (int off)) n) a) XAD_NEW) off n a"
    using fits by (intro at_flagged at_moved) auto
  note new = at_simps [OF this]
  have "xmap r' b = (if off \<le> b \<and> b < off + n then Some (a + (b - off)) else xmap r b)" for b
    using live_put_next(1) [OF assms(1) nx] free [of b] new
    by (auto simp: r' xmap_def xmap_in_append split: option.splits)
  then show ?thesis using live_put_next(2) [OF assms(1) nx] by (auto simp: r')
qed

lemma sample_root_slots:
  "next_index sample_root = 4" "xads sample_root ! 3 = mk_xad 20 5 300" "xt_wf sample_root"
  by (simp_all add: sample_root_def next_index_def set_next_def xt_wf_def xt_consts)

text \<open>There is room for the extent: it continues the last entry, or a slot of the root is free.\<close>

definition has_room :: "xtroot \<Rightarrow> int \<Rightarrow> nat \<Rightarrow> bool" where
  "has_room r off a \<longleftrightarrow> next_index r < XTROOTMAXSLOT \<or>
     next_index r = XTROOTMAXSLOT \<and> extends_last r off a"

lemma insert_extent_room:
  assumes "XTENTRYSTART < next_index r \<and> extends_last r off a \<Longrightarrow> xad_length (xads r ! (next_index r - 1)) + n < 2 ^ 24"
  shows "if has_room r off a then \<exists>r'. insert_extent r off n a = (Ok True, r') else insert_extent r off n a = (Ok False, r)"
  using assms by (auto simp: insert_extent_def has_room_def Let_def xt_consts)

text \<open>
  C28. Inserting an extent of 1 to \<open>2^24 - 1\<close> blocks whose logical range is unmapped and whose ranges fit the 40-bit fields, where an
  entry that is extended stays below \<open>2^24\<close> blocks: if a slot of the root is free or the extent continues the last entry, the
  insertion succeeds, maps exactly the new logical range to the new physical blocks and keeps every other mapping;
  otherwise it reports false and the tree is unchanged.
\<close>

theorem insert_extent_correct:
  assumes "xt_wf r"
    and fits: "0 < n" "n < 2 ^ 24" "off + n \<le> 2 ^ 40" "a + n \<le> 2 ^ 40"
    and grow: "XTENTRYSTART < next_index r \<and> extends_last r (int off) a \<Longrightarrow>
      xad_length (xads r ! (next_index r - 1)) + n < 2 ^ 24"
    and free: "\<And>b. off \<le> b \<Longrightarrow> b < off + n \<Longrightarrow> xmap r b = None"
  shows "if has_room r (int off) a
     then \<exists>r'. insert_extent r (int off) n a = (Ok True, r') \<and> xt_wf r' \<and>
            xmap r' = (\<lambda>b. if off \<le> b \<and> b < off + n then Some (a + (b - off)) else xmap r b)
     else insert_extent r (int off) n a = (Ok False, r)"
  using insert_extent_room [of r "int off" a n, OF grow] insert_extent_mapped [OF assms(1) _ fits grow free] by (auto split: if_splits)

theorem insert_extent_correct_witness:
  "\<exists>r'. insert_extent sample_root 25 3 305 = (Ok True, r') \<and> xmap r' 27 = Some 307 \<and> xmap r' 24 = Some 304"
proof -
  have e: "has_room sample_root (int 25) 305" by (simp add: has_room_def sample_root_slots xt_consts)
  have "if has_room sample_root (int 25) 305
     then \<exists>r'. insert_extent sample_root (int 25) 3 305 = (Ok True, r') \<and> xt_wf r' \<and>
            xmap r' = (\<lambda>b. if 25 \<le> b \<and> b < 25 + 3 then Some (305 + (b - 25)) else xmap sample_root b)
     else insert_extent sample_root (int 25) 3 305 = (Ok False, sample_root)"
    by (intro insert_extent_correct [OF sample_root_slots(3)])
      (auto simp: sample_root_slots at_simps [OF sample_at(2)] xmap_sample_root)
  with e show ?thesis by (auto simp: xmap_sample_root)
qed

text \<open>
  The 24-bit length field wraps: extending the last entry to \<open>2^24\<close> blocks is reported as a
  success and leaves an entry of length 0, so the whole extent is no longer mapped by it.
\<close>

theorem insert_extent_wraps:
  assumes "xt_wf r" "XTENTRYSTART < next_index r" "next_index r \<le> XTROOTMAXSLOT" "extends_last r off a"
    "xad_length (xads r ! (next_index r - 1)) + n = 2 ^ 24"
  shows "\<exists>r'. insert_extent r off n a = (Ok True, r') \<and> xad_length (xads r' ! (next_index r - 1)) = 0"
  using assms by (auto simp: insert_extent_def Let_def xt_wf_def nth_list_update)

theorem insert_extent_wraps_witness:
  "\<exists>r'. insert_extent sample_root 25 (2 ^ 24 - 5) 305 = (Ok True, r') \<and> xad_length (xads r' ! 3) = 0"
  using insert_extent_wraps [of sample_root 25 305 "2 ^ 24 - 5"]
  by (simp add: sample_root_slots xt_consts extends_last_def at_simps [OF sample_at(2)])

section \<open>Validity\<close>

lemma validate_from_bounds:
  "validate_from p xs = Some q \<Longrightarrow> p \<le> q \<and>
     (\<forall>x\<in>set xs. xad_length x \<noteq> 0 \<longrightarrow> p \<le> xad_offset x \<and> xad_offset x + int (xad_length x) \<le> q)"
proof (induction xs arbitrary: p)
  case (Cons x xs)
  show ?case
  proof (cases "xad_length x = 0")
    case True
    with Cons show ?thesis by auto
  next
    case False
    with Cons.prems have "validate_from (xad_offset x + int (xad_length x)) xs = Some q" "p \<le> xad_offset x"
      by (auto split: if_splits)
    with Cons.IH show ?thesis by fastforce
  qed
qed simp

lemma validate_from_snoc:
  "validate_from p (xs @ [z]) = Some q \<Longrightarrow> xad_length z \<noteq> 0 \<Longrightarrow>
     \<exists>m. validate_from p xs = Some m \<and> m \<le> xad_offset z"
  by (auto simp: validate_from_append_Some not_less split: if_splits)

lemma covers_int: "covers x b \<longleftrightarrow> xad_offset x \<le> int b \<and> int b < xad_offset x + int (xad_length x)"
proof -
  obtain n where "xad_offset x = int n" by (rule xad_offset_nat)
  then show ?thesis by (auto simp: covers_def)
qed

lemma covers_nonempty: "covers x b \<Longrightarrow> xad_length x \<noteq> 0"
  by (auto simp: covers_def)

lemma validate_from_split:
  assumes "validate_from p (ys @ x # zs) = Some q" "covers x b"
  shows "\<forall>y\<in>set ys. \<not> covers y b" "\<forall>z\<in>set zs. \<not> covers z b"
proof -
  have x: "xad_length x \<noteq> 0" using assms(2) by (rule covers_nonempty)
  from assms(1) obtain m where m: "validate_from p ys = Some m" "m \<le> xad_offset x"
    "validate_from (xad_offset x + int (xad_length x)) zs = Some q"
    using x by (auto simp: validate_from_append_Some split: if_splits)
  show "\<forall>y\<in>set ys. \<not> covers y b"
    using validate_from_bounds [OF m(1)] m(2) assms(2) covers_nonempty by (fastforce simp: covers_int)
  show "\<forall>z\<in>set zs. \<not> covers z b"
    using validate_from_bounds [OF m(3)] assms(2) covers_nonempty by (fastforce simp: covers_int)
qed

lemma lookup_in_skip: "\<forall>y\<in>set ys. \<not> covers y b \<Longrightarrow> lookup_in (ys @ xs) b = lookup_in xs b"
  by (induction ys) auto

lemma validate_split_at:
  assumes "validate r" "i < length (live r)" "covers (live r ! i) b"
  shows "\<forall>y\<in>set (take i (live r)). \<not> covers y b" "\<forall>z\<in>set (drop (Suc i) (live r)). \<not> covers z b"
proof -
  obtain q where q: "validate_from 0 (live r) = Some q" using assms(1) by (auto simp: validate_live)
  have s: "live r = take i (live r) @ live r ! i # drop (Suc i) (live r)"
    using assms(2) by (rule id_take_nth_drop)
  have "validate_from 0 (take i (live r) @ live r ! i # drop (Suc i) (live r)) = Some q"
    using q by (simp only: s [symmetric])
  from validate_from_split [OF this assms(3)]
  show "\<forall>y\<in>set (take i (live r)). \<not> covers y b" "\<forall>z\<in>set (drop (Suc i) (live r)). \<not> covers z b" .
qed

lemma validate_lookup_unique_lookup:
  assumes "validate r" "i < length (live r)" "covers (live r ! i) b"
  shows "lookup r b = Some (extent_of (live r ! i))"
proof -
  have "lookup_in (take i (live r) @ live r ! i # drop (Suc i) (live r)) b = Some (extent_of (live r ! i))"
    using assms(3) by (simp add: lookup_in_skip [OF validate_split_at(1) [OF assms]])
  then show ?thesis using id_take_nth_drop [OF assms(2)] by (simp add: lookup_def)
qed

text \<open>
  In a tree that \<open>validate\<close> accepts the extents do not overlap: lookup returns the extent that
  covers the block, wherever in the root it is stored, and no other extent covers it.
\<close>

theorem validate_lookup_unique:
  assumes "validate r" "i < length (live r)" "covers (live r ! i) b"
  shows "lookup r b = Some (extent_of (live r ! i)) \<and>
    (\<forall>j<length (live r). covers (live r ! j) b \<longrightarrow> j = i)"
proof -
  have "j = i" if j: "j < length (live r)" "covers (live r ! j) b" for j
  proof (rule ccontr)
    assume "j \<noteq> i"
    then consider "j < i" | "i < j" by linarith
    then have "live r ! j \<in> set (take i (live r)) \<or> live r ! j \<in> set (drop (Suc i) (live r))"
    proof cases
      case 1
      then show ?thesis using assms(2) by (auto simp: in_set_conv_nth intro!: disjI1 exI [of _ j])
    next
      case 2
      then show ?thesis using j(1) by (auto simp: in_set_conv_nth intro!: disjI2 exI [of _ "j - Suc i"])
    qed
    with validate_split_at [OF assms] j(2) show False by blast
  qed
  with validate_lookup_unique_lookup [OF assms] show ?thesis by blast
qed

theorem validate_lookup_unique_witness:
  "lookup sample_root 22 = Some (extent_of (live sample_root ! 1))"
  using validate_lookup_unique [OF sample_root_ok(2), of 1 22]
  by (simp add: live_sample_root at_simps [OF sample_at(2)])

section \<open>Splitting\<close>

definition straddles :: "int \<Rightarrow> xad \<Rightarrow> bool" where
  "straddles s x \<longleftrightarrow> xad_offset x < s \<and> s < xad_offset x + int (xad_length x)"

lemma find_straddling_Some:
  "find_straddling s i xs = Some k \<Longrightarrow> \<exists>ys x zs. xs = ys @ x # zs \<and> k = i + length ys \<and> straddles s x"
proof (induction xs arbitrary: i)
  case (Cons x xs)
  show ?case
  proof (cases "straddles s x")
    case True
    with Cons.prems show ?thesis by (intro exI [of _ "[]"]) (auto simp: straddles_def)
  next
    case False
    with Cons.prems have "find_straddling s (Suc i) xs = Some k" by (auto simp: straddles_def split: if_splits)
    from Cons.IH [OF this] obtain ys y zs where
      "xs = ys @ y # zs" "k = Suc i + length ys" "straddles s y" by blast
    then show ?thesis by (intro exI [of _ "x # ys"]) auto
  qed
qed simp

lemma live_nth:
  "xt_wf r \<Longrightarrow> i < length (live r) \<Longrightarrow> live r ! i = xads r ! (XTENTRYSTART + i)"
  by (auto simp: live_def intro!: nth_slice)

lemma slice_update_inside:
  "a + length ys < b \<Longrightarrow> slice a b xs = ys @ x # zs \<Longrightarrow> slice a b (xs[a + length ys := v]) = ys @ v # zs"
  by (simp add: slice_def drop_update_swap take_update_swap)

lemma split_extent_True:
  assumes "xt_wf r" "split_extent r s = (True, r')"
  obtains ys x zs y z off l k a where
    "live r = ys @ x # zs" "at x off (l + k) a" "0 < l" "0 < k" "s = int (off + l)"
    "live r' = ys @ y # zs @ [z]" "at y off l a" "xad_ok x \<Longrightarrow> at z (off + l) k (a + l)"
proof -
  from assms(2) obtain idx where idx: "find_straddling s XTENTRYSTART (live r) = Some idx"
    and room: "next_index r + 1 \<le> XTROOTMAXSLOT"
    by (auto simp: split_extent_def Let_def split: if_splits option.splits)
  from find_straddling_Some [OF idx] obtain ys x zs where
    l: "live r = ys @ x # zs" "idx = XTENTRYSTART + length ys" "straddles s x" by blast
  have nx: "XTENTRYSTART + length ys < next_index r"
  proof -
    have "length (live r) \<le> next_index r - XTENTRYSTART" by (simp add: live_def)
    with l(1) show ?thesis by simp
  qed
  have x: "xads r ! idx = x" using live_nth [OF assms(1), of "length ys"] l by simp
  obtain off n a where at: "at x off n a" by (rule at_intro)
  define m where "m = nat (s - int off)"
  have s: "s = int (off + m)" "0 < m" "m < n" using l(3) by (auto simp: straddles_def m_def at_simps(1,2) [OF at])
  have n24: "n < 2 ^ 24" using xad_length_bound [of x] by (simp only: at_simps(2) [OF at])
  let ?y = "xad_set_length x m"
  let ?z = "xad_set_flag (xad_set_address (xad_set_length (xad_set_offset (xads r ! next_index r) s) (n - m)) (a + m)) 0"
  have k: "as_u32 (s - xad_offset x) = m" using s n24 by (simp add: at_simps(1) [OF at])
  let ?r1 = "r\<lparr>xads := (xads r)[idx := ?y]\<rparr>"
  have "r' = set_next (put_entry ?r1 (next_index r) s (n - m) (a + m) 0) (next_index r + 1)"
    using assms(2) idx x k at_simps(2,3) [OF at] by (auto simp: split_extent_def Let_def split: if_splits)
  moreover have r1: "live ?r1 = ys @ ?y # zs" "xt_wf ?r1" "next_index ?r1 = next_index r"
    using slice_update_inside [of XTENTRYSTART ys "min (next_index r) XTROOTMAXSLOT" "xads r" x zs ?y] l nx room assms(1)
    by (auto simp: live_def next_index_def xt_wf_def)
  moreover have "slot_for (next_index r) = next_index r" "xads ?r1 ! next_index r = xads r ! next_index r"
    using nx l(2) by (auto simp: slot_for_def)
  ultimately have lr: "live r' = ys @ ?y # zs @ [?z]"
    using live_put_next(1) [of ?r1 s "n - m" "a + m" 0] room by simp
  show thesis
  proof (rule that [OF l(1) _ s(2) _ s(1) lr])
    show "at x off (m + (n - m)) a" "0 < n - m" using at s by simp_all
    show "at ?y off m a" using at_shortened [OF at] s n24 by simp
    show "xad_ok x \<Longrightarrow> at ?z (off + m) (n - m) (a + m)"
      unfolding s(1) using s n24 at_simps(1-3) [OF at] by (intro at_flagged at_moved) (auto simp: xad_ok_def)
  qed
qed

text \<open>
  Splitting an extent of a valid tree changes no mapping.
\<close>

theorem split_extent_correct:
  assumes "all_ok r" "validate r"
  shows "xmap (snd (split_extent r s)) = xmap r"
proof (cases "split_extent r s")
  case (Pair split r')
  show ?thesis
  proof (cases split)
    case False
    with Pair show ?thesis by (auto simp: split_extent_def Let_def split: if_splits option.splits)
  next
    case True
    from assms(1) have wf: "xt_wf r" by (simp add: all_ok_def)
    from split_extent_True [OF wf Pair [unfolded eqTrueI [OF True]]] obtain ys x zs y z off l k a where
      s: "live r = ys @ x # zs" "at x off (l + k) a" "live r' = ys @ y # zs @ [z]" "at y off l a"
      "xad_ok x \<Longrightarrow> at z (off + l) k (a + l)" by metis
    have z: "at z (off + l) k (a + l)" using s(1,5) all_ok_memb [OF assms(1)] by simp
    obtain q where q: "validate_from 0 (ys @ x # zs) = Some q" using assms(2) s(1) by (auto simp: validate_live)
    have "xmap_in (ys @ y # zs @ [z]) b = xmap_in (ys @ x # zs) b" for b
    proof (cases "covers x b")
      case True
      then have "xmap_in zs b = None"
        using validate_from_split(2) [OF q True] lookup_in_skip [of zs b "[]"] by (simp add: xmap_in_def)
      with True show ?thesis
        by (auto simp: xmap_in_append at_simps [OF s(2)] at_simps [OF s(4)] at_simps [OF z] split: option.splits)
    next
      case False
      then show ?thesis
        by (auto simp: xmap_in_append at_simps [OF s(2)] at_simps [OF s(4)] at_simps [OF z] split: option.splits)
    qed
    then show ?thesis by (simp add: Pair xmap_def s(1,3) fun_eq_iff)
  qed
qed

theorem split_extent_correct_witness: "xmap (snd (split_extent sample_root 5)) 7 = Some 107"
  using split_extent_correct [OF sample_root_ok, of 5] by (simp add: xmap_sample_root)

text \<open>
  The new entry of a split goes to the end of the root, so splitting an extent that is followed
  by another non-empty one leaves a tree that \<open>validate\<close> rejects.
\<close>

theorem split_extent_breaks_order:
  assumes "all_ok r" "split_extent r s = (True, r')"
    "\<exists>x\<in>set (live r). xad_length x \<noteq> 0 \<and> s \<le> xad_offset x"
  shows "\<not> validate r'"
proof
  assume v: "validate r'"
  from assms(1) have wf: "xt_wf r" by (simp add: all_ok_def)
  from split_extent_True [OF wf assms(2)] obtain ys x zs y z off l k a where
    s: "live r = ys @ x # zs" "at x off (l + k) a" "0 < l" "0 < k" "s = int (off + l)"
    "live r' = ys @ y # zs @ [z]" "xad_ok x \<Longrightarrow> at z (off + l) k (a + l)" by metis
  have z: "at z (off + l) k (a + l)" using s(1,7) all_ok_memb [OF assms(1)] by simp
  from v s(6) obtain q where "validate_from 0 ((ys @ y # zs) @ [z]) = Some q" by (auto simp: validate_live)
  then obtain m where m: "validate_from 0 (ys @ y # zs) = Some m" "m \<le> int (off + l)"
    using validate_from_snoc at_simps(1,2) [OF z] s(4) by (metis less_not_refl)
  from assms(3) s(1,2,3,5) obtain w where w: "w \<in> set (ys @ zs)" "xad_length w \<noteq> 0" "s \<le> xad_offset w"
    using at_simps [OF s(2)] by auto
  with validate_from_bounds [OF m(1)] m(2) s(5) show False by fastforce
qed

theorem split_extent_breaks_order_witness:
  "\<exists>r'. split_extent sample_root 5 = (True, r') \<and> \<not> validate r'"
proof -
  obtain r' where r': "split_extent sample_root 5 = (True, r')"
    by (simp add: split_extent_def live_sample_root at_simps [OF sample_at(1)] sample_root_slots xt_consts Let_def)
  with split_extent_breaks_order [OF sample_root_ok(1) r'] show ?thesis
    by (simp add: live_sample_root at_simps [OF sample_at(2)])
qed

end
