(* ===== verification/Xtree_Read.thy ===== *)
theory Xtree_Read
  imports Xtree
begin

text \<open>
  Reading through the extent map: what \<open>map_blocks\<close> and \<open>read_data\<close> of \<open>btree/xtree.rs\<close> return in
  terms of the map \<open>xmap\<close>, the behaviour of the interruptible read, and the serialisation of the root.
\<close>

section \<open>Block mapping\<close>

text \<open>
  What a mapping request sees of block \<open>b\<close> when it starts at \<open>off\<close>: nothing from the first hole on.
\<close>

definition seen_from :: "xtroot \<Rightarrow> nat \<Rightarrow> nat \<Rightarrow> nat option" where
  "seen_from r off b = (if list_all (\<lambda>c. xmap r c \<noteq> None) [off..<b] then xmap r b else None)"

definition run_blocks :: "nat \<times> nat \<Rightarrow> nat option list" where
  "run_blocks e = (case e of (a, n) \<Rightarrow> if a = 0 then replicate n None else map Some [a..<a + n])"

definition zero_free :: "xtroot \<Rightarrow> bool" where
  "zero_free r \<longleftrightarrow> list_all (\<lambda>x. xad_address x \<noteq> 0) (live r)"

lemma lookup_run:
  assumes "validate r" "lookup r c = Some e" "j < e_length e - (c - nat (e_offset e))"
  shows "xmap r (c + j) = Some (e_address e + (c - nat (e_offset e)) + j)"
proof -
  from lookup_in_Some [OF assms(2) [unfolded lookup_def]] obtain x where
    x: "x \<in> set (live r)" "e = extent_of x" "covers x c" by blast
  then obtain i where i: "i < length (live r)" "x = live r ! i" by (metis in_set_conv_nth)
  have "covers x (c + j)" using x(2,3) assms(3) by (auto simp: covers_def extent_of_def)
  with validate_lookup_unique_lookup [OF assms(1) i(1)] i(2) have "lookup r (c + j) = Some (extent_of x)" by simp
  then show ?thesis using x(2,3) by (simp add: xmap_def xmap_in_def lookup_def extent_of_def covers_def)
qed

lemma lookup_xmap_None: "lookup r c = None \<longleftrightarrow> xmap r c = None"
  by (simp add: xmap_def xmap_in_def lookup_def)

lemma zero_free_lookup: "zero_free r \<Longrightarrow> lookup r c = Some e \<Longrightarrow> e_address e \<noteq> 0"
  using lookup_in_Some [of "live r" c e] by (auto simp: lookup_def zero_free_def extent_of_def list_all_iff)

lemma seen_from_step:
  assumes "\<And>j. j < n \<Longrightarrow> xmap r (c + j) \<noteq> None" "c + n \<le> b"
  shows "seen_from r c b = seen_from r (c + n) b"
proof -
  have "[c..<b] = [c..<c + n] @ [c + n..<b]" using assms(2) by (metis le_Suc_ex upt_add_eq_append le_add1)
  moreover have "list_all (\<lambda>c. xmap r c \<noteq> None) [c..<c + n]"
    using assms(1) by (auto simp: list_all_iff) (metis add_diff_inverse_nat less_diff_conv2 add.commute not_less)
  ultimately show ?thesis by (simp add: seen_from_def)
qed

lemma seen_from_mapped:
  assumes "\<And>j. j < n \<Longrightarrow> xmap r (c + j) \<noteq> None" "j < n"
  shows "seen_from r c (c + j) = xmap r (c + j)"
  using seen_from_step [of j r c "c + j"] assms by (simp add: seen_from_def)

lemma seen_from_hole: "xmap r c = None \<Longrightarrow> c \<le> b \<Longrightarrow> seen_from r c b = None"
  by (cases "c = b") (force simp: seen_from_def list_all_iff)+

lemma map_blocks_loop_blocks:
  assumes "validate r" "zero_free r"
  shows "concat (map run_blocks (map_blocks_loop r c e)) = map (seen_from r c) [c..<e]"
  using assms
proof (induction r c e rule: map_blocks_loop.induct)
  case (1 r c e)
  show ?case
  proof (cases "c < e")
    case False
    then show ?thesis by (simp add: map_blocks_loop.simps)
  next
    case True
    show ?thesis
    proof (cases "lookup r c")
      case None
      then have "map (seen_from r c) [c..<e] = replicate (e - c) None"
        by (intro nth_equalityI) (auto simp: seen_from_hole lookup_xmap_None)
      with None True show ?thesis by (subst map_blocks_loop.simps) (simp add: run_blocks_def)
    next
      case (Some x)
      let ?rel = "c - nat (e_offset x)"
      let ?t = "min (e_length x - ?rel) (e - c)"
      let ?a = "e_address x + ?rel"
      have m: "j < ?t \<Longrightarrow> xmap r (c + j) = Some (?a + j)" for j
        using lookup_run [OF "1.prems"(1) Some] by simp
      then have "map (seen_from r c) [c..<c + ?t] = map Some [?a..<?a + ?t]"
        using seen_from_mapped [of ?t r c] by (intro nth_equalityI) auto
      moreover have "map (seen_from r c) [c + ?t..<e] = map (seen_from r (c + ?t)) [c + ?t..<e]"
        using seen_from_step [of ?t r c] m by (intro map_cong) auto
      moreover have "[c..<e] = [c..<c + ?t] @ [c + ?t..<e]"
        by (metis le_add1 le_add_diff_inverse min.cobounded2 nat_add_left_cancel_le True less_imp_le upt_add_eq_append add_leD1)
      moreover have "concat (map run_blocks (map_blocks_loop r (c + ?t) e)) = map (seen_from r (c + ?t)) [c + ?t..<e]"
        using "1.IH" [OF True Some refl refl refl] "1.prems" by simp
      ultimately show ?thesis
        using True Some zero_free_lookup [OF "1.prems"(2) Some]
        by (subst map_blocks_loop.simps) (simp add: Let_def run_blocks_def)
    qed
  qed
qed

text \<open>
  In a valid tree \<open>map_blocks\<close> returns runs that spell out, block by block, the physical blocks
  of the requested range up to its first hole; from the first hole on it reports everything as sparse.
\<close>

theorem map_blocks_correct:
  assumes "validate r" "zero_free r" "off + n < 2 ^ 64"
  shows "\<exists>runs. map_blocks r off n = Ok runs \<and>
    concat (map run_blocks runs) = map (seen_from r off) [off..<off + n]"
  using assms map_blocks_loop_blocks [OF assms(1,2)] by (simp add: map_blocks_def add_u64_def)

lemma zero_free_sample: "zero_free sample_root"
  by (simp add: zero_free_def live_sample_root at_simps [OF sample_at(1)] at_simps [OF sample_at(2)])

theorem map_blocks_correct_witness:
  "\<exists>runs. map_blocks sample_root 8 4 = Ok runs \<and>
     concat (map run_blocks runs) = [Some 108, Some 109, None, None]"
proof -
  have "[8..<12] = [8, 9, 10, 11 :: nat]" by (simp add: upt_rec)
  moreover have "map (seen_from sample_root 8) [8, 9, 10, 11] = [Some 108, Some 109, None, None]"
    by (simp add: seen_from_def xmap_sample_root upt_rec)
  ultimately show ?thesis
    using map_blocks_correct [OF sample_root_ok(2) zero_free_sample, of 8 4] by simp
qed

section \<open>Reading file data\<close>

definition disk_block :: "storage \<Rightarrow> nat \<Rightarrow> bytes" where
  "disk_block s b = (case fst (read_block s b) of Ok d \<Rightarrow> d | _ \<Rightarrow> [])"

definition view_block :: "storage \<Rightarrow> nat option \<Rightarrow> bytes" where
  "view_block s v = (case v of None \<Rightarrow> replicate BLOCK_SIZE 0 | Some b \<Rightarrow> disk_block s b)"

definition view :: "storage \<Rightarrow> nat option list \<Rightarrow> bytes" where
  "view s vs = concat (map (view_block s) vs)"

lemma view_append: "view s (vs @ ws) = view s vs @ view s ws"
  by (simp add: view_def)

lemma view_Cons: "view s (v # vs) = view_block s v @ view s vs"
  by (simp add: view_def)

lemma view_sparse: "view s (replicate n None) = replicate (n * BLOCK_SIZE) 0"
  by (induction n) (simp_all add: view_def view_block_def replicate_add)

lemma disk_block_ok:
  assumes "st_ok s" "b < size_blocks s"
  shows "read_block s b = (Ok (disk_block s b), s)" "length (disk_block s b) = BLOCK_SIZE"
  using dev.read_total [OF assms] assms(1) by (auto simp: disk_block_def)

text \<open>The plain inner loop appends the run, cut to the bytes still wanted.\<close>

lemma read_run_ok:
  assumes "st_ok s" "a + n \<le> size_blocks s" "rs_buf_offset st < BLOCK_SIZE"
  shows "\<exists>st'. read_run (\<lambda>_. Ok ()) a n st s = (Ok st', s) \<and>
    rs_result st' = rs_result st @ take (rs_remaining st) (drop (rs_buf_offset st) (view s (map Some [a..<a + n]))) \<and>
    rs_remaining st' = rs_remaining st - (n * BLOCK_SIZE - rs_buf_offset st) \<and>
    rs_buf_offset st' = (if n = 0 \<or> rs_remaining st = 0 then rs_buf_offset st else 0)"
  using assms(2,3)
proof (induction n arbitrary: a st)
  case 0
  then show ?case by (simp add: view_def)
next
  case (Suc n)
  show ?case
  proof (cases "rs_remaining st = 0")
    case True
    then show ?thesis by simp
  next
    case False
    let ?d = "disk_block s a" and ?b = "rs_buf_offset st" and ?m = "rs_remaining st"
    let ?t = "min (BLOCK_SIZE - ?b) ?m"
    let ?st = "\<lparr>rs_result = rs_result st @ slice ?b (?b + ?t) ?d, rs_remaining = ?m - ?t,
      rs_buf_offset = 0, rs_polls = rs_polls st + 1\<rparr>"
    have d: "read_block s a = (Ok ?d, s)" "length ?d = BLOCK_SIZE"
      using disk_block_ok [OF assms(1)] Suc.prems by simp_all
    from Suc.IH [of "a + 1" ?st] Suc.prems obtain st' where st':
      "read_run (\<lambda>_. Ok ()) (a + 1) n ?st s = (Ok st', s)"
      "rs_result st' = rs_result ?st @ take (?m - ?t) (view s (map Some [a + 1..<a + 1 + n]))"
      "rs_remaining st' = ?m - ?t - n * BLOCK_SIZE" "rs_buf_offset st' = 0" by auto
    have step: "read_run (\<lambda>_. Ok ()) a (Suc n) st s = (Ok st', s)"
    proof -
      have "?b + ?t \<le> length ?d" using Suc.prems(2) d(2) by simp
      then have "slice_res ?b (?b + ?t) ?d = Ok (slice ?b (?b + ?t) ?d)" by simp
      then show ?thesis using False d(1) st'(1) by (simp add: Let_def)
    qed
    have v: "view s (map Some [a..<a + Suc n]) = ?d @ view s (map Some [a + 1..<a + 1 + n])"
      by (simp add: upt_conv_Cons view_Cons view_block_def del: upt_Suc)
    have p: "slice ?b (?b + ?t) ?d = take ?m (drop ?b ?d)"
      using Suc.prems(2) d(2) by (simp add: slice_def min_def)
    have r: "?m - ?t = ?m - (BLOCK_SIZE - ?b)" by simp
    have "rs_result st' = rs_result st @ take ?m (drop ?b (?d @ view s (map Some [a + 1..<a + 1 + n])))"
      using st'(2) Suc.prems(2) d(2) by (simp add: p r)
    moreover have "rs_remaining st' = ?m - (Suc n * BLOCK_SIZE - ?b)"
      using st'(3) Suc.prems(2) by (simp add: r)
    ultimately show ?thesis using step st'(4) False unfolding v by simp
  qed
qed

text \<open>Only the last run that \<open>map_blocks\<close> returns can be sparse.\<close>

fun sparse_last :: "(nat \<times> nat) list \<Rightarrow> bool" where
  "sparse_last [] = True"
| "sparse_last [e] = True"
| "sparse_last (e # es) \<longleftrightarrow> fst e \<noteq> 0 \<and> sparse_last es"

lemma sparse_last_map_blocks: "zero_free r \<Longrightarrow> sparse_last (map_blocks_loop r c e)"
proof (induction r c e rule: map_blocks_loop.induct)
  case (1 r c e)
  show ?case
  proof (cases "c < e")
    case True
    show ?thesis
    proof (cases "lookup r c")
      case None
      with True show ?thesis by (simp add: map_blocks_loop.simps)
    next
      case (Some x)
      have Cons: "\<And>e es. fst e \<noteq> 0 \<Longrightarrow> sparse_last es \<Longrightarrow> sparse_last (e # es)"
        by (metis sparse_last.elims(1) sparse_last.simps(2,3))
      from "1.IH" [OF True Some refl refl refl] "1.prems" True Some show ?thesis
        by (subst map_blocks_loop.simps) (simp add: Let_def Cons zero_free_lookup)
    qed
  qed (simp add: map_blocks_loop.simps)
qed

definition run_in_range :: "storage \<Rightarrow> nat \<times> nat \<Rightarrow> bool" where
  "run_in_range s e \<longleftrightarrow> fst e = 0 \<or> fst e + snd e \<le> size_blocks s"

lemma length_view_run:
  assumes "st_ok s" "a + n \<le> size_blocks s"
  shows "length (view s (map Some [a..<a + n])) = n * BLOCK_SIZE"
  using assms(2)
proof (induction n arbitrary: a)
  case (Suc n)
  then show ?case
    using disk_block_ok(2) [OF assms(1), of a] Suc.IH [of "Suc a"]
    by (simp add: upt_conv_Cons view_Cons view_block_def del: upt_Suc)
qed (simp add: view_def)

lemma read_extents_ok:
  assumes "st_ok s" "sparse_last es" "list_all (run_in_range s) es" "rs_buf_offset st < BLOCK_SIZE"
    "rs_remaining st = 0 \<or> rs_remaining st + rs_buf_offset st \<le> length (view s (concat (map run_blocks es)))"
  shows "\<exists>st'. read_extents (\<lambda>_. Ok ()) es st s = (Ok st', s) \<and>
    rs_result st' = rs_result st @
      take (rs_remaining st) (drop (rs_buf_offset st) (view s (concat (map run_blocks es))))"
  using assms(2-)
proof (induction es arbitrary: st)
  case Nil
  then show ?case by (simp add: view_def)
next
  case (Cons e es)
  obtain a n where e: "e = (a, n)" by (cases e)
  let ?m = "rs_remaining st" and ?b = "rs_buf_offset st" and ?V = "view s (concat (map run_blocks es))"
  show ?case
  proof (cases "a = 0")
    case True
    with Cons.prems(1) e have "es = []" by (cases es) auto
    with Cons.prems(4) True e show ?thesis
      by (auto simp: Let_def run_blocks_def view_sparse min_def)
  next
    case False
    with Cons.prems(2) e have rng: "a + n \<le> size_blocks s" by (simp add: run_in_range_def)
    let ?R = "view s (map Some [a..<a + n])"
    have R: "length ?R = n * BLOCK_SIZE" by (rule length_view_run [OF assms(1) rng])
    have V: "view s (concat (map run_blocks (e # es))) = ?R @ ?V"
      using False by (simp add: e run_blocks_def view_append)
    from read_run_ok [OF assms(1) rng Cons.prems(3)] obtain st1 where st1:
      "read_run (\<lambda>_. Ok ()) a n st s = (Ok st1, s)" "rs_result st1 = rs_result st @ take ?m (drop ?b ?R)"
      "rs_remaining st1 = ?m - (n * BLOCK_SIZE - ?b)"
      "rs_buf_offset st1 = (if n = 0 \<or> ?m = 0 then ?b else 0)" by blast
    have p1: "sparse_last es" using Cons.prems(1) by (cases es) auto
    have p2: "list_all (run_in_range s) es" "rs_buf_offset st1 < BLOCK_SIZE"
      using Cons.prems(2,3) st1(4) by auto
    have p3: "rs_remaining st1 = 0 \<or> rs_remaining st1 + rs_buf_offset st1 \<le> length ?V"
      using Cons.prems(4) st1(3,4) R unfolding V by auto
    from Cons.IH [OF p1 p2 p3] obtain st2 where st2:
      "read_extents (\<lambda>_. Ok ()) es st1 s = (Ok st2, s)"
      "rs_result st2 = rs_result st1 @ take (rs_remaining st1) (drop (rs_buf_offset st1) ?V)" by blast
    have "rs_result st2 = rs_result st @ take ?m (drop ?b (?R @ ?V))"
    proof -
      have "?b - n * BLOCK_SIZE = 0" if "n \<noteq> 0"
        using that Cons.prems(3) by (cases n) auto
      then show ?thesis using st2(2) st1(2-4) R by (cases "n = 0") auto
    qed
    with st1(1) st2(1) False show ?thesis unfolding V by (auto simp: e)
  qed
qed

definition extents_on :: "storage \<Rightarrow> xtroot \<Rightarrow> bool" where
  "extents_on s r \<longleftrightarrow> list_all (\<lambda>x. xad_address x + xad_length x \<le> size_blocks s) (live r)"

lemma extents_on_lookup:
  "extents_on s r \<Longrightarrow> lookup r c = Some e \<Longrightarrow> e_address e + e_length e \<le> size_blocks s"
  using lookup_in_Some [of "live r" c e] by (auto simp: lookup_def extents_on_def extent_of_def list_all_iff)

lemma map_blocks_in_range: "extents_on s r \<Longrightarrow> list_all (run_in_range s) (map_blocks_loop r c e)"
proof (induction r c e rule: map_blocks_loop.induct)
  case (1 r c e)
  show ?case
  proof (cases "c < e \<and> lookup r c \<noteq> None")
    case True
    then obtain x where x: "lookup r c = Some x" "c < e" by auto
    have "run_in_range s (e_address x + (c - nat (e_offset x)), min (e_length x - (c - nat (e_offset x))) (e - c))"
      unfolding run_in_range_def fst_conv snd_conv
      using extents_on_lookup [OF "1.prems" x(1)] lookup_Some_rel [OF x(1)] by (intro disjI2) linarith
    with "1.IH" [OF x(2,1) refl refl refl] "1.prems" x show ?thesis
      by (subst map_blocks_loop.simps) (simp add: Let_def)
  next
    case False
    then show ?thesis by (subst map_blocks_loop.simps) (auto simp: run_in_range_def)
  qed
qed

lemma seen_on:
  assumes "extents_on s r" "seen_from r c b = Some p"
  shows "p < size_blocks s"
proof -
  from assms(2) have "xmap r b = Some p" by (auto simp: seen_from_def split: if_splits)
  then obtain e where e: "lookup r b = Some e" "p = e_address e + (b - nat (e_offset e))"
    by (auto simp: xmap_def xmap_in_def lookup_def)
  with extents_on_lookup [OF assms(1) e(1)] lookup_Some_rel [OF e(1)] show ?thesis by simp
qed

lemma length_view_block:
  "st_ok s \<Longrightarrow> (\<And>p. v = Some p \<Longrightarrow> p < size_blocks s) \<Longrightarrow> length (view_block s v) = BLOCK_SIZE"
  by (auto simp: view_block_def disk_block_ok split: option.split)

lemma concat_blocks:
  assumes "\<And>x. x \<in> set xs \<Longrightarrow> length x = n" "0 < n"
  shows "length (concat xs) = length xs * n"
    "p < length xs * n \<Longrightarrow> concat xs ! p = xs ! (p div n) ! (p mod n)"
proof -
  show l: "length (concat xs) = length xs * n" using assms(1) by (induction xs) auto
  show "p < length xs * n \<Longrightarrow> concat xs ! p = xs ! (p div n) ! (p mod n)"
    using assms(1)
  proof (induction xs arbitrary: p)
    case (Cons x xs)
    show ?case
    proof (cases "p < n")
      case True
      with Cons.prems show ?thesis by (simp add: nth_append)
    next
      case False
      then have "p div n = Suc ((p - n) div n)" "p mod n = (p - n) mod n"
        using assms(2) by (simp_all add: le_div_geq le_mod_geq)
      moreover have "concat xs ! (p - n) = xs ! ((p - n) div n) ! ((p - n) mod n)"
        using Cons False by (intro Cons.IH) auto
      ultimately show ?thesis using Cons.prems False by (simp add: nth_append)
    qed
  qed simp
qed

lemma read_data_seen:
  assumes "st_ok s" "validate r" "zero_free r" "extents_on s r" "off + len + BLOCK_SIZE < 2 ^ 64"
  defines "fo \<equiv> off div BLOCK_SIZE"
  shows "read_data r off len s =
    (Ok (map (\<lambda>p. view_block s (seen_from r fo (p div BLOCK_SIZE)) ! (p mod BLOCK_SIZE)) [off..<off + len]), s)"
proof -
  let ?bo = "off mod BLOCK_SIZE"
  let ?n = "(len + ?bo + BLOCK_SIZE - 1) div BLOCK_SIZE"
  let ?vs = "map (seen_from r fo) [fo..<fo + ?n]"
  have bo: "?bo < BLOCK_SIZE" "fo * BLOCK_SIZE + ?bo = off" by (simp_all add: fo_def)
  have n: "len + ?bo \<le> ?n * BLOCK_SIZE" "?n \<le> len + ?bo + BLOCK_SIZE - 1"
    by (simp_all add: block_size_defs)
  have fit: "fo + ?n < 2 ^ 64" "len + ?bo + BLOCK_SIZE < 2 ^ 64"
    using n(2) bo assms(5) by (simp_all add: block_size_defs)
  let ?b = "map (view_block s) ?vs"
  have lb: "x \<in> set ?b \<Longrightarrow> length x = BLOCK_SIZE" for x
    using seen_on [OF assms(4)] by (auto intro!: length_view_block [OF assms(1)])
  note cb = concat_blocks [of ?b BLOCK_SIZE, OF lb BLOCK_SIZE_pos(1)]
  have lv: "length (view s ?vs) = ?n * BLOCK_SIZE" using cb(1) by (simp add: view_def)
  let ?st = "\<lparr>rs_result = [], rs_remaining = len, rs_buf_offset = ?bo, rs_polls = 0\<rparr>"
  let ?es = "map_blocks_loop r fo (fo + ?n)"
  have runs: "concat (map run_blocks ?es) = ?vs" by (rule map_blocks_loop_blocks [OF assms(2,3)])
  obtain st' where st': "read_extents (\<lambda>_. Ok ()) ?es ?st s = (Ok st', s)"
    "rs_result st' = take len (drop ?bo (view s ?vs))"
    using read_extents_ok [OF assms(1) sparse_last_map_blocks [OF assms(3)] map_blocks_in_range [OF assms(4)],
        of ?st fo "fo + ?n"] bo(1) n(1) lv
    unfolding runs by auto
  have "take len (drop ?bo (view s ?vs)) =
      map (\<lambda>p. view_block s (seen_from r fo (p div BLOCK_SIZE)) ! (p mod BLOCK_SIZE)) [off..<off + len]"
  proof (rule nth_equalityI)
    show "length (take len (drop ?bo (view s ?vs))) = length (map (\<lambda>p. view_block s (seen_from r fo (p div BLOCK_SIZE)) ! (p mod BLOCK_SIZE)) [off..<off + len])"
      using lv n(1) by simp
  next
    fix i assume "i < length (take len (drop ?bo (view s ?vs)))"
    then have i: "i < len" by simp
    have q: "(?bo + i) div BLOCK_SIZE < ?n"
      using i n(1) by (intro less_mult_imp_div_less) linarith
    have "off + i = (?bo + i) + fo * BLOCK_SIZE" using bo(2) by simp
    then have dm: "(off + i) div BLOCK_SIZE = fo + (?bo + i) div BLOCK_SIZE"
      "(off + i) mod BLOCK_SIZE = (?bo + i) mod BLOCK_SIZE"
      using div_mult_self1 [OF BLOCK_SIZE_pos(2), of "?bo + i" fo] mod_mult_self1 [of "?bo + i" fo BLOCK_SIZE]
      by (simp_all only: add.commute)
    show "take len (drop ?bo (view s ?vs)) ! i =
        map (\<lambda>p. view_block s (seen_from r fo (p div BLOCK_SIZE)) ! (p mod BLOCK_SIZE)) [off..<off + len] ! i"
      using i n(1) lv q cb(2) [of "?bo + i"] by (simp add: view_def dm)
  qed
  then show ?thesis
    using st' fit by (simp add: read_data_def read_data_with_def Let_def add_u64_def map_blocks_def fo_def)
qed

text \<open>The byte of the file at a position, as the map and the device define it.\<close>

definition file_byte :: "xtroot \<Rightarrow> storage \<Rightarrow> nat \<Rightarrow> byte" where
  "file_byte r s p = view_block s (xmap r (p div BLOCK_SIZE)) ! (p mod BLOCK_SIZE)"

lemma read_data_bytes:
  assumes "st_ok s" "validate r" "zero_free r" "extents_on s r" "off + len + BLOCK_SIZE < 2 ^ 64"
    "\<And>b c. off div BLOCK_SIZE \<le> b \<Longrightarrow> b < c \<Longrightarrow> c * BLOCK_SIZE < off + len \<Longrightarrow>
       xmap r b = None \<Longrightarrow> xmap r c = None"
  shows "read_data r off len s = (Ok (map (file_byte r s) [off..<off + len]), s)"
proof -
  have "seen_from r (off div BLOCK_SIZE) (p div BLOCK_SIZE) = xmap r (p div BLOCK_SIZE)"
    if p: "off \<le> p" "p < off + len" for p
  proof (cases "list_all (\<lambda>c. xmap r c \<noteq> None) [off div BLOCK_SIZE..<p div BLOCK_SIZE]")
    case True
    then show ?thesis by (simp add: seen_from_def)
  next
    case False
    then obtain b where b: "off div BLOCK_SIZE \<le> b" "b < p div BLOCK_SIZE" "xmap r b = None"
      by (auto simp: list_all_iff)
    have "p div BLOCK_SIZE * BLOCK_SIZE \<le> p" by simp
    with p have "p div BLOCK_SIZE * BLOCK_SIZE < off + len" by linarith
    from assms(6) [OF b(1,2) this b(3)] show ?thesis by (simp add: seen_from_def)
  qed
  then show ?thesis
    unfolding read_data_seen [OF assms(1-5)] by (auto simp: file_byte_def)
qed

text \<open>
  C29. \<open>read_data\<close> returns exactly the bytes of the file: the contents of the mapped blocks, and zeros
  for a hole, on a healthy device and for a valid tree whose extents lie on it, as long as no mapped
  block follows a hole inside the range that is read.
\<close>

theorem read_data_correct:
  assumes "st_ok s" "validate r" "zero_free r" "extents_on s r" "off + len + BLOCK_SIZE < 2 ^ 64"
    "\<And>b c. off div BLOCK_SIZE \<le> b \<Longrightarrow> b < c \<Longrightarrow> c * BLOCK_SIZE < off + len \<Longrightarrow>
       xmap r b = None \<Longrightarrow> xmap r c = None"
  shows "read_data r off len s = (Ok (map (file_byte r s) [off..<off + len]), s)"
  using assms by (rule read_data_bytes)

lemma sample_device:
  "st_ok (MemoryStorage (mem_new 400))" "extents_on (MemoryStorage (mem_new 400)) sample_root"
  by (simp_all add: mem_new_ok block_size_defs)
    (simp add: extents_on_def live_sample_root at_simps [OF sample_at(1)] at_simps [OF sample_at(2)])

theorem read_data_correct_witness:
  "read_data sample_root (8 * BLOCK_SIZE) 3 (MemoryStorage (mem_new 400)) =
     (Ok (map (file_byte sample_root (MemoryStorage (mem_new 400))) [8 * BLOCK_SIZE..<8 * BLOCK_SIZE + 3]),
      MemoryStorage (mem_new 400))"
  by (rule read_data_correct [OF sample_device(1) sample_root_ok(2) zero_free_sample sample_device(2)])
    (auto simp: block_size_defs xmap_sample_root split: if_splits)

text \<open>
  A mapped block that follows a hole inside one read is returned as zeros, whatever the device
  holds there.
\<close>

theorem read_data_after_hole:
  assumes "st_ok s" "validate r" "zero_free r" "extents_on s r" "off + len + BLOCK_SIZE < 2 ^ 64"
    "off div BLOCK_SIZE \<le> b" "xmap r b = None" "b < p div BLOCK_SIZE" "off \<le> p" "p < off + len"
  shows "\<exists>d. read_data r off len s = (Ok d, s) \<and> length d = len \<and> d ! (p - off) = 0"
proof -
  have "seen_from r (off div BLOCK_SIZE) (p div BLOCK_SIZE) = None"
    using assms(6-8) by (force simp: seen_from_def list_all_iff)
  then have "view_block s (seen_from r (off div BLOCK_SIZE) (p div BLOCK_SIZE)) ! (p mod BLOCK_SIZE) = 0"
    by (simp add: view_block_def)
  with assms(9,10) show ?thesis
    unfolding read_data_seen [OF assms(1-5)] using nth_upt [of off "p - off" "off + len"] by simp
qed

theorem read_data_after_hole_witness:
  "\<exists>d. read_data sample_root 0 (25 * BLOCK_SIZE) (MemoryStorage (mem_new 400)) =
      (Ok d, MemoryStorage (mem_new 400)) \<and> d ! (22 * BLOCK_SIZE) = 0 \<and> xmap sample_root 22 = Some 302"
  using read_data_after_hole [OF sample_device(1) sample_root_ok(2) zero_free_sample sample_device(2),
      of 0 "25 * BLOCK_SIZE" 15 "22 * BLOCK_SIZE"]
  by (auto simp: block_size_defs xmap_sample_root)

section \<open>Interruptible reads\<close>

lemma read_run_checked:
  "fst (read_run (\<lambda>k. flag_check (flag k)) a n st s) = Err Interrupted \<or>
   read_run (\<lambda>k. flag_check (flag k)) a n st s = read_run (\<lambda>_. Ok ()) a n st s"
proof (induction n arbitrary: a st s)
  case (Suc n)
  show ?case
  proof (cases "read_block s a")
    case (Pair d s')
    then show ?thesis using Suc by (cases d) (auto simp: flag_check_def Let_def split: res.splits)
  qed
qed simp

lemma read_extents_checked:
  "fst (read_extents (\<lambda>k. flag_check (flag k)) es st s) = Err Interrupted \<or>
   read_extents (\<lambda>k. flag_check (flag k)) es st s = read_extents (\<lambda>_. Ok ()) es st s"
proof (induction es arbitrary: st s)
  case (Cons e es)
  obtain a n where e: "e = (a, n)" by (cases e)
  show ?case
  proof (cases "a = 0")
    case True
    then show ?thesis using Cons by (simp add: e Let_def)
  next
    case False
    from read_run_checked [of flag a n st s] show ?thesis
    proof
      assume "fst (read_run (\<lambda>k. flag_check (flag k)) a n st s) = Err Interrupted"
      then show ?thesis using False by (cases "read_run (\<lambda>k. flag_check (flag k)) a n st s") (simp add: e)
    next
      assume r: "read_run (\<lambda>k. flag_check (flag k)) a n st s = read_run (\<lambda>_. Ok ()) a n st s"
      show ?thesis
      proof (cases "read_run (\<lambda>_. Ok ()) a n st s")
        case (Pair x s')
        with r Cons False show ?thesis by (cases x) (simp_all add: e)
      qed
    qed
  qed
qed simp

text \<open>
  An interruptible read never returns different data: whenever the flag is raised, the call
  either fails with \<open>Interrupted\<close> or behaves exactly like the plain read.
\<close>

theorem read_data_checked_safe:
  "fst (read_data_checked r off len s flag) = Err Interrupted \<or>
   read_data_checked r off len s flag = read_data r off len s"
proof -
  have "fst (st_bind m f) = Err Interrupted \<or> st_bind m f = st_bind m' f"
    if "fst m = Err Interrupted \<or> m = m'" for m m' :: "read_state res \<times> storage" and f :: "read_state \<Rightarrow> storage \<Rightarrow> bytes res \<times> storage"
    using that by (cases m) auto
  then show ?thesis
    using read_extents_checked
    by (auto simp: read_data_checked_def read_data_def read_data_with_def Let_def split: res.splits)
qed

section \<open>Serialisation\<close>

lemma parse_xad_bytes: "parse_xad (xad_bytes x) = Ok x"
proof -
  obtain r0 r1 where r: "xad_rsvrd x = (r0, r1)" by (cases "xad_rsvrd x")
  have "slice 8 16 (xad_bytes x) = pxd_into_bytes (xad_loc x)"
    by (simp add: r slice_def pxd_into_bytes_def)
  moreover have "slice 4 8 (xad_bytes x) = list_of_arr4 (xad_off2 x)" by (simp add: r slice_def)
  ultimately show ?thesis by (simp add: parse_xad_def r)
qed

lemma xad_bytes_parse:
  assumes "length d = 16" "parse_xad d = Ok x"
  shows "xad_bytes x = d"
proof -
  have "list_of_arr4 (len_addr p) @ list_of_arr4 (addr2 p) = pxd_into_bytes p" for p
    by (simp add: pxd_into_bytes_def)
  moreover have "slice 0 4 d = [d ! 0, d ! 1, d ! 2, d ! 3]" using slice4 [of 0 d] assms(1) by (simp add: numeral_eq_Suc)
  moreover have "slice 0 4 d @ slice 4 8 d @ slice 8 16 d = d"
    using assms(1) by (simp add: slice_join slice_whole)
  ultimately show ?thesis using assms by (auto simp: parse_xad_def)
qed

lemma put_xads_layout:
  "length p = 32 + 16 * k \<Longrightarrow> length q = 16 * m \<Longrightarrow>
   put_xads r 32 [k..<k + m] (p @ q) = p @ concat (map (\<lambda>i. xad_bytes (xads r ! (XTENTRYSTART + i))) [k..<k + m])"
proof (induction m arbitrary: k p q)
  case (Suc m)
  let ?x = "xad_bytes (xads r ! (XTENTRYSTART + k))"
  have "splice (32 + k * 16) ?x (p @ q) = (p @ ?x) @ drop 16 q"
    using Suc.prems by (simp add: splice_def del: xad_bytes.simps)
  moreover have "put_xads r 32 [Suc k..<Suc k + m] ((p @ ?x) @ drop 16 q) =
      (p @ ?x) @ concat (map (\<lambda>i. xad_bytes (xads r ! (XTENTRYSTART + i))) [Suc k..<Suc k + m])"
    using Suc.prems by (intro Suc.IH) (simp_all del: xad_bytes.simps)
  ultimately show ?case
    using Suc.prems by (simp add: upt_conv_Cons del: xad_bytes.simps upt_Suc)
qed simp

lemma length_xt_header_bytes [simp]: "length (xt_header_bytes h) = 32"
  by (simp add: xt_header_bytes_def)

lemma to_bytes_layout:
  "to_bytes r = xt_header_bytes (header r) @
     concat (map (\<lambda>i. xad_bytes (xads r ! (XTENTRYSTART + i))) [0..<16])"
proof -
  have "splice 0 (xt_header_bytes (header r)) (replicate 288 0) = xt_header_bytes (header r) @ replicate 256 0"
    by (simp add: splice_def)
  then show ?thesis
    using put_xads_layout [of "xt_header_bytes (header r)" 0 "replicate 256 0" 16 r]
    by (simp add: to_bytes_def xt_consts del: xad_bytes.simps)
qed

definition xad_at :: "bytes \<Rightarrow> nat \<Rightarrow> xad" where
  "xad_at data i = (case parse_xad (slice (32 + i * 16) (48 + i * 16) data) of Ok x \<Rightarrow> x | _ \<Rightarrow> xad_default)"

lemma parse_xads_layout:
  "length xs = XTENTRYSTART + k \<Longrightarrow> length ys = m \<Longrightarrow> 32 + 16 * (k + m) \<le> length data \<Longrightarrow>
   parse_xads data 32 [k..<k + m] (xs @ ys) = Ok (xs @ map (xad_at data) [k..<k + m])"
proof (induction m arbitrary: k xs ys)
  case (Suc m)
  obtain x where x: "parse_xad (slice (32 + k * 16) (48 + k * 16) data) = Ok x"
    using Suc.prems by (auto simp: parse_xad_def)
  obtain y ys' where ys: "ys = y # ys'" using Suc.prems by (cases ys) auto
  have "parse_xads data 32 [Suc k..<Suc k + m] ((xs @ [x]) @ ys') = Ok ((xs @ [x]) @ map (xad_at data) [Suc k..<Suc k + m])"
    using Suc.prems by (intro Suc.IH) (auto simp: ys)
  then show ?case using Suc.prems x
    by (simp add: upt_conv_Cons ys list_update_append xad_at_def add.commute del: upt_Suc)
qed simp

lemma xads_of_default: "xads xtroot_default = [xad_default, xad_default] @ replicate 16 xad_default"
  by (simp add: xtroot_default_def xt_consts numeral_eq_Suc)

lemma parse_xtroot_layout:
  assumes "length data = 288"
  shows "parse_xtroot data = Ok
    \<lparr>header = \<lparr>xh_next = arr8_of (slice 0 8 data), xh_prev = arr8_of (slice 8 16 data),
       xh_flag = data ! 16, xh_rsrvd1 = data ! 17, xh_nextindex = arr2_of (slice 18 20 data),
       xh_maxentry = arr2_of (slice 20 22 data), xh_rsrvd2 = arr2_of (slice 22 24 data),
       self_pxd = pxd_from_bytes (slice 24 32 data)\<rparr>,
     xads = [xad_default, xad_default] @ map (xad_at data) [0..<16]\<rparr>"
  using assms parse_xads_layout [of "[xad_default, xad_default]" 0 "replicate 16 xad_default" 16 data]
  by (simp add: parse_xtroot_def xads_of_default xt_consts del: append.simps)

lemma length_concat_16:
  "length (concat (map (\<lambda>i. xad_bytes (f i)) [k..<k + n])) = 16 * n"
  by (induction n) (simp_all del: xad_bytes.simps)

lemma slice_concat_16:
  assumes "i < n"
  shows "slice (i * 16) (16 + i * 16) (concat (map (\<lambda>i. xad_bytes (f i)) [0..<n])) = xad_bytes (f i)"
proof -
  let ?g = "\<lambda>k m. concat (map (\<lambda>i. xad_bytes (f i)) [k..<m])"
  have "[0..<n] = [0..<i] @ i # [Suc i..<n]" using assms
    by (metis less_imp_add_positive add_0 upt_add_eq_append upt_conv_Cons zero_le)
  then have "?g 0 n = ?g 0 i @ xad_bytes (f i) @ ?g (Suc i) n" by simp
  moreover have "length (?g 0 i) = i * 16" using length_concat_16 [of f 0 i] by simp
  ultimately show ?thesis by (simp add: layout_select del: xad_bytes.simps)
qed

lemma length_to_bytes [simp]: "length (to_bytes r) = 288"
  using length_concat_16 [of "\<lambda>i. xads r ! (XTENTRYSTART + i)" 0 16]
  by (simp add: to_bytes_layout del: xad_bytes.simps)

lemma header_slices:
  "slice 0 8 (xt_header_bytes h) = list_of_arr8 (xh_next h)" "slice 8 16 (xt_header_bytes h) = list_of_arr8 (xh_prev h)"
  "xt_header_bytes h ! 16 = xh_flag h" "xt_header_bytes h ! 17 = xh_rsrvd1 h"
  "slice 18 20 (xt_header_bytes h) = list_of_arr2 (xh_nextindex h)"
  "slice 20 22 (xt_header_bytes h) = list_of_arr2 (xh_maxentry h)"
  "slice 22 24 (xt_header_bytes h) = list_of_arr2 (xh_rsrvd2 h)"
  "slice 24 32 (xt_header_bytes h) = pxd_into_bytes (self_pxd h)"
  by (simp_all add: xt_header_bytes_def pxd_into_bytes_def slice_def nth_append)

lemma from_to_bytes:
  assumes wf: "xt_wf r"
  shows "from_inode_data (to_bytes r) = Ok (r\<lparr>xads := [xad_default, xad_default] @ drop XTENTRYSTART (xads r)\<rparr>)"
proof -
  let ?X = "concat (map (\<lambda>i. xad_bytes (xads r ! (XTENTRYSTART + i))) [0..<16])"
  have tb: "to_bytes r = xt_header_bytes (header r) @ ?X" by (rule to_bytes_layout)
  have x: "xad_at (to_bytes r) i = xads r ! (XTENTRYSTART + i)" if "i < 16" for i
    using slice_concat_16 [OF that, of "\<lambda>i. xads r ! (XTENTRYSTART + i)"]
    by (simp add: xad_at_def tb slice_append_right parse_xad_bytes del: xad_bytes.simps)
  have xs: "map (xad_at (to_bytes r)) [0..<16] = drop XTENTRYSTART (xads r)"
    using wf by (intro nth_equalityI) (auto simp: x xt_wf_def xt_consts)
  have h: "slice a b (to_bytes r) = slice a b (xt_header_bytes (header r))" if "b \<le> 32" for a b
    using that by (simp add: tb slice_append_left)
  have n: "to_bytes r ! i = xt_header_bytes (header r) ! i" if "i < 32" for i
    using that by (simp add: tb nth_append)
  show ?thesis
    using parse_xtroot_layout [OF length_to_bytes [of r]] unfolding xs
    by (auto simp: from_inode_data_def h n header_slices intro!: xtroot.equality xt_header.equality)
qed

text \<open>
  C30. Serialising a root to the 288 bytes of the inode's union and parsing them again gives the same
  root (its two slots under the header are not stored); conversely, every 288-byte image is
  reproduced byte for byte by parsing and serialising it.
\<close>

theorem xtroot_roundtrip:
  "(xt_wf r \<longrightarrow> from_inode_data (to_bytes r) =
      Ok (r\<lparr>xads := [xad_default, xad_default] @ drop XTENTRYSTART (xads r)\<rparr>)) \<and>
   (length data = 288 \<longrightarrow> (\<exists>r'. from_inode_data data = Ok r' \<and> xt_wf r' \<and> to_bytes r' = data))"
proof (intro conjI impI)
  assume "xt_wf r"
  then show "from_inode_data (to_bytes r) = Ok (r\<lparr>xads := [xad_default, xad_default] @ drop XTENTRYSTART (xads r)\<rparr>)"
    by (rule from_to_bytes)
next
  assume l: "length data = 288"
  let ?h = "\<lparr>xh_next = arr8_of (slice 0 8 data), xh_prev = arr8_of (slice 8 16 data),
       xh_flag = data ! 16, xh_rsrvd1 = data ! 17, xh_nextindex = arr2_of (slice 18 20 data),
       xh_maxentry = arr2_of (slice 20 22 data), xh_rsrvd2 = arr2_of (slice 22 24 data),
       self_pxd = pxd_from_bytes (slice 24 32 data)\<rparr>"
  let ?r = "\<lparr>header = ?h, xads = [xad_default, xad_default] @ map (xad_at data) [0..<16]\<rparr>"
  have hd: "xt_header_bytes ?h = slice 0 32 data"
  proof -
    have "[data ! 16, data ! 17] = slice 16 18 data"
      using l by (intro nth_equalityI) (auto simp: less_Suc_eq numeral_eq_Suc)
    moreover have "list_of_arr4 (len_addr p) @ list_of_arr4 (addr2 p) = pxd_into_bytes p" for p
      by (simp add: pxd_into_bytes_def)
    ultimately show ?thesis using l
      by (simp add: xt_header_bytes_def slice_join del: append_Cons append.simps)
  qed
  have xb: "xad_bytes (xad_at data i) = slice (32 + i * 16) (48 + i * 16) data" if "i < 16" for i
  proof -
    have l16: "length (slice (32 + i * 16) (48 + i * 16) data) = 16" using that l by simp
    then obtain x where "parse_xad (slice (32 + i * 16) (48 + i * 16) data) = Ok x" by (simp add: parse_xad_def)
    with xad_bytes_parse [OF l16 this] show ?thesis by (simp add: xad_at_def)
  qed
  have cs: "concat (map (\<lambda>i. slice (32 + i * 16) (48 + i * 16) data) [0..<n]) = slice 32 (32 + n * 16) data" for n
  proof (induction n)
    case (Suc n)
    then show ?case using slice_split [of 32 "32 + n * 16" "48 + n * 16" data] by (simp add: add.commute)
  qed simp
  have "map (\<lambda>i. xad_bytes (xads ?r ! (XTENTRYSTART + i))) [0..<16] =
      map (\<lambda>i. slice (32 + i * 16) (48 + i * 16) data) [0..<16]"
    by (rule map_cong [OF refl]) (simp add: xt_consts xb del: xad_bytes.simps)
  then have "concat (map (\<lambda>i. xad_bytes (xads ?r ! (XTENTRYSTART + i))) [0..<16]) = slice 32 288 data"
    using cs [of 16] by (simp only: mult_numeral_left_semiring_numeral) simp
  then have "to_bytes ?r = data"
    using hd l slice_join(1) [of 0 32 288 data] by (simp add: to_bytes_layout slice_whole)
  moreover have "xt_wf ?r" by (simp add: xt_wf_def xt_consts)
  ultimately show "\<exists>r'. from_inode_data data = Ok r' \<and> xt_wf r' \<and> to_bytes r' = data"
    using parse_xtroot_layout [OF l] l by (simp add: from_inode_data_def)
qed

theorem xtroot_roundtrip_witness:
  "from_inode_data (to_bytes sample_root) =
     Ok (sample_root\<lparr>xads := [xad_default, xad_default] @ drop XTENTRYSTART (xads sample_root)\<rparr>)"
  using xtroot_roundtrip [of sample_root] sample_root_slots(3) by simp

end
