(* ===== verification/Dtree.thy ===== *)
theory Dtree
  imports OnDisk
begin

text \<open>
  The inline directory tree of \<open>btree/dtree.rs\<close>. As in the source, a directory root is its raw
  bytes: a 32-byte header (\<open>nextindex\<close> at 17, free-list count and head at 18 and 19, the sorted
  table \<open>stbl\<close> of slot numbers at 24..31) followed by 32-byte slots. Names are lists of UTF-16 code
  units.

  The abstract directory is the list of its entries in table order (\<open>entry_list\<close>); lookup, insertion and
  removal are proved to implement the list operations on it.
\<close>

section \<open>Layout\<close>

definition DTSLOTSIZE :: nat where "DTSLOTSIZE = 32"
definition DTENTRYSTART :: nat where "DTENTRYSTART = 1"
definition DTROOTMAXSLOT :: nat where "DTROOTMAXSLOT = 9"
definition DTROOT_NEXTINDEX :: nat where "DTROOT_NEXTINDEX = 17"
definition DTROOT_ENTRY_BASE :: nat where "DTROOT_ENTRY_BASE = DTENTRYSTART * DTSLOTSIZE"

lemmas dt_consts = DTSLOTSIZE_def DTENTRYSTART_def DTROOTMAXSLOT_def DTROOT_NEXTINDEX_def DTROOT_ENTRY_BASE_def

type_synonym ucs2 = "16 word list"

record dir_entry =
  de_inumber :: "32 word"
  de_name :: ucs2
  de_index :: "32 word"

record ldt_entry =
  le_inumber :: arr4
  le_next :: byte
  le_name_len :: byte
  le_name :: ucs2
  le_index :: arr4

fun bytes_to_u16 :: "bytes \<Rightarrow> ucs2" where
  "bytes_to_u16 (a # b # bs) = read_u16 (A2 a b) # bytes_to_u16 bs"
| "bytes_to_u16 _ = []"

definition u16_to_bytes :: "ucs2 \<Rightarrow> bytes" where
  "u16_to_bytes ws = concat (map (\<lambda>w. list_of_arr2 (write_u16 w)) ws)"

section \<open>Operations\<close>

definition dt_from_inode_data :: "bytes \<Rightarrow> bytes res" where
  "dt_from_inode_data data =
     (if length data < DTROOT_ENTRY_BASE then Err (Other ''insufficient data for dtroot'') else Ok data)"

definition dt_next_index :: "bytes \<Rightarrow> nat" where
  "dt_next_index d = (if length d \<le> DTROOT_NEXTINDEX then 0 else unat (d ! DTROOT_NEXTINDEX))"

definition dt_set_nextindex :: "bytes \<Rightarrow> nat \<Rightarrow> bytes" where
  "dt_set_nextindex d val =
     (if DTROOT_NEXTINDEX < length d then d[DTROOT_NEXTINDEX := word_of_nat val] else d)"

definition read_stbl :: "bytes \<Rightarrow> nat \<Rightarrow> bytes" where
  "read_stbl d num_entries = slice 24 (24 + min num_entries 8) d"

definition read_stbl_entry :: "bytes \<Rightarrow> nat \<Rightarrow> byte res" where
  "read_stbl_entry d idx =
     (if length d \<le> 24 + idx then Err (Other ''stbl offset out of bounds'') else Ok (d ! (24 + idx)))"

definition set_stbl_entry :: "bytes \<Rightarrow> nat \<Rightarrow> byte \<Rightarrow> unit res \<times> bytes" where
  "set_stbl_entry d idx slot =
     (if length d \<le> 24 + idx then (Err (Other ''stbl offset out of bounds''), d)
      else (Ok (), d[24 + idx := slot]))"

definition parse_ldt_entry :: "bytes \<Rightarrow> nat \<Rightarrow> ldt_entry res" where
  "parse_ldt_entry data offset =
     (if length data < offset + DTSLOTSIZE then Err (Other ''entry out of bounds'')
      else
        let d = slice offset (offset + DTSLOTSIZE) data in
        Ok \<lparr>le_inumber = arr4_of (slice 0 4 d), le_next = d ! 4, le_name_len = d ! 5,
            le_name = bytes_to_u16 (slice 6 28 d), le_index = arr4_of (slice 28 32 d)\<rparr>)"

text \<open>
  One step of the loops in \<open>lookup\<close>, \<open>entries\<close> and \<open>remove\<close>: a slot outside the data is skipped
  (\<open>None\<close>); the slice with the name panics when the stored name length leaves the data.
\<close>

definition slot_entry :: "bytes \<Rightarrow> byte \<Rightarrow> dir_entry option res" where
  "slot_entry d slot_idx =
     (let offset = unat slot_idx * DTSLOTSIZE in
      if length d < offset + DTSLOTSIZE then Ok None
      else
        res_bind (parse_ldt_entry d offset) (\<lambda>entry.
        res_bind (slice_res (offset + 6) (offset + 6 + unat (le_name_len entry) * 2) d) (\<lambda>name_bytes.
          Ok (Some \<lparr>de_inumber = read_u32 (le_inumber entry), de_name = bytes_to_u16 name_bytes,
                    de_index = read_u32 (le_index entry)\<rparr>))))"

fun lookup_stbl :: "bytes \<Rightarrow> ucs2 \<Rightarrow> bytes \<Rightarrow> dir_entry option res" where
  "lookup_stbl d name [] = Ok None"
| "lookup_stbl d name (s # ss) =
     res_bind (slot_entry d s) (\<lambda>e.
       case e of
         Some x \<Rightarrow> if de_name x = name then Ok (Some x) else lookup_stbl d name ss
       | None \<Rightarrow> lookup_stbl d name ss)"

definition dt_lookup :: "bytes \<Rightarrow> ucs2 \<Rightarrow> dir_entry option res" where
  "dt_lookup d name =
     (let num_entries = dt_next_index d in
      if num_entries = 0 then Ok None else lookup_stbl d name (read_stbl d num_entries))"

fun entries_stbl :: "bytes \<Rightarrow> bytes \<Rightarrow> dir_entry list res" where
  "entries_stbl d [] = Ok []"
| "entries_stbl d (s # ss) =
     res_bind (slot_entry d s) (\<lambda>e.
     res_bind (entries_stbl d ss) (\<lambda>es. Ok (case e of Some x \<Rightarrow> x # es | None \<Rightarrow> es)))"

definition dt_entries :: "bytes \<Rightarrow> dir_entry list res" where
  "dt_entries d = entries_stbl d (read_stbl d (dt_next_index d))"

definition len_entries :: "bytes \<Rightarrow> nat" where
  "len_entries d = dt_next_index d"

definition alloc_slot :: "bytes \<Rightarrow> nat \<Rightarrow> nat \<times> bytes" where
  "alloc_slot d num_entries =
     (let freecnt = (if 18 < length d then unat (d ! 18) else 0);
          freelist = (if 19 < length d then unat (d ! 19) else 0)
      in
      if 0 < freecnt \<and> freelist \<noteq> 0 then
        let next = (if freelist * DTSLOTSIZE + 4 < length d then d ! (freelist * DTSLOTSIZE + 4) else 0)
        in (freelist, d[18 := word_of_nat (freecnt - 1), 19 := next])
      else (min (num_entries + DTENTRYSTART) (DTROOTMAXSLOT - 1), d))"

definition write_ldt_entry :: "bytes \<Rightarrow> nat \<Rightarrow> 32 word \<Rightarrow> ucs2 \<Rightarrow> 32 word \<Rightarrow> unit res \<times> bytes" where
  "write_ldt_entry d offset ino name index =
     (if length d < offset + DTSLOTSIZE then (Err (Other ''slot offset out of bounds''), d)
      else
        let d1 = splice offset (list_of_arr4 (write_u32 ino)) d;
            d2 = d1[offset + 5 := word_of_nat (min (length name) 11)];
            d3 = splice (offset + 6) (u16_to_bytes (take 11 name)) d2
        in (Ok (), splice (offset + 28) (list_of_arr4 (write_u32 index)) d3))"

definition dt_insert :: "bytes \<Rightarrow> ucs2 \<Rightarrow> 32 word \<Rightarrow> 32 word \<Rightarrow> bool res \<times> bytes" where
  "dt_insert d name ino index =
     (case dt_lookup d name of
        Ok (Some _) \<Rightarrow> (Ok False, d)
      | Ok None \<Rightarrow>
          let num_entries = dt_next_index d in
          if DTROOTMAXSLOT - 1 \<le> num_entries then (Ok False, d)
          else
            let (free_slot, d1) = alloc_slot d num_entries in
            if DTROOTMAXSLOT \<le> free_slot then (Ok False, d1)
            else
              st_bind (write_ldt_entry d1 (free_slot * DTSLOTSIZE) ino name index) (\<lambda>_ d2.
              st_bind (set_stbl_entry d2 num_entries (word_of_nat free_slot)) (\<lambda>_ d3.
                (Ok True, dt_set_nextindex d3 (num_entries + 1))))
      | Err e \<Rightarrow> (Err e, d)
      | Panic \<Rightarrow> (Panic, d)
      | Exit \<Rightarrow> (Exit, d))"

text \<open>\<open>for j in stbl_idx..num_entries - 1\<close>: move the later table entries down.\<close>

fun shift_stbl :: "bytes \<Rightarrow> nat list \<Rightarrow> unit res \<times> bytes" where
  "shift_stbl d [] = (Ok (), d)"
| "shift_stbl d (j # js) =
     (case read_stbl_entry d (j + 1) of
        Ok next_slot \<Rightarrow> shift_stbl (snd (set_stbl_entry d j next_slot)) js
      | Err e \<Rightarrow> (Err e, d)
      | Panic \<Rightarrow> (Panic, d)
      | Exit \<Rightarrow> (Exit, d))"

definition remove_at :: "bytes \<Rightarrow> nat \<Rightarrow> nat \<Rightarrow> byte \<Rightarrow> 32 word \<Rightarrow> 32 word option res \<times> bytes" where
  "remove_at d num_entries stbl_idx slot_idx ino =
     st_bind (shift_stbl d [stbl_idx..<num_entries - 1]) (\<lambda>_ d1.
       let d2 = snd (set_stbl_entry d1 (num_entries - 1) 0);
           d3 = dt_set_nextindex d2 (num_entries - 1);
           slot_offset = unat slot_idx * DTSLOTSIZE;
           d4 = (if slot_offset + DTSLOTSIZE \<le> length d3
                 then splice slot_offset (replicate DTSLOTSIZE 0) d3 else d3)
       in (Ok (Some ino), d4))"

fun remove_stbl :: "bytes \<Rightarrow> ucs2 \<Rightarrow> nat \<Rightarrow> nat \<Rightarrow> bytes \<Rightarrow> 32 word option res \<times> bytes" where
  "remove_stbl d name num_entries stbl_idx [] = (Ok None, d)"
| "remove_stbl d name num_entries stbl_idx (slot_idx # ss) =
     (case slot_entry d slot_idx of
        Ok (Some x) \<Rightarrow>
          if de_name x = name then remove_at d num_entries stbl_idx slot_idx (de_inumber x)
          else remove_stbl d name num_entries (stbl_idx + 1) ss
      | Ok None \<Rightarrow> remove_stbl d name num_entries (stbl_idx + 1) ss
      | Err e \<Rightarrow> (Err e, d)
      | Panic \<Rightarrow> (Panic, d)
      | Exit \<Rightarrow> (Exit, d))"

definition dt_remove :: "bytes \<Rightarrow> ucs2 \<Rightarrow> 32 word option res \<times> bytes" where
  "dt_remove d name =
     (let num_entries = dt_next_index d in remove_stbl d name num_entries 0 (read_stbl d num_entries))"

section \<open>Directory cursor\<close>

definition DOT_OFFSET :: nat where "DOT_OFFSET = 0"
definition DOTDOT_OFFSET :: nat where "DOTDOT_OFFSET = 1"
definition ENTRY_BASE :: nat where "ENTRY_BASE = 2"

definition cursor_new :: nat where "cursor_new = ENTRY_BASE"

definition cursor_is_dot :: "nat \<Rightarrow> bool" where "cursor_is_dot offset \<longleftrightarrow> offset = DOT_OFFSET"
definition cursor_is_dotdot :: "nat \<Rightarrow> bool" where "cursor_is_dotdot offset \<longleftrightarrow> offset = DOTDOT_OFFSET"
definition cursor_is_entry :: "nat \<Rightarrow> bool" where "cursor_is_entry offset \<longleftrightarrow> ENTRY_BASE \<le> offset"

definition cursor_entry_index :: "nat \<Rightarrow> nat option" where
  "cursor_entry_index offset = (if offset < ENTRY_BASE then None else Some (offset - ENTRY_BASE))"

definition cursor_advance :: "nat \<Rightarrow> nat res" where
  "cursor_advance offset = add_u64 offset 1"

definition cursor_has_more :: "nat \<Rightarrow> nat \<Rightarrow> bool" where
  "cursor_has_more offset num_entries \<longleftrightarrow> offset < ENTRY_BASE \<or> offset - ENTRY_BASE < num_entries"

section \<open>The directory a root stands for\<close>

definition stbl :: "bytes \<Rightarrow> bytes" where
  "stbl d = read_stbl d (dt_next_index d)"

definition view_at :: "bytes \<Rightarrow> nat \<Rightarrow> dir_entry" where
  "view_at d off =
     \<lparr>de_inumber = read_u32 (arr4_of (slice off (off + 4) d)),
      de_name = bytes_to_u16 (slice (off + 6) (off + 6 + unat (d ! (off + 5)) * 2) d),
      de_index = read_u32 (arr4_of (slice (off + 28) (off + 32) d))\<rparr>"

definition entry_list :: "bytes \<Rightarrow> dir_entry list" where
  "entry_list d = map (\<lambda>s. view_at d (unat s * 32)) (stbl d)"

definition slot_ok :: "bytes \<Rightarrow> byte \<Rightarrow> bool" where
  "slot_ok d s \<longleftrightarrow> 1 \<le> unat s \<and> unat s \<le> 8 \<and> unat (d ! (unat s * 32 + 5)) \<le> 11"

definition dt_wf :: "bytes \<Rightarrow> bool" where
  "dt_wf d \<longleftrightarrow> length d = 288 \<and> dt_next_index d \<le> 8 \<and> distinct (stbl d) \<and> list_all (slot_ok d) (stbl d)"

lemma length_stbl: "dt_wf d \<Longrightarrow> length (stbl d) = dt_next_index d"
  by (simp add: dt_wf_def stbl_def read_stbl_def)

lemma slot_entry_view:
  assumes "length d = 288" "slot_ok d s"
  shows "slot_entry d s = Ok (Some (view_at d (unat s * 32)))"
proof -
  let ?o = "unat s * 32"
  have s: "?o + 32 \<le> 288" "unat (d ! (?o + 5)) \<le> 11" using assms(2) by (auto simp: slot_ok_def)
  have "slice ?o (?o + 32) d ! 5 = d ! (?o + 5)" using s assms(1) by simp
  then show ?thesis
    using s assms(1) by (simp add: slot_entry_def parse_ldt_entry_def Let_def dt_consts slice_slice view_at_def)
qed

lemma entries_stbl_view:
  "length d = 288 \<Longrightarrow> list_all (slot_ok d) ss \<Longrightarrow> entries_stbl d ss = Ok (map (\<lambda>s. view_at d (unat s * 32)) ss)"
  by (induction ss) (auto simp: slot_entry_view)

lemma lookup_stbl_view:
  "length d = 288 \<Longrightarrow> list_all (slot_ok d) ss \<Longrightarrow>
   lookup_stbl d name ss = Ok (find (\<lambda>e. de_name e = name) (map (\<lambda>s. view_at d (unat s * 32)) ss))"
  by (induction ss) (auto simp: slot_entry_view)

lemma dt_lookup_list:
  assumes "dt_wf d"
  shows "dt_lookup d name = Ok (find (\<lambda>e. de_name e = name) (entry_list d))"
proof (cases "dt_next_index d = 0")
  case True
  then have "stbl d = []" using length_stbl [OF assms] by simp
  with True show ?thesis by (simp add: dt_lookup_def entry_list_def)
next
  case False
  then show ?thesis
    using assms lookup_stbl_view [of d "stbl d" name]
    by (simp add: dt_lookup_def Let_def stbl_def entry_list_def dt_wf_def)
qed

lemma dt_entries_list: "dt_wf d \<Longrightarrow> dt_entries d = Ok (entry_list d)"
  using entries_stbl_view [of d "stbl d"] by (simp add: dt_entries_def stbl_def entry_list_def dt_wf_def)

text \<open>An entry depends on the 32 bytes of its slot only.\<close>

lemma view_at_cong:
  assumes "slice off (off + 32) d = slice off (off + 32) d'" "off + 32 \<le> length d" "length d = length d'"
    "unat (d ! (off + 5)) \<le> 11"
  shows "view_at d off = view_at d' off" "d ! (off + 5) = d' ! (off + 5)"
proof -
  have s: "slice (off + a) (off + b) d = slice (off + a) (off + b) d'" if "b \<le> 32" for a b
  proof -
    have "slice (off + a) (off + b) x = slice a b (slice off (off + 32) x)" for x :: bytes
      using that by (simp add: slice_slice)
    with assms(1) show ?thesis by simp
  qed
  have "slice off (off + 32) x ! 5 = x ! (off + 5)" if "length x = length d" for x :: bytes
    using that assms(2) by simp
  with assms(1,3) show n: "d ! (off + 5) = d' ! (off + 5)" by metis
  then have "off + 6 + unat (d ! (off + 5)) * 2 = off + (6 + unat (d ! (off + 5)) * 2)" by simp
  with s [of 4 0] s [of 32 28] s [of "6 + unat (d ! (off + 5)) * 2" 6] n assms(4)
  show "view_at d off = view_at d' off" by (simp add: view_at_def add.assoc)
qed

lemma bytes_to_u16_inverse: "bytes_to_u16 (u16_to_bytes ws) = ws"
proof (induction ws)
  case (Cons w ws)
  obtain a b where "write_u16 w = A2 a b" by (cases "write_u16 w")
  moreover from this have "read_u16 (A2 a b) = w" by (metis read_write_u16)
  ultimately show ?case using Cons by (simp add: u16_to_bytes_def)
qed (simp add: u16_to_bytes_def)

lemma length_u16_to_bytes [simp]: "length (u16_to_bytes ws) = 2 * length ws"
  by (induction ws) (simp_all add: u16_to_bytes_def)

text \<open>What writing an entry does to its slot and to the others.\<close>

lemma write_ldt_entry_ok:
  assumes "length d = 288" "off + 32 \<le> 288" "length name \<le> 11"
  obtains d' where "write_ldt_entry d off ino name index = (Ok (), d')" "length d' = 288"
    "view_at d' off = \<lparr>de_inumber = ino, de_name = name, de_index = index\<rparr>"
    "unat (d' ! (off + 5)) = length name"
    "\<And>a b. b \<le> off \<or> off + 32 \<le> a \<Longrightarrow> slice a b d' = slice a b d"
proof -
  let ?I = "list_of_arr4 (write_u32 ino)" and ?X = "list_of_arr4 (write_u32 index)" and ?N = "u16_to_bytes name"
  let ?L = "word_of_nat (length name) :: byte"
  define d1 where "d1 = splice off ?I d"
  define d2 where "d2 = d1[off + 5 := ?L]"
  define d3 where "d3 = splice (off + 6) ?N d2"
  define d4 where "d4 = splice (off + 28) ?X d3"
  have l: "length d1 = 288" "length d2 = 288" "length d3 = 288" "length d4 = 288"
    using assms by (simp_all add: d1_def d2_def d3_def d4_def)
  have L: "unat ?L = length name" using assms(3) by (simp add: unat_of_nat)
  have w: "write_ldt_entry d off ino name index = (Ok (), d4)"
    using assms by (simp add: write_ldt_entry_def d1_def d2_def d3_def d4_def Let_def dt_consts min_def)
  have "slice off (off + 4) d4 = ?I"
    using assms l by (simp add: d4_def d3_def d2_def d1_def slice_splice_other slice_update_other slice_splice_same')
  moreover have n5: "d4 ! (off + 5) = ?L"
    using assms l by (simp add: d4_def d3_def d2_def nth_splice)
  moreover have "slice (off + 6) (off + 6 + length name * 2) d4 = ?N"
    using assms l by (simp add: d4_def d3_def slice_splice_other slice_splice_same')
  moreover have "slice (off + 28) (off + 32) d4 = ?X"
    using assms l by (simp add: d4_def slice_splice_same')
  ultimately have "view_at d4 off = \<lparr>de_inumber = ino, de_name = name, de_index = index\<rparr>"
    by (simp add: view_at_def L bytes_to_u16_inverse)
  moreover have "slice a b d4 = slice a b d" if "b \<le> off \<or> off + 32 \<le> a" for a b
  proof -
    have "slice a b d4 = slice a b d3" "slice a b d3 = slice a b d2" "slice a b d1 = slice a b d"
      unfolding d4_def d3_def d1_def using that l assms by (intro slice_splice_other; auto)+
    moreover have "slice a b d2 = slice a b d1"
      unfolding d2_def using that by (intro slice_update_other) auto
    ultimately show ?thesis by simp
  qed
  ultimately show thesis using that [OF w l(4)] n5 L by simp
qed

section \<open>Insertion\<close>

definition no_free_list :: "bytes \<Rightarrow> bool" where
  "no_free_list d \<longleftrightarrow> d ! 18 = 0 \<or> d ! 19 = 0"

lemma view_at_header_update: "i < off \<Longrightarrow> view_at (d[i := v]) off = view_at d off"
  by (simp add: view_at_def slice_update_other)

text \<open>The slot that \<open>insert\<close> uses is the one after as many slots as there are entries.\<close>

definition next_slot :: "bytes \<Rightarrow> byte" where
  "next_slot d = word_of_nat (dt_next_index d + 1)"

lemma unat_byte: "m < 256 \<Longrightarrow> unat (word_of_nat m :: byte) = m"
  by (simp add: unat_of_nat)

lemma dt_next_index_nth: "length d = 288 \<Longrightarrow> d ! 17 = w \<Longrightarrow> dt_next_index d = unat w"
  by (simp add: dt_next_index_def dt_consts)

lemma dt_insert_general:
  assumes "dt_wf d" "no_free_list d" "dt_next_index d < 8" "length name \<le> 11"
    "find (\<lambda>e. de_name e = name) (entry_list d) = None"
    and new_def: "new = \<lparr>de_inumber = ino, de_name = name, de_index = index\<rparr>"
  shows "\<exists>d'. dt_insert d name ino index = (Ok True, d') \<and> length d' = 288 \<and> stbl d' = stbl d @ [next_slot d] \<and>
    entry_list d' = map (\<lambda>s. if s = next_slot d then new else view_at d (unat s * 32)) (stbl d) @ [new] \<and>
    list_all (slot_ok d') (stbl d') \<and> dt_next_index d' = dt_next_index d + 1 \<and> no_free_list d'"
proof -
  let ?n = "dt_next_index d" and ?k = "next_slot d"
  have l: "length d = 288" using assms(1) by (simp add: dt_wf_def)
  have k: "unat ?k = ?n + 1" unfolding next_slot_def using assms(3) by (intro unat_byte) simp
  have o: "(?n + 1) * 32 + 32 \<le> 288" using assms(3) by simp
  obtain d2 where d2: "write_ldt_entry d ((?n + 1) * 32) ino name index = (Ok (), d2)" "length d2 = 288"
    "view_at d2 ((?n + 1) * 32) = new" "unat (d2 ! ((?n + 1) * 32 + 5)) = length name"
    "\<And>a b. b \<le> (?n + 1) * 32 \<or> (?n + 1) * 32 + 32 \<le> a \<Longrightarrow> slice a b d2 = slice a b d"
    unfolding new_def using write_ldt_entry_ok [OF l o assms(4)] by metis
  define d3 where "d3 = d2[24 + ?n := ?k]"
  define d' where "d' = d3[17 := word_of_nat (?n + 1)]"
  have al: "alloc_slot d ?n = (?n + 1, d)"
    using assms(2,3) by (auto simp: alloc_slot_def no_free_list_def dt_consts Let_def)
  have st: "dt_insert d name ino index = (Ok True, d')"
    using assms(3,5) l d2(1,2) al
    by (simp add: dt_insert_def dt_lookup_list [OF assms(1)] dt_consts set_stbl_entry_def d3_def d'_def
        dt_set_nextindex_def next_slot_def Let_def)
  have l': "length d' = 288" by (simp add: d'_def d3_def d2(2))
  have n': "dt_next_index d' = ?n + 1"
  proof -
    have "d' ! 17 = word_of_nat (?n + 1)" by (simp add: d'_def d3_def d2(2))
    with dt_next_index_nth [OF l' this] unat_byte [of "?n + 1"] assms(3) show ?thesis by simp
  qed
  have sb: "stbl d' = stbl d @ [?k]"
  proof -
    have "stbl d' = slice 24 (24 + (?n + 1)) d'" using n' assms(3) by (simp add: stbl_def read_stbl_def)
    also have "\<dots> = slice 24 (Suc (24 + ?n)) d3" by (simp add: d'_def slice_update_other)
    also have "\<dots> = slice 24 (24 + ?n) d2 @ [?k]"
      unfolding d3_def using assms(3) d2(2) by (intro slice_snoc_update) auto
    also have "slice 24 (24 + ?n) d2 = slice 24 (24 + ?n) d" using assms(3) by (intro d2(5)) simp
    also have "\<dots> = stbl d" using assms(3) by (simp add: stbl_def read_stbl_def)
    finally show ?thesis .
  qed
  have v: "view_at d' off = view_at d2 off" if "32 \<le> off" for off
    using that assms(3) by (simp add: d'_def d3_def view_at_header_update)
  have n5: "d' ! (off + 5) = d2 ! (off + 5)" if "32 \<le> off" for off
    using that assms(3) by (simp add: d'_def d3_def)
  have old: "view_at d' (unat s * 32) = view_at d (unat s * 32) \<and> slot_ok d' s"
    if s: "s \<in> set (stbl d)" "s \<noteq> ?k" for s
  proof -
    have ok: "slot_ok d s" using assms(1) s(1) by (simp add: dt_wf_def list_all_iff)
    have "unat s \<noteq> ?n + 1" using s(2) k by (metis word_eq_iff_unsigned)
    then have "slice (unat s * 32) (unat s * 32 + 32) d2 = slice (unat s * 32) (unat s * 32 + 32) d"
      by (intro d2(5)) auto
    from view_at_cong [OF this [symmetric]] ok l d2(2)
    have "view_at d (unat s * 32) = view_at d2 (unat s * 32)" "d ! (unat s * 32 + 5) = d2 ! (unat s * 32 + 5)"
      by (auto simp: slot_ok_def)
    with ok v [of "unat s * 32"] n5 [of "unat s * 32"] show ?thesis by (auto simp: slot_ok_def)
  qed
  have new: "view_at d' (unat ?k * 32) = new" "slot_ok d' ?k"
    using v [of "(?n + 1) * 32"] n5 [of "(?n + 1) * 32"] d2(3,4) k assms(3,4) by (auto simp: slot_ok_def)
  have "slice 18 20 d' = slice 18 20 d"
    using d2(5) [of 20 18] by (simp add: d'_def d3_def slice_update_other)
  moreover have "slice 18 20 x ! 0 = x ! 18" "slice 18 20 x ! 1 = x ! 19" if "length x = 288" for x :: bytes
    using that by simp_all
  ultimately have nf: "d' ! 18 = d ! 18" "d' ! 19 = d ! 19" using l l' by metis+
  have "entry_list d' = map (\<lambda>s. if s = ?k then new else view_at d (unat s * 32)) (stbl d) @ [new]"
    using old new by (simp add: entry_list_def sb)
  moreover have "list_all (slot_ok d') (stbl d')" using old new by (auto simp: sb list_all_iff)
  moreover have "no_free_list d'" using nf assms(2) by (simp add: no_free_list_def)
  ultimately show ?thesis using st l' sb n' by blast
qed

lemma find_append_last:
  "find P (xs @ [y]) = (case find P xs of Some x \<Rightarrow> Some x | None \<Rightarrow> if P y then Some y else None)"
  by (induction xs) auto

text \<open>
  A directory from which nothing was removed: its entries lie in the slots 1, 2, ... in order, so the next slot is free.
\<close>

definition packed :: "bytes \<Rightarrow> bool" where
  "packed d \<longleftrightarrow> dt_wf d \<and> no_free_list d \<and> stbl d = map word_of_nat [1..<Suc (dt_next_index d)]"

lemma packed_next: "packed d \<Longrightarrow> dt_next_index d < 8 \<Longrightarrow> next_slot d \<notin> set (stbl d)"
proof
  assume p: "packed d" "dt_next_index d < 8" "next_slot d \<in> set (stbl d)"
  then obtain x where x: "1 \<le> x" "x \<le> dt_next_index d" "next_slot d = word_of_nat x" unfolding packed_def by auto
  have "unat (next_slot d) = x" unfolding x(3) using x(2) p(2) by (intro unat_byte) simp
  moreover have "unat (next_slot d) = dt_next_index d + 1" unfolding next_slot_def using p(2) by (intro unat_byte) simp
  ultimately show False using x(2) by simp
qed

lemma dt_insert_entries:
  assumes "dt_wf d" "no_free_list d" "dt_next_index d < 8" "length name \<le> 11"
    "find (\<lambda>e. de_name e = name) (entry_list d) = None" "next_slot d \<notin> set (stbl d)"
  shows "\<exists>d'. dt_insert d name ino index = (Ok True, d') \<and> dt_wf d' \<and>
    entry_list d' = entry_list d @ [\<lparr>de_inumber = ino, de_name = name, de_index = index\<rparr>] \<and> (packed d \<longrightarrow> packed d')"
proof -
  let ?new = "\<lparr>de_inumber = ino, de_name = name, de_index = index\<rparr>"
  obtain d' where d': "dt_insert d name ino index = (Ok True, d')" "length d' = 288" "stbl d' = stbl d @ [next_slot d]"
    "entry_list d' = map (\<lambda>s. if s = next_slot d then ?new else view_at d (unat s * 32)) (stbl d) @ [?new]"
    "list_all (slot_ok d') (stbl d')" "dt_next_index d' = dt_next_index d + 1" "no_free_list d'"
    using dt_insert_general [OF assms(1-5) refl, of ino index] by blast
  have wf: "dt_wf d'" using d' assms by (simp add: dt_wf_def)
  moreover have "packed d'" if "packed d"
    using that wf d'(3,6,7) by (simp add: packed_def next_slot_def)
  moreover have "entry_list d' = entry_list d @ [?new]" using d'(4) assms(6) by (auto simp: entry_list_def)
  ultimately show ?thesis using d'(1) by blast
qed

lemma dt_insert_refused:
  assumes "dt_wf d" "8 \<le> dt_next_index d \<or> name \<in> de_name ` set (entry_list d)"
  shows "dt_insert d name ino index = (Ok False, d)"
proof (cases "find (\<lambda>e. de_name e = name) (entry_list d)")
  case None
  then have "8 \<le> dt_next_index d" using assms(2) by (auto simp: find_None_iff)
  then show ?thesis using None by (simp add: dt_insert_def dt_lookup_list [OF assms(1)] dt_consts)
next
  case (Some e)
  then show ?thesis by (simp add: dt_insert_def dt_lookup_list [OF assms(1)])
qed


text \<open>
  When the slot after the last used position is still live (which is so after any entry but the
  last one was removed), insertion reports success and overwrites that entry: its table position now
  shows the new name.
\<close>

theorem dt_insert_overwrites:
  assumes "dt_wf d" "no_free_list d" "dt_next_index d < 8" "length name \<le> 11"
    "find (\<lambda>e. de_name e = name) (entry_list d) = None"
    "i < length (stbl d)" "stbl d ! i = next_slot d"
  shows "\<exists>d'. dt_insert d name ino index = (Ok True, d') \<and>
    entry_list d' = (entry_list d)[i := \<lparr>de_inumber = ino, de_name = name, de_index = index\<rparr>] @
      [\<lparr>de_inumber = ino, de_name = name, de_index = index\<rparr>]"
proof -
  let ?new = "\<lparr>de_inumber = ino, de_name = name, de_index = index\<rparr>"
  obtain d' where d': "dt_insert d name ino index = (Ok True, d')"
    "entry_list d' = map (\<lambda>s. if s = next_slot d then ?new else view_at d (unat s * 32)) (stbl d) @ [?new]"
    using dt_insert_general [OF assms(1-5) refl, of ino index] by blast
  have "map (\<lambda>s. if s = next_slot d then ?new else view_at d (unat s * 32)) (stbl d) = (entry_list d)[i := ?new]"
  proof (rule nth_equalityI)
    fix j assume "j < length (map (\<lambda>s. if s = next_slot d then ?new else view_at d (unat s * 32)) (stbl d))"
    then have j: "j < length (stbl d)" by simp
    have "distinct (stbl d)" using assms(1) by (simp add: dt_wf_def)
    then have "stbl d ! j = next_slot d \<longleftrightarrow> j = i" using j assms(6,7) by (metis nth_eq_iff_index_eq)
    with j assms(6) show "map (\<lambda>s. if s = next_slot d then ?new else view_at d (unat s * 32)) (stbl d) ! j =
        (entry_list d)[i := ?new] ! j"
      by (simp add: entry_list_def nth_list_update)
  qed (simp add: entry_list_def)
  with d' show ?thesis by simp
qed

section \<open>Removal\<close>

lemma shift_stbl_ok:
  assumes "24 + m < length d" "i \<le> m"
  shows "\<exists>d1. shift_stbl d [i..<m] = (Ok (), d1) \<and> length d1 = length d \<and>
    (\<forall>p<length d. d1 ! p = (if 24 + i \<le> p \<and> p < 24 + m then d ! (p + 1) else d ! p))"
  using assms
proof (induction "m - i" arbitrary: d i)
  case 0
  then show ?case by auto
next
  case (Suc n)
  then have im: "i < m" by simp
  let ?d = "d[24 + i := d ! (24 + i + 1)]"
  have "n = m - Suc i" "24 + m < length ?d" "Suc i \<le> m" using Suc.hyps(2) Suc.prems im by auto
  from Suc.hyps(1) [OF this] obtain d1 where
    d1: "shift_stbl ?d [Suc i..<m] = (Ok (), d1)" "length d1 = length d"
    "\<And>p. p < length d \<Longrightarrow> d1 ! p = (if 24 + Suc i \<le> p \<and> p < 24 + m then ?d ! (p + 1) else ?d ! p)"
    by auto
  have "shift_stbl d [i..<m] = (Ok (), d1)"
    using d1(1) Suc.prems im by (simp add: upt_conv_Cons read_stbl_entry_def set_stbl_entry_def)
  moreover have "d1 ! p = (if 24 + i \<le> p \<and> p < 24 + m then d ! (p + 1) else d ! p)" if "p < length d" for p
    using d1(3) [OF that] that im by (cases "p = 24 + i") (auto simp: nth_list_update)
  ultimately show ?case using d1(2) by blast
qed

lemma remove_stbl_found:
  assumes "length d = 288" "list_all (slot_ok d) (ys @ s # zs)"
    "\<And>y. y \<in> set ys \<Longrightarrow> de_name (view_at d (unat y * 32)) \<noteq> name" "de_name (view_at d (unat s * 32)) = name"
  shows "remove_stbl d name n k (ys @ s # zs) =
    remove_at d n (k + length ys) s (de_inumber (view_at d (unat s * 32)))"
  using assms(2,3)
proof (induction ys arbitrary: k)
  case Nil
  then show ?case using slot_entry_view [OF assms(1), of s] assms(4) by simp
next
  case (Cons y ys)
  then show ?case using slot_entry_view [OF assms(1), of y] Cons.IH [of "k + 1"] by simp
qed

lemma remove_stbl_absent:
  "length d = 288 \<Longrightarrow> list_all (slot_ok d) ss \<Longrightarrow>
   (\<And>y. y \<in> set ss \<Longrightarrow> de_name (view_at d (unat y * 32)) \<noteq> name) \<Longrightarrow> remove_stbl d name n k ss = (Ok None, d)"
  by (induction ss arbitrary: k) (simp_all add: slot_entry_view)

lemma remove_at_ok:
  assumes "dt_wf d" "stbl d = ys @ s # zs"
  shows "\<exists>d'. remove_at d (dt_next_index d) (length ys) s ino = (Ok (Some ino), d') \<and> length d' = 288 \<and>
    dt_next_index d' = dt_next_index d - 1 \<and> stbl d' = ys @ zs \<and>
    (\<forall>x. x \<noteq> s \<and> slot_ok d x \<longrightarrow> slice (unat x * 32) (unat x * 32 + 32) d' = slice (unat x * 32) (unat x * 32 + 32) d)"
proof -
  let ?n = "dt_next_index d" and ?i = "length ys"
  have l: "length d = 288" and n8: "?n \<le> 8" using assms(1) by (auto simp: dt_wf_def)
  have n: "?n = ?i + 1 + length zs" using length_stbl [OF assms(1)] assms(2) by simp
  have ok: "slot_ok d s" using assms by (simp add: dt_wf_def)
  have "24 + (?n - 1) < length d" "?i \<le> ?n - 1" using l n n8 by auto
  from shift_stbl_ok [OF this] obtain d1 where
    d1: "shift_stbl d [?i..<?n - 1] = (Ok (), d1)" "length d1 = 288"
    "\<And>p. p < 288 \<Longrightarrow> d1 ! p = (if 24 + ?i \<le> p \<and> p < 24 + (?n - 1) then d ! (p + 1) else d ! p)"
    using l by metis
  let ?d2 = "d1[24 + (?n - 1) := 0]"
  let ?d3 = "?d2[17 := word_of_nat (?n - 1)]"
  let ?d4 = "splice (unat s * 32) (replicate 32 0) ?d3"
  have so: "32 \<le> unat s * 32" "unat s * 32 + 32 \<le> 288" using ok by (auto simp: slot_ok_def)
  have r: "remove_at d ?n ?i s ino = (Ok (Some ino), ?d4)"
    using d1(1,2) l n n8 so
    by (simp add: remove_at_def set_stbl_entry_def dt_set_nextindex_def dt_consts Let_def)
  have l4: "length ?d4 = 288" using d1(2) so by simp
  have low: "?d4 ! p = ?d3 ! p" if "p < 32" for p
    using that so d1(2) by (simp add: nth_splice)
  have n': "dt_next_index ?d4 = ?n - 1"
  proof -
    have "?d4 ! 17 = word_of_nat (?n - 1)" using low [of 17] d1(2) by simp
    with dt_next_index_nth [OF l4 this] unat_byte [of "?n - 1"] n8 show ?thesis by simp
  qed
  have "slice 24 (24 + (?n - 1)) ?d4 = ys @ zs"
  proof (rule nth_equalityI)
    show "length (slice 24 (24 + (?n - 1)) ?d4) = length (ys @ zs)" using l4 n n8 by simp
  next
    fix j assume "j < length (slice 24 (24 + (?n - 1)) ?d4)"
    then have j: "j < ?n - 1" by simp
    have g: "stbl d ! q = d ! (24 + q)" if "q < ?n" for q
      using that l n8 by (simp add: stbl_def read_stbl_def)
    have "slice 24 (24 + (?n - 1)) ?d4 ! j = ?d3 ! (24 + j)" using j n8 l4 low [of "24 + j"] by simp
    also have "\<dots> = d1 ! (24 + j)" using j by simp
    also have "\<dots> = (if ?i \<le> j then stbl d ! (j + 1) else stbl d ! j)"
      using j n8 d1(3) [of "24 + j"] g [of j] g [of "j + 1"] by auto
    also have "\<dots> = (ys @ zs) ! j" by (auto simp: assms(2) nth_append)
    finally show "slice 24 (24 + (?n - 1)) ?d4 ! j = (ys @ zs) ! j" .
  qed
  then have sb: "stbl ?d4 = ys @ zs" using n' n8 by (simp add: stbl_def read_stbl_def)
  have fr: "slice (unat x * 32) (unat x * 32 + 32) ?d4 = slice (unat x * 32) (unat x * 32 + 32) d"
    if x: "x \<noteq> s" "slot_ok d x" for x
  proof -
    have "unat x \<noteq> unat s" using x(1) by (metis word_eq_iff_unsigned)
    then have "slice (unat x * 32) (unat x * 32 + 32) ?d4 = slice (unat x * 32) (unat x * 32 + 32) ?d3"
      using so d1(2) by (intro slice_splice_other) auto
    also have "\<dots> = slice (unat x * 32) (unat x * 32 + 32) d1"
    proof -
      have "17 < unat x * 32" "24 + (?n - 1) < unat x * 32" using x(2) n8 by (auto simp: slot_ok_def)
      then show ?thesis by (simp add: slice_update_other)
    qed
    also have "\<dots> = slice (unat x * 32) (unat x * 32 + 32) d"
      using x(2) n8 l d1(2,3) by (intro nth_equalityI) (auto simp: slot_ok_def)
    finally show ?thesis .
  qed
  from r l4 n' sb fr show ?thesis by blast
qed

lemma dt_remove_entries:
  assumes "dt_wf d"
  shows "(name \<notin> de_name ` set (entry_list d) \<longrightarrow> dt_remove d name = (Ok None, d)) \<and>
    (\<forall>es1 e es2. entry_list d = es1 @ e # es2 \<and> de_name e = name \<and> name \<notin> de_name ` set es1 \<longrightarrow>
      (\<exists>d'. dt_remove d name = (Ok (Some (de_inumber e)), d') \<and> dt_wf d' \<and> entry_list d' = es1 @ es2))"
proof (intro conjI impI allI)
  have l: "length d = 288" "list_all (slot_ok d) (stbl d)" using assms by (simp_all add: dt_wf_def)
  show "dt_remove d name = (Ok None, d)" if "name \<notin> de_name ` set (entry_list d)"
    using that remove_stbl_absent [OF l, of name "dt_next_index d" 0]
    by (force simp: dt_remove_def Let_def entry_list_def simp flip: stbl_def)
  fix es1 e es2
  assume e: "entry_list d = es1 @ e # es2 \<and> de_name e = name \<and> name \<notin> de_name ` set es1"
  then obtain ys s zs where st: "stbl d = ys @ s # zs" "es1 = map (\<lambda>s. view_at d (unat s * 32)) ys"
    "e = view_at d (unat s * 32)" "es2 = map (\<lambda>s. view_at d (unat s * 32)) zs"
    by (auto simp: entry_list_def map_eq_append_conv map_eq_Cons_conv)
  from remove_at_ok [OF assms st(1), of "de_inumber e"] obtain d' where
    d': "remove_at d (dt_next_index d) (length ys) s (de_inumber e) = (Ok (Some (de_inumber e)), d')"
    "length d' = 288" "dt_next_index d' = dt_next_index d - 1" "stbl d' = ys @ zs"
    "\<And>x. x \<noteq> s \<Longrightarrow> slot_ok d x \<Longrightarrow> slice (unat x * 32) (unat x * 32 + 32) d' = slice (unat x * 32) (unat x * 32 + 32) d"
    by blast
  have rm: "dt_remove d name = (Ok (Some (de_inumber e)), d')"
  proof -
    have "\<And>y. y \<in> set ys \<Longrightarrow> de_name (view_at d (unat y * 32)) \<noteq> name" using e st(2) by (force simp: image_image)
    from remove_stbl_found [OF l(1) l(2) [unfolded st(1)] this, of "dt_next_index d" 0] e st(1,3) d'(1)
    show ?thesis by (simp add: dt_remove_def Let_def flip: stbl_def)
  qed
  have keep: "view_at d' (unat x * 32) = view_at d (unat x * 32) \<and> slot_ok d' x" if x: "x \<in> set (ys @ zs)" for x
  proof -
    have ok: "slot_ok d x" using l(2) st(1) x by (auto simp: list_all_iff)
    have "x \<noteq> s" using assms st(1) x by (auto simp: dt_wf_def)
    from view_at_cong [OF d'(5) [OF this ok, symmetric]] ok l(1) d'(2)
    show ?thesis by (auto simp: slot_ok_def)
  qed
  have "dt_wf d'" using assms d'(2-4) keep st(1) by (auto simp: dt_wf_def list_all_iff)
  moreover have "entry_list d' = es1 @ es2" using keep by (auto simp: entry_list_def d'(4) st(2,4))
  ultimately show "\<exists>d'. dt_remove d name = (Ok (Some (de_inumber e)), d') \<and> dt_wf d' \<and> entry_list d' = es1 @ es2"
    using rm by blast
qed

text \<open>
  C32. Removal implements deletion from the entry list: it returns the inode number of the first entry
  with that name and leaves the other entries as they are, in order; for an absent name it returns
  \<open>None\<close> and changes nothing.
\<close>

theorem dt_remove_refines:
  assumes "dt_wf d"
  shows "(name \<notin> de_name ` set (entry_list d) \<longrightarrow> dt_remove d name = (Ok None, d)) \<and>
    (\<forall>es1 e es2. entry_list d = es1 @ e # es2 \<and> de_name e = name \<and> name \<notin> de_name ` set es1 \<longrightarrow>
      (\<exists>d'. dt_remove d name = (Ok (Some (de_inumber e)), d') \<and> dt_wf d' \<and> entry_list d' = es1 @ es2))"
  using dt_remove_entries [OF assms] .

text \<open>An empty directory root, and one with two entries.\<close>

definition empty_dir :: bytes where "empty_dir = replicate 288 0"

lemma empty_dir_wf: "dt_wf empty_dir" "no_free_list empty_dir" "entry_list empty_dir = []" "stbl empty_dir = []"
  "dt_next_index empty_dir = 0"
proof -
  show n: "dt_next_index empty_dir = 0" by (simp add: dt_next_index_def dt_consts empty_dir_def)
  then show s: "stbl empty_dir = []" by (simp add: stbl_def read_stbl_def)
  then show "entry_list empty_dir = []" by (simp add: entry_list_def)
  show "dt_wf empty_dir" using n s by (simp add: dt_wf_def empty_dir_def)
  show "no_free_list empty_dir" by (simp add: no_free_list_def empty_dir_def)
qed


text \<open>A root whose only entry, \<open>b\<close>, sits in slot 2 (the one before it was removed).\<close>

definition holed_dir :: bytes where
  "holed_dir = empty_dir[17 := 1, 24 := 2, 64 := 7, 69 := 1, 70 := 98]"

lemma slice_single: "a < length xs \<Longrightarrow> slice a (Suc a) xs = [xs ! a]"
  by (rule nth_equalityI) auto

lemma holed_dir_wf: "dt_wf holed_dir" "no_free_list holed_dir" "stbl holed_dir = [2]" "dt_next_index holed_dir = 1"
  "map de_name (entry_list holed_dir) = [[98]]" "map de_inumber (entry_list holed_dir) = [7]"
proof -
  have l: "length holed_dir = 288" by (simp add: holed_dir_def empty_dir_def)
  have nth: "holed_dir ! i = (if i = 17 then 1 else if i = 24 then 2 else if i = 64 then 7 else if i = 69 then 1
      else if i = 70 then 98 else 0)" if "i < 288" for i
    using that by (simp add: holed_dir_def empty_dir_def nth_list_update)
  show n: "dt_next_index holed_dir = 1" using nth [of 17] l by (simp add: dt_next_index_nth)
  have s: "slice 24 (Suc 24) holed_dir = [2]" using l nth [of 24] slice_single [of 24 holed_dir] by simp
  then show sb: "stbl holed_dir = [2]" using n by (simp add: stbl_def read_stbl_def)
  have "slice 70 72 holed_dir = [98, 0]"
    using l nth by (intro nth_equalityI) (auto simp: less_Suc_eq numeral_2_eq_2)
  moreover have "slice 64 68 holed_dir = [7, 0, 0, 0]"
    using slice4 [of 64 holed_dir] l nth by (simp add: slice_def)
  ultimately show "map de_name (entry_list holed_dir) = [[98]]" "map de_inumber (entry_list holed_dir) = [7]"
    using nth [of 69] by (simp_all add: entry_list_def sb view_at_def arr4_of_def)
  show "dt_wf holed_dir" using l n sb nth [of 69] by (simp add: dt_wf_def slot_ok_def)
  show "no_free_list holed_dir" using nth [of 18] by (simp add: no_free_list_def)
qed

theorem dt_insert_overwrites_witness:
  "\<exists>d'. dt_insert holed_dir [99] 8 0 = (Ok True, d') \<and> map de_name (entry_list d') = [[99], [99]]"
proof -
  have "find (\<lambda>e. de_name e = [99]) (entry_list holed_dir) = None"
    using holed_dir_wf(5) by (auto simp: find_None_iff map_eq_Cons_conv)
  from dt_insert_overwrites [OF holed_dir_wf(1,2) _ _ this, of 0 8 0] holed_dir_wf obtain d' where
    d': "dt_insert holed_dir [99] 8 0 = (Ok True, d')"
    "entry_list d' = (entry_list holed_dir)[0 := \<lparr>de_inumber = 8, de_name = [99], de_index = 0\<rparr>] @
      [\<lparr>de_inumber = 8, de_name = [99], de_index = 0\<rparr>]"
    by (auto simp: next_slot_def)
  moreover have "length (entry_list holed_dir) = 1" using arg_cong [OF holed_dir_wf(5), of length] by simp
  ultimately show ?thesis by (cases "entry_list holed_dir") auto
qed

theorem dt_remove_refines_witness:
  "\<exists>d'. dt_remove holed_dir [98] = (Ok (Some 7), d') \<and> entry_list d' = []"
proof -
  obtain e where e: "entry_list holed_dir = [] @ e # []" "de_name e = [98]" "de_inumber e = 7"
    using holed_dir_wf(5,6) by (cases "entry_list holed_dir") auto
  with dt_remove_refines [OF holed_dir_wf(1), of "[98]"] show ?thesis
    by (metis append_Nil empty_iff image_empty list.set(1))
qed

end
