(* ===== verification/Dmap.thy ===== *)
theory Dmap
  imports Storage
begin

text \<open>
  The block allocator of \<open>alloc/dmap.rs\<close>: the in-memory free bitmap, first-fit search, allocation,
  freeing, the write-back of the dirty bitmap pages and rollback. The shared storage handle is passed
  explicitly. The set of dirty pages is a \<open>HashSet\<close>, whose iteration order is unspecified: \<open>bmap_commit\<close>
  takes the order as an argument.
\<close>

section \<open>State\<close>

definition BLOCKS_PER_DMAP :: nat where "BLOCKS_PER_DMAP = 8192"

record bmap =
  mapsize :: nat
  nfree :: nat
  free_map :: "bool list"
  ndmap :: nat
  dmap_start :: nat
  dmap_len :: nat
  allocated :: "(nat \<times> nat) list"
  freed :: "(nat \<times> nat) list"
  dirty_pages :: "nat set"

section \<open>Reading the map\<close>

definition parse_pxd_addr :: "bytes \<Rightarrow> nat" where
  "parse_pxd_addr bs =
     (let len_addr = read_u32 (arr4_of (slice 0 4 bs)); addr2 = read_u32 (arr4_of (slice 4 8 bs))
      in unat (push_bit 32 (ucast (drop_bit 24 len_addr)) OR ucast addr2 :: 64 word))"

definition parse_pxd_len :: "bytes \<Rightarrow> nat" where
  "parse_pxd_len bs = unat (read_u32 (arr4_of (slice 0 4 bs)) AND 0xffffff)"

text \<open>The loop over the inodes of one page of the aggregate inode table.\<close>

fun scan_inodes :: "bytes \<Rightarrow> nat \<Rightarrow> nat list \<Rightarrow> (nat \<times> nat) option" where
  "scan_inodes data block_num [] = None"
| "scan_inodes data block_num (i # is) =
     (let off = i * DISIZE in
      if length data < off + DISIZE then None
      else
        let fs = read_u32 (arr4_of (slice (off + 4) (off + 8) data));
            num = read_u32 (arr4_of (slice (off + 8) (off + 12) data))
        in if fs = 1 \<and> unat num = BMAP_I then Some (block_num, off) else scan_inodes data block_num is)"

fun scan_blocks :: "storage \<Rightarrow> nat \<Rightarrow> nat list \<Rightarrow> (nat \<times> nat) res \<times> storage" where
  "scan_blocks s ait_addr [] = (Err (Other ''BMAP inode not found''), s)"
| "scan_blocks s ait_addr (block_offset # bs) =
     (let block_num = ait_addr + block_offset in
      if size_blocks s \<le> block_num then scan_blocks s ait_addr bs
      else
        st_bind (read_block s block_num) (\<lambda>data s'.
          case scan_inodes data block_num [0..<INOSPERPAGE] of
            Some r \<Rightarrow> (Ok r, s')
          | None \<Rightarrow> scan_blocks s' ait_addr bs))"

definition find_bmap_inode :: "storage \<Rightarrow> (nat \<times> nat) res \<times> storage" where
  "find_bmap_inode s =
     st_bind (read_bytes s SUPER1_OFF PSIZE) (\<lambda>sb_data s'.
       case slice_res 48 56 sb_data of
         Ok pxd_bytes \<Rightarrow>
           scan_blocks s' (parse_pxd_addr pxd_bytes) [0..<parse_pxd_len pxd_bytes + 32]
       | _ \<Rightarrow> (Panic, s'))"

fun first_extent :: "bytes \<Rightarrow> nat list \<Rightarrow> (nat \<times> nat) option" where
  "first_extent xt [] = None"
| "first_extent xt (i # is) =
     (let base = 32 + (i - 2) * 16 in
      if length xt < base + 16 then None
      else
        let loc = slice (base + 8) (base + 16) xt; len = parse_pxd_len loc
        in if 0 < len then Some (parse_pxd_addr loc, len) else first_extent xt is)"

definition parse_bmap_xtroot :: "bytes \<Rightarrow> (nat \<times> nat) res" where
  "parse_bmap_xtroot dinode =
     (let xt_off = 128 + 96 in
      if length dinode < xt_off + 32 then Err (Other ''dinode too short for xtroot'')
      else
        let xt = drop xt_off dinode;
            nextindex = unat (read_u16 (arr2_of (slice 18 20 xt)))
        in
        case first_extent xt [2..<nextindex] of
          Some r \<Rightarrow> Ok r
        | None \<Rightarrow>
            let self = slice 24 32 xt in
            if 0 < parse_pxd_len self then Ok (parse_pxd_addr self, parse_pxd_len self)
            else Err (Other ''no extents in bmap xtroot''))"

definition parse_dmap_word :: "32 word \<Rightarrow> nat \<Rightarrow> bool list \<Rightarrow> bool list" where
  "parse_dmap_word w first fm =
     fold (\<lambda>b fm. if first + b < length fm then fm[first + b := bit w b] else fm) [0..<32] fm"

definition parse_dmap_page :: "bytes \<Rightarrow> nat \<Rightarrow> bool list \<Rightarrow> bool list" where
  "parse_dmap_page page start_block fm =
     fold (\<lambda>word_idx fm.
         let off = 3072 + word_idx * 4 in
         if length page < off + 4 then fm
         else parse_dmap_word (read_u32 (arr4_of (slice off (off + 4) page))) (start_block + word_idx * 32) fm)
       [0..<256] fm"

fun read_dmap_pages :: "storage \<Rightarrow> nat \<Rightarrow> nat list \<Rightarrow> bool list \<Rightarrow> bool list res \<times> storage" where
  "read_dmap_pages s start [] fm = (Ok fm, s)"
| "read_dmap_pages s start (i # is) fm =
     (let dmap_block = start + 1 + i in
      if size_blocks s \<le> dmap_block then (Ok fm, s)
      else
        st_bind (read_block s dmap_block) (\<lambda>page s'.
          read_dmap_pages s' start is (parse_dmap_page page (i * BLOCKS_PER_DMAP) fm)))"

definition bmap_new :: "storage \<Rightarrow> bmap res \<times> storage" where
  "bmap_new s =
     st_bind (find_bmap_inode s) (\<lambda>(page_block, page_offset) s1.
     st_bind (read_block s1 page_block) (\<lambda>page_data s2.
       case slice_res page_offset (page_offset + DISIZE) page_data of
         Ok di \<Rightarrow>
           (case parse_bmap_xtroot di of
              Ok (start, len) \<Rightarrow>
                st_bind (read_block s2 start) (\<lambda>desc s3.
                  if length desc < 16 then (Panic, s3)
                  else
                    let size = unat (read_u64 (arr8_of (slice 0 8 desc)));
                        free = unat (read_u64 (arr8_of (slice 8 16 desc)));
                        nd = max ((len - 1) * BLOCK_SIZE div BLOCKS_PER_DMAP) 1
                    in
                    st_bind (read_dmap_pages s3 start [0..<nd] (replicate size False)) (\<lambda>fm s4.
                      (Ok \<lparr>mapsize = size, nfree = free, free_map = fm, ndmap = nd, dmap_start = start,
                           dmap_len = len, allocated = [], freed = [], dirty_pages = {}\<rparr>, s4)))
            | Err e \<Rightarrow> (Err e, s2)
            | Panic \<Rightarrow> (Panic, s2)
            | Exit \<Rightarrow> (Exit, s2))
       | _ \<Rightarrow> (Panic, s2)))"

section \<open>Allocation\<close>

text \<open>The loop of \<open>find_free_run\<close>; indexing beyond the bitmap panics.\<close>

fun run_loop :: "bool list \<Rightarrow> nat \<Rightarrow> nat list \<Rightarrow> nat \<Rightarrow> nat \<Rightarrow> nat option res" where
  "run_loop fm nblk [] run_start run_len = Ok None"
| "run_loop fm nblk (blk # bs) run_start run_len =
     (if length fm \<le> blk then Panic
      else if fm ! blk then
        let start' = (if run_len = 0 then blk else run_start) in
        if nblk \<le> run_len + 1 then Ok (Some start')
        else run_loop fm nblk bs start' (run_len + 1)
      else run_loop fm nblk bs run_start 0)"

definition find_free_run :: "bmap \<Rightarrow> nat \<Rightarrow> nat \<Rightarrow> nat option res" where
  "find_free_run b nblk start = run_loop (free_map b) nblk [start..<mapsize b] start 0"

text \<open>\<open>for i in 0..len { if blk < free_map.len() { free_map[blk] = v } }\<close>.\<close>

definition mark :: "nat \<Rightarrow> nat \<Rightarrow> bool \<Rightarrow> bool list \<Rightarrow> bool list" where
  "mark start len v fm =
     fold (\<lambda>i fm. if start + i < length fm then fm[start + i := v] else fm) [0..<len] fm"

definition take_run :: "bmap \<Rightarrow> nat \<Rightarrow> nat \<Rightarrow> pxd option res \<times> bmap" where
  "take_run b nblk start =
     (Ok (Some (pxd_set_length (pxd_set_address pxd_default (word_of_nat start)) (word_of_nat nblk))),
      b\<lparr>free_map := mark start nblk False (free_map b),
        nfree := nfree b - nblk,
        allocated := allocated b @ [(start, nblk mod 2 ^ 32)],
        dirty_pages := insert (1 + start div BLOCKS_PER_DMAP) (dirty_pages b)\<rparr>)"

definition alloc_extent :: "bmap \<Rightarrow> nat \<Rightarrow> nat \<Rightarrow> pxd option res \<times> bmap" where
  "alloc_extent b nblk hint =
     (if nblk = 0 \<or> mapsize b < nblk then (Err (Other ''invalid block count''), b)
      else
        case find_free_run b nblk hint of
          Ok (Some s) \<Rightarrow> take_run b nblk s
        | Ok None \<Rightarrow>
            (case find_free_run b nblk 0 of
               Ok (Some s) \<Rightarrow> take_run b nblk s
             | Ok None \<Rightarrow> (Err (Other ''no contiguous free blocks available''), b)
             | Err e \<Rightarrow> (Err e, b)
             | Panic \<Rightarrow> (Panic, b)
             | Exit \<Rightarrow> (Exit, b))
        | Err e \<Rightarrow> (Err e, b)
        | Panic \<Rightarrow> (Panic, b)
        | Exit \<Rightarrow> (Exit, b))"

definition free_extent :: "bmap \<Rightarrow> pxd \<Rightarrow> unit res \<times> bmap" where
  "free_extent b p =
     (let addr = unat (pxd_address p); len = unat (pxd_length p) in
      if mapsize b < addr + len then (Err (Other ''extent exceeds aggregate size''), b)
      else
        case add_u64 (nfree b) len of
          Ok n \<Rightarrow>
            (Ok (), b\<lparr>free_map := mark addr len True (free_map b), nfree := n,
               freed := freed b @ [(addr, len)],
               dirty_pages := insert (1 + addr div BLOCKS_PER_DMAP) (dirty_pages b)\<rparr>)
        | _ \<Rightarrow> (Panic, b))"

section \<open>Write-back and rollback\<close>

definition put_wmap_word :: "nat \<Rightarrow> 32 word \<Rightarrow> bytes \<Rightarrow> bytes" where
  "put_wmap_word word_idx value page =
     (let off = 2048 + word_idx * 4 in
      if off + 4 \<le> length page then splice off (list_of_arr4 (write_u32 value)) page else page)"

definition write_word_to_dmap :: "bmap \<Rightarrow> storage \<Rightarrow> nat \<Rightarrow> nat \<Rightarrow> 32 word \<Rightarrow> unit res \<times> storage" where
  "write_word_to_dmap b s dmap_page word_idx value =
     (let block_num = dmap_start b + dmap_page in
      st_bind (read_block s block_num) (\<lambda>page s'.
        if 2048 + word_idx * 4 + 4 \<le> length page
        then write_block s' block_num (put_wmap_word word_idx value page) else (Ok (), s')))"

definition dmap_word :: "bmap \<Rightarrow> nat \<Rightarrow> 32 word" where
  "dmap_word b blk_offset =
     fold (\<lambda>k w. if blk_offset + k < mapsize b \<and> free_map b ! (blk_offset + k) then w OR push_bit k 1 else w)
       [0..<32] 0"

definition fill_wmap :: "bmap \<Rightarrow> nat \<Rightarrow> bytes \<Rightarrow> bytes" where
  "fill_wmap b dmap_page page =
     (let start_block = (dmap_page - 1) * BLOCKS_PER_DMAP in
      fold (\<lambda>word_idx page. put_wmap_word word_idx (dmap_word b (start_block + word_idx * 32)) page)
        [0..<256] page)"

fun commit_pages :: "bmap \<Rightarrow> storage \<Rightarrow> nat list \<Rightarrow> unit res \<times> storage" where
  "commit_pages b s [] = (Ok (), s)"
| "commit_pages b s (dmap_page # ps) =
     (let block_num = dmap_start b + dmap_page in
      if size_blocks s \<le> block_num then commit_pages b s ps
      else
        st_bind (read_block s block_num) (\<lambda>page s1.
        st_bind (write_block s1 block_num (fill_wmap b dmap_page page)) (\<lambda>_ s2. commit_pages b s2 ps)))"

text \<open>\<open>order\<close> enumerates the dirty pages in the order the hash set yields them.\<close>

definition bmap_commit :: "nat list \<Rightarrow> bmap \<Rightarrow> storage \<Rightarrow> unit res \<times> bmap \<times> storage" where
  "bmap_commit order b s =
     (let (r, s') =
        st_bind (commit_pages b s order) (\<lambda>_ s1.
        st_bind (read_block s1 (dmap_start b)) (\<lambda>desc s2.
          if length desc < 16 then (Panic, s2)
          else write_block s2 (dmap_start b) (splice 8 (list_of_arr8 (write_u64 (word_of_nat (nfree b)))) desc)))
      in (r, if r = Ok () then b\<lparr>dirty_pages := {}, allocated := [], freed := []\<rparr> else b, s'))"

fun undo_allocs :: "(nat \<times> nat) list \<Rightarrow> bmap \<Rightarrow> unit res \<times> bmap" where
  "undo_allocs [] b = (Ok (), b)"
| "undo_allocs ((a, n) # rs) b =
     (let b1 = b\<lparr>free_map := mark a n True (free_map b)\<rparr> in
      case add_u64 (nfree b1) n of
        Ok f \<Rightarrow> undo_allocs rs (b1\<lparr>nfree := f\<rparr>)
      | _ \<Rightarrow> (Panic, b1))"

fun undo_frees :: "(nat \<times> nat) list \<Rightarrow> bmap \<Rightarrow> unit res \<times> bmap" where
  "undo_frees [] b = (Ok (), b)"
| "undo_frees ((a, n) # rs) b =
     (let b1 = b\<lparr>free_map := mark a n False (free_map b)\<rparr> in
      case sub_u64 (nfree b1) n of
        Ok f \<Rightarrow> undo_frees rs (b1\<lparr>nfree := f\<rparr>)
      | _ \<Rightarrow> (Panic, b1))"

definition rollback :: "bmap \<Rightarrow> unit res \<times> bmap" where
  "rollback b =
     st_bind (undo_allocs (allocated b) b) (\<lambda>_ b1.
     st_bind (undo_frees (freed b1) b1) (\<lambda>_ b2.
       (Ok (), b2\<lparr>allocated := [], freed := [], dirty_pages := {}\<rparr>)))"

section \<open>Allocation groups and inode allocation groups\<close>

definition num_ag :: "bmap \<Rightarrow> nat" where
  "num_ag b = (if 0 < mapsize b div 4 then 4 else 1)"

definition ag_for_block :: "bmap \<Rightarrow> nat \<Rightarrow> nat" where
  "ag_for_block b block =
     (let ag_size = mapsize b div max (num_ag b) 1 in
      if 0 < ag_size then block div ag_size mod 2 ^ 32 else 0)"

definition AGGR_INODE_TABLE_START :: nat where
  "AGGR_INODE_TABLE_START = SUPER1_OFF + PSIZE + PSIZE * 2"

definition ino_to_iag :: "nat \<Rightarrow> nat" where
  "ino_to_iag ino = drop_bit 12 ino"

definition iag_block :: "nat \<Rightarrow> nat \<Rightarrow> nat res" where
  "iag_block block_size iag_num =
     (if block_size = 0 then Panic else Ok ((AGGR_INODE_TABLE_START + iag_num * 4096) div block_size))"

definition read_iag :: "storage \<Rightarrow> nat \<Rightarrow> nat \<Rightarrow> bytes res \<times> storage" where
  "read_iag s block_size iag_num =
     (case iag_block block_size iag_num of Ok b \<Rightarrow> read_block s b | _ \<Rightarrow> (Panic, s))"

section \<open>First fit\<close>

definition run_free :: "bool list \<Rightarrow> nat \<Rightarrow> nat \<Rightarrow> bool" where
  "run_free fm s n \<longleftrightarrow> s + n \<le> length fm \<and> (\<forall>i<n. fm ! (s + i))"

definition first_fit :: "bool list \<Rightarrow> nat \<Rightarrow> nat \<Rightarrow> nat option \<Rightarrow> bool" where
  "first_fit fm n lo r \<longleftrightarrow>
     (case r of
        Some s \<Rightarrow> lo \<le> s \<and> run_free fm s n \<and> (\<forall>t. lo \<le> t \<and> t < s \<longrightarrow> \<not> run_free fm t n)
      | None \<Rightarrow> \<forall>t\<ge>lo. \<not> run_free fm t n)"

lemma run_loop_first_fit:
  assumes "k < n" "k \<le> blk" "\<And>i. blk - k \<le> i \<Longrightarrow> i < blk \<Longrightarrow> fm ! i" "0 < k \<Longrightarrow> start = blk - k" "blk \<le> length fm"
  shows "\<exists>r. run_loop fm n [blk..<length fm] start k = Ok r \<and> first_fit fm n (blk - k) r"
  using assms
proof (induction "length fm - blk" arbitrary: blk k start)
  case 0
  then have "blk = length fm" by simp
  moreover have "\<not> run_free fm t n" if "blk - k \<le> t" for t
    using that 0 by (auto simp: run_free_def)
  ultimately show ?case by (simp add: first_fit_def)
next
  case (Suc m)
  then have b: "blk < length fm" by simp
  have u: "[blk..<length fm] = blk # [Suc blk..<length fm]" using b by (rule upt_conv_Cons)
  show ?case
  proof (cases "fm ! blk")
    case True
    let ?s = "if k = 0 then blk else start"
    have s: "?s = blk - k" using Suc.prems(4) by auto
    have fr: "fm ! i" if "blk - k \<le> i" "i < Suc blk" for i
      using that True Suc.prems(3) by (cases "i = blk") auto
    show ?thesis
    proof (cases "n \<le> k + 1")
      case True
      have "run_free fm (blk - k) n" using fr Suc.prems(1,2) True b by (auto simp: run_free_def)
      with True \<open>fm ! blk\<close> b s show ?thesis by (auto simp: u first_fit_def)
    next
      case False
      have "\<exists>r. run_loop fm n [Suc blk..<length fm] ?s (k + 1) = Ok r \<and> first_fit fm n (Suc blk - (k + 1)) r"
        using False Suc.hyps(2) Suc.prems(2) b fr s by (intro Suc.hyps(1)) auto
      with False \<open>fm ! blk\<close> b show ?thesis by (simp add: u Let_def)
    qed
  next
    case False
    have "\<exists>r. run_loop fm n [Suc blk..<length fm] start 0 = Ok r \<and> first_fit fm n (Suc blk - 0) r"
      using Suc.hyps(2) Suc.prems(1) b by (intro Suc.hyps(1)) auto
    then obtain r where r: "run_loop fm n [Suc blk..<length fm] start 0 = Ok r" "first_fit fm n (Suc blk) r" by auto
    have no: "\<not> run_free fm t n" if "blk - k \<le> t" "t < Suc blk" for t
    proof
      assume "run_free fm t n"
      moreover have "blk - t < n" "t + (blk - t) = blk" using that Suc.prems(1,2) by auto
      ultimately show False using False by (metis run_free_def)
    qed
    have "first_fit fm n (blk - k) r"
    proof (cases r)
      case None
      with r(2) no show ?thesis by (auto simp: first_fit_def) (metis not_less_eq_eq not_less)
    next
      case (Some s)
      with r(2) no show ?thesis by (auto simp: first_fit_def) (metis not_less_eq_eq not_less)
    qed
    with False b r(1) show ?thesis by (simp add: u)
  qed
qed

definition bm_wf :: "bmap \<Rightarrow> bool" where
  "bm_wf b \<longleftrightarrow> length (free_map b) = mapsize b \<and> mapsize b \<le> 2 ^ 40"

text \<open>The free-block counter agrees with the bitmap.\<close>

definition free_count :: "bool list \<Rightarrow> nat" where
  "free_count fm = length (filter id fm)"

lemma find_free_run_first_fit:
  assumes "bm_wf b" "0 < n"
  shows "\<exists>r. find_free_run b n lo = Ok r \<and> first_fit (free_map b) n lo r"
proof (cases "lo \<le> mapsize b")
  case True
  with assms run_loop_first_fit [of 0 n lo "free_map b" lo] show ?thesis
    by (simp add: find_free_run_def bm_wf_def)
next
  case False
  with assms show ?thesis by (auto simp: find_free_run_def first_fit_def bm_wf_def run_free_def)
qed

lemma length_mark [simp]: "length (mark s n v fm) = length fm"
  by (induction n) (simp_all add: mark_def)

lemma nth_mark: "i < length fm \<Longrightarrow> mark s n v fm ! i = (if s \<le> i \<and> i < s + n then v else fm ! i)"
proof (induction n)
  case (Suc n)
  have "mark s (Suc n) v fm = (if s + n < length fm then (mark s n v fm)[s + n := v] else mark s n v fm)"
    using length_mark [of s n v fm] by (simp add: mark_def)
  with Suc show ?case by (auto simp: nth_list_update)
qed (auto simp: mark_def)

lemma free_count_card: "free_count fm = card {i. i < length fm \<and> fm ! i}"
  by (simp add: free_count_def length_filter_conv_card)

lemma run_free_nth: "run_free fm s n \<Longrightarrow> s \<le> x \<Longrightarrow> x < s + n \<Longrightarrow> fm ! x"
  unfolding run_free_def by (metis le_Suc_ex nat_add_left_cancel_less)

lemma free_count_mark:
  assumes "run_free fm s n"
  shows "free_count (mark s n False fm) + n = free_count fm"
proof -
  have "{i. i < length fm \<and> fm ! i} = {i. i < length fm \<and> mark s n False fm ! i} \<union> {s..<s + n}"
    using assms run_free_nth [OF assms] by (auto simp: nth_mark run_free_def split: if_splits)
  moreover have "{i. i < length fm \<and> mark s n False fm ! i} \<inter> {s..<s + n} = {}" by (auto simp: nth_mark)
  ultimately have "card {i. i < length fm \<and> fm ! i} = card {i. i < length fm \<and> mark s n False fm ! i} + n"
    by (simp add: card_Un_disjoint)
  then show ?thesis by (simp add: free_count_card)
qed

lemma pxd_of_run:
  assumes "s < 2 ^ 40" "n < 2 ^ 24"
  defines "p \<equiv> pxd_set_length (pxd_set_address pxd_default (word_of_nat s)) (word_of_nat n)"
  shows "unat (pxd_address p) = s" "unat (pxd_length p) = n"
  using assms by (simp_all add: p_def unsigned_take_bit_eq unsigned_of_nat take_bit_nat_eq_self_iff)

text \<open>
  Where first fit starts: at the hint if a run of \<open>n\<close> free blocks begins there or behind it, otherwise at the start of the map; and the
  map after the run of \<open>n\<close> blocks from \<open>s\<close> on was taken.
\<close>

definition fit_from :: "bool list \<Rightarrow> nat \<Rightarrow> nat \<Rightarrow> nat" where
  "fit_from fm n hint = (if \<exists>s\<ge>hint. run_free fm s n then hint else 0)"

definition taken_at :: "bmap \<Rightarrow> nat \<Rightarrow> nat \<Rightarrow> bmap \<Rightarrow> bool" where
  "taken_at b n s b' \<longleftrightarrow> bm_wf b' \<and>
     free_map b' = map (\<lambda>i. free_map b ! i \<and> \<not> (s \<le> i \<and> i < s + n)) [0..<mapsize b] \<and>
     (nfree b = free_count (free_map b) \<longrightarrow> nfree b' = free_count (free_map b'))"

lemma take_run_taken:
  assumes "bm_wf b" "0 < n" "n < 2 ^ 24" "run_free (free_map b) s n"
  shows "\<exists>p b'. take_run b n s = (Ok (Some p), b') \<and> unat (pxd_address p) = s \<and> unat (pxd_length p) = n \<and> taken_at b n s b'"
proof -
  have "s < 2 ^ 40" using assms by (auto simp: run_free_def bm_wf_def)
  note p = pxd_of_run [OF this assms(3)]
  have "mark s n False (free_map b) = map (\<lambda>i. free_map b ! i \<and> \<not> (s \<le> i \<and> i < s + n)) [0..<mapsize b]"
    using assms(1) by (intro nth_equalityI) (auto simp: nth_mark bm_wf_def)
  then show ?thesis
    using p free_count_mark [OF assms(4)] assms(1) by (auto simp: take_run_def taken_at_def bm_wf_def)
qed

text \<open>
  C33. Allocation of \<open>n\<close> contiguous blocks, \<open>0 < n < 2^24\<close>, is first fit: it succeeds whenever the bitmap has a free run of \<open>n\<close>
  blocks, and takes the first one at or after the hint, or, when there is none behind the hint, the first one of the whole
  map. Exactly the blocks of that run change, to allocated, and an exact free counter stays exact. When no run
  exists it fails with an error and changes nothing.
\<close>

theorem alloc_extent_correct:
  assumes "bm_wf b" "0 < n" "n < 2 ^ 24"
  shows "case alloc_extent b n hint of
      (Ok (Some p), b') \<Rightarrow>
        first_fit (free_map b) n (fit_from (free_map b) n hint) (Some (unat (pxd_address p))) \<and> unat (pxd_length p) = n \<and>
        taken_at b n (unat (pxd_address p)) b'
    | (r, b') \<Rightarrow> (\<exists>e. r = Err e) \<and> b' = b \<and> (\<forall>s. \<not> run_free (free_map b) s n)"
proof (cases "n \<le> mapsize b")
  case False
  then show ?thesis using assms by (auto simp: alloc_extent_def run_free_def bm_wf_def)
next
  case True
  obtain r1 where r1: "find_free_run b n hint = Ok r1" "first_fit (free_map b) n hint r1"
    using find_free_run_first_fit [OF assms(1,2)] by blast
  obtain r2 where r2: "find_free_run b n 0 = Ok r2" "first_fit (free_map b) n 0 r2"
    using find_free_run_first_fit [OF assms(1,2)] by blast
  consider s where "r1 = Some s" | s where "r1 = None" "r2 = Some s" | "r1 = None" "r2 = None" by fastforce
  then show ?thesis
  proof cases
    case (1 s)
    with r1(2) have "run_free (free_map b) s n" "fit_from (free_map b) n hint = hint" by (auto simp: first_fit_def fit_from_def)
    with 1 r1 True assms(2) take_run_taken [OF assms, of s] show ?thesis by (auto simp: alloc_extent_def)
  next
    case (2 s)
    with r1(2) r2(2) have "run_free (free_map b) s n" "fit_from (free_map b) n hint = 0" by (auto simp: first_fit_def fit_from_def)
    with 2 r1 r2 True assms(2) take_run_taken [OF assms, of s] show ?thesis by (auto simp: alloc_extent_def)
  next
    case 3
    with r1 r2 True assms(2) show ?thesis by (simp add: alloc_extent_def first_fit_def)
  qed
qed

text \<open>A small map: eight blocks, of which 2, 3, 4 and 6 are free.\<close>

definition sample_bmap :: bmap where
  "sample_bmap = \<lparr>mapsize = 8, nfree = 4, free_map = [False, False, True, True, True, False, True, False],
     ndmap = 1, dmap_start = 1, dmap_len = 2, allocated = [], freed = [], dirty_pages = {}\<rparr>"

theorem alloc_extent_correct_witness:
  "\<exists>p b'. alloc_extent sample_bmap 2 3 = (Ok (Some p), b') \<and> run_free (free_map sample_bmap) (unat (pxd_address p)) 2 \<and>
     nfree b' = free_count (free_map b')"
proof -
  have "bm_wf sample_bmap" by (simp add: bm_wf_def sample_bmap_def)
  moreover have "run_free (free_map sample_bmap) 2 2" by (auto simp: run_free_def sample_bmap_def less_Suc_eq numeral_2_eq_2)
  moreover have "nfree sample_bmap = free_count (free_map sample_bmap)" by (simp add: sample_bmap_def free_count_def)
  moreover have "mapsize sample_bmap = 8" by (simp add: sample_bmap_def)
  ultimately show ?thesis
    using alloc_extent_correct [of sample_bmap 2 3]
    by (auto simp: first_fit_def taken_at_def split: prod.splits res.splits option.splits)
qed

section \<open>Transactions on the map\<close>

text \<open>
  Allocations and frees since the last commit or rollback. A free gives back blocks that were in use
  when the transaction began.
\<close>

inductive bm_step :: "bool list \<Rightarrow> bmap \<Rightarrow> bmap \<Rightarrow> bool" for m0 where
  alloc: "alloc_extent b n hint = (Ok (Some p), b') \<Longrightarrow> n < 2 ^ 24 \<Longrightarrow> bm_step m0 b b'"
| free: "free_extent b p = (Ok (), b') \<Longrightarrow>
    (\<And>i. unat (pxd_address p) \<le> i \<Longrightarrow> i < unat (pxd_address p) + unat (pxd_length p) \<Longrightarrow> \<not> m0 ! i) \<Longrightarrow>
    bm_step m0 b b'"

definition in_runs :: "(nat \<times> nat) list \<Rightarrow> nat \<Rightarrow> bool" where
  "in_runs rs i \<longleftrightarrow> (\<exists>(a, n)\<in>set rs. a \<le> i \<and> i < a + n)"

lemma in_runs_simps [simp]:
  "\<not> in_runs [] i" "in_runs (rs @ [(a, n)]) i \<longleftrightarrow> in_runs rs i \<or> (a \<le> i \<and> i < a + n)"
  by (auto simp: in_runs_def)

text \<open>What the records of a transaction say about the bitmap it started from.\<close>

definition blocks_in :: "(nat \<times> nat) list \<Rightarrow> nat" where
  "blocks_in rs = sum_list (map snd rs)"

definition tx_inv :: "bool list \<Rightarrow> bmap \<Rightarrow> bool" where
  "tx_inv m0 b \<longleftrightarrow> bm_wf b \<and> length m0 = mapsize b \<and>
     blocks_in (freed b) \<le> nfree b + blocks_in (allocated b) \<and>
     (\<forall>i<mapsize b.
        (in_runs (freed b) i \<longrightarrow> \<not> m0 ! i) \<and>
        (in_runs (allocated b) i \<and> \<not> in_runs (freed b) i \<longrightarrow> m0 ! i) \<and>
        (\<not> in_runs (allocated b) i \<and> \<not> in_runs (freed b) i \<longrightarrow> free_map b ! i = m0 ! i))"

lemma alloc_extent_Ok:
  assumes "bm_wf b" "alloc_extent b n hint = (Ok (Some p), b')" "n < 2 ^ 24"
  obtains s where "run_free (free_map b) s n"
    "b' = b\<lparr>free_map := mark s n False (free_map b), nfree := nfree b - n,
        allocated := allocated b @ [(s, n)], dirty_pages := insert (1 + s div BLOCKS_PER_DMAP) (dirty_pages b)\<rparr>"
proof -
  have n: "0 < n" using assms(2) by (cases "n = 0") (simp_all add: alloc_extent_def)
  have ff: "first_fit (free_map b) n lo (Some s) \<Longrightarrow> run_free (free_map b) s n" for lo s
    by (simp add: first_fit_def)
  obtain s where s: "take_run b n s = (Ok (Some p), b')" "run_free (free_map b) s n"
    using find_free_run_first_fit [OF assms(1) n, of hint] find_free_run_first_fit [OF assms(1) n, of 0] assms(2) ff
    by (auto simp: alloc_extent_def split: if_splits option.splits)
  then show thesis using assms(3) by (intro that [OF s(2)]) (auto simp: take_run_def)
qed

lemma bm_step_inv:
  assumes "bm_step m0 b b'" "tx_inv m0 b"
  shows "tx_inv m0 b'"
  using assms
proof cases
  case (alloc n hint p)
  have wf: "bm_wf b" using assms(2) by (simp add: tx_inv_def)
  from alloc_extent_Ok [OF wf alloc] obtain s where s: "run_free (free_map b) s n"
    "b' = b\<lparr>free_map := mark s n False (free_map b), nfree := nfree b - n,
        allocated := allocated b @ [(s, n)], dirty_pages := insert (1 + s div BLOCKS_PER_DMAP) (dirty_pages b)\<rparr>" .
  show ?thesis
    using assms(2) run_free_nth [OF s(1)] unfolding tx_inv_def s(2) by (auto simp: nth_mark bm_wf_def blocks_in_def)
next
  case (free p)
  then show ?thesis using assms(2)
    by (auto simp: tx_inv_def free_extent_def Let_def add_u64_def bm_wf_def nth_mark blocks_in_def split: if_splits)
qed

lemma undo_allocs_fst: "fst (undo_allocs rs b) = Ok () \<longleftrightarrow> rs = [] \<or> nfree b + blocks_in rs < 2 ^ 64"
  by (induction rs arbitrary: b) (auto simp: blocks_in_def add_u64_def Let_def split: if_splits)

lemma undo_allocs_Ok:
  assumes "undo_allocs rs b = (Ok (), b')"
  shows "b' = b\<lparr>free_map := fold (\<lambda>(a, n). mark a n True) rs (free_map b), nfree := nfree b + blocks_in rs\<rparr>"
proof -
  have "fst (undo_allocs rs b) = Ok () \<Longrightarrow> snd (undo_allocs rs b) =
      b\<lparr>free_map := fold (\<lambda>(a, n). mark a n True) rs (free_map b), nfree := nfree b + blocks_in rs\<rparr>"
    by (induction rs arbitrary: b) (auto simp: blocks_in_def add_u64_def Let_def add.assoc split: if_splits)
  with assms show ?thesis by simp
qed

lemma undo_frees_fst: "fst (undo_frees rs b) = Ok () \<longleftrightarrow> blocks_in rs \<le> nfree b"
  by (induction rs arbitrary: b) (auto simp: blocks_in_def sub_u64_def Let_def split: if_splits)

lemma undo_frees_Ok:
  assumes "undo_frees rs b = (Ok (), b')"
  shows "b' = b\<lparr>free_map := fold (\<lambda>(a, n). mark a n False) rs (free_map b), nfree := nfree b - blocks_in rs\<rparr>"
proof -
  have "fst (undo_frees rs b) = Ok () \<Longrightarrow> snd (undo_frees rs b) =
      b\<lparr>free_map := fold (\<lambda>(a, n). mark a n False) rs (free_map b), nfree := nfree b - blocks_in rs\<rparr>"
    by (induction rs arbitrary: b) (auto simp: blocks_in_def sub_u64_def Let_def add.assoc split: if_splits)
  with assms show ?thesis by simp
qed

lemma rollback_map:
  "rollback b = (Ok (), b') \<Longrightarrow> free_map b' =
     fold (\<lambda>(a, n). mark a n False) (freed b) (fold (\<lambda>(a, n). mark a n True) (allocated b) (free_map b))"
  by (auto simp: rollback_def st_bind_Ok_iff dest!: undo_allocs_Ok undo_frees_Ok)

lemma rollback_succeeds:
  assumes "nfree b + blocks_in (allocated b) < 2 ^ 64" "blocks_in (freed b) \<le> nfree b + blocks_in (allocated b)"
  shows "\<exists>b'. rollback b = (Ok (), b') \<and> nfree b' = nfree b + blocks_in (allocated b) - blocks_in (freed b)"
proof -
  from assms(1) obtain b1 where b1: "undo_allocs (allocated b) b = (Ok (), b1)"
    using undo_allocs_fst [of "allocated b" b] by (metis prod.collapse)
  note e1 = undo_allocs_Ok [OF b1]
  from assms(2) obtain b2 where b2: "undo_frees (freed b1) b1 = (Ok (), b2)"
    using undo_frees_fst [of "freed b1" b1] e1 by (metis (no_types, lifting) bmap.select_convs(2,8) bmap.surjective bmap.update_convs(2,3) prod.collapse)
  show ?thesis using b1 b2 e1 undo_frees_Ok [OF b2] by (simp add: rollback_def)
qed

lemma fold_mark:
  "length (fold (\<lambda>(a, n). mark a n v) rs fm) = length fm"
  "i < length fm \<Longrightarrow> fold (\<lambda>(a, n). mark a n v) rs fm ! i = (if in_runs rs i then v else fm ! i)"
  by (induction rs arbitrary: fm) (auto simp: in_runs_def nth_mark split: if_splits)

text \<open>
  C34. Rolling back a transaction succeeds and restores the bitmap it started from, for every sequence
  of allocations and of frees of blocks that were in use at its start (as long as the number of blocks
  allocated by the transaction does not overflow the counter).
\<close>

theorem rollback_restores:
  assumes "bm_wf b0" "allocated b0 = []" "freed b0 = []" "(bm_step (free_map b0))\<^sup>*\<^sup>* b0 b"
    "nfree b + blocks_in (allocated b) < 2 ^ 64"
  shows "\<exists>b'. rollback b = (Ok (), b') \<and> free_map b' = free_map b0"
proof -
  have "tx_inv (free_map b0) b0" using assms(1-3) by (simp add: tx_inv_def bm_wf_def blocks_in_def)
  with assms(4) have inv: "tx_inv (free_map b0) b"
    by (induction rule: rtranclp_induct) (auto intro: bm_step_inv)
  from rollback_succeeds [OF assms(5)] inv obtain b' where b': "rollback b = (Ok (), b')"
    by (auto simp: tx_inv_def)
  have "free_map b' = free_map b0"
  proof (rule nth_equalityI)
    show "length (free_map b') = length (free_map b0)"
      using inv by (simp add: rollback_map [OF b'] fold_mark tx_inv_def bm_wf_def)
  next
    fix i assume "i < length (free_map b')"
    with inv show "free_map b' ! i = free_map b0 ! i"
      by (auto simp: rollback_map [OF b'] fold_mark tx_inv_def bm_wf_def)
  qed
  with b' show ?thesis by blast
qed

lemma sample_alloc:
  "\<exists>p b'. alloc_extent sample_bmap 2 0 = (Ok (Some p), b') \<and> unat (pxd_address p) = 2 \<and> unat (pxd_length p) = 2 \<and>
     b' = sample_bmap\<lparr>free_map := mark 2 2 False (free_map sample_bmap), nfree := 2,
        allocated := [(2, 2)], dirty_pages := {1}\<rparr>"
proof -
  have "find_free_run sample_bmap 2 0 = Ok (Some 2)"
    by (simp add: find_free_run_def sample_bmap_def upt_rec)
  moreover have "[2::nat..<2 + 2] = [2, 3]" by (simp add: upt_rec)
  ultimately show ?thesis
    using pxd_of_run [of 2 2] by (auto simp: alloc_extent_def sample_bmap_def take_run_def BLOCKS_PER_DMAP_def)
qed

theorem rollback_restores_witness:
  "\<exists>p b'. alloc_extent sample_bmap 2 0 = (Ok (Some p), b') \<and> free_map b' \<noteq> free_map sample_bmap \<and>
     (\<exists>b''. rollback b' = (Ok (), b'') \<and> free_map b'' = free_map sample_bmap)"
proof -
  obtain p b' where b': "alloc_extent sample_bmap 2 0 = (Ok (Some p), b')"
    "b' = sample_bmap\<lparr>free_map := mark 2 2 False (free_map sample_bmap), nfree := 2,
        allocated := [(2, 2)], dirty_pages := {1}\<rparr>"
    using sample_alloc by blast
  have "bm_step (free_map sample_bmap) sample_bmap b'" using b'(1) by (intro bm_step.alloc) auto
  then have "\<exists>b''. rollback b' = (Ok (), b'') \<and> free_map b'' = free_map sample_bmap"
    using b'(2) by (intro rollback_restores) (auto simp: bm_wf_def sample_bmap_def blocks_in_def)
  moreover have "mark 2 2 False (free_map sample_bmap) ! 2 = False" by (simp add: nth_mark sample_bmap_def)
  moreover have "free_map sample_bmap ! 2 = True" by (simp add: sample_bmap_def)
  ultimately show ?thesis using b' by auto
qed

text \<open>
  A block that is allocated and freed again within one transaction is left allocated by the
  rollback, although it was free before: undoing the free comes after undoing the allocation.
\<close>

theorem rollback_leaks_refreed:
  assumes "bm_wf b" "i < mapsize b" "in_runs (allocated b) i" "in_runs (freed b) i"
    "rollback b = (Ok (), b')"
  shows "\<not> free_map b' ! i"
  using assms by (simp add: rollback_map fold_mark bm_wf_def)

theorem rollback_leaks_refreed_witness:
  "\<exists>p b1 b2 b3. alloc_extent sample_bmap 2 0 = (Ok (Some p), b1) \<and> free_extent b1 p = (Ok (), b2) \<and>
     rollback b2 = (Ok (), b3) \<and> free_map sample_bmap ! 2 \<and> free_map b2 ! 2 \<and> \<not> free_map b3 ! 2"
proof -
  obtain p b1 where b1: "alloc_extent sample_bmap 2 0 = (Ok (Some p), b1)" "unat (pxd_address p) = 2"
    "unat (pxd_length p) = 2"
    "b1 = sample_bmap\<lparr>free_map := mark 2 2 False (free_map sample_bmap), nfree := 2,
        allocated := [(2, 2)], dirty_pages := {1}\<rparr>"
    using sample_alloc by blast
  obtain b2 where b2: "free_extent b1 p = (Ok (), b2)" "freed b2 = [(2, 2)]" "allocated b2 = [(2, 2)]"
    "mapsize b2 = 8" "free_map b2 = mark 2 2 True (mark 2 2 False (free_map sample_bmap))"
    using b1(2-4) by (auto simp: free_extent_def Let_def add_u64_def sample_bmap_def)
  have "nfree b2 = 4" using b1(2-4) b2(1) by (auto simp: free_extent_def Let_def add_u64_def sample_bmap_def)
  with b2(2,3) obtain b3 where b3: "rollback b2 = (Ok (), b3)"
    using rollback_succeeds [of b2] by (auto simp: blocks_in_def)
  have "\<not> free_map b3 ! 2"
    using b2(2-) by (intro rollback_leaks_refreed [OF _ _ _ _ b3]) (auto simp: bm_wf_def sample_bmap_def in_runs_def)
  moreover have "free_map sample_bmap ! 2" "free_map b2 ! 2"
    by (simp_all add: b2(5) nth_mark) (simp_all add: sample_bmap_def nth_mark)
  ultimately show ?thesis using b1(1) b2(1) b3 by blast
qed

section \<open>Persistence\<close>

lemma put_wmap_word_frame:
  "length (put_wmap_word w v page) = length page"
  "w < 256 \<Longrightarrow> 3072 \<le> a \<Longrightarrow> slice a b (put_wmap_word w v page) = slice a b page"
  by (auto simp: put_wmap_word_def Let_def intro!: slice_splice_other)

lemma fill_wmap_frame:
  "length (fill_wmap m q page) = length page \<and> (\<forall>a b. 3072 \<le> a \<longrightarrow> slice a b (fill_wmap m q page) = slice a b page)"
proof -
  have "list_all (\<lambda>w. w < 256) ws \<Longrightarrow>
     length (fold (\<lambda>w. put_wmap_word w (f w)) ws page) = length page \<and>
     (\<forall>a b. 3072 \<le> a \<longrightarrow> slice a b (fold (\<lambda>w. put_wmap_word w (f w)) ws page) = slice a b page)" for ws f
    by (induction ws arbitrary: page) (simp_all add: put_wmap_word_frame)
  moreover have "list_all (\<lambda>w. w < 256) [0..<256 :: nat]" by (simp add: list_all_iff)
  ultimately show ?thesis by (simp add: fill_wmap_def Let_def)
qed

text \<open>
  Committing the allocator does not reach the bitmap that the next mount reads: whatever the
  bitmap, a page written by \<open>commit\<close> (which fills the working map at offset 2048) parses to the same
  free map as before, because \<open>new\<close> reads the persistent map at offset 3072.
\<close>

theorem commit_not_persistent:
  "parse_dmap_page (fill_wmap b dmap_page page) start fm = parse_dmap_page page start fm"
  using fill_wmap_frame [of b dmap_page page]
  by (simp add: parse_dmap_page_def Let_def cong: if_cong)

end
