(* ===== verification/Journal.thy ===== *)
theory Journal
  imports Storage
begin

text \<open>
  The log manager of \<open>journal/logmgr.rs\<close>: the log superblock, log pages, the two-page write buffer,
  appending of after-image records and commit records, and the flush. The log device is passed along
  with the manager's state.
\<close>

section \<open>Log records on disk\<close>

definition LRD_SIZE :: nat where "LRD_SIZE = 36"
definition LOG_BUFFER_SIZE :: nat where "LOG_BUFFER_SIZE = LOGPSIZE * 2"

definition lrd_bytes :: "lrd \<Rightarrow> bytes" where
  "lrd_bytes r =
     list_of_arr4 (logtid r) @ list_of_arr4 (backchain r) @ list_of_arr2 (lrd_type r) @
     list_of_arr2 (lrd_length r) @ list_of_arr4 (aggregate r) @ list_of_arr4 (redopage_fileset r) @
     list_of_arr4 (redopage_inode r) @ list_of_arr2 (redopage_type r) @
     list_of_arr2 (redopage_l2linesize r) @ list_of_arr4 (len_addr (redopage_pxd r)) @
     list_of_arr4 (addr2 (redopage_pxd r))"

definition parse_lrd :: "bytes \<Rightarrow> lrd" where
  "parse_lrd buf =
     (if LRD_SIZE \<le> length buf then
        \<lparr>logtid = arr4_of (slice 0 4 buf), backchain = arr4_of (slice 4 8 buf),
         lrd_type = arr2_of (slice 8 10 buf), lrd_length = arr2_of (slice 10 12 buf),
         aggregate = arr4_of (slice 12 16 buf), redopage_fileset = arr4_of (slice 16 20 buf),
         redopage_inode = arr4_of (slice 20 24 buf), redopage_type = arr2_of (slice 24 26 buf),
         redopage_l2linesize = arr2_of (slice 26 28 buf),
         redopage_pxd = \<lparr>len_addr = arr4_of (slice 28 32 buf), addr2 = arr4_of (slice 32 36 buf)\<rparr>\<rparr>
      else lrd_default)"

lemma length_lrd_bytes [simp]: "length (lrd_bytes r) = 36"
  by (simp add: lrd_bytes_def)

lemma parse_lrd_bytes [simp]: "parse_lrd (lrd_bytes r) = r"
  by (simp add: parse_lrd_def LRD_SIZE_def) (simp add: lrd_bytes_def layout_select)

section \<open>State\<close>

record logmgr =
  lm_logsuper :: logsuper
  lm_inline :: bool
  write_offset :: nat
  prev_record_offset :: nat
  log_buffer :: bytes
  buffer_dirty :: bool
  log_pages :: nat
  log_base :: nat

definition logmgr_new :: "logsuper \<Rightarrow> nat \<Rightarrow> logmgr" where
  "logmgr_new ls base =
     \<lparr>lm_logsuper = ls, lm_inline = (drop_bit 9 (ls_flag_val ls) AND 1 \<noteq> 0), write_offset = 0,
      prev_record_offset = 0, log_buffer = replicate LOG_BUFFER_SIZE 0, buffer_dirty = False,
      log_pages = ls_page_size ls, log_base = base\<rparr>"

section \<open>Log superblock and pages\<close>

text \<open>Each field is taken when the data reaches that far, else it keeps its default.\<close>

definition field4 :: "bytes \<Rightarrow> nat \<Rightarrow> arr4" where
  "field4 data at = (if at + 4 \<le> length data then arr4_of (slice at (at + 4) data) else zero4)"

definition parse_logsuper :: "bytes \<Rightarrow> logsuper" where
  "parse_logsuper data = logsuper_default
     \<lparr>ls_magic := field4 data 0, ls_version := field4 data 4, ls_serial := field4 data 8,
      ls_size := field4 data 12, ls_bsize := field4 data 16, ls_l2bsize := field4 data 20,
      ls_flag := field4 data 24, ls_state := field4 data 28, ls_end := field4 data 32,
      ls_uuid := (if 52 \<le> length data then slice 36 52 data else replicate 16 0),
      ls_label := (if 68 \<le> length data then slice 52 68 data else replicate 16 0)\<rparr>"

definition lm_read_super :: "storage \<Rightarrow> nat \<Rightarrow> logsuper res \<times> storage" where
  "lm_read_super s base =
     st_bind (read_bytes s (base + BLOCK_SIZE) BLOCK_SIZE) (\<lambda>data s'. (Ok (parse_logsuper data), s'))"

definition lm_validate :: "logmgr \<Rightarrow> bool" where
  "lm_validate m \<longleftrightarrow> ls_magic_val (lm_logsuper m) = LOGMAGIC \<and> ls_version_val (lm_logsuper m) = LOGVERSION"

definition needs_replay :: "logmgr \<Rightarrow> bool" where
  "needs_replay m \<longleftrightarrow> ls_state_val (lm_logsuper m) \<noteq> LOGREDONE"

definition has_wrapped :: "logmgr \<Rightarrow> bool" where
  "has_wrapped m \<longleftrightarrow> ls_state_val (lm_logsuper m) = LOGWRAP"

definition page_offset :: "logmgr \<Rightarrow> nat \<Rightarrow> nat" where
  "page_offset m page_num = log_base m + BLOCK_SIZE * 2 + page_num * LOGPSIZE"

definition data_start :: "logmgr \<Rightarrow> nat" where
  "data_start m = log_base m + BLOCK_SIZE * 2"

definition log_size_bytes :: "logmgr \<Rightarrow> nat" where
  "log_size_bytes m = ls_page_size (lm_logsuper m) * LOGPSIZE"

definition lm_read_page :: "logmgr \<Rightarrow> storage \<Rightarrow> nat \<Rightarrow> bytes res \<times> storage" where
  "lm_read_page m s page_num = read_bytes s (page_offset m page_num) LOGPSIZE"

definition lm_write_page :: "logmgr \<Rightarrow> storage \<Rightarrow> nat \<Rightarrow> bytes \<Rightarrow> unit res \<times> storage" where
  "lm_write_page m s page_num data = write_bytes s (page_offset m page_num) data"

definition logsuper_head :: "logsuper \<Rightarrow> bytes" where
  "logsuper_head l =
     list_of_arr4 (ls_magic l) @ list_of_arr4 (ls_version l) @ list_of_arr4 (ls_serial l) @
     list_of_arr4 (ls_size l) @ list_of_arr4 (ls_bsize l) @ list_of_arr4 (ls_l2bsize l) @
     list_of_arr4 (ls_flag l) @ list_of_arr4 (ls_state l) @ list_of_arr4 (ls_end l)"

fun put_active :: "nat \<Rightarrow> bytes list \<Rightarrow> bytes \<Rightarrow> bytes" where
  "put_active i [] buf = buf"
| "put_active i (u # us) buf =
     (let offset = 68 + i * 16 in
      put_active (Suc i) us
        (if offset + 16 \<le> length buf \<and> offset + 16 \<le> 68 + MAX_ACTIVE * 16 then splice offset u buf else buf))"

definition logsuper_bytes :: "logsuper \<Rightarrow> bytes" where
  "logsuper_bytes l =
     put_active 0 (ls_active l)
       (splice 0 (logsuper_head l @ ls_uuid l @ ls_label l) (replicate LOGPSIZE 0))"

definition write_super :: "logmgr \<Rightarrow> storage \<Rightarrow> logsuper \<Rightarrow> unit res \<times> storage" where
  "write_super m s l = write_bytes s (log_base m + BLOCK_SIZE) (logsuper_bytes l)"

section \<open>Appending and flushing\<close>

fun write_pages :: "logmgr \<Rightarrow> storage \<Rightarrow> nat \<Rightarrow> nat list \<Rightarrow> unit res \<times> storage" where
  "write_pages m s start_page [] = (Ok (), s)"
| "write_pages m s start_page (i # is) =
     (let buf_start = i * LOGPSIZE;
          buf_end = min (buf_start + LOGPSIZE) (length (log_buffer m))
      in
      case slice_res buf_start buf_end (log_buffer m) of
        Ok chunk \<Rightarrow>
          st_bind (lm_write_page m s (start_page + i) chunk) (\<lambda>_ s'. write_pages m s' start_page is)
      | _ \<Rightarrow> (Panic, s))"

definition buffered_pages :: "logmgr \<Rightarrow> nat \<times> nat" where
  "buffered_pages m =
     (let buffer_start = write_offset m - write_offset m mod LOG_BUFFER_SIZE;
          bytes_in_buffer = write_offset m - buffer_start
      in (buffer_start div LOGPSIZE mod 2 ^ 32, (bytes_in_buffer + LOGPSIZE - 1) div LOGPSIZE))"

definition flush_journal :: "logmgr \<Rightarrow> storage \<Rightarrow> unit res \<times> (logmgr \<times> storage)" where
  "flush_journal m s =
     (let m' = m\<lparr>lm_logsuper := ls_set_end (lm_logsuper m) (write_offset m)\<rparr>;
          (r, s') =
            st_bind
              (if buffer_dirty m \<and> 0 < write_offset m
               then write_pages m s (fst (buffered_pages m)) [0..<snd (buffered_pages m)]
               else (Ok (), s)) (\<lambda>_ s1.
            st_bind (flush_metadata s1) (\<lambda>_ s2. sync s2))
      in case r of
           Ok _ \<Rightarrow> (let (r2, s2) = write_super m' s' (lm_logsuper m') in (r2, (m', s2)))
         | Err e \<Rightarrow> (Err e, (m, s'))
         | Panic \<Rightarrow> (Panic, (m, s'))
         | Exit \<Rightarrow> (Exit, (m, s')))"

text \<open>The flush and alignment to the next buffer when a record does not fit.\<close>

definition make_room :: "nat \<Rightarrow> logmgr \<Rightarrow> storage \<Rightarrow> unit res \<times> (logmgr \<times> storage)" where
  "make_room record_total m s =
     (if LOG_BUFFER_SIZE < write_offset m mod LOG_BUFFER_SIZE + record_total then
        st_bind (flush_journal m s) (\<lambda>_ (m1, s1).
          (Ok (), (m1\<lparr>log_buffer := replicate (length (log_buffer m1)) 0, buffer_dirty := False,
             write_offset := (write_offset m1 + LOG_BUFFER_SIZE - 1) div LOG_BUFFER_SIZE * LOG_BUFFER_SIZE\<rparr>, s1)))
      else (Ok (), (m, s)))"

definition redo_lrd :: "nat \<Rightarrow> nat \<Rightarrow> nat \<Rightarrow> nat \<Rightarrow> lrd" where
  "redo_lrd txid prev block len = lrd_default
     \<lparr>logtid := write_u32 (word_of_nat txid), backchain := write_u32 (word_of_nat prev),
      lrd_type := write_u16 LOG_REDOPAGE, lrd_length := write_u16 (word_of_nat len),
      aggregate := write_u32 0, redopage_type := write_u16 LOG_INODE,
      redopage_pxd := pxd_set_length (pxd_set_address pxd_default (word_of_nat block)) 1\<rparr>"

definition commit_lrd :: "nat \<Rightarrow> nat \<Rightarrow> lrd" where
  "commit_lrd txid prev = lrd_default
     \<lparr>logtid := write_u32 (word_of_nat txid), backchain := write_u32 (word_of_nat prev),
      lrd_type := write_u16 LOG_COMMIT, lrd_length := write_u16 0, aggregate := write_u32 0\<rparr>"

text \<open>Copying a record into the buffer; a payload that leaves the buffer panics.\<close>

definition put_record :: "lrd \<Rightarrow> bytes \<Rightarrow> logmgr \<Rightarrow> storage \<Rightarrow> unit res \<times> (logmgr \<times> storage)" where
  "put_record r data m s =
     (let buf_off = write_offset m mod LOG_BUFFER_SIZE in
      if length (log_buffer m) < buf_off + LRD_SIZE + length data then (Panic, (m, s))
      else (Ok (), (m\<lparr>log_buffer := splice buf_off (lrd_bytes r @ data) (log_buffer m), buffer_dirty := True,
              write_offset := write_offset m + (LRD_SIZE + length data)\<rparr>, s)))"

definition append_log_record :: "nat \<Rightarrow> nat \<Rightarrow> bytes \<Rightarrow> logmgr \<Rightarrow> storage \<Rightarrow> unit res \<times> (logmgr \<times> storage)" where
  "append_log_record txid block data m s =
     st_bind (make_room (LRD_SIZE + length data) m s) (\<lambda>_ (m1, s1).
     st_bind (put_record (redo_lrd txid (prev_record_offset m1) block (length data)) data m1 s1) (\<lambda>_ (m2, s2).
       (Ok (), (m2\<lparr>prev_record_offset := write_offset m1\<rparr>, s2))))"

definition commit_transaction :: "nat \<Rightarrow> logmgr \<Rightarrow> storage \<Rightarrow> unit res \<times> (logmgr \<times> storage)" where
  "commit_transaction txid m s =
     st_bind (make_room LRD_SIZE m s) (\<lambda>_ (m1, s1).
     st_bind (put_record (commit_lrd txid (prev_record_offset m1)) [] m1 s1) (\<lambda>_ (m2, s2).
     st_bind (flush_journal m2 s2) (\<lambda>_ (m3, s3).
       (Ok (), (m3\<lparr>prev_record_offset := 0\<rparr>, s3)))))"

end
