(* ===== verification/Recovery.thy ===== *)
theory Recovery
  imports Journal
begin

text \<open>
  Crash recovery of \<open>journal/recovery.rs\<close>: the commit tracker, the page trackers, the filters, the
  forward scan of the log and the backward replay. \<open>replay\<close> has three phases: scan the log device,
  replay onto the file system device, mark the log as replayed; the two devices are separate
  arguments, and \<open>replay_shared\<close> runs the phases on one device (an inline log shares the storage).
\<close>

section \<open>Commit tracker\<close>

record commit_entry =
  ce_tid :: "32 word"
  ce_next :: "32 word option"

record commit_tracker =
  committed :: "32 word \<Rightarrow> commit_entry option"
  hash_table :: "nat \<Rightarrow> 32 word list"

definition commits_new :: commit_tracker where
  "commits_new = \<lparr>committed = Map.empty, hash_table = (\<lambda>_. [])\<rparr>"

definition ct_commit :: "commit_tracker \<Rightarrow> 32 word \<Rightarrow> commit_tracker" where
  "ct_commit c tid =
     (let hash = unat (tid AND 0x3f) in
      c\<lparr>hash_table := (hash_table c)(hash := hash_table c hash @ [tid]),
        committed := (committed c)(tid \<mapsto> \<lparr>ce_tid = tid, ce_next = None\<rparr>)\<rparr>)"

definition is_committed :: "commit_tracker \<Rightarrow> 32 word \<Rightarrow> bool" where
  "is_committed c tid \<longleftrightarrow> committed c tid \<noteq> None"

definition end_of_transaction :: "commit_tracker \<Rightarrow> 32 word \<Rightarrow> bool \<times> commit_tracker" where
  "end_of_transaction c tid =
     (if is_committed c tid then (True, c\<lparr>committed := (committed c)(tid := None)\<rparr>) else (False, c))"

section \<open>Page trackers\<close>

record page_tracker =
  pt_pxd :: pxd
  page_type :: "16 word"
  pt_aggregate :: nat
  summary :: byte
  inode_slots :: byte
  pt_dtroot :: "32 word \<Rightarrow> 16 word option"
  pt_xtroot :: "32 word \<Rightarrow> 16 word option"

definition tracker_new :: "pxd \<Rightarrow> 16 word \<Rightarrow> nat \<Rightarrow> page_tracker" where
  "tracker_new p ty agg = \<lparr>pt_pxd = p, page_type = ty, pt_aggregate = agg, summary = 0, inode_slots = 0,
     pt_dtroot = Map.empty, pt_xtroot = Map.empty\<rparr>"

definition is_complete :: "page_tracker \<Rightarrow> bool" where
  "is_complete t \<longleftrightarrow> summary t = 0xff"

definition set_no_redo :: "page_tracker \<Rightarrow> page_tracker" where
  "set_no_redo t = t\<lparr>summary := 0xff, page_type := 0\<rparr>"

text \<open>The table: one bucket (a list keyed by block address) per hash value.\<close>

definition BHASHSIZE :: nat where "BHASHSIZE = 4096"

type_synonym tracker_table = "nat \<Rightarrow> (nat \<times> page_tracker) list"

definition pt_hash :: "nat \<Rightarrow> nat" where "pt_hash addr = addr mod BHASHSIZE"

definition pages_new :: tracker_table where "pages_new = (\<lambda>_. [])"

definition pt_find :: "tracker_table \<Rightarrow> nat \<Rightarrow> page_tracker option" where
  "pt_find tb addr = map_of (tb (pt_hash addr)) addr"

text \<open>\<open>find_mut\<close> hands out a reference to the first entry with the key; \<open>pt_modify\<close> is a write through it.\<close>

fun modify_first :: "nat \<Rightarrow> (page_tracker \<Rightarrow> page_tracker) \<Rightarrow> (nat \<times> page_tracker) list \<Rightarrow> (nat \<times> page_tracker) list" where
  "modify_first k f [] = []"
| "modify_first k f ((k', t) # ts) = (if k' = k then (k', f t) # ts else (k', t) # modify_first k f ts)"

definition pt_modify :: "tracker_table \<Rightarrow> nat \<Rightarrow> (page_tracker \<Rightarrow> page_tracker) \<Rightarrow> tracker_table" where
  "pt_modify tb addr f = tb(pt_hash addr := modify_first addr f (tb (pt_hash addr)))"

definition find_or_create :: "tracker_table \<Rightarrow> pxd \<Rightarrow> 16 word \<Rightarrow> nat \<Rightarrow> tracker_table" where
  "find_or_create tb p ty agg =
     (let addr = unat (pxd_address p); bucket = pt_hash addr in
      if pt_find tb addr \<noteq> None then tb
      else tb(bucket := tb bucket @ [(addr, tracker_new p ty agg)]))"

section \<open>Volumes under recovery\<close>

record recovery_volume =
  status :: "32 word"
  fssize :: nat
  lbperpage :: nat
  bmap_ctl :: nat
  bmap_wsp :: "bytes list"
  fsimap_lst :: "bytes list"

definition recovery_volume_new :: recovery_volume where
  "recovery_volume_new = \<lparr>status = FM_DIRTY, fssize = 0, lbperpage = 1, bmap_ctl = 0, bmap_wsp = [], fsimap_lst = []\<rparr>"

definition rv_is_clean :: "recovery_volume \<Rightarrow> bool" where "rv_is_clean v \<longleftrightarrow> status v = FM_CLEAN"
definition rv_is_logredoing :: "recovery_volume \<Rightarrow> bool" where "rv_is_logredoing v \<longleftrightarrow> status v = FM_LOGREDO"

record recovery =
  rc_logsuper :: logsuper
  commits :: commit_tracker
  pages :: tracker_table
  no_redo_files :: "32 word \<Rightarrow> bool option"
  volumes :: "recovery_volume list"
  buf_pool :: buffer_pool

definition NBUFPOOL :: nat where "NBUFPOOL = 128"

definition recovery_pool_new :: buffer_pool where
  "recovery_pool_new = pool_new NBUFPOOL BLOCK_SIZE"

definition recovery_new :: "logsuper \<Rightarrow> recovery" where
  "recovery_new ls = \<lparr>rc_logsuper = ls, commits = commits_new, pages = pages_new,
     no_redo_files = Map.empty, volumes = [], buf_pool = recovery_pool_new\<rparr>"

definition grow_volumes :: "recovery \<Rightarrow> nat \<Rightarrow> recovery" where
  "grow_volumes rc idx =
     rc\<lparr>volumes := volumes rc @ replicate (idx + 1 - length (volumes rc)) recovery_volume_new\<rparr>"

definition nrf_contains :: "recovery \<Rightarrow> 32 word \<Rightarrow> bool" where
  "nrf_contains rc ino \<longleftrightarrow> no_redo_files rc ino \<noteq> None"

definition nrf_insert :: "recovery \<Rightarrow> 32 word \<Rightarrow> recovery" where
  "nrf_insert rc ino = rc\<lparr>no_redo_files := (no_redo_files rc)(ino \<mapsto> True)\<rparr>"

section \<open>Log scan\<close>

text \<open>Reads past the end of the written log count as zeros.\<close>

definition read_bytes_eof_ok :: "storage \<Rightarrow> nat \<Rightarrow> nat \<Rightarrow> bytes res \<times> storage" where
  "read_bytes_eof_ok s offset len =
     (let (r, s') = read_bytes s offset len in
      (case r of
         Err (UnexpectedEof _ _) \<Rightarrow> Ok (replicate len 0)
       | Err (Io True) \<Rightarrow> Ok (replicate len 0)
       | _ \<Rightarrow> r, s'))"

definition rec_total :: "nat \<Rightarrow> nat" where
  "rec_total data_len = (LRD_SIZE + data_len + 3) div 4 * 4"

record log_reader =
  lr_log_end :: nat
  lr_log_data_start :: nat
  lr_log_size :: nat
  lr_pos :: nat
  lr_log_start :: nat
  lr_wrapped :: bool

definition reader_new :: "logsuper \<Rightarrow> nat \<Rightarrow> log_reader" where
  "reader_new ls log_start =
     \<lparr>lr_log_end = ls_end_val ls, lr_log_data_start = log_start, lr_log_size = ls_page_size ls,
      lr_pos = (if 0 < ls_end_val ls then log_start + ls_end_val ls else log_start),
      lr_log_start = 0, lr_wrapped = False\<rparr>"

definition set_syncpt :: "log_reader \<Rightarrow> nat \<Rightarrow> log_reader" where
  "set_syncpt lr syncpt_addr = lr\<lparr>lr_log_start := syncpt_addr\<rparr>"

definition set_wrapped :: "log_reader \<Rightarrow> log_reader" where
  "set_wrapped lr = lr\<lparr>lr_wrapped := True\<rparr>"

definition log_limit :: "log_reader \<Rightarrow> nat" where
  "log_limit lr = lr_log_data_start lr + lr_log_size lr * LOGPSIZE"

definition next_forward :: "log_reader \<Rightarrow> storage \<Rightarrow> ((lrd \<times> bytes) option \<times> log_reader) res \<times> storage" where
  "next_forward lr s =
     (if log_limit lr \<le> lr_pos lr then (Ok (None, lr), s)
      else
        st_bind (read_bytes_eof_ok s (lr_pos lr) 4) (\<lambda>peek s1.
          if length peek < 4 \<or> take 4 peek = [0, 0, 0, 0] then (Ok (None, lr), s1)
          else
            st_bind (read_bytes_eof_ok s1 (lr_pos lr) LRD_SIZE) (\<lambda>lrd_data s2.
              if length lrd_data < LRD_SIZE then (Ok (None, lr), s2)
              else
                let r = parse_lrd lrd_data; data_len = length_val r in
                st_bind (if 0 < data_len then read_bytes s2 (lr_pos lr + LRD_SIZE) data_len else (Ok [], s2))
                  (\<lambda>data s3. (Ok (Some (r, data), lr\<lparr>lr_pos := lr_pos lr + rec_total data_len\<rparr>), s3)))))"

lemma rec_total_pos: "0 < rec_total n"
  by (simp add: rec_total_def LRD_SIZE_def)

lemma st_bind_Ok_elim:
  assumes "st_bind m f = (Ok y, t)" obtains x s where "m = (Ok x, s)" "f x s = (Ok y, t)"
  using assms by (auto simp: st_bind_Ok_iff)

lemma next_forward_Some:
  assumes "next_forward lr s = (Ok (Some x, lr'), s')"
  shows "lr_pos lr < log_limit lr \<and> (\<exists>n. lr' = lr\<lparr>lr_pos := lr_pos lr + rec_total n\<rparr>)"
proof -
  from assms obtain n where "lr_pos lr < log_limit lr" "lr' = lr\<lparr>lr_pos := lr_pos lr + rec_total n\<rparr>"
    by (auto simp: next_forward_def Let_def split: if_splits elim!: st_bind_Ok_elim)
  then show ?thesis by blast
qed

lemma next_forward_less:
  assumes "next_forward lr s = (Ok (Some x, lr'), s')"
  shows "log_limit lr' - lr_pos lr' < log_limit lr - lr_pos lr"
proof -
  from next_forward_Some [OF assms] obtain n where
    "lr_pos lr < log_limit lr" "lr' = lr\<lparr>lr_pos := lr_pos lr + rec_total n\<rparr>" by blast
  then show ?thesis using rec_total_pos [of n] by (simp add: log_limit_def)
qed

function find_end_from :: "log_reader \<Rightarrow> nat \<Rightarrow> storage \<Rightarrow> nat res \<times> storage" where
  "find_end_from lr pos s =
     (if log_limit lr \<le> pos then (Ok pos, s)
      else
        st_bind (read_bytes_eof_ok s pos 4) (\<lambda>lrd_data s1.
          if length lrd_data < 4 \<or> take 4 lrd_data = [0, 0, 0, 0] then (Ok pos, s1)
          else
            st_bind (read_bytes_eof_ok s1 pos LRD_SIZE) (\<lambda>lrd_full s2.
              if length lrd_full < LRD_SIZE then (Ok pos, s2)
              else find_end_from lr (pos + rec_total (length_val (parse_lrd lrd_full))) s2)))"
  by pat_completeness auto
termination
  by (relation "measure (\<lambda>(lr, pos, s). log_limit lr - pos)") (auto simp: rec_total_pos diff_less_mono2)

definition find_end :: "log_reader \<Rightarrow> storage \<Rightarrow> nat res \<times> storage" where
  "find_end lr s = find_end_from lr (lr_log_data_start lr) s"

text \<open>Phase 1 of \<open>replay\<close>: collect the records up to the end of the log.\<close>

function scan_log :: "log_reader \<Rightarrow> nat \<Rightarrow> storage \<Rightarrow> (lrd \<times> bytes) list \<Rightarrow> ((lrd \<times> bytes) list \<times> log_reader) res \<times> storage" where
  "scan_log lr log_end s records =
     (case next_forward lr s of
        (Ok (Some r, lr'), s') \<Rightarrow>
          if log_end < lr_pos lr' - lr_log_data_start lr' then (Ok (records, lr'), s')
          else scan_log lr' log_end s' (records @ [r])
      | (Ok (None, lr'), s') \<Rightarrow> (Ok (records, lr'), s')
      | (Err e, s') \<Rightarrow> (Err e, s')
      | (Panic, s') \<Rightarrow> (Panic, s')
      | (Exit, s') \<Rightarrow> (Exit, s'))"
  by pat_completeness auto
termination
  by (relation "measure (\<lambda>(lr, _, _, _). log_limit lr - lr_pos lr)")
    (auto intro: next_forward_less [OF sym])

declare scan_log.simps [simp del] find_end_from.simps [simp del]

section \<open>Integrity of log pages\<close>

definition validate_log_page :: "logpage \<Rightarrow> bool" where
  "validate_log_page p \<longleftrightarrow>
     (let xor = fold (\<lambda>w x. x XOR read_u32 w) (lp_data p) 0 in
      read_u32 (h_page p) = read_u32 (t_page p) \<and>
      read_u16 (h_eor p) = ucast (drop_bit 16 xor) \<and> read_u16 (t_eor p) = ucast (xor AND 0xffff))"

section \<open>Record handlers\<close>

definition block_of :: "lrd \<Rightarrow> nat" where
  "block_of r = unat (pxd_address (redopage_pxd r))"

text \<open>
  The bookkeeping after an inode page was written: an existing tracker gets \<open>summary |= 7\<close>; a page
  without tracker gets a fresh one from \<open>find_or_create\<close> (the local one that was filled in is dropped).
\<close>

definition note_inode_page :: "recovery \<Rightarrow> lrd \<Rightarrow> recovery" where
  "note_inode_page rc r =
     (case pt_find (pages rc) (block_of r) of
        Some _ \<Rightarrow> rc\<lparr>pages := pt_modify (pages rc) (block_of r)
          (\<lambda>t. t\<lparr>inode_slots := 7, summary := summary t OR 7\<rparr>)\<rparr>
      | None \<Rightarrow> rc\<lparr>pages := find_or_create (pages rc) (redopage_pxd r) LOG_INODE (aggregate_val r)\<rparr>)"

definition update_page :: "recovery \<Rightarrow> lrd \<Rightarrow> bytes \<Rightarrow> storage \<Rightarrow> unit res \<times> recovery \<times> storage" where
  "update_page rc r data s =
     (if (case pt_find (pages rc) (block_of r) of Some t \<Rightarrow> is_complete t | None \<Rightarrow> False) then (Ok (), rc, s)
      else if redopage_type_val r = LOG_INODE then
        (case write_block s (block_of r) data of
           (Ok _, s') \<Rightarrow> (Ok (), note_inode_page rc r, s')
         | (e, s') \<Rightarrow> (e, rc, s'))
      else if redopage_type_val r AND LOG_DATA \<noteq> 0 then
        (case write_block s (block_of r) data of (e, s') \<Rightarrow> (e, rc, s'))
      else (Ok (), rc, s))"

definition do_after :: "recovery \<Rightarrow> lrd \<Rightarrow> bytes \<Rightarrow> storage \<Rightarrow> unit res \<times> recovery \<times> storage" where
  "do_after rc r data s =
     (let rc1 = grow_volumes rc (aggregate_val r); v = volumes rc1 ! aggregate_val r in
      if rv_is_clean v \<or> rv_is_logredoing v then (Ok (), rc1, s)
      else if redopage_type_val r \<noteq> LOG_INODE \<and> nrf_contains rc1 (inode_val r) then (Ok (), rc1, s)
      else update_page rc1 r data s)"

definition filter_page :: "recovery \<Rightarrow> pxd \<Rightarrow> nat \<Rightarrow> nat \<Rightarrow> recovery" where
  "filter_page rc p addr agg =
     (case pt_find (pages rc) addr of
        Some _ \<Rightarrow> rc\<lparr>pages := pt_modify (pages rc) addr set_no_redo\<rparr>
      | None \<Rightarrow> rc\<lparr>pages := find_or_create (pages rc) p 0 agg\<rparr>)"

definition do_no_redo_page :: "recovery \<Rightarrow> lrd \<Rightarrow> recovery" where
  "do_no_redo_page rc r = filter_page rc (redopage_pxd r) (block_of r) (aggregate_val r)"

definition do_no_redo_ino_ext :: "recovery \<Rightarrow> lrd \<Rightarrow> recovery" where
  "do_no_redo_ino_ext rc r =
     (let n = (unat (pxd_length (redopage_pxd r)) + BLOCK_SIZE - 1) div BLOCK_SIZE in
      fold (\<lambda>k rc.
          let addr = block_of r + k * BLOCK_SIZE;
              filter_pxd = pxd_set_length (pxd_set_address pxd_default (word_of_nat addr)) 1
          in filter_page rc filter_pxd addr (aggregate_val r))
        [0..<min n 4] rc)"

definition mark_bmap :: "recovery \<Rightarrow> lrd \<Rightarrow> nat \<Rightarrow> recovery" where
  "mark_bmap rc r val =
     (let idx = aggregate_val r; rc1 = grow_volumes rc idx; v = volumes rc1 ! idx;
          block = block_of r div BLOCK_SIZE
      in
      if block < length (bmap_wsp v) \<and> val = 1 \<and> 4 < length (bmap_wsp v ! block) \<and>
         read_u32 (arr4_of (slice 0 4 (bmap_wsp v ! block))) = 0
      then rc1\<lparr>volumes := (volumes rc1)[idx := v\<lparr>bmap_wsp :=
             (bmap_wsp v)[block := splice 0 (list_of_arr4 (write_u32 1)) (bmap_wsp v ! block)]\<rparr>]\<rparr>
      else rc1)"

definition do_update_map :: "recovery \<Rightarrow> lrd \<Rightarrow> recovery" where
  "do_update_map rc r =
     (if redopage_type_val r AND 0x0020 \<noteq> 0 then mark_bmap rc r 0
      else if redopage_type_val r AND 0x0010 \<noteq> 0 then mark_bmap rc r 1
      else mark_bmap rc r 1)"

definition process_record :: "recovery \<Rightarrow> lrd \<Rightarrow> bytes \<Rightarrow> storage \<Rightarrow> unit res \<times> recovery \<times> storage" where
  "process_record rc r data s =
     (if is_commit r then (Ok (), rc\<lparr>commits := ct_commit (commits rc) (logtid_val r)\<rparr>, s)
      else if is_mount r then
        (let rc1 = grow_volumes rc (aggregate_val r) in
         (Ok (), rc1\<lparr>volumes := (volumes rc1)[aggregate_val r := (volumes rc1 ! aggregate_val r)\<lparr>status := FM_CLEAN\<rparr>]\<rparr>, s))
      else if is_syncpt r then (Ok (), rc, s)
      else if \<not> is_committed (commits rc) (logtid_val r) then (Ok (), rc, s)
      else if is_redopage r then do_after rc r data s
      else if is_noredopage r then (Ok (), do_no_redo_page rc r, s)
      else if is_noredoinoext r then (Ok (), do_no_redo_ino_ext rc r, s)
      else if is_updatemap r then (Ok (), do_update_map rc r, s)
      else (Ok (), rc, s))"

section \<open>Replay\<close>

text \<open>
  Phase 2: the records in reverse order; \<open>pos\<close> is where the scan stopped, \<open>last_addr\<close> the sync point
  seen so far.
\<close>

fun replay_records :: "nat \<Rightarrow> nat \<Rightarrow> nat \<Rightarrow> (lrd \<times> bytes) list \<Rightarrow> recovery \<Rightarrow> storage \<Rightarrow> unit res \<times> recovery \<times> storage" where
  "replay_records log_data_start pos last_addr [] rc s = (Ok (), rc, s)"
| "replay_records log_data_start pos last_addr ((r, data) # rs) rc s =
     (case process_record rc r data s of
        (Ok _, rc', s') \<Rightarrow>
          let last_addr' = (if is_syncpt r \<and> 0 < syncpt_sync r
                            then log_data_start + syncpt_sync r * LOGPSIZE else last_addr)
          in if 0 < last_addr' \<and> pos \<le> last_addr' then (Ok (), rc', s')
             else replay_records log_data_start pos last_addr' rs rc' s'
      | (Err e, rc', s') \<Rightarrow> (Err e, rc', s')
      | (Panic, rc', s') \<Rightarrow> (Panic, rc', s')
      | (Exit, rc', s') \<Rightarrow> (Exit, rc', s'))"

definition scan_phase :: "recovery \<Rightarrow> nat \<Rightarrow> storage \<Rightarrow> ((lrd \<times> bytes) list \<times> log_reader) res \<times> storage" where
  "scan_phase rc log_data_start s =
     (let reader = reader_new (rc_logsuper rc) log_data_start in
      st_bind (if 0 < ls_end_val (rc_logsuper rc) then (Ok (ls_end_val (rc_logsuper rc)), s) else find_end reader s)
        (\<lambda>log_end s1. scan_log (reader\<lparr>lr_pos := log_data_start\<rparr>) log_end s1 []))"

definition finish_phase :: "recovery \<Rightarrow> nat \<Rightarrow> storage \<Rightarrow> unit res \<times> recovery \<times> storage" where
  "finish_phase rc log_data_start s =
     (let rc' = rc\<lparr>rc_logsuper := ls_set_state (rc_logsuper rc) LOGREDONE\<rparr>;
          (e, s') = write_bytes s (log_data_start - BLOCK_SIZE) (logsuper_head (rc_logsuper rc') @ replicate 92 0)
      in (e, rc', s'))"

definition replay :: "recovery \<Rightarrow> storage \<Rightarrow> storage \<Rightarrow> nat \<Rightarrow> unit res \<times> recovery \<times> storage \<times> storage" where
  "replay rc log_s fs log_data_start =
     (if ls_state_val (rc_logsuper rc) = LOGREDONE then (Ok (), rc, log_s, fs)
      else
        case scan_phase rc log_data_start log_s of
          (Ok (records, reader), log1) \<Rightarrow>
            (case replay_records log_data_start (lr_pos reader) 0 (rev records) rc fs of
               (Ok _, rc1, fs1) \<Rightarrow>
                 (case finish_phase rc1 log_data_start log1 of (e, rc2, log2) \<Rightarrow> (e, rc2, log2, fs1))
             | (e, rc1, fs1) \<Rightarrow> (e, rc1, log1, fs1))
        | (Err e, log1) \<Rightarrow> (Err e, rc, log1, fs)
        | (Panic, log1) \<Rightarrow> (Panic, rc, log1, fs)
        | (Exit, log1) \<Rightarrow> (Exit, rc, log1, fs))"

definition replay_shared :: "recovery \<Rightarrow> storage \<Rightarrow> nat \<Rightarrow> unit res \<times> recovery \<times> storage" where
  "replay_shared rc s log_data_start =
     (if ls_state_val (rc_logsuper rc) = LOGREDONE then (Ok (), rc, s)
      else
        case scan_phase rc log_data_start s of
          (Ok (records, reader), s1) \<Rightarrow>
            (case replay_records log_data_start (lr_pos reader) 0 (rev records) rc s1 of
               (Ok _, rc1, s2) \<Rightarrow> finish_phase rc1 log_data_start s2
             | e \<Rightarrow> e)
        | (Err e, s1) \<Rightarrow> (Err e, rc, s1)
        | (Panic, s1) \<Rightarrow> (Panic, rc, s1)
        | (Exit, s1) \<Rightarrow> (Exit, rc, s1))"

definition recovery_finalize :: "recovery \<Rightarrow> logsuper \<times> recovery" where
  "recovery_finalize rc =
     (let rc' = rc\<lparr>rc_logsuper := (rc_logsuper rc)\<lparr>ls_state := write_u32 LOGREDONE\<rparr>\<rparr> in (rc_logsuper rc', rc'))"

section \<open>Handlers without a caller\<close>

text \<open>
  Private functions of \<open>JournalRecovery\<close> that \<open>replay\<close> does not reach. The trackers they build locally are
  dropped: only the one \<open>find_or_create\<close> makes is kept.
\<close>

definition LOG_XTREE :: "16 word" where "LOG_XTREE = 0x0002"
definition LOG_DTREE :: "16 word" where "LOG_DTREE = 0x0004"
definition LOG_BTROOT :: "16 word" where "LOG_BTROOT = 0x0010"

definition replay_inode_page :: "recovery \<Rightarrow> lrd \<Rightarrow> recovery" where
  "replay_inode_page rc r =
     (case pt_find (pages rc) (block_of r) of
        Some _ \<Rightarrow> rc\<lparr>pages := pt_modify (pages rc) (block_of r)
          (\<lambda>t. let t' = t\<lparr>inode_slots := inode_slots t OR 7\<rparr>
               in if inode_slots t' = 7 then t'\<lparr>summary := summary t' OR 7\<rparr> else t')\<rparr>
      | None \<Rightarrow> rc\<lparr>pages := find_or_create (pages rc) (redopage_pxd r) LOG_INODE (aggregate_val r)\<rparr>)"

definition update_xtree_root :: "recovery \<Rightarrow> lrd \<Rightarrow> 32 word \<Rightarrow> recovery" where
  "update_xtree_root rc r ino =
     (case pt_find (pages rc) (block_of r) of
        Some _ \<Rightarrow> rc\<lparr>pages := pt_modify (pages rc) (block_of r)
          (\<lambda>t. t\<lparr>pt_xtroot := (pt_xtroot t)(ino \<mapsto> 0xffff)\<rparr>)\<rparr>
      | None \<Rightarrow> rc\<lparr>pages := find_or_create (pages rc) (redopage_pxd r) (LOG_BTROOT OR LOG_XTREE) (aggregate_val r)\<rparr>)"

definition update_dtree_root :: "recovery \<Rightarrow> lrd \<Rightarrow> 32 word \<Rightarrow> recovery" where
  "update_dtree_root rc r ino =
     (case pt_find (pages rc) (block_of r) of
        Some _ \<Rightarrow> rc\<lparr>pages := pt_modify (pages rc) (block_of r)
          (\<lambda>t. t\<lparr>pt_dtroot := (pt_dtroot t)(ino \<mapsto> 0xffff)\<rparr>)\<rparr>
      | None \<Rightarrow> rc\<lparr>pages := find_or_create (pages rc) (redopage_pxd r) (LOG_BTROOT OR LOG_DTREE) (aggregate_val r)\<rparr>)"

definition update_data_page :: "lrd \<Rightarrow> storage \<Rightarrow> unit res \<times> storage" where
  "update_data_page r s = st_bind (read_block s (block_of r div BLOCK_SIZE)) (\<lambda>_ s'. (Ok (), s'))"

text \<open>The backward search for a sync point; it steps by one descriptor, whatever lies there.\<close>

function find_syncpt_from :: "nat \<Rightarrow> nat \<Rightarrow> nat \<Rightarrow> storage \<Rightarrow> nat res \<times> storage" where
  "find_syncpt_from log_data_start log_end pos s =
     (if pos \<le> log_data_start + LRD_SIZE then (Ok 0, s)
      else
        st_bind (read_bytes_eof_ok s (pos - LRD_SIZE) LRD_SIZE) (\<lambda>bs s1.
          if length bs < 8 then (Ok 0, s1)
          else
            st_bind (slice_res 8 10 bs, s1) (\<lambda>ty s2.
              if read_u16 (arr2_of ty) AND LOG_SYNCPT \<noteq> 0 then
                st_bind (slice_res 16 20 bs, s2) (\<lambda>sv s3.
                  let sync_val = unat (read_u32 (arr4_of sv));
                      syncpt_addr = log_data_start + sync_val * LOGPSIZE
                  in if 0 < sync_val \<and> syncpt_addr < log_end then (Ok (log_data_start + syncpt_addr), s3)
                     else (Ok 0, s3))
              else find_syncpt_from log_data_start log_end (pos - LRD_SIZE) s2)))"
  by pat_completeness auto
termination
  by (relation "measure (\<lambda>(_, _, pos, _). pos)") (auto simp: LRD_SIZE_def)

declare find_syncpt_from.simps [simp del]

definition find_syncpt :: "storage \<Rightarrow> nat \<Rightarrow> nat \<Rightarrow> nat res \<times> storage" where
  "find_syncpt s log_data_start log_end = find_syncpt_from log_data_start log_end log_end s"

section \<open>What a log commits\<close>

text \<open>The after-images of the committed transactions, in log order.\<close>

fun committed_images :: "(lrd \<times> bytes) list \<Rightarrow> (nat \<times> bytes) list" where
  "committed_images [] = []"
| "committed_images ((r, d) # rs) =
     (if \<not> is_commit r \<and> is_redopage r \<and>
         logtid_val r \<in> logtid_val ` fst ` set (filter (\<lambda>x. is_commit (fst x)) rs)
      then (block_of r, d) # committed_images rs else committed_images rs)"

text \<open>The same for records in replay order, the transactions \<open>T\<close> already known to be committed.\<close>

fun replay_images :: "32 word set \<Rightarrow> (lrd \<times> bytes) list \<Rightarrow> (nat \<times> bytes) list" where
  "replay_images T [] = []"
| "replay_images T ((r, d) # rs) =
     (if is_commit r then replay_images (insert (logtid_val r) T) rs
      else if is_redopage r \<and> logtid_val r \<in> T then (block_of r, d) # replay_images T rs
      else replay_images T rs)"

definition commit_tids :: "(lrd \<times> bytes) list \<Rightarrow> 32 word set" where
  "commit_tids rs = logtid_val ` fst ` set (filter (\<lambda>x. is_commit (fst x)) rs)"

lemma replay_images_append:
  "replay_images T (xs @ ys) = replay_images T xs @ replay_images (T \<union> commit_tids xs) ys"
  by (induction T xs rule: replay_images.induct) (auto simp: commit_tids_def)

lemma replay_images_rev: "replay_images {} (rev rs) = rev (committed_images rs)"
  by (induction rs rule: committed_images.induct)
    (auto simp: replay_images_append commit_tids_def)

definition seen :: "recovery \<Rightarrow> 32 word set" where
  "seen rc = {t. is_committed (commits rc) t}"

lemma seen_simps [simp]:
  "seen (recovery_new ls) = {}"
  "seen (rc\<lparr>pages := p\<rparr>) = seen rc" "seen (rc\<lparr>volumes := v\<rparr>) = seen rc"
  "seen (rc\<lparr>commits := ct_commit (commits rc) t\<rparr>) = insert t (seen rc)"
  by (auto simp: seen_def is_committed_def recovery_new_def commits_new_def ct_commit_def Let_def)

lemma seen_handlers [simp]:
  "seen (grow_volumes rc n) = seen rc" "seen (note_inode_page rc r) = seen rc"
  "seen (filter_page rc p a g) = seen rc" "seen (do_no_redo_page rc r) = seen rc"
  "seen (mark_bmap rc r v) = seen rc" "seen (do_update_map rc r) = seen rc"
  by (auto simp: grow_volumes_def note_inode_page_def filter_page_def do_no_redo_page_def mark_bmap_def
      do_update_map_def Let_def split: option.splits)

lemma seen_no_redo_ino_ext [simp]: "seen (do_no_redo_ino_ext rc r) = seen rc"
proof -
  have "seen (fold (\<lambda>k rc. filter_page rc (f k) (g k) a) ks rc) = seen rc" for f g a ks
    by (induction ks arbitrary: rc) auto
  then show ?thesis by (simp add: do_no_redo_ino_ext_def Let_def)
qed

section \<open>Only committed images are written\<close>

text \<open>The one effect a redo record has on the device: nothing, or the write of its image.\<close>

lemma update_page_effect:
  assumes "update_page rc r data s = (e, rc', s')"
  shows "(e, s') = (Ok (), s) \<and> rc' = rc \<or> (e, s') = write_block s (block_of r) data \<and> seen rc' = seen rc"
  using assms by (auto simp: update_page_def split: if_splits prod.splits res.splits)

lemma do_after_effect:
  assumes "do_after rc r data s = (e, rc', s')"
  shows "((e, s') = (Ok (), s) \<or> (e, s') = write_block s (block_of r) data) \<and> seen rc' = seen rc"
proof -
  let ?rc = "grow_volumes rc (aggregate_val r)"
  from assms have "(e, rc', s') = (Ok (), ?rc, s) \<or> update_page ?rc r data s = (e, rc', s')"
    unfolding do_after_def Let_def by metis
  then show ?thesis using update_page_effect [of ?rc r data s e rc' s'] by auto
qed

lemma process_record_effect:
  assumes "process_record rc r data s = (e, rc', s')"
  shows "(if is_commit r then e = Ok () \<and> s' = s \<and> seen rc' = insert (logtid_val r) (seen rc)
     else seen rc' = seen rc \<and>
       ((e, s') = (Ok (), s) \<or>
        is_redopage r \<and> logtid_val r \<in> seen rc \<and> (e, s') = write_block s (block_of r) data))"
proof (cases "is_commit r")
  case True
  with assms show ?thesis by (auto simp: process_record_def)
next
  case False
  show ?thesis
  proof (cases "\<not> is_mount r \<and> \<not> is_syncpt r \<and> logtid_val r \<in> seen rc \<and> is_redopage r")
    case True
    with False assms have "do_after rc r data s = (e, rc', s')"
      by (simp add: process_record_def seen_def)
    from do_after_effect [OF this] True False show ?thesis by auto
  next
    case False2: False
    with False assms have "e = Ok () \<and> s' = s \<and> seen rc' = seen rc"
      by (auto simp: process_record_def seen_def [of rc] Let_def split: if_splits)
        (auto simp: seen_def)
    with False show ?thesis by simp
  qed
qed

lemma replay_records_trace:
  assumes "replay_records start pos la rs rc s = (e, rc', s')"
  shows "\<exists>ws. (e, s') = write_seq write_block s ws \<and> set ws \<subseteq> set (replay_images (seen rc) rs)"
  using assms
proof (induction rs arbitrary: la rc s)
  case Nil
  then have "(e, s') = write_seq write_block s [] \<and> set [] \<subseteq> set (replay_images (seen rc) [])" by simp
  then show ?case by blast
next
  case (Cons x rs)
  obtain r d where x: "x = (r, d)" by (cases x)
  obtain e1 rc1 s1 where p: "process_record rc r d s = (e1, rc1, s1)" by (metis prod_cases3)
  note eff = process_record_effect [OF p]
  define T where "T = replay_images (seen rc1) rs"
  have sub: "set T \<subseteq> set (replay_images (seen rc) (x # rs))"
    using eff by (auto simp: T_def x split: if_splits)
  have rest: "\<exists>ws. (e, s') = write_seq write_block s1 ws \<and> set ws \<subseteq> set T" if "e1 = Ok ()"
  proof -
    from Cons.prems p that have "(e, s') = write_seq write_block s1 [] \<or>
        (\<exists>la'. replay_records start pos la' rs rc1 s1 = (e, rc', s'))"
      by (simp add: x Let_def split: if_splits) blast+
    then show ?thesis using Cons.IH [of _ rc1 s1] unfolding T_def
      by (metis empty_subsetI list.set(1))
  qed
  have stop: "e = e1 \<and> s' = s1" if "e1 \<noteq> Ok ()"
    using Cons.prems p that by (cases e1) (auto simp: x)
  show ?case
  proof (cases "(e1, s1) = (Ok (), s)")
    case True
    with rest sub show ?thesis by fastforce
  next
    case False
    with eff have w: "is_redopage r" "logtid_val r \<in> seen rc" "\<not> is_commit r"
      "(e1, s1) = write_block s (block_of r) d" by (auto split: if_splits)
    show ?thesis
    proof (cases "e1 = Ok ()")
      case True
      from rest [OF True] obtain ws where ws: "(e, s') = write_seq write_block s1 ws" "set ws \<subseteq> set T" by blast
      have "(e, s') = write_seq write_block s ((block_of r, d) # ws)"
        using True ws w(4) by (simp flip: w(4))
      moreover have "set ((block_of r, d) # ws) \<subseteq> set (replay_images (seen rc) (x # rs))"
        using ws(2) sub w by (auto simp: x)
      ultimately show ?thesis by blast
    next
      case False
      then have "(e, s') = write_seq write_block s [(block_of r, d)]"
        using stop w(4) by (cases e1) (auto simp flip: w(4))
      moreover have "set [(block_of r, d)] \<subseteq> set (replay_images (seen rc) (x # rs))" using w by (auto simp: x)
      ultimately show ?thesis by blast
    qed
  qed
qed

text \<open>
  C3. Recovery writes nothing but committed after-images to the file system, whatever the log and the
  device hold and wherever a failure stops it: the device is left as a sequence of block writes leaves
  it, each the image of a redo record that a commit record of its transaction follows in the log.
\<close>

theorem replay_only_committed:
  "\<exists>records ws. snd (snd (snd (replay (recovery_new ls) log_s fs start))) = snd (write_seq write_block fs ws) \<and>
     set ws \<subseteq> set (committed_images records) \<and>
     (records = [] \<or> (\<exists>reader. fst (scan_phase (recovery_new ls) start log_s) = Ok (records, reader)))"
    (is "\<exists>records ws. ?P records ws")
proof (cases "ls_state_val (rc_logsuper (recovery_new ls)) = LOGREDONE \<or>
    \<not> (\<exists>x. fst (scan_phase (recovery_new ls) start log_s) = Ok x)")
  case True
  then have "?P [] []" by (auto simp: replay_def split: prod.splits res.splits)
  then show ?thesis by blast
next
  case False
  then obtain records reader log1 where sc: "scan_phase (recovery_new ls) start log_s = (Ok (records, reader), log1)"
    by (metis prod.collapse)
  obtain e rc1 fs1 where rp: "replay_records start (lr_pos reader) 0 (rev records) (recovery_new ls) fs = (e, rc1, fs1)"
    by (metis prod_cases3)
  from replay_records_trace [OF this] obtain ws where
    "(e, fs1) = write_seq write_block fs ws" "set ws \<subseteq> set (committed_images records)"
    by (auto simp: replay_images_rev)
  moreover have "snd (snd (snd (replay (recovery_new ls) log_s fs start))) = fs1"
    using False sc rp by (auto simp: replay_def split: res.splits prod.splits)
  ultimately have "?P records ws" using sc by (auto dest: arg_cong [where f = snd])
  then show ?thesis by blast
qed

section \<open>What the log manager's records replay to\<close>

text \<open>The records \<open>logmgr.rs\<close> writes: inode-page after-images and commits.\<close>

definition plain_record :: "lrd \<Rightarrow> bool" where
  "plain_record r \<longleftrightarrow> \<not> is_syncpt r \<and>
     (is_commit r \<or> is_redopage r \<and> \<not> is_mount r \<and> redopage_type_val r = LOG_INODE)"

definition plain_state :: "recovery \<Rightarrow> bool" where
  "plain_state rc \<longleftrightarrow> (\<forall>v\<in>set (volumes rc). status v = FM_DIRTY) \<and>
     (\<forall>a t. pt_find (pages rc) a = Some t \<longrightarrow> summary t \<in> {0, 7})"

lemma pt_find_new [simp]: "pt_find pages_new a = None"
  by (simp add: pages_new_def pt_find_def)

lemma map_of_modify_first:
  "map_of (modify_first k f xs) a = (if a = k then map_option f (map_of xs k) else map_of xs a)"
  by (induction xs) auto

lemma pt_find_modify [simp]:
  "pt_find (pt_modify tb k f) a = (if a = k then map_option f (pt_find tb k) else pt_find tb a)"
  by (auto simp: pt_find_def pt_modify_def map_of_modify_first)

lemma pt_find_or_create [simp]:
  "pt_find (find_or_create tb p ty agg) a =
     (if a = unat (pxd_address p) \<and> pt_find tb a = None then Some (tracker_new p ty agg) else pt_find tb a)"
  by (auto simp: pt_find_def find_or_create_def Let_def map_add_def split: option.splits)

lemma plain_new [simp]: "plain_state (recovery_new ls)"
  by (simp add: plain_state_def recovery_new_def)

lemma plain_grow [simp]: "plain_state rc \<Longrightarrow> plain_state (grow_volumes rc n)"
  by (auto simp: plain_state_def grow_volumes_def recovery_volume_new_def)

lemma plain_note [simp]: "plain_state rc \<Longrightarrow> plain_state (note_inode_page rc r)"
  unfolding plain_state_def note_inode_page_def
  by (force simp: tracker_new_def split: option.splits if_splits)

lemma grow_volumes_dirty:
  assumes "plain_state rc"
  shows "status (volumes (grow_volumes rc n) ! n) = FM_DIRTY"
proof -
  have "n < length (volumes (grow_volumes rc n))" by (simp add: grow_volumes_def)
  with plain_grow [OF assms, of n] show ?thesis by (simp add: plain_state_def)
qed

lemma plain_incomplete:
  "plain_state rc \<Longrightarrow> \<not> (case pt_find (pages rc) a of Some t \<Rightarrow> is_complete t | None \<Rightarrow> False)"
  by (cases "pt_find (pages rc) a") (fastforce simp: plain_state_def is_complete_def)+

lemma process_plain:
  assumes "plain_state rc" "plain_record r"
  shows "\<exists>rc'. plain_state rc' \<and>
    (if is_commit r then process_record rc r d s = (Ok (), rc', s)
     else if logtid_val r \<in> seen rc then
       process_record rc r d s = (fst (write_block s (block_of r) d), rc', snd (write_block s (block_of r) d))
     else process_record rc r d s = (Ok (), rc', s))"
proof (cases "\<not> is_commit r \<and> logtid_val r \<in> seen rc")
  case False
  then have "process_record rc r d s =
      (Ok (), if is_commit r then rc\<lparr>commits := ct_commit (commits rc) (logtid_val r)\<rparr> else rc, s)"
    using assms(2) by (auto simp: process_record_def plain_record_def seen_def)
  moreover have "plain_state (if is_commit r then rc\<lparr>commits := ct_commit (commits rc) (logtid_val r)\<rparr> else rc)"
    using assms(1) by (simp add: plain_state_def)
  ultimately show ?thesis using False by (metis (full_types))
next
  case True
  let ?rc = "grow_volumes rc (aggregate_val r)"
  have pl: "plain_state ?rc" using assms by simp
  have "process_record rc r d s = update_page ?rc r d s"
    using True assms grow_volumes_dirty [OF assms(1), of "aggregate_val r"]
    by (simp add: process_record_def plain_record_def seen_def do_after_def Let_def rv_is_clean_def
        rv_is_logredoing_def FM_DIRTY_def FM_CLEAN_def FM_LOGREDO_def)
  also have "\<dots> = (case write_block s (block_of r) d of
        (Ok _, s') \<Rightarrow> (Ok (), note_inode_page ?rc r, s') | (e, s') \<Rightarrow> (e, ?rc, s'))"
    using True assms(2) plain_incomplete [OF pl] by (simp add: update_page_def plain_record_def)
  finally have p: "process_record rc r d s = (case write_block s (block_of r) d of
        (Ok _, s') \<Rightarrow> (Ok (), note_inode_page ?rc r, s') | (e, s') \<Rightarrow> (e, ?rc, s'))" .
  obtain e s' where w: "write_block s (block_of r) d = (e, s')" by fastforce
  show ?thesis using True pl plain_note [OF pl, of r] unfolding p w by (cases e) auto
qed

lemma replay_records_plain:
  assumes "plain_state rc" "\<And>r d. (r, d) \<in> set rs \<Longrightarrow> plain_record r"
    "write_seq write_block s (replay_images (seen rc) rs) = (Ok (), s')"
  shows "\<exists>rc'. replay_records start pos 0 rs rc s = (Ok (), rc', s')"
  using assms
proof (induction rs arbitrary: rc s)
  case Nil
  then show ?case by simp
next
  case (Cons x rs)
  obtain r d where x: "x = (r, d)" by (cases x)
  have pr: "plain_record r" using Cons.prems(2) x by auto
  from process_plain [OF Cons.prems(1) pr, of d s] obtain rc1 where rc1: "plain_state rc1"
    "if is_commit r then process_record rc r d s = (Ok (), rc1, s)
     else if logtid_val r \<in> seen rc then
       process_record rc r d s = (fst (write_block s (block_of r) d), rc1, snd (write_block s (block_of r) d))
     else process_record rc r d s = (Ok (), rc1, s)" by blast
  have redo: "\<not> is_commit r \<Longrightarrow> is_redopage r \<and> \<not> is_syncpt r" using pr by (auto simp: plain_record_def)
  have "\<exists>s1. process_record rc r d s = (Ok (), rc1, s1) \<and>
      write_seq write_block s1 (replay_images (seen rc1) rs) = (Ok (), s')"
  proof (cases "\<not> is_commit r \<and> logtid_val r \<in> seen rc")
    case True
    with Cons.prems(3) redo obtain s1 where s1: "write_block s (block_of r) d = (Ok (), s1)"
      "write_seq write_block s1 (replay_images (seen rc) rs) = (Ok (), s')"
      by (auto simp: x st_bind_Ok_iff)
    with True rc1(2) have p: "process_record rc r d s = (Ok (), rc1, s1)" by simp
    with process_record_effect [OF p] s1 True show ?thesis by simp
  next
    case False
    with rc1(2) have p: "process_record rc r d s = (Ok (), rc1, s)" by (auto split: if_splits)
    with process_record_effect [OF p] Cons.prems(3) False show ?thesis by (auto simp: x split: if_splits)
  qed
  then obtain s1 where s1: "process_record rc r d s = (Ok (), rc1, s1)"
    "write_seq write_block s1 (replay_images (seen rc1) rs) = (Ok (), s')" by blast
  from Cons.IH [OF rc1(1) _ s1(2)] Cons.prems(2) obtain rc' where
    "replay_records start pos 0 rs rc1 s1 = (Ok (), rc', s')" by (metis list.set_intros(2))
  then show ?case using s1(1) pr by (simp add: x plain_record_def)
qed

lemma redo_lrd_fields [simp]:
  "logtid_val (redo_lrd t p b n) = word_of_nat t" "\<not> is_commit (redo_lrd t p b n)"
  "is_redopage (redo_lrd t p b n)" "\<not> is_mount (redo_lrd t p b n)" "\<not> is_syncpt (redo_lrd t p b n)"
  "redopage_type_val (redo_lrd t p b n) = LOG_INODE" "aggregate_val (redo_lrd t p b n) = 0"
  "n < 2 ^ 16 \<Longrightarrow> length_val (redo_lrd t p b n) = n"
  by (simp_all add: redo_lrd_def lrd_default_def logtid_val_def is_commit_def is_redopage_def is_mount_def
      is_syncpt_def redopage_type_val_def type_val_def length_val_def aggregate_val_def log_type_defs
      unsigned_of_nat take_bit_nat_eq_self_iff)

lemma redo_lrd_block [simp]:
  assumes "b < 2 ^ 40"
  shows "block_of (redo_lrd t p b n) = b"
  using assms
  by (simp add: block_of_def redo_lrd_def unsigned_take_bit_eq unsigned_of_nat take_bit_nat_eq_self_iff)

lemma commit_lrd_fields [simp]:
  "logtid_val (commit_lrd t p) = word_of_nat t" "is_commit (commit_lrd t p)" "\<not> is_syncpt (commit_lrd t p)"
  "length_val (commit_lrd t p) = 0"
  by (simp_all add: commit_lrd_def lrd_default_def logtid_val_def is_commit_def is_syncpt_def type_val_def
      length_val_def log_type_defs)

lemma plain_lrd [simp]: "plain_record (redo_lrd t p b n)" "plain_record (commit_lrd t p)"
  by (simp_all add: plain_record_def)

text \<open>On a healthy device the images are written, and each block ends up with the oldest of its images.\<close>

lemma committed_images_subset: "set (committed_images rs) \<subseteq> (\<lambda>(r, d). (block_of r, d)) ` set rs"
  by (induction rs rule: committed_images.induct) auto

text \<open>A log of the log manager whose committed images fit the device.\<close>

definition plain_log :: "storage \<Rightarrow> (lrd \<times> bytes) list \<Rightarrow> bool" where
  "plain_log s rs \<longleftrightarrow> (\<forall>x\<in>set rs. plain_record (fst x)) \<and>
     (\<forall>x\<in>set (committed_images rs). fst x < size_blocks s \<and> length (snd x) = BLOCK_SIZE)"

lemma replay_records_images:
  assumes "st_ok s" "plain_log s rs"
  shows "\<exists>rc' s'. replay_records start pos 0 (rev rs) (recovery_new ls) s = (Ok (), rc', s') \<and> st_ok s' \<and>
    size_blocks s' = size_blocks s \<and>
    (\<forall>b. peek_block s' b = (case map_of (committed_images rs) b of Some d \<Rightarrow> Ok d | None \<Rightarrow> peek_block s b))"
proof -
  have "\<And>b d. (b, d) \<in> set (rev (committed_images rs)) \<Longrightarrow> b < size_blocks s \<and> length d = BLOCK_SIZE"
    using assms(2) by (auto simp: plain_log_def)
  note w = dev.write_seq_last_wins [OF assms(1) this, of "rev (committed_images rs)", simplified rev_rev_ident]
  from w obtain s' where s':
    "write_seq write_block s (rev (committed_images rs)) = (Ok (), s')" "st_ok s'" "size_blocks s' = size_blocks s"
    "\<And>b. peek_block s' b = (case map_of (committed_images rs) b of Some d \<Rightarrow> Ok d | None \<Rightarrow> peek_block s b)"
    by blast
  have "\<exists>rc'. replay_records start pos 0 (rev rs) (recovery_new ls) s = (Ok (), rc', s')"
    using assms(2) s'(1) by (intro replay_records_plain) (auto simp: replay_images_rev plain_log_def)
  with s' show ?thesis by blast
qed

text \<open>
  Durability: when no block has two committed images in the log, replaying the records of the log
  manager onto a healthy device succeeds, every committed image is on its block afterwards, and every
  other block is as it was.
\<close>

theorem replay_durable:
  assumes "st_ok s" "plain_log s rs"
    "distinct (map fst (committed_images rs))"
  shows "\<exists>rc' s'. replay_records start pos 0 (rev rs) (recovery_new ls) s = (Ok (), rc', s') \<and>
    (\<forall>b d. (b, d) \<in> set (committed_images rs) \<longrightarrow> fst (read_block s' b) = Ok d) \<and>
    (\<forall>b. b \<notin> fst ` set (committed_images rs) \<longrightarrow> fst (read_block s' b) = fst (read_block s b))"
proof -
  from replay_records_images [OF assms(1,2)] obtain rc' s' where
    s': "replay_records start pos 0 (rev rs) (recovery_new ls) s = (Ok (), rc', s')"
    "\<And>b. peek_block s' b = (case map_of (committed_images rs) b of Some d \<Rightarrow> Ok d | None \<Rightarrow> peek_block s b)"
    by blast
  have "(b, d) \<in> set (committed_images rs) \<Longrightarrow> peek_block s' b = Ok d" for b d
    using s'(2) [of b] assms(3) by simp
  moreover have "b \<notin> fst ` set (committed_images rs) \<Longrightarrow> peek_block s' b = peek_block s b" for b
    using s'(2) [of b] by (metis map_of_eq_None_iff option.simps(4))
  ultimately show ?thesis using s'(1) unfolding peek_block_def by blast
qed

theorem replay_durable_witness:
  "\<exists>rc' s'. replay_records 0 0 0
      (rev [(redo_lrd 1 0 2 BLOCK_SIZE, replicate BLOCK_SIZE 7), (redo_lrd 2 0 3 BLOCK_SIZE, replicate BLOCK_SIZE 9),
            (commit_lrd 1 0, [])]) (recovery_new logsuper_default) (MemoryStorage (mem_new 4)) = (Ok (), rc', s') \<and>
    fst (read_block s' 2) = Ok (replicate BLOCK_SIZE 7) \<and>
    fst (read_block s' 3) = fst (read_block (MemoryStorage (mem_new 4)) 3)"
proof -
  let ?rs = "[(redo_lrd 1 0 2 BLOCK_SIZE, replicate BLOCK_SIZE 7), (redo_lrd 2 0 3 BLOCK_SIZE, replicate BLOCK_SIZE 9),
    (commit_lrd 1 0, [])] :: (lrd \<times> bytes) list"
  let ?s = "MemoryStorage (mem_new 4)"
  have i: "committed_images ?rs = [(2, replicate BLOCK_SIZE 7)]" by simp
  have ok: "st_ok ?s" by (simp add: mem_new_ok block_size_defs)
  have pl: "plain_log ?s ?rs" unfolding plain_log_def i by simp
  have "distinct (map fst (committed_images ?rs))" unfolding i by simp
  from replay_durable [OF ok pl this] obtain rc' s' where
    "replay_records 0 0 0 (rev ?rs) (recovery_new logsuper_default) ?s = (Ok (), rc', s')"
    "\<And>b d. (b, d) \<in> set (committed_images ?rs) \<Longrightarrow> fst (read_block s' b) = Ok d"
    "\<And>b. b \<notin> fst ` set (committed_images ?rs) \<Longrightarrow> fst (read_block s' b) = fst (read_block ?s b)" by metis
  moreover have "(2, replicate BLOCK_SIZE 7) \<in> set (committed_images ?rs)" "3 \<notin> fst ` set (committed_images ?rs)"
    unfolding i by simp_all
  ultimately show ?thesis by metis
qed

text \<open>
  With several committed images of one block the oldest one is left on the device: the backward
  replay writes every image and the page tracker's summary never becomes complete, so the newest image,
  written first, is overwritten.
\<close>

theorem replay_oldest_wins:
  assumes "st_ok s" "plain_log s rs"
    "committed_images rs = xs @ (b, old) # ys @ (b, new) # zs" "b \<notin> fst ` set xs"
  shows "\<exists>rc' s'. replay_records start pos 0 (rev rs) (recovery_new ls) s = (Ok (), rc', s') \<and>
    fst (read_block s' b) = Ok old"
proof -
  from replay_records_images [OF assms(1,2)] obtain rc' s' where
    s': "replay_records start pos 0 (rev rs) (recovery_new ls) s = (Ok (), rc', s')"
    "\<And>b. peek_block s' b = (case map_of (committed_images rs) b of Some d \<Rightarrow> Ok d | None \<Rightarrow> peek_block s b)"
    by blast
  have "map_of xs b = None" using assms(4) by (simp add: map_of_eq_None_iff)
  then have "map_of (committed_images rs) b = Some old" by (simp add: assms(3) map_add_def)
  with s'(2) [of b] s'(1) show ?thesis by (auto simp: peek_block_def)
qed

theorem replay_oldest_wins_witness:
  "\<exists>rc' s'. replay_records 0 0 0
      (rev [(redo_lrd 1 0 2 BLOCK_SIZE, replicate BLOCK_SIZE 7), (commit_lrd 1 0, []),
            (redo_lrd 2 0 2 BLOCK_SIZE, replicate BLOCK_SIZE 9), (commit_lrd 2 0, [])])
      (recovery_new logsuper_default) (MemoryStorage (mem_new 4)) = (Ok (), rc', s') \<and>
    fst (read_block s' 2) = Ok (replicate BLOCK_SIZE 7)"
proof -
  let ?rs = "[(redo_lrd 1 0 2 BLOCK_SIZE, replicate BLOCK_SIZE 7), (commit_lrd 1 0, []),
            (redo_lrd 2 0 2 BLOCK_SIZE, replicate BLOCK_SIZE 9), (commit_lrd 2 0, [])] :: (lrd \<times> bytes) list"
  let ?s = "MemoryStorage (mem_new 4)"
  have i: "committed_images ?rs = [] @ (2, replicate BLOCK_SIZE 7) # [] @ (2, replicate BLOCK_SIZE 9) # []" by simp
  have ok: "st_ok ?s" by (simp add: mem_new_ok block_size_defs)
  have pl: "plain_log ?s ?rs" unfolding plain_log_def i by simp
  show ?thesis by (rule replay_oldest_wins [OF ok pl i]) simp
qed

section \<open>Filters\<close>

text \<open>
  A NoRedoPage record keeps older images of its page from being replayed only when the page has a
  tracker already, that is, when a newer image of it was replayed: for a page without a tracker the
  filter is built in a local variable that is dropped, and the tracker installed instead does not stop
  later writes.
\<close>

theorem noredo_filter_needs_tracker:
  "(\<forall>q d s. block_of q = block_of r \<longrightarrow> snd (snd (update_page (do_no_redo_page rc r) q d s)) = s)
     \<longleftrightarrow> pt_find (pages rc) (block_of r) \<noteq> None"
proof (cases "pt_find (pages rc) (block_of r)")
  case (Some t)
  then have "pt_find (pages (do_no_redo_page rc r)) (block_of r) = Some (set_no_redo t)"
    by (simp add: do_no_redo_page_def filter_page_def)
  then show ?thesis using Some by (auto simp: update_page_def is_complete_def set_no_redo_def)
next
  case None
  then have f: "pt_find (pages (do_no_redo_page rc r)) (block_of r) = Some (tracker_new (redopage_pxd r) 0 (aggregate_val r))"
    by (simp add: do_no_redo_page_def filter_page_def block_of_def)
  let ?q = "r\<lparr>redopage_type := write_u16 LOG_INODE\<rparr>" and ?s = "FaultInjector injector_new NullStorage"
  have "snd (snd (update_page (do_no_redo_page rc r) ?q [] ?s)) = snd (write_block ?s (block_of r) [])"
    using f
    by (auto simp: update_page_def is_complete_def tracker_new_def block_of_def redopage_type_val_def
        split: prod.splits res.splits)
  also have "\<dots> \<noteq> ?s" by (simp add: Let_def injector_new_def)
  finally show ?thesis using None by (metis (no_types, lifting) block_of_def lrd.select_convs(10) lrd.surjective lrd.update_convs(8))
qed

theorem noredo_filter_needs_tracker_witness:
  "\<exists>q d s. block_of q = block_of (redo_lrd 1 0 2 0) \<and>
     snd (snd (update_page (do_no_redo_page (recovery_new logsuper_default) (redo_lrd 1 0 2 0)) q d s)) \<noteq> s"
  using noredo_filter_needs_tracker [of "redo_lrd 1 0 2 0" "recovery_new logsuper_default"]
  by (simp add: recovery_new_def)

section \<open>Mount records\<close>

definition vol_clean :: "nat \<Rightarrow> recovery \<Rightarrow> bool" where
  "vol_clean a rc \<longleftrightarrow> a < length (volumes rc) \<and> rv_is_clean (volumes rc ! a)"

lemma vol_clean_simps [simp]:
  "vol_clean a (rc\<lparr>pages := p\<rparr>) = vol_clean a rc" "vol_clean a (rc\<lparr>commits := c\<rparr>) = vol_clean a rc"
  by (simp_all add: vol_clean_def)

lemma vol_clean_grow [simp]: "vol_clean a rc \<Longrightarrow> vol_clean a (grow_volumes rc n)"
  by (simp add: vol_clean_def grow_volumes_def nth_append)

lemma vol_clean_filter [simp]: "vol_clean a rc \<Longrightarrow> vol_clean a (filter_page rc p b g)"
  by (auto simp: filter_page_def split: option.split)

lemma vol_clean_handlers [simp]:
  assumes "vol_clean a rc"
  shows "vol_clean a (do_no_redo_page rc r)" "vol_clean a (do_no_redo_ino_ext rc r)"
    "vol_clean a (do_update_map rc r)"
proof -
  show "vol_clean a (do_no_redo_page rc r)" using assms by (simp add: do_no_redo_page_def)
  have "vol_clean a rc \<Longrightarrow> vol_clean a (fold (\<lambda>k rc. filter_page rc (f k) (g k) b) ks rc)" for f g b ks rc
    by (induction ks arbitrary: rc) auto
  then show "vol_clean a (do_no_redo_ino_ext rc r)" using assms by (simp add: do_no_redo_ino_ext_def Let_def)
  have "vol_clean a (mark_bmap rc r v)" for v
    using vol_clean_grow [OF assms, of "aggregate_val r"]
    by (cases "a = aggregate_val r") (auto simp: mark_bmap_def vol_clean_def rv_is_clean_def Let_def)
  then show "vol_clean a (do_update_map rc r)" by (simp add: do_update_map_def)
qed

lemma process_clean:
  assumes "vol_clean a rc" "aggregate_val r = a"
  shows "\<exists>rc'. process_record rc r d s = (Ok (), rc', s) \<and> vol_clean a rc'"
proof -
  have "do_after rc r d s = (Ok (), grow_volumes rc a, s)"
    using vol_clean_grow [OF assms(1), of a] assms(2) by (simp add: do_after_def vol_clean_def Let_def)
  moreover have "vol_clean a (rc\<lparr>volumes := (volumes rc)[a := v\<lparr>status := FM_CLEAN\<rparr>]\<rparr>)" for v
    using assms(1) by (simp add: vol_clean_def rv_is_clean_def)
  moreover have "grow_volumes rc a = rc" using assms(1) by (simp add: grow_volumes_def vol_clean_def)
  ultimately show ?thesis using assms by (simp add: process_record_def Let_def)
qed

text \<open>
  A mount record ends the replay for its aggregate: once the backward pass has met it, no older
  record of that aggregate changes the device, and the pass succeeds.
\<close>

theorem mount_ends_replay:
  assumes "is_mount m" "\<not> is_commit m" "\<forall>x\<in>set rs. aggregate_val (fst x) = aggregate_val m"
  shows "\<exists>rc'. replay_records start pos la ((m, d) # rs) rc s = (Ok (), rc', s)"
proof -
  let ?a = "aggregate_val m"
  have step: "\<exists>rc'. replay_records start pos la rs rc s = (Ok (), rc', s)" if "vol_clean ?a rc" for la rc
    using that assms(3)
  proof (induction rs arbitrary: la rc)
    case Nil
    then show ?case by simp
  next
    case (Cons x rs)
    obtain r e where x: "x = (r, e)" by (cases x)
    with Cons.prems obtain rc' where rc': "process_record rc r e s = (Ok (), rc', s)" "vol_clean ?a rc'"
      using process_clean by fastforce
    from Cons.IH [OF rc'(2)] Cons.prems(2) have "\<And>la. \<exists>rc'' . replay_records start pos la rs rc' s = (Ok (), rc'', s)"
      by simp
    with rc'(1) show ?case by (simp add: x Let_def)
  qed
  let ?g = "grow_volumes rc ?a"
  let ?rc = "?g\<lparr>volumes := (volumes ?g)[?a := (volumes ?g ! ?a)\<lparr>status := FM_CLEAN\<rparr>]\<rparr>"
  have "vol_clean ?a ?rc" by (simp add: vol_clean_def grow_volumes_def rv_is_clean_def)
  moreover have "process_record rc m d s = (Ok (), ?rc, s)" using assms(1,2) by (simp add: process_record_def Let_def)
  ultimately show ?thesis using step by (simp add: Let_def)
qed

theorem mount_ends_replay_witness:
  "\<exists>rc'. replay_records 0 0 0
      [(lrd_default\<lparr>lrd_type := write_u16 LOG_MOUNT\<rparr>, []), (commit_lrd 1 0, []), (redo_lrd 1 0 2 0, [])]
      (recovery_new logsuper_default) NullStorage = (Ok (), rc', NullStorage)"
  by (rule mount_ends_replay)
    (simp_all add: is_mount_def is_commit_def type_val_def log_type_defs commit_lrd_def redo_lrd_def aggregate_val_def lrd_default_def)

end
