(* ===== verification/Log_Scan.thy ===== *)
theory Log_Scan
  imports Recovery
begin

text \<open>
  The log between its writer and its reader: what a run of \<open>append_log_record\<close> and
  \<open>commit_transaction\<close> leaves in the buffer and on the log device, and that the scan of recovery reads
  exactly those records back.
\<close>

section \<open>Encoded records\<close>

definition enc :: "(lrd \<times> bytes) list \<Rightarrow> bytes" where
  "enc rs = concat (map (\<lambda>(r, d). lrd_bytes r @ d) rs)"

lemma enc_simps [simp]:
  "enc [] = []" "enc ((r, d) # rs) = lrd_bytes r @ d @ enc rs" "enc (rs @ qs) = enc rs @ enc qs"
  by (simp_all add: enc_def)

text \<open>
  A record the scan can step over: its payload has the length it declares, the length is a multiple of
  four, and the transaction id is not zero (four zero bytes end the log).
\<close>

definition scannable :: "lrd \<times> bytes \<Rightarrow> bool" where
  "scannable x \<longleftrightarrow> length_val (fst x) = length (snd x) \<and> length (snd x) mod 4 = 0 \<and> logtid_val (fst x) \<noteq> 0"

lemma rec_total_aligned: "n mod 4 = 0 \<Longrightarrow> rec_total n = 36 + n"
  by (auto simp: rec_total_def LRD_SIZE_def)

lemma logtid_nonzero: "logtid_val r \<noteq> 0 \<Longrightarrow> take 4 (lrd_bytes r) \<noteq> [0, 0, 0, 0]"
  by (cases "logtid r") (auto simp: lrd_bytes_def logtid_val_def)

lemma lrd_bytes_nonempty [simp]: "lrd_bytes r \<noteq> []"
  using length_lrd_bytes [of r] by fastforce

lemma take_slice: "n \<le> m \<Longrightarrow> take n (slice a (a + m) xs) = slice a (a + n) xs"
  by (simp add: slice_def min_def)

section \<open>Reading\<close>

lemma read_eof_ok_slice:
  "st_ok s \<Longrightarrow> a + n \<le> length (contents s) \<Longrightarrow>
   read_bytes_eof_ok s a n = (Ok (slice a (a + n) (contents s)), s)"
  by (simp add: read_bytes_eof_ok_def bdev.read_slice)

lemma next_forward_record:
  assumes s: "st_ok s" "lr_pos lr + 36 + length d \<le> length (contents s)"
    and at: "slice (lr_pos lr) (lr_pos lr + (36 + length d)) (contents s) = lrd_bytes r @ d"
    and sc: "scannable (r, d)" and lim: "lr_pos lr < log_limit lr"
  shows "next_forward lr s = (Ok (Some (r, d), lr\<lparr>lr_pos := lr_pos lr + 36 + length d\<rparr>), s)"
proof -
  let ?c = "contents s" and ?p = "lr_pos lr"
  have hd: "slice ?p (?p + 36) ?c = lrd_bytes r"
    using arg_cong [OF at, of "take 36"] by (simp add: take_slice)
  have "take 4 (lrd_bytes r) = slice ?p (?p + 4) ?c" using arg_cong [OF hd, of "take 4"] by (simp add: take_slice)
  with sc logtid_nonzero have pk: "slice ?p (?p + 4) ?c \<noteq> [0, 0, 0, 0]" by (auto simp: scannable_def)
  have dt: "slice (?p + 36) (?p + 36 + length d) ?c = d"
    using at slice_split [of ?p "?p + 36" "?p + (36 + length d)" ?c] hd by (simp add: add.assoc)
  have l: "length_val r = length d" "rec_total (length d) = 36 + length d"
    using sc by (auto simp: scannable_def rec_total_aligned)
  show ?thesis
    using s lim pk dt
    by (simp add: next_forward_def LRD_SIZE_def read_eof_ok_slice bdev.read_slice hd l Let_def add.assoc)
qed

lemma next_forward_end:
  assumes "st_ok s" "lr_pos lr + 4 \<le> length (contents s)" "slice (lr_pos lr) (lr_pos lr + 4) (contents s) = [0, 0, 0, 0]"
  shows "next_forward lr s = (Ok (None, lr), s)"
  using assms by (simp add: next_forward_def read_eof_ok_slice)

lemma scan_log_enc:
  assumes "st_ok s" "lr_pos lr + length (enc rs) + 4 \<le> length (contents s)"
    "slice (lr_pos lr) (lr_pos lr + length (enc rs) + 4) (contents s) = enc rs @ [0, 0, 0, 0]"
    "\<forall>x\<in>set rs. scannable x" "lr_pos lr + length (enc rs) \<le> log_limit lr"
    "lr_log_data_start lr \<le> lr_pos lr" "lr_pos lr - lr_log_data_start lr + length (enc rs) \<le> log_end"
  shows "scan_log lr log_end s acc = (Ok (acc @ rs, lr\<lparr>lr_pos := lr_pos lr + length (enc rs)\<rparr>), s)"
  using assms
proof (induction rs arbitrary: lr acc)
  case Nil
  then show ?case by (subst scan_log.simps) (simp add: next_forward_end)
next
  case (Cons x rs)
  obtain r d where x: "x = (r, d)" by (cases x)
  let ?c = "contents s" and ?p = "lr_pos lr"
  let ?lr = "lr\<lparr>lr_pos := ?p + 36 + length d\<rparr>"
  let ?q = "?p + (36 + length d)"
  have sp: "slice ?p ?q ?c @ slice ?q (?q + length (enc rs) + 4) ?c = (lrd_bytes r @ d) @ enc rs @ [0, 0, 0, 0]"
    using Cons.prems(3) by (subst slice_split [symmetric]) (simp_all add: x add.assoc)
  have "length (slice ?p ?q ?c) = length (lrd_bytes r @ d)" using Cons.prems(2) by (simp add: x)
  with sp have sl: "slice ?p ?q ?c = lrd_bytes r @ d"
    "slice ?q (?q + length (enc rs) + 4) ?c = enc rs @ [0, 0, 0, 0]" by (metis append_eq_append_conv)+
  have nf: "next_forward lr s = (Ok (Some (r, d), ?lr), s)"
    using Cons.prems sl(1) by (intro next_forward_record) (auto simp: x)
  have "log_limit ?lr = log_limit lr" by (simp add: log_limit_def)
  then have "scan_log ?lr log_end s (acc @ [x]) =
      (Ok ((acc @ [x]) @ rs, ?lr\<lparr>lr_pos := lr_pos ?lr + length (enc rs)\<rparr>), s)"
    using Cons.prems sl(2) by (intro Cons.IH) (auto simp: x add.assoc)
  with nf Cons.prems(6,7) show ?case by (subst scan_log.simps) (auto simp: x add.assoc)
qed

section \<open>Writing\<close>

text \<open>Calls of the log manager's two writers, and the records they are to leave in the log.\<close>

datatype log_op = Append nat nat bytes | Commit nat

primrec run_op :: "log_op \<Rightarrow> logmgr \<Rightarrow> storage \<Rightarrow> unit res \<times> (logmgr \<times> storage)" where
  "run_op (Append t b d) m s = append_log_record t b d m s"
| "run_op (Commit t) m s = commit_transaction t m s"

primrec run_ops :: "log_op list \<Rightarrow> logmgr \<Rightarrow> storage \<Rightarrow> unit res \<times> (logmgr \<times> storage)" where
  "run_ops [] m s = (Ok (), (m, s))"
| "run_ops (p # ps) m s = st_bind (run_op p m s) (\<lambda>_ (m', s'). run_ops ps m' s')"

text \<open>\<open>prev\<close> is the offset of the previous record of the transaction, \<open>off\<close> the end of the log.\<close>

fun op_records :: "nat \<Rightarrow> nat \<Rightarrow> log_op list \<Rightarrow> (lrd \<times> bytes) list" where
  "op_records prev off [] = []"
| "op_records prev off (Append t b d # ps) =
     (redo_lrd t prev b (length d), d) # op_records off (off + 36 + length d) ps"
| "op_records prev off (Commit t # ps) = (commit_lrd t prev, []) # op_records 0 (off + 36) ps"

fun op_ok :: "log_op \<Rightarrow> bool" where
  "op_ok (Append t b d) \<longleftrightarrow> length d mod 4 = 0 \<and> length d < 2 ^ 16 \<and> (word_of_nat t :: 32 word) \<noteq> 0"
| "op_ok (Commit t) \<longleftrightarrow> (word_of_nat t :: 32 word) \<noteq> 0"

lemma op_records_scannable: "\<forall>p\<in>set ps. op_ok p \<Longrightarrow> \<forall>x\<in>set (op_records prev off ps). scannable x"
  by (induction prev off ps rule: op_records.induct) (auto simp: scannable_def)

text \<open>
  The state of the log manager and the log device while the records so far fit the buffer: the buffer
  holds the records and zeros behind them.
\<close>

definition ls_wf :: "logsuper \<Rightarrow> bool" where
  "ls_wf l \<longleftrightarrow> length (ls_uuid l) = 16 \<and> length (ls_label l) = 16 \<and> (\<forall>u\<in>set (ls_active l). length u = 16)"

definition log_inv :: "logsuper \<Rightarrow> nat \<Rightarrow> nat \<Rightarrow> nat \<Rightarrow> (lrd \<times> bytes) list \<Rightarrow> logmgr \<Rightarrow> storage \<Rightarrow> bool" where
  "log_inv ls base bs prev rs m s \<longleftrightarrow>
     log_buffer m = enc rs @ replicate (LOG_BUFFER_SIZE - length (enc rs)) 0 \<and>
     write_offset m = bs + length (enc rs) \<and> length (enc rs) < LOG_BUFFER_SIZE \<and>
     bs mod LOG_BUFFER_SIZE = 0 \<and> bs + LOG_BUFFER_SIZE < 2 ^ 32 \<and>
     log_base m = base \<and> (\<exists>e. lm_logsuper m = ls\<lparr>ls_end := e\<rparr>) \<and> prev_record_offset m = prev \<and>
     st_ok s \<and> base + 2 * BLOCK_SIZE + bs + LOG_BUFFER_SIZE \<le> length (contents s)"

lemma put_active_length:
  "(\<forall>u\<in>set us. length u = 16) \<Longrightarrow> length (put_active i us buf) = length buf"
  by (induction i us buf rule: put_active.induct) (auto simp: Let_def)

lemma length_logsuper_bytes: "ls_wf l \<Longrightarrow> length (logsuper_bytes l) = LOGPSIZE"
  by (simp add: logsuper_bytes_def put_active_length ls_wf_def logsuper_head_def LOGPSIZE_def)

lemmas log_size_defs = LOG_BUFFER_SIZE_def LOGPSIZE_def LRD_SIZE_def block_size_defs

lemma splice_zeros:
  "length xs + length ys \<le> n \<Longrightarrow>
   splice (length xs) ys (xs @ replicate (n - length xs) 0) = xs @ ys @ replicate (n - length (xs @ ys)) 0"
  by (simp add: splice_def)

lemma log_inv_mod:
  "log_inv ls base bs prev rs m s \<Longrightarrow> write_offset m mod LOG_BUFFER_SIZE = length (enc rs)"
  by (metis add_0 log_inv_def mod_add_left_eq mod_less)

lemma put_record_inv:
  assumes "log_inv ls base bs prev rs m s" "length (enc (rs @ [(r, d)])) < LOG_BUFFER_SIZE"
  shows "\<exists>m'. put_record r d m s = (Ok (), (m', s)) \<and> log_inv ls base bs prev (rs @ [(r, d)]) m' s \<and> buffer_dirty m'"
proof -
  have "write_offset m mod LOG_BUFFER_SIZE = length (enc rs)" by (rule log_inv_mod [OF assms(1)])
  with assms splice_zeros [of "enc rs" "lrd_bytes r @ d" LOG_BUFFER_SIZE] show ?thesis
    by (auto simp: put_record_def log_inv_def Let_def LRD_SIZE_def)
qed

lemma make_room_fits:
  "log_inv ls base bs prev rs m s \<Longrightarrow> length (enc rs) + n \<le> LOG_BUFFER_SIZE \<Longrightarrow> make_room n m s = (Ok (), (m, s))"
  by (simp add: make_room_def log_inv_mod)

lemma append_inv:
  assumes "log_inv ls base bs prev rs m s" "length (enc rs) + 36 + length d < LOG_BUFFER_SIZE"
  shows "\<exists>m'. append_log_record t b d m s = (Ok (), (m', s)) \<and> buffer_dirty m' \<and>
    log_inv ls base bs (bs + length (enc rs)) (rs @ [(redo_lrd t prev b (length d), d)]) m' s"
proof -
  let ?r = "redo_lrd t prev b (length d)"
  have mr: "make_room (LRD_SIZE + length d) m s = (Ok (), (m, s))"
    by (rule make_room_fits [OF assms(1)]) (use assms(2) in \<open>simp add: LRD_SIZE_def\<close>)
  have pw: "prev_record_offset m = prev" "write_offset m = bs + length (enc rs)" using assms(1) by (auto simp: log_inv_def)
  from put_record_inv [OF assms(1), of ?r d] assms(2) obtain m' where
    m': "put_record ?r d m s = (Ok (), (m', s))" "log_inv ls base bs prev (rs @ [(?r, d)]) m' s" "buffer_dirty m'" by auto
  have "log_inv ls base bs (bs + length (enc rs)) (rs @ [(?r, d)]) (m'\<lparr>prev_record_offset := bs + length (enc rs)\<rparr>) s"
    using m'(2) by (simp add: log_inv_def)
  with mr m'(1,3) pw show ?thesis by (simp add: append_log_record_def)
qed

text \<open>Reading the log superblock back: all but the list of active file systems, which the reader leaves out.\<close>

lemma slice_put_active:
  assumes "\<forall>u\<in>set us. length u = 16" "c \<le> 68 + i * 16"
  shows "slice b c (put_active i us buf) = slice b c buf"
  using assms by (induction i us buf rule: put_active.induct) (auto simp: Let_def slice_splice_other)

lemma parse_logsuper_bytes:
  assumes "ls_wf l"
  shows "parse_logsuper (logsuper_bytes l) = l\<lparr>ls_active := ls_active logsuper_default\<rparr>"
proof -
  let ?X = "logsuper_head l @ ls_uuid l @ ls_label l"
  have X: "length ?X = 68" using assms by (simp add: ls_wf_def logsuper_head_def)
  have sl: "slice a b (logsuper_bytes l) = slice a b ?X" if "b \<le> 68" for a b
  proof -
    have "slice a b (logsuper_bytes l) = slice a b (splice 0 ?X (replicate LOGPSIZE 0))"
      using assms that unfolding logsuper_bytes_def by (intro slice_put_active) (auto simp: ls_wf_def)
    also have "\<dots> = slice a b ?X" using that X by (simp add: splice_def slice_append_left del: append_assoc)
    finally show ?thesis .
  qed
  have f: "field4 (logsuper_bytes l) a = arr4_of (slice a (a + 4) ?X)" if "a + 4 \<le> 68" for a
    using that by (simp add: field4_def sl length_logsuper_bytes [OF assms] LOGPSIZE_def del: append_assoc)
  show ?thesis
    using assms
    by (simp add: parse_logsuper_def f sl length_logsuper_bytes LOGPSIZE_def)
      (simp add: logsuper_head_def layout_select ls_wf_def logsuper_default_def)
qed

text \<open>The flush copies whole buffer pages to the device, and the superblock in front of the data.\<close>

lemma write_pages_append:
  "write_pages m s p (is @ js) = st_bind (write_pages m s p is) (\<lambda>_ s'. write_pages m s' p js)"
proof (induction "is" arbitrary: s)
  case Nil
  then show ?case by simp
next
  case (Cons i "is")
  show ?case by (simp add: Let_def Cons.IH st_bind_assoc split: res.split)
qed

lemma write_pages_device:
  assumes "st_ok s" "k * LOGPSIZE \<le> length (log_buffer m)" "D = data_start m + p * LOGPSIZE"
    "D + k * LOGPSIZE \<le> length (contents s)"
  shows "\<exists>s'. write_pages m s p [0..<k] = (Ok (), s') \<and> st_ok s' \<and> length (contents s') = length (contents s) \<and>
    slice D (D + k * LOGPSIZE) (contents s') = slice 0 (k * LOGPSIZE) (log_buffer m) \<and>
    (\<forall>b c. c \<le> D \<longrightarrow> slice b c (contents s') = slice b c (contents s))"
  using assms(1,2,4)
proof (induction k)
  case 0
  then show ?case by simp
next
  case (Suc k)
  let ?P = LOGPSIZE
  from Suc obtain s1 where s1: "write_pages m s p [0..<k] = (Ok (), s1)" "st_ok s1"
    "length (contents s1) = length (contents s)"
    "slice D (D + k * ?P) (contents s1) = slice 0 (k * ?P) (log_buffer m)"
    "\<And>b c. c \<le> D \<Longrightarrow> slice b c (contents s1) = slice b c (contents s)" by auto
  let ?d = "slice (k * ?P) (k * ?P + ?P) (log_buffer m)"
  have ld: "length ?d = ?P" using Suc.prems(2) by simp
  have off: "page_offset m (p + k) = D + k * ?P"
    by (simp add: page_offset_def data_start_def assms(3) algebra_simps)
  have fit: "D + k * ?P + length ?d \<le> length (contents s1)" using Suc.prems(3) s1(3) ld by simp
  from bdev.write_splice [OF s1(2) fit] obtain s2 where
    s2: "write_bytes s1 (D + k * ?P) ?d = (Ok (), s2)" by blast
  note k = bdev.write_keeps_slice [OF s1(2) fit s2, of "D + k * ?P" D, unfolded ld, simplified]
  have "write_pages m s p [0..<Suc k] = (Ok (), s2)"
    using s1(1) s2 Suc.prems(2) by (simp add: write_pages_append Let_def lm_write_page_def off min_def)
  moreover have "slice D (D + Suc k * ?P) (contents s2) = slice 0 (Suc k * ?P) (log_buffer m)"
    using k s1(4) slice_split [of D "D + k * ?P" "D + Suc k * ?P" "contents s2"]
      slice_split [of 0 "k * ?P" "Suc k * ?P" "log_buffer m"] by (simp add: add.commute add.left_commute)
  moreover have "slice b c (contents s2) = slice b c (contents s)" if "c \<le> D" for b c
    using bdev.write_keeps_slice [OF s1(2) fit s2, of c b] that s1(5) by simp
  ultimately show ?case using k s1(3) by auto
qed

definition log_pages_used :: "(lrd \<times> bytes) list \<Rightarrow> nat" where
  "log_pages_used rs = (length (enc rs) + LOGPSIZE - 1) div LOGPSIZE"

text \<open>The device holds the flushed records, and the superblock in memory the end of the log.\<close>

definition flushed :: "logsuper \<Rightarrow> nat \<Rightarrow> nat \<Rightarrow> (lrd \<times> bytes) list \<Rightarrow> logmgr \<Rightarrow> storage \<Rightarrow> bool" where
  "flushed ls base bs rs m s \<longleftrightarrow>
     lm_logsuper m = ls\<lparr>ls_end := write_u32 (word_of_nat (bs + length (enc rs)))\<rparr> \<and>
     slice (base + 2 * BLOCK_SIZE + bs) (base + 2 * BLOCK_SIZE + bs + log_pages_used rs * LOGPSIZE) (contents s) =
       slice 0 (log_pages_used rs * LOGPSIZE) (log_buffer m) \<and>
     slice (base + BLOCK_SIZE) (base + BLOCK_SIZE + BLOCK_SIZE) (contents s) = logsuper_bytes (lm_logsuper m)"

lemma log_pages_used_le: "length (enc rs) < LOG_BUFFER_SIZE \<Longrightarrow> log_pages_used rs * LOGPSIZE \<le> LOG_BUFFER_SIZE"
  by (simp add: log_pages_used_def log_size_defs)

lemma buffered_pages_inv:
  assumes "log_inv ls base bs prev rs m s"
  shows "buffered_pages m = (bs div LOGPSIZE, log_pages_used rs)"
proof -
  have "write_offset m - write_offset m mod LOG_BUFFER_SIZE = bs" "write_offset m - bs = length (enc rs)"
    using assms log_inv_mod [OF assms] by (auto simp: log_inv_def)
  moreover have "bs div LOGPSIZE mod 2 ^ 32 = bs div LOGPSIZE"
    using assms by (intro mod_less) (auto simp: log_inv_def log_size_defs)
  ultimately show ?thesis by (simp add: buffered_pages_def log_pages_used_def Let_def)
qed

lemma flush_inv:
  assumes inv: "log_inv ls base bs prev rs m s" and d: "buffer_dirty m" "rs \<noteq> []" and wf: "ls_wf ls"
  shows "\<exists>m' s'. flush_journal m s = (Ok (), (m', s')) \<and> log_inv ls base bs prev rs m' s' \<and> flushed ls base bs rs m' s' \<and>
    length (contents s') = length (contents s) \<and> log_buffer m' = log_buffer m \<and>
    (\<forall>b c. base + 2 * BLOCK_SIZE \<le> b \<and> c \<le> base + 2 * BLOCK_SIZE + bs \<longrightarrow>
       slice b c (contents s') = slice b c (contents s))"
proof -
  let ?k = "log_pages_used rs" and ?D = "base + 2 * BLOCK_SIZE + bs"
  let ?m = "m\<lparr>lm_logsuper := ls_set_end (lm_logsuper m) (write_offset m)\<rparr>"
  have w: "write_offset m = bs + length (enc rs)" "length (enc rs) < LOG_BUFFER_SIZE" "log_base m = base"
    "length (log_buffer m) = LOG_BUFFER_SIZE" "st_ok s" "?D + LOG_BUFFER_SIZE \<le> length (contents s)"
    using inv by (auto simp: log_inv_def)
  have pos: "0 < length (enc rs)" using d(2) by (cases rs) auto
  have "bs = bs div LOGPSIZE * LOGPSIZE" using inv by (auto simp: log_inv_def log_size_defs)
  then have D: "?D = data_start m + bs div LOGPSIZE * LOGPSIZE" using w(3) by (simp add: data_start_def)
  have kP: "?k * LOGPSIZE \<le> LOG_BUFFER_SIZE" by (rule log_pages_used_le [OF w(2)])
  have "?k * LOGPSIZE \<le> length (log_buffer m)" "?D + ?k * LOGPSIZE \<le> length (contents s)" using kP w(4,6) by auto
  from write_pages_device [OF w(5) this(1) D this(2)] obtain s1 where
    s1: "write_pages m s (bs div LOGPSIZE) [0..<?k] = (Ok (), s1)" "st_ok s1" "length (contents s1) = length (contents s)"
    "slice ?D (?D + ?k * LOGPSIZE) (contents s1) = slice 0 (?k * LOGPSIZE) (log_buffer m)"
    "\<And>b c. c \<le> ?D \<Longrightarrow> slice b c (contents s1) = slice b c (contents s)" by blast
  obtain e where e: "lm_logsuper m = ls\<lparr>ls_end := e\<rparr>" using inv by (auto simp: log_inv_def)
  have lb: "length (logsuper_bytes (lm_logsuper ?m)) = LOGPSIZE"
    using wf by (intro length_logsuper_bytes) (simp add: e ls_wf_def ls_set_end_def)
  then have fit: "base + BLOCK_SIZE + length (logsuper_bytes (lm_logsuper ?m)) \<le> length (contents s1)"
    using w(6) s1(3) by (simp add: log_size_defs)
  from bdev.write_splice [OF s1(2) fit] obtain s2 where
    s2: "write_bytes s1 (base + BLOCK_SIZE) (logsuper_bytes (lm_logsuper ?m)) = (Ok (), s2)" by blast
  have P: "LOGPSIZE = BLOCK_SIZE" by (simp add: log_size_defs)
  have k: "st_ok s2 \<and> length (contents s2) = length (contents s1) \<and>
      slice (base + BLOCK_SIZE) (base + BLOCK_SIZE + BLOCK_SIZE) (contents s2) = logsuper_bytes (lm_logsuper ?m) \<and>
      slice b c (contents s2) = slice b c (contents s1)" if "base + 2 * BLOCK_SIZE \<le> b" for b c
  proof -
    have "base + BLOCK_SIZE + length (logsuper_bytes (lm_logsuper ?m)) \<le> b" unfolding lb P using that by simp
    then show ?thesis using bdev.write_keeps_slice [OF s1(2) fit s2, of c b] unfolding lb P by blast
  qed
  have "flush_journal m s = (Ok (), (?m, s2))"
    using d w pos buffered_pages_inv [OF inv] s1(1,2) s2 by (simp add: flush_journal_def write_super_def Let_def)
  moreover have "log_inv ls base bs prev rs ?m s2"
    using inv k [of ?D] s1(3) by (auto simp: log_inv_def e ls_set_end_def)
  moreover have "flushed ls base bs rs ?m s2"
    using k [of ?D "?D + ?k * LOGPSIZE"] s1(4) w(1) by (simp add: flushed_def e ls_set_end_def)
  ultimately show ?thesis using k [of ?D] k s1(3,5) by auto
qed

lemma commit_inv:
  assumes "log_inv ls base bs prev rs m s" "length (enc rs) + 36 < LOG_BUFFER_SIZE" "ls_wf ls"
  shows "\<exists>m' s'. commit_transaction t m s = (Ok (), (m', s')) \<and>
    log_inv ls base bs 0 (rs @ [(commit_lrd t prev, [])]) m' s' \<and> flushed ls base bs (rs @ [(commit_lrd t prev, [])]) m' s' \<and>
    length (contents s') = length (contents s) \<and>
    (\<forall>b c. base + 2 * BLOCK_SIZE \<le> b \<and> c \<le> base + 2 * BLOCK_SIZE + bs \<longrightarrow>
       slice b c (contents s') = slice b c (contents s))"
proof -
  let ?rs = "rs @ [(commit_lrd t prev, [])]"
  have mr: "make_room LRD_SIZE m s = (Ok (), (m, s))"
    by (rule make_room_fits [OF assms(1)]) (use assms(2) in \<open>simp add: LRD_SIZE_def\<close>)
  have pw: "prev_record_offset m = prev" using assms(1) by (auto simp: log_inv_def)
  from put_record_inv [OF assms(1), of "commit_lrd t prev" "[]"] assms(2) obtain m1 where
    m1: "put_record (commit_lrd t prev) [] m s = (Ok (), (m1, s))" "log_inv ls base bs prev ?rs m1 s" "buffer_dirty m1"
    by auto
  from flush_inv [OF m1(2,3) _ assms(3)] obtain m2 s2 where
    m2: "flush_journal m1 s = (Ok (), (m2, s2))" "log_inv ls base bs prev ?rs m2 s2" "flushed ls base bs ?rs m2 s2"
    "length (contents s2) = length (contents s)"
    "\<And>b c. base + 2 * BLOCK_SIZE \<le> b \<Longrightarrow> c \<le> base + 2 * BLOCK_SIZE + bs \<Longrightarrow>
       slice b c (contents s2) = slice b c (contents s)" by blast
  have "log_inv ls base bs 0 ?rs (m2\<lparr>prev_record_offset := 0\<rparr>) s2" "flushed ls base bs ?rs (m2\<lparr>prev_record_offset := 0\<rparr>) s2"
    using m2(2,3) by (simp_all add: log_inv_def flushed_def)
  with mr m1(1) m2(1,4,5) pw show ?thesis by (simp add: commit_transaction_def)
qed

lemma run_ops_inv:
  assumes "log_inv ls base 0 prev rs m s" "ls_wf ls"
    "length (enc rs) + length (enc (op_records prev (length (enc rs)) ps)) < LOG_BUFFER_SIZE"
  shows "\<exists>m' s'. run_ops ps m s = (Ok (), (m', s')) \<and> length (contents s') = length (contents s) \<and>
    (\<exists>prev'. log_inv ls base 0 prev' (rs @ op_records prev (length (enc rs)) ps) m' s') \<and>
    ((\<exists>t. ps \<noteq> [] \<and> last ps = Commit t) \<longrightarrow> flushed ls base 0 (rs @ op_records prev (length (enc rs)) ps) m' s')"
  using assms
proof (induction ps arbitrary: prev rs m s)
  case Nil
  then show ?case by auto
next
  case (Cons p ps)
  define prev' where "prev' = (case p of Append t b d \<Rightarrow> length (enc rs) | Commit t \<Rightarrow> 0)"
  define x where "x = (case p of Append t b d \<Rightarrow> (redo_lrd t prev b (length d), d) | Commit t \<Rightarrow> (commit_lrd t prev, []))"
  have orr: "op_records prev (length (enc rs)) (p # ps) = x # op_records prev' (length (enc (rs @ [x]))) ps"
    by (cases p) (simp_all add: prev'_def x_def add.assoc)
  have "\<exists>m1 s1. run_op p m s = (Ok (), (m1, s1)) \<and> length (contents s1) = length (contents s) \<and> log_inv ls base 0 prev' (rs @ [x]) m1 s1 \<and>
      ((\<exists>t. p = Commit t) \<longrightarrow> flushed ls base 0 (rs @ [x]) m1 s1)"
  proof (cases p)
    case (Append t b d)
    with Cons.prems(3) have "length (enc rs) + 36 + length d < LOG_BUFFER_SIZE" by simp
    from append_inv [OF Cons.prems(1) this, of t b] Append show ?thesis by (auto simp: prev'_def x_def)
  next
    case (Commit t)
    with Cons.prems(3) have "length (enc rs) + 36 < LOG_BUFFER_SIZE" by simp
    from commit_inv [OF Cons.prems(1) this Cons.prems(2), of t] Commit show ?thesis by (auto simp: prev'_def x_def)
  qed
  then obtain m1 s1 where m1: "run_op p m s = (Ok (), (m1, s1))" "log_inv ls base 0 prev' (rs @ [x]) m1 s1"
    "(\<exists>t. p = Commit t) \<longrightarrow> flushed ls base 0 (rs @ [x]) m1 s1" "length (contents s1) = length (contents s)" by blast
  have sz: "length (enc (rs @ [x])) + length (enc (op_records prev' (length (enc (rs @ [x]))) ps)) < LOG_BUFFER_SIZE"
    using Cons.prems(3) unfolding orr by (simp add: enc_def add.assoc)
  from Cons.IH [OF m1(2) Cons.prems(2) sz] obtain m2 s2 where
    m2: "run_ops ps m1 s1 = (Ok (), (m2, s2))"
    "\<exists>prev''. log_inv ls base 0 prev'' ((rs @ [x]) @ op_records prev' (length (enc (rs @ [x]))) ps) m2 s2"
    "(\<exists>t. ps \<noteq> [] \<and> last ps = Commit t) \<longrightarrow>
       flushed ls base 0 ((rs @ [x]) @ op_records prev' (length (enc (rs @ [x]))) ps) m2 s2" "length (contents s2) = length (contents s1)" by blast
  have "flushed ls base 0 (rs @ op_records prev (length (enc rs)) (p # ps)) m2 s2" if "last (p # ps) = Commit t" for t
    using that m1(3) m2(1,3) unfolding orr by (cases ps) auto
  with m1(1,4) m2(1,2,4) show ?case unfolding orr by auto
qed

section \<open>Writer and reader agree\<close>

lemma enc_length_mod4: "\<forall>x\<in>set rs. scannable x \<Longrightarrow> length (enc rs) mod 4 = 0"
  by (induction rs) (auto simp: enc_def scannable_def mod_add_eq [symmetric])

lemma page_slack:
  fixes n :: nat
  assumes "n mod 4 = 0" "n mod 4096 \<noteq> 0"
  shows "n + 4 \<le> (n + 4095) div 4096 * 4096"
proof -
  define a b where "a = n div 4096" and "b = n mod 4096"
  have n: "n = a * 4096 + b" by (simp add: a_def b_def)
  have "b mod 4 = 0" using assms(1) mod_mod_cancel [of 4 4096 n] by (simp add: b_def)
  moreover have "b < 4096" "b \<noteq> 0" using assms(2) by (simp_all add: b_def)
  ultimately have "b + 4 \<le> 4096" by presburger
  moreover have "(n + 4095) div 4096 = a + 1" using \<open>b < 4096\<close> \<open>b \<noteq> 0\<close> by (simp add: n div_nat_eqI)
  ultimately show ?thesis by (simp add: n)
qed

text \<open>The superblock that is found on the device.\<close>

definition found_super :: "logmgr \<Rightarrow> logsuper" where
  "found_super m = lm_logsuper m\<lparr>ls_active := ls_active logsuper_default\<rparr>"

lemma flushed_super:
  assumes "log_inv ls base bs prev rs m s" "flushed ls base bs rs m s" "ls_wf ls"
  shows "lm_read_super s base = (Ok (found_super m), s)" "ls_state (found_super m) = ls_state ls"
    "ls_page_size (found_super m) = ls_page_size ls" "ls_end_val (found_super m) = bs + length (enc rs)"
proof -
  have l: "lm_logsuper m = ls\<lparr>ls_end := write_u32 (word_of_nat (bs + length (enc rs)))\<rparr>"
    using assms(2) by (simp add: flushed_def)
  have w: "st_ok s" "base + 2 * BLOCK_SIZE + bs + LOG_BUFFER_SIZE \<le> length (contents s)"
    "bs + length (enc rs) < 2 ^ 32"
    using assms(1) by (auto simp: log_inv_def)
  show "lm_read_super s base = (Ok (found_super m), s)"
    using assms(2,3) w parse_logsuper_bytes [of "lm_logsuper m"]
    by (simp add: lm_read_super_def bdev.read_slice flushed_def ls_wf_def found_super_def)
  show "ls_end_val (found_super m) = bs + length (enc rs)"
    using w(3) by (simp add: found_super_def l ls_end_val_def unsigned_of_nat take_bit_nat_eq_self_iff flip: of_nat_add)
  show "ls_state (found_super m) = ls_state ls" "ls_page_size (found_super m) = ls_page_size ls"
    by (simp_all add: found_super_def l ls_page_size_def)
qed

lemma flushed_slice:
  assumes inv: "log_inv ls base bs prev rs m s" and fl: "flushed ls base bs rs m s"
    and sc: "\<forall>x\<in>set rs. scannable x" and ne: "length (enc rs) mod LOGPSIZE \<noteq> 0"
  shows "slice (base + 2 * BLOCK_SIZE + bs) (base + 2 * BLOCK_SIZE + bs + length (enc rs) + 4) (contents s) =
      enc rs @ [0, 0, 0, 0] \<and> length (enc rs) + 4 \<le> LOG_BUFFER_SIZE"
proof -
  let ?n = "length (enc rs)" and ?k = "log_pages_used rs" and ?D = "base + 2 * BLOCK_SIZE + bs"
  have w: "?n < LOG_BUFFER_SIZE" "log_buffer m = enc rs @ replicate (LOG_BUFFER_SIZE - ?n) 0"
    using inv by (auto simp: log_inv_def)
  have n4: "?n + 4 \<le> ?k * LOGPSIZE"
    using page_slack [OF enc_length_mod4 [OF sc]] ne by (simp add: log_pages_used_def LOGPSIZE_def add.commute)
  note kP = log_pages_used_le [OF w(1)]
  have "slice ?D (?D + (?n + 4)) (contents s) = slice 0 (?n + 4) (slice ?D (?D + ?k * LOGPSIZE) (contents s))"
    using n4 by (simp add: slice_slice)
  also have "\<dots> = slice 0 (?n + 4) (log_buffer m)" using fl n4 by (simp add: flushed_def slice_slice)
  also have "\<dots> = enc rs @ [0, 0, 0, 0]"
    using n4 kP unfolding w(2) by (simp add: slice_def numeral_eq_Suc)
  finally show ?thesis using n4 kP by (simp add: add.assoc)
qed

lemma scan_device:
  assumes "st_ok s" "D + length (enc rs) + 4 \<le> length (contents s)"
    "slice D (D + length (enc rs) + 4) (contents s) = enc rs @ [0, 0, 0, 0]" "\<forall>x\<in>set rs. scannable x" "rs \<noteq> []"
    "length (enc rs) \<le> ls_end_val l" "length (enc rs) \<le> ls_page_size l * LOGPSIZE"
  shows "\<exists>reader. scan_phase (recovery_new l) D s = (Ok (rs, reader), s)"
proof -
  let ?lr = "(reader_new l D)\<lparr>lr_pos := D\<rparr>"
  have "0 < length (enc rs)" using assms(5) by (cases rs) auto
  moreover have "scan_log ?lr (ls_end_val l) s [] = (Ok ([] @ rs, ?lr\<lparr>lr_pos := lr_pos ?lr + length (enc rs)\<rparr>), s)"
    using assms by (intro scan_log_enc) (auto simp: reader_new_def log_limit_def)
  ultimately show ?thesis using assms(6) by (auto simp: scan_phase_def recovery_new_def Let_def)
qed

lemma log_inv_new:
  assumes "st_ok s" "base + 2 * BLOCK_SIZE + LOG_BUFFER_SIZE \<le> length (contents s)"
  shows "log_inv ls base 0 0 [] (logmgr_new ls base) s"
proof -
  have "\<exists>e. lm_logsuper (logmgr_new ls base) = ls\<lparr>ls_end := e\<rparr>"
    by (rule exI [of _ "ls_end ls"]) (simp add: logmgr_new_def)
  moreover have "0 < LOG_BUFFER_SIZE" "LOG_BUFFER_SIZE < 2 ^ 32" by (simp_all add: log_size_defs)
  ultimately show ?thesis using assms unfolding log_inv_def by (simp add: logmgr_new_def del: ex_simps)
qed

text \<open>A run of the log manager that fits its buffer and ends with a commit, on a healthy log device.\<close>

definition fits_buffer :: "logsuper \<Rightarrow> nat \<Rightarrow> log_op list \<Rightarrow> storage \<Rightarrow> bool" where
  "fits_buffer ls base ops s \<longleftrightarrow>
     (let n = length (enc (op_records 0 0 ops)) in
      st_ok s \<and> base + 2 * BLOCK_SIZE + LOG_BUFFER_SIZE \<le> length (contents s) \<and> ls_wf ls \<and>
      (\<forall>p\<in>set ops. op_ok p) \<and> n < LOG_BUFFER_SIZE \<and> n mod LOGPSIZE \<noteq> 0 \<and> n \<le> ls_page_size ls * LOGPSIZE)"

text \<open>Two devices hold the same log: the same superblock and the same first buffer.\<close>

definition same_log :: "nat \<Rightarrow> storage \<Rightarrow> storage \<Rightarrow> bool" where
  "same_log base s u \<longleftrightarrow> st_ok u \<and> base + 2 * BLOCK_SIZE + LOG_BUFFER_SIZE \<le> length (contents u) \<and>
     slice (base + BLOCK_SIZE) (base + 2 * BLOCK_SIZE + LOG_BUFFER_SIZE) (contents u) =
     slice (base + BLOCK_SIZE) (base + 2 * BLOCK_SIZE + LOG_BUFFER_SIZE) (contents s)"

lemma same_log_slice:
  assumes "same_log base s u" "base + BLOCK_SIZE \<le> a" "b \<le> base + 2 * BLOCK_SIZE + LOG_BUFFER_SIZE" "a \<le> b"
  shows "slice a b (contents u) = slice a b (contents s)"
proof -
  let ?l = "base + BLOCK_SIZE" and ?h = "base + 2 * BLOCK_SIZE + LOG_BUFFER_SIZE"
  have "slice a b x = slice (a - ?l) (b - ?l) (slice ?l ?h x)" for x :: bytes using assms(2-4) by (simp add: slice_slice)
  then show ?thesis using assms(1) by (simp add: same_log_def)
qed

lemma flushed_same:
  assumes "log_inv ls base 0 prev rs m s" "flushed ls base 0 rs m s" "same_log base s u"
  shows "log_inv ls base 0 prev rs m u" "flushed ls base 0 rs m u"
proof -
  have "length (enc rs) < LOG_BUFFER_SIZE" using assms(1) by (simp add: log_inv_def)
  from log_pages_used_le [OF this] show "flushed ls base 0 rs m u"
    using assms(2) same_log_slice [OF assms(3)] by (simp add: flushed_def)
  show "log_inv ls base 0 prev rs m u" using assms(1,3) by (auto simp: log_inv_def same_log_def)
qed

text \<open>A run leaves a log that is read back from every device that holds the same log.\<close>

lemma run_ops_log:
  assumes "fits_buffer ls base (ops @ [Commit t]) s"
  shows "\<exists>m' s' l. run_ops (ops @ [Commit t]) (logmgr_new ls base) s = (Ok (), (m', s')) \<and> same_log base s' s' \<and>
    length (contents s') = length (contents s) \<and>
    data_start m' = base + 2 * BLOCK_SIZE \<and> ls_state l = ls_state ls \<and>
    (\<forall>u. same_log base s' u \<longrightarrow> lm_read_super u base = (Ok l, u) \<and>
       (\<exists>reader. scan_phase (recovery_new l) (base + 2 * BLOCK_SIZE) u = (Ok (op_records 0 0 (ops @ [Commit t]), reader), u)))"
proof -
  let ?ops = "ops @ [Commit t]"
  let ?rs = "op_records 0 0 ?ops"
  have f: "st_ok s" "base + 2 * BLOCK_SIZE + LOG_BUFFER_SIZE \<le> length (contents s)" "ls_wf ls"
    "\<forall>p\<in>set ?ops. op_ok p" "length (enc ?rs) < LOG_BUFFER_SIZE" "length (enc ?rs) mod LOGPSIZE \<noteq> 0"
    "length (enc ?rs) \<le> ls_page_size ls * LOGPSIZE"
    using assms by (auto simp: fits_buffer_def Let_def)
  from run_ops_inv [OF log_inv_new [OF f(1,2)] f(3), of ?ops] f(5) obtain m' s' prev where
    r: "run_ops ?ops (logmgr_new ls base) s = (Ok (), (m', s'))" "log_inv ls base 0 prev ?rs m' s'"
    "flushed ls base 0 ?rs m' s'" "length (contents s') = length (contents s)" by auto
  have ne: "?rs \<noteq> []" using f(6) by (metis enc_simps(1) list.size(3) mod_0)
  have "lm_read_super u base = (Ok (found_super m'), u) \<and>
      (\<exists>reader. scan_phase (recovery_new (found_super m')) (base + 2 * BLOCK_SIZE) u = (Ok (?rs, reader), u))"
    if u: "same_log base s' u" for u
  proof -
    note i = flushed_same [OF r(2,3) u]
    note l = flushed_super [OF i f(3)] and sl = flushed_slice [OF i op_records_scannable [OF f(4)] f(6)]
    have "st_ok u" "base + 2 * BLOCK_SIZE + LOG_BUFFER_SIZE \<le> length (contents u)" using u by (simp_all add: same_log_def)
    then have "\<exists>reader. scan_phase (recovery_new (found_super m')) (base + 2 * BLOCK_SIZE) u = (Ok (?rs, reader), u)"
      using l sl op_records_scannable [OF f(4)] ne f(7) by (intro scan_device) auto
    with l(1) show ?thesis by blast
  qed
  moreover have "same_log base s' s'" "data_start m' = base + 2 * BLOCK_SIZE"
    using r(2) by (auto simp: log_inv_def data_start_def same_log_def)
  ultimately show ?thesis using r(1,4) flushed_super(2) [OF r(2,3) f(3)]
    by (intro exI [of _ m'] exI [of _ s'] exI [of _ "found_super m'"]) blast
qed

lemma run_ops_scan:
  assumes "fits_buffer ls base (ops @ [Commit t]) s"
  shows "\<exists>m' s' l reader. run_ops (ops @ [Commit t]) (logmgr_new ls base) s = (Ok (), (m', s')) \<and>
    st_ok s' \<and> base + 2 * BLOCK_SIZE + LOG_BUFFER_SIZE \<le> length (contents s') \<and>
    data_start m' = base + 2 * BLOCK_SIZE \<and> lm_read_super s' base = (Ok l, s') \<and> ls_state l = ls_state ls \<and>
    scan_phase (recovery_new l) (data_start m') s' =
      (Ok (op_records 0 0 (ops @ [Commit t]), reader), s')"
proof -
  from run_ops_log [OF assms] obtain m' s' l where
    r: "run_ops (ops @ [Commit t]) (logmgr_new ls base) s = (Ok (), (m', s'))" "same_log base s' s'"
    "data_start m' = base + 2 * BLOCK_SIZE" "ls_state l = ls_state ls" "lm_read_super s' base = (Ok l, s')"
    "\<exists>reader. scan_phase (recovery_new l) (base + 2 * BLOCK_SIZE) s' = (Ok (op_records 0 0 (ops @ [Commit t]), reader), s')" by metis
  then show ?thesis by (auto simp: same_log_def)
qed

section \<open>Leaving the buffer\<close>

text \<open>
  A record that does not fit is put at the start of the next buffer; what is left of the flushed buffer
  stays zero on the device.
\<close>

lemma round_up:
  fixes n L q :: nat
  assumes "0 < n" "n < L"
  shows "(q * L + n + L - 1) div L * L = q * L + L"
proof -
  have "(n + L - 1) div L = 1" using assms by (intro div_nat_eqI) auto
  moreover have "q * L + n + L - 1 = (n + L - 1) + q * L" using assms by simp
  ultimately show ?thesis using assms by (simp only: div_mult_self1) simp
qed

lemma make_room_rollover:
  assumes inv: "log_inv ls base bs prev rs m s" and d: "buffer_dirty m" "rs \<noteq> []" "ls_wf ls"
    and big: "LOG_BUFFER_SIZE < length (enc rs) + n" "bs + 2 * LOG_BUFFER_SIZE < 2 ^ 32"
    "base + 2 * BLOCK_SIZE + bs + 2 * LOG_BUFFER_SIZE \<le> length (contents s)"
    and sc: "\<forall>x\<in>set rs. scannable x" "length (enc rs) mod LOGPSIZE \<noteq> 0"
  shows "\<exists>m' s'. make_room n m s = (Ok (), (m', s')) \<and> log_inv ls base (bs + LOG_BUFFER_SIZE) prev [] m' s' \<and>
    length (contents s') = length (contents s) \<and>
    slice (base + 2 * BLOCK_SIZE + bs) (base + 2 * BLOCK_SIZE + bs + length (enc rs) + 4) (contents s') =
      enc rs @ [0, 0, 0, 0]"
proof -
  let ?L = LOG_BUFFER_SIZE
  from flush_inv [OF inv d] obtain m1 s1 where
    f: "flush_journal m s = (Ok (), (m1, s1))" "log_inv ls base bs prev rs m1 s1" "flushed ls base bs rs m1 s1"
    "length (contents s1) = length (contents s)" by blast
  define m' where "m' = m1\<lparr>log_buffer := replicate (length (log_buffer m1)) 0, buffer_dirty := False,
     write_offset := (write_offset m1 + ?L - 1) div ?L * ?L\<rparr>"
  have mr: "make_room n m s = (Ok (), (m', s1))" using f(1) log_inv_mod [OF inv] big(1) by (simp add: make_room_def m'_def)
  have "0 < length (enc rs)" using d(2) by (cases rs) auto
  moreover have "length (enc rs) < ?L" "write_offset m1 = bs + length (enc rs)" "bs mod ?L = 0"
    using f(2) by (simp_all add: log_inv_def)
  moreover from this(3) have "bs div ?L * ?L = bs" by (metis add.right_neutral div_mult_mod_eq)
  ultimately have "(write_offset m1 + ?L - 1) div ?L * ?L = bs + ?L" using round_up [of "length (enc rs)" ?L "bs div ?L"] by simp
  moreover have "length (log_buffer m1) = ?L" using f(2) by (auto simp: log_inv_def)
  ultimately have "log_inv ls base (bs + ?L) prev [] m' s1"
    using f(2,4) big(2,3) by (auto simp: log_inv_def m'_def)
  with mr f(4) flushed_slice [OF f(2,3) sc] show ?thesis by blast
qed

lemma two_images_run:
  assumes s: "st_ok s" "base + 2 * BLOCK_SIZE + 2 * LOG_BUFFER_SIZE \<le> length (contents s)" and wf: "ls_wf ls"
    and d: "length d1 = BLOCK_SIZE" "length d2 = BLOCK_SIZE" and t: "(word_of_nat t :: 32 word) \<noteq> 0"
    and pg: "2 \<le> ls_page_size ls"
  shows "\<exists>m' s' l reader. run_ops [Append t b1 d1, Append t b2 d2, Commit t] (logmgr_new ls base) s = (Ok (), (m', s')) \<and>
    st_ok s' \<and> base + 2 * BLOCK_SIZE + LOG_BUFFER_SIZE \<le> length (contents s') \<and>
    lm_read_super s' base = (Ok l, s') \<and> ls_state l = ls_state ls \<and>
    scan_phase (recovery_new l) (base + 2 * BLOCK_SIZE) s' = (Ok ([(redo_lrd t 0 b1 BLOCK_SIZE, d1)], reader), s')"
proof -
  let ?D = "base + 2 * BLOCK_SIZE" and ?L = LOG_BUFFER_SIZE
  let ?rs = "[(redo_lrd t 0 b1 BLOCK_SIZE, d1)]"
  note sz = log_size_defs
  have n: "length (enc ?rs) = 4132" using d(1) by (simp add: sz)
  have "log_inv ls base 0 0 [] (logmgr_new ls base) s" using s by (intro log_inv_new) auto
  moreover have "length (enc []) + 36 + length d1 < ?L" using d(1) by (simp add: sz)
  ultimately have "\<exists>m1. append_log_record t b1 d1 (logmgr_new ls base) s = (Ok (), (m1, s)) \<and> buffer_dirty m1 \<and>
      log_inv ls base 0 0 ?rs m1 s"
    using append_inv [of ls base 0 0 "[]" "logmgr_new ls base" s d1 t b1] d(1) by simp
  then obtain m1 where
    m1: "append_log_record t b1 d1 (logmgr_new ls base) s = (Ok (), (m1, s))" "buffer_dirty m1" "log_inv ls base 0 0 ?rs m1 s"
    by blast
  have sc: "\<forall>x\<in>set ?rs. scannable x" "length (enc ?rs) mod LOGPSIZE \<noteq> 0"
    using d(1) t n by (simp_all add: scannable_def sz)
  have "?L < length (enc ?rs) + (LRD_SIZE + length d2)" "0 + 2 * ?L < 2 ^ 32"
    "?D + 0 + 2 * ?L \<le> length (contents s)" using n d(2) s(2) by (simp_all add: sz)
  from make_room_rollover [OF m1(3,2) _ wf this sc] obtain m2 s2 where
    m2: "make_room (LRD_SIZE + length d2) m1 s = (Ok (), (m2, s2))" "log_inv ls base ?L 0 [] m2 s2"
    "length (contents s2) = length (contents s)"
    "slice ?D (?D + length (enc ?rs) + 4) (contents s2) = enc ?rs @ [0, 0, 0, 0]" by auto
  have "length (enc []) + (LRD_SIZE + length d2) \<le> ?L" using d(2) by (simp add: sz)
  then have "append_log_record t b2 d2 m1 s = append_log_record t b2 d2 m2 s2"
    using m2(1) make_room_fits [OF m2(2), of "LRD_SIZE + length d2"] by (simp add: append_log_record_def)
  moreover have "length (enc []) + 36 + length d2 < ?L" using d(2) by (simp add: sz)
  from append_inv [OF m2(2) this, of t b2] obtain m3 rs3 where
    m3: "append_log_record t b2 d2 m2 s2 = (Ok (), (m3, s2))" "log_inv ls base ?L ?L rs3 m3 s2"
    "length (enc rs3) = 36 + length d2" by auto
  moreover have "length (enc rs3) + 36 < ?L" using m3(3) d(2) by (simp add: sz)
  from commit_inv [OF m3(2) this wf, of t] obtain m4 s4 rs4 where
    m4: "commit_transaction t m3 s2 = (Ok (), (m4, s4))" "log_inv ls base ?L 0 rs4 m4 s4" "flushed ls base ?L rs4 m4 s4"
    "length (contents s4) = length (contents s2)"
    "\<And>b c. ?D \<le> b \<Longrightarrow> c \<le> ?D + ?L \<Longrightarrow> slice b c (contents s4) = slice b c (contents s2)" by blast
  ultimately have run: "run_ops [Append t b1 d1, Append t b2 d2, Commit t] (logmgr_new ls base) s = (Ok (), (m4, s4))"
    using m1(1) by simp
  from flushed_super [OF m4(2,3) wf] obtain l where
    l: "lm_read_super s4 base = (Ok l, s4)" "ls_page_size l = ls_page_size ls" "?L \<le> ls_end_val l"
    "ls_state l = ls_state ls" by auto
  have ok: "st_ok s4" "?D + ?L \<le> length (contents s4)" using m4(2) by (auto simp: log_inv_def)
  from ok(1) have "\<exists>reader. scan_phase (recovery_new l) ?D s4 = (Ok (?rs, reader), s4)"
  proof (rule scan_device)
    show "?D + length (enc ?rs) + 4 \<le> length (contents s4)" using s(2) m2(3) m4(4) n by (simp add: sz)
    show "slice ?D (?D + length (enc ?rs) + 4) (contents s4) = enc ?rs @ [0, 0, 0, 0]"
      using m4(5) [of ?D "?D + length (enc ?rs) + 4"] m2(4) n by (simp add: sz)
    show "length (enc ?rs) \<le> ls_end_val l" "length (enc ?rs) \<le> ls_page_size l * LOGPSIZE"
      using l(2,3) pg unfolding n by (simp_all add: sz)
  qed (use sc in auto)
  with run l(1,4) ok show ?thesis by blast
qed

section \<open>Recovery of a run\<close>

lemma data_start_new: "data_start (logmgr_new l base) = base + 2 * BLOCK_SIZE"
  by (simp add: data_start_def logmgr_new_def)

lemma ops_plain: "\<forall>x\<in>set (op_records prev off ops). plain_record (fst x)"
  by (induction prev off ops rule: op_records.induct) auto

lemma finish_phase_ok:
  assumes "st_ok s" "base + 2 * BLOCK_SIZE + LOG_BUFFER_SIZE \<le> length (contents s)"
  shows "\<exists>rc' s'. finish_phase rc (base + 2 * BLOCK_SIZE) s = (Ok (), rc', s') \<and>
    ls_state_val (rc_logsuper rc') = LOGREDONE"
proof -
  let ?rc = "rc\<lparr>rc_logsuper := ls_set_state (rc_logsuper rc) LOGREDONE\<rparr>"
  let ?d = "logsuper_head (rc_logsuper ?rc) @ replicate 92 0"
  have "length ?d = 128" by (simp add: logsuper_head_def)
  then have "base + BLOCK_SIZE + length ?d \<le> length (contents s)"
    using assms(2) by (simp add: block_size_defs)
  from bdev.write_splice [OF assms(1) this] obtain s' where
    "write_bytes s (base + BLOCK_SIZE) ?d = (Ok (), s')" by blast
  then have "finish_phase rc (base + 2 * BLOCK_SIZE) s = (Ok (), ?rc, s')"
    unfolding finish_phase_def Let_def by (simp add: add.commute)
  then show ?thesis by (simp add: ls_set_state_def ls_state_val_def)
qed

lemma recover_run:
  assumes "fits_buffer ls base (ops @ [Commit t]) s" "ls_state_val ls \<noteq> LOGREDONE" "st_ok fs"
    "plain_log fs (op_records 0 0 (ops @ [Commit t]))"
    "distinct (map fst (committed_images (op_records 0 0 (ops @ [Commit t]))))"
  shows "\<exists>m' s' l rc' log' fs'. run_ops (ops @ [Commit t]) (logmgr_new ls base) s = (Ok (), (m', s')) \<and>
    lm_read_super s' base = (Ok l, s') \<and>
    replay (recovery_new l) s' fs (data_start (logmgr_new l base)) = (Ok (), rc', log', fs') \<and>
    (\<forall>b d. (b, d) \<in> set (committed_images (op_records 0 0 (ops @ [Commit t]))) \<longrightarrow>
       fst (read_block fs' b) = Ok d) \<and>
    (\<forall>b. b \<notin> fst ` set (committed_images (op_records 0 0 (ops @ [Commit t]))) \<longrightarrow>
       fst (read_block fs' b) = fst (read_block fs b)) \<and>
    ls_state_val (rc_logsuper rc') = LOGREDONE"
proof -
  let ?rs = "op_records 0 0 (ops @ [Commit t])"
  let ?D = "base + 2 * BLOCK_SIZE"
  from run_ops_scan [OF assms(1)] obtain m' s' l reader where
    r: "run_ops (ops @ [Commit t]) (logmgr_new ls base) s = (Ok (), (m', s'))" "st_ok s'"
    "?D + LOG_BUFFER_SIZE \<le> length (contents s')" "lm_read_super s' base = (Ok l, s')"
    "ls_state l = ls_state ls" "scan_phase (recovery_new l) ?D s' = (Ok (?rs, reader), s')" by metis
  from replay_records_images [OF assms(3,4), of ?D "lr_pos reader" l] obtain rc1 fs' where
    p: "replay_records ?D (lr_pos reader) 0 (rev ?rs) (recovery_new l) fs = (Ok (), rc1, fs')"
    "\<And>b. peek_block fs' b = (case map_of (committed_images ?rs) b of Some d \<Rightarrow> Ok d | None \<Rightarrow> peek_block fs b)"
    by blast
  from finish_phase_ok [OF r(2,3), of rc1] obtain rc' log' where
    f: "finish_phase rc1 ?D s' = (Ok (), rc', log')" "ls_state_val (rc_logsuper rc') = LOGREDONE" by auto
  have "ls_state_val (rc_logsuper (recovery_new l)) \<noteq> LOGREDONE"
    using assms(2) r(5) by (simp add: recovery_new_def ls_state_val_def)
  then have "replay (recovery_new l) s' fs ?D = (Ok (), rc', log', fs')"
    using r(6) p(1) f(1) by (simp add: replay_def)
  moreover have "(b, d) \<in> set (committed_images ?rs) \<Longrightarrow> fst (read_block fs' b) = Ok d" for b d
    using p(2) [of b] assms(5) by (simp add: peek_block_def)
  moreover have "b \<notin> fst ` set (committed_images ?rs) \<Longrightarrow> fst (read_block fs' b) = fst (read_block fs b)" for b
    using p(2) [of b] by (metis map_of_eq_None_iff option.simps(4) peek_block_def)
  ultimately show ?thesis using r(1,4) f(2) unfolding data_start_new by blast
qed

end
