(* ===== verification/Page_Cache.thy ===== *)
theory Page_Cache
  imports Storage
begin

text \<open>
  The page cache of \<open>storage/mod.rs\<close>: \<open>CachedPage\<close>, \<open>PageCache\<close> and \<open>ConsistencyChecker\<close>. The cache sits on the
  third-party type \<open>lru::LruCache\<close>, which is the parameter \<open>L\<close> of the operations, a record of the methods
  the source calls; the locale \<open>lru_cache\<close> states what its documentation promises of them, and the
  properties of the page cache are proved from that.
\<close>

section \<open>Pages\<close>

type_synonym page_key = "32 word \<times> nat"

record cached_page =
  cp_block :: nat
  cp_data :: bytes
  cp_dirty :: bool
  cp_inode :: "32 word option"
  cp_index :: nat
  pin_count :: nat
  cp_txid :: nat

definition U32_MAX :: nat where "U32_MAX = 2 ^ 32 - 1"

definition cached_page_new :: "nat \<Rightarrow> bytes \<Rightarrow> cached_page" where
  "cached_page_new b d = \<lparr>cp_block = b, cp_data = d, cp_dirty = False, cp_inode = None, cp_index = 0,
     pin_count = 0, cp_txid = 0\<rparr>"

definition cp_mark_dirty :: "cached_page \<Rightarrow> cached_page" where
  "cp_mark_dirty p = p\<lparr>cp_dirty := True\<rparr>"

definition cp_mark_dirty_txn :: "nat \<Rightarrow> cached_page \<Rightarrow> cached_page" where
  "cp_mark_dirty_txn txid p = p\<lparr>cp_dirty := True, cp_txid := txid\<rparr>"

definition cp_pin :: "cached_page \<Rightarrow> cached_page" where
  "cp_pin p = p\<lparr>pin_count := min (pin_count p + 1) U32_MAX\<rparr>"

definition cp_unpin :: "cached_page \<Rightarrow> cached_page" where
  "cp_unpin p = p\<lparr>pin_count := pin_count p - 1\<rparr>"

definition is_pinned :: "cached_page \<Rightarrow> bool" where
  "is_pinned p \<longleftrightarrow> 0 < pin_count p"

definition cp_read_u32 :: "cached_page \<Rightarrow> nat \<Rightarrow> 32 word res" where
  "cp_read_u32 p offset = res_bind (slice_res offset (offset + 4) (cp_data p)) (\<lambda>bs. Ok (read_u32 (arr4_of bs)))"

definition cp_read_u64 :: "cached_page \<Rightarrow> nat \<Rightarrow> 64 word res" where
  "cp_read_u64 p offset = res_bind (slice_res offset (offset + 8) (cp_data p)) (\<lambda>bs. Ok (read_u64 (arr8_of bs)))"

definition cp_read_u16 :: "cached_page \<Rightarrow> nat \<Rightarrow> 16 word res" where
  "cp_read_u16 p offset = res_bind (slice_res offset (offset + 2) (cp_data p)) (\<lambda>bs. Ok (read_u16 (arr2_of bs)))"

definition cp_write :: "nat \<Rightarrow> bytes \<Rightarrow> cached_page \<Rightarrow> unit res \<times> cached_page" where
  "cp_write offset bs p =
     (if offset + length bs \<le> length (cp_data p)
      then (Ok (), p\<lparr>cp_data := splice offset bs (cp_data p), cp_dirty := True\<rparr>) else (Panic, p))"

definition cp_write_u32 :: "cached_page \<Rightarrow> nat \<Rightarrow> 32 word \<Rightarrow> unit res \<times> cached_page" where
  "cp_write_u32 p offset v = cp_write offset (list_of_arr4 (write_u32 v)) p"

definition cp_write_u64 :: "cached_page \<Rightarrow> nat \<Rightarrow> 64 word \<Rightarrow> unit res \<times> cached_page" where
  "cp_write_u64 p offset v = cp_write offset (list_of_arr8 (write_u64 v)) p"

definition cp_write_u16 :: "cached_page \<Rightarrow> nat \<Rightarrow> 16 word \<Rightarrow> unit res \<times> cached_page" where
  "cp_write_u16 p offset v = cp_write offset (list_of_arr2 (write_u16 v)) p"

section \<open>The LRU cache the code is given\<close>

text \<open>
  \<open>get_mut\<close> hands out a reference; \<open>lru_get_mut\<close> takes the write that is made through it. The iterator is
  read as a list.
\<close>

record 'c lru =
  lru_new :: "nat \<Rightarrow> 'c"
  lru_cap :: "'c \<Rightarrow> nat"
  lru_len :: "'c \<Rightarrow> nat"
  lru_contains :: "'c \<Rightarrow> page_key \<Rightarrow> bool"
  lru_peek :: "'c \<Rightarrow> page_key \<Rightarrow> cached_page option"
  lru_get :: "'c \<Rightarrow> page_key \<Rightarrow> cached_page option \<times> 'c"
  lru_get_mut :: "'c \<Rightarrow> page_key \<Rightarrow> (cached_page \<Rightarrow> cached_page) \<Rightarrow> 'c"
  lru_put :: "'c \<Rightarrow> page_key \<Rightarrow> cached_page \<Rightarrow> 'c"
  lru_pop :: "'c \<Rightarrow> page_key \<Rightarrow> 'c"
  lru_peek_lru :: "'c \<Rightarrow> (page_key \<times> cached_page) option"
  lru_clear :: "'c \<Rightarrow> 'c"
  lru_iter :: "'c \<Rightarrow> (page_key \<times> cached_page) list"

section \<open>Operations\<close>

record 'c page_cache =
  capacity :: nat
  cache :: 'c

definition cache_new :: "'c lru \<Rightarrow> nat \<Rightarrow> 'c page_cache" where
  "cache_new L n = \<lparr>capacity = n, cache = lru_new L (max n 1)\<rparr>"

definition cache_get :: "'c lru \<Rightarrow> 'c page_cache \<Rightarrow> 32 word \<Rightarrow> nat \<Rightarrow> cached_page option \<times> 'c page_cache" where
  "cache_get L c ino block = (let (r, l) = lru_get L (cache c) (ino, block) in (r, c\<lparr>cache := l\<rparr>))"

definition cache_peek :: "'c lru \<Rightarrow> 'c page_cache \<Rightarrow> 32 word \<Rightarrow> nat \<Rightarrow> cached_page option" where
  "cache_peek L c ino block = lru_peek L (cache c) (ino, block)"

definition cache_peek_block :: "'c lru \<Rightarrow> 'c page_cache \<Rightarrow> nat \<Rightarrow> cached_page option" where
  "cache_peek_block L c block = map_option snd (find (\<lambda>x. snd (fst x) = block) (lru_iter L (cache c)))"

definition get_or_load :: "'c lru \<Rightarrow> 'c page_cache \<Rightarrow> storage \<Rightarrow> 32 word \<Rightarrow> nat \<Rightarrow> nat
    \<Rightarrow> cached_page res \<times> 'c page_cache \<times> storage" where
  "get_or_load L c s ino block index =
     (case lru_get L (cache c) (ino, block) of
        (Some page, l) \<Rightarrow> (Ok page, c\<lparr>cache := l\<rparr>, s)
      | (None, l) \<Rightarrow>
          let (r, s') =
            (case find (\<lambda>x. snd (fst x) = block \<and> fst (fst x) \<noteq> ino) (lru_iter L l) of
               Some x \<Rightarrow> (Ok (cp_data (snd x)), s)
             | None \<Rightarrow> (case read_block s block of (Err _, s1) \<Rightarrow> (Ok [], s1) | (r, s1) \<Rightarrow> (r, s1)))
          in case r of
               Ok d \<Rightarrow>
                 let page = \<lparr>cp_block = block, cp_data = d, cp_dirty = False, cp_inode = Some ino, cp_index = index,
                             pin_count = 0, cp_txid = 0\<rparr>
                 in (Ok page, c\<lparr>cache := lru_put L l (ino, block) page\<rparr>, s')
             | Err e \<Rightarrow> (Err e, c\<lparr>cache := l\<rparr>, s')
             | Panic \<Rightarrow> (Panic, c\<lparr>cache := l\<rparr>, s')
             | Exit \<Rightarrow> (Exit, c\<lparr>cache := l\<rparr>, s'))"

text \<open>\<open>get_mut_for_write\<close> pins the page; the caller's change \<open>f\<close> goes through the reference.\<close>

definition get_mut_for_write :: "'c lru \<Rightarrow> 'c page_cache \<Rightarrow> 32 word \<Rightarrow> nat \<Rightarrow> (cached_page \<Rightarrow> cached_page)
    \<Rightarrow> unit res \<times> 'c page_cache" where
  "get_mut_for_write L c ino block f =
     (if lru_peek L (cache c) (ino, block) \<noteq> None
      then (Ok (), c\<lparr>cache := lru_get_mut L (cache c) (ino, block) (\<lambda>p. f (cp_pin p))\<rparr>)
      else (Err PageNotFound, c))"

definition unpin_page :: "'c lru \<Rightarrow> 'c page_cache \<Rightarrow> 32 word \<Rightarrow> nat \<Rightarrow> 'c page_cache" where
  "unpin_page L c ino block = c\<lparr>cache := lru_get_mut L (cache c) (ino, block) cp_unpin\<rparr>"

definition victim_busy :: "'c lru \<Rightarrow> 'c \<Rightarrow> page_key \<Rightarrow> bool" where
  "victim_busy L l key \<longleftrightarrow> \<not> lru_contains L l key \<and> lru_cap L l \<le> lru_len L l \<and>
     (case lru_peek_lru L l of Some (_, v) \<Rightarrow> cp_dirty v \<or> 0 < pin_count v | None \<Rightarrow> False)"

definition cache_put :: "'c lru \<Rightarrow> 'c page_cache \<Rightarrow> 32 word \<Rightarrow> cached_page \<Rightarrow> unit res \<times> 'c page_cache" where
  "cache_put L c ino page =
     (let key = (ino, cp_block page) in
      if victim_busy L (cache c) key then (Err (Other ''cache full: LRU victim is dirty or pinned''), c)
      else (Ok (), c\<lparr>cache := lru_put L (cache c) key page\<rparr>))"

definition put_block :: "'c lru \<Rightarrow> 'c page_cache \<Rightarrow> nat \<Rightarrow> cached_page \<Rightarrow> unit res \<times> 'c page_cache" where
  "put_block L c block page =
     (let key = (0, block) in
      if victim_busy L (cache c) key then (Err (Other ''cache full: LRU victim is dirty or pinned''), c)
      else (Ok (), c\<lparr>cache := lru_put L (cache c) key page\<rparr>))"

definition cache_mark_dirty :: "'c lru \<Rightarrow> 'c page_cache \<Rightarrow> 32 word \<Rightarrow> nat \<Rightarrow> 'c page_cache" where
  "cache_mark_dirty L c ino block = c\<lparr>cache := lru_get_mut L (cache c) (ino, block) cp_mark_dirty\<rparr>"

definition cache_mark_dirty_txn :: "'c lru \<Rightarrow> 'c page_cache \<Rightarrow> 32 word \<Rightarrow> nat \<Rightarrow> nat \<Rightarrow> 'c page_cache" where
  "cache_mark_dirty_txn L c ino block txid =
     c\<lparr>cache := lru_get_mut L (cache c) (ino, block) (cp_mark_dirty_txn txid)\<rparr>"

definition clean_page :: "cached_page \<Rightarrow> cached_page" where
  "clean_page p = p\<lparr>cp_dirty := False, cp_txid := 0\<rparr>"

definition flush_pages :: "'c lru \<Rightarrow> 'c page_cache \<Rightarrow> storage \<Rightarrow> (page_key \<times> bytes) list
    \<Rightarrow> unit res \<times> 'c page_cache \<times> storage" where
  "flush_pages L c s dirty_pages =
     (case write_seq write_block s (map (\<lambda>((_, b), d). (b, d)) dirty_pages) of
        (Ok _, s') \<Rightarrow> (Ok (), c\<lparr>cache := fold (\<lambda>(k, _) l. lru_get_mut L l k clean_page) dirty_pages (cache c)\<rparr>, s')
      | (e, s') \<Rightarrow> (e, c, s'))"

definition flush_inode :: "'c lru \<Rightarrow> 'c page_cache \<Rightarrow> storage \<Rightarrow> 32 word \<Rightarrow> unit res \<times> 'c page_cache \<times> storage" where
  "flush_inode L c s ino = flush_pages L c s
     (map (\<lambda>(_, p). ((ino, cp_block p), cp_data p))
       (filter (\<lambda>(_, p). cp_dirty p \<and> cp_inode p = Some ino) (lru_iter L (cache c))))"

definition flush_all :: "'c lru \<Rightarrow> 'c page_cache \<Rightarrow> storage \<Rightarrow> unit res \<times> 'c page_cache \<times> storage" where
  "flush_all L c s = flush_pages L c s
     (map (\<lambda>(_, p). ((case cp_inode p of Some i \<Rightarrow> i | None \<Rightarrow> 0, cp_block p), cp_data p))
       (filter (\<lambda>(_, p). cp_dirty p) (lru_iter L (cache c))))"

definition cache_release :: "'c lru \<Rightarrow> 'c page_cache \<Rightarrow> 32 word \<Rightarrow> nat \<Rightarrow> 'c page_cache" where
  "cache_release L c ino block = c\<lparr>cache := lru_pop L (cache c) (ino, block)\<rparr>"

definition evict :: "'c lru \<Rightarrow> 'c page_cache \<Rightarrow> 32 word \<Rightarrow> 'c page_cache" where
  "evict L c ino = c\<lparr>cache := fold (\<lambda>k l. lru_pop L l k)
     (map fst (filter (\<lambda>((i, _), _). i = ino) (lru_iter L (cache c)))) (cache c)\<rparr>"

definition cache_clear :: "'c lru \<Rightarrow> 'c page_cache \<Rightarrow> 'c page_cache" where
  "cache_clear L c = c\<lparr>cache := lru_clear L (cache c)\<rparr>"

definition has_dirty :: "'c lru \<Rightarrow> 'c page_cache \<Rightarrow> bool" where
  "has_dirty L c \<longleftrightarrow> (\<exists>x\<in>set (lru_iter L (cache c)). cp_dirty (snd x))"

definition has_pinned :: "'c lru \<Rightarrow> 'c page_cache \<Rightarrow> bool" where
  "has_pinned L c \<longleftrightarrow> (\<exists>x\<in>set (lru_iter L (cache c)). 0 < pin_count (snd x))"

text \<open>The consistency checker: an assertion that fails panics.\<close>

definition check_idle :: "'c lru \<Rightarrow> 'c page_cache \<Rightarrow> unit res" where
  "check_idle L c = (if \<not> has_dirty L c \<and> \<not> has_pinned L c then Ok () else Panic)"

definition check_in_transaction :: "'c lru \<Rightarrow> 'c page_cache \<Rightarrow> unit res" where
  "check_in_transaction L c =
     (if filter (\<lambda>(_, p). cp_dirty p \<and> pin_count p = 0) (lru_iter L (cache c)) = [] then Ok () else Panic)"

definition check_post_commit :: "'c lru \<Rightarrow> 'c page_cache \<Rightarrow> unit res" where
  "check_post_commit L c = (if \<not> has_dirty L c \<and> \<not> has_pinned L c then Ok () else Panic)"

text \<open>
  A cache that can be written back: each page sits under its own key, dirty pages are whole blocks of
  the device, and dirty copies of one block agree.
\<close>

definition flushable :: "'c lru \<Rightarrow> 'c page_cache \<Rightarrow> storage \<Rightarrow> bool" where
  "flushable L c s \<longleftrightarrow> (\<forall>(k, p)\<in>set (lru_iter L (cache c)).
     (case cp_inode p of Some i \<Rightarrow> i | None \<Rightarrow> 0, cp_block p) = k \<and>
     (cp_dirty p \<longrightarrow> cp_block p < size_blocks s \<and> length (cp_data p) = BLOCK_SIZE \<and>
        (\<forall>(k', p')\<in>set (lru_iter L (cache c)). cp_dirty p' \<and> cp_block p' = cp_block p \<longrightarrow> cp_data p' = cp_data p)))"

section \<open>What the code relies on\<close>

locale lru_cache =
  fixes L :: "'c lru" and valid :: "'c \<Rightarrow> bool"
  assumes view_law: "valid c \<Longrightarrow> distinct (map fst (lru_iter L c)) \<and> lru_peek L c = map_of (lru_iter L c) \<and>
      lru_len L c = length (lru_iter L c) \<and> lru_len L c \<le> lru_cap L c \<and> 0 < lru_cap L c \<and>
      (\<forall>k. lru_contains L c k \<longleftrightarrow> lru_peek L c k \<noteq> None)"
    and get_law: "valid c \<Longrightarrow> fst (lru_get L c k) = lru_peek L c k \<and> valid (snd (lru_get L c k)) \<and>
      lru_peek L (snd (lru_get L c k)) = lru_peek L c \<and> lru_cap L (snd (lru_get L c k)) = lru_cap L c"
    and get_mut_law: "valid c \<Longrightarrow> valid (lru_get_mut L c k f) \<and> lru_cap L (lru_get_mut L c k f) = lru_cap L c \<and>
      lru_peek L (lru_get_mut L c k f) = (lru_peek L c)(k := map_option f (lru_peek L c k))"
    and put_law: "valid c \<Longrightarrow> valid (lru_put L c k p) \<and> lru_cap L (lru_put L c k p) = lru_cap L c \<and>
      lru_peek L (lru_put L c k p) =
        (if lru_contains L c k \<or> lru_len L c < lru_cap L c then (lru_peek L c)(k \<mapsto> p)
         else (lru_peek L c)(fst (the (lru_peek_lru L c)) := None, k \<mapsto> p))"
    and pop_law: "valid c \<Longrightarrow> valid (lru_pop L c k) \<and> lru_cap L (lru_pop L c k) = lru_cap L c \<and>
      lru_peek L (lru_pop L c k) = (lru_peek L c)(k := None)"
    and peek_lru_law: "valid c \<Longrightarrow> lru_iter L c \<noteq> [] \<Longrightarrow>
      \<exists>k v. lru_peek_lru L c = Some (k, v) \<and> lru_peek L c k = Some v"
    and clear_law: "valid c \<Longrightarrow> valid (lru_clear L c) \<and> lru_cap L (lru_clear L c) = lru_cap L c \<and>
      lru_peek L (lru_clear L c) = Map.empty"
begin

lemma iter_peek: "valid c \<Longrightarrow> (k, p) \<in> set (lru_iter L c) \<longleftrightarrow> lru_peek L c k = Some p"
  using view_law [of c] by simp

lemma full_victim:
  assumes "valid c" "\<not> lru_contains L c k" "\<not> lru_len L c < lru_cap L c"
  shows "\<exists>vk v. lru_peek_lru L c = Some (vk, v) \<and> lru_peek L c vk = Some v \<and> vk \<noteq> k"
proof -
  have "lru_iter L c \<noteq> []" using view_law [OF assms(1)] assms(3) by auto
  with peek_lru_law [OF assms(1)] view_law [OF assms(1)] assms(2) show ?thesis by fastforce
qed

text \<open>A guarded insertion keeps every page that is dirty or pinned.\<close>

lemma put_keeps_busy:
  assumes "valid (cache c)" "cache_put L c i p = (r, c')" "lru_peek L (cache c) k = Some q"
    "cp_dirty q \<or> 0 < pin_count q" "k \<noteq> (i, cp_block p)"
  shows "lru_peek L (cache c') k = Some q"
proof (cases "lru_contains L (cache c) (i, cp_block p) \<or> lru_len L (cache c) < lru_cap L (cache c)")
  case True
  then show ?thesis using assms put_law [OF assms(1), of "(i, cp_block p)" p]
    by (auto simp: cache_put_def Let_def split: if_splits)
next
  case False
  with full_victim [OF assms(1), of "(i, cp_block p)"] obtain vk v where
    v: "lru_peek_lru L (cache c) = Some (vk, v)" "lru_peek L (cache c) vk = Some v" by blast
  show ?thesis
    using assms v False put_law [OF assms(1), of "(i, cp_block p)" p]
    by (cases "vk = k") (auto simp: cache_put_def victim_busy_def Let_def not_less split: if_splits)
qed

lemma put_result:
  assumes "valid (cache c)" "cache_put L c i p = (Ok (), c')"
  shows "valid (cache c') \<and> lru_peek L (cache c') (i, cp_block p) = Some p"
  using assms put_law [OF assms(1), of "(i, cp_block p)" p]
  by (auto simp: cache_put_def Let_def split: if_splits)

lemma fold_get_mut:
  assumes "valid l"
  shows "valid (fold (\<lambda>(k, _) l. lru_get_mut L l k f) ps l) \<and>
    (\<forall>k. lru_peek L (fold (\<lambda>(k, _) l. lru_get_mut L l k f) ps l) k =
       map_option (f ^^ length (filter (\<lambda>x. fst x = k) ps)) (lru_peek L l k))"
  using assms
proof (induction ps arbitrary: l)
  case Nil
  then show ?case by (simp add: option.map_ident)
next
  case (Cons x ps)
  obtain k d where x: "x = (k, d)" by (cases x)
  note g = get_mut_law [OF Cons.prems, of k f]
  have "lru_peek L (lru_get_mut L l k f) j = (if j = k then map_option f (lru_peek L l k) else lru_peek L l j)" for j
    using g by simp
  with Cons.IH [of "lru_get_mut L l k f"] g show ?case
    by (auto simp: x option.map_comp comp_def funpow_swap1)
qed

text \<open>A write-back: the dirty pages reach the device and nothing stays dirty.\<close>

lemma clean_funpow: "cp_dirty ((clean_page ^^ n) p) \<longleftrightarrow> n = 0 \<and> cp_dirty p"
  by (induction n) (auto simp: clean_page_def)

lemma flush_all_writes:
  assumes ok: "valid (cache c)" "st_ok s" and fl: "flushable L c s"
  shows "\<exists>c' s'. flush_all L c s = (Ok (), c', s') \<and> st_ok s' \<and> \<not> has_dirty L c' \<and>
    (\<forall>k p. lru_peek L (cache c) k = Some p \<and> cp_dirty p \<longrightarrow> peek_block s' (cp_block p) = Ok (cp_data p)) \<and>
    (\<forall>b. (\<forall>k p. lru_peek L (cache c) k = Some p \<and> cp_dirty p \<longrightarrow> cp_block p \<noteq> b) \<longrightarrow>
       peek_block s' b = peek_block s b)"
proof -
  define ds where "ds = map (\<lambda>(_, p). ((case cp_inode p of Some i \<Rightarrow> i | None \<Rightarrow> 0, cp_block p), cp_data p))
       (filter (\<lambda>(_, p). cp_dirty p) (lru_iter L (cache c)))"
  define ws where "ws = map (\<lambda>((_, b), d). (b, d)) ds"
  note it = iter_peek [OF ok(1), symmetric]
  have ws: "(b, d) \<in> set ws \<longleftrightarrow> (\<exists>k p. lru_peek L (cache c) k = Some p \<and> cp_dirty p \<and> cp_block p = b \<and> cp_data p = d)" for b d
    by (auto simp: ws_def ds_def it image_iff)
  have "\<And>b d. (b, d) \<in> set ws \<Longrightarrow> b < size_blocks s \<and> length d = BLOCK_SIZE"
    using fl by (fastforce simp: ws it flushable_def)
  from dev.write_seq_last_wins [OF ok(2) this] obtain s' where s': "write_seq write_block s ws = (Ok (), s')" "st_ok s'"
    "\<And>b. peek_block s' b = (case map_of (rev ws) b of Some d \<Rightarrow> Ok d | None \<Rightarrow> peek_block s b)" by blast
  define l where "l = fold (\<lambda>(k, _) l. lru_get_mut L l k clean_page) ds (cache c)"
  note fg = fold_get_mut [OF ok(1), of clean_page ds, folded l_def]
  have "flush_all L c s = (Ok (), c\<lparr>cache := l\<rparr>, s')"
    using s'(1) by (simp add: flush_all_def flush_pages_def flip: ds_def ws_def l_def)
  moreover have "\<not> cp_dirty q" if kq: "lru_peek L l k = Some q" for k q
  proof -
    have "lru_peek L l k = map_option (clean_page ^^ length (filter (\<lambda>x. fst x = k) ds)) (lru_peek L (cache c) k)"
      using fg by blast
    with kq obtain p where p: "lru_peek L (cache c) k = Some p"
      "q = (clean_page ^^ length (filter (\<lambda>x. fst x = k) ds)) p" by (auto dest: sym)
    have "cp_dirty p \<Longrightarrow> (k, cp_data p) \<in> set ds" using p(1) fl by (force simp: ds_def it flushable_def)
    then have "cp_dirty p \<Longrightarrow> filter (\<lambda>x. fst x = k) ds \<noteq> []" by (force simp: filter_empty_conv)
    then show ?thesis using p(2) by (auto simp: clean_funpow)
  qed
  then have "\<not> has_dirty L (c\<lparr>cache := l\<rparr>)" using fg by (auto simp: has_dirty_def iter_peek)
  moreover have "peek_block s' (cp_block p) = Ok (cp_data p)" if kp: "lru_peek L (cache c) k = Some p" "cp_dirty p" for k p
  proof -
    from kp have "(cp_block p, cp_data p) \<in> set (rev ws)" unfolding set_rev ws by blast
    then obtain d where d: "map_of (rev ws) (cp_block p) = Some d" by (metis map_of_eq_None_iff image_eqI fst_conv not_None_eq)
    then obtain k' p' where "lru_peek L (cache c) k' = Some p'" "cp_dirty p'" "cp_block p' = cp_block p" "cp_data p' = d"
      by (auto simp: ws dest!: map_of_SomeD)
    with kp fl have "cp_data p = d" by (fastforce simp: it flushable_def)
    with s'(3) [of "cp_block p"] d show ?thesis by simp
  qed
  moreover have "peek_block s' b = peek_block s b"
    if "\<forall>k p. lru_peek L (cache c) k = Some p \<and> cp_dirty p \<longrightarrow> cp_block p \<noteq> b" for b
  proof -
    from that have "b \<notin> fst ` set (rev ws)" by (force simp: ws)
    then have "map_of (rev ws) b = None" by (simp add: map_of_eq_None_iff)
    with s'(3) [of b] show ?thesis by simp
  qed
  ultimately show ?thesis using s'(2) by blast
qed

end

section \<open>An LRU cache\<close>

text \<open>The promised behaviour can be had: a list, most recently used entry first.\<close>

record lru_list =
  ll_cap :: nat
  ll_entries :: "(page_key \<times> cached_page) list"

definition ll_front :: "lru_list \<Rightarrow> page_key \<Rightarrow> cached_page \<Rightarrow> lru_list" where
  "ll_front c k p = c\<lparr>ll_entries := (k, p) # filter (\<lambda>x. fst x \<noteq> k) (ll_entries c)\<rparr>"

definition list_lru :: "lru_list lru" where
  "list_lru = \<lparr>
     lru_new = (\<lambda>n. \<lparr>ll_cap = n, ll_entries = []\<rparr>),
     lru_cap = ll_cap,
     lru_len = (\<lambda>c. length (ll_entries c)),
     lru_contains = (\<lambda>c k. map_of (ll_entries c) k \<noteq> None),
     lru_peek = (\<lambda>c. map_of (ll_entries c)),
     lru_get = (\<lambda>c k. case map_of (ll_entries c) k of Some p \<Rightarrow> (Some p, ll_front c k p) | None \<Rightarrow> (None, c)),
     lru_get_mut = (\<lambda>c k f. case map_of (ll_entries c) k of Some p \<Rightarrow> ll_front c k (f p) | None \<Rightarrow> c),
     lru_put = (\<lambda>c k p.
       if map_of (ll_entries c) k \<noteq> None \<or> length (ll_entries c) < ll_cap c then ll_front c k p
       else ll_front (c\<lparr>ll_entries := butlast (ll_entries c)\<rparr>) k p),
     lru_pop = (\<lambda>c k. c\<lparr>ll_entries := filter (\<lambda>x. fst x \<noteq> k) (ll_entries c)\<rparr>),
     lru_peek_lru = (\<lambda>c. if ll_entries c = [] then None else Some (last (ll_entries c))),
     lru_clear = (\<lambda>c. c\<lparr>ll_entries := []\<rparr>),
     lru_iter = ll_entries\<rparr>"

definition ll_valid :: "lru_list \<Rightarrow> bool" where
  "ll_valid c \<longleftrightarrow> distinct (map fst (ll_entries c)) \<and> length (ll_entries c) \<le> ll_cap c \<and> 0 < ll_cap c"

lemma map_of_filter_key: "map_of (filter (\<lambda>x. fst x \<noteq> k) xs) = (map_of xs)(k := None)"
  by (induction xs) auto

lemma length_filter_key:
  assumes "map_of xs k \<noteq> None"
  shows "length (filter (\<lambda>x. fst x \<noteq> k) xs) < length xs"
proof -
  from assms obtain p where "(k, p) \<in> set xs" by (metis map_of_SomeD not_None_eq)
  then show ?thesis by (rule length_filter_less) simp
qed

lemma ll_front_props:
  assumes "ll_valid c" "map_of (ll_entries c) k \<noteq> None \<or> length (ll_entries c) < ll_cap c"
  shows "ll_valid (ll_front c k p)" "ll_cap (ll_front c k p) = ll_cap c"
    "map_of (ll_entries (ll_front c k p)) = (map_of (ll_entries c))(k \<mapsto> p)"
proof -
  have "length (filter (\<lambda>x. fst x \<noteq> k) (ll_entries c)) < ll_cap c"
    using assms length_filter_key [of "ll_entries c" k] length_filter_le [of "\<lambda>x. fst x \<noteq> k" "ll_entries c"]
    unfolding ll_valid_def by linarith
  then show "ll_valid (ll_front c k p)" using assms(1)
    by (auto simp: ll_valid_def ll_front_def distinct_map_filter)
qed (auto simp: ll_front_def map_of_filter_key)

lemma butlast_props:
  assumes "ll_valid c" "ll_entries c \<noteq> []"
  shows "ll_valid (c\<lparr>ll_entries := butlast (ll_entries c)\<rparr>)"
    "map_of (butlast (ll_entries c)) = (map_of (ll_entries c))(fst (last (ll_entries c)) := None)"
    "length (butlast (ll_entries c)) < ll_cap c"
proof -
  obtain xs k p where e: "ll_entries c = xs @ [(k, p)]" using assms(2) by (metis rev_exhaust surj_pair)
  with assms(1) have "map_of xs k = None" by (auto simp: ll_valid_def map_of_eq_None_iff)
  then show "map_of (butlast (ll_entries c)) = (map_of (ll_entries c))(fst (last (ll_entries c)) := None)"
    by (auto simp: e map_add_def fun_eq_iff split: option.split)
  show "ll_valid (c\<lparr>ll_entries := butlast (ll_entries c)\<rparr>)" "length (butlast (ll_entries c)) < ll_cap c"
    using assms e by (auto simp: ll_valid_def)
qed

interpretation ll: lru_cache list_lru ll_valid
proof unfold_locales
  fix c k p assume v: "ll_valid c"
  show "ll_valid (lru_put list_lru c k p) \<and> lru_cap list_lru (lru_put list_lru c k p) = lru_cap list_lru c \<and>
      lru_peek list_lru (lru_put list_lru c k p) =
        (if lru_contains list_lru c k \<or> lru_len list_lru c < lru_cap list_lru c then (lru_peek list_lru c)(k \<mapsto> p)
         else (lru_peek list_lru c)(fst (the (lru_peek_lru list_lru c)) := None, k \<mapsto> p))"
  proof (cases "map_of (ll_entries c) k \<noteq> None \<or> length (ll_entries c) < ll_cap c")
    case True
    with ll_front_props [OF v True] show ?thesis by (simp add: list_lru_def)
  next
    case False
    with v have ne: "ll_entries c \<noteq> []" by (auto simp: ll_valid_def)
    note b = butlast_props [OF v ne]
    let ?c = "c\<lparr>ll_entries := butlast (ll_entries c)\<rparr>"
    have "map_of (ll_entries ?c) k \<noteq> None \<or> length (ll_entries ?c) < ll_cap ?c" using b(3) by simp
    note f = ll_front_props [OF b(1) this, of p]
    show ?thesis using False ne f b(2) by (simp add: list_lru_def)
  qed
next
  fix c k assume v: "ll_valid c"
  show "fst (lru_get list_lru c k) = lru_peek list_lru c k \<and> ll_valid (snd (lru_get list_lru c k)) \<and>
      lru_peek list_lru (snd (lru_get list_lru c k)) = lru_peek list_lru c \<and>
      lru_cap list_lru (snd (lru_get list_lru c k)) = lru_cap list_lru c"
    using v ll_front_props [OF v, of k] by (auto simp: list_lru_def fun_upd_idem split: option.split)
next
  fix c k f assume v: "ll_valid c"
  show "ll_valid (lru_get_mut list_lru c k f) \<and> lru_cap list_lru (lru_get_mut list_lru c k f) = lru_cap list_lru c \<and>
      lru_peek list_lru (lru_get_mut list_lru c k f) = (lru_peek list_lru c)(k := map_option f (lru_peek list_lru c k))"
    using v ll_front_props [OF v, of k] by (auto simp: list_lru_def fun_upd_idem split: option.split)
next
  fix c k assume v: "ll_valid c"
  show "ll_valid (lru_pop list_lru c k) \<and> lru_cap list_lru (lru_pop list_lru c k) = lru_cap list_lru c \<and>
      lru_peek list_lru (lru_pop list_lru c k) = (lru_peek list_lru c)(k := None)"
    using v by (auto simp: list_lru_def ll_valid_def map_of_filter_key distinct_map_filter
        intro: le_trans [OF length_filter_le])
next
  fix c :: lru_list assume v: "ll_valid c" "lru_iter list_lru c \<noteq> []"
  then have "last (ll_entries c) \<in> set (ll_entries c)" by (simp add: list_lru_def)
  with v show "\<exists>k v. lru_peek_lru list_lru c = Some (k, v) \<and> lru_peek list_lru c k = Some v"
    by (cases "last (ll_entries c)") (simp add: list_lru_def ll_valid_def)
qed (auto simp: list_lru_def ll_valid_def)

section \<open>Properties\<close>

text \<open>
  C23. Putting a page into the cache never drops a page that is dirty or pinned: whether the insertion is
  made or refused, every such page other than the one replaced is still cached, unchanged.
\<close>

theorem put_never_drops_busy:
  assumes "lru_cache L valid" "valid (cache c)" "cache_put L c i p = (r, c')"
    "cache_peek L c j b = Some q" "cp_dirty q \<or> 0 < pin_count q" "(j, b) \<noteq> (i, cp_block p)"
  shows "cache_peek L c' j b = Some q"
  using lru_cache.put_keeps_busy [OF assms(1-3), of "(j, b)" q] assms(4-6) by (simp add: cache_peek_def)

definition busy_cache :: "lru_list page_cache" where
  "busy_cache = \<lparr>capacity = 1, cache = \<lparr>ll_cap = 1,
     ll_entries = [((5, 9), (cached_page_new 9 [1, 2])\<lparr>cp_dirty := True, cp_inode := Some 5\<rparr>)]\<rparr>\<rparr>"

lemma busy_valid: "ll_valid (cache busy_cache)"
  by (simp add: busy_cache_def ll_valid_def)

theorem put_never_drops_busy_witness:
  "\<exists>r c'. cache_put list_lru busy_cache 6 (cached_page_new 7 [3]) = (r, c') \<and>
     cache_peek list_lru c' 5 9 = Some ((cached_page_new 9 [1, 2])\<lparr>cp_dirty := True, cp_inode := Some 5\<rparr>)"
proof -
  obtain r c' where e: "cache_put list_lru busy_cache 6 (cached_page_new 7 [3]) = (r, c')" by fastforce
  have "cache_peek list_lru busy_cache 5 9 = Some ((cached_page_new 9 [1, 2])\<lparr>cp_dirty := True, cp_inode := Some 5\<rparr>)"
    by (simp add: cache_peek_def list_lru_def busy_cache_def)
  from put_never_drops_busy [OF ll.lru_cache_axioms busy_valid e this] e show ?thesis by simp
qed


definition dirty_cache :: "lru_list page_cache" where
  "dirty_cache = \<lparr>capacity = 2, cache = \<lparr>ll_cap = 2,
     ll_entries = [((5, 2), (cached_page_new 2 (replicate BLOCK_SIZE 7))\<lparr>cp_dirty := True, cp_inode := Some 5\<rparr>)]\<rparr>\<rparr>"


text \<open>
  Loading a page returns, and caches, the newest version of its block that is in memory: the page
  itself when cached, else another inode's copy of the block, and only then what the device holds.
\<close>

theorem get_or_load_newest:
  assumes "lru_cache L valid" "valid (cache c)" "st_ok s" "b < size_blocks s"
  shows "\<exists>p c'. get_or_load L c s i b ix = (Ok p, c', s) \<and> cache_peek L c' i b = Some p \<and>
    (case cache_peek L c i b of
       Some q \<Rightarrow> p = q
     | None \<Rightarrow> (if \<exists>j q. j \<noteq> i \<and> cache_peek L c j b = Some q
               then \<exists>j q. j \<noteq> i \<and> cache_peek L c j b = Some q \<and> cp_data p = cp_data q
               else fst (read_block s b) = Ok (cp_data p)))"
proof -
  note g = lru_cache.get_law [OF assms(1,2), of "(i, b)"]
  obtain r l where rl: "lru_get L (cache c) (i, b) = (r, l)" by fastforce
  with g have l: "valid l" "lru_peek L l = lru_peek L (cache c)" "r = lru_peek L (cache c) (i, b)" by auto
  from dev.read_total [OF assms(3,4)] obtain d0 where d0: "peek_block s b = Ok d0" by blast
  let ?f = "find (\<lambda>x. snd (fst x) = b \<and> fst (fst x) \<noteq> i) (lru_iter L l)"
  show ?thesis
  proof (cases r)
    case (Some q)
    then have "get_or_load L c s i b ix = (Ok q, c\<lparr>cache := l\<rparr>, s)" using rl by (simp add: get_or_load_def)
    moreover have "lru_peek L (cache c) (i, b) = Some q" using Some l(3) by simp
    ultimately show ?thesis using l(2) by (simp add: cache_peek_def)
  next
    case None
    define d where "d = (case ?f of Some x \<Rightarrow> cp_data (snd x) | None \<Rightarrow> d0)"
    define p where "p = \<lparr>cp_block = b, cp_data = d, cp_dirty = False, cp_inode = Some i, cp_index = ix,
        pin_count = 0, cp_txid = 0\<rparr>"
    have "get_or_load L c s i b ix = (Ok p, c\<lparr>cache := lru_put L l (i, b) p\<rparr>, s)"
      using rl None d0 assms(3) by (cases ?f) (auto simp: get_or_load_def p_def d_def Let_def)
    moreover have "lru_peek L (lru_put L l (i, b) p) (i, b) = Some p"
      using lru_cache.put_law [OF assms(1) l(1), of "(i, b)" p] by simp
    moreover have "if \<exists>j q. j \<noteq> i \<and> lru_peek L l (j, b) = Some q
        then \<exists>j q. j \<noteq> i \<and> lru_peek L l (j, b) = Some q \<and> d = cp_data q else d = d0"
    proof (cases ?f)
      case None
      then have "\<not> (\<exists>j q. j \<noteq> i \<and> lru_peek L l (j, b) = Some q)"
        by (force simp: find_None_iff lru_cache.iter_peek [OF assms(1) l(1), symmetric])
      then show ?thesis using None unfolding d_def by auto
    next
      case (Some x)
      obtain j b' q where x: "x = ((j, b'), q)" by (metis surj_pair)
      from Some have "x \<in> set (lru_iter L l) \<and> snd (fst x) = b \<and> fst (fst x) \<noteq> i" by (rule find_SomeD)
      then have "x \<in> set (lru_iter L l)" "b' = b" "j \<noteq> i" by (auto simp: x)
      then have "j \<noteq> i \<and> lru_peek L l (j, b) = Some q" by (simp add: x lru_cache.iter_peek [OF assms(1) l(1)])
      then show ?thesis using Some by (auto simp: d_def x)
    qed
    ultimately show ?thesis using None l(2,3) d0 unfolding cache_peek_def peek_block_def
      by (auto simp: p_def split: if_splits)
  qed
qed

theorem get_or_load_newest_witness:
  "\<exists>p c'. get_or_load list_lru dirty_cache (MemoryStorage (mem_new 3)) 6 2 0 = (Ok p, c', MemoryStorage (mem_new 3)) \<and>
     cache_peek list_lru c' 6 2 = Some p \<and> cp_data p = replicate BLOCK_SIZE 7"
proof -
  let ?s = "MemoryStorage (mem_new 3)"
  have v: "ll_valid (cache dirty_cache)" by (simp add: dirty_cache_def ll_valid_def)
  have ok: "st_ok ?s" "2 < size_blocks ?s" by (simp_all add: mem_new_ok block_size_defs)
  have "cache_peek list_lru dirty_cache 6 2 = None"
    "\<exists>j q. j \<noteq> 6 \<and> cache_peek list_lru dirty_cache j 2 = Some q"
    "\<And>j q. cache_peek list_lru dirty_cache j 2 = Some q \<Longrightarrow> cp_data q = replicate BLOCK_SIZE 7"
    by (auto simp: cache_peek_def list_lru_def dirty_cache_def cached_page_new_def split: if_splits)
  with get_or_load_newest [OF ll.lru_cache_axioms v ok, of 6 0] show ?thesis by (auto split: if_splits)
qed

text \<open>
  Loading does not make that check: when the cache is full and its least recently used page is dirty
  or pinned, loading a page that is not cached drops it.
\<close>

theorem get_or_load_drops_busy:
  assumes "lru_cache L valid" "valid (cache c)" "st_ok s" "b < size_blocks s" "cache_peek L c i b = None"
    "lru_len L (snd (lru_get L (cache c) (i, b))) = lru_cap L (snd (lru_get L (cache c) (i, b)))"
    "lru_peek_lru L (snd (lru_get L (cache c) (i, b))) = Some ((j, k), q)"
  shows "\<exists>p c'. get_or_load L c s i b ix = (Ok p, c', s) \<and> cache_peek L c' j k = None"
proof -
  note g = lru_cache.get_law [OF assms(1,2), of "(i, b)"]
  obtain r l where rl: "lru_get L (cache c) (i, b) = (r, l)" by fastforce
  with g assms(5) have l: "valid l" "lru_peek L l = lru_peek L (cache c)" "r = None" by (auto simp: cache_peek_def)
  note v = lru_cache.view_law [OF assms(1) l(1)]
  have nc: "\<not> lru_contains L l (i, b)" "\<not> lru_len L l < lru_cap L l"
    using v l(2) assms(5,6) rl by (auto simp: cache_peek_def)
  from lru_cache.full_victim [OF assms(1) l(1) nc] assms(7) rl have ne: "(j, k) \<noteq> (i, b)" by auto
  from dev.read_total [OF assms(3,4)] obtain d0 where d0: "peek_block s b = Ok d0" by blast
  have "\<exists>p. get_or_load L c s i b ix = (Ok p, c\<lparr>cache := lru_put L l (i, b) p\<rparr>, s)"
    using rl l(3) d0 assms(3)
    by (cases "find (\<lambda>x. snd (fst x) = b \<and> fst (fst x) \<noteq> i) (lru_iter L l)") (auto simp: get_or_load_def Let_def)
  then obtain p where p: "get_or_load L c s i b ix = (Ok p, c\<lparr>cache := lru_put L l (i, b) p\<rparr>, s)" by blast
  have "lru_peek L (lru_put L l (i, b) p) (j, k) = None"
    using lru_cache.put_law [OF assms(1) l(1), of "(i, b)" p] nc ne assms(7) rl by auto
  with p show ?thesis by (auto simp: cache_peek_def)
qed

theorem get_or_load_drops_busy_witness:
  "\<exists>p c'. get_or_load list_lru busy_cache (MemoryStorage (mem_new 2)) 6 1 0 = (Ok p, c', MemoryStorage (mem_new 2)) \<and>
     has_dirty list_lru busy_cache \<and> cache_peek list_lru c' 5 9 = None"
proof -
  let ?s = "MemoryStorage (mem_new 2)"
  have ok: "st_ok ?s" "1 < size_blocks ?s" by (simp_all add: mem_new_ok block_size_defs)
  have "cache_peek list_lru busy_cache 6 1 = None" by (simp add: cache_peek_def list_lru_def busy_cache_def)
  note w = get_or_load_drops_busy [OF ll.lru_cache_axioms busy_valid ok this, of 5 9]
  have "has_dirty list_lru busy_cache" by (simp add: has_dirty_def list_lru_def busy_cache_def)
  with w show ?thesis by (simp add: list_lru_def busy_cache_def)
qed

text \<open>
  A read error of the device is not reported by a load: the page is returned, and cached, with
  empty data.
\<close>

theorem get_or_load_hides_error:
  assumes "lru_cache L valid" "valid (cache c)" "cache_peek L c i b = None" "cache_peek_block L c b = None"
    "read_block s b = (Err e, s')"
  shows "\<exists>p c'. get_or_load L c s i b ix = (Ok p, c', s') \<and> cp_data p = [] \<and> cache_peek L c' i b = Some p"
proof -
  note g = lru_cache.get_law [OF assms(1,2), of "(i, b)"]
  obtain r l where rl: "lru_get L (cache c) (i, b) = (r, l)" by fastforce
  with g assms(3) have l: "valid l" "lru_peek L l = lru_peek L (cache c)" "r = None" by (auto simp: cache_peek_def)
  have "lru_peek L (cache c) (j, b) = None" for j
    using assms(4) lru_cache.iter_peek [OF assms(1,2), of "(j, b)"]
    by (fastforce simp: cache_peek_block_def find_None_iff)
  then have "find (\<lambda>x. snd (fst x) = b \<and> fst (fst x) \<noteq> i) (lru_iter L l) = None"
    using l(2) lru_cache.iter_peek [OF assms(1) l(1)] by (fastforce simp: find_None_iff)
  then show ?thesis
    using rl l(3) assms(5) lru_cache.put_law [OF assms(1) l(1), of "(i, b)"]
    by (simp add: get_or_load_def Let_def cache_peek_def)
qed

theorem get_or_load_hides_error_witness:
  "\<exists>p c' s'. get_or_load list_lru busy_cache (MemoryStorage (mem_new 2)) 6 5 0 = (Ok p, c', s') \<and> cp_data p = []"
proof -
  let ?s = "MemoryStorage (mem_new 2)"
  have "read_block ?s 5 = (Err (Other ''read beyond end of storage''), ?s)"
    by (simp add: mem_read_block_def mem_block_to_offset_def mem_read_bytes_def mem_new_def add_u64_def block_size_defs)
  moreover have "cache_peek list_lru busy_cache 6 5 = None" "cache_peek_block list_lru busy_cache 5 = None"
    by (simp_all add: cache_peek_def cache_peek_block_def list_lru_def busy_cache_def)
  ultimately show ?thesis using get_or_load_hides_error [OF ll.lru_cache_axioms busy_valid, of 6 5] by blast
qed

end
