(* ===== verification/Transaction.thy ===== *)
theory Transaction
  imports Page_Cache Log_Scan
begin

text \<open>
  The transaction manager of \<open>transaction.rs\<close>. A commit works on the page cache, the file system device and
  the log manager with its device; an inline log shares the file system's storage handle, which the
  model has as \<open>None\<close> for the log device. The mutex field, which no method locks, is left out, and the
  atomic counters are plain numbers, \<open>fetch_add\<close> wrapping at 64 bits.
\<close>

section \<open>State\<close>

record active_txn =
  at_txid :: nat
  at_dirty_pages :: "page_key list"
  at_allocated :: "nat list"
  at_freed :: "nat list"

record tx_mgr =
  next_txid :: nat
  active :: "active_txn option"
  last_committed :: nat

record commit_result =
  pages_written :: nat
  cr_txid :: nat

definition tx_new :: tx_mgr where
  "tx_new = \<lparr>next_txid = 1, active = None, last_committed = 0\<rparr>"

record 'c tx_world =
  tw_cache :: "'c page_cache"
  tw_fs :: storage
  tw_log :: "(logmgr \<times> storage option) option"

section \<open>Operations\<close>

definition tx_begin :: "tx_mgr \<Rightarrow> nat res \<times> tx_mgr" where
  "tx_begin tm =
     (if active tm \<noteq> None then (Err (Other ''transaction already in progress''), tm)
      else
        let txid = next_txid tm in
        (Ok txid, tm\<lparr>next_txid := (txid + 1) mod 2 ^ 64,
           active := Some \<lparr>at_txid = txid, at_dirty_pages = [], at_allocated = [], at_freed = []\<rparr>\<rparr>))"

definition current_txid :: "tx_mgr \<Rightarrow> nat option" where
  "current_txid tm =
     (case active tm of
        Some a \<Rightarrow> Some (at_txid a)
      | None \<Rightarrow> if 0 < last_committed tm then Some (last_committed tm) else None)"

definition has_active_transaction :: "tx_mgr \<Rightarrow> bool" where
  "has_active_transaction tm \<longleftrightarrow> active tm \<noteq> None"

definition tx_mark_dirty :: "'c lru \<Rightarrow> tx_mgr \<Rightarrow> 'c page_cache \<Rightarrow> 32 word \<Rightarrow> nat \<Rightarrow> unit res \<times> tx_mgr \<times> 'c page_cache" where
  "tx_mark_dirty L tm c ino block =
     (case active tm of
        None \<Rightarrow> (Err (Other ''no active transaction''), tm, c)
      | Some a \<Rightarrow>
          let c' = cache_mark_dirty_txn L c ino block (at_txid a);
              a' = (if (ino, block) \<in> set (at_dirty_pages a) then a
                    else a\<lparr>at_dirty_pages := at_dirty_pages a @ [(ino, block)]\<rparr>)
          in (Ok (), tm\<lparr>active := Some a'\<rparr>, c'))"

definition record_allocation :: "tx_mgr \<Rightarrow> nat \<Rightarrow> unit res \<times> tx_mgr" where
  "record_allocation tm block =
     (case active tm of
        None \<Rightarrow> (Err (Other ''no active transaction''), tm)
      | Some a \<Rightarrow> (Ok (), tm\<lparr>active := Some (a\<lparr>at_allocated := at_allocated a @ [block]\<rparr>)\<rparr>))"

definition record_free :: "tx_mgr \<Rightarrow> nat \<Rightarrow> unit res \<times> tx_mgr" where
  "record_free tm block =
     (case active tm of
        None \<Rightarrow> (Err (Other ''no active transaction''), tm)
      | Some a \<Rightarrow> (Ok (), tm\<lparr>active := Some (a\<lparr>at_freed := at_freed a @ [block]\<rparr>)\<rparr>))"

text \<open>Running a storage operation on the file system, and a log manager operation on the log device.\<close>

definition on_fs :: "(storage \<Rightarrow> unit res \<times> storage) \<Rightarrow> 'c tx_world \<Rightarrow> unit res \<times> 'c tx_world" where
  "on_fs f w = (let (r, s) = f (tw_fs w) in (r, w\<lparr>tw_fs := s\<rparr>))"

definition on_log :: "(logmgr \<Rightarrow> storage \<Rightarrow> unit res \<times> (logmgr \<times> storage)) \<Rightarrow> 'c tx_world \<Rightarrow> unit res \<times> 'c tx_world" where
  "on_log f w =
     (case tw_log w of
        None \<Rightarrow> (Ok (), w)
      | Some (jm, Some ls) \<Rightarrow> (let (r, jm', ls') = f jm ls in (r, w\<lparr>tw_log := Some (jm', Some ls')\<rparr>))
      | Some (jm, None) \<Rightarrow> (let (r, jm', s') = f jm (tw_fs w) in (r, w\<lparr>tw_log := Some (jm', None), tw_fs := s'\<rparr>)))"

fun append_records :: "'c lru \<Rightarrow> nat \<Rightarrow> page_key list \<Rightarrow> 'c tx_world \<Rightarrow> unit res \<times> 'c tx_world" where
  "append_records L txid [] w = (Ok (), w)"
| "append_records L txid ((ino, block) # ps) w =
     (let (page, c) = cache_get L (tw_cache w) ino block; w1 = w\<lparr>tw_cache := c\<rparr> in
      case page of
        None \<Rightarrow> append_records L txid ps w1
      | Some p \<Rightarrow>
          st_bind (on_log (append_log_record txid block (cp_data p)) w1) (\<lambda>_ w2. append_records L txid ps w2))"

definition journal_phase :: "'c lru \<Rightarrow> nat \<Rightarrow> page_key list \<Rightarrow> 'c tx_world \<Rightarrow> unit res \<times> 'c tx_world" where
  "journal_phase L txid ps w =
     (if tw_log w = None then (Ok (), w)
      else st_bind (append_records L txid ps w) (\<lambda>_ w1. on_log (commit_transaction txid) w1))"

fun write_dirty :: "'c lru \<Rightarrow> page_key list \<Rightarrow> nat \<Rightarrow> 'c tx_world \<Rightarrow> nat res \<times> 'c tx_world" where
  "write_dirty L [] written w = (Ok written, w)"
| "write_dirty L ((ino, block) # ps) written w =
     (let (page, c) = cache_get L (tw_cache w) ino block; w1 = w\<lparr>tw_cache := c\<rparr> in
      case page of
        None \<Rightarrow> write_dirty L ps written w1
      | Some p \<Rightarrow>
          st_bind (on_fs (\<lambda>s. write_block s block (cp_data p)) w1) (\<lambda>_ w2. write_dirty L ps (written + 1) w2))"

text \<open>The body of the loops in \<open>abort_pages\<close> and \<open>abort\<close>.\<close>

definition abort_page :: "'c lru \<Rightarrow> page_key \<Rightarrow> 'c page_cache \<Rightarrow> 'c page_cache" where
  "abort_page L k c =
     (let (page, c1) = cache_get L c (fst k) (snd k);
          c2 = (case page of Some p \<Rightarrow> snd (cache_put L c1 (fst k) (cp_unpin (clean_page p))) | None \<Rightarrow> c1)
      in unpin_page L c2 (fst k) (snd k))"

definition abort_pages :: "'c lru \<Rightarrow> page_key list \<Rightarrow> 'c page_cache \<Rightarrow> 'c page_cache" where
  "abort_pages L ps c = fold (abort_page L) ps c"

definition release_pages :: "'c lru \<Rightarrow> page_key list \<Rightarrow> 'c page_cache \<Rightarrow> 'c page_cache" where
  "release_pages L ps c = fold (\<lambda>(ino, block) c. cache_release L (unpin_page L c ino block) ino block) ps c"

definition tx_commit :: "'c lru \<Rightarrow> tx_mgr \<Rightarrow> 'c tx_world \<Rightarrow> commit_result res \<times> tx_mgr \<times> 'c tx_world" where
  "tx_commit L tm w =
     (case active tm of
        None \<Rightarrow> (Err (Other ''no active transaction''), tm, w)
      | Some a \<Rightarrow>
          let tm1 = tm\<lparr>active := None\<rparr>; txid = at_txid a; ps = at_dirty_pages a;
              (r, w1) =
                st_bind (on_fs flush_data w) (\<lambda>_ w1.
                st_bind (journal_phase L txid ps w1) (\<lambda>_ w2.
                st_bind (write_dirty L ps 0 w2) (\<lambda>n w3.
                st_bind (on_fs flush_metadata w3) (\<lambda>_ w4. (Ok n, w4)))))
          in case r of
               Ok n \<Rightarrow> (Ok \<lparr>pages_written = n, cr_txid = txid\<rparr>, tm1\<lparr>last_committed := txid\<rparr>,
                        w1\<lparr>tw_cache := release_pages L ps (tw_cache w1)\<rparr>)
             | Err e \<Rightarrow> (Err e, tm1, w1\<lparr>tw_cache := abort_pages L ps (tw_cache w1)\<rparr>)
             | Panic \<Rightarrow> (Panic, tm1, w1)
             | Exit \<Rightarrow> (Exit, tm1, w1))"

definition tx_abort :: "'c lru \<Rightarrow> tx_mgr \<Rightarrow> 'c page_cache \<Rightarrow> tx_mgr \<times> 'c page_cache" where
  "tx_abort L tm c =
     (case active tm of
        None \<Rightarrow> (tm, c)
      | Some a \<Rightarrow> (tm\<lparr>active := None\<rparr>, abort_pages L (at_dirty_pages a) c))"

section \<open>The effect of a commit\<close>

definition page_data :: "'c lru \<Rightarrow> 'c page_cache \<Rightarrow> page_key \<Rightarrow> bytes" where
  "page_data L c k = (case cache_peek L c (fst k) (snd k) of Some p \<Rightarrow> cp_data p | None \<Rightarrow> [])"

text \<open>The dirty pages of a transaction that can be committed: cached whole blocks of the device.\<close>

definition committable :: "'c lru \<Rightarrow> 'c page_cache \<Rightarrow> storage \<Rightarrow> page_key list \<Rightarrow> bool" where
  "committable L c s ps \<longleftrightarrow> distinct (map snd ps) \<and>
     (\<forall>k\<in>set ps. cache_peek L c (fst k) (snd k) \<noteq> None \<and> snd k < size_blocks s \<and> length (page_data L c k) = BLOCK_SIZE)"

definition images :: "'c lru \<Rightarrow> 'c page_cache \<Rightarrow> page_key list \<Rightarrow> (nat \<times> bytes) list" where
  "images L c ps = map (\<lambda>k. (snd k, page_data L c k)) ps"

lemma images_member: "(b, d) \<in> set (images L c ps) \<Longrightarrow> \<exists>q\<in>set ps. b = snd q \<and> d = page_data L c q"
  by (auto simp: images_def)

lemma cache_get_peek:
  assumes "lru_cache L valid" "valid (cache c)" "cache_get L c i b = (r, c')"
  shows "valid (cache c') \<and> r = cache_peek L c i b \<and> (\<forall>j k. cache_peek L c' j k = cache_peek L c j k)"
  using lru_cache.get_law [OF assms(1,2), of "(i, b)"] assms(3)
  by (auto simp: cache_get_def cache_peek_def split: prod.splits)

lemma page_data_cong: "(\<forall>j k. cache_peek L c' j k = cache_peek L c j k) \<Longrightarrow> page_data L c' = page_data L c"
  by (simp add: page_data_def fun_eq_iff)

abbreviation in_cache :: "'c lru \<Rightarrow> 'c page_cache \<Rightarrow> page_key list \<Rightarrow> page_key list" where
  "in_cache L c ps \<equiv> filter (\<lambda>k. cache_peek L c (fst k) (snd k) \<noteq> None) ps"

lemma write_dirty_images:
  assumes "lru_cache L valid" "valid (cache (tw_cache w))"
    "write_seq write_block (tw_fs w) (images L (tw_cache w) (in_cache L (tw_cache w) ps)) = (Ok (), s')"
  shows "\<exists>w'. write_dirty L ps n w = (Ok (n + length (in_cache L (tw_cache w) ps)), w') \<and> tw_fs w' = s' \<and> tw_log w' = tw_log w \<and>
    valid (cache (tw_cache w')) \<and> (\<forall>j k. cache_peek L (tw_cache w') j k = cache_peek L (tw_cache w) j k)"
  using assms(2-)
proof (induction ps arbitrary: n w)
  case Nil
  then show ?case by (simp add: images_def)
next
  case (Cons k ps)
  obtain i b where k: "k = (i, b)" by (cases k)
  obtain r c where g: "cache_get L (tw_cache w) i b = (r, c)" by fastforce
  note gp = cache_get_peek [OF assms(1) Cons.prems(1) g]
  have cong: "images L c (in_cache L c ps) = images L (tw_cache w) (in_cache L (tw_cache w) ps)"
    "in_cache L c ps = in_cache L (tw_cache w) ps"
    using gp page_data_cong [of L c "tw_cache w"] by (simp_all add: images_def)
  show ?case
  proof (cases r)
    case None
    then have "in_cache L (tw_cache w) (k # ps) = in_cache L (tw_cache w) ps" using gp by (simp add: k)
    then show ?thesis using Cons.IH [of "w\<lparr>tw_cache := c\<rparr>" n] Cons.prems(2) None g gp cong by (simp add: k)
  next
    case (Some p)
    then have p: "in_cache L (tw_cache w) (k # ps) = k # in_cache L (tw_cache w) ps" "page_data L (tw_cache w) k = cp_data p"
      using gp by (auto simp: k page_data_def)
    from Cons.prems(2) obtain s1 where s1: "write_block (tw_fs w) b (cp_data p) = (Ok (), s1)"
      "write_seq write_block s1 (images L (tw_cache w) (in_cache L (tw_cache w) ps)) = (Ok (), s')"
      unfolding p(1) by (auto simp: images_def k st_bind_Ok_iff p(2) [unfolded k])
    have "write_dirty L (k # ps) n w = write_dirty L ps (n + 1) (w\<lparr>tw_cache := c, tw_fs := s1\<rparr>)"
      using g Some s1(1) by (simp add: k on_fs_def)
    then show ?thesis using Cons.IH [of "w\<lparr>tw_cache := c, tw_fs := s1\<rparr>" "n + 1"] s1(2) gp cong unfolding p(1) by simp
  qed
qed

lemma release_pages_peek:
  assumes "lru_cache L valid" "valid (cache c)"
  shows "valid (cache (release_pages L ps c)) \<and>
    (\<forall>j b. cache_peek L (release_pages L ps c) j b = (if (j, b) \<in> set ps then None else cache_peek L c j b))"
  using assms(2)
proof (induction ps arbitrary: c)
  case Nil
  then show ?case by (simp add: release_pages_def)
next
  case (Cons k ps)
  obtain i b where k: "k = (i, b)" by (cases k)
  let ?l = "lru_get_mut L (cache c) (i, b) cp_unpin"
  let ?c = "cache_release L (unpin_page L c i b) i b"
  note m = lru_cache.get_mut_law [OF assms(1) Cons.prems, of "(i, b)" cp_unpin]
  note q = lru_cache.pop_law [OF assms(1), of ?l "(i, b)"]
  have c: "valid (cache ?c)" "\<And>j a. cache_peek L ?c j a = (if (j, a) = (i, b) then None else cache_peek L c j a)"
    using m q by (auto simp: cache_release_def unpin_page_def cache_peek_def)
  have "release_pages L (k # ps) c = release_pages L ps ?c" by (simp add: release_pages_def k)
  with Cons.IH [OF c(1)] c(2) show ?case by (auto simp: k)
qed

text \<open>The log records of a transaction: an image per dirty page, then the commit.\<close>

definition txn_ops :: "nat \<Rightarrow> (nat \<times> bytes) list \<Rightarrow> log_op list" where
  "txn_ops txid xs = map (\<lambda>(b, d). Append txid b d) xs @ [Commit txid]"

lemma run_ops_append:
  "run_ops (xs @ ys) m s = st_bind (run_ops xs m s) (\<lambda>_ (m', s'). run_ops ys m' s')"
  by (induction xs arbitrary: m s) (auto simp: st_bind_assoc split_def)

text \<open>The log writes to a device of its own, or to that of the file system.\<close>

definition log_device :: "storage option \<Rightarrow> 'c tx_world \<Rightarrow> storage" where
  "log_device dev w = (case dev of Some ls \<Rightarrow> ls | None \<Rightarrow> tw_fs w)"

definition logged :: "storage option \<Rightarrow> logmgr \<Rightarrow> storage \<Rightarrow> 'c tx_world \<Rightarrow> 'c tx_world \<Rightarrow> bool" where
  "logged dev jm ls w w' \<longleftrightarrow> (if dev = None then tw_log w' = Some (jm, None) \<and> tw_fs w' = ls
     else tw_log w' = Some (jm, Some ls) \<and> tw_fs w' = tw_fs w)"

lemma on_log_run:
  "tw_log w = Some (jm, dev) \<Longrightarrow> f jm (log_device dev w) = (r, (jm', ls')) \<Longrightarrow>
   \<exists>w' dev'. on_log f w = (r, w') \<and> logged dev jm' ls' w w' \<and> tw_cache w' = tw_cache w \<and> tw_log w' = Some (jm', dev') \<and>
     (dev' = None \<longleftrightarrow> dev = None) \<and> log_device dev' w' = ls'"
  by (cases dev) (auto simp: on_log_def log_device_def logged_def)

lemma logged_trans: "logged dev jm1 ls1 w w1 \<Longrightarrow> logged dev1 jm ls w1 w' \<Longrightarrow> (dev1 = None \<longleftrightarrow> dev = None) \<Longrightarrow> logged dev jm ls w w'"
  by (auto simp: logged_def split: if_splits)

lemma append_records_run:
  assumes "lru_cache L valid" "valid (cache (tw_cache w))" "\<forall>k\<in>set ps. cache_peek L (tw_cache w) (fst k) (snd k) \<noteq> None"
    "tw_log w = Some (jm, dev)"
    "run_ops (map (\<lambda>(b, d). Append txid b d) (images L (tw_cache w) ps)) jm (log_device dev w) = (Ok (), (jm', ls'))"
  shows "\<exists>w' dev'. append_records L txid ps w = (Ok (), w') \<and> logged dev jm' ls' w w' \<and> tw_log w' = Some (jm', dev') \<and>
    (dev' = None \<longleftrightarrow> dev = None) \<and> log_device dev' w' = ls' \<and>
    valid (cache (tw_cache w')) \<and> (\<forall>j k. cache_peek L (tw_cache w') j k = cache_peek L (tw_cache w) j k)"
  using assms(2-)
proof (induction ps arbitrary: w jm dev)
  case Nil
  then show ?case by (intro exI [of _ w] exI [of _ dev]) (auto simp: images_def logged_def log_device_def)
next
  case (Cons k ps)
  obtain i b where k: "k = (i, b)" by (cases k)
  obtain r c where g: "cache_get L (tw_cache w) i b = (r, c)" by fastforce
  note gp = cache_get_peek [OF assms(1) Cons.prems(1) g]
  from Cons.prems(2) gp obtain p where p: "r = Some p" "page_data L (tw_cache w) k = cp_data p"
    by (auto simp: k page_data_def)
  let ?w = "w\<lparr>tw_cache := c\<rparr>"
  from Cons.prems(4) p(2) obtain jm1 ls1 where j: "append_log_record txid b (cp_data p) jm (log_device dev ?w) = (Ok (), (jm1, ls1))"
    "run_ops (map (\<lambda>(b, d). Append txid b d) (images L (tw_cache w) ps)) jm1 ls1 = (Ok (), (jm', ls'))"
    by (auto simp: images_def k st_bind_Ok_iff log_device_def split: option.splits)
  from on_log_run [of ?w jm dev "append_log_record txid b (cp_data p)", OF _ j(1)] Cons.prems(3) obtain w1 dev1 where
    o: "on_log (append_log_record txid b (cp_data p)) ?w = (Ok (), w1)" "logged dev jm1 ls1 ?w w1" "tw_cache w1 = c"
    "tw_log w1 = Some (jm1, dev1)" "dev1 = None \<longleftrightarrow> dev = None" "log_device dev1 w1 = ls1" by auto
  have "append_records L txid (k # ps) w = append_records L txid ps w1"
    using g p(1) o(1) by (simp add: k)
  moreover have "images L (tw_cache w1) ps = images L (tw_cache w) ps"
    using gp o(3) page_data_cong [of L c "tw_cache w"] by (simp add: images_def)
  then have "\<exists>w' dev'. append_records L txid ps w1 = (Ok (), w') \<and> logged dev1 jm' ls' w1 w' \<and> tw_log w' = Some (jm', dev') \<and>
      (dev' = None \<longleftrightarrow> dev1 = None) \<and> log_device dev' w' = ls' \<and>
      valid (cache (tw_cache w')) \<and> (\<forall>j k. cache_peek L (tw_cache w') j k = cache_peek L (tw_cache w1) j k)"
    using gp j(2) o(3-6) Cons.prems(2) by (intro Cons.IH) auto
  moreover have "logged dev jm1 ls1 w w1" using o(2) by (simp add: logged_def)
  ultimately show ?case using gp o(3,5) logged_trans by (metis (no_types, lifting))
qed

lemma journal_phase_run:
  assumes "lru_cache L valid" "valid (cache (tw_cache w))" "\<forall>k\<in>set ps. cache_peek L (tw_cache w) (fst k) (snd k) \<noteq> None"
    "tw_log w = Some (jm, dev)"
    "run_ops (txn_ops txid (images L (tw_cache w) ps)) jm (log_device dev w) = (Ok (), (jm', ls'))"
  shows "\<exists>w'. journal_phase L txid ps w = (Ok (), w') \<and> logged dev jm' ls' w w'"
proof -
  from assms(5) obtain jm1 ls1 where
    r: "run_ops (map (\<lambda>(b, d). Append txid b d) (images L (tw_cache w) ps)) jm (log_device dev w) = (Ok (), (jm1, ls1))"
    "commit_transaction txid jm1 ls1 = (Ok (), (jm', ls'))"
    by (auto simp: txn_ops_def run_ops_append st_bind_Ok_iff)
  from append_records_run [OF assms(1-4) r(1)] obtain w1 dev1 where
    w1: "append_records L txid ps w = (Ok (), w1)" "logged dev jm1 ls1 w w1" "tw_log w1 = Some (jm1, dev1)"
    "dev1 = None \<longleftrightarrow> dev = None" "log_device dev1 w1 = ls1" by blast
  from on_log_run [OF w1(3), of "commit_transaction txid"] r(2) w1(5) obtain w2 where
    w2: "on_log (commit_transaction txid) w1 = (Ok (), w2)" "logged dev1 jm' ls' w1 w2" by auto
  have "journal_phase L txid ps w = (Ok (), w2)" using assms(4) w1(1) w2(1) by (simp add: journal_phase_def)
  with logged_trans [OF w1(2) w2(2) w1(4)] show ?thesis by blast
qed

section \<open>Crashes\<close>

lemma commit_in_txn:
  "word_of_nat txid \<in> logtid_val ` fst ` set (filter (\<lambda>x. is_commit (fst x)) (op_records p off (txn_ops txid xs)))"
proof -
  have "\<exists>x\<in>set (op_records p off (txn_ops txid xs)). is_commit (fst x) \<and> logtid_val (fst x) = word_of_nat txid"
    by (induction xs arbitrary: p off) (auto simp: txn_ops_def)
  then show ?thesis by force
qed

lemma committed_images_txn:
  assumes "\<And>b d. (b, d) \<in> set xs \<Longrightarrow> b < 2 ^ 40"
  shows "committed_images (op_records p off (txn_ops txid xs)) = xs"
  using assms
proof (induction xs arbitrary: p off)
  case Nil
  then show ?case by (simp add: txn_ops_def)
next
  case (Cons x xs)
  obtain b d where x: "x = (b, d)" by (cases x)
  have "b < 2 ^ 40" using Cons.prems [of b d] by (simp add: x)
  moreover have "committed_images (op_records off (off + 36 + length d) (txn_ops txid xs)) = xs"
    using Cons.prems by (intro Cons.IH) auto
  moreover have "op_records p off (txn_ops txid (x # xs)) =
      (redo_lrd txid p b (length d), d) # op_records off (off + 36 + length d) (txn_ops txid xs)"
    by (simp add: txn_ops_def x)
  ultimately show ?case using commit_in_txn [of txid off "off + 36 + length d" xs] by (simp add: x)
qed

lemma write_dirty_log: "tw_log (snd (write_dirty L ps n w)) = tw_log w"
proof (induction L ps n w rule: write_dirty.induct)
  case (2 L ino block ps n w)
  obtain page c where g: "cache_get L (tw_cache w) ino block = (page, c)" by fastforce
  let ?w = "w\<lparr>tw_cache := c\<rparr>"
  show ?case
  proof (cases page)
    case None
    with 2 g show ?thesis by simp
  next
    case (Some p)
    obtain r s where b: "write_block (tw_fs w) block (cp_data p) = (r, s)" by fastforce
    with 2(2) [of "(page, c)" page c ?w p] g Some show ?thesis by (cases r) (simp_all add: on_fs_def)
  qed
qed simp

lemma commit_keeps_log:
  assumes "active tm = Some a" "on_fs flush_data w = (Ok (), w1)"
    "journal_phase L (at_txid a) (at_dirty_pages a) w1 = (Ok (), w2)" "tx_commit L tm w = (r, tm', w')"
  shows "tw_log w' = tw_log w2"
proof -
  obtain r3 w3 where d: "write_dirty L (at_dirty_pages a) 0 w2 = (r3, w3)" by fastforce
  have l3: "tw_log w3 = tw_log w2" using write_dirty_log [of L "at_dirty_pages a" 0 w2] d by simp
  obtain r4 s4 where f: "flush_metadata (tw_fs w3) = (r4, s4)" by fastforce
  show ?thesis
    using assms d f l3 by (cases r3; cases r4) (auto simp: tx_commit_def on_fs_def [of flush_metadata] Let_def)
qed

lemma committable_plain:
  assumes "committable L c fs ps" "size_blocks fs \<le> 2 ^ 40"
  shows "committed_images (op_records 0 0 (txn_ops txid (images L c ps))) = images L c ps"
    "plain_log fs (op_records 0 0 (txn_ops txid (images L c ps)))"
    "distinct (map fst (images L c ps))"
proof -
  show i: "committed_images (op_records 0 0 (txn_ops txid (images L c ps))) = images L c ps"
    using assms by (intro committed_images_txn) (fastforce simp: images_def committable_def)
  show "plain_log fs (op_records 0 0 (txn_ops txid (images L c ps)))"
    unfolding plain_log_def i using assms(1) ops_plain by (auto simp: images_def committable_def)
  show "distinct (map fst (images L c ps))" using assms(1) by (simp add: images_def committable_def comp_def)
qed

text \<open>
  A transaction with its log on another device: once its log records are flushed, it does not matter how far
  the metadata writes of the commit get or how they fail. Whatever healthy device is found after the
  crash, replaying the log puts the data of the dirty pages of the transaction on their blocks.
\<close>

theorem external_log_recoverable:
  assumes "lru_cache L valid" "valid (cache (tw_cache w))" "active tm = Some a"
    "tw_log w = Some (logmgr_new ls base, Some lg)" "fst (flush_data (tw_fs w)) = Ok ()"
    "fits_buffer ls base (txn_ops (at_txid a) (images L (tw_cache w) (at_dirty_pages a))) lg"
    "ls_state_val ls \<noteq> LOGREDONE" "tx_commit L tm w = (r, tm', w')"
    "st_ok fs" "size_blocks fs \<le> 2 ^ 40" "committable L (tw_cache w) fs (at_dirty_pages a)"
  shows "\<exists>jm' lg' l rc' log' fs'. tw_log w' = Some (jm', Some lg') \<and> lm_read_super lg' base = (Ok l, lg') \<and>
    replay (recovery_new l) lg' fs (data_start (logmgr_new l base)) = (Ok (), rc', log', fs') \<and>
    (\<forall>k\<in>set (at_dirty_pages a). fst (read_block fs' (snd k)) = Ok (page_data L (tw_cache w) k)) \<and>
    (\<forall>b. b \<notin> snd ` set (at_dirty_pages a) \<longrightarrow> fst (read_block fs' b) = fst (read_block fs b))"
proof -
  let ?ps = "at_dirty_pages a" and ?I = "images L (tw_cache w) (at_dirty_pages a)"
  note c = committable_plain(1,2) [OF assms(11,10), of "at_txid a"] committable_plain(3) [OF assms(11,10)]
  have "\<exists>m' s' l rc' log' fs'. run_ops (txn_ops (at_txid a) ?I) (logmgr_new ls base) lg = (Ok (), (m', s')) \<and>
      lm_read_super s' base = (Ok l, s') \<and>
      replay (recovery_new l) s' fs (data_start (logmgr_new l base)) = (Ok (), rc', log', fs') \<and>
      (\<forall>b d. (b, d) \<in> set ?I \<longrightarrow> fst (read_block fs' b) = Ok d) \<and>
      (\<forall>b. b \<notin> fst ` set ?I \<longrightarrow> fst (read_block fs' b) = fst (read_block fs b)) \<and>
      ls_state_val (rc_logsuper rc') = LOGREDONE"
    using recover_run [OF assms(6) [unfolded txn_ops_def] assms(7,9), folded txn_ops_def] c by simp
  then obtain m' s' l rc' log' fs' where
    r: "run_ops (txn_ops (at_txid a) ?I) (logmgr_new ls base) lg = (Ok (), (m', s'))" "lm_read_super s' base = (Ok l, s')"
    "replay (recovery_new l) s' fs (data_start (logmgr_new l base)) = (Ok (), rc', log', fs')"
    "\<And>b d. (b, d) \<in> set ?I \<Longrightarrow> fst (read_block fs' b) = Ok d"
    "\<And>b. b \<notin> fst ` set ?I \<Longrightarrow> fst (read_block fs' b) = fst (read_block fs b)" by metis
  obtain w1 where w1: "on_fs flush_data w = (Ok (), w1)" "tw_cache w1 = tw_cache w" "tw_log w1 = tw_log w"
    using assms(5) by (cases "flush_data (tw_fs w)") (simp add: on_fs_def)
  have "\<forall>k\<in>set ?ps. cache_peek L (tw_cache w1) (fst k) (snd k) \<noteq> None"
    using assms(11) w1(2) by (simp add: committable_def)
  moreover have "run_ops (txn_ops (at_txid a) (images L (tw_cache w1) ?ps)) (logmgr_new ls base) lg = (Ok (), (m', s'))"
    using r(1) w1(2) by simp
  ultimately obtain w2 where
    w2: "journal_phase L (at_txid a) ?ps w1 = (Ok (), w2)" "tw_log w2 = Some (m', Some s')"
    using journal_phase_run [OF assms(1), of w1 ?ps "logmgr_new ls base" "Some lg" "at_txid a"] assms(2,4) w1(2,3)
    by (auto simp: log_device_def logged_def)
  have "tw_log w' = Some (m', Some s')" using commit_keeps_log [OF assms(3) w1(1) w2(1) assms(8)] w2(2) by simp
  moreover have "fst (read_block fs' (snd k)) = Ok (page_data L (tw_cache w) k)" if "k \<in> set ?ps" for k
    using that by (intro r(4)) (auto simp: images_def)
  moreover have "fst (read_block fs' b) = fst (read_block fs b)" if "b \<notin> snd ` set ?ps" for b
    using that by (intro r(5)) (force simp: images_def)
  ultimately show ?thesis using r(2,3) by blast
qed

section \<open>Transaction identifiers\<close>

text \<open>The calls that change the manager; a new transaction is begun before the counter is exhausted.\<close>

inductive tx_step :: "'c lru \<Rightarrow> tx_mgr \<Rightarrow> tx_mgr \<Rightarrow> bool" for L where
  tx_step_begin: "tx_begin tm = (r, tm') \<Longrightarrow> next_txid tm + 1 < 2 ^ 64 \<Longrightarrow> tx_step L tm tm'"
| tx_step_dirty: "tx_mark_dirty L tm c i b = (r, tm', c') \<Longrightarrow> tx_step L tm tm'"
| tx_step_alloc: "record_allocation tm b = (r, tm') \<Longrightarrow> tx_step L tm tm'"
| tx_step_free: "record_free tm b = (r, tm') \<Longrightarrow> tx_step L tm tm'"
| tx_step_commit: "tx_commit L tm w = (r, tm', w') \<Longrightarrow> tx_step L tm tm'"
| tx_step_abort: "tx_abort L tm c = (tm', c') \<Longrightarrow> tx_step L tm tm'"

definition ids_ordered :: "tx_mgr \<Rightarrow> bool" where
  "ids_ordered tm \<longleftrightarrow> last_committed tm < next_txid tm \<and>
     (case active tm of Some a \<Rightarrow> last_committed tm < at_txid a \<and> at_txid a < next_txid tm | None \<Rightarrow> True)"

lemma tx_commit_tm:
  assumes "tx_commit L tm w = (r, tm', w')"
  shows "tm' = tm \<and> active tm = None \<or>
    (\<exists>a. active tm = Some a \<and> tm' \<in> {tm\<lparr>active := None\<rparr>, tm\<lparr>active := None, last_committed := at_txid a\<rparr>})"
  using assms by (auto simp: tx_commit_def Let_def split: option.splits prod.splits res.splits)

lemma tx_step_ordered:
  assumes "tx_step L tm tm'" "ids_ordered tm"
  shows "ids_ordered tm' \<and> next_txid tm \<le> next_txid tm' \<and> last_committed tm \<le> last_committed tm'"
  using assms
proof cases
  case (tx_step_commit w r w')
  with assms(2) show ?thesis by (auto simp: ids_ordered_def dest!: tx_commit_tm)
qed (auto simp: ids_ordered_def tx_begin_def tx_mark_dirty_def record_allocation_def record_free_def tx_abort_def
    Let_def split: if_splits option.splits)

text \<open>
  C25. Transaction identifiers grow: after any sequence of calls on a fresh manager, as long as the 64-bit counter is not exhausted, a
  new transaction gets an identifier above that of every transaction committed or begun before; while one is
  active a second one cannot begin: the call returns an error at once and changes nothing.
\<close>

theorem txids_increase:
  assumes "(tx_step L)\<^sup>*\<^sup>* tx_new tm"
  shows "(case active tm of
       None \<Rightarrow> \<exists>tm'. tx_begin tm = (Ok (next_txid tm), tm') \<and> last_committed tm < next_txid tm
     | Some a \<Rightarrow> tx_begin tm = (Err (Other ''transaction already in progress''), tm) \<and>
         last_committed tm < at_txid a \<and> at_txid a < next_txid tm) \<and>
     (\<forall>tm2. (tx_step L)\<^sup>*\<^sup>* tm tm2 \<longrightarrow> next_txid tm \<le> next_txid tm2 \<and> last_committed tm \<le> last_committed tm2)"
proof -
  have "ids_ordered tx_new" by (simp add: ids_ordered_def tx_new_def)
  with assms have o: "ids_ordered tm" by (induction rule: rtranclp_induct) (auto dest: tx_step_ordered)
  have "ids_ordered tm2 \<and> next_txid tm \<le> next_txid tm2 \<and> last_committed tm \<le> last_committed tm2"
    if "(tx_step L)\<^sup>*\<^sup>* tm tm2" for tm2
    using that o by (induction rule: rtranclp_induct) (fastforce dest: tx_step_ordered)+
  then have "\<forall>tm2. (tx_step L)\<^sup>*\<^sup>* tm tm2 \<longrightarrow> next_txid tm \<le> next_txid tm2 \<and> last_committed tm \<le> last_committed tm2"
    by blast
  moreover from o have "case active tm of
       None \<Rightarrow> \<exists>tm'. tx_begin tm = (Ok (next_txid tm), tm') \<and> last_committed tm < next_txid tm
     | Some a \<Rightarrow> tx_begin tm = (Err (Other ''transaction already in progress''), tm) \<and>
         last_committed tm < at_txid a \<and> at_txid a < next_txid tm"
    by (auto simp: ids_ordered_def tx_begin_def Let_def split: option.splits)
  ultimately show ?thesis by blast
qed

theorem txids_increase_witness:
  "\<exists>tm tm'. tx_begin tx_new = (Ok 1, tm) \<and> fst (tx_begin tm) = Err (Other ''transaction already in progress'') \<and>
     tx_abort list_lru tm (cache_new list_lru 1) = (tm', cache_new list_lru 1) \<and> fst (tx_begin tm') = Ok 2"
proof -
  obtain tm where b: "tx_begin tx_new = (Ok 1, tm)" by (simp add: tx_begin_def tx_new_def)
  then have tm: "tx_step list_lru tx_new tm" by (rule tx_step_begin) (simp add: tx_new_def)
  obtain tm' where ab: "tx_abort list_lru tm (cache_new list_lru 1) = (tm', cache_new list_lru 1)" "active tm' = None"
    "next_txid tm' = 2"
    using b by (auto simp: tx_begin_def tx_new_def tx_abort_def abort_pages_def)
  have "(tx_step list_lru)\<^sup>*\<^sup>* tx_new tm'" using tm tx_step_abort [OF ab(1)] by (meson r_into_rtranclp rtranclp.rtrancl_into_rtrancl)
  from txids_increase [OF this] txids_increase [OF r_into_rtranclp [where r = "tx_step list_lru", OF tm]] b ab show ?thesis
    by (auto simp: tx_begin_def tx_new_def split: option.splits)
qed

section \<open>Abort\<close>

lemma abort_page_data:
  assumes "lru_cache L valid" "valid (cache c)"
    "\<forall>i b p. cache_peek L c i b = Some p \<longrightarrow> cp_block p = b"
  shows "valid (cache (abort_page L k c)) \<and>
    (\<forall>i b. cache_peek L (abort_page L k c) i b =
       (if (i, b) = k then map_option (\<lambda>p. cp_unpin (cp_unpin (clean_page p))) (cache_peek L c i b)
        else cache_peek L c i b))"
proof -
  obtain j a where k: "k = (j, a)" by (cases k)
  obtain r c1 where g: "cache_get L c j a = (r, c1)" by fastforce
  note gp = cache_get_peek [OF assms(1,2) g]
  define c2 where "c2 = (case r of Some p \<Rightarrow> snd (cache_put L c1 j (cp_unpin (clean_page p))) | None \<Rightarrow> c1)"
  have c2: "valid (cache c2) \<and> (\<forall>i b. cache_peek L c2 i b =
      (if (i, b) = k then map_option (\<lambda>p. cp_unpin (clean_page p)) (cache_peek L c i b) else cache_peek L c i b))"
  proof (cases r)
    case None
    with gp show ?thesis by (auto simp: c2_def k)
  next
    case (Some p)
    let ?p = "cp_unpin (clean_page p)"
    have p: "cache_peek L c j a = Some p" using gp Some by simp
    then have b: "cp_block ?p = a" using assms(3) by (simp add: cp_unpin_def clean_page_def)
    have cont: "lru_contains L (cache c1) (j, a)"
      using lru_cache.view_law [OF assms(1), of "cache c1"] gp p by (auto simp: cache_peek_def)
    then have "cache_put L c1 j ?p = (Ok (), c1\<lparr>cache := lru_put L (cache c1) (j, a) ?p\<rparr>)"
      by (simp add: cache_put_def b victim_busy_def Let_def)
    then show ?thesis using Some gp p cont lru_cache.put_law [OF assms(1), of "cache c1" "(j, a)" ?p]
      by (auto simp: c2_def k cache_peek_def)
  qed
  have "abort_page L k c = unpin_page L c2 j a" using g by (simp add: abort_page_def k c2_def cong: option.case_cong)
  with c2 lru_cache.get_mut_law [OF assms(1), of "cache c2" "(j, a)" cp_unpin] show ?thesis
    by (auto simp: unpin_page_def cache_peek_def k option.map_comp comp_def)
qed

lemma abort_pages_data:
  assumes "lru_cache L valid" "valid (cache c)" "\<forall>i b p. cache_peek L c i b = Some p \<longrightarrow> cp_block p = b"
  shows "\<forall>i b p. cache_peek L c i b = Some p \<longrightarrow>
    (\<exists>q. cache_peek L (abort_pages L ps c) i b = Some q \<and> cp_data q = cp_data p \<and> cp_block q = b \<and>
       ((i, b) \<in> set ps \<or> \<not> cp_dirty p \<longrightarrow> \<not> cp_dirty q))"
  using assms(2,3)
proof (induction ps arbitrary: c)
  case Nil
  then show ?case by (simp add: abort_pages_def)
next
  case (Cons k ps)
  let ?c = "abort_page L k c"
  note a = abort_page_data [OF assms(1) Cons.prems, of k]
  have keep: "cp_data (cp_unpin (cp_unpin (clean_page p))) = cp_data p"
    "cp_block (cp_unpin (cp_unpin (clean_page p))) = cp_block p" "\<not> cp_dirty (cp_unpin (cp_unpin (clean_page p)))" for p
    by (simp_all add: cp_unpin_def clean_page_def)
  have "\<forall>i b p. cache_peek L ?c i b = Some p \<longrightarrow> cp_block p = b"
    using a Cons.prems(2) keep(2) by (auto split: if_splits)
  note ih = Cons.IH [OF conjunct1 [OF a] this]
  have ap: "abort_pages L (k # ps) c = abort_pages L ps ?c" by (simp add: abort_pages_def)
  show ?case
  proof (intro allI impI)
    fix i b p assume p: "cache_peek L c i b = Some p"
    define q where "q = (if (i, b) = k then cp_unpin (cp_unpin (clean_page p)) else p)"
    have "cache_peek L ?c i b = Some q" using a p by (simp add: q_def)
    with ih obtain q' where "cache_peek L (abort_pages L ps ?c) i b = Some q'" "cp_data q' = cp_data q" "cp_block q' = b"
      "(i, b) \<in> set ps \<or> \<not> cp_dirty q \<longrightarrow> \<not> cp_dirty q'" by blast
    then show "\<exists>q. cache_peek L (abort_pages L (k # ps) c) i b = Some q \<and> cp_data q = cp_data p \<and> cp_block q = b \<and>
       ((i, b) \<in> set (k # ps) \<or> \<not> cp_dirty p \<longrightarrow> \<not> cp_dirty q)"
      using keep unfolding ap by (auto simp: q_def split: if_splits)
  qed
qed

text \<open>
  Aborting a transaction does not take its changes back: each of its pages stays in the cache with
  the changed data, only marked clean, so later reads see the data of the aborted transaction.
\<close>

theorem abort_keeps_changes:
  assumes "lru_cache L valid" "valid (cache c)" "\<forall>i b p. cache_peek L c i b = Some p \<longrightarrow> cp_block p = b"
    "active tm = Some a" "(i, b) \<in> set (at_dirty_pages a)" "cache_peek L c i b = Some p"
  shows "\<exists>tm' c' q. tx_abort L tm c = (tm', c') \<and> active tm' = None \<and>
    cache_peek L c' i b = Some q \<and> cp_data q = cp_data p \<and> \<not> cp_dirty q"
proof -
  from abort_pages_data [OF assms(1-3), of "at_dirty_pages a"] assms(5,6) obtain q where
    "cache_peek L (abort_pages L (at_dirty_pages a) c) i b = Some q" "cp_data q = cp_data p" "\<not> cp_dirty q" by blast
  then show ?thesis using assms(4) by (simp add: tx_abort_def)
qed

section \<open>Example\<close>

text \<open>A transaction that has changed block 2 through inode 5, with a log of 16 pages on its own device.\<close>

definition txn_super :: logsuper where
  "txn_super = logsuper_default\<lparr>ls_size := write_u32 16, ls_state := write_u32 0\<rparr>"

definition txn_tm :: tx_mgr where
  "txn_tm = \<lparr>next_txid = 4,
     active = Some \<lparr>at_txid = 3, at_dirty_pages = [(5, 2)], at_allocated = [], at_freed = []\<rparr>, last_committed = 2\<rparr>"

definition txn_world :: "lru_list tx_world" where
  "txn_world = \<lparr>tw_cache = dirty_cache, tw_fs = MemoryStorage (mem_new 3),
     tw_log = Some (logmgr_new txn_super 0, Some (MemoryStorage (mem_new 20)))\<rparr>"

lemma txn_images: "images list_lru dirty_cache [(5, 2)] = [(2, replicate BLOCK_SIZE 7)]"
  by (simp add: images_def page_data_def cache_peek_def list_lru_def dirty_cache_def cached_page_new_def)

lemma txn_fits:
  assumes "base \<le> 65536"
  shows "fits_buffer txn_super base (txn_ops 3 [(2, replicate BLOCK_SIZE 7)]) (MemoryStorage (mem_new 20))"
proof -
  have "enc (op_records 0 0 (txn_ops 3 [(2, replicate BLOCK_SIZE 7)])) =
      lrd_bytes (redo_lrd 3 0 2 BLOCK_SIZE) @ replicate BLOCK_SIZE 7 @ lrd_bytes (commit_lrd 3 0)"
    by (simp add: txn_ops_def)
  then have n: "length (enc (op_records 0 0 (txn_ops 3 [(2, replicate BLOCK_SIZE 7)]))) = 4168"
    by (simp add: block_size_defs)
  show ?thesis unfolding fits_buffer_def n Let_def using assms
    by (simp add: mem_new_ok txn_super_def txn_ops_def ls_wf_def logsuper_default_def ls_page_size_def log_size_defs)
      (simp add: mem_new_def block_size_defs)
qed

lemma txn_valid: "ll_valid (cache (tw_cache txn_world))"
  by (simp add: txn_world_def dirty_cache_def ll_valid_def)

lemma txn_committable: "committable list_lru (tw_cache txn_world) (tw_fs txn_world) [(5, 2)]"
  by (simp add: committable_def txn_world_def page_data_def cache_peek_def list_lru_def dirty_cache_def cached_page_new_def)

lemma txn_assms:
  "active txn_tm = Some \<lparr>at_txid = 3, at_dirty_pages = [(5, 2)], at_allocated = [], at_freed = []\<rparr>"
  "st_ok (tw_fs txn_world)" "tw_log txn_world = Some (logmgr_new txn_super 0, Some (MemoryStorage (mem_new 20)))"
  "images list_lru (tw_cache txn_world) [(5, 2)] = [(2, replicate BLOCK_SIZE 7)]"
  "page_data list_lru (tw_cache txn_world) (5, 2) = replicate BLOCK_SIZE 7"
  using txn_images by (simp_all add: txn_tm_def txn_world_def mem_new_ok block_size_defs images_def)

theorem external_log_recoverable_witness:
  "\<exists>r tm' w' jm' lg' l rc' log' fs'. tx_commit list_lru txn_tm txn_world = (r, tm', w') \<and>
    tw_log w' = Some (jm', Some lg') \<and> lm_read_super lg' 0 = (Ok l, lg') \<and>
    replay (recovery_new l) lg' (MemoryStorage (mem_new 3)) (data_start (logmgr_new l 0)) = (Ok (), rc', log', fs') \<and>
    fst (read_block fs' 2) = Ok (replicate BLOCK_SIZE 7)"
proof -
  obtain r tm' w' where e: "tx_commit list_lru txn_tm txn_world = (r, tm', w')" by (metis surj_pair)
  have fs: "st_ok (MemoryStorage (mem_new 3))" "size_blocks (MemoryStorage (mem_new 3)) \<le> 2 ^ 40"
    by (simp_all add: mem_new_ok block_size_defs)
  have st: "ls_state_val txn_super \<noteq> LOGREDONE" by (simp add: txn_super_def ls_state_val_def LOGREDONE_def)
  have fd: "fst (flush_data (tw_fs txn_world)) = Ok ()" using txn_assms(2) by simp
  note w = external_log_recoverable [OF ll.lru_cache_axioms txn_valid txn_assms(1,3) fd _ st e fs]
  have c: "committable list_lru (tw_cache txn_world) (MemoryStorage (mem_new 3)) [(5, 2)]"
    using txn_committable by (simp add: txn_world_def)
  from w txn_fits [of 0] c e show ?thesis by (simp add: txn_assms(4,5)) blast
qed

theorem abort_keeps_changes_witness:
  "\<exists>tm' c' q. tx_abort list_lru txn_tm dirty_cache = (tm', c') \<and> active tm' = None \<and>
     cache_peek list_lru c' 5 2 = Some q \<and> cp_data q = replicate BLOCK_SIZE 7 \<and> \<not> cp_dirty q"
proof -
  let ?p = "(cached_page_new 2 (replicate BLOCK_SIZE 7))\<lparr>cp_dirty := True, cp_inode := Some 5\<rparr>"
  have v: "ll_valid (cache dirty_cache)" by (simp add: dirty_cache_def ll_valid_def)
  have k: "\<forall>i b p. cache_peek list_lru dirty_cache i b = Some p \<longrightarrow> cp_block p = b"
    by (auto simp: cache_peek_def list_lru_def dirty_cache_def cached_page_new_def split: if_splits)
  have "cache_peek list_lru dirty_cache 5 2 = Some ?p" by (simp add: cache_peek_def list_lru_def dirty_cache_def)
  from abort_keeps_changes [OF ll.lru_cache_axioms v k txn_assms(1) _ this] show ?thesis
    by (simp add: cached_page_new_def)
qed

end
