(* ===== verification/Log_Frame.thy ===== *)
theory Log_Frame
  imports Transaction
begin

text \<open>
  What journalling does to a device that holds the log beside the file system, as every formatted volume does: while
  the log has room, appending, committing and flushing succeed and write nothing outside the superblock of
  the log and the buffers in use. The room is counted in log buffers, because the log manager starts a
  new buffer whenever a record does not fit and never looks at the size of the log.
\<close>

section \<open>A device rewritten in a range\<close>

definition rewritten :: "nat \<Rightarrow> nat \<Rightarrow> storage \<Rightarrow> storage \<Rightarrow> bool" where
  "rewritten lo hi s s' \<longleftrightarrow> (\<exists>x. s' = with_contents s x \<and> length x = length (contents s) \<and>
     (\<forall>a b. b \<le> lo \<or> hi \<le> a \<longrightarrow> slice a b x = slice a b (contents s)))"

lemma rewritten_refl: "st_ok s \<Longrightarrow> rewritten lo hi s s"
  unfolding rewritten_def by (intro exI [of _ "contents s"]) (simp add: with_contents_simps)

lemma rewritten_trans:
  assumes "st_ok s" "rewritten lo hi s t" "rewritten lo hi t u"
  shows "rewritten lo hi s u"
  using assms st_ok_with_contents [OF assms(1)] unfolding rewritten_def
  by (elim exE conjE) (auto simp: with_contents_simps intro!: exI)

lemma rewritten_ok:
  assumes "st_ok s" "rewritten lo hi s t"
  shows "st_ok t" "length (contents t) = length (contents s)" "size_blocks t = size_blocks s"
proof -
  show t: "st_ok t" "length (contents t) = length (contents s)"
    using assms st_ok_with_contents [OF assms(1)] by (auto simp: rewritten_def)
  then show "size_blocks t = size_blocks s" using assms(1) dev.size_data by simp
qed

lemma peek_with_contents:
  assumes "st_ok s" "length x = length (contents s)" "\<not> b < size_blocks s"
  shows "peek_block (with_contents s x) b = peek_block s b"
proof (cases s)
  case (MemoryStorage m)
  with assms show ?thesis by (simp add: peek_block_def mem_read_block_beyond)
next
  case (FileStorage fd)
  let ?fd = "fd\<lparr>fd_file := fd_file fd\<lparr>of_data := x\<rparr>\<rparr>"
  have f: "file_ok fd" "file_ok ?fd" "length x = length (fd_data fd)"
    using FileStorage assms(1,2) st_ok_with_contents(1) [OF assms(1,2)] by simp_all
  have "length (fd_data fd) < b * BLOCK_SIZE + BLOCK_SIZE"
    using assms(3) FileStorage f(1) block_out_of_range by (simp add: file_size_blocks_def file_ok_def)
  then have "file_read_block ?fd b = file_read_block fd b"
    using f file_read_bytes_eq [OF f(1), of BLOCK_SIZE "b * BLOCK_SIZE"] file_read_bytes_eq [OF f(2), of BLOCK_SIZE "b * BLOCK_SIZE"]
    by (simp add: file_read_block_def file_block_to_offset_def)
  then show ?thesis using FileStorage by (simp add: peek_block_def)
qed (use assms in auto)

lemma rewritten_peek:
  assumes "st_ok s" "rewritten lo hi s t" "b * BLOCK_SIZE + BLOCK_SIZE \<le> lo \<or> hi \<le> b * BLOCK_SIZE"
  shows "peek_block t b = peek_block s b"
proof -
  from assms(2) obtain x where x: "t = with_contents s x" "length x = length (contents s)"
    "\<And>a b. b \<le> lo \<or> hi \<le> a \<Longrightarrow> slice a b x = slice a b (contents s)" unfolding rewritten_def by blast
  note t = rewritten_ok [OF assms(1,2)]
  show ?thesis
  proof (cases "b < size_blocks s")
    case True
    with t dev.read_slice [OF assms(1), of b] dev.read_slice [OF t(1), of b] x assms(3) st_ok_with_contents(2) [OF assms(1)]
    show ?thesis by simp
  next
    case False
    then show ?thesis using peek_with_contents [OF assms(1) x(2)] x(1) by simp
  qed
qed

lemma write_bytes_rewritten:
  assumes "st_ok s" "lo \<le> a" "a + length d \<le> hi" "hi \<le> length (contents s)"
  shows "\<exists>s'. write_bytes s a d = (Ok (), s') \<and> rewritten lo hi s s'"
proof -
  have "a + length d \<le> length (contents s)" using assms by simp
  note w = write_bytes_with_contents [OF assms(1) this] and r = this
  then show ?thesis unfolding rewritten_def using assms by (intro exI conjI [OF w]) (auto simp: slice_splice_other)
qed

section \<open>The log manager stays in its buffers\<close>

definition log_end :: "nat \<Rightarrow> logmgr \<Rightarrow> nat" where
  "log_end k m = log_base m + 2 * BLOCK_SIZE + (write_offset m div LOG_BUFFER_SIZE + 1 + k) * LOG_BUFFER_SIZE"

text \<open>Room for the buffer in use and \<open>k\<close> more.\<close>

definition log_ready :: "nat \<Rightarrow> logmgr \<Rightarrow> storage \<Rightarrow> bool" where
  "log_ready k m s \<longleftrightarrow> st_ok s \<and> length (log_buffer m) = LOG_BUFFER_SIZE \<and> ls_wf (lm_logsuper m) \<and>
     log_end k m \<le> size_blocks s * BLOCK_SIZE \<and> log_end k m < 2 ^ 44"

abbreviation log_start :: "logmgr \<Rightarrow> nat" where
  "log_start m \<equiv> log_base m + BLOCK_SIZE"

lemma log_ready_contents: "log_ready k m s \<Longrightarrow> log_end k m \<le> length (contents s)"
  using dev.size_data [of s] by (auto simp: log_ready_def intro: order_trans [OF _ div_times_less_eq_dividend])

lemma log_ready_mono: "log_ready k m s \<Longrightarrow> j \<le> k \<Longrightarrow> log_ready j m s"
proof -
  assume *: "log_ready k m s" "j \<le> k"
  then have "log_end j m \<le> log_end k m" by (simp add: log_end_def)
  with *(1) show ?thesis by (simp add: log_ready_def)
qed

lemma write_pages_rewritten:
  assumes "st_ok s" "lo \<le> data_start m + p * LOGPSIZE" "data_start m + (p + k) * LOGPSIZE \<le> hi" "hi \<le> length (contents s)"
    "k * LOGPSIZE \<le> length (log_buffer m)"
  shows "\<exists>s'. write_pages m s p [0..<k] = (Ok (), s') \<and> rewritten lo hi s s'"
  using assms(3,5)
proof (induction k)
  case 0
  then show ?case using rewritten_refl [OF assms(1)] by simp
next
  case (Suc k)
  then obtain s1 where s1: "write_pages m s p [0..<k] = (Ok (), s1)" "rewritten lo hi s s1" by auto
  note o = rewritten_ok [OF assms(1) s1(2)]
  let ?d = "slice (k * LOGPSIZE) (k * LOGPSIZE + LOGPSIZE) (log_buffer m)"
  have d: "length ?d = LOGPSIZE" using Suc.prems(2) by simp
  have off: "page_offset m (p + k) = data_start m + (p + k) * LOGPSIZE" by (simp add: page_offset_def data_start_def)
  have "lo \<le> page_offset m (p + k)" "page_offset m (p + k) + length ?d \<le> hi"
    using assms(2) Suc.prems(1) unfolding off d by (simp_all add: algebra_simps)
  from write_bytes_rewritten [OF o(1) this] assms(4) o(2) obtain s2 where
    s2: "write_bytes s1 (page_offset m (p + k)) ?d = (Ok (), s2)" "rewritten lo hi s1 s2" by auto
  have "write_pages m s p [0..<Suc k] = (Ok (), s2)"
    using s1(1) s2(1) Suc.prems(2) by (simp add: write_pages_append Let_def lm_write_page_def min_def)
  with rewritten_trans [OF assms(1) s1(2) s2(2)] show ?case by blast
qed

lemma flush_frame:
  assumes "log_ready k m s"
  shows "\<exists>m' s'. flush_journal m s = (Ok (), (m', s')) \<and> rewritten (log_start m) (log_end k m) s s' \<and> log_ready k m' s' \<and>
    write_offset m' = write_offset m \<and> log_base m' = log_base m"
proof -
  let ?B = LOG_BUFFER_SIZE and ?wo = "write_offset m" and ?hi = "log_end k m"
  have l: "st_ok s" "length (log_buffer m) = ?B" "ls_wf (lm_logsuper m)" "?hi \<le> length (contents s)" "?hi < 2 ^ 44"
    using assms log_ready_contents [OF assms] by (simp_all add: log_ready_def)
  define q r where "q = ?wo div ?B" and "r = ?wo mod ?B"
  have wo: "?wo = q * ?B + r" "r < ?B" by (simp_all add: q_def r_def log_size_defs)
  have hi: "?hi = log_base m + 2 * BLOCK_SIZE + (q + 1 + k) * ?B" by (simp add: log_end_def q_def)
  define n where "n = (r + LOGPSIZE - 1) div LOGPSIZE"
  have n: "n * LOGPSIZE \<le> ?B" "n \<le> 2" using wo(2) by (simp_all add: n_def log_size_defs)
  have "q * ?B < 2 ^ 44" using l(5) hi by (simp add: algebra_simps)
  then have "q * 2 < 2 ^ 32" by (simp add: log_size_defs)
  moreover have wr: "?wo - r = q * ?B" "q * ?B div LOGPSIZE = q * 2" "?wo - q * ?B = r" using wo(1) by (simp_all add: log_size_defs)
  ultimately have bp: "buffered_pages m = (q * 2, n)"
    unfolding buffered_pages_def Let_def r_def [symmetric] wr n_def by simp
  have "\<exists>s1. (if buffer_dirty m \<and> 0 < ?wo then write_pages m s (q * 2) [0..<n] else (Ok (), s)) = (Ok (), s1) \<and>
      rewritten (log_start m) ?hi s s1"
  proof (cases "buffer_dirty m \<and> 0 < ?wo")
    case True
    have "log_start m \<le> data_start m + q * 2 * LOGPSIZE" by (simp add: data_start_def)
    moreover have "data_start m + (q * 2 + n) * LOGPSIZE \<le> ?hi"
      using n(2) unfolding hi by (simp add: data_start_def log_size_defs)
    ultimately show ?thesis using write_pages_rewritten [OF l(1) _ _ l(4)] n(1) l(2) True by auto
  qed (use rewritten_refl [OF l(1)] in auto)
  then obtain s1 where s1: "(if buffer_dirty m \<and> 0 < ?wo then write_pages m s (q * 2) [0..<n] else (Ok (), s)) = (Ok (), s1)"
    "rewritten (log_start m) ?hi s s1" by blast
  note o1 = rewritten_ok [OF l(1) s1(2)]
  let ?ls = "ls_set_end (lm_logsuper m) ?wo"
  have ls: "ls_wf ?ls" using l(3) by (simp add: ls_wf_def ls_set_end_def)
  have fit: "log_start m + length (logsuper_bytes ?ls) \<le> ?hi"
    using length_logsuper_bytes [OF ls] by (simp add: hi log_size_defs)
  from write_bytes_rewritten [OF o1(1) order_refl fit] l(4) o1(2) obtain s2 where
    s2: "write_bytes s1 (log_start m) (logsuper_bytes ?ls) = (Ok (), s2)" "rewritten (log_start m) ?hi s1 s2" by auto
  have "flush_journal m s = (Ok (), (m\<lparr>lm_logsuper := ?ls\<rparr>, s2))"
    unfolding flush_journal_def bp fst_conv snd_conv s1(1) using s2(1) o1(1) by (simp add: write_super_def)
  moreover note r2 = rewritten_trans [OF l(1) s1(2) s2(2)]
  moreover have "log_ready k (m\<lparr>lm_logsuper := ?ls\<rparr>) s2"
    using l ls assms rewritten_ok [OF l(1) r2] by (simp add: log_ready_def log_end_def)
  ultimately show ?thesis by auto
qed

lemma log_end_le:
  assumes "write_offset m' div LOG_BUFFER_SIZE \<le> write_offset m div LOG_BUFFER_SIZE + j" "log_base m' = log_base m"
  shows "log_end k m' \<le> log_end (j + k) m"
proof -
  have "(write_offset m' div LOG_BUFFER_SIZE + 1 + k) * LOG_BUFFER_SIZE \<le> (write_offset m div LOG_BUFFER_SIZE + 1 + (j + k)) * LOG_BUFFER_SIZE"
    using assms(1) by (intro mult_le_mono1) simp
  then show ?thesis using assms(2) by (simp add: log_end_def)
qed

lemma make_room_frame:
  assumes "log_ready (Suc k) m s" "n \<le> LOG_BUFFER_SIZE"
  shows "\<exists>m' s'. make_room n m s = (Ok (), (m', s')) \<and> rewritten (log_start m) (log_end (Suc k) m) s s' \<and> log_ready k m' s' \<and>
    log_base m' = log_base m \<and> write_offset m' mod LOG_BUFFER_SIZE + n \<le> LOG_BUFFER_SIZE \<and>
    (m' = m \<or> write_offset m' = (write_offset m div LOG_BUFFER_SIZE + 1) * LOG_BUFFER_SIZE)"
proof (cases "LOG_BUFFER_SIZE < write_offset m mod LOG_BUFFER_SIZE + n")
  case False
  then have "make_room n m s = (Ok (), (m, s))" by (simp add: make_room_def)
  moreover have "st_ok s" using assms(1) by (simp add: log_ready_def)
  ultimately show ?thesis using False log_ready_mono [OF assms(1), of k] rewritten_refl by auto
next
  case True
  let ?B = LOG_BUFFER_SIZE
  from flush_frame [OF assms(1)] obtain m1 s1 where
    f: "flush_journal m s = (Ok (), (m1, s1))" "rewritten (log_start m) (log_end (Suc k) m) s s1" "log_ready (Suc k) m1 s1"
    "write_offset m1 = write_offset m" "log_base m1 = log_base m" by blast
  define q r where "q = write_offset m div ?B" and "r = write_offset m mod ?B"
  have w: "write_offset m = q * ?B + r" "r < ?B" "0 < r" using True assms(2) by (auto simp: q_def r_def log_size_defs)
  have up: "(write_offset m + ?B - 1) div ?B * ?B = (q + 1) * ?B"
  proof -
    have "write_offset m + ?B - 1 = (q + 1) * ?B + (r - 1)" using w by simp
    moreover have "((q + 1) * ?B + (r - 1)) div ?B = q + 1" using w(2) by (intro div_nat_eqI) auto
    ultimately show ?thesis by simp
  qed
  let ?m = "m1\<lparr>log_buffer := replicate (length (log_buffer m1)) 0, buffer_dirty := False, write_offset := (q + 1) * ?B\<rparr>"
  have "make_room n m s = (Ok (), (?m, s1))" using True f(1,4) up by (simp add: make_room_def)
  moreover have "log_ready k ?m s1"
  proof -
    have "(q + 1) * ?B div ?B = q + 1" by (simp add: log_size_defs)
    then have "log_end k ?m = log_end (Suc k) m1" using f(4) by (simp add: log_end_def flip: q_def)
    with f(3) show ?thesis by (simp add: log_ready_def)
  qed
  ultimately show ?thesis using f(2,5) assms(2) by (auto simp: q_def)
qed

lemma put_record_frame:
  assumes "log_ready k m s" "write_offset m mod LOG_BUFFER_SIZE + 36 + length d \<le> LOG_BUFFER_SIZE"
  shows "\<exists>m'. put_record r d m s = (Ok (), (m', s)) \<and> length (log_buffer m') = LOG_BUFFER_SIZE \<and>
    lm_logsuper m' = lm_logsuper m \<and> log_base m' = log_base m \<and> write_offset m' = write_offset m + (36 + length d)"
  using assms by (simp add: put_record_def Let_def LRD_SIZE_def log_ready_def)

lemma record_frame:
  assumes "log_ready (Suc k) m s" "36 + length d < LOG_BUFFER_SIZE"
  shows "\<exists>m1 s1 m2. make_room (LRD_SIZE + length d) m s = (Ok (), (m1, s1)) \<and> put_record (f m1) d m1 s1 = (Ok (), (m2, s1)) \<and>
    rewritten (log_start m) (log_end (Suc k) m) s s1 \<and> log_ready k m2 s1 \<and> log_base m2 = log_base m \<and>
    log_end k m2 \<le> log_end (Suc k) m"
proof -
  let ?B = LOG_BUFFER_SIZE and ?n = "36 + length d"
  from make_room_frame [OF assms(1), of ?n] assms(2) obtain m1 s1 where
    r: "make_room ?n m s = (Ok (), (m1, s1))" "rewritten (log_start m) (log_end (Suc k) m) s s1" "log_ready k m1 s1"
    "log_base m1 = log_base m" "write_offset m1 mod ?B + ?n \<le> ?B"
    "m1 = m \<or> write_offset m1 = (write_offset m div ?B + 1) * ?B" by auto
  from put_record_frame [OF r(3), of d "f m1"] r(5) obtain m2 where
    p: "put_record (f m1) d m1 s1 = (Ok (), (m2, s1))" "length (log_buffer m2) = ?B" "lm_logsuper m2 = lm_logsuper m1"
    "log_base m2 = log_base m1" "write_offset m2 = write_offset m1 + ?n" by auto
  have B: "0 < ?B" by (simp add: log_size_defs)
  have "write_offset m2 div ?B \<le> write_offset m div ?B + 1"
  proof (cases "m1 = m")
    case True
    have "write_offset m2 = write_offset m div ?B * ?B + (write_offset m mod ?B + ?n)" using p(5) True by simp
    also have "\<dots> \<le> write_offset m div ?B * ?B + ?B" using r(5) True by (intro add_left_mono) simp
    also have "\<dots> = (write_offset m div ?B + 1) * ?B" by simp
    finally have "write_offset m2 div ?B \<le> (write_offset m div ?B + 1) * ?B div ?B" by (rule div_le_mono)
    then show ?thesis using B by simp
  next
    case False
    then have "write_offset m2 = (write_offset m div ?B + 1) * ?B + ?n" using r(6) p(5) by simp
    then have "write_offset m2 div ?B = write_offset m div ?B + 1" using assms(2) by (intro div_nat_eqI) auto
    then show ?thesis by simp
  qed
  then have le: "log_end k m2 \<le> log_end (Suc k) m" using log_end_le [of m2 m 1 k] p(4) r(4) by simp
  have "st_ok s" "log_end (Suc k) m \<le> size_blocks s * BLOCK_SIZE" "log_end (Suc k) m < 2 ^ 44" using assms(1) by (simp_all add: log_ready_def)
  then have "log_ready k m2 s1" using le p(2,3) r(3) rewritten_ok [OF _ r(2)] by (simp add: log_ready_def)
  then show ?thesis using r p le by (auto simp: LRD_SIZE_def)
qed

lemma rewritten_mono: "rewritten lo hi s t \<Longrightarrow> hi \<le> hi' \<Longrightarrow> rewritten lo hi' s t"
  unfolding rewritten_def by (elim ex_forward) (auto intro: le_trans)

lemma append_frame:
  assumes "log_ready (Suc k) m s" "length d = BLOCK_SIZE"
  shows "\<exists>m' s'. append_log_record txid b d m s = (Ok (), (m', s')) \<and> rewritten (log_start m) (log_end (Suc k) m) s s' \<and>
    log_ready k m' s' \<and> log_base m' = log_base m \<and> log_end k m' \<le> log_end (Suc k) m"
proof -
  have "36 + length d < LOG_BUFFER_SIZE" using assms(2) by (simp add: log_size_defs)
  from record_frame [OF assms(1) this, of "\<lambda>m1. redo_lrd txid (prev_record_offset m1) b (length d)"] show ?thesis
    by (auto simp: append_log_record_def log_ready_def log_end_def)
qed

lemma commit_frame:
  assumes "log_ready (Suc k) m s"
  shows "\<exists>m' s'. commit_transaction txid m s = (Ok (), (m', s')) \<and> rewritten (log_start m) (log_end (Suc k) m) s s' \<and>
    log_ready k m' s' \<and> log_base m' = log_base m \<and> log_end k m' \<le> log_end (Suc k) m"
proof -
  have "36 + length ([] :: bytes) < LOG_BUFFER_SIZE" by (simp add: log_size_defs)
  from record_frame [OF assms this, of "\<lambda>m1. commit_lrd txid (prev_record_offset m1)"] obtain m1 s1 m2 where
    r: "make_room LRD_SIZE m s = (Ok (), (m1, s1))" "put_record (commit_lrd txid (prev_record_offset m1)) [] m1 s1 = (Ok (), (m2, s1))"
    "rewritten (log_start m) (log_end (Suc k) m) s s1" "log_ready k m2 s1" "log_base m2 = log_base m" "log_end k m2 \<le> log_end (Suc k) m"
    by auto
  from flush_frame [OF r(4)] obtain m3 s3 where
    f: "flush_journal m2 s1 = (Ok (), (m3, s3))" "rewritten (log_start m) (log_end k m2) s1 s3" "log_ready k m3 s3"
    "write_offset m3 = write_offset m2" "log_base m3 = log_base m2" using r(5) by auto
  have "rewritten (log_start m) (log_end (Suc k) m) s s3"
    using rewritten_trans [OF _ r(3) rewritten_mono [OF f(2) r(6)]] assms by (simp add: log_ready_def)
  then show ?thesis using r f by (auto simp: commit_transaction_def log_ready_def log_end_def)
qed

section \<open>A commit on a device with the log in it\<close>

text \<open>The blocks that the log may still write, and that they are there.\<close>

definition log_range :: "nat \<Rightarrow> logmgr option \<Rightarrow> nat set" where
  "log_range k l = {b. \<exists>m. l = Some m \<and> log_base m < b * BLOCK_SIZE \<and> b * BLOCK_SIZE < log_end k m}"

definition log_fits :: "nat \<Rightarrow> logmgr option \<Rightarrow> storage \<Rightarrow> bool" where
  "log_fits k l s \<longleftrightarrow> (\<forall>m. l = Some m \<longrightarrow> log_ready k m s)"

lemma log_range_None [simp]: "log_range k None = {}" "log_fits k None s"
  by (simp_all add: log_range_def log_fits_def)

lemma outside_log_range:
  "b \<notin> log_range k (Some m) \<Longrightarrow> b * BLOCK_SIZE + BLOCK_SIZE \<le> log_start m \<or> log_end k m \<le> b * BLOCK_SIZE"
  by (auto simp: log_range_def)

lemma log_range_mono: "log_end k m' \<le> log_end j m \<Longrightarrow> log_base m' = log_base m \<Longrightarrow> log_range k (Some m') \<subseteq> log_range j (Some m)"
  by (auto simp: log_range_def)

lemma append_records_shared:
  assumes "lru_cache L valid" "valid (cache (tw_cache w))" "tw_log w = Some (jm, None)" "log_ready (length ps + k) jm (tw_fs w)"
    "\<forall>q\<in>set (in_cache L (tw_cache w) ps). length (page_data L (tw_cache w) q) = BLOCK_SIZE"
  shows "\<exists>w' jm'. append_records L txid ps w = (Ok (), w') \<and> tw_log w' = Some (jm', None) \<and> log_ready k jm' (tw_fs w') \<and>
    rewritten (log_start jm) (log_end (length ps + k) jm) (tw_fs w) (tw_fs w') \<and> log_base jm' = log_base jm \<and>
    log_end k jm' \<le> log_end (length ps + k) jm \<and> valid (cache (tw_cache w')) \<and>
    (\<forall>j b. cache_peek L (tw_cache w') j b = cache_peek L (tw_cache w) j b)"
  using assms(2-)
proof (induction ps arbitrary: w jm)
  case Nil
  then show ?case using rewritten_refl by (auto simp: log_ready_def)
next
  case (Cons q ps)
  obtain i b where q: "q = (i, b)" by (cases q)
  obtain r c where g: "cache_get L (tw_cache w) i b = (r, c)" by fastforce
  note gp = cache_get_peek [OF assms(1) Cons.prems(1) g]
  note pd = page_data_cong [of L c "tw_cache w"]
  have ic: "in_cache L c ps = in_cache L (tw_cache w) ps" using gp by simp
  show ?case
  proof (cases r)
    case None
    let ?w = "w\<lparr>tw_cache := c\<rparr>"
    have lr: "log_ready (length ps + k) jm (tw_fs ?w)" using Cons.prems(3) log_ready_mono by fastforce
    have dl: "\<forall>q\<in>set (in_cache L (tw_cache ?w) ps). length (page_data L (tw_cache ?w) q) = BLOCK_SIZE"
      using Cons.prems(4) gp pd ic by auto
    have le: "log_end (length ps + k) jm \<le> log_end (length (q # ps) + k) jm" by (simp add: log_end_def)
    from Cons.IH [of ?w jm, OF _ _ lr dl] gp Cons.prems(2) obtain w' jm' where
      "append_records L txid ps ?w = (Ok (), w')" "tw_log w' = Some (jm', None)" "log_ready k jm' (tw_fs w')"
      "rewritten (log_start jm) (log_end (length ps + k) jm) (tw_fs w) (tw_fs w')" "log_base jm' = log_base jm"
      "log_end k jm' \<le> log_end (length ps + k) jm" "valid (cache (tw_cache w'))"
      "\<forall>j b. cache_peek L (tw_cache w') j b = cache_peek L (tw_cache w) j b" by auto
    then show ?thesis using g None le rewritten_mono [OF _ le] by (auto simp: q)
  next
    case (Some p)
    have "cache_peek L (tw_cache w) i b = Some p" using gp Some by simp
    then have "q \<in> set (in_cache L (tw_cache w) (q # ps))" "page_data L (tw_cache w) q = cp_data p" by (simp_all add: q page_data_def)
    with Cons.prems(4) have p: "length (cp_data p) = BLOCK_SIZE" by fastforce
    have sk: "log_ready (Suc (length ps + k)) jm (tw_fs w)" using Cons.prems(3) by simp
    from append_frame [OF sk p, of txid b] obtain jm1 s1 where
      a: "append_log_record txid b (cp_data p) jm (tw_fs w) = (Ok (), (jm1, s1))"
      "rewritten (log_start jm) (log_end (Suc (length ps + k)) jm) (tw_fs w) s1" "log_ready (length ps + k) jm1 s1"
      "log_base jm1 = log_base jm" "log_end (length ps + k) jm1 \<le> log_end (Suc (length ps + k)) jm" by blast
    let ?w = "w\<lparr>tw_cache := c, tw_log := Some (jm1, None), tw_fs := s1\<rparr>"
    have dl: "\<forall>q\<in>set (in_cache L (tw_cache ?w) ps). length (page_data L (tw_cache ?w) q) = BLOCK_SIZE"
      using Cons.prems(4) gp pd ic by auto
    from Cons.IH [of ?w jm1, OF _ _ _ dl] gp a(3) obtain w' jm' where
      w': "append_records L txid ps ?w = (Ok (), w')" "tw_log w' = Some (jm', None)" "log_ready k jm' (tw_fs w')"
      "rewritten (log_start jm) (log_end (length ps + k) jm1) s1 (tw_fs w')" "log_base jm' = log_base jm1"
      "log_end k jm' \<le> log_end (length ps + k) jm1" "valid (cache (tw_cache w'))"
      "\<forall>j b. cache_peek L (tw_cache w') j b = cache_peek L (tw_cache w) j b" using a(4) by auto
    have "rewritten (log_start jm) (log_end (length (q # ps) + k) jm) (tw_fs w) (tw_fs w')"
      using rewritten_trans [OF _ a(2) rewritten_mono [OF w'(4) a(5)]] sk by (simp add: log_ready_def)
    moreover have "append_records L txid (q # ps) w = (Ok (), w')"
      using g Some a(1) w'(1) Cons.prems(2) by (simp add: q on_log_def)
    ultimately show ?thesis using w' a(4,5) by auto
  qed
qed

lemma journal_shared:
  assumes "lru_cache L valid" "valid (cache (tw_cache w))" "st_ok (tw_fs w)"
    "tw_log w = map_option (\<lambda>m. (m, None)) l" "log_fits (length ps + 1 + k) l (tw_fs w)"
    "\<forall>q\<in>set (in_cache L (tw_cache w) ps). length (page_data L (tw_cache w) q) = BLOCK_SIZE"
  shows "\<exists>w' l'. journal_phase L txid ps w = (Ok (), w') \<and> tw_log w' = map_option (\<lambda>m. (m, None)) l' \<and> log_fits k l' (tw_fs w') \<and>
    log_range k l' \<subseteq> log_range (length ps + 1 + k) l \<and> st_ok (tw_fs w') \<and> size_blocks (tw_fs w') = size_blocks (tw_fs w) \<and>
    (\<forall>b. b \<notin> log_range (length ps + 1 + k) l \<longrightarrow> peek_block (tw_fs w') b = peek_block (tw_fs w) b) \<and>
    valid (cache (tw_cache w')) \<and> (\<forall>j b. cache_peek L (tw_cache w') j b = cache_peek L (tw_cache w) j b)"
proof (cases l)
  case None
  then show ?thesis using assms by (intro exI [of _ w] exI [of _ None]) (simp add: journal_phase_def)
next
  case (Some m)
  have lr: "log_ready (length ps + Suc k) m (tw_fs w)" using assms(5) Some by (simp add: log_fits_def)
  from append_records_shared [OF assms(1,2) _ lr assms(6), of txid] assms(4) Some obtain w1 m1 where
    a: "append_records L txid ps w = (Ok (), w1)" "tw_log w1 = Some (m1, None)" "log_ready (Suc k) m1 (tw_fs w1)"
    "rewritten (log_start m) (log_end (length ps + Suc k) m) (tw_fs w) (tw_fs w1)" "log_base m1 = log_base m"
    "log_end (Suc k) m1 \<le> log_end (length ps + Suc k) m" "valid (cache (tw_cache w1))"
    "\<forall>j b. cache_peek L (tw_cache w1) j b = cache_peek L (tw_cache w) j b" by auto
  from commit_frame [OF a(3), of txid] obtain m2 s2 where
    c: "commit_transaction txid m1 (tw_fs w1) = (Ok (), (m2, s2))" "rewritten (log_start m) (log_end (Suc k) m1) (tw_fs w1) s2"
    "log_ready k m2 s2" "log_base m2 = log_base m1" "log_end k m2 \<le> log_end (Suc k) m1" using a(5) by auto
  let ?w = "w1\<lparr>tw_log := Some (m2, None), tw_fs := s2\<rparr>"
  have "journal_phase L txid ps w = (Ok (), ?w)" using a(1,2) c(1) assms(4) Some by (simp add: journal_phase_def on_log_def)
  moreover have rw: "rewritten (log_start m) (log_end (length ps + Suc k) m) (tw_fs w) s2"
    using rewritten_trans [OF assms(3) a(4) rewritten_mono [OF c(2) a(6)]] .
  moreover have "log_range k (Some m2) \<subseteq> log_range (length ps + 1 + k) l"
    using log_range_mono [of k m2 "length ps + Suc k" m] c(4,5) a(5,6) Some by simp
  moreover have "peek_block s2 b = peek_block (tw_fs w) b" if "b \<notin> log_range (length ps + 1 + k) l" for b
    using rewritten_peek [OF assms(3) rw] outside_log_range [of b "length ps + Suc k" m] that Some by simp
  ultimately show ?thesis using a(7,8) c(3) rewritten_ok [OF assms(3) rw] Some
    by (intro exI [of _ ?w] exI [of _ "Some m2"]) (auto simp: log_fits_def)
qed

text \<open>
  The commit: the pages of the transaction that are still in the cache are written in order, so that of two pages for
  one block the later one is on it; the other blocks outside the log are as they were.
\<close>

lemma tx_commit_shared:
  assumes "lru_cache L valid" "valid (cache (tw_cache w))" "active tm = Some a" "st_ok (tw_fs w)"
    "tw_log w = map_option (\<lambda>m. (m, None)) l" "log_fits (length (at_dirty_pages a) + 1 + k) l (tw_fs w)"
    "\<And>q. q \<in> set (in_cache L (tw_cache w) (at_dirty_pages a)) \<Longrightarrow>
       snd q < size_blocks (tw_fs w) \<and> length (page_data L (tw_cache w) q) = BLOCK_SIZE"
  defines "I \<equiv> images L (tw_cache w) (in_cache L (tw_cache w) (at_dirty_pages a))"
  shows "\<exists>w' l'. tx_commit L tm w = (Ok \<lparr>pages_written = length (in_cache L (tw_cache w) (at_dirty_pages a)), cr_txid = at_txid a\<rparr>,
        tm\<lparr>active := None, last_committed := at_txid a\<rparr>, w') \<and>
    tw_log w' = map_option (\<lambda>m. (m, None)) l' \<and> log_fits k l' (tw_fs w') \<and>
    log_range k l' \<subseteq> log_range (length (at_dirty_pages a) + 1 + k) l \<and> st_ok (tw_fs w') \<and>
    size_blocks (tw_fs w') = size_blocks (tw_fs w) \<and> valid (cache (tw_cache w')) \<and>
    (\<forall>j b. cache_peek L (tw_cache w') j b = (if (j, b) \<in> set (at_dirty_pages a) then None else cache_peek L (tw_cache w) j b)) \<and>
    (\<forall>b d. map_of (rev I) b = Some d \<longrightarrow> peek_block (tw_fs w') b = Ok d) \<and>
    (\<forall>b. map_of (rev I) b = None \<and> b \<notin> log_range (length (at_dirty_pages a) + 1 + k) l \<longrightarrow>
       peek_block (tw_fs w') b = peek_block (tw_fs w) b)"
proof -
  let ?ps = "at_dirty_pages a" and ?R = "log_range (length (at_dirty_pages a) + 1 + k) l"
  let ?qs = "in_cache L (tw_cache w) ?ps"
  have "\<forall>q\<in>set ?qs. length (page_data L (tw_cache w) q) = BLOCK_SIZE" using assms(7) by blast
  from journal_shared [OF assms(1,2,4,5,6) this, of "at_txid a"] obtain w1 l' where
    w1: "journal_phase L (at_txid a) ?ps w = (Ok (), w1)" "tw_log w1 = map_option (\<lambda>m. (m, None)) l'" "log_fits k l' (tw_fs w1)"
    "log_range k l' \<subseteq> ?R" "st_ok (tw_fs w1)" "size_blocks (tw_fs w1) = size_blocks (tw_fs w)"
    "\<And>b. b \<notin> ?R \<Longrightarrow> peek_block (tw_fs w1) b = peek_block (tw_fs w) b"
    "valid (cache (tw_cache w1))" "\<forall>j b. cache_peek L (tw_cache w1) j b = cache_peek L (tw_cache w) j b" by blast
  have ic: "in_cache L (tw_cache w1) ?ps = ?qs" "images L (tw_cache w1) ?qs = I"
    using w1(9) page_data_cong [OF w1(9)] by (simp_all add: images_def I_def)
  have "\<And>b d. (b, d) \<in> set I \<Longrightarrow> b < size_blocks (tw_fs w1) \<and> length d = BLOCK_SIZE"
    using images_member [of _ _ L "tw_cache w" ?qs] assms(7) w1(6) unfolding I_def by fastforce
  from dev.write_seq_last_wins [OF w1(5) this] obtain s' where s': "write_seq write_block (tw_fs w1) I = (Ok (), s')"
    "st_ok s'" "size_blocks s' = size_blocks (tw_fs w1)"
    "\<And>b. peek_block s' b = (case map_of (rev I) b of Some d \<Rightarrow> Ok d | None \<Rightarrow> peek_block (tw_fs w1) b)" by blast
  from write_dirty_images [OF assms(1) w1(8), of ?ps s' 0] s'(1) obtain w2 where
    w2: "write_dirty L ?ps 0 w1 = (Ok (length ?qs), w2)" "tw_fs w2 = s'" "tw_log w2 = tw_log w1"
    "valid (cache (tw_cache w2))" "\<forall>j b. cache_peek L (tw_cache w2) j b = cache_peek L (tw_cache w1) j b"
    unfolding ic by auto
  let ?w = "w2\<lparr>tw_cache := release_pages L ?ps (tw_cache w2)\<rparr>"
  have eq: "tx_commit L tm w = (Ok \<lparr>pages_written = length ?qs, cr_txid = at_txid a\<rparr>,
      tm\<lparr>active := None, last_committed := at_txid a\<rparr>, ?w)"
    using assms(3,4) w1(1) w2(1,2) s'(2) by (simp add: tx_commit_def on_fs_def Let_def)
  note rel = release_pages_peek [OF assms(1) w2(4), of ?ps]
  have "log_fits k l' s'" using w1(3) s'(2,3) by (simp add: log_fits_def log_ready_def)
  then show ?thesis using eq rel w1(2,4,6,7,9) w2(2,3,5) s'(2,3,4)
    by (intro exI [of _ ?w] exI [of _ l']) auto
qed

text \<open>The data that a commit leaves on a block: that of the last page for it, in the order in which they were marked dirty.\<close>

definition last_image :: "'c lru \<Rightarrow> 'c page_cache \<Rightarrow> page_key list \<Rightarrow> nat \<Rightarrow> bytes option" where
  "last_image L c ps b = map_of (rev (images L c (in_cache L c ps))) b"

text \<open>
  C22. The effect of a commit on a volume without a log or with its log on the same device: on a healthy device, whose log has a
  buffer left for every dirty page and one more, and for dirty pages that are whole blocks of the device (pages no
  longer in the cache are skipped), the commit succeeds and reports the number of pages written. Every block for which there is a
  dirty page holds the data of the last one for it, all other blocks outside the log are as before, the pages
  have left the cache and no others, and the transaction is no longer active but the last one committed.
\<close>

theorem commit_effect:
  assumes "lru_cache L valid" "valid (cache (tw_cache w))" "active tm = Some a" "st_ok (tw_fs w)"
    "tw_log w = map_option (\<lambda>m. (m, None)) l" "log_fits (length (at_dirty_pages a) + 1 + k) l (tw_fs w)"
    "\<And>q. q \<in> set (in_cache L (tw_cache w) (at_dirty_pages a)) \<Longrightarrow>
       snd q < size_blocks (tw_fs w) \<and> length (page_data L (tw_cache w) q) = BLOCK_SIZE"
  shows "\<exists>w'. tx_commit L tm w = (Ok \<lparr>pages_written = length (in_cache L (tw_cache w) (at_dirty_pages a)), cr_txid = at_txid a\<rparr>,
        tm\<lparr>active := None, last_committed := at_txid a\<rparr>, w') \<and>
    (\<forall>b. case last_image L (tw_cache w) (at_dirty_pages a) b of
        Some d \<Rightarrow> fst (read_block (tw_fs w') b) = Ok d
      | None \<Rightarrow> b \<notin> log_range (length (at_dirty_pages a) + 1 + k) l \<longrightarrow> fst (read_block (tw_fs w') b) = fst (read_block (tw_fs w) b)) \<and>
    (\<forall>j b. cache_peek L (tw_cache w') j b = (if (j, b) \<in> set (at_dirty_pages a) then None else cache_peek L (tw_cache w) j b))"
  using tx_commit_shared [OF assms] unfolding last_image_def peek_block_def by (fastforce split: option.split)

text \<open>The example transaction on a device of 20 blocks with the log from block 3 on.\<close>

definition inline_world :: "lru_list tx_world" where
  "inline_world = \<lparr>tw_cache = dirty_cache, tw_fs = MemoryStorage (mem_new 20),
     tw_log = map_option (\<lambda>m. (m, None)) (Some (logmgr_new txn_super 12288))\<rparr>"

lemma inline_page: "in_cache list_lru dirty_cache [(5, 2)] = [(5, 2)]" "page_data list_lru dirty_cache (5, 2) = replicate BLOCK_SIZE 7"
  by (simp_all add: page_data_def cache_peek_def list_lru_def dirty_cache_def cached_page_new_def)

lemma inline_ok: "st_ok (tw_fs inline_world)" "size_blocks (tw_fs inline_world) = 20" "ll_valid (cache (tw_cache inline_world))"
  using txn_valid by (simp_all add: inline_world_def txn_world_def mem_new_ok block_size_defs)

lemma inline_ready: "log_fits (length [(5 :: 32 word, 2 :: nat)] + 1 + 0) (Some (logmgr_new txn_super 12288)) (tw_fs inline_world)"
  using inline_ok by (simp add: log_fits_def log_ready_def log_end_def)
    (simp add: logmgr_new_def txn_super_def ls_wf_def logsuper_default_def log_size_defs)

theorem commit_effect_witness:
  "\<exists>w'. tx_commit list_lru txn_tm inline_world = (Ok \<lparr>pages_written = 1, cr_txid = 3\<rparr>, txn_tm\<lparr>active := None, last_committed := 3\<rparr>, w') \<and>
     fst (read_block (tw_fs w') 2) = Ok (replicate BLOCK_SIZE 7)"
proof -
  have p: "snd q < size_blocks (tw_fs inline_world) \<and> length (page_data list_lru (tw_cache inline_world) q) = BLOCK_SIZE"
    if "q \<in> set (in_cache list_lru (tw_cache inline_world) [(5, 2)])" for q
    using that inline_page inline_ok(2) by (simp add: inline_world_def)
  have "tw_log inline_world = map_option (\<lambda>m. (m, None)) (Some (logmgr_new txn_super 12288))" by (simp add: inline_world_def)
  note e = commit_effect [OF ll.lru_cache_axioms inline_ok(3) txn_assms(1) inline_ok(1) this, of 0, unfolded active_txn.simps, OF inline_ready p]
  from e obtain w' where
    w': "tx_commit list_lru txn_tm inline_world = (Ok \<lparr>pages_written = length (in_cache list_lru (tw_cache inline_world) [(5, 2)]), cr_txid = 3\<rparr>,
        txn_tm\<lparr>active := None, last_committed := 3\<rparr>, w')"
    "\<And>b. case last_image list_lru (tw_cache inline_world) [(5, 2)] b of Some d \<Rightarrow> fst (read_block (tw_fs w') b) = Ok d
      | None \<Rightarrow> b \<notin> log_range (length [(5 :: 32 word, 2 :: nat)] + 1 + 0) (Some (logmgr_new txn_super 12288)) \<longrightarrow>
          fst (read_block (tw_fs w') b) = fst (read_block (tw_fs inline_world) b)" by blast
  have "tw_cache inline_world = dirty_cache" by (simp add: inline_world_def)
  with w'(1) w'(2) [of 2] inline_page show ?thesis by (simp add: last_image_def images_def)
qed

end
