(* ===== verification/Crash.thy ===== *)
theory Crash
  imports Log_Frame
begin

text \<open>
  Crashes during a commit, for a log on the device of the file system itself (as a mounted volume has it) and for a log on a
  device of its own: what a commit has written when it stops in its journal phase, however the devices
  fail, and what recovery makes of a device on which the journal phase is complete.
\<close>

section \<open>Bytes in front of a limit\<close>

text \<open>The bytes of the medium under the wrappers, and that those in front of \<open>lo\<close> are as they were.\<close>

definition stored :: "storage \<Rightarrow> bytes" where
  "stored s = contents (medium s)"

definition kept :: "nat \<Rightarrow> bytes \<Rightarrow> bytes \<Rightarrow> bool" where
  "kept lo xs ys \<longleftrightarrow> length xs \<le> length ys \<and> (\<forall>i<lo. i < length xs \<longrightarrow> ys ! i = xs ! i)"

lemma kept_refl [simp]: "kept lo xs xs"
  by (simp add: kept_def)

lemma kept_trans: "kept lo xs ys \<Longrightarrow> kept lo ys zs \<Longrightarrow> kept lo xs zs"
  by (fastforce simp: kept_def)

lemma kept_splice: "lo \<le> a \<Longrightarrow> a + length d \<le> length ys \<Longrightarrow> kept lo xs ys \<Longrightarrow> kept lo xs (splice a d ys)"
  by (auto simp: kept_def nth_splice)

lemma kept_append: "kept lo xs (xs @ ys)"
  by (simp add: kept_def nth_append)

lemma os_write_kept: "lo \<le> a \<Longrightarrow> kept lo (of_data f) (of_data (snd (os_write_at f a d)))"
  by (auto simp: os_write_at_def Let_def not_le intro!: kept_splice kept_append split: option.split)

lemma write_all_kept: "lo \<le> offset \<Longrightarrow> kept lo (of_data f) (of_data (snd (write_all_at f offset data written)))"
proof (induction f offset data written rule: write_all_at.induct)
  case (1 f offset data written)
  show ?case
  proof (cases "written < length data \<and> add_u64 offset written = Ok (offset + written)")
    case False
    then have "snd (write_all_at f offset data written) = f"
      by (subst write_all_at.simps) (auto simp: add_u64_def split: if_splits)
    then show ?thesis by simp
  next
    case True
    obtain r f' where o: "os_write_at f (offset + written) (drop written data) = (r, f')" by fastforce
    have k: "kept lo (of_data f) (of_data f')" using os_write_kept [of lo "offset + written" f "drop written data"] o 1(2) by simp
    show ?thesis
    proof (cases "\<exists>n. r = Ok n \<and> n \<noteq> 0")
      case True': True
      then obtain n where n: "r = Ok n" "n \<noteq> 0" by blast
      have "kept lo (of_data f') (of_data (snd (write_all_at f' offset data (written + n))))"
        using 1 True o n by metis
      with k show ?thesis using True o n by (subst write_all_at.simps) (auto intro: kept_trans)
    next
      case False
      then show ?thesis using True o k by (subst write_all_at.simps) (cases r; auto)
    qed
  qed
qed

lemma write_bytes_kept: "lo \<le> a \<Longrightarrow> kept lo (stored s) (stored (snd (write_bytes s a d)))"
proof (induction s)
  case (MemoryStorage m)
  then show ?case by (auto simp: stored_def mem_write_bytes_def add_u64_def intro: kept_splice)
next
  case (FileStorage fd)
  then show ?case using write_all_kept [of lo a "fd_file fd" d 0]
    by (auto simp: stored_def file_write_bytes_def split: prod.split)
qed (auto simp: stored_def Let_def split: prod.split)

lemma stored_sync [simp]: "stored (snd (sync s)) = stored s" "stored (snd (flush_metadata s)) = stored s" "stored (snd (flush_data s)) = stored s"
  by (simp_all add: stored_def)

section \<open>The log manager writes behind its start\<close>

lemma write_pages_kept:
  "lo \<le> log_base m + 2 * BLOCK_SIZE \<Longrightarrow> kept lo (stored s) (stored (snd (write_pages m s p is)))"
proof (induction "is" arbitrary: s)
  case (Cons i "is")
  show ?case
  proof (cases "slice_res (i * LOGPSIZE) (min (i * LOGPSIZE + LOGPSIZE) (length (log_buffer m))) (log_buffer m)")
    case (Ok chunk)
    obtain r s' where w: "write_bytes s (page_offset m (p + i)) chunk = (r, s')" by fastforce
    have "kept lo (stored s) (stored s')"
      using write_bytes_kept [of lo "page_offset m (p + i)" s chunk] Cons.prems w by (simp add: page_offset_def)
    then show ?thesis using Cons Ok w by (cases r) (auto simp: lm_write_page_def intro: kept_trans)
  qed simp_all
qed simp

text \<open>An operation of the log manager keeps what lies in front of the log, whatever it returns.\<close>

definition log_behind :: "(logmgr \<Rightarrow> storage \<Rightarrow> unit res \<times> (logmgr \<times> storage)) \<Rightarrow> bool" where
  "log_behind f \<longleftrightarrow> (\<forall>m s r m' s'. f m s = (r, (m', s')) \<longrightarrow> log_base m' = log_base m \<and> kept (log_start m) (stored s) (stored s'))"

lemma log_behindD:
  "log_behind f \<Longrightarrow> f m s = (r, (m', s')) \<Longrightarrow> log_base m' = log_base m \<and> kept (log_start m) (stored s) (stored s')"
  by (auto simp: log_behind_def)

lemma log_behind_bind:
  assumes "log_behind f" "\<And>m s. log_behind (g m)"
  shows "log_behind (\<lambda>m s. st_bind (f m s) (\<lambda>_ (m1, s1). g m m1 s1))"
  unfolding log_behind_def
proof (intro allI impI)
  fix m s r m' s'
  assume e: "st_bind (f m s) (\<lambda>_ (m1, s1). g m m1 s1) = (r, (m', s'))"
  obtain r1 m1 s1 where f: "f m s = (r1, (m1, s1))" by (metis prod.exhaust)
  note k = log_behindD [OF assms(1) f]
  show "log_base m' = log_base m \<and> kept (log_start m) (stored s) (stored s')"
    using e f k log_behindD [OF assms(2), of m m1 s1 r m' s'] by (cases r1) (auto intro: kept_trans)
qed

lemma flush_journal_behind: "log_behind flush_journal"
  unfolding log_behind_def
proof (intro allI impI)
  fix m s r m' s'
  assume e: "flush_journal m s = (r, (m', s'))"
  obtain r1 s1 where w: "(if buffer_dirty m \<and> 0 < write_offset m
      then write_pages m s (fst (buffered_pages m)) [0..<snd (buffered_pages m)] else (Ok (), s)) = (r1, s1)" by fastforce
  have k1: "kept (log_start m) (stored s) (stored s1)"
    using write_pages_kept [of "log_start m" m s "fst (buffered_pages m)" "[0..<snd (buffered_pages m)]"] w by (auto split: if_splits)
  obtain r2 s2 where f: "st_bind (r1, s1) (\<lambda>_ s1. st_bind (flush_metadata s1) (\<lambda>_ s2. sync s2)) = (r2, s2)" by fastforce
  obtain r3 s3 where f3: "flush_metadata s1 = (r3, s3)" by fastforce
  have "stored s3 = stored s1" using stored_sync(2) [of s1] f3 by simp
  then have "stored s2 = stored s1" using f f3 stored_sync(1) [of s3] by (cases r1; cases r3) auto
  with k1 have k2: "kept (log_start m) (stored s) (stored s2)" by simp
  have "kept (log_start m) (stored s) (stored s')" if "write_bytes s2 (log_start m) d = (r, s')" for d
    using that kept_trans [OF k2 write_bytes_kept [of "log_start m" "log_start m" s2 d, OF order_refl]] by simp
  with k2 show "log_base m' = log_base m \<and> kept (log_start m) (stored s) (stored s')"
    using e w f by (cases r2) (auto simp: flush_journal_def write_super_def Let_def split: prod.splits)
qed

lemma make_room_behind: "log_behind (make_room n)"
proof -
  have "log_behind (\<lambda>m s. st_bind (flush_journal m s) (\<lambda>_ (m1, s1). (Ok (), (m1\<lparr>log_buffer := replicate (length (log_buffer m1)) 0, buffer_dirty := False,
      write_offset := (write_offset m1 + LOG_BUFFER_SIZE - 1) div LOG_BUFFER_SIZE * LOG_BUFFER_SIZE\<rparr>, s1))))"
    by (rule log_behind_bind [OF flush_journal_behind]) (simp add: log_behind_def)
  then show ?thesis unfolding log_behind_def make_room_def by (auto split: if_splits)
qed

lemma append_behind: "log_behind (append_log_record txid block data)"
proof -
  have p: "log_behind (\<lambda>m1 s1. st_bind (put_record (redo_lrd txid (prev_record_offset m1) block (length data)) data m1 s1)
      (\<lambda>_ (m2, s2). (Ok (), (m2\<lparr>prev_record_offset := write_offset m1\<rparr>, s2))))"
    unfolding log_behind_def by (auto simp: put_record_def Let_def split: if_splits)
  show ?thesis unfolding append_log_record_def
    by (rule log_behind_bind [OF make_room_behind, where g = "\<lambda>_ m1 s1. st_bind (put_record (redo_lrd txid (prev_record_offset m1) block
      (length data)) data m1 s1) (\<lambda>_ (m2, s2). (Ok (), (m2\<lparr>prev_record_offset := write_offset m1\<rparr>, s2)))"]) (rule p)
qed

lemma commit_behind: "log_behind (commit_transaction txid)"
proof -
  have f: "log_behind (\<lambda>m2 s2. st_bind (flush_journal m2 s2) (\<lambda>_ (m3, s3). (Ok (), (m3\<lparr>prev_record_offset := 0\<rparr>, s3))))"
    by (rule log_behind_bind [OF flush_journal_behind]) (simp add: log_behind_def)
  have "log_behind (\<lambda>m1. put_record (commit_lrd txid (prev_record_offset m1)) [] m1)"
    by (auto simp: log_behind_def put_record_def Let_def split: if_splits)
  from log_behind_bind [OF this, of "\<lambda>_ m2 s2. st_bind (flush_journal m2 s2) (\<lambda>_ (m3, s3). (Ok (), (m3\<lparr>prev_record_offset := 0\<rparr>, s3)))", OF f]
  have p: "log_behind (\<lambda>m1 s1. st_bind (put_record (commit_lrd txid (prev_record_offset m1)) [] m1 s1) (\<lambda>_ (m2, s2).
     st_bind (flush_journal m2 s2) (\<lambda>_ (m3, s3). (Ok (), (m3\<lparr>prev_record_offset := 0\<rparr>, s3)))))" .
  show ?thesis unfolding commit_transaction_def
    by (rule log_behind_bind [OF make_room_behind, where g = "\<lambda>_ m1 s1. st_bind (put_record (commit_lrd txid (prev_record_offset m1)) [] m1 s1)
      (\<lambda>_ (m2, s2). st_bind (flush_journal m2 s2) (\<lambda>_ (m3, s3). (Ok (), (m3\<lparr>prev_record_offset := 0\<rparr>, s3))))"]) (rule p)
qed

section \<open>Write-ahead ordering\<close>

text \<open>What the file system device may have changed while the log was written: nothing if the log has its own device.\<close>

definition ahead :: "'c tx_world \<Rightarrow> 'c tx_world \<Rightarrow> bool" where
  "ahead w w' \<longleftrightarrow> (\<forall>jm dev. tw_log w = Some (jm, dev) \<longrightarrow> (\<exists>jm' dev'. tw_log w' = Some (jm', dev') \<and> (dev' = None \<longleftrightarrow> dev = None) \<and>
     log_base jm' = log_base jm \<and> (if dev = None then kept (log_start jm) (stored (tw_fs w)) (stored (tw_fs w')) else stored (tw_fs w') = stored (tw_fs w))))"

lemma ahead_refl: "tw_log w' = tw_log w \<Longrightarrow> stored (tw_fs w') = stored (tw_fs w) \<Longrightarrow> ahead w w'"
  by (auto simp: ahead_def)

lemma ahead_trans:
  assumes "ahead w1 w2" "ahead w2 w3"
  shows "ahead w1 w3"
  unfolding ahead_def
proof (intro allI impI)
  fix jm dev assume "tw_log w1 = Some (jm, dev)"
  with assms(1) obtain j2 d2 where 2: "tw_log w2 = Some (j2, d2)" "d2 = None \<longleftrightarrow> dev = None" "log_base j2 = log_base jm"
    "if dev = None then kept (log_start jm) (stored (tw_fs w1)) (stored (tw_fs w2)) else stored (tw_fs w2) = stored (tw_fs w1)"
    unfolding ahead_def by blast
  from assms(2) 2(1) obtain j3 d3 where "tw_log w3 = Some (j3, d3)" "d3 = None \<longleftrightarrow> d2 = None" "log_base j3 = log_base j2"
    "if d2 = None then kept (log_start j2) (stored (tw_fs w2)) (stored (tw_fs w3)) else stored (tw_fs w3) = stored (tw_fs w2)"
    unfolding ahead_def by blast
  with 2 show "\<exists>jm' dev'. tw_log w3 = Some (jm', dev') \<and> (dev' = None \<longleftrightarrow> dev = None) \<and> log_base jm' = log_base jm \<and>
      (if dev = None then kept (log_start jm) (stored (tw_fs w1)) (stored (tw_fs w3)) else stored (tw_fs w3) = stored (tw_fs w1))"
    by (auto intro: kept_trans split: if_splits)
qed

lemma on_log_ahead: "log_behind f \<Longrightarrow> ahead w (snd (on_log f w))"
  by (auto simp: ahead_def on_log_def split: prod.split option.split dest: log_behindD)

lemma append_records_ahead: "ahead w (snd (append_records L txid ps w))"
proof (induction ps arbitrary: w)
  case Nil
  then show ?case by (simp add: ahead_refl)
next
  case (Cons q ps)
  obtain ino block where q: "q = (ino, block)" by (cases q)
  obtain page c where g: "cache_get L (tw_cache w) ino block = (page, c)" by fastforce
  let ?w = "w\<lparr>tw_cache := c\<rparr>"
  have c: "ahead w ?w" by (simp add: ahead_refl)
  show ?case
  proof (cases page)
    case None
    then show ?thesis using g ahead_trans [OF c Cons.IH] by (simp add: q)
  next
    case (Some p)
    obtain r1 w1 where o: "on_log (append_log_record txid block (cp_data p)) ?w = (r1, w1)" by fastforce
    have "ahead w w1" using ahead_trans [OF c on_log_ahead [OF append_behind]] o by (metis snd_conv)
    then show ?thesis using g Some o ahead_trans [OF _ Cons.IH, of w w1] by (cases r1) (simp_all add: q)
  qed
qed

lemma journal_ahead: "ahead w (snd (journal_phase L txid ps w))"
proof -
  obtain r1 w1 where a: "append_records L txid ps w = (r1, w1)" by fastforce
  have "ahead w w1" using append_records_ahead [of w L txid ps] a by simp
  then show ?thesis using a ahead_trans [OF _ on_log_ahead [OF commit_behind], of w w1 txid]
    by (cases r1) (auto simp: journal_phase_def ahead_refl)
qed

text \<open>
  C21. Write-ahead logging: a commit that does not complete its journal phase, because the data cannot be flushed, a record
  cannot be appended, or the commit record cannot be written and flushed, returns no success, and has not
  touched the file system: with a log on a device of its own the file system device holds what it held before, and with the
  log on the same device, as a mounted volume has it, all bytes in front of the log's superblock are as before. This
  holds for all devices, caches and faults.
\<close>

theorem commit_write_ahead:
  assumes "active tm = Some a" "tw_log w = Some (jm, dev)" "tx_commit L tm w = (r, tm', w')"
    "fst (on_fs flush_data w) \<noteq> Ok () \<or>
     fst (journal_phase L (at_txid a) (at_dirty_pages a) (snd (on_fs flush_data w))) \<noteq> Ok ()"
  shows "(\<forall>x. r \<noteq> Ok x) \<and>
    (if dev = None then kept (log_base jm + BLOCK_SIZE) (stored (tw_fs w)) (stored (tw_fs w'))
     else stored (tw_fs w') = stored (tw_fs w))"
proof -
  obtain r1 s1 where fd: "flush_data (tw_fs w) = (r1, s1)" by fastforce
  define w1 where "w1 = w\<lparr>tw_fs := s1\<rparr>"
  have f: "on_fs flush_data w = (r1, w1)" using fd by (simp add: on_fs_def w1_def)
  have a1: "ahead w w1" using stored_sync(3) [of "tw_fs w", unfolded fd] by (simp add: w1_def ahead_refl)
  obtain r2 w2 where j: "journal_phase L (at_txid a) (at_dirty_pages a) w1 = (r2, w2)" by fastforce
  have a2: "ahead w w2" using ahead_trans [OF a1 journal_ahead] j by (metis snd_conv)
  have "(\<forall>x. r \<noteq> Ok x) \<and> (tw_fs w' = tw_fs w1 \<or> tw_fs w' = tw_fs w2)"
    using assms(1,3,4) f j by (cases r1; cases r2) (auto simp: tx_commit_def)
  then show ?thesis using a1 a2 assms(2) unfolding ahead_def by (auto split: if_splits)
qed

section \<open>Recovery of a transaction from the same device\<close>

text \<open>Blocks outside the superblock of a log at \<open>base\<close>, and outside the log's first buffer as well.\<close>

definition beside_super :: "nat \<Rightarrow> nat \<Rightarrow> bool" where
  "beside_super base b \<longleftrightarrow> b * BLOCK_SIZE + BLOCK_SIZE \<le> base + BLOCK_SIZE \<or> base + 2 * BLOCK_SIZE \<le> b * BLOCK_SIZE"

definition beside_log :: "nat \<Rightarrow> nat \<Rightarrow> bool" where
  "beside_log base b \<longleftrightarrow> b * BLOCK_SIZE + BLOCK_SIZE \<le> base + BLOCK_SIZE \<or> base + 2 * BLOCK_SIZE + LOG_BUFFER_SIZE \<le> b * BLOCK_SIZE"

lemma beside_log_super: "beside_log base b \<Longrightarrow> beside_super base b"
  by (auto simp: beside_log_def beside_super_def)

lemma page_writes_keep_log:
  assumes "same_log base s u" "\<forall>(b, d)\<in>set xs. b < size_blocks u \<and> length d = BLOCK_SIZE \<and> beside_log base b"
  shows "\<exists>u'. write_seq write_block u xs = (Ok (), u') \<and> same_log base s u' \<and> size_blocks u' = size_blocks u"
  using assms
proof (induction xs arbitrary: u)
  case (Cons x xs)
  obtain b d where x: "x = (b, d)" by (cases x)
  have ok: "st_ok u" "b < size_blocks u" "length d = BLOCK_SIZE" "beside_log base b" using Cons.prems by (auto simp: x same_log_def)
  obtain r u1 where w: "write_block u b d = (r, u1)" by fastforce
  note e = dev.write_effect [OF ok(1-3) w] and f = dev.block_fits [OF ok(1,2)]
  have "slice (base + BLOCK_SIZE) (base + 2 * BLOCK_SIZE + LOG_BUFFER_SIZE) (contents u1) =
      slice (base + BLOCK_SIZE) (base + 2 * BLOCK_SIZE + LOG_BUFFER_SIZE) (contents u)"
    unfolding e(4) using f ok(3,4) by (intro slice_splice_other) (auto simp: beside_log_def)
  then have "same_log base s u1" using Cons.prems(1) e(2,4) f ok(3) by (simp add: same_log_def)
  with Cons.IH [of u1] Cons.prems(2) e(1,3) w show ?case by (auto simp: x)
qed simp

lemma finish_phase_rewrites:
  assumes "st_ok s" "base + 2 * BLOCK_SIZE + LOG_BUFFER_SIZE \<le> length (contents s)"
  shows "\<exists>rc' s'. finish_phase rc (base + 2 * BLOCK_SIZE) s = (Ok (), rc', s') \<and>
    ls_state_val (rc_logsuper rc') = LOGREDONE \<and> rewritten (base + BLOCK_SIZE) (base + 2 * BLOCK_SIZE) s s'"
proof -
  let ?rc = "rc\<lparr>rc_logsuper := ls_set_state (rc_logsuper rc) LOGREDONE\<rparr>"
  let ?d = "logsuper_head (rc_logsuper ?rc) @ replicate 92 0"
  have "length ?d = 128" by (simp add: logsuper_head_def)
  then have "base + BLOCK_SIZE + length ?d \<le> base + 2 * BLOCK_SIZE" "base + 2 * BLOCK_SIZE \<le> length (contents s)"
    using assms(2) by (simp_all add: block_size_defs)
  from write_bytes_rewritten [OF assms(1) order_refl this] obtain s' where
    "write_bytes s (base + BLOCK_SIZE) ?d = (Ok (), s')" "rewritten (base + BLOCK_SIZE) (base + 2 * BLOCK_SIZE) s s'" by blast
  moreover from this have "finish_phase rc (base + 2 * BLOCK_SIZE) s = (Ok (), ?rc, s')"
    unfolding finish_phase_def Let_def by (simp add: add.commute)
  ultimately show ?thesis by (auto simp: ls_set_state_def ls_state_val_def)
qed

lemma replay_shared_images:
  assumes "st_ok u" "base + 2 * BLOCK_SIZE + LOG_BUFFER_SIZE \<le> size_blocks u * BLOCK_SIZE" "ls_state_val l \<noteq> LOGREDONE"
    "scan_phase (recovery_new l) (base + 2 * BLOCK_SIZE) u = (Ok (rs, reader), u)" "plain_log u rs"
  shows "\<exists>rc' u'. replay_shared (recovery_new l) u (base + 2 * BLOCK_SIZE) = (Ok (), rc', u') \<and>
    ls_state_val (rc_logsuper rc') = LOGREDONE \<and>
    (\<forall>b. beside_super base b \<longrightarrow> peek_block u' b = (case map_of (committed_images rs) b of Some d \<Rightarrow> Ok d | None \<Rightarrow> peek_block u b))"
proof -
  let ?D = "base + 2 * BLOCK_SIZE"
  from replay_records_images [OF assms(1,5), of ?D "lr_pos reader" l] obtain rc1 u1 where
    p: "replay_records ?D (lr_pos reader) 0 (rev rs) (recovery_new l) u = (Ok (), rc1, u1)" "st_ok u1" "size_blocks u1 = size_blocks u"
    "\<And>b. peek_block u1 b = (case map_of (committed_images rs) b of Some d \<Rightarrow> Ok d | None \<Rightarrow> peek_block u b)" by blast
  have "size_blocks u * BLOCK_SIZE \<le> length (contents u1)" using dev.size_data [OF p(2)] p(3) by (metis div_times_less_eq_dividend)
  with assms(2) have "?D + LOG_BUFFER_SIZE \<le> length (contents u1)" by (rule order_trans)
  from finish_phase_rewrites [OF p(2) this, of rc1] obtain rc' u' where
    f: "finish_phase rc1 ?D u1 = (Ok (), rc', u')" "ls_state_val (rc_logsuper rc') = LOGREDONE" "rewritten (base + BLOCK_SIZE) ?D u1 u'" by blast
  have "ls_state_val (rc_logsuper (recovery_new l)) \<noteq> LOGREDONE" using assms(3) by (simp add: recovery_new_def)
  then have "replay_shared (recovery_new l) u ?D = (Ok (), rc', u')" using assms(4) p(1) f(1) by (simp add: replay_shared_def)
  moreover have "peek_block u' b = peek_block u1 b" if "beside_super base b" for b
    using rewritten_peek [OF p(2) f(3), of b] that by (simp add: beside_super_def)
  ultimately show ?thesis using f(2) p(4) by auto
qed

text \<open>
  C2. Crash consistency of a transaction whose log lies on the same device, as on a mounted volume. The log is new and not marked
  as replayed, the records of the transaction fit its first buffer, which leaves room for the image of one page, and that page is
  a whole block outside the log. On a healthy device the journal phase of the commit then succeeds, and every device that the commit passes
  through afterwards, when it writes the page, still holds that log. On every healthy device of the same size that holds it, whatever
  the other blocks hold, the superblock of the log is found and the replay of the mount succeeds, puts the
  data of the dirty page on its block, leaves every other block outside the superblock of the log as it found it, and
  marks the log as replayed.
\<close>

theorem transaction_recoverable:
  assumes "lru_cache L valid" "valid (cache (tw_cache w))" "st_ok (tw_fs w)" "size_blocks (tw_fs w) \<le> 2 ^ 40"
    "tw_log w = Some (logmgr_new ls base, None)" "ls_state_val ls \<noteq> LOGREDONE"
    "fits_buffer ls base (txn_ops txid (images L (tw_cache w) ps)) (tw_fs w)" "committable L (tw_cache w) (tw_fs w) ps"
    "\<forall>k\<in>set ps. beside_log base (snd k)" "base + 2 * BLOCK_SIZE + LOG_BUFFER_SIZE \<le> size_blocks (tw_fs w) * BLOCK_SIZE"
  shows "\<exists>w1 l. journal_phase L txid ps w = (Ok (), w1) \<and>
    (\<forall>n. \<exists>u. write_seq write_block (tw_fs w1) (take n (images L (tw_cache w) ps)) = (Ok (), u) \<and>
       same_log base (tw_fs w1) u \<and> size_blocks u = size_blocks (tw_fs w)) \<and>
    (\<forall>u. same_log base (tw_fs w1) u \<and> size_blocks u = size_blocks (tw_fs w) \<longrightarrow>
      (\<exists>rc u'. lm_read_super u base = (Ok l, u) \<and> replay_shared (recovery_new l) u (data_start (logmgr_new l base)) = (Ok (), rc, u') \<and>
         ls_state_val (rc_logsuper rc) = LOGREDONE \<and>
         (\<forall>k\<in>set ps. fst (read_block u' (snd k)) = Ok (page_data L (tw_cache w) k)) \<and>
         (\<forall>b. b \<notin> snd ` set ps \<and> beside_super base b \<longrightarrow> fst (read_block u' b) = fst (read_block u b))))"
proof -
  let ?I = "images L (tw_cache w) ps" and ?D = "base + 2 * BLOCK_SIZE"
  let ?rs = "op_records 0 0 (txn_ops txid ?I)"
  from run_ops_log [OF assms(7) [unfolded txn_ops_def], folded txn_ops_def] obtain m' s' l where
    r: "run_ops (txn_ops txid ?I) (logmgr_new ls base) (tw_fs w) = (Ok (), (m', s'))" "same_log base s' s'" "ls_state l = ls_state ls"
    "length (contents s') = length (contents (tw_fs w))"
    "\<And>u. same_log base s' u \<Longrightarrow> lm_read_super u base = (Ok l, u) \<and> (\<exists>reader. scan_phase (recovery_new l) ?D u = (Ok (?rs, reader), u))"
    by blast
  have "\<forall>k\<in>set ps. cache_peek L (tw_cache w) (fst k) (snd k) \<noteq> None" using assms(8) by (simp add: committable_def)
  from journal_phase_run [OF assms(1,2) this assms(5), of txid m' s'] r(1) obtain w1 where
    w1: "journal_phase L txid ps w = (Ok (), w1)" "tw_fs w1 = s'" by (auto simp: log_device_def logged_def)
  have "\<exists>rc u'. lm_read_super u base = (Ok l, u) \<and> replay_shared (recovery_new l) u (data_start (logmgr_new l base)) = (Ok (), rc, u') \<and>
      ls_state_val (rc_logsuper rc) = LOGREDONE \<and> (\<forall>k\<in>set ps. fst (read_block u' (snd k)) = Ok (page_data L (tw_cache w) k)) \<and>
      (\<forall>b. b \<notin> snd ` set ps \<and> beside_super base b \<longrightarrow> fst (read_block u' b) = fst (read_block u b))"
    if u: "same_log base s' u" "size_blocks u = size_blocks (tw_fs w)" for u
  proof -
    have ok: "st_ok u" "ls_state_val l \<noteq> LOGREDONE" "?D + LOG_BUFFER_SIZE \<le> size_blocks u * BLOCK_SIZE"
      using u assms(6,10) r(3) by (simp_all add: same_log_def ls_state_val_def)
    from r(5) [OF u(1)] obtain reader where rd: "lm_read_super u base = (Ok l, u)" "scan_phase (recovery_new l) ?D u = (Ok (?rs, reader), u)" by blast
    have cu: "committable L (tw_cache w) u ps" "size_blocks u \<le> 2 ^ 40" using assms(4,8) u(2) by (simp_all add: committable_def)
    note c = committable_plain(1,2) [OF cu, of txid] committable_plain(3) [OF cu]
    from replay_shared_images [OF ok(1,3,2) rd(2) c(2)] obtain rc u' where
      p: "replay_shared (recovery_new l) u ?D = (Ok (), rc, u')" "ls_state_val (rc_logsuper rc) = LOGREDONE"
      "\<And>b. beside_super base b \<Longrightarrow> peek_block u' b = (case map_of ?I b of Some d \<Rightarrow> Ok d | None \<Rightarrow> peek_block u b)" unfolding c(1) by blast
    have "fst (read_block u' (snd k)) = Ok (page_data L (tw_cache w) k)" if k: "k \<in> set ps" for k
    proof -
      have "(snd k, page_data L (tw_cache w) k) \<in> set ?I" using k by (simp add: images_def)
      with c(3) have "map_of ?I (snd k) = Some (page_data L (tw_cache w) k)" by simp
      then show ?thesis using p(3) [OF beside_log_super, of "snd k"] assms(9) k by (simp add: peek_block_def)
    qed
    moreover have "fst (read_block u' b) = fst (read_block u b)" if b: "b \<notin> snd ` set ps" "beside_super base b" for b
    proof -
      have "map_of ?I b = None" using b(1) by (force simp: map_of_eq_None_iff images_def)
      then show ?thesis using p(3) [OF b(2)] by (simp add: peek_block_def)
    qed
    ultimately show ?thesis using rd(1) p(1,2) unfolding data_start_new by blast
  qed
  moreover have "\<exists>u. write_seq write_block s' (take n ?I) = (Ok (), u) \<and> same_log base s' u \<and> size_blocks u = size_blocks (tw_fs w)" for n
  proof -
    have "size_blocks s' = size_blocks (tw_fs w)" using r(2,4) assms(3) dev.size_data by (simp add: same_log_def)
    moreover have "\<forall>(b, d)\<in>set (take n ?I). b < size_blocks (tw_fs w) \<and> length d = BLOCK_SIZE \<and> beside_log base b"
      using assms(8,9) set_take_subset [of n ?I] by (fastforce simp: images_def committable_def)
    ultimately show ?thesis using page_writes_keep_log [OF r(2), of "take n ?I"] by simp
  qed
  ultimately show ?thesis using w1 by blast
qed

section \<open>Examples\<close>

lemma inline_parts: "tw_cache inline_world = dirty_cache" "tw_fs inline_world = MemoryStorage (mem_new 20)"
  "tw_log inline_world = Some (logmgr_new txn_super 12288, None)"
  by (simp_all add: inline_world_def)

theorem transaction_recoverable_witness:
  "\<exists>w1 l rc u'. journal_phase list_lru 3 [(5, 2)] inline_world = (Ok (), w1) \<and> lm_read_super (tw_fs w1) 12288 = (Ok l, tw_fs w1) \<and>
     replay_shared (recovery_new l) (tw_fs w1) (data_start (logmgr_new l 12288)) = (Ok (), rc, u') \<and>
     fst (read_block u' 2) = Ok (replicate BLOCK_SIZE 7)"
proof -
  have st: "ls_state_val txn_super \<noteq> LOGREDONE" by (simp add: txn_super_def ls_state_val_def LOGREDONE_def)
  have f: "fits_buffer txn_super 12288 (txn_ops 3 (images list_lru (tw_cache inline_world) [(5, 2)])) (tw_fs inline_world)"
    using txn_fits [of 12288] txn_images by (simp add: inline_parts)
  have c: "committable list_lru (tw_cache inline_world) (tw_fs inline_world) [(5, 2)]" "size_blocks (tw_fs inline_world) \<le> 2 ^ 40"
    "\<forall>k\<in>set [(5 :: 32 word, 2 :: nat)]. beside_log 12288 (snd k)"
    "12288 + 2 * BLOCK_SIZE + LOG_BUFFER_SIZE \<le> size_blocks (tw_fs inline_world) * BLOCK_SIZE"
    using inline_ok(2) inline_page by (simp_all add: committable_def inline_parts beside_log_def log_size_defs) (simp add: cache_peek_def list_lru_def dirty_cache_def)
  from transaction_recoverable [OF ll.lru_cache_axioms inline_ok(3,1) c(2) inline_parts(3) st f c(1,3,4)] obtain w1 l where
    w1: "journal_phase list_lru 3 [(5, 2)] inline_world = (Ok (), w1)"
    "\<And>n. \<exists>u. write_seq write_block (tw_fs w1) (take n (images list_lru (tw_cache inline_world) [(5, 2)])) = (Ok (), u) \<and>
       same_log 12288 (tw_fs w1) u \<and> size_blocks u = size_blocks (tw_fs inline_world)"
    "\<And>u. same_log 12288 (tw_fs w1) u \<Longrightarrow> size_blocks u = size_blocks (tw_fs inline_world) \<Longrightarrow>
       \<exists>rc u'. lm_read_super u 12288 = (Ok l, u) \<and> replay_shared (recovery_new l) u (data_start (logmgr_new l 12288)) = (Ok (), rc, u') \<and>
         (\<forall>k\<in>set [(5, 2)]. fst (read_block u' (snd k)) = Ok (page_data list_lru (tw_cache inline_world) k))" by blast
  have "same_log 12288 (tw_fs w1) (tw_fs w1)" "size_blocks (tw_fs w1) = size_blocks (tw_fs inline_world)" using w1(2) [of 0] by simp_all
  from w1(3) [OF this] w1(1) inline_page(2) show ?thesis by (auto simp: inline_parts)
qed

text \<open>The same transaction on a device whose first \<open>sync\<close> fails.\<close>

theorem commit_write_ahead_witness:
  "\<exists>r tm' w'. tx_commit list_lru txn_tm (inline_world\<lparr>tw_fs := FaultInjector (set_sync_fail 1 injector_new) (MemoryStorage (mem_new 20))\<rparr>) = (r, tm', w') \<and>
     (\<forall>x. r \<noteq> Ok x) \<and> kept 16384 (stored (MemoryStorage (mem_new 20))) (stored (tw_fs w'))"
proof -
  let ?w = "inline_world\<lparr>tw_fs := FaultInjector (set_sync_fail 1 injector_new) (MemoryStorage (mem_new 20))\<rparr>"
  have j: "fst (on_fs flush_data ?w) \<noteq> Ok ()"
    by (simp add: on_fs_def set_sync_fail_def injector_new_def trips_def)
  obtain r tm' w' where e: "tx_commit list_lru txn_tm ?w = (r, tm', w')" by (metis surj_pair)
  have "(\<forall>x. r \<noteq> Ok x) \<and> kept 16384 (stored (MemoryStorage (mem_new 20))) (stored (tw_fs w'))"
    using commit_write_ahead [OF txn_assms(1) _ e] j by (auto simp: inline_parts logmgr_new_def stored_def block_size_defs)
  with e show ?thesis by blast
qed

end
