(* ===== verification/Volume.thy ===== *)
theory Volume
  imports Transaction Dmap Dtree Xtree Recovery
begin

text \<open>
  The volume of \<open>volume.rs\<close> and the inode reader of \<open>inode.rs\<close>: the superblock, mounting with journal
  recovery, transactions on the volume, and the helpers every file operation is built from: finding an
  inode in the inode table, changing its page in the cache, taking a free inode, and editing a
  directory. The file operations themselves are in \<open>Volume_File\<close> and \<open>Volume_Dir\<close>.

  The code keeps one handle to the device and clones it for the log and the allocation map, so the model
  has one \<open>v_storage\<close>; \<open>v_log_storage\<close> says whether \<open>log_storage\<close> is present (it is the same device: the
  code has inline logs only). The features of the default build are on. The environment record
  has the two things the code takes from its libraries: the LRU cache, and the order in which a hash set
  of page numbers is iterated. Error messages are kept without the numbers formatted into them.
\<close>

section \<open>State\<close>

record 'c env =
  e_lru :: "'c lru"
  e_order :: "nat set \<Rightarrow> nat list"

record 'c volume =
  v_sb :: superblock
  v_log :: "logmgr option"
  v_tx :: tx_mgr
  v_storage :: storage
  v_log_storage :: bool
  v_cache :: "'c page_cache"
  v_block_size :: nat
  v_l2bsize :: "16 word"
  v_agg_size :: nat
  v_ag_size :: nat
  v_num_ag :: nat
  v_root_ino :: "32 word"
  v_bmap :: "bmap option"
  v_open_handles :: "nat \<Rightarrow> nat option"

record inode =
  i_dinode :: dinode
  i_ino :: "32 word"
  i_page_block :: nat
  i_page_offset :: nat

section \<open>Running the parts\<close>

definition on_storage :: "(storage \<Rightarrow> 'a res \<times> storage) \<Rightarrow> 'c volume \<Rightarrow> 'a res \<times> 'c volume" where
  "on_storage f v = (let (r, s) = f (v_storage v) in (r, v\<lparr>v_storage := s\<rparr>))"

text \<open>An operation of the allocation map, when there is one.\<close>

definition on_bmap :: "(bmap \<Rightarrow> unit res \<times> bmap) \<Rightarrow> 'c volume \<Rightarrow> unit res \<times> 'c volume" where
  "on_bmap f v =
     (case v_bmap v of
        None \<Rightarrow> (Ok (), v)
      | Some b \<Rightarrow> (let (r, b') = f b in (r, v\<lparr>v_bmap := Some b'\<rparr>)))"

definition flush_bmap :: "'c env \<Rightarrow> 'c volume \<Rightarrow> unit res \<times> 'c volume" where
  "flush_bmap E v =
     (case v_bmap v of
        None \<Rightarrow> (Ok (), v)
      | Some b \<Rightarrow> (let (r, b', s) = bmap_commit (e_order E (dirty_pages b)) b (v_storage v)
                   in (r, v\<lparr>v_bmap := Some b', v_storage := s\<rparr>)))"

definition sync_log :: "'c volume \<Rightarrow> unit res \<times> 'c volume" where
  "sync_log v = (if v_log v = None then (Ok (), v) else on_storage sync v)"

definition flush_cache :: "'c env \<Rightarrow> 'c volume \<Rightarrow> unit res \<times> 'c volume" where
  "flush_cache E v =
     (let (r, c, s) = flush_all (e_lru E) (v_cache v) (v_storage v) in (r, v\<lparr>v_cache := c, v_storage := s\<rparr>))"

section \<open>Superblock\<close>

definition sb_default :: superblock where
  "sb_default = \<lparr>s_magic = zero4, s_version = zero4, s_size = zero8, s_bsize = zero4, s_l2bsize = zero2,
     s_l2bfactor = zero2, s_pbsize = zero4, s_l2pbsize = zero2, s_pad = zero2, s_agsize = zero4, s_flag = zero4,
     s_state = zero4, s_compress = zero4, s_ait2 = pxd_default, s_aim2 = pxd_default, s_logpxd = pxd_default\<rparr>"

text \<open>The guarded field assignments of \<open>read_super\<close>, in order.\<close>

definition parse_super :: "bytes \<Rightarrow> superblock" where
  "parse_super data =
     (let n = length data;
          sb = sb_default;
          sb = (if 4 \<le> n then sb\<lparr>s_magic := arr4_of (slice 0 4 data)\<rparr> else sb);
          sb = (if 8 \<le> n then sb\<lparr>s_version := arr4_of (slice 4 8 data)\<rparr> else sb);
          sb = (if 16 \<le> n then sb\<lparr>s_size := arr8_of (slice 8 16 data)\<rparr> else sb);
          sb = (if 20 \<le> n then sb\<lparr>s_bsize := arr4_of (slice 16 20 data)\<rparr> else sb);
          sb = (if 24 \<le> n then sb\<lparr>s_l2bsize := arr2_of (slice 20 22 data),
                                    s_l2bfactor := arr2_of (slice 22 24 data)\<rparr> else sb);
          sb = (if 32 \<le> n then sb\<lparr>s_pbsize := arr4_of (slice 24 28 data),
                                    s_l2pbsize := arr2_of (slice 28 30 data),
                                    s_pad := arr2_of (slice 30 32 data)\<rparr> else sb);
          sb = (if 36 \<le> n then sb\<lparr>s_agsize := arr4_of (slice 32 36 data)\<rparr> else sb);
          sb = (if 40 \<le> n then sb\<lparr>s_flag := arr4_of (slice 36 40 data)\<rparr> else sb);
          sb = (if 44 \<le> n then sb\<lparr>s_state := arr4_of (slice 40 44 data)\<rparr> else sb);
          sb = (if 48 \<le> n then sb\<lparr>s_compress := arr4_of (slice 44 48 data)\<rparr> else sb);
          sb = (if 56 \<le> n then sb\<lparr>s_ait2 := pxd_from_bytes (slice 48 56 data)\<rparr> else sb);
          sb = (if 64 \<le> n then sb\<lparr>s_aim2 := pxd_from_bytes (slice 56 64 data)\<rparr> else sb);
          sb = (if 80 \<le> n then sb\<lparr>s_logpxd := pxd_from_bytes (slice 72 80 data)\<rparr> else sb)
      in sb)"

definition read_super :: "storage \<Rightarrow> superblock res \<times> storage" where
  "read_super s = st_bind (read_bytes s SUPER1_OFF PSIZE) (\<lambda>data s'. (Ok (parse_super data), s'))"

definition validate_super :: "superblock \<Rightarrow> unit res" where
  "validate_super sb =
     (if \<not> is_valid_magic sb then Err InvalidSuperblock
      else if sb_version sb < 1 \<or> 2 < sb_version sb then Err (Other ''unsupported JFS version'')
      else Ok ())"

definition set_fs_state :: "32 word \<Rightarrow> 'c volume \<Rightarrow> unit res \<times> 'c volume" where
  "set_fs_state st v =
     st_bind (on_storage (\<lambda>s. read_bytes s SUPER1_OFF PSIZE) v) (\<lambda>buf v1.
       if length buf < 44 then (Panic, v1)
       else
         let buf' = splice 40 (list_of_arr4 (write_u32 st)) buf in
         st_bind (on_storage (\<lambda>s. write_bytes s SUPER1_OFF buf') v1) (\<lambda>_ v2.
         st_bind (on_storage flush_metadata v2) (\<lambda>_ v3.
           (Ok (), v3\<lparr>v_sb := (v_sb v3)\<lparr>s_state := arr4_of (slice 40 44 buf')\<rparr>\<rparr>))))"

section \<open>Mounting\<close>

definition init_log :: "'c volume \<Rightarrow> unit res \<times> 'c volume" where
  "init_log v =
     (if \<not> v_log_storage v then (Ok (), v)
      else
        let log_base = (if has_inline_log (v_sb v) then unat (pxd_address (s_logpxd (v_sb v))) * BLOCK_SIZE else 0) in
        st_bind (on_storage (\<lambda>s. lm_read_super s log_base) v) (\<lambda>logsuper v1.
          if ls_magic_val logsuper \<noteq> LOGMAGIC then (Err (Other ''invalid log superblock magic''), v1)
          else if ls_version_val logsuper \<noteq> LOGVERSION then (Err (Other ''unsupported log version''), v1)
          else (Ok (), v1\<lparr>v_log := Some (logmgr_new logsuper log_base)\<rparr>)))"

definition recover_journal :: "'c volume \<Rightarrow> unit res \<times> 'c volume" where
  "recover_journal v =
     (case v_log v of
        None \<Rightarrow> (Ok (), v)
      | Some log \<Rightarrow>
          if ls_state_val (lm_logsuper log) = LOGREDONE \<or> \<not> v_log_storage v then (Ok (), v)
          else
            let (r, rc, s) = replay_shared (recovery_new (lm_logsuper log)) (v_storage v) (data_start log) in
            st_bind (r, v\<lparr>v_storage := s\<rparr>) (\<lambda>_ v1.
            st_bind (on_storage (\<lambda>s. write_super log s (fst (recovery_finalize rc))) v1) (\<lambda>_ v2. sync_log v2)))"

text \<open>\<open>storage.as_any().downcast_ref::<FileStorage>()\<close>: only a file has a geometry to validate.\<close>

definition check_geometry :: "storage \<Rightarrow> superblock \<Rightarrow> unit res" where
  "check_geometry s sb =
     (case s of FileStorage fd \<Rightarrow> validate_against_superblock (fd_geometry fd) sb | _ \<Rightarrow> Ok ())"

definition open_from_storage :: "'c env \<Rightarrow> storage \<Rightarrow> 'c volume res \<times> storage" where
  "open_from_storage E storage =
     st_bind (read_super storage) (\<lambda>sb s1.
     st_bind (validate_super sb, s1) (\<lambda>_ s1.
       if sb_block_size sb \<noteq> PSIZE then (Err (UnsupportedBlockSize (sb_block_size sb)), s1)
       else
         st_bind (check_geometry s1 sb, s1) (\<lambda>_ s1.
           let v = \<lparr>v_sb = sb, v_log = None, v_tx = tx_new, v_storage = s1, v_log_storage = has_inline_log sb,
                    v_cache = cache_new (e_lru E) 256, v_block_size = sb_block_size sb,
                    v_l2bsize = read_u16 (s_l2bsize sb), v_agg_size = aggregate_size sb, v_ag_size = sb_agsize sb,
                    v_num_ag = (if 0 < sb_agsize sb then aggregate_size sb div sb_agsize sb mod 2 ^ 32 else 1),
                    v_root_ino = word_of_nat (FILESYSTEM_I + ROOT_I), v_bmap = None, v_open_handles = Map.empty\<rparr>;
               (r, v1) =
                 st_bind (init_log v) (\<lambda>_ v1.
                 st_bind (recover_journal v1) (\<lambda>_ v2.
                 st_bind (on_storage bmap_new v2) (\<lambda>b v3. (Ok (), v3\<lparr>v_bmap := Some b\<rparr>))))
           in st_bind (r, v_storage v1) (\<lambda>_ s2. (Ok v1, s2)))))"

section \<open>Reading an inode\<close>

definition read_page :: "nat \<Rightarrow> 'c volume \<Rightarrow> bytes res \<times> 'c volume" where
  "read_page block v = on_storage (\<lambda>s. read_block s block) v"

fun find_in_page :: "bytes \<Rightarrow> 32 word \<Rightarrow> 32 word \<Rightarrow> nat list \<Rightarrow> nat option res" where
  "find_in_page data fs num [] = Ok None"
| "find_in_page data fs num (i # is) =
     res_bind (slice_res (i * DISIZE) (i * DISIZE + DISIZE) data) (\<lambda>d.
       if read_u32 (arr4_of (slice 4 8 d)) = fs \<and> read_u32 (arr4_of (slice 8 12 d)) = num
       then Ok (Some (i * DISIZE)) else find_in_page data fs num is)"

text \<open>The newest version of a block of the inode table: from the cache under any key, else from the device.\<close>

definition table_page :: "'c env \<Rightarrow> nat \<Rightarrow> 'c volume \<Rightarrow> bytes res \<times> 'c volume" where
  "table_page E block v =
     (case cache_peek_block (e_lru E) (v_cache v) block of
        Some page \<Rightarrow> (Ok (cp_data page), v)
      | None \<Rightarrow> read_page block v)"

fun find_in_blocks :: "'c env \<Rightarrow> 32 word \<Rightarrow> 32 word \<Rightarrow> nat list \<Rightarrow> 'c volume \<Rightarrow> (nat \<times> nat) res \<times> 'c volume" where
  "find_in_blocks E fs num [] v = (Err (Other ''inode not found in inode table''), v)"
| "find_in_blocks E fs num (block_offset # bs) v =
     (let block_num = unat (pxd_address (s_ait2 (v_sb v))) + block_offset in
      if v_agg_size v \<le> block_num then find_in_blocks E fs num bs v
      else
        st_bind (table_page E block_num v) (\<lambda>data v1.
        st_bind (find_in_page data fs num [0..<INOSPERPAGE], v1) (\<lambda>r v2.
          case r of Some off \<Rightarrow> (Ok (block_num, off), v2) | None \<Rightarrow> find_in_blocks E fs num bs v2)))"

definition inode_key :: "32 word \<Rightarrow> 32 word \<times> 32 word" where
  "inode_key ino =
     (if FILESYSTEM_I \<le> unat ino then (word_of_nat FILESYSTEM_I, ino - word_of_nat FILESYSTEM_I) else (1, ino))"

definition max_scan :: "'c volume \<Rightarrow> nat" where
  "max_scan v = unat (pxd_length (s_ait2 (v_sb v))) + 32"

definition find_inode_page :: "'c env \<Rightarrow> 32 word \<Rightarrow> 'c volume \<Rightarrow> (nat \<times> nat) res \<times> 'c volume" where
  "find_inode_page E ino v =
     find_in_blocks E (fst (inode_key ino)) (snd (inode_key ino)) [0..<max_scan v] v"

definition parse_dinode :: "bytes \<Rightarrow> dinode res" where
  "parse_dinode data = (case dinode_parse data of Inl e \<Rightarrow> Err (Other e) | Inr d \<Rightarrow> Ok d)"

definition inode_read :: "'c env \<Rightarrow> 32 word \<Rightarrow> 'c volume \<Rightarrow> inode res \<times> 'c volume" where
  "inode_read E ino v =
     st_bind (find_inode_page E ino v) (\<lambda>(block, offset) v1.
     st_bind (case cache_peek (e_lru E) (v_cache v1) ino block of
                Some page \<Rightarrow> (Ok (cp_data page), v1)
              | None \<Rightarrow> read_page block v1) (\<lambda>data v2.
     st_bind (res_bind (slice_res offset (offset + DISIZE) data) parse_dinode, v2) (\<lambda>d v3.
       (Ok \<lparr>i_dinode = d, i_ino = ino, i_page_block = block, i_page_offset = offset\<rparr>, v3))))"

definition inode_size :: "inode \<Rightarrow> nat" where
  "inode_size i = unat (size_val (i_dinode i))"

definition fast_symlink :: "inode \<Rightarrow> bytes option" where
  "fast_symlink i =
     (if \<not> is_symlink (i_dinode i) then None
      else if 192 + 128 \<le> length (di_u (i_dinode i)) then Some (slice 192 (192 + 128) (di_u (i_dinode i))) else None)"

definition root_inode :: "'c env \<Rightarrow> 'c volume \<Rightarrow> inode res \<times> 'c volume" where
  "root_inode E v = inode_read E (v_root_ino v) v"

definition mount_from_storage :: "'c env \<Rightarrow> storage \<Rightarrow> 'c volume res \<times> storage" where
  "mount_from_storage E storage =
     st_bind (open_from_storage E storage) (\<lambda>v s.
       let (r, v1) =
         st_bind (inode_read E (v_root_ino v) v) (\<lambda>root v1.
           if \<not> is_dir (i_dinode root) then (Err (Other ''root inode is not a directory''), v1)
           else
             st_bind (dt_from_inode_data (dtroot_bytes (i_dinode root)), v1) (\<lambda>_ v2. set_fs_state FM_DIRTY v2))
       in st_bind (r, v_storage v1) (\<lambda>_ s'. (Ok v1, s')))"

text \<open>
  \<open>Volume::open\<close> and \<open>Volume::mount\<close> by path: what they leave behind of the files of the machine is the
  file as the storage has it at the end.
\<close>

definition keep_file :: "files \<Rightarrow> string \<Rightarrow> storage \<Rightarrow> files" where
  "keep_file fs path s = (case s of FileStorage fd \<Rightarrow> fs(path \<mapsto> fd_file fd) | _ \<Rightarrow> fs)"

definition with_file :: "file_storage res \<Rightarrow> string \<Rightarrow> (storage \<Rightarrow> 'a res \<times> storage) \<Rightarrow> files \<Rightarrow> 'a res \<times> files" where
  "with_file opened path f fs =
     st_bind (opened, fs) (\<lambda>fd fs. let (r, s) = f (FileStorage fd) in (r, keep_file fs path s))"

definition volume_open :: "'c env \<Rightarrow> platform \<Rightarrow> string \<Rightarrow> files \<Rightarrow> 'c volume res \<times> files" where
  "volume_open E p path fs = with_file (open_readonly p fs path) path (open_from_storage E) fs"

definition volume_mount :: "'c env \<Rightarrow> platform \<Rightarrow> string \<Rightarrow> files \<Rightarrow> 'c volume res \<times> files" where
  "volume_mount E p path fs = with_file (file_open p fs path) path (mount_from_storage E) fs"

definition umount :: "'c env \<Rightarrow> 'c volume \<Rightarrow> unit res \<times> 'c volume" where
  "umount E v =
     st_bind (flush_cache E v) (\<lambda>_ v1.
     st_bind (sync_log v1) (\<lambda>_ v2.
     st_bind (flush_bmap E v2) (\<lambda>_ v3. set_fs_state FM_CLEAN v3)))"

section \<open>Transactions\<close>

definition v_begin :: "'c volume \<Rightarrow> nat res \<times> 'c volume" where
  "v_begin v = (let (r, tm) = tx_begin (v_tx v) in (r, v\<lparr>v_tx := tm\<rparr>))"

definition v_commit :: "'c env \<Rightarrow> 'c volume \<Rightarrow> commit_result res \<times> 'c volume" where
  "v_commit E v =
     (let (r, tm, w) = tx_commit (e_lru E) (v_tx v)
            \<lparr>tw_cache = v_cache v, tw_fs = v_storage v, tw_log = map_option (\<lambda>l. (l, None)) (v_log v)\<rparr>;
          v1 = v\<lparr>v_tx := tm, v_cache := tw_cache w, v_storage := tw_fs w, v_log := map_option fst (tw_log w)\<rparr>
      in st_bind (r, v1) (\<lambda>result v2. st_bind (flush_bmap E v2) (\<lambda>_ v3. (Ok result, v3))))"

definition v_abort :: "'c env \<Rightarrow> 'c volume \<Rightarrow> unit res \<times> 'c volume" where
  "v_abort E v =
     st_bind (on_bmap rollback v) (\<lambda>_ v1.
       let (tm, c) = tx_abort (e_lru E) (v_tx v1) (v_cache v1) in (Ok (), v1\<lparr>v_tx := tm, v_cache := c\<rparr>))"

text \<open>\<open>self.abort_transaction(); return Err(e)\<close>.\<close>

definition fail_with :: "'c env \<Rightarrow> storage_error \<Rightarrow> 'c volume \<Rightarrow> 'a res \<times> 'c volume" where
  "fail_with E e v = st_bind (v_abort E v) (\<lambda>_ v1. (Err e, v1))"

definition mark_page_dirty :: "'c env \<Rightarrow> 32 word \<Rightarrow> nat \<Rightarrow> 'c volume \<Rightarrow> unit res \<times> 'c volume" where
  "mark_page_dirty E ino block v =
     (let (r, tm, c) = tx_mark_dirty (e_lru E) (v_tx v) (v_cache v) ino block in (r, v\<lparr>v_tx := tm, v_cache := c\<rparr>))"

definition v_sync :: "'c env \<Rightarrow> 'c volume \<Rightarrow> unit res \<times> 'c volume" where
  "v_sync E v =
     st_bind (flush_cache E v) (\<lambda>_ v1.
     st_bind (if has_active_transaction (v_tx v1)
              then st_bind (v_commit E v1) (\<lambda>_ v2. (Ok (), v2)) else (Ok (), v1)) (\<lambda>_ v2.
     st_bind (sync_log v2) (\<lambda>_ v3.
     st_bind (flush_bmap E v3) (\<lambda>_ v4. on_storage sync v4))))"

section \<open>Changing an inode\<close>

text \<open>The little-endian accessors on a slice of the page.\<close>

definition get_u32 :: "nat \<Rightarrow> bytes \<Rightarrow> 32 word" where
  "get_u32 p d = read_u32 (arr4_of (slice p (p + 4) d))"

definition put_u16 :: "nat \<Rightarrow> 16 word \<Rightarrow> bytes \<Rightarrow> bytes" where
  "put_u16 p w d = splice p (list_of_arr2 (write_u16 w)) d"

definition put_u32 :: "nat \<Rightarrow> 32 word \<Rightarrow> bytes \<Rightarrow> bytes" where
  "put_u32 p w d = splice p (list_of_arr4 (write_u32 w)) d"

definition put_u64 :: "nat \<Rightarrow> nat \<Rightarrow> bytes \<Rightarrow> bytes" where
  "put_u64 p n d = splice p (list_of_arr8 (write_u64 (word_of_nat n))) d"

definition edit_dinode :: "nat \<Rightarrow> (bytes \<Rightarrow> bytes res) \<Rightarrow> bytes \<Rightarrow> bytes res" where
  "edit_dinode off f data =
     (if off + DISIZE \<le> length data
      then res_bind (f (slice off (off + DISIZE) data)) (\<lambda>d. Ok (splice off d data)) else Ok data)"

definition update_inode_page :: "'c env \<Rightarrow> 32 word \<Rightarrow> nat \<Rightarrow> nat \<Rightarrow> (bytes \<Rightarrow> bytes res) \<Rightarrow> 'c volume
    \<Rightarrow> unit res \<times> 'c volume" where
  "update_inode_page E ino block off f v =
     (let (r, c, s) = get_or_load (e_lru E) (v_cache v) (v_storage v) ino block 0 in
      st_bind (r, v\<lparr>v_cache := c, v_storage := s\<rparr>) (\<lambda>_ v1.
      st_bind (case cache_peek (e_lru E) c ino block of
                 Some p \<Rightarrow> edit_dinode off f (cp_data p) | None \<Rightarrow> Err PageNotFound, v1) (\<lambda>d v2.
        let (r2, c2) = get_mut_for_write (e_lru E) (v_cache v2) ino block (\<lambda>p. p\<lparr>cp_data := d\<rparr>) in
        st_bind (r2, v2\<lparr>v_cache := c2\<rparr>) (\<lambda>_ v3.
          (Ok (), v3\<lparr>v_cache := unpin_page (e_lru E) (v_cache v3) ino block\<rparr>)))))"

definition compute_nblocks :: "xtroot \<Rightarrow> nat \<Rightarrow> nat" where
  "compute_nblocks xtree fallback =
     (let total = sum_list (map e_length (iter_extents xtree)) in if 0 < total then total else fallback)"

text \<open>The loop over the freed extents; the result of \<open>free_extent\<close> is ignored, a panic is not.\<close>

fun free_all :: "(nat \<times> nat) list \<Rightarrow> bmap \<Rightarrow> unit res \<times> bmap" where
  "free_all [] b = (Ok (), b)"
| "free_all ((addr, len) # es) b =
     (case free_extent b (pxd_set_address (pxd_set_length pxd_default (word_of_nat len)) (word_of_nat addr)) of
        (Panic, b') \<Rightarrow> (Panic, b')
      | (Exit, b') \<Rightarrow> (Exit, b')
      | (_, b') \<Rightarrow> free_all es b')"

definition free_blocks :: "'c volume \<Rightarrow> nat" where
  "free_blocks v = (case v_bmap v of Some b \<Rightarrow> nfree b | None \<Rightarrow> 0)"

definition total_allocated_blocks :: "'c volume \<Rightarrow> nat" where
  "total_allocated_blocks v = (case v_bmap v of Some b \<Rightarrow> mapsize b | None \<Rightarrow> 0)"

definition total_inodes :: "'c volume \<Rightarrow> nat res" where
  "total_inodes v =
     (if v_agg_size v * v_block_size v < 2 ^ 64 then Ok (v_agg_size v * v_block_size v div (DISIZE * 4)) else Panic)"

section \<open>Taking a free inode\<close>

fun free_slot :: "bytes \<Rightarrow> nat \<Rightarrow> nat list \<Rightarrow> (32 word \<times> nat) option" where
  "free_slot data block_offset [] = None"
| "free_slot data block_offset (i # is) =
     (let off = i * DISIZE in
      if length data < off + DISIZE then None
      else
        let ino = word_of_nat FILESYSTEM_I + word_of_nat (block_offset * INOSPERPAGE + i) in
        if get_u32 (off + 52) data = 0 \<and> ino \<noteq> word_of_nat (FILESYSTEM_I + ROOT_I) then Some (ino, off)
        else free_slot data block_offset is)"

fun free_in_blocks :: "'c env \<Rightarrow> nat list \<Rightarrow> 'c volume \<Rightarrow> (32 word \<times> nat \<times> nat) res \<times> 'c volume" where
  "free_in_blocks E [] v = (Err NoFreeInode, v)"
| "free_in_blocks E (block_offset # bs) v =
     (let block_num = unat (pxd_address (s_ait2 (v_sb v))) + block_offset in
      if v_agg_size v \<le> block_num then free_in_blocks E bs v
      else
        st_bind (table_page E block_num v) (\<lambda>data v1.
          case free_slot data block_offset [0..<INOSPERPAGE] of
            Some (ino, off) \<Rightarrow> (Ok (ino, block_num, off), v1\<lparr>v_tx := snd (record_allocation (v_tx v1) block_num)\<rparr>)
          | None \<Rightarrow> free_in_blocks E bs v1))"

definition allocate_inode :: "'c env \<Rightarrow> 'c volume \<Rightarrow> (32 word \<times> nat \<times> nat) res \<times> 'c volume" where
  "allocate_inode E v = free_in_blocks E [0..<max_scan v] v"

section \<open>Directory entries\<close>

text \<open>Writing the root of a tree back into the last 288 bytes of the inode.\<close>

definition put_root :: "bytes \<Rightarrow> bytes \<Rightarrow> bytes res" where
  "put_root root d = (if length root \<le> DISIZE \<and> length d = DISIZE then Ok (splice (DISIZE - length root) root d) else Panic)"

definition read_dir :: "'c env \<Rightarrow> 32 word \<Rightarrow> 'c volume \<Rightarrow> (inode \<times> bytes) res \<times> 'c volume" where
  "read_dir E ino v =
     st_bind (inode_read E ino v) (\<lambda>i v1.
     st_bind (dt_from_inode_data (dtroot_bytes (i_dinode i)), v1) (\<lambda>dt v2. (Ok (i, dt), v2)))"

text \<open>\<open>dtree.entries().map(|e| e.len() as u32).unwrap_or(0)\<close> of the directory.\<close>

definition entry_count :: "bytes \<Rightarrow> nat res" where
  "entry_count dt = (case dt_entries dt of Ok es \<Rightarrow> Ok (length es) | Err _ \<Rightarrow> Ok 0 | Panic \<Rightarrow> Panic | Exit \<Rightarrow> Exit)"

definition next_dir_index :: "'c env \<Rightarrow> 32 word \<Rightarrow> 'c volume \<Rightarrow> nat res \<times> 'c volume" where
  "next_dir_index E ino v = st_bind (read_dir E ino v) (\<lambda>(_, dt) v1. (entry_count dt, v1))"

definition insert_dir_entry :: "'c env \<Rightarrow> 32 word \<Rightarrow> ucs2 \<Rightarrow> 32 word \<Rightarrow> nat \<Rightarrow> 'c volume \<Rightarrow> bool res \<times> 'c volume" where
  "insert_dir_entry E parent name child index v =
     st_bind (read_dir E parent v) (\<lambda>(i, dt) v1.
       let (r, dt') = dt_insert dt name child (word_of_nat index) in
       st_bind (r, v1) (\<lambda>inserted v2.
         if inserted
         then st_bind (update_inode_page E parent (i_page_block i) (i_page_offset i) (put_root dt') v2)
                (\<lambda>_ v3. (Ok True, v3))
         else (Ok False, v2)))"

definition remove_dir_entry :: "'c env \<Rightarrow> 32 word \<Rightarrow> ucs2 \<Rightarrow> 'c volume \<Rightarrow> 32 word option res \<times> 'c volume" where
  "remove_dir_entry E parent name v =
     st_bind (read_dir E parent v) (\<lambda>(i, dt) v1.
       let (r, dt') = dt_remove dt name in
       st_bind (r, v1) (\<lambda>removed v2.
         if removed \<noteq> None
         then st_bind (update_inode_page E parent (i_page_block i) (i_page_offset i) (put_root dt') v2)
                (\<lambda>_ v3. (Ok removed, v3))
         else (Ok None, v2)))"

text \<open>\<open>let i = Inode::read(..)?; self.mark_page_dirty(ino, i.page_block)?\<close>.\<close>

definition mark_inode_dirty :: "'c env \<Rightarrow> 32 word \<Rightarrow> 'c volume \<Rightarrow> unit res \<times> 'c volume" where
  "mark_inode_dirty E ino v =
     st_bind (inode_read E ino v) (\<lambda>i v1. mark_page_dirty E ino (i_page_block i) v1)"

end
