(* ===== verification/Inode_Edit.thy ===== *)
theory Inode_Edit
  imports Volume Log_Frame
begin

text \<open>
  What the helpers of \<open>volume.rs\<close> do together: on a volume with no transaction open, an inode that is read,
  changed in its cached page and committed is read back with the change, and every other inode
  as it was. The client operations (attributes, extended attributes) take their correctness from the
  lemmas of the locale \<open>library\<close>, which has the laws of the LRU cache and of the hash set.
\<close>

section \<open>Volumes at rest\<close>

locale library = lru_cache "e_lru E" valid for E :: "'c env" and valid :: "'c \<Rightarrow> bool" +
  assumes order_law: "finite S \<Longrightarrow> distinct (e_order E S) \<and> set (e_order E S) = S"
    and new_law: "valid (lru_new (e_lru E) 256) \<and> lru_iter (e_lru E) (lru_new (e_lru E) 256) = [] \<and>
      lru_cap (e_lru E) (lru_new (e_lru E) 256) = 256"

definition list_env :: "lru_list env" where
  "list_env = \<lparr>e_lru = list_lru, e_order = sorted_list_of_set\<rparr>"

interpretation lenv: library list_env ll_valid
proof -
  have "lru_cache (e_lru list_env) ll_valid" using ll.lru_cache_axioms by (simp add: list_env_def)
  then show "library list_env ll_valid"
    by (simp add: library_def library_axioms_def list_env_def) (simp add: list_lru_def ll_valid_def)
qed

text \<open>
  No operation changes the capacity of a cache, so the caches that are valid and have room for two pages obey the
  same laws.
\<close>

definition roomy :: "'c env \<Rightarrow> ('c \<Rightarrow> bool) \<Rightarrow> 'c \<Rightarrow> bool" where
  "roomy E valid c \<longleftrightarrow> valid c \<and> 2 \<le> lru_cap (e_lru E) c"

context library
begin

lemma roomy_library: "library E (roomy E valid)"
  unfolding roomy_def
  by (unfold_locales, use view_law in blast, use get_law in metis, use get_mut_law in metis, use put_law in metis,
      use pop_law in metis, use peek_lru_law in blast, use clear_law in metis, use order_law in blast, use new_law in simp)

end

text \<open>Nothing is cached, and the device works.\<close>

definition quiet :: "'c env \<Rightarrow> ('c \<Rightarrow> bool) \<Rightarrow> 'c volume \<Rightarrow> bool" where
  "quiet E valid v \<longleftrightarrow> st_ok (v_storage v) \<and> valid (cache (v_cache v)) \<and> lru_iter (e_lru E) (cache (v_cache v)) = []"

definition table_blocks :: "'c volume \<Rightarrow> nat set" where
  "table_blocks v = {b. unat (pxd_address (s_ait2 (v_sb v))) \<le> b \<and>
     b < unat (pxd_address (s_ait2 (v_sb v))) + max_scan v \<and> b < v_agg_size v}"

definition map_block :: "'c volume \<Rightarrow> nat set" where
  "map_block v = {b. \<exists>m. v_bmap v = Some m \<and> b = dmap_start m}"

text \<open>
  A volume between two operations: no transaction, nothing to write back, and room for \<open>k\<close> more buffers of
  log. Neither the log nor the descriptor of the allocation map, which every commit rewrites, is in the part of
  the device that the inode lookup searches.
\<close>

definition idle :: "'c env \<Rightarrow> ('c \<Rightarrow> bool) \<Rightarrow> nat \<Rightarrow> 'c volume \<Rightarrow> bool" where
  "idle E valid k v \<longleftrightarrow> quiet E valid v \<and> active (v_tx v) = None \<and> log_fits k (v_log v) (v_storage v) \<and>
     v_agg_size v \<le> size_blocks (v_storage v) \<and> table_blocks v \<inter> (log_range k (v_log v) \<union> map_block v) = {} \<and>
     (\<forall>b. v_bmap v = Some b \<longrightarrow> dirty_pages b = {} \<and> dmap_start b < size_blocks (v_storage v))"

text \<open>
  The volume \<open>v'\<close> after the commit of a transaction that writes the blocks of \<open>W\<close>, with \<open>n\<close> log buffers before and
  \<open>k\<close> after.
\<close>

definition commits_to :: "'c env \<Rightarrow> ('c \<Rightarrow> bool) \<Rightarrow> nat \<Rightarrow> nat \<Rightarrow> (nat \<rightharpoonup> bytes) \<Rightarrow> 'c volume \<Rightarrow> 'c volume \<Rightarrow> bool" where
  "commits_to E valid n k W v v' \<longleftrightarrow>
     (\<exists>t c s l. v' = v\<lparr>v_tx := (v_tx v)\<lparr>active := None, last_committed := t\<rparr>, v_cache := c, v_storage := s, v_log := l,
        v_bmap := map_option (\<lambda>b. b\<lparr>dirty_pages := {}, allocated := [], freed := []\<rparr>) (v_bmap v)\<rparr>) \<and>
     quiet E valid v' \<and> size_blocks (v_storage v') = size_blocks (v_storage v) \<and>
     log_fits k (v_log v') (v_storage v') \<and> log_range k (v_log v') \<subseteq> log_range n (v_log v) \<and>
     (\<forall>b d. W b = Some d \<and> b \<notin> map_block v \<longrightarrow> peek_block (v_storage v') b = Ok d) \<and>
     (\<forall>b. b \<notin> dom W \<union> log_range n (v_log v) \<union> map_block v \<longrightarrow> peek_block (v_storage v') b = peek_block (v_storage v) b)"

lemma commits_toD:
  assumes "commits_to E valid n k W v v'"
  shows "quiet E valid v'" "v_sb v' = v_sb v" "v_agg_size v' = v_agg_size v" "v_root_ino v' = v_root_ino v"
    "active (v_tx v') = None" "size_blocks (v_storage v') = size_blocks (v_storage v)" "table_blocks v' = table_blocks v"
    "map_block v' = map_block v" "log_range k (v_log v') \<subseteq> log_range n (v_log v)" "log_fits k (v_log v') (v_storage v')"
    "W b = Some d \<Longrightarrow> b \<notin> map_block v \<Longrightarrow> peek_block (v_storage v') b = Ok d"
    "W b = None \<Longrightarrow> b \<notin> log_range n (v_log v) \<Longrightarrow> b \<notin> map_block v \<Longrightarrow> peek_block (v_storage v') b = peek_block (v_storage v) b"
  using assms by (auto simp: commits_to_def table_blocks_def max_scan_def map_block_def dom_def)

text \<open>The transaction may have begun and the storage may have changed since the volume was idle.\<close>

lemma commits_idle:
  assumes "idle E valid n v" "v_sb v1 = v_sb v" "v_agg_size v1 = v_agg_size v" "v_log v1 = v_log v" "v_bmap v1 = v_bmap v"
    "size_blocks (v_storage v1) = size_blocks (v_storage v)" "commits_to E valid n k W v1 v'"
  shows "idle E valid k v'"
proof -
  note d = commits_toD [OF assms(7)]
  have t: "table_blocks v1 = table_blocks v" "map_block v1 = map_block v"
    using assms(2-5) by (simp_all add: table_blocks_def max_scan_def map_block_def)
  have "\<And>b. v_bmap v' = Some b \<Longrightarrow> dirty_pages b = {} \<and> dmap_start b < size_blocks (v_storage v')"
    using assms(1,5,6) assms(7) by (auto simp: idle_def commits_to_def)
  moreover have "table_blocks v' \<inter> (log_range k (v_log v') \<union> map_block v') = {}"
    using assms(1,4) d(7,8,9) t by (auto simp: idle_def)
  ultimately show ?thesis using assms(1,3,6) d by (simp add: idle_def)
qed

lemma log_fits_cong: "log_fits k l s \<Longrightarrow> st_ok t \<Longrightarrow> size_blocks t = size_blocks s \<Longrightarrow> log_fits k l t"
  by (simp add: log_fits_def log_ready_def)

section \<open>The search as a function of the blocks\<close>

fun scan_table :: "(nat \<Rightarrow> bytes res) \<Rightarrow> nat \<Rightarrow> nat \<Rightarrow> 32 word \<Rightarrow> 32 word \<Rightarrow> nat list \<Rightarrow> (nat \<times> nat) res" where
  "scan_table rd start agg fs num [] = Err (Other ''inode not found in inode table'')"
| "scan_table rd start agg fs num (k # ks) =
     (if agg \<le> start + k then scan_table rd start agg fs num ks
      else
        res_bind (rd (start + k)) (\<lambda>data.
        res_bind (find_in_page data fs num [0..<INOSPERPAGE]) (\<lambda>r.
          case r of Some off \<Rightarrow> Ok (start + k, off) | None \<Rightarrow> scan_table rd start agg fs num ks)))"

definition scan_volume :: "(nat \<Rightarrow> bytes res) \<Rightarrow> 'c volume \<Rightarrow> 32 word \<Rightarrow> (nat \<times> nat) res" where
  "scan_volume rd v ino = scan_table rd (unat (pxd_address (s_ait2 (v_sb v)))) (v_agg_size v)
     (fst (inode_key ino)) (snd (inode_key ino)) [0..<max_scan v]"

definition slot_keys :: "bytes \<Rightarrow> nat list \<Rightarrow> bytes list" where
  "slot_keys data is = map (\<lambda>i. slice (i * DISIZE + 4) (i * DISIZE + 12) data) is"

lemma find_in_page_cong:
  assumes "length data' = length data" "slot_keys data' is = slot_keys data is"
  shows "find_in_page data' fs num is = find_in_page data fs num is"
  using assms(2)
proof (induction "is")
  case (Cons i "is")
  have k: "slice (i * DISIZE + 4) (i * DISIZE + 12) data' = slice (i * DISIZE + 4) (i * DISIZE + 12) data"
    and ks: "slot_keys data' is = slot_keys data is"
    using Cons.prems by (simp_all add: slot_keys_def)
  show ?case
  proof (cases "i * DISIZE + DISIZE \<le> length data")
    case True
    have s: "slice a b (slice (i * DISIZE) (i * DISIZE + DISIZE) d) = slice (a - 4) (b - 4) (slice (i * DISIZE + 4) (i * DISIZE + 12) d)"
      if "4 \<le> a" "a \<le> b" "b \<le> 12" for a b and d :: bytes
      using that by (simp add: slice_slice DISIZE_def)
    show ?thesis using True assms(1) Cons.IH [OF ks] s [of 4 8] s [of 8 12] by (simp add: k)
  next
    case False
    then show ?thesis using assms(1) by (simp add: slice_res_def)
  qed
qed simp

lemma find_in_page_slot:
  "find_in_page data fs num is = Ok (Some off) \<Longrightarrow> \<exists>i\<in>set is. off = i * DISIZE \<and> off + DISIZE \<le> length data"
proof (induction "is")
  case (Cons i "is")
  show ?case
  proof (cases "i * DISIZE + DISIZE \<le> length data")
    case True
    with Cons show ?thesis by (auto split: if_splits)
  next
    case False
    with Cons.prems show ?thesis by (simp add: slice_res_def)
  qed
qed simp

lemma scan_table_cong:
  assumes "\<And>k. k \<in> set ks \<Longrightarrow> start + k < agg \<Longrightarrow>
    (\<exists>d d'. rd (start + k) = Ok d \<and> rd' (start + k) = Ok d' \<and> length d' = length d \<and>
       slot_keys d' [0..<INOSPERPAGE] = slot_keys d [0..<INOSPERPAGE])"
  shows "scan_table rd' start agg fs num ks = scan_table rd start agg fs num ks"
  using assms
proof (induction ks)
  case (Cons k ks)
  have IH: "scan_table rd' start agg fs num ks = scan_table rd start agg fs num ks"
    using Cons.prems by (intro Cons.IH) simp
  show ?case
  proof (cases "agg \<le> start + k")
    case False
    with Cons.prems [of k] obtain d d' where "rd (start + k) = Ok d" "rd' (start + k) = Ok d'"
      "find_in_page d' fs num [0..<INOSPERPAGE] = find_in_page d fs num [0..<INOSPERPAGE]"
      using find_in_page_cong by (metis list.set_intros(1) not_le)
    with IH show ?thesis by simp
  qed (use IH in simp)
qed simp

lemma scan_table_slot:
  assumes "scan_table rd start agg fs num ks = Ok (b, off)"
  shows "\<exists>k\<in>set ks. b = start + k \<and> b < agg \<and>
    (\<exists>d i. rd b = Ok d \<and> off = i * DISIZE \<and> i < INOSPERPAGE \<and> off + DISIZE \<le> length d)"
  using assms
proof (induction ks)
  case (Cons k ks)
  show ?case
  proof (cases "agg \<le> start + k")
    case False
    show ?thesis
    proof (cases "rd (start + k)")
      case (Ok d)
      show ?thesis
      proof (cases "find_in_page d fs num [0..<INOSPERPAGE]")
        case r: (Ok r)
        show ?thesis
        proof (cases r)
          case None
          with Cons False Ok r show ?thesis by auto
        next
          case (Some off')
          with r find_in_page_slot [of d fs num "[0..<INOSPERPAGE]" off'] obtain i where
            "i < INOSPERPAGE" "off' = i * DISIZE" "off' + DISIZE \<le> length d" by auto
          with Cons.prems False Ok r Some show ?thesis by auto
        qed
      qed (use Cons.prems False Ok in auto)
    qed (use Cons.prems False in auto)
  qed (use Cons in auto)
qed simp

text \<open>An edit of one slot that keeps the fileset and the number keeps all keys of the page.\<close>

lemma slot_keys_splice:
  assumes "off = j * DISIZE" "off + DISIZE \<le> length data" "length d' = DISIZE"
    "slice 4 12 d' = slice 4 12 (slice off (off + DISIZE) data)"
  shows "slot_keys (splice off d' data) is = slot_keys data is"
  unfolding slot_keys_def
proof (rule map_cong [OF refl])
  fix i
  show "slice (i * DISIZE + 4) (i * DISIZE + 12) (splice off d' data) = slice (i * DISIZE + 4) (i * DISIZE + 12) data"
  proof (cases "i = j")
    case True
    have "slice off (off + DISIZE) (splice off d' data) = d'" using assms(2,3) by (simp add: slice_simps)
    then have "slice 4 12 (slice off (off + DISIZE) (splice off d' data)) = slice 4 12 (slice off (off + DISIZE) data)"
      using assms(4) by simp
    then show ?thesis by (simp add: slice_slice DISIZE_def True assms(1))
  next
    case False
    then consider "i < j" | "j < i" by linarith
    then show ?thesis
    proof cases
      case 1
      then have "Suc i * DISIZE \<le> j * DISIZE" by (intro mult_le_mono1) simp
      then show ?thesis using assms(1-3) by (intro slice_splice_other) (simp_all add: DISIZE_def)
    next
      case 2
      then have "Suc j * DISIZE \<le> i * DISIZE" by (intro mult_le_mono1) simp
      then show ?thesis using assms(1-3) by (intro slice_splice_other) (simp_all add: DISIZE_def)
    qed
  qed
qed

lemma slot_other:
  assumes "off = j * DISIZE" "off' = i * DISIZE" "off \<noteq> off'" "off + DISIZE \<le> length data" "length d' = DISIZE"
  shows "slice off' (off' + DISIZE) (splice off d' data) = slice off' (off' + DISIZE) data"
proof -
  have "i < j \<or> j < i" using assms(1-3) by auto
  then have "Suc i * DISIZE \<le> j * DISIZE \<or> Suc j * DISIZE \<le> i * DISIZE" using mult_le_mono1 [of "Suc i" j DISIZE] mult_le_mono1 [of "Suc j" i DISIZE] by linarith
  then show ?thesis using assms by (intro slice_splice_other) auto
qed

section \<open>Reading and editing\<close>

lemma read_page_ok: "st_ok (v_storage v) \<Longrightarrow> read_page b v = (peek_block (v_storage v) b, v)"
  by (simp add: read_page_def on_storage_def)

context library
begin

lemma quiet_peek: "quiet E valid v \<Longrightarrow> lru_peek (e_lru E) (cache (v_cache v)) = Map.empty"
  using view_law [of "cache (v_cache v)"] by (simp add: quiet_def)

lemma empty_iter: "valid c \<Longrightarrow> lru_peek (e_lru E) c = Map.empty \<Longrightarrow> lru_iter (e_lru E) c = []"
  using view_law [of c] by simp

lemma find_in_blocks_quiet:
  assumes "quiet E valid v"
  shows "find_in_blocks E fs num ks v =
    (scan_table (peek_block (v_storage v)) (unat (pxd_address (s_ait2 (v_sb v)))) (v_agg_size v) fs num ks, v)"
proof (induction ks)
  case (Cons k ks)
  let ?b = "unat (pxd_address (s_ait2 (v_sb v))) + k"
  have t: "table_page E ?b v = (peek_block (v_storage v) ?b, v)"
    using assms by (simp add: read_page_ok table_page_def cache_peek_block_def quiet_def)
  show ?case
  proof (cases "v_agg_size v \<le> ?b")
    case False
    show ?thesis
    proof (cases "peek_block (v_storage v) ?b")
      case (Ok d)
      then show ?thesis using False t Cons.IH
        by (cases "find_in_page d fs num [0..<INOSPERPAGE]") (auto split: option.splits)
    qed (use False t in simp_all)
  qed (use Cons.IH in simp)
qed simp

lemma inode_read_quiet:
  assumes "quiet E valid v"
  shows "inode_read E ino v =
    (res_bind (scan_volume (peek_block (v_storage v)) v ino) (\<lambda>(block, offset).
     res_bind (peek_block (v_storage v) block) (\<lambda>data.
     res_bind (slice_res offset (offset + DISIZE) data) (\<lambda>s.
     res_bind (parse_dinode s) (\<lambda>d.
       Ok \<lparr>i_dinode = d, i_ino = ino, i_page_block = block, i_page_offset = offset\<rparr>)))), v)"
proof -
  have p: "cache_peek (e_lru E) (v_cache v) ino b = None" for b
    using quiet_peek [OF assms] by (simp add: cache_peek_def)
  have f: "find_inode_page E ino v = (scan_volume (peek_block (v_storage v)) v ino, v)"
    using find_in_blocks_quiet [OF assms] by (simp add: find_inode_page_def scan_volume_def)
  show ?thesis
  proof (cases "scan_volume (peek_block (v_storage v)) v ino")
    case (Ok x)
    obtain b off where x: "x = (b, off)" by (cases x)
    have r: "read_page b v = (peek_block (v_storage v) b, v)" using assms by (simp add: read_page_ok quiet_def)
    show ?thesis
    proof (cases "peek_block (v_storage v) b")
      case d: (Ok d)
      show ?thesis
      proof (cases "slice_res off (off + DISIZE) d")
        case s: (Ok s)
        show ?thesis using f p Ok x r d s by (cases "parse_dinode s") (simp_all add: inode_read_def)
      qed (use f p Ok x r d in \<open>simp_all add: inode_read_def\<close>)
    qed (use f p Ok x r in \<open>simp_all add: inode_read_def\<close>)
  qed (use f in \<open>simp_all add: inode_read_def\<close>)
qed

text \<open>The page of an inode after the edit: alone in the cache.\<close>

lemma update_inode_page_quiet:
  assumes "quiet E valid v" "peek_block (v_storage v) b = Ok data" "off + DISIZE \<le> length data"
    "f (slice off (off + DISIZE) data) = Ok d'"
  shows "\<exists>c p. update_inode_page E ino b off f v = (Ok (), v\<lparr>v_cache := c\<rparr>) \<and> valid (cache c) \<and>
    lru_peek (e_lru E) (cache c) = [(ino, b) \<mapsto> p] \<and> cp_data p = splice off d' data"
proof -
  let ?L = "e_lru E" and ?c = "cache (v_cache v)"
  have ok: "st_ok (v_storage v)" and va: "valid ?c" and emp: "lru_peek ?L ?c = Map.empty"
    using assms(1) quiet_peek by (auto simp: quiet_def)
  obtain r l where g: "lru_get ?L ?c (ino, b) = (r, l)" by fastforce
  from get_law [OF va, of "(ino, b)"] g emp have r: "r = None" "valid l" "lru_peek ?L l = Map.empty"
    "lru_cap ?L l = lru_cap ?L ?c" by auto
  have l: "lru_iter ?L l = []" using empty_iter r by blast
  define page where "page = \<lparr>cp_block = b, cp_data = data, cp_dirty = False, cp_inode = Some ino, cp_index = 0,
    pin_count = 0, cp_txid = 0\<rparr>"
  define l1 where "l1 = lru_put ?L l (ino, b) page"
  have gl: "get_or_load ?L (v_cache v) (v_storage v) ino b 0 = (Ok page, (v_cache v)\<lparr>cache := l1\<rparr>, v_storage v)"
    using g r(1) l assms(2) ok by (simp add: get_or_load_def page_def l1_def Let_def)
  have l1: "valid l1" "lru_peek ?L l1 = [(ino, b) \<mapsto> page]"
    using put_law [OF r(2), of "(ino, b)" page] view_law [OF r(2)] l r(3) by (auto simp: l1_def)
  define l2 where "l2 = lru_get_mut ?L l1 (ino, b) (\<lambda>p. (cp_pin p)\<lparr>cp_data := splice off d' data\<rparr>)"
  have l2: "valid l2" "lru_peek ?L l2 = [(ino, b) \<mapsto> (cp_pin page)\<lparr>cp_data := splice off d' data\<rparr>]"
    using get_mut_law [OF l1(1), of "(ino, b)" "\<lambda>p. (cp_pin p)\<lparr>cp_data := splice off d' data\<rparr>"] l1(2)
    by (auto simp: l2_def)
  define l3 where "l3 = lru_get_mut ?L l2 (ino, b) cp_unpin"
  have l3: "valid l3" "lru_peek ?L l3 = [(ino, b) \<mapsto> cp_unpin ((cp_pin page)\<lparr>cp_data := splice off d' data\<rparr>)]"
    using get_mut_law [OF l2(1), of "(ino, b)" cp_unpin] l2(2) by (auto simp: l3_def)
  have "update_inode_page E ino b off f v = (Ok (), v\<lparr>v_cache := (v_cache v)\<lparr>cache := l3\<rparr>\<rparr>)"
    using l1 assms(3,4)
    by (simp add: update_inode_page_def gl cache_peek_def edit_dinode_def page_def get_mut_for_write_def unpin_page_def
        l3_def l2_def)
  with l3 show ?thesis by (intro exI [of _ "(v_cache v)\<lparr>cache := l3\<rparr>"]) (auto simp: cp_unpin_def cp_pin_def)
qed

lemma mark_page_dirty_one:
  assumes "valid (cache (v_cache v))" "lru_peek (e_lru E) (cache (v_cache v)) = [(ino, b) \<mapsto> p]"
    "active (v_tx v) = Some a" "at_dirty_pages a = []"
  shows "\<exists>c q. mark_page_dirty E ino b v =
      (Ok (), v\<lparr>v_tx := (v_tx v)\<lparr>active := Some (a\<lparr>at_dirty_pages := [(ino, b)]\<rparr>)\<rparr>, v_cache := c\<rparr>) \<and>
    valid (cache c) \<and> lru_peek (e_lru E) (cache c) = [(ino, b) \<mapsto> q] \<and> cp_data q = cp_data p"
proof -
  define c where "c = (v_cache v)\<lparr>cache := lru_get_mut (e_lru E) (cache (v_cache v)) (ino, b) (cp_mark_dirty_txn (at_txid a))\<rparr>"
  have "mark_page_dirty E ino b v =
      (Ok (), v\<lparr>v_tx := (v_tx v)\<lparr>active := Some (a\<lparr>at_dirty_pages := [(ino, b)]\<rparr>)\<rparr>, v_cache := c\<rparr>)"
    using assms(3,4) by (simp add: mark_page_dirty_def tx_mark_dirty_def cache_mark_dirty_txn_def c_def)
  moreover have "valid (cache c)" "lru_peek (e_lru E) (cache c) = [(ino, b) \<mapsto> cp_mark_dirty_txn (at_txid a) p]"
    using get_mut_law [OF assms(1), of "(ino, b)" "cp_mark_dirty_txn (at_txid a)"] assms(2) by (auto simp: c_def)
  moreover have "cp_data (cp_mark_dirty_txn (at_txid a) p) = cp_data p" by (simp add: cp_mark_dirty_txn_def)
  ultimately show ?thesis by blast
qed

text \<open>The descriptor of the allocation map is rewritten by every commit; nothing else is when no page is dirty.\<close>

lemma flush_bmap_clean:
  assumes "st_ok (v_storage v)" "\<And>b. v_bmap v = Some b \<Longrightarrow> dirty_pages b = {} \<and> dmap_start b < size_blocks (v_storage v)"
  shows "\<exists>s'. flush_bmap E v = (Ok (), v\<lparr>v_storage := s',
        v_bmap := map_option (\<lambda>b. b\<lparr>dirty_pages := {}, allocated := [], freed := []\<rparr>) (v_bmap v)\<rparr>) \<and>
    st_ok s' \<and> size_blocks s' = size_blocks (v_storage v) \<and>
    (\<forall>c. (\<forall>b. v_bmap v = Some b \<longrightarrow> c \<noteq> dmap_start b) \<longrightarrow> peek_block s' c = peek_block (v_storage v) c)"
proof (cases "v_bmap v")
  case None
  then have "flush_bmap E v = (Ok (), v\<lparr>v_storage := v_storage v,
        v_bmap := map_option (\<lambda>b. b\<lparr>dirty_pages := {}, allocated := [], freed := []\<rparr>) (v_bmap v)\<rparr>)"
    by (simp add: flush_bmap_def)
  with assms(1) show ?thesis by blast
next
  case (Some b)
  have o: "e_order E (dirty_pages b) = []" using order_law [of "{}"] assms(2) [OF Some] by simp
  from dev.read_total [OF assms(1)] assms(2) [OF Some] obtain d where
    d: "peek_block (v_storage v) (dmap_start b) = Ok d" "length d = BLOCK_SIZE" by blast
  define d' where "d' = splice 8 (list_of_arr8 (write_u64 (word_of_nat (nfree b)))) d"
  have d': "length d' = BLOCK_SIZE" using d(2) by (simp add: d'_def block_size_defs)
  from dev.write_total [OF assms(1) _ d'] assms(2) [OF Some] obtain s' where
    s': "write_block (v_storage v) (dmap_start b) d' = (Ok (), s')" "st_ok s'" "size_blocks s' = size_blocks (v_storage v)"
    by blast
  have "flush_bmap E v = (Ok (), v\<lparr>v_storage := s',
        v_bmap := map_option (\<lambda>b. b\<lparr>dirty_pages := {}, allocated := [], freed := []\<rparr>) (v_bmap v)\<rparr>)"
    using Some o d s'(1) assms(1) by (simp add: flush_bmap_def bmap_commit_def d'_def block_size_defs)
  moreover have "peek_block s' c = peek_block (v_storage v) c" if "c \<noteq> dmap_start b" for c
    using dev.read_other [OF assms(1) _ d' s'(1) that] assms(2) [OF Some] by blast
  ultimately show ?thesis using s' Some by blast
qed

text \<open>A commit when every cached page belongs to the transaction.\<close>

lemma v_commit_pages:
  assumes "st_ok (v_storage v)" "valid (cache (v_cache v))" "active (v_tx v) = Some a"
    "log_fits (length (at_dirty_pages a) + 1 + k) (v_log v) (v_storage v)"
    "\<And>q. q \<in> set (in_cache (e_lru E) (v_cache v) (at_dirty_pages a)) \<Longrightarrow>
       snd q < size_blocks (v_storage v) \<and> length (page_data (e_lru E) (v_cache v) q) = BLOCK_SIZE"
    "\<And>j b. cache_peek (e_lru E) (v_cache v) j b \<noteq> None \<Longrightarrow> (j, b) \<in> set (at_dirty_pages a)"
    "\<And>m. v_bmap v = Some m \<Longrightarrow> dirty_pages m = {} \<and> dmap_start m < size_blocks (v_storage v)"
  shows "\<exists>r v'. v_commit E v = (Ok r, v') \<and> commits_to E valid (length (at_dirty_pages a) + 1 + k) k
    (map_of (rev (images (e_lru E) (v_cache v) (in_cache (e_lru E) (v_cache v) (at_dirty_pages a))))) v v'"
proof -
  let ?L = "e_lru E" and ?n = "length (at_dirty_pages a) + 1 + k"
  let ?qs = "in_cache ?L (v_cache v) (at_dirty_pages a)"
  let ?w = "\<lparr>tw_cache = v_cache v, tw_fs = v_storage v, tw_log = map_option (\<lambda>l. (l, None)) (v_log v)\<rparr>"
  let ?I = "images ?L (v_cache v) ?qs"
  from tx_commit_shared [OF lru_cache_axioms, of ?w "v_tx v" a "v_log v" k] assms(1-5) obtain n w' l where
    t: "tx_commit ?L (v_tx v) ?w = (Ok \<lparr>pages_written = n, cr_txid = at_txid a\<rparr>,
        (v_tx v)\<lparr>active := None, last_committed := at_txid a\<rparr>, w')"
    and w': "tw_log w' = map_option (\<lambda>m. (m, None)) l" "log_fits k l (tw_fs w')" "log_range k l \<subseteq> log_range ?n (v_log v)" "st_ok (tw_fs w')"
    "size_blocks (tw_fs w') = size_blocks (v_storage v)" "valid (cache (tw_cache w'))"
    "\<And>j b. cache_peek ?L (tw_cache w') j b = (if (j, b) \<in> set (at_dirty_pages a) then None else cache_peek ?L (v_cache v) j b)"
    and on: "\<And>b d. map_of (rev ?I) b = Some d \<Longrightarrow> peek_block (tw_fs w') b = Ok d"
    and off: "\<And>b. map_of (rev ?I) b = None \<Longrightarrow> b \<notin> log_range ?n (v_log v) \<Longrightarrow> peek_block (tw_fs w') b = peek_block (v_storage v) b"
    by auto
  have "cache_peek ?L (tw_cache w') j b = None" for j b using w'(7) [of j b] assms(6) [of j b] by (cases "(j, b) \<in> set (at_dirty_pages a)") (simp, metis)
  then have "lru_peek ?L (cache (tw_cache w')) = Map.empty" by (auto simp: cache_peek_def fun_eq_iff)
  with w'(6) have it: "lru_iter ?L (cache (tw_cache w')) = []" by (rule empty_iter)
  define v1 where "v1 = v\<lparr>v_tx := (v_tx v)\<lparr>active := None, last_committed := at_txid a\<rparr>, v_cache := tw_cache w', v_storage := tw_fs w', v_log := l\<rparr>"
  have "\<And>m. v_bmap v1 = Some m \<Longrightarrow> dirty_pages m = {} \<and> dmap_start m < size_blocks (v_storage v1)"
    using assms(7) w'(5) by (simp add: v1_def)
  from flush_bmap_clean [of v1, OF _ this] w'(4) obtain s where
    f: "flush_bmap E v1 = (Ok (), v1\<lparr>v_storage := s,
        v_bmap := map_option (\<lambda>b. b\<lparr>dirty_pages := {}, allocated := [], freed := []\<rparr>) (v_bmap v1)\<rparr>)"
    and s: "st_ok s" "size_blocks s = size_blocks (tw_fs w')"
    "\<And>b. b \<notin> map_block v \<Longrightarrow> peek_block s b = peek_block (tw_fs w') b"
    by (auto simp: v1_def map_block_def)
  let ?v = "v1\<lparr>v_storage := s, v_bmap := map_option (\<lambda>b. b\<lparr>dirty_pages := {}, allocated := [], freed := []\<rparr>) (v_bmap v1)\<rparr>"
  have l: "map_option fst (tw_log w') = l" using w'(1) by (cases l) simp_all
  have "v_commit E v = (Ok \<lparr>pages_written = n, cr_txid = at_txid a\<rparr>, ?v)"
    using t f l by (simp add: v_commit_def) (simp add: v1_def)
  moreover have "commits_to E valid ?n k (map_of (rev ?I)) v ?v"
    unfolding commits_to_def
  proof (intro conjI allI impI)
    show "\<exists>t c s l. ?v = v\<lparr>v_tx := (v_tx v)\<lparr>active := None, last_committed := t\<rparr>, v_cache := c, v_storage := s, v_log := l,
        v_bmap := map_option (\<lambda>b. b\<lparr>dirty_pages := {}, allocated := [], freed := []\<rparr>) (v_bmap v)\<rparr>"
      by (intro exI [of _ "at_txid a"] exI [of _ "tw_cache w'"] exI [of _ s] exI [of _ l]) (simp add: v1_def)
    show "quiet E valid ?v" using s(1) w'(6) it by (simp add: quiet_def v1_def)
    show "size_blocks (v_storage ?v) = size_blocks (v_storage v)" using s(2) w'(5) by simp
    show "log_fits k (v_log ?v) (v_storage ?v)" using log_fits_cong [OF w'(2) s(1,2)] by (simp add: v1_def)
    show "log_range k (v_log ?v) \<subseteq> log_range ?n (v_log v)" using w'(3) by (simp add: v1_def)
  qed (use on off s(3) in auto)
  ultimately show ?thesis by blast
qed

text \<open>The tail of the operations that change one inode.\<close>

lemma edit_commit:
  assumes "quiet E valid v" "active (v_tx v) = Some a" "at_dirty_pages a = []" "log_fits (k + 2) (v_log v) (v_storage v)"
    "b < size_blocks (v_storage v)" "peek_block (v_storage v) b = Ok data" "off + DISIZE \<le> length data"
    "f (slice off (off + DISIZE) data) = Ok d'" "length d' = DISIZE"
    "\<And>m. v_bmap v = Some m \<Longrightarrow> dirty_pages m = {} \<and> dmap_start m < size_blocks (v_storage v)"
  shows "\<exists>r v'. st_bind (update_inode_page E ino b off f v) (\<lambda>_ v. st_bind (mark_page_dirty E ino b v) (\<lambda>_ v. v_commit E v)) = (Ok r, v') \<and>
    commits_to E valid (k + 2) k [b \<mapsto> splice off d' data] v v'"
proof -
  have ok: "st_ok (v_storage v)" using assms(1) by (simp add: quiet_def)
  from dev.read_total [OF ok assms(5)] assms(6) have len: "length data = BLOCK_SIZE" by auto
  from update_inode_page_quiet [of v b data off f d' ino] assms(1,6,7,8) obtain c1 p where
    u: "update_inode_page E ino b off f v = (Ok (), v\<lparr>v_cache := c1\<rparr>)" "valid (cache c1)"
    "lru_peek (e_lru E) (cache c1) = [(ino, b) \<mapsto> p]" "cp_data p = splice off d' data" by blast
  from mark_page_dirty_one [of "v\<lparr>v_cache := c1\<rparr>" ino b p a] u assms(2,3) obtain c2 q where
    m: "mark_page_dirty E ino b (v\<lparr>v_cache := c1\<rparr>) =
      (Ok (), v\<lparr>v_tx := (v_tx v)\<lparr>active := Some (a\<lparr>at_dirty_pages := [(ino, b)]\<rparr>)\<rparr>, v_cache := c2\<rparr>)"
    "valid (cache c2)" "lru_peek (e_lru E) (cache c2) = [(ino, b) \<mapsto> q]" "cp_data q = cp_data p" by auto
  let ?v = "v\<lparr>v_tx := (v_tx v)\<lparr>active := Some (a\<lparr>at_dirty_pages := [(ino, b)]\<rparr>)\<rparr>, v_cache := c2\<rparr>"
  have ic: "in_cache (e_lru E) c2 [(ino, b)] = [(ino, b)]" "page_data (e_lru E) c2 (ino, b) = splice off d' data"
    using m(3,4) u(4) by (simp_all add: cache_peek_def page_data_def)
  have "length (page_data (e_lru E) c2 (ino, b)) = BLOCK_SIZE"
    using ic assms(7,9) len by simp
  moreover have own: "cache_peek (e_lru E) (v_cache ?v) j x \<noteq> None \<Longrightarrow> (j, x) \<in> set (at_dirty_pages (a\<lparr>at_dirty_pages := [(ino, b)]\<rparr>))" for j x
    using m(3) by (simp add: cache_peek_def split: if_splits)
  ultimately obtain r v' where
    "v_commit E ?v = (Ok r, v')" "commits_to E valid (k + 2) k [b \<mapsto> splice off d' data] ?v v'"
    using v_commit_pages [of ?v "a\<lparr>at_dirty_pages := [(ino, b)]\<rparr>" k, OF _ _ _ _ _ own] ok m(2) assms(4,5,10) ic
    by (auto simp: images_def)
  with u(1) m(1) show ?thesis by (auto simp: commits_to_def map_block_def)
qed

lemma inode_read_slot:
  assumes "quiet E valid v" "inode_read E ino v = (Ok i, w)"
  shows "w = v \<and> i_ino i = ino \<and> i_page_block i \<in> table_blocks v \<and>
    scan_volume (peek_block (v_storage v)) v ino = Ok (i_page_block i, i_page_offset i) \<and>
    (\<exists>data j. peek_block (v_storage v) (i_page_block i) = Ok data \<and> i_page_offset i = j * DISIZE \<and>
       i_page_offset i + DISIZE \<le> length data \<and>
       dinode_parse (slice (i_page_offset i) (i_page_offset i + DISIZE) data) = Inr (i_dinode i))"
proof -
  have "snd (inode_read E ino v) = v" unfolding inode_read_quiet [OF assms(1), of ino] by simp
  then have w: "w = v" using assms(2) by simp
  have "fst (inode_read E ino v) = Ok i" using assms(2) by simp
  then obtain b off data s d where
    r: "scan_volume (peek_block (v_storage v)) v ino = Ok (b, off)" "peek_block (v_storage v) b = Ok data"
    "slice_res off (off + DISIZE) data = Ok s" "parse_dinode s = Ok d"
    "i = \<lparr>i_dinode = d, i_ino = ino, i_page_block = b, i_page_offset = off\<rparr>"
    unfolding inode_read_quiet [OF assms(1), of ino] fst_conv res_bind_Ok_iff by (auto simp: res_bind_Ok_iff)
  from scan_table_slot [OF r(1) [unfolded scan_volume_def]] obtain j where
    "b \<in> table_blocks v" "off = j * DISIZE" "off + DISIZE \<le> length data"
    using r(2) by (fastforce simp: table_blocks_def)
  moreover from this have "s = slice off (off + DISIZE) data" using r(3) by simp
  moreover have "dinode_parse s = Inr d" using r(4) by (simp add: parse_dinode_def split: sum.splits)
  ultimately show ?thesis using r w by auto
qed

text \<open>A read after an edit of the slot of \<open>i\<close>: the new inode there, the old ones elsewhere.\<close>

lemma inode_read_edited:
  assumes q: "quiet E valid v" "quiet E valid v'" and sb: "v_sb v' = v_sb v" "v_agg_size v' = v_agg_size v"
    and i: "inode_read E ino v = (Ok i, v)" "v_agg_size v \<le> size_blocks (v_storage v)"
    and b: "peek_block (v_storage v) (i_page_block i) = Ok data"
    "peek_block (v_storage v') (i_page_block i) = Ok (splice (i_page_offset i) d' data)"
    and o: "\<And>k. k \<in> table_blocks v \<Longrightarrow> k \<noteq> i_page_block i \<Longrightarrow> peek_block (v_storage v') k = peek_block (v_storage v) k"
    and d: "length d' = DISIZE" "slice 4 12 d' = slice 4 12 (slice (i_page_offset i) (i_page_offset i + DISIZE) data)"
    "dinode_parse d' = Inr di"
  shows "inode_read E j v' = (case fst (inode_read E j v) of
     Ok k \<Rightarrow> Ok (if i_page_block k = i_page_block i \<and> i_page_offset k = i_page_offset i then k\<lparr>i_dinode := di\<rparr> else k)
   | r \<Rightarrow> r, v')"
proof -
  let ?rd = "peek_block (v_storage v)" and ?rd' = "peek_block (v_storage v')" and ?off = "i_page_offset i"
  from inode_read_slot [OF q(1) i(1)] b(1) obtain ji where
    s: "i_page_block i \<in> table_blocks v" "?off = ji * DISIZE" "?off + DISIZE \<le> length data" by auto
  have t: "table_blocks v' = table_blocks v" by (simp add: table_blocks_def max_scan_def sb)
  have page: "\<exists>x x'. ?rd k = Ok x \<and> ?rd' k = Ok x' \<and> length x' = length x \<and>
      slot_keys x' [0..<INOSPERPAGE] = slot_keys x [0..<INOSPERPAGE]" if k: "k \<in> table_blocks v" for k
  proof (cases "k = i_page_block i")
    case True
    then show ?thesis using b s d slot_keys_splice [OF s(2,3) d(1,2)] by simp
  next
    case False
    have "k < size_blocks (v_storage v)" using k i(2) by (simp add: table_blocks_def)
    then obtain x where "?rd k = Ok x" using dev.read_total [of "v_storage v" k] q(1) by (auto simp: quiet_def)
    then show ?thesis using o [OF k False] by simp
  qed
  have scan: "scan_volume ?rd' v' j = scan_volume ?rd v j"
    unfolding scan_volume_def max_scan_def sb
    by (rule scan_table_cong) (use page in \<open>simp add: table_blocks_def max_scan_def\<close>)
  note r = inode_read_quiet [OF q(1), of j] and r' = inode_read_quiet [OF q(2), of j]
  show ?thesis
  proof (cases "scan_volume ?rd v j")
    case (Ok x)
    obtain kb koff where x: "x = (kb, koff)" by (cases x)
    from scan_table_slot [OF Ok [unfolded x scan_volume_def]] obtain kd kj where
      k: "kb \<in> table_blocks v" "?rd kb = Ok kd" "koff = kj * DISIZE" "koff + DISIZE \<le> length kd"
      by (fastforce simp: table_blocks_def)
    show ?thesis
    proof (cases "kb = i_page_block i")
      case same: True
      then have kd: "kd = data" using k(2) b(1) by simp
      show ?thesis
      proof (cases "koff = ?off")
        case True
        have "slice koff (koff + DISIZE) (splice ?off d' data) = d'" using True s d(1) by (simp add: slice_simps)
        moreover have "\<exists>k0. parse_dinode (slice koff (koff + DISIZE) data) = Ok k0"
          using k(4) kd by (simp add: parse_dinode_def dinode_parse_def DISIZE_def)
        ultimately show ?thesis
          using r r' scan Ok x k same kd b s d True by (auto simp: parse_dinode_def)
      next
        case False
        have "slice koff (koff + DISIZE) (splice ?off d' data) = slice koff (koff + DISIZE) data"
          by (rule slot_other [OF s(2) k(3)]) (use False s d(1) in auto)
        then show ?thesis using r r' scan Ok x k same kd b s d False
          by (cases "parse_dinode (slice koff (koff + DISIZE) data)") auto
      qed
    next
      case False
      then show ?thesis using r r' scan Ok x k o [OF k(1) False]
        by (cases "parse_dinode (slice koff (koff + DISIZE) kd)") auto
    qed
  qed (use r r' scan in auto)
qed

text \<open>
  The whole operation from an idle volume: begin, read the inode, edit its page, mark it dirty, commit. It
  succeeds, the volume is idle again, and reading gives the edited inode.
\<close>

lemma v_begin_idle:
  assumes "active (v_tx v) = None"
  shows "v_begin v = (Ok (next_txid (v_tx v)), v\<lparr>v_tx := (v_tx v)\<lparr>next_txid := (next_txid (v_tx v) + 1) mod 2 ^ 64,
    active := Some \<lparr>at_txid = next_txid (v_tx v), at_dirty_pages = [], at_allocated = [], at_freed = []\<rparr>\<rparr>\<rparr>)"
  using assms by (simp add: v_begin_def tx_begin_def Let_def)

lemma inode_read_begin:
  assumes "quiet E valid v" "inode_read E ino v = (Ok i, v)"
  shows "inode_read E ino (v\<lparr>v_tx := tm\<rparr>) = (Ok i, v\<lparr>v_tx := tm\<rparr>)"
proof -
  have "quiet E valid (v\<lparr>v_tx := tm\<rparr>)" using assms(1) by (simp add: quiet_def)
  with inode_read_quiet [OF assms(1), of ino] inode_read_quiet [of "v\<lparr>v_tx := tm\<rparr>" ino] assms(2) show ?thesis
    by (simp add: scan_volume_def max_scan_def)
qed

lemma edit_correct:
  assumes v: "idle E valid (k + 2) v" "inode_read E ino v = (Ok i, v)"
    and f: "\<And>d. length d = DISIZE \<Longrightarrow> dinode_parse d = Inr (i_dinode i) \<Longrightarrow>
      \<exists>d'. f d = Ok d' \<and> length d' = DISIZE \<and> slice 4 12 d' = slice 4 12 d \<and> dinode_parse d' = Inr di"
  shows "\<exists>v1 v'. v_begin v = (Ok (next_txid (v_tx v)), v1) \<and> inode_read E ino v1 = (Ok i, v1) \<and>
    st_bind (update_inode_page E ino (i_page_block i) (i_page_offset i) f v1) (\<lambda>_ v.
      st_bind (mark_page_dirty E ino (i_page_block i) v) (\<lambda>_ v. st_bind (v_commit E v) (\<lambda>_ v. (Ok (), v)))) = (Ok (), v') \<and>
    idle E valid k v' \<and> v_root_ino v' = v_root_ino v \<and>
    (\<forall>j. inode_read E j v' = (case fst (inode_read E j v) of
       Ok k \<Rightarrow> Ok (if i_page_block k = i_page_block i \<and> i_page_offset k = i_page_offset i then k\<lparr>i_dinode := di\<rparr> else k)
     | r \<Rightarrow> r, v'))"
proof -
  let ?b = "i_page_block i" and ?off = "i_page_offset i" and ?s = "v_storage v"
  let ?a = "\<lparr>at_txid = next_txid (v_tx v), at_dirty_pages = [], at_allocated = [], at_freed = []\<rparr>"
  define v1 where "v1 = v\<lparr>v_tx := (v_tx v)\<lparr>next_txid := (next_txid (v_tx v) + 1) mod 2 ^ 64, active := Some ?a\<rparr>\<rparr>"
  have q: "quiet E valid v" and id: "active (v_tx v) = None" "log_fits (k + 2) (v_log v) ?s" "v_agg_size v \<le> size_blocks ?s"
    "table_blocks v \<inter> (log_range (k + 2) (v_log v) \<union> map_block v) = {}"
    and bm: "\<And>m. v_bmap v1 = Some m \<Longrightarrow> dirty_pages m = {} \<and> dmap_start m < size_blocks (v_storage v1)"
    using v(1) by (simp_all add: idle_def v1_def)
  from inode_read_slot [OF q v(2)] obtain data j where
    s: "?b \<in> table_blocks v" "peek_block ?s ?b = Ok data" "?off = j * DISIZE" "?off + DISIZE \<le> length data"
    "dinode_parse (slice ?off (?off + DISIZE) data) = Inr (i_dinode i)" by blast
  have b: "?b < size_blocks ?s" using s(1) id(3) by (simp add: table_blocks_def)
  obtain d' where d': "f (slice ?off (?off + DISIZE) data) = Ok d'" "length d' = DISIZE"
    "slice 4 12 d' = slice 4 12 (slice ?off (?off + DISIZE) data)" "dinode_parse d' = Inr di"
    using f [of "slice ?off (?off + DISIZE) data"] s(4,5) by auto
  have q1: "quiet E valid v1" using q by (simp add: quiet_def v1_def)
  from edit_commit [of v1 ?a k ?b data ?off f d' ino, OF q1 _ _ _ _ _ s(4) d'(1,2) bm] id(2) b s(2) obtain r v' where
    e: "st_bind (update_inode_page E ino ?b ?off f v1) (\<lambda>_ v. st_bind (mark_page_dirty E ino ?b v) (\<lambda>_ v. v_commit E v)) = (Ok r, v')"
    and c: "commits_to E valid (k + 2) k [?b \<mapsto> splice ?off d' data] v1 v'" by (auto simp: v1_def)
  note d = commits_toD [OF c]
  have "idle E valid k v'" by (rule commits_idle [OF v(1) _ _ _ _ _ c]) (simp_all add: v1_def)
  moreover have "inode_read E j v' = (case fst (inode_read E j v) of
       Ok k \<Rightarrow> Ok (if i_page_block k = ?b \<and> i_page_offset k = ?off then k\<lparr>i_dinode := di\<rparr> else k) | r \<Rightarrow> r, v')" for j
  proof (rule inode_read_edited [OF q d(1) _ _ v(2) id(3) s(2) _ _ d'(2,3,4)])
    show "v_sb v' = v_sb v" "v_agg_size v' = v_agg_size v" using d(2,3) by (simp_all add: v1_def)
    show "peek_block (v_storage v') ?b = Ok (splice ?off d' data)"
      using d(11) [of ?b "splice ?off d' data"] s(1) id(4) by (auto simp: v1_def map_block_def)
    show "peek_block (v_storage v') k' = peek_block ?s k'" if "k' \<in> table_blocks v" "k' \<noteq> ?b" for k'
      using d(12) [of k'] that id(4) by (auto simp: v1_def map_block_def)
  qed
  moreover have "st_bind (update_inode_page E ino ?b ?off f v1) (\<lambda>_ v. st_bind (mark_page_dirty E ino ?b v) (\<lambda>_ v.
      st_bind (v_commit E v) (\<lambda>_ v. (Ok (), v)))) = (Ok (), v')"
    using e by (auto simp: st_bind_Ok_iff)
  ultimately show ?thesis using v_begin_idle [OF id(1)] inode_read_begin [OF q v(2)] d(4)
    by (intro exI [of _ v1] exI [of _ v']) (simp add: v1_def)
qed

end

section \<open>Fields of the packed inode\<close>

text \<open>Writing a field at its offset is an update of the parsed record.\<close>

named_theorems dinode_fields

lemma length_put [simp]:
  "p + 4 \<le> length d \<Longrightarrow> length (put_u32 p w d) = length d"
  "p + 8 \<le> length d \<Longrightarrow> length (put_u64 p n d) = length d"
  by (simp_all add: put_u32_def put_u64_def)

lemma key_put [simp]:
  "12 \<le> p \<Longrightarrow> p + 4 \<le> length d \<Longrightarrow> slice 4 12 (put_u32 p w d) = slice 4 12 d"
  "12 \<le> p \<Longrightarrow> p + 8 \<le> length d \<Longrightarrow> slice 4 12 (put_u64 p n d) = slice 4 12 d"
  by (simp_all add: put_u32_def put_u64_def slice_splice_other)

lemma put_fields [dinode_fields]:
  assumes "length d = DISIZE" "dinode_parse d = Inr di"
  shows "dinode_parse (put_u32 40 w d) = Inr (di\<lparr>di_nlink := write_u32 w\<rparr>)"
    "dinode_parse (put_u32 44 w d) = Inr (di\<lparr>di_uid := write_u32 w\<rparr>)"
    "dinode_parse (put_u32 48 w d) = Inr (di\<lparr>di_gid := write_u32 w\<rparr>)"
    "dinode_parse (put_u32 52 w d) = Inr (di\<lparr>di_mode := write_u32 w\<rparr>)"
    "dinode_parse (put_u32 56 w d) = Inr (di\<lparr>di_atime := (di_atime di)\<lparr>tv_sec := write_u32 w\<rparr>\<rparr>)"
    "dinode_parse (put_u32 60 w d) = Inr (di\<lparr>di_atime := (di_atime di)\<lparr>tv_nsec := write_u32 w\<rparr>\<rparr>)"
    "dinode_parse (put_u32 72 w d) = Inr (di\<lparr>di_mtime := (di_mtime di)\<lparr>tv_sec := write_u32 w\<rparr>\<rparr>)"
    "dinode_parse (put_u32 76 w d) = Inr (di\<lparr>di_mtime := (di_mtime di)\<lparr>tv_nsec := write_u32 w\<rparr>\<rparr>)"
    "dinode_parse (put_u64 24 n d) = Inr (di\<lparr>di_size := write_u64 (word_of_nat n)\<rparr>)"
    "dinode_parse (put_u64 32 n d) = Inr (di\<lparr>di_nblocks := write_u64 (word_of_nat n)\<rparr>)"
  using assms
  by (simp_all add: dinode_parse_def parse_timestruc_def parse_dxd_def put_u32_def put_u64_def DISIZE_def
      slice_splice_other slice_splice_same' nth_splice del: slice_splice_same, auto simp: slice_splice_other slice_splice_same')

lemma get_mode: "length d = DISIZE \<Longrightarrow> dinode_parse d = Inr di \<Longrightarrow> get_u32 52 d = mode di"
  by (auto simp: dinode_parse_def get_u32_def mode_def DISIZE_def)

section \<open>Example\<close>

text \<open>A device of three blocks; the second is a table of inodes with one inode in its first slot, the third is outside the table.\<close>

definition demo_page :: "dinode \<Rightarrow> bytes" where
  "demo_page d = dinode_bytes d @ replicate (BLOCK_SIZE - DISIZE) 0"

definition demo_volume :: "dinode \<Rightarrow> lru_list volume" where
  "demo_volume d =
     \<lparr>v_sb = sb_default\<lparr>s_ait2 := pxd_set_address (pxd_set_length pxd_default 1) 1\<rparr>, v_log = None, v_tx = tx_new,
      v_storage = MemoryStorage \<lparr>ms_data = replicate BLOCK_SIZE 0 @ demo_page d @ replicate BLOCK_SIZE 0, ms_size = 3 * BLOCK_SIZE\<rparr>,
      v_log_storage = False, v_cache = cache_new list_lru 256, v_block_size = BLOCK_SIZE, v_l2bsize = 12, v_agg_size = 2,
      v_ag_size = 0, v_num_ag = 1, v_root_ino = 18, v_bmap = None, v_open_handles = Map.empty\<rparr>"

definition demo_inode :: "32 word \<Rightarrow> dinode" where
  "demo_inode m = \<lparr>di_inostamp = zero4, di_fileset = write_u32 16, di_number = write_u32 2, di_generation = zero4,
     di_ixpxd = pxd_default, di_size = zero8, di_nblocks = zero8, di_nlink = write_u32 1, di_uid = zero4, di_gid = zero4,
     di_mode = write_u32 m, di_atime = \<lparr>tv_sec = zero4, tv_nsec = zero4\<rparr>, di_ctime = \<lparr>tv_sec = zero4, tv_nsec = zero4\<rparr>,
     di_mtime = \<lparr>tv_sec = zero4, tv_nsec = zero4\<rparr>, di_otime = \<lparr>tv_sec = zero4, tv_nsec = zero4\<rparr>,
     di_acl = parse_dxd (replicate 16 0) 0, di_ea = parse_dxd (replicate 16 0) 0, di_next_index = zero4, di_acltype = zero4,
     di_u = replicate 384 0\<rparr>"

definition demo_at :: "dinode \<Rightarrow> inode" where
  "demo_at d = \<lparr>i_dinode = d, i_ino = 18, i_page_block = 1, i_page_offset = 0\<rparr>"

lemma demo_at_dinode [simp]: "i_dinode (demo_at d) = d"
  by (simp add: demo_at_def)

lemma demo_quiet:
  assumes "length (di_u d) = 384"
  shows "quiet list_env ll_valid (demo_volume d)"
  using assms by (simp add: quiet_def demo_volume_def mem_ok_def demo_page_def block_size_defs DISIZE_def list_env_def
      cache_new_def list_lru_def ll_valid_def)

lemma demo_block:
  assumes "length (di_u d) = 384"
  shows "peek_block (v_storage (demo_volume d)) 1 = Ok (demo_page d)"
proof -
  have l: "length (demo_page d) = 4096" using assms by (simp add: demo_page_def block_size_defs DISIZE_def)
  then have "slice 4096 8192 (replicate 4096 0 @ demo_page d @ replicate 4096 0) = demo_page d"
    by (simp add: slice_def)
  then show ?thesis using l by (simp add: peek_block_def demo_volume_def mem_read_block_def mem_block_to_offset_def mem_read_bytes_def add_u64_def
      block_size_defs)
qed

lemma demo_ait: "unat (pxd_address (s_ait2 (v_sb (demo_volume d)))) = 1" "max_scan (demo_volume d) = 33"
  by (simp_all add: demo_volume_def max_scan_def)

lemma demo_read:
  assumes d: "length (di_u d) = 384" "di_fileset d = write_u32 16" "di_number d = write_u32 2"
  shows "inode_read list_env 18 (demo_volume d) = (Ok (demo_at d), demo_volume d)"
proof -
  have l: "length (dinode_bytes d) = 512" using d(1) by simp
  have s: "slice 0 512 (demo_page d) = dinode_bytes d" by (simp add: demo_page_def layout_select l)
  have k: "slice 4 8 (dinode_bytes d) = list_of_arr4 (di_fileset d)" "slice 8 12 (dinode_bytes d) = list_of_arr4 (di_number d)"
    using d(1) by (simp_all add: dinode_bytes_def layout_select del: dxd_bytes.simps)
  have lp: "length (demo_page d) = 4096" by (simp add: demo_page_def l block_size_defs DISIZE_def)
  have upt: "[0..<INOSPERPAGE] = 0 # [1..<INOSPERPAGE]" "[0..<33] = 0 # [1..<33]"
    by (simp_all add: INOSPERPAGE_def upt_conv_Cons)
  have f: "find_in_page (demo_page d) 16 2 [0..<INOSPERPAGE] = Ok (Some 0)"
    using lp s k d by (simp add: DISIZE_def upt)
  have key: "inode_key 18 = (16, 2)" by (simp add: inode_key_def FILESYSTEM_I_def)
  have "scan_volume (peek_block (v_storage (demo_volume d))) (demo_volume d) 18 = Ok (1, 0)"
    unfolding scan_volume_def demo_ait using f demo_block [OF d(1)]
    by (simp add: upt(2) key) (simp add: demo_volume_def)
  moreover have "parse_dinode (dinode_bytes d) = Ok d" using dinode_parse_bytes [OF d(1)] by (simp add: parse_dinode_def)
  ultimately show ?thesis using lenv.inode_read_quiet [OF demo_quiet [OF d(1)], of 18] demo_block [OF d(1)] s lp
    by (simp add: DISIZE_def demo_at_def)
qed

lemma demo_idle: "length (di_u d) = 384 \<Longrightarrow> idle list_env ll_valid k (demo_volume d)"
  using demo_quiet by (simp add: idle_def)
    (simp add: demo_volume_def tx_new_def mem_size_blocks_def block_size_defs map_block_def)

end
