(* ===== verification/Volume_File.thy ===== *)
theory Volume_File
  imports Inode_Edit Xtree_Read
begin

text \<open>
  The operations of \<open>volume.rs\<close> on the contents and the attributes of one file: \<open>write_at\<close>, \<open>truncate\<close>,
  \<open>fallocate\<close>, \<open>copy_file_range_extent\<close>, \<open>setattr\<close> and \<open>fsync\<close>. Each begins a transaction on the volume,
  reads the inode, works on the extent tree, the allocation map and the data blocks, changes the inode
  page in the cache, marks it dirty and commits.
\<close>

section \<open>Writing\<close>

text \<open>The local variables of the loop in \<open>write_at_with_interrupt\<close>; \<open>ws_polls\<close> counts the checks of the token.\<close>

record write_state =
  ws_data_pos :: nat
  ws_remaining :: nat
  ws_cur :: nat
  ws_written :: nat
  ws_next :: nat
  ws_xtree :: xtroot
  ws_mod :: bool
  ws_polls :: nat

definition poll :: "(nat \<Rightarrow> unit res) \<Rightarrow> write_state \<Rightarrow> 's \<Rightarrow> write_state res \<times> 's" where
  "poll chk st s = st_bind (chk (ws_polls st), s) (\<lambda>_ s. (Ok (st\<lparr>ws_polls := ws_polls st + 1\<rparr>), s))"

definition ws_step :: "nat \<Rightarrow> write_state \<Rightarrow> write_state" where
  "ws_step n st = st\<lparr>ws_data_pos := ws_data_pos st + n, ws_remaining := ws_remaining st - n, ws_cur := 0,
     ws_written := ws_written st + n\<rparr>"

text \<open>The loop over freshly allocated blocks.\<close>

fun write_new :: "(nat \<Rightarrow> unit res) \<Rightarrow> bytes \<Rightarrow> nat \<Rightarrow> nat \<Rightarrow> write_state \<Rightarrow> storage \<Rightarrow> write_state res \<times> storage" where
  "write_new chk data addr 0 st s = (Ok st, s)"
| "write_new chk data addr (Suc n) st s =
     st_bind (poll chk st s) (\<lambda>st s.
       if ws_remaining st = 0 then (Ok st, s)
       else
         let to_copy = min (BLOCK_SIZE - ws_cur st) (ws_remaining st);
             zeros = replicate BLOCK_SIZE 0;
             block = (if ws_data_pos st + to_copy \<le> length data
                      then splice (ws_cur st) (slice (ws_data_pos st) (ws_data_pos st + to_copy) data) zeros
                      else zeros)
         in st_bind (write_block s addr block) (\<lambda>_ s1. write_new chk data (addr + 1) n (ws_step to_copy st) s1))"

text \<open>The loop over the blocks of an existing extent.\<close>

fun write_old :: "(nat \<Rightarrow> unit res) \<Rightarrow> bytes \<Rightarrow> nat \<Rightarrow> nat \<Rightarrow> write_state \<Rightarrow> storage \<Rightarrow> write_state res \<times> storage" where
  "write_old chk data addr 0 st s = (Ok st, s)"
| "write_old chk data addr (Suc n) st s =
     st_bind (poll chk st s) (\<lambda>st s.
       if ws_remaining st = 0 then (Ok st, s)
       else
         st_bind (read_block s addr) (\<lambda>block s1.
           let to_copy = min (BLOCK_SIZE - ws_cur st) (ws_remaining st) in
           if length block < ws_cur st + to_copy \<or> length data < ws_data_pos st + to_copy then (Panic, s1)
           else
             let block' = splice (ws_cur st) (slice (ws_data_pos st) (ws_data_pos st + to_copy) data) block in
             st_bind (write_block s1 addr block') (\<lambda>_ s2. write_old chk data (addr + 1) n (ws_step to_copy st) s2)))"

text \<open>A sparse run without an allocator is counted as written before the blocks are visited.\<close>

definition skip_hole :: "nat \<Rightarrow> nat \<Rightarrow> write_state \<Rightarrow> write_state res" where
  "skip_hole addr cnt st =
     (if addr \<noteq> 0 then Ok st
      else if cnt * BLOCK_SIZE < ws_cur st then Panic
      else Ok (ws_step (min (cnt * BLOCK_SIZE - ws_cur st) (ws_remaining st)) st))"

definition write_run :: "(nat \<Rightarrow> unit res) \<Rightarrow> bytes \<Rightarrow> nat \<Rightarrow> nat \<Rightarrow> write_state \<Rightarrow> 'c volume
    \<Rightarrow> write_state res \<times> 'c volume" where
  "write_run chk data addr cnt st v =
     st_bind (skip_hole addr cnt st, v) (\<lambda>st v.
     st_bind (on_storage (write_old chk data addr cnt st) v) (\<lambda>st v.
       (Ok (st\<lparr>ws_next := ws_next st + cnt\<rparr>), v)))"

definition write_hole :: "(nat \<Rightarrow> unit res) \<Rightarrow> bytes \<Rightarrow> pxd \<Rightarrow> write_state \<Rightarrow> 'c volume \<Rightarrow> write_state res \<times> 'c volume" where
  "write_hole chk data p st v =
     (let new_addr = unat (pxd_address p); new_len = unat (pxd_length p) in
      st_bind (on_storage (write_new chk data new_addr new_len st) v) (\<lambda>h v1.
        let (r, x) = insert_extent (ws_xtree st) (int (ws_next st)) new_len new_addr in
        st_bind (r, v1) (\<lambda>inserted v2.
          (Ok (h\<lparr>ws_cur := ws_cur st, ws_xtree := x, ws_mod := ws_mod st \<or> inserted,
                 ws_next := ws_next st + new_len\<rparr>), v2))))"

definition write_extent :: "(nat \<Rightarrow> unit res) \<Rightarrow> bytes \<Rightarrow> nat \<Rightarrow> nat \<Rightarrow> write_state \<Rightarrow> 'c volume
    \<Rightarrow> write_state res \<times> 'c volume" where
  "write_extent chk data addr cnt st v =
     (case if addr = 0 then v_bmap v else None of
        None \<Rightarrow> write_run chk data addr cnt st v
      | Some b \<Rightarrow>
          let (r, b') = alloc_extent b cnt (ws_next st) in
          st_bind (r, v\<lparr>v_bmap := Some b'\<rparr>) (\<lambda>p v1.
            case p of Some p \<Rightarrow> write_hole chk data p st v1 | None \<Rightarrow> write_run chk data addr cnt st v1))"

fun write_extents :: "(nat \<Rightarrow> unit res) \<Rightarrow> bytes \<Rightarrow> (nat \<times> nat) list \<Rightarrow> write_state \<Rightarrow> 'c volume
    \<Rightarrow> write_state res \<times> 'c volume" where
  "write_extents chk data [] st v = (Ok st, v)"
| "write_extents chk data ((addr, cnt) # es) st v =
     st_bind (poll chk st v) (\<lambda>st v.
       if ws_remaining st = 0 then (Ok st, v)
       else st_bind (write_extent chk data addr cnt st v) (\<lambda>st v. write_extents chk data es st v))"

definition put_xtree :: "xtroot \<Rightarrow> bytes \<Rightarrow> bytes res" where
  "put_xtree x d =
     res_bind (put_root (to_bytes x) d) (\<lambda>d. Ok (put_u64 32 (sum_list (map e_length (iter_extents x))) d))"

definition read_file :: "'c env \<Rightarrow> 32 word \<Rightarrow> 'c volume \<Rightarrow> (inode \<times> xtroot) res \<times> 'c volume" where
  "read_file E ino v =
     st_bind (inode_read E ino v) (\<lambda>i v1.
     st_bind (from_inode_data (xtroot_bytes (i_dinode i)), v1) (\<lambda>x v2. (Ok (i, x), v2)))"

text \<open>\<open>if cond { self.update_inode_page(..)? }\<close>.\<close>

definition update_if :: "bool \<Rightarrow> 'c env \<Rightarrow> inode \<Rightarrow> (bytes \<Rightarrow> bytes res) \<Rightarrow> 'c volume \<Rightarrow> unit res \<times> 'c volume" where
  "update_if c E i f v =
     (if c then update_inode_page E (i_ino i) (i_page_block i) (i_page_offset i) f v else (Ok (), v))"

definition write_at_with_interrupt :: "'c env \<Rightarrow> 32 word \<Rightarrow> nat \<Rightarrow> bytes \<Rightarrow> (nat \<Rightarrow> unit res) \<Rightarrow> 'c volume
    \<Rightarrow> nat res \<times> 'c volume" where
  "write_at_with_interrupt E ino offset data chk v =
     st_bind (v_begin v) (\<lambda>_ v.
     st_bind (read_file E ino v) (\<lambda>(i, x) v.
       let byte_offset = offset mod BLOCK_SIZE; fsb_offset = offset div BLOCK_SIZE;
           fsb_count = (length data + byte_offset + BLOCK_SIZE - 1) div BLOCK_SIZE mod 2 ^ 32 in
     st_bind (map_blocks x fsb_offset fsb_count, v) (\<lambda>extents v.
     st_bind (write_extents chk data extents
                \<lparr>ws_data_pos = 0, ws_remaining = length data, ws_cur = byte_offset, ws_written = 0,
                 ws_next = fsb_offset, ws_xtree = x, ws_mod = False, ws_polls = 0\<rparr> v) (\<lambda>st v.
     st_bind (poll chk st v) (\<lambda>st v.
     st_bind (on_storage flush_data v) (\<lambda>_ v.
     st_bind (add_u64 offset (ws_written st), v) (\<lambda>new_end v.
     st_bind (update_if (inode_size i < new_end) E i (\<lambda>d. Ok (put_u64 24 new_end d)) v) (\<lambda>_ v.
     st_bind (update_if (ws_mod st) E i (put_xtree (ws_xtree st)) v) (\<lambda>_ v.
     st_bind (mark_page_dirty E ino (i_page_block i) v) (\<lambda>_ v.
       case v_commit E v of
         (Ok _, v) \<Rightarrow> (Ok (ws_written st), v)
       | (Err e, v) \<Rightarrow> fail_with E e v
       | (Panic, v) \<Rightarrow> (Panic, v)
       | (Exit, v) \<Rightarrow> (Exit, v)))))))))))"

definition write_at :: "'c env \<Rightarrow> 32 word \<Rightarrow> nat \<Rightarrow> bytes \<Rightarrow> 'c volume \<Rightarrow> nat res \<times> 'c volume" where
  "write_at E ino offset data v = write_at_with_interrupt E ino offset data (\<lambda>_. Ok ()) v"

section \<open>Truncating\<close>

text \<open>\<open>(n + block - 1) / block\<close>.\<close>

definition blocks_for :: "nat \<Rightarrow> nat res" where
  "blocks_for n = res_bind (add_u64 n BLOCK_SIZE) (\<lambda>m. Ok ((m - 1) div BLOCK_SIZE))"

definition finish :: "'c env \<Rightarrow> 32 word \<Rightarrow> inode \<Rightarrow> 'c volume \<Rightarrow> unit res \<times> 'c volume" where
  "finish E ino i v =
     st_bind (mark_page_dirty E ino (i_page_block i) v) (\<lambda>_ v.
     st_bind (v_commit E v) (\<lambda>_ v. (Ok (), v)))"

fun zero_tails :: "nat \<Rightarrow> (nat \<times> nat) list \<Rightarrow> storage \<Rightarrow> unit res \<times> storage" where
  "zero_tails from [] s = (Ok (), s)"
| "zero_tails from ((addr, cnt) # es) s =
     (if addr = 0 \<or> cnt = 0 then zero_tails from es s
      else
        st_bind (read_block s addr) (\<lambda>block s1.
          if length block < BLOCK_SIZE then (Panic, s1)
          else
            st_bind (write_block s1 addr (splice from (replicate (BLOCK_SIZE - from) 0) block)) (\<lambda>_ s2.
              zero_tails from es s2)))"

definition shrink_file :: "'c env \<Rightarrow> inode \<Rightarrow> xtroot \<Rightarrow> nat \<Rightarrow> nat \<Rightarrow> 'c volume \<Rightarrow> unit res \<times> 'c volume" where
  "shrink_file E i x new_eof_fsb new_size v =
     (let (freed, x') = truncate_extents x (int new_eof_fsb) in
      st_bind (on_bmap (free_all freed) v) (\<lambda>_ v.
        update_inode_page E (i_ino i) (i_page_block i) (i_page_offset i)
          (\<lambda>d. res_bind (put_root (to_bytes x') d) (\<lambda>d.
             Ok (put_u64 32 (compute_nblocks x' (unat (nblocks (i_dinode i)))) (put_u64 24 new_size d)))) v))"

definition grow_file :: "'c env \<Rightarrow> inode \<Rightarrow> xtroot \<Rightarrow> nat \<Rightarrow> 'c volume \<Rightarrow> unit res \<times> 'c volume" where
  "grow_file E i x new_size v =
     (let old_size = inode_size i; old_byte_offset = old_size mod BLOCK_SIZE in
      st_bind
        (if 0 < old_byte_offset
         then st_bind (map_blocks x (old_size div BLOCK_SIZE) 1, v) (\<lambda>extents v.
                on_storage (zero_tails old_byte_offset extents) v)
         else (Ok (), v)) (\<lambda>_ v.
        update_inode_page E (i_ino i) (i_page_block i) (i_page_offset i) (\<lambda>d. Ok (put_u64 24 new_size d)) v))"

definition v_truncate :: "'c env \<Rightarrow> 32 word \<Rightarrow> nat \<Rightarrow> 'c volume \<Rightarrow> unit res \<times> 'c volume" where
  "v_truncate E ino new_size v =
     st_bind (v_begin v) (\<lambda>_ v.
     st_bind (read_file E ino v) (\<lambda>(i, x) v.
     st_bind (blocks_for new_size, v) (\<lambda>new_eof_fsb v.
     st_bind (blocks_for (inode_size i), v) (\<lambda>current_eof_fsb v.
     st_bind
       (if new_eof_fsb < current_eof_fsb then shrink_file E i x new_eof_fsb new_size v
        else if current_eof_fsb < new_eof_fsb then grow_file E i x new_size v
        else update_inode_page E ino (i_page_block i) (i_page_offset i) (\<lambda>d. Ok (put_u64 24 new_size d)) v)
       (\<lambda>_ v. finish E ino i v)))))"

section \<open>Preallocation and punching\<close>

definition FALLOC_FL_KEEP_SIZE :: "32 word" where "FALLOC_FL_KEEP_SIZE = 1"
definition FALLOC_FL_PUNCH_HOLE :: "32 word" where "FALLOC_FL_PUNCH_HOLE = 2"
definition FALLOC_FL_UNSUPPORTED :: "32 word" where "FALLOC_FL_UNSUPPORTED = 0x78"

text \<open>The allocation loop, one block at a time.\<close>

fun alloc_blocks :: "nat list \<Rightarrow> bmap \<Rightarrow> xtroot \<Rightarrow> bool \<Rightarrow> storage \<Rightarrow> (xtroot \<times> bool) res \<times> bmap \<times> storage" where
  "alloc_blocks [] b x m s = (Ok (x, m), b, s)"
| "alloc_blocks (fsb # fs) b x m s =
     (if lookup x fsb \<noteq> None then alloc_blocks fs b x m s
      else
        case alloc_extent b 1 fsb of
          (Ok None, b1) \<Rightarrow> alloc_blocks fs b1 x m s
        | (Ok (Some p), b1) \<Rightarrow>
            (case write_block s (unat (pxd_address p)) (replicate BLOCK_SIZE 0) of
               (Ok _, s1) \<Rightarrow>
                 (case insert_extent x (int fsb) 1 (unat (pxd_address p)) of
                    (Ok ins, x1) \<Rightarrow> alloc_blocks fs b1 x1 (m \<or> ins) s1
                  | (Err e, _) \<Rightarrow> (Err e, b1, s1)
                  | (Panic, _) \<Rightarrow> (Panic, b1, s1)
                  | (Exit, _) \<Rightarrow> (Exit, b1, s1))
             | (Err e, s1) \<Rightarrow> (Err e, b1, s1)
             | (Panic, s1) \<Rightarrow> (Panic, b1, s1)
             | (Exit, s1) \<Rightarrow> (Exit, b1, s1))
        | (Err e, b1) \<Rightarrow> (Err e, b1, s)
        | (Panic, b1) \<Rightarrow> (Panic, b1, s)
        | (Exit, b1) \<Rightarrow> (Exit, b1, s))"

definition alloc_range :: "nat \<Rightarrow> nat \<Rightarrow> xtroot \<Rightarrow> 'c volume \<Rightarrow> (xtroot \<times> bool) res \<times> 'c volume" where
  "alloc_range start_fsb end_fsb x v =
     (case v_bmap v of
        None \<Rightarrow> (Ok (x, False), v)
      | Some b \<Rightarrow>
          (let (r, b', s) = alloc_blocks [start_fsb..<end_fsb] b x False (v_storage v)
           in (r, v\<lparr>v_bmap := Some b', v_storage := s\<rparr>)))"

definition punch_range :: "nat \<Rightarrow> nat \<Rightarrow> xtroot \<Rightarrow> 'c volume \<Rightarrow> (xtroot \<times> bool) res \<times> 'c volume" where
  "punch_range start_fsb end_fsb x v =
     (let (freed, x') = punch_extents x (int start_fsb) (int end_fsb) in
      st_bind (on_bmap (free_all freed) v) (\<lambda>_ v. (Ok (x', True), v)))"

definition fallocate :: "'c env \<Rightarrow> 32 word \<Rightarrow> nat \<Rightarrow> nat \<Rightarrow> 32 word \<Rightarrow> 'c volume \<Rightarrow> unit res \<times> 'c volume" where
  "fallocate E ino offset len fmode v =
     (if fmode AND FALLOC_FL_UNSUPPORTED \<noteq> 0 then (Err (Other ''fallocate mode is not supported''), v)
      else
        let keep_punch = FALLOC_FL_KEEP_SIZE OR FALLOC_FL_PUNCH_HOLE; is_punch = (fmode AND keep_punch = keep_punch) in
        st_bind (v_begin v) (\<lambda>_ v.
        st_bind (read_file E ino v) (\<lambda>(i, x) v.
        st_bind (res_bind (add_u64 offset len) (\<lambda>file_end.
                 res_bind (blocks_for file_end) (\<lambda>end_fsb. Ok (file_end, end_fsb))), v) (\<lambda>(file_end, end_fsb) v.
          let start_fsb = offset div BLOCK_SIZE in
        st_bind (sub_u64 end_fsb start_fsb, v) (\<lambda>block_count v.
        st_bind (if is_punch \<and> 0 < block_count then punch_range start_fsb end_fsb x v
                 else if 0 < block_count then alloc_range start_fsb end_fsb x v
                 else (Ok (x, False), v)) (\<lambda>(x', xtree_modified) v.
          let new_size = (if fmode AND FALLOC_FL_KEEP_SIZE = 0 \<and> inode_size i < file_end then file_end
                          else inode_size i) in
        st_bind (update_if (\<not> is_punch \<and> new_size \<noteq> inode_size i) E i (\<lambda>d. Ok (put_u64 24 new_size d)) v) (\<lambda>_ v.
        st_bind (update_if xtree_modified E i (put_xtree x') v) (\<lambda>_ v.
        st_bind (mark_page_dirty E ino (i_page_block i) v) (\<lambda>_ v.
        st_bind (on_storage flush_data v) (\<lambda>_ v.
        st_bind (v_commit E v) (\<lambda>_ v. (Ok (), v))))))))))))"

section \<open>Moving extents between files\<close>

fun insert_all_taken :: "int \<Rightarrow> (int \<times> nat \<times> nat) list \<Rightarrow> xtroot \<Rightarrow> xtroot option" where
  "insert_all_taken shift [] x = Some x"
| "insert_all_taken shift ((src_logical, len, addr) # ts) x =
     (let (ok, x') = insert_taken_extent x (shift + src_logical) len addr in
      if ok then insert_all_taken shift ts x' else None)"

definition copy_file_range_extent :: "'c env \<Rightarrow> 32 word \<Rightarrow> nat \<Rightarrow> 32 word \<Rightarrow> nat \<Rightarrow> nat \<Rightarrow> 'c volume
    \<Rightarrow> nat option res \<times> 'c volume" where
  "copy_file_range_extent E src_ino src_offset dst_ino dst_offset len v =
     (if src_offset mod BLOCK_SIZE \<noteq> 0 \<or> dst_offset mod BLOCK_SIZE \<noteq> 0 \<or> len mod BLOCK_SIZE \<noteq> 0 \<or> len = 0
      then (Ok None, v)
      else
        let src_start = src_offset div BLOCK_SIZE; src_end = src_start + len div BLOCK_SIZE;
            dst_start = dst_offset div BLOCK_SIZE; dst_end = dst_start + len div BLOCK_SIZE in
        st_bind (v_begin v) (\<lambda>_ v.
        st_bind (read_file E src_ino v) (\<lambda>(si, sx) v.
          let (taken, sx') = take_extents sx (int src_start) (int src_end) in
          if taken = [] then st_bind (v_abort E v) (\<lambda>_ v. (Ok None, v))
          else
        st_bind (update_inode_page E src_ino (i_page_block si) (i_page_offset si)
                   (\<lambda>d. res_bind (put_root (to_bytes sx') d) (\<lambda>d.
                      Ok (put_u64 32 (compute_nblocks sx' (unat (nblocks (i_dinode si)))) d))) v) (\<lambda>_ v.
        st_bind (mark_page_dirty E src_ino (i_page_block si) v) (\<lambda>_ v.
        st_bind (read_file E dst_ino v) (\<lambda>(di, dx) v.
          let (freed, dx1) = punch_extents dx (int dst_start) (int dst_end) in
        st_bind (on_bmap (free_all freed) v) (\<lambda>_ v.
          case insert_all_taken (int dst_start - int src_start) taken dx1 of
            None \<Rightarrow> st_bind (v_abort E v) (\<lambda>_ v. (Ok None, v))
          | Some dx2 \<Rightarrow>
        st_bind (add_u64 dst_offset len, v) (\<lambda>copy_end v.
        st_bind (update_inode_page E dst_ino (i_page_block di) (i_page_offset di)
                   (\<lambda>d. res_bind (put_root (to_bytes dx2) d) (\<lambda>d.
                      Ok (put_u64 32 (compute_nblocks dx2 (unat (nblocks (i_dinode di))))
                            (put_u64 24 (max (inode_size di) copy_end) d)))) v) (\<lambda>_ v.
        st_bind (mark_page_dirty E dst_ino (i_page_block di) v) (\<lambda>_ v.
        st_bind (v_commit E v) (\<lambda>_ v. (Ok (Some len), v))))))))))))"

section \<open>Attributes\<close>

definition attr_edit :: "32 word option \<Rightarrow> 32 word option \<Rightarrow> 32 word option \<Rightarrow> nat option \<Rightarrow> nat option \<Rightarrow> bytes \<Rightarrow> bytes" where
  "attr_edit m u g atime mtime d =
     (let d = (case m of Some m \<Rightarrow> put_u32 52 ((m AND 0x0fff) OR (get_u32 52 d AND 0xf000)) d | None \<Rightarrow> d);
          d = (case u of Some u \<Rightarrow> put_u32 44 u d | None \<Rightarrow> d);
          d = (case g of Some g \<Rightarrow> put_u32 48 g d | None \<Rightarrow> d);
          d = (case atime of Some ts \<Rightarrow> put_u32 60 0 (put_u32 56 (word_of_nat ts) d) | None \<Rightarrow> d);
          d = (case mtime of Some ts \<Rightarrow> put_u32 76 0 (put_u32 72 (word_of_nat ts) d) | None \<Rightarrow> d)
      in d)"

definition v_setattr :: "'c env \<Rightarrow> 32 word \<Rightarrow> 32 word option \<Rightarrow> 32 word option \<Rightarrow> 32 word option \<Rightarrow> nat option \<Rightarrow> nat option
    \<Rightarrow> 'c volume \<Rightarrow> unit res \<times> 'c volume" where
  "v_setattr E ino m u g atime mtime v =
     st_bind (v_begin v) (\<lambda>_ v.
     st_bind (inode_read E ino v) (\<lambda>i v.
     st_bind (update_inode_page E ino (i_page_block i) (i_page_offset i) (\<lambda>d. Ok (attr_edit m u g atime mtime d)) v) (\<lambda>_ v.
       finish E ino i v)))"

definition v_fsync :: "'c env \<Rightarrow> 32 word \<Rightarrow> 'c volume \<Rightarrow> unit res \<times> 'c volume" where
  "v_fsync E ino v =
     st_bind (v_begin v) (\<lambda>_ v.
     st_bind (inode_read E ino v) (\<lambda>i v.
     st_bind (on_storage flush_metadata v) (\<lambda>_ v. finish E ino i v)))"

section \<open>Setting attributes\<close>

text \<open>What the attribute call means for the parsed inode.\<close>

definition attr_update :: "32 word option \<Rightarrow> 32 word option \<Rightarrow> 32 word option \<Rightarrow> nat option \<Rightarrow> nat option \<Rightarrow> dinode \<Rightarrow> dinode" where
  "attr_update m u g atime mtime d = d
     \<lparr>di_mode := (case m of Some m \<Rightarrow> write_u32 ((m AND 0x0fff) OR (mode d AND 0xf000)) | None \<Rightarrow> di_mode d),
      di_uid := (case u of Some u \<Rightarrow> write_u32 u | None \<Rightarrow> di_uid d),
      di_gid := (case g of Some g \<Rightarrow> write_u32 g | None \<Rightarrow> di_gid d),
      di_atime := (case atime of Some ts \<Rightarrow> \<lparr>tv_sec = write_u32 (word_of_nat ts), tv_nsec = write_u32 0\<rparr> | None \<Rightarrow> di_atime d),
      di_mtime := (case mtime of Some ts \<Rightarrow> \<lparr>tv_sec = write_u32 (word_of_nat ts), tv_nsec = write_u32 0\<rparr> | None \<Rightarrow> di_mtime d)\<rparr>"

lemma attr_edit_parse:
  assumes "length d = DISIZE" "dinode_parse d = Inr di"
  shows "length (attr_edit m u g atime mtime d) = DISIZE \<and> slice 4 12 (attr_edit m u g atime mtime d) = slice 4 12 d \<and>
    dinode_parse (attr_edit m u g atime mtime d) = Inr (attr_update m u g atime mtime di)"
proof -
  let ?ok = "\<lambda>x dx. length x = DISIZE \<and> slice 4 12 x = slice 4 12 d \<and> dinode_parse x = Inr dx"
  define d1 where "d1 = (case m of Some m \<Rightarrow> put_u32 52 ((m AND 0x0fff) OR (get_u32 52 d AND 0xf000)) d | None \<Rightarrow> d)"
  define d2 where "d2 = (case u of Some u \<Rightarrow> put_u32 44 u d1 | None \<Rightarrow> d1)"
  define d3 where "d3 = (case g of Some g \<Rightarrow> put_u32 48 g d2 | None \<Rightarrow> d2)"
  define d4 where "d4 = (case atime of Some ts \<Rightarrow> put_u32 60 0 (put_u32 56 (word_of_nat ts) d3) | None \<Rightarrow> d3)"
  have 1: "?ok d1 (attr_update m None None None None di)"
    using assms get_mode [OF assms] put_fields(4) [OF assms]
    by (cases m) (simp_all add: d1_def attr_update_def DISIZE_def)
  have 2: "?ok d2 (attr_update m u None None None di)"
    using 1 put_fields(2) [of d1] by (cases u) (auto simp: d2_def attr_update_def DISIZE_def)
  have 3: "?ok d3 (attr_update m u g None None di)"
    using 2 put_fields(3) [of d2] by (cases g) (auto simp: d3_def attr_update_def DISIZE_def)
  have 4: "?ok d4 (attr_update m u g atime None di)"
    using 3 put_fields(5) [of d3] put_fields(6) [of "put_u32 56 w d3" for w]
    by (cases atime) (auto simp: d4_def attr_update_def DISIZE_def)
  have "?ok (attr_edit m u g atime mtime d) (attr_update m u g atime mtime di)"
    using 4 put_fields(7) [of d4] put_fields(8) [of "put_u32 72 w d4" for w]
    by (cases mtime) (auto simp: attr_edit_def attr_update_def DISIZE_def simp flip: d1_def d2_def d3_def d4_def)
  then show ?thesis .
qed

text \<open>The whole effect of the call, as the code computes it.\<close>

lemma setattr_effect:
  assumes "library E valid" "idle E valid (n + 2) v" "inode_read E ino v = (Ok i, v)"
  shows "\<exists>v'. v_setattr E ino m u g atime mtime v = (Ok (), v') \<and> idle E valid n v' \<and>
    inode_read E ino v' = (Ok (i\<lparr>i_dinode := attr_update m u g atime mtime (i_dinode i)\<rparr>), v') \<and>
    (\<forall>j k. inode_read E j v = (Ok k, v) \<and> (i_page_block k, i_page_offset k) \<noteq> (i_page_block i, i_page_offset i) \<longrightarrow>
       inode_read E j v' = (Ok k, v'))"
proof -
  have "\<exists>d'. Ok (attr_edit m u g atime mtime d) = Ok d' \<and> length d' = DISIZE \<and> slice 4 12 d' = slice 4 12 d \<and>
      dinode_parse d' = Inr (attr_update m u g atime mtime (i_dinode i))"
    if "length d = DISIZE" "dinode_parse d = Inr (i_dinode i)" for d
    using attr_edit_parse [OF that] by blast
  from library.edit_correct [OF assms(1-3), of "\<lambda>d. Ok (attr_edit m u g atime mtime d)", OF this] obtain v1 v' where e:
    "v_begin v = (Ok (next_txid (v_tx v)), v1)" "inode_read E ino v1 = (Ok i, v1)"
    "st_bind (update_inode_page E ino (i_page_block i) (i_page_offset i) (\<lambda>d. Ok (attr_edit m u g atime mtime d)) v1) (\<lambda>_ v.
      st_bind (mark_page_dirty E ino (i_page_block i) v) (\<lambda>_ v. st_bind (v_commit E v) (\<lambda>_ v. (Ok (), v)))) = (Ok (), v')"
    "idle E valid n v'"
    "\<forall>j. inode_read E j v' = (case fst (inode_read E j v) of
       Ok k \<Rightarrow> Ok (if i_page_block k = i_page_block i \<and> i_page_offset k = i_page_offset i
                  then k\<lparr>i_dinode := attr_update m u g atime mtime (i_dinode i)\<rparr> else k)
     | r \<Rightarrow> r, v')" by blast
  then have "v_setattr E ino m u g atime mtime v = (Ok (), v')" by (simp add: v_setattr_def finish_def)
  with e(4,5) assms(3) show ?thesis by auto
qed

text \<open>
  The mask that keeps the file type drops the flag for inline extended attributes: after a change of the
  permissions it is off.
\<close>

lemma setattr_drops_flag: "mode (attr_update (Some m) u g atime mtime d) AND 0x00040000 = 0"
  by (simp add: attr_update_def mode_def bit.conj_disj_distrib2 and.assoc)

text \<open>
  What the call is documented to do: only the given attributes change. Of the mode the permission bits, the low twelve, are
  replaced and all others are kept; a time is stored in whole seconds of 32 bits.
\<close>

definition attr_spec :: "32 word option \<Rightarrow> 32 word option \<Rightarrow> 32 word option \<Rightarrow> nat option \<Rightarrow> nat option \<Rightarrow> dinode \<Rightarrow> dinode" where
  "attr_spec m u g atime mtime d = d
     \<lparr>di_mode := (case m of Some m \<Rightarrow> write_u32 ((mode d AND 0xfffff000) OR (m AND 0x0fff)) | None \<Rightarrow> di_mode d),
      di_uid := (case u of Some u \<Rightarrow> write_u32 u | None \<Rightarrow> di_uid d),
      di_gid := (case g of Some g \<Rightarrow> write_u32 g | None \<Rightarrow> di_gid d),
      di_atime := (case atime of Some ts \<Rightarrow> \<lparr>tv_sec = write_u32 (word_of_nat ts), tv_nsec = write_u32 0\<rparr> | None \<Rightarrow> di_atime d),
      di_mtime := (case mtime of Some ts \<Rightarrow> \<lparr>tv_sec = write_u32 (word_of_nat ts), tv_nsec = write_u32 0\<rparr> | None \<Rightarrow> di_mtime d)\<rparr>"

lemma attr_update_spec:
  assumes "m \<noteq> None \<Longrightarrow> mode d AND 0xffff = mode d"
  shows "attr_update m u g atime mtime d = attr_spec m u g atime mtime d"
proof (cases m)
  case (Some p)
  have "mode d AND 0xfffff000 = (mode d AND 0xffff) AND 0xfffff000" using assms Some by simp
  also have "\<dots> = mode d AND 0xf000" by (simp add: and.assoc)
  finally show ?thesis using Some by (simp add: attr_update_def attr_spec_def or.commute)
qed (simp add: attr_update_def attr_spec_def)

text \<open>
  C14. Setting attributes on a volume between operations with room for two log buffers succeeds and commits. The inode is read
  back with only the given attributes changed: the permission bits (all other bits of the mode are kept), the owner, the group,
  the times, and every other inode is as before. When permissions are given, the mode must hold nothing above its
  16 bits of type and permissions, that is, none of the JFS flags such as the one for inline extended attributes.
\<close>

theorem setattr_correct:
  assumes "library E valid" "idle E valid (n + 2) v" "inode_read E ino v = (Ok i, v)"
    "m \<noteq> None \<Longrightarrow> mode (i_dinode i) AND 0xffff = mode (i_dinode i)"
  shows "\<exists>v'. v_setattr E ino m u g atime mtime v = (Ok (), v') \<and> idle E valid n v' \<and>
    inode_read E ino v' = (Ok (i\<lparr>i_dinode := attr_spec m u g atime mtime (i_dinode i)\<rparr>), v') \<and>
    (\<forall>j k. inode_read E j v = (Ok k, v) \<and> (i_page_block k, i_page_offset k) \<noteq> (i_page_block i, i_page_offset i) \<longrightarrow>
       inode_read E j v' = (Ok k, v'))"
  using setattr_effect [OF assms(1-3), of m u g atime mtime] attr_update_spec [of m, OF assms(4)] by simp

theorem setattr_correct_witness:
  "\<exists>v' i'. v_setattr list_env 18 (Some 0x1ff) (Some 7) None None (Some 99) (demo_volume (demo_inode 0x81a4)) = (Ok (), v') \<and>
     inode_read list_env 18 v' = (Ok i', v') \<and> uid (i_dinode i') = 7 \<and> mode (i_dinode i') = 0x81ff"
proof -
  let ?d = "demo_inode 0x81a4"
  have d: "length (di_u ?d) = 384" "di_fileset ?d = write_u32 16" "di_number ?d = write_u32 2"
    by (simp_all add: demo_inode_def)
  from setattr_correct [OF lenv.library_axioms demo_idle [OF d(1), of "0 + 2"] demo_read [OF d], of "Some 0x1ff" "Some 7" None None "Some 99"]
  show ?thesis by (auto simp: attr_spec_def uid_def mode_def demo_inode_def)
qed

end
