(* ===== verification/Volume_Write.thy ===== *)
theory Volume_Write
  imports Volume_File
begin

text \<open>
  Writing over mapped blocks: what \<open>write_at\<close> does to the device and to the bytes of the file, proved against
  the byte-level reading of a file in \<open>Xtree_Read\<close>.
\<close>

section \<open>The blocks a write touches\<close>

text \<open>The data \<open>ds\<close> goes into the blocks \<open>as\<close> from byte \<open>cur\<close> of the first one; \<open>old\<close> gives the contents before.\<close>

fun block_writes :: "(nat \<Rightarrow> bytes) \<Rightarrow> bytes \<Rightarrow> nat \<Rightarrow> nat list \<Rightarrow> (nat \<times> bytes) list" where
  "block_writes old ds cur [] = []"
| "block_writes old ds cur (a # as) =
     (if ds = [] then []
      else
        let n = min (BLOCK_SIZE - cur) (length ds)
        in (a, splice cur (take n ds) (old a)) # block_writes old (drop n ds) 0 as)"

lemma block_writes_range:
  "(b, d) \<in> set (block_writes old ds cur as) \<Longrightarrow> (\<And>a. a \<in> set as \<Longrightarrow> length (old a) = BLOCK_SIZE) \<Longrightarrow> cur < BLOCK_SIZE \<Longrightarrow>
     b \<in> set as \<and> length d = BLOCK_SIZE"
proof (induction as arbitrary: ds cur)
  case (Cons a as)
  have p: "0 < BLOCK_SIZE" by (simp add: block_size_defs)
  from Cons.prems(1) consider "b = a" "d = splice cur (take (min (BLOCK_SIZE - cur) (length ds)) ds) (old a)"
    | "(b, d) \<in> set (block_writes old (drop (min (BLOCK_SIZE - cur) (length ds)) ds) 0 as)"
    by (auto simp: Let_def split: if_splits)
  then show ?case
  proof cases
    case 1
    then show ?thesis using Cons.prems(2) [of a] Cons.prems(3) by simp
  next
    case 2
    from Cons.IH [OF 2 _ p] Cons.prems(2) show ?thesis by simp
  qed
qed simp

lemma block_writes_key: "(b, d) \<in> set (block_writes old ds cur as) \<Longrightarrow> b \<in> set as"
  by (induction old ds cur as rule: block_writes.induct) (auto simp: Let_def split: if_splits)

lemma block_writes_keys: "distinct as \<Longrightarrow> distinct (map fst (block_writes old ds cur as))"
  by (induction old ds cur as rule: block_writes.induct) (auto simp: Let_def dest: block_writes_key)

lemma block_writes_none:
  "a \<notin> set as \<Longrightarrow> map_of (block_writes old ds cur as) a = None"
  "a \<notin> set as \<Longrightarrow> map_of (rev (block_writes old ds cur as)) a = None"
  by (auto simp: map_of_eq_None_iff dest: block_writes_key)

lemma map_of_rev_distinct: "distinct (map fst xs) \<Longrightarrow> map_of (rev xs) = map_of xs"
  by (rule map_of_eqI) (auto simp: rev_map [symmetric] map_of_eq_Some_iff)

text \<open>Byte \<open>j\<close> of the \<open>k\<close>-th block afterwards.\<close>

lemma block_writes_byte:
  assumes "distinct as" "\<And>a. a \<in> set as \<Longrightarrow> length (old a) = BLOCK_SIZE" "cur < BLOCK_SIZE" "k < length as" "j < BLOCK_SIZE"
  shows "(case map_of (block_writes old ds cur as) (as ! k) of Some d \<Rightarrow> d | None \<Rightarrow> old (as ! k)) ! j =
    (if cur \<le> k * BLOCK_SIZE + j \<and> k * BLOCK_SIZE + j < cur + length ds then ds ! (k * BLOCK_SIZE + j - cur)
     else old (as ! k) ! j)"
  using assms
proof (induction as arbitrary: ds cur k)
  case (Cons a as)
  let ?n = "min (BLOCK_SIZE - cur) (length ds)"
  have p: "0 < BLOCK_SIZE" by (simp add: block_size_defs)
  have notin: "map_of (block_writes old ds' 0 as) a = None" for ds'
    using Cons.prems(1) block_writes_range [of a _ old ds' 0 as] Cons.prems(2) p
    by (auto simp: map_of_eq_None_iff image_iff)
  show ?case
  proof (cases "ds = []")
    case False
    show ?thesis
    proof (cases k)
      case 0
      have "splice cur (take ?n ds) (old a) ! j = (if cur \<le> j \<and> j < cur + length ds then ds ! (j - cur) else old a ! j)"
        using Cons.prems(2) [of a] Cons.prems(3,5) by (subst nth_splice) (auto simp: min_def)
      then show ?thesis using False 0 by (simp add: Let_def)
    next
      case (Suc k')
      then have ne: "as ! k' \<noteq> a" using Cons.prems(1,4) by auto
      define es where "es = drop ?n ds"
      have IH: "(case map_of (block_writes old es 0 as) (as ! k') of Some d \<Rightarrow> d | None \<Rightarrow> old (as ! k')) ! j =
          (if k' * BLOCK_SIZE + j < length es then es ! (k' * BLOCK_SIZE + j) else old (as ! k') ! j)"
        using Cons.IH [of 0 k' es] Cons.prems p Suc by simp
      have le: "length es = length ds - ?n" by (simp add: es_def)
      have "k' * BLOCK_SIZE + j < length ds - ?n \<longleftrightarrow> cur \<le> k * BLOCK_SIZE + j \<and> k * BLOCK_SIZE + j < cur + length ds"
        using Cons.prems(3) by (auto simp: Suc min_def)
      moreover have "es ! (k' * BLOCK_SIZE + j) = ds ! (k * BLOCK_SIZE + j - cur)"
        if "k' * BLOCK_SIZE + j < length ds - ?n"
      proof -
        have "?n = BLOCK_SIZE - cur" using that by (simp add: min_def split: if_splits)
        then show ?thesis using Cons.prems(3) that by (simp add: es_def Suc add.commute add.left_commute)
      qed
      moreover have nth: "(a # as) ! k = as ! k'" by (simp add: Suc)
      ultimately show ?thesis using IH False ne le unfolding nth by (simp add: Let_def flip: es_def)
    qed
  qed auto
qed simp

section \<open>The loops of the write\<close>

definition advanced :: "nat \<Rightarrow> write_state \<Rightarrow> write_state \<Rightarrow> bool" where
  "advanced m st st' \<longleftrightarrow> ws_data_pos st' = ws_data_pos st + m \<and> ws_remaining st' = ws_remaining st - m \<and>
     ws_written st' = ws_written st + m \<and> ws_xtree st' = ws_xtree st \<and> ws_mod st' = ws_mod st"

lemma advanced_trans: "advanced m st st1 \<Longrightarrow> advanced k st1 st2 \<Longrightarrow> advanced (m + k) st st2"
  by (simp add: advanced_def)

lemma advanced_simps [simp]:
  "advanced m (st\<lparr>ws_polls := x\<rparr>) st' \<longleftrightarrow> advanced m st st'"
  "advanced m st (st'\<lparr>ws_next := y\<rparr>) \<longleftrightarrow> advanced m st st'"
  "advanced m st (ws_step m (st\<lparr>ws_polls := x\<rparr>))"
  by (simp_all add: advanced_def ws_step_def)

lemma disk_block_peek: "peek_block s b = Ok d \<Longrightarrow> disk_block s b = d"
  by (simp add: disk_block_def peek_block_def)

lemma write_old_blocks:
  assumes "st_ok s" "addr + n \<le> size_blocks s" "\<And>a. addr \<le> a \<Longrightarrow> a < addr + n \<Longrightarrow> old a = disk_block s a"
    "ws_data_pos st + ws_remaining st = length data" "ws_cur st < BLOCK_SIZE"
  shows "\<exists>st' s'. write_old (\<lambda>_. Ok ()) data addr n st s = (Ok st', s') \<and>
    write_seq write_block s (block_writes old (drop (ws_data_pos st) data) (ws_cur st) [addr..<addr + n]) = (Ok (), s') \<and>
    advanced (min (ws_remaining st) (n * BLOCK_SIZE - ws_cur st)) st st' \<and> ws_next st' = ws_next st \<and>
    ws_cur st' = (if n = 0 \<or> ws_remaining st = 0 then ws_cur st else 0)"
  using assms
proof (induction n arbitrary: addr st s)
  case 0
  then show ?case by (simp add: advanced_def)
next
  case (Suc n)
  define st1 where "st1 = st\<lparr>ws_polls := ws_polls st + 1\<rparr>"
  have p: "poll (\<lambda>_. Ok ()) st s = (Ok st1, s)" by (simp add: poll_def st1_def)
  have upt: "[addr..<addr + Suc n] = addr # [addr + 1..<addr + 1 + n]" by (simp add: upt_rec)
  show ?case
  proof (cases "ws_remaining st = 0")
    case True
    then have "drop (ws_data_pos st) data = []" using Suc.prems(4) by simp
    then show ?thesis using True p unfolding upt by (simp add: st1_def advanced_def)
  next
    case False
    let ?ds = "drop (ws_data_pos st) data" and ?cur = "ws_cur st"
    let ?n = "min (BLOCK_SIZE - ?cur) (ws_remaining st)"
    have len: "length ?ds = ws_remaining st" using Suc.prems(4) by simp
    then have ne: "?ds \<noteq> []" using False by auto
    from dev.read_total [OF Suc.prems(1), of addr] Suc.prems(2) obtain d where
      d: "peek_block s addr = Ok d" "length d = BLOCK_SIZE" by auto
    then have old: "old addr = d" using Suc.prems(3) [of addr] disk_block_peek by auto
    define d' where "d' = splice ?cur (take ?n ?ds) d"
    have d': "length d' = BLOCK_SIZE" using d(2) Suc.prems(5) len by (simp add: d'_def min_def)
    have a: "addr < size_blocks s" using Suc.prems(2) by simp
    from dev.write_total [OF Suc.prems(1) a d'] obtain s1 where
      s1: "write_block s addr d' = (Ok (), s1)" "st_ok s1" "size_blocks s1 = size_blocks s" by blast
    have keep: "disk_block s1 a = disk_block s a" if "a \<noteq> addr" for a
      using dev.read_other [OF Suc.prems(1) _ d' s1(1) that] Suc.prems(2) by (simp add: disk_block_def peek_block_def)
    have sl: "slice (ws_data_pos st) (ws_data_pos st + ?n) data = take ?n ?ds" by (simp add: slice_def)
    define st2 where "st2 = ws_step ?n st1"
    have "\<exists>st' s'. write_old (\<lambda>_. Ok ()) data (addr + 1) n st2 s1 = (Ok st', s') \<and>
      write_seq write_block s1 (block_writes old (drop (ws_data_pos st2) data) (ws_cur st2) [addr + 1..<addr + 1 + n]) = (Ok (), s') \<and>
      advanced (min (ws_remaining st2) (n * BLOCK_SIZE - ws_cur st2)) st2 st' \<and> ws_next st' = ws_next st2 \<and>
      ws_cur st' = (if n = 0 \<or> ws_remaining st2 = 0 then ws_cur st2 else 0)"
      using Suc.prems s1 keep by (intro Suc.IH) (auto simp: st2_def ws_step_def st1_def block_size_defs)
    then obtain st' s' where IH: "write_old (\<lambda>_. Ok ()) data (addr + 1) n st2 s1 = (Ok st', s')"
      "write_seq write_block s1 (block_writes old (drop (ws_data_pos st2) data) (ws_cur st2) [addr + 1..<addr + 1 + n]) = (Ok (), s')"
      "advanced (min (ws_remaining st2) (n * BLOCK_SIZE - ws_cur st2)) st2 st'" "ws_next st' = ws_next st2"
      "ws_cur st' = (if n = 0 \<or> ws_remaining st2 = 0 then ws_cur st2 else 0)" by blast
    have bounds: "\<not> length d < ?cur + ?n" "\<not> length data < ws_data_pos st + ?n"
      using d(2) Suc.prems(4,5) by (auto simp: min_def)
    have "write_old (\<lambda>_. Ok ()) data addr (Suc n) st s = (Ok st', s')"
      using False p d(1) Suc.prems(1) bounds s1(1) IH(1) sl
      by (simp add: st1_def [symmetric]) (simp add: st1_def Let_def d'_def st2_def)
    moreover have "write_seq write_block s (block_writes old ?ds ?cur [addr..<addr + Suc n]) = (Ok (), s')"
      unfolding upt using ne s1(1) IH(2) old len by (simp add: Let_def d'_def st2_def ws_step_def st1_def add.commute)
    moreover have "advanced (min (ws_remaining st) (Suc n * BLOCK_SIZE - ?cur)) st st'"
    proof -
      have "ws_remaining st2 = ws_remaining st - ?n" "ws_cur st2 = 0" by (simp_all add: st2_def ws_step_def st1_def)
      moreover have "?n + min (ws_remaining st - ?n) (n * BLOCK_SIZE) = min (ws_remaining st) (Suc n * BLOCK_SIZE - ?cur)"
        unfolding mult_Suc using Suc.prems(5) by linarith
      moreover have "advanced ?n st st2" by (simp add: st2_def st1_def)
      ultimately show ?thesis using advanced_trans [OF _ IH(3), of ?n st] by simp
    qed
    moreover have "ws_next st' = ws_next st" "ws_cur st' = 0" using IH(4,5) by (simp_all add: st2_def ws_step_def st1_def)
    ultimately show ?thesis using False by auto
  qed
qed

lemma block_writes_append:
  "as \<noteq> [] \<Longrightarrow> cur < BLOCK_SIZE \<Longrightarrow>
     block_writes old ds cur (as @ bs) = block_writes old ds cur as @ block_writes old (drop (length as * BLOCK_SIZE - cur) ds) 0 bs"
proof (induction as arbitrary: ds cur)
  case (Cons a as)
  have p: "0 < BLOCK_SIZE" by (simp add: block_size_defs)
  have nil: "block_writes old [] c xs = []" for c xs by (cases xs) simp_all
  have n: "drop (min (BLOCK_SIZE - cur) (length ds)) ds = drop (BLOCK_SIZE - cur) ds" by (simp add: min_def)
  show ?case
  proof (cases "as = []")
    case True
    then show ?thesis using n by (auto simp: nil Let_def)
  next
    case False
    have "length as * BLOCK_SIZE + (BLOCK_SIZE - cur) = length (a # as) * BLOCK_SIZE - cur" using Cons.prems(2) by simp
    then show ?thesis using Cons.IH [OF False p, of "drop (BLOCK_SIZE - cur) ds"] n by (auto simp: nil Let_def add.commute)
  qed
qed simp

lemma block_writes_Nil [simp]: "block_writes old [] cur as = []"
  by (cases as) simp_all

text \<open>The write sequence of a list of blocks on the device.\<close>

lemma block_writes_effect:
  assumes "st_ok s" "\<And>a. a \<in> set as \<Longrightarrow> a < size_blocks s" "cur < BLOCK_SIZE"
  shows "\<exists>s'. write_seq write_block s (block_writes (disk_block s) ds cur as) = (Ok (), s') \<and> st_ok s' \<and>
    size_blocks s' = size_blocks s \<and>
    (\<forall>c. peek_block s' c = (case map_of (rev (block_writes (disk_block s) ds cur as)) c of Some d \<Rightarrow> Ok d | None \<Rightarrow> peek_block s c))"
proof -
  have "length (disk_block s a) = BLOCK_SIZE" if "a \<in> set as" for a
    using dev.read_total [OF assms(1) assms(2) [OF that]] by (auto simp: disk_block_def peek_block_def)
  with assms(2,3) show ?thesis
    by (intro dev.write_seq_last_wins [OF assms(1)]) (use block_writes_range in blast)
qed

lemma block_writes_cong:
  "(\<And>a. a \<in> set as \<Longrightarrow> old a = old' a) \<Longrightarrow> block_writes old ds cur as = block_writes old' ds cur as"
  by (induction as arbitrary: ds cur) (simp_all add: Let_def)

definition run_addrs :: "(nat \<times> nat) list \<Rightarrow> nat list" where
  "run_addrs runs = concat (map (\<lambda>(a, n). [a..<a + n]) runs)"

lemma run_addrs_simps [simp]: "run_addrs [] = []" "run_addrs ((a, n) # runs) = [a..<a + n] @ run_addrs runs"
  by (simp_all add: run_addrs_def)

lemma write_seq_append:
  "write_seq wr s (xs @ ys) = st_bind (write_seq wr s xs) (\<lambda>_ s'. write_seq wr s' ys)"
  by (induction xs arbitrary: s) (auto simp: st_bind_assoc)

lemma write_extents_blocks:
  assumes "st_ok (v_storage v)" "\<And>a. a \<in> set (run_addrs runs) \<Longrightarrow> a < size_blocks (v_storage v)"
    "list_all (\<lambda>(a, n). a \<noteq> 0 \<and> 0 < n) runs" "distinct (run_addrs runs)"
    "ws_data_pos st + ws_remaining st = length data" "ws_cur st < BLOCK_SIZE"
  shows "\<exists>st' s'. write_extents (\<lambda>_. Ok ()) data runs st v = (Ok st', v\<lparr>v_storage := s'\<rparr>) \<and>
    write_seq write_block (v_storage v)
      (block_writes (disk_block (v_storage v)) (drop (ws_data_pos st) data) (ws_cur st) (run_addrs runs)) = (Ok (), s') \<and>
    advanced (min (ws_remaining st) (length (run_addrs runs) * BLOCK_SIZE - ws_cur st)) st st'"
  using assms
proof (induction runs arbitrary: st v)
  case Nil
  then show ?case by (simp add: advanced_def)
next
  case (Cons run runs)
  obtain a n where run: "run = (a, n)" by (cases run)
  have an: "a \<noteq> 0" "0 < n" using Cons.prems(3) by (simp_all add: run)
  define st1 where "st1 = st\<lparr>ws_polls := ws_polls st + 1\<rparr>"
  have p: "poll (\<lambda>_. Ok ()) st v = (Ok st1, v)" by (simp add: poll_def st1_def)
  let ?s = "v_storage v" and ?ds = "drop (ws_data_pos st) data" and ?cur = "ws_cur st"
  have len: "length ?ds = ws_remaining st" using Cons.prems(5) by simp
  show ?case
  proof (cases "ws_remaining st = 0")
    case True
    then have "?ds = []" using len by simp
    then show ?thesis using True p by (simp add: run st1_def advanced_def)
  next
    case False
    have "a + (n - 1) \<in> set (run_addrs (run # runs))" using an by (auto simp: run)
    then have sz: "a + n \<le> size_blocks ?s" using Cons.prems(2) [of "a + (n - 1)"] an by simp
    from write_old_blocks [OF Cons.prems(1) sz, of "disk_block ?s" st1 data] Cons.prems(5,6) obtain st2 s1 where
      w: "write_old (\<lambda>_. Ok ()) data a n st1 ?s = (Ok st2, s1)"
      "write_seq write_block ?s (block_writes (disk_block ?s) ?ds ?cur [a..<a + n]) = (Ok (), s1)"
      "advanced (min (ws_remaining st) (n * BLOCK_SIZE - ?cur)) st1 st2" "ws_cur st2 = 0"
      using an False by (auto simp: st1_def)
    have sub: "c < size_blocks ?s" if "c \<in> set [a..<a + n]" for c using that sz by simp
    from block_writes_effect [OF Cons.prems(1) sub Cons.prems(6), of "[a..<a + n]" ?ds] w(2) have
      s1: "st_ok s1" "size_blocks s1 = size_blocks ?s"
      "\<And>c. peek_block s1 c = (case map_of (rev (block_writes (disk_block ?s) ?ds ?cur [a..<a + n])) c of Some d \<Rightarrow> Ok d | None \<Rightarrow> peek_block ?s c)"
      by auto
    have keep: "disk_block s1 c = disk_block ?s c" if "c \<in> set (run_addrs runs)" for c
    proof -
      have "c \<notin> set [a..<a + n]" using that Cons.prems(4) by (auto simp: run)
      then have "map_of (rev (block_writes (disk_block ?s) ?ds ?cur [a..<a + n])) c = None"
        by (rule block_writes_none)
      then show ?thesis using s1(3) [of c] by (simp add: disk_block_def peek_block_def)
    qed
    define st3 where "st3 = st2\<lparr>ws_next := ws_next st2 + n\<rparr>"
    let ?v = "v\<lparr>v_storage := s1\<rparr>"
    have adv: "ws_data_pos st3 = ws_data_pos st + min (ws_remaining st) (n * BLOCK_SIZE - ?cur)"
      "ws_remaining st3 = ws_remaining st - min (ws_remaining st) (n * BLOCK_SIZE - ?cur)" "ws_cur st3 = 0"
      using w(3,4) by (simp_all add: st3_def advanced_def st1_def)
    have "\<exists>st' s'. write_extents (\<lambda>_. Ok ()) data runs st3 ?v = (Ok st', ?v\<lparr>v_storage := s'\<rparr>) \<and>
      write_seq write_block (v_storage ?v) (block_writes (disk_block (v_storage ?v)) (drop (ws_data_pos st3) data) (ws_cur st3) (run_addrs runs)) = (Ok (), s') \<and>
      advanced (min (ws_remaining st3) (length (run_addrs runs) * BLOCK_SIZE - ws_cur st3)) st3 st'"
      using Cons.prems s1 adv by (intro Cons.IH) (auto simp: run block_size_defs)
    then obtain st' s' where IH: "write_extents (\<lambda>_. Ok ()) data runs st3 ?v = (Ok st', v\<lparr>v_storage := s'\<rparr>)"
      "write_seq write_block s1 (block_writes (disk_block s1) (drop (ws_data_pos st3) data) 0 (run_addrs runs)) = (Ok (), s')"
      "advanced (min (ws_remaining st3) (length (run_addrs runs) * BLOCK_SIZE)) st3 st'"
      using adv(3) by auto
    have "write_extents (\<lambda>_. Ok ()) data (run # runs) st v = (Ok st', v\<lparr>v_storage := s'\<rparr>)"
      using p False an w(1) IH(1)
      by (simp add: run st1_def [symmetric] write_extent_def write_run_def skip_hole_def on_storage_def st3_def)
        (simp add: st1_def)
    moreover have "write_seq write_block ?s (block_writes (disk_block ?s) ?ds ?cur (run_addrs (run # runs))) = (Ok (), s')"
    proof -
      have dd: "drop (n * BLOCK_SIZE - ?cur) ?ds = drop (ws_data_pos st3) data"
        using adv(1) len by (simp add: min_def add.commute)
      have "block_writes (disk_block ?s) ?ds ?cur (run_addrs (run # runs)) = block_writes (disk_block ?s) ?ds ?cur [a..<a + n] @
          block_writes (disk_block s1) (drop (ws_data_pos st3) data) 0 (run_addrs runs)"
        using block_writes_append [of "[a..<a + n]" ?cur "disk_block ?s" ?ds "run_addrs runs"] an Cons.prems(6) dd
          block_writes_cong [of "run_addrs runs" "disk_block s1" "disk_block ?s"] keep by (simp add: run)
      then show ?thesis using w(2) IH(2) by (simp add: write_seq_append)
    qed
    moreover have "advanced (min (ws_remaining st) (length (run_addrs (run # runs)) * BLOCK_SIZE - ?cur)) st st'"
    proof -
      have c: "?cur \<le> n * BLOCK_SIZE" using Cons.prems(6) an by (cases n) auto
      let ?m = "min (ws_remaining st) (n * BLOCK_SIZE - ?cur)" and ?k = "length (run_addrs runs) * BLOCK_SIZE"
      have "advanced ?m st st3" using w(3) by (simp add: st3_def st1_def)
      from advanced_trans [OF this IH(3)] have "advanced (?m + min (ws_remaining st - ?m) ?k) st st'" unfolding adv(2) .
      moreover have "?m + min (ws_remaining st - ?m) ?k = min (ws_remaining st) (n * BLOCK_SIZE - ?cur + ?k)" by linarith
      moreover have "n * BLOCK_SIZE - ?cur + ?k = length (run_addrs (run # runs)) * BLOCK_SIZE - ?cur"
        using c by (simp add: run add_mult_distrib)
      ultimately show ?thesis by simp
    qed
    ultimately show ?thesis by blast
  qed
qed

section \<open>Writing over the mapped blocks of a file\<close>

lemma map_blocks_mapped:
  assumes "validate r" "zero_free r" "\<And>b. c \<le> b \<Longrightarrow> b < e \<Longrightarrow> xmap r b \<noteq> None"
  shows "run_addrs (map_blocks_loop r c e) = map (\<lambda>b. the (xmap r b)) [c..<e] \<and>
    list_all (\<lambda>(a, n). a \<noteq> 0 \<and> 0 < n) (map_blocks_loop r c e)"
  using assms
proof (induction r c e rule: map_blocks_loop.induct)
  case (1 r c e)
  show ?case
  proof (cases "c < e")
    case True
    then obtain x where x: "lookup r c = Some x" using "1.prems"(3) [of c] lookup_xmap_None by force
    let ?rel = "c - nat (e_offset x)"
    let ?tk = "min (e_length x - ?rel) (e - c)"
    have tk: "0 < ?tk" using lookup_Some_rel [OF x] True by simp
    have m: "xmap r (c + j) = Some (e_address x + ?rel + j)" if "j < ?tk" for j
      using that by (intro lookup_run [OF "1.prems"(1) x]) simp
    have "map (\<lambda>b. the (xmap r b)) [c..<c + ?tk] = [e_address x + ?rel..<e_address x + ?rel + ?tk]"
      using m by (intro nth_equalityI) simp_all
    moreover have "[c..<e] = [c..<c + ?tk] @ [c + ?tk..<e]"
      using upt_add_eq_append [of c "c + ?tk" "e - (c + ?tk)"] True by simp
    moreover note "1.IH" [OF True x refl refl refl "1.prems"(1,2)]
    moreover have "e_address x \<noteq> 0" using zero_free_lookup [OF "1.prems"(2) x] .
    moreover have "map_blocks_loop r c e = (e_address x + ?rel, ?tk) # map_blocks_loop r (c + ?tk) e"
      using True x by (subst map_blocks_loop.simps) (simp add: Let_def)
    ultimately show ?thesis using tk "1.prems"(3) by simp
  next
    case False
    then have "map_blocks_loop r c e = []" by (subst map_blocks_loop.simps) simp
    then show ?thesis using False by simp
  qed
qed

text \<open>No two blocks of the file share a disk block.\<close>

definition one_to_one :: "xtroot \<Rightarrow> bool" where
  "one_to_one r \<longleftrightarrow> (\<forall>b c. xmap r b \<noteq> None \<and> xmap r b = xmap r c \<longrightarrow> b = c)"

lemma one_to_one_distinct:
  assumes "one_to_one r" "\<And>b. f \<le> b \<Longrightarrow> b < e \<Longrightarrow> xmap r b \<noteq> None"
  shows "distinct (map (\<lambda>b. the (xmap r b)) [f..<e])"
proof -
  have "inj_on (\<lambda>b. the (xmap r b)) {f..<e}"
  proof (rule inj_onI)
    fix x y assume xy: "x \<in> {f..<e}" "y \<in> {f..<e}" "the (xmap r x) = the (xmap r y)"
    with assms(2) [of x] assms(2) [of y] have "xmap r x \<noteq> None" "xmap r x = xmap r y" by auto
    with assms(1) show "x = y" by (auto simp: one_to_one_def)
  qed
  then show ?thesis by (simp add: distinct_map)
qed

text \<open>The bytes of the file after its blocks from \<open>off\<close> on have been rewritten.\<close>

lemma file_byte_written:
  assumes "st_ok s" "extents_on s r" "one_to_one r" "\<And>b. off div BLOCK_SIZE \<le> b \<Longrightarrow> b < off div BLOCK_SIZE + cnt \<Longrightarrow> xmap r b \<noteq> None"
    "length data + off mod BLOCK_SIZE \<le> cnt * BLOCK_SIZE"
    "write_seq write_block s (block_writes (disk_block s) data (off mod BLOCK_SIZE)
       (map (\<lambda>b. the (xmap r b)) [off div BLOCK_SIZE..<off div BLOCK_SIZE + cnt])) = (Ok (), s')"
  shows "file_byte r s' p = (if off \<le> p \<and> p < off + length data then data ! (p - off) else file_byte r s p)"
proof -
  let ?B = "BLOCK_SIZE" and ?f = "off div BLOCK_SIZE" and ?cur = "off mod BLOCK_SIZE" and ?b = "p div BLOCK_SIZE" and ?j = "p mod BLOCK_SIZE"
  let ?as = "map (\<lambda>b. the (xmap r b)) [?f..<?f + cnt]"
  have B: "0 < ?B" by (simp add: block_size_defs)
  have off: "off = ?f * ?B + ?cur" and p: "p = ?b * ?B + ?j" by simp_all
  have d: "distinct ?as" by (rule one_to_one_distinct [OF assms(3,4)])
  have in_r: "a < size_blocks s" if "a \<in> set ?as" for a
  proof -
    from that obtain b where b: "?f \<le> b" "b < ?f + cnt" "a = the (xmap r b)" by auto
    with assms(4) have "xmap r b = Some a" by auto
    then have "seen_from r b b = Some a" by (simp add: seen_from_def)
    with seen_on [OF assms(2)] show ?thesis .
  qed
  have len: "length (disk_block s a) = ?B" if "a \<in> set ?as" for a
    using dev.read_total [OF assms(1) in_r [OF that]] by (auto simp: disk_block_def peek_block_def)
  note keys = block_writes_keys [OF d, of "disk_block s" data ?cur]
  from block_writes_effect [of s ?as ?cur data, OF assms(1) in_r] assms(6) B have
    rd: "peek_block s' c = (case map_of (block_writes (disk_block s) data ?cur ?as) c of Some d \<Rightarrow> Ok d | None \<Rightarrow> peek_block s c)" for c
    using map_of_rev_distinct [OF keys] by auto
  have blk: "disk_block s' c = (case map_of (block_writes (disk_block s) data ?cur ?as) c of Some d \<Rightarrow> d | None \<Rightarrow> disk_block s c)" for c
    using rd [of c] by (simp add: disk_block_def peek_block_def split: option.splits)
  show ?thesis
  proof (cases "?f \<le> ?b \<and> ?b < ?f + cnt")
    case True
    then obtain k where kb: "?b = ?f + k" using le_Suc_ex by blast
    from True assms(4) obtain a where a: "xmap r ?b = Some a" by blast
    have k: "k < length ?as" "?as ! k = a" using True a by (simp_all add: kb)
    have e: "k * ?B + ?j + off = p + ?cur"
      by (subst off, subst (2) p, simp only: kb add_mult_distrib)
    then have c: "?cur \<le> k * ?B + ?j \<and> k * ?B + ?j < ?cur + length data \<longleftrightarrow> off \<le> p \<and> p < off + length data"
      and i: "off \<le> p \<Longrightarrow> k * ?B + ?j - ?cur = p - off" by linarith+
    have "disk_block s' a ! ?j = (if off \<le> p \<and> p < off + length data then data ! (p - off) else disk_block s a ! ?j)"
      using block_writes_byte [of ?as "disk_block s" ?cur k ?j data, OF d len _ k(1)] B c i unfolding blk k(2) by auto
    then show ?thesis using a by (simp add: file_byte_def view_block_def)
  next
    case False
    have "\<not> (off \<le> p \<and> p < off + length data)"
    proof
      assume *: "off \<le> p \<and> p < off + length data"
      then have "?f \<le> ?b" by (simp add: div_le_mono)
      moreover have "p < (?f + cnt) * ?B" using * assms(5) off unfolding add_mult_distrib by linarith
      then have "?b < ?f + cnt" using B by (simp add: less_mult_imp_div_less)
      ultimately show False using False by simp
    qed
    moreover have "view_block s' (xmap r ?b) = view_block s (xmap r ?b)"
    proof (cases "xmap r ?b")
      case (Some a)
      have "a \<notin> set ?as"
      proof
        assume "a \<in> set ?as"
        then obtain b where b: "?f \<le> b" "b < ?f + cnt" "a = the (xmap r b)" by auto
        with assms(4) have "xmap r b = Some a" by auto
        then have "b = ?b" using assms(3) Some by (auto simp: one_to_one_def)
        with b False show False by simp
      qed
      then have "map_of (block_writes (disk_block s) data ?cur ?as) a = None"
        by (rule block_writes_none)
      then show ?thesis using Some blk [of a] by (simp add: view_block_def)
    qed (simp add: view_block_def)
    ultimately show ?thesis unfolding file_byte_def by auto
  qed
qed

section \<open>The commit of a write\<close>

context library
begin

text \<open>A write inside the file marks the inode page dirty without having it in the cache: the commit writes no page.\<close>

lemma commit_untouched:
  assumes "quiet E valid v" "active (v_tx v) = Some a" "at_dirty_pages a = []" "log_fits (k + 2) (v_log v) (v_storage v)"
    "\<And>m. v_bmap v = Some m \<Longrightarrow> dirty_pages m = {} \<and> dmap_start m < size_blocks (v_storage v)"
  shows "\<exists>r v'. st_bind (mark_page_dirty E ino b v) (\<lambda>_ v. v_commit E v) = (Ok r, v') \<and> commits_to E valid (k + 2) k Map.empty v v'"
proof -
  let ?L = "e_lru E" and ?a = "a\<lparr>at_dirty_pages := [(ino, b)]\<rparr>"
  have ok: "st_ok (v_storage v)" and va: "valid (cache (v_cache v))" and emp: "lru_peek ?L (cache (v_cache v)) = Map.empty"
    using assms(1) quiet_peek by (auto simp: quiet_def)
  define c1 where "c1 = (v_cache v)\<lparr>cache := lru_get_mut ?L (cache (v_cache v)) (ino, b) (cp_mark_dirty_txn (at_txid a))\<rparr>"
  let ?v = "v\<lparr>v_tx := (v_tx v)\<lparr>active := Some ?a\<rparr>, v_cache := c1\<rparr>"
  have m: "mark_page_dirty E ino b v = (Ok (), ?v)"
    using assms(2,3) by (simp add: mark_page_dirty_def tx_mark_dirty_def cache_mark_dirty_txn_def c1_def)
  have c1: "valid (cache c1)" "\<And>j x. cache_peek ?L c1 j x = None"
    using get_mut_law [OF va, of "(ino, b)" "cp_mark_dirty_txn (at_txid a)"] emp by (auto simp: c1_def cache_peek_def)
  from v_commit_pages [of ?v ?a k] ok c1 assms(4,5) obtain r v' where
    "v_commit E ?v = (Ok r, v')" "commits_to E valid (k + 2) k Map.empty ?v v'"
    by (auto simp: images_def)
  with m show ?thesis by (auto simp: commits_to_def map_block_def)
qed

text \<open>Both ways a write ends: with the new size stored in the inode, or with the inode as it was.\<close>

lemma write_tail:
  assumes "quiet E valid v" "active (v_tx v) = Some a" "at_dirty_pages a = []" "log_fits (k + 2) (v_log v) (v_storage v)"
    "b < size_blocks (v_storage v)" "peek_block (v_storage v) b = Ok data" "off + DISIZE \<le> length data"
    "g \<Longrightarrow> f (slice off (off + DISIZE) data) = Ok d'" "length d' = DISIZE" "\<not> g \<Longrightarrow> d' = slice off (off + DISIZE) data"
    "\<And>m. v_bmap v = Some m \<Longrightarrow> dirty_pages m = {} \<and> dmap_start m < size_blocks (v_storage v)"
    "i_ino i = ino" "i_page_block i = b" "i_page_offset i = off" "b \<notin> log_range (k + 2) (v_log v)"
  shows "\<exists>r v'. st_bind (update_if g E i f v) (\<lambda>_ v. st_bind (mark_page_dirty E ino b v) (\<lambda>_ v. v_commit E v)) = (Ok r, v') \<and>
    commits_to E valid (k + 2) k [b \<mapsto> splice off d' data] v v'"
proof (cases g)
  case True
  with edit_commit [of v a k b data off f d' ino, OF assms(1-7) assms(8) [OF True] assms(9,11)] assms(12-14) show ?thesis
    by (simp add: update_if_def)
next
  case False
  have sp: "splice off d' data = data" using assms(7,10) False by (simp add: splice_slice)
  from commit_untouched [of v a k ino b, OF assms(1-4,11)] obtain r v' where
    e: "st_bind (mark_page_dirty E ino b v) (\<lambda>_ v. v_commit E v) = (Ok r, v')" "commits_to E valid (k + 2) k Map.empty v v'"
    by blast
  have "commits_to E valid (k + 2) k [b \<mapsto> splice off d' data] v v'"
    using e(2) assms(6,15) sp by (auto simp: commits_to_def)
  then show ?thesis using False e(1) by (auto simp: update_if_def)
qed

end

section \<open>Writing over mapped blocks\<close>

text \<open>
  The data blocks of the file are neither in the inode table, nor the descriptor of the allocation map, nor in the
  next \<open>k\<close> buffers of the log.
\<close>

definition data_apart :: "nat \<Rightarrow> 'c volume \<Rightarrow> xtroot \<Rightarrow> bool" where
  "data_apart k v r \<longleftrightarrow> (\<forall>b a. xmap r b = Some a \<longrightarrow> a \<notin> table_blocks v \<union> map_block v \<union> log_range k (v_log v))"

lemma write_count:
  assumes "n + off mod BLOCK_SIZE + BLOCK_SIZE < 2 ^ 44"
  shows "(n + off mod BLOCK_SIZE + BLOCK_SIZE - 1) div BLOCK_SIZE mod 2 ^ 32 = (off + n + BLOCK_SIZE - 1) div BLOCK_SIZE - off div BLOCK_SIZE"
    "off div BLOCK_SIZE \<le> (off + n + BLOCK_SIZE - 1) div BLOCK_SIZE"
    "n + off mod BLOCK_SIZE \<le> ((off + n + BLOCK_SIZE - 1) div BLOCK_SIZE - off div BLOCK_SIZE) * BLOCK_SIZE"
proof -
  have e: "off + n + BLOCK_SIZE - 1 = off div BLOCK_SIZE * BLOCK_SIZE + (n + off mod BLOCK_SIZE + BLOCK_SIZE - 1)"
    by (simp add: block_size_defs)
  have c: "(off + n + BLOCK_SIZE - 1) div BLOCK_SIZE = off div BLOCK_SIZE + (n + off mod BLOCK_SIZE + BLOCK_SIZE - 1) div BLOCK_SIZE"
    unfolding e by (rule div_mult_self3) (simp add: block_size_defs)
  have "(n + off mod BLOCK_SIZE + BLOCK_SIZE - 1) div BLOCK_SIZE < 2 ^ 32"
    using assms by (simp add: block_size_defs less_mult_imp_div_less)
  then show "(n + off mod BLOCK_SIZE + BLOCK_SIZE - 1) div BLOCK_SIZE mod 2 ^ 32 = (off + n + BLOCK_SIZE - 1) div BLOCK_SIZE - off div BLOCK_SIZE"
    "off div BLOCK_SIZE \<le> (off + n + BLOCK_SIZE - 1) div BLOCK_SIZE" using c by simp_all
  show "n + off mod BLOCK_SIZE \<le> ((off + n + BLOCK_SIZE - 1) div BLOCK_SIZE - off div BLOCK_SIZE) * BLOCK_SIZE"
    unfolding c by (simp add: block_size_defs, presburger?)
qed

text \<open>The device after the loops of the write, before the commit.\<close>

lemma write_loops:
  assumes "st_ok (v_storage v)" "validate x" "zero_free x" "extents_on (v_storage v) x" "one_to_one x"
    "off + length data + BLOCK_SIZE < 2 ^ 64" "length data + 2 * BLOCK_SIZE < 2 ^ 44"
    "\<And>b. off div BLOCK_SIZE \<le> b \<Longrightarrow> b < (off + length data + BLOCK_SIZE - 1) div BLOCK_SIZE \<Longrightarrow> xmap x b \<noteq> None"
  defines "cnt \<equiv> (length data + off mod BLOCK_SIZE + BLOCK_SIZE - 1) div BLOCK_SIZE mod 2 ^ 32"
  shows "\<exists>es st s. map_blocks x (off div BLOCK_SIZE) cnt = Ok es \<and>
    write_extents (\<lambda>_. Ok ()) data es \<lparr>ws_data_pos = 0, ws_remaining = length data, ws_cur = off mod BLOCK_SIZE, ws_written = 0,
        ws_next = off div BLOCK_SIZE, ws_xtree = x, ws_mod = False, ws_polls = 0\<rparr> v = (Ok st, v\<lparr>v_storage := s\<rparr>) \<and>
    ws_written st = length data \<and> \<not> ws_mod st \<and> st_ok s \<and> size_blocks s = size_blocks (v_storage v) \<and>
    (\<forall>p. file_byte x s p = (if off \<le> p \<and> p < off + length data then data ! (p - off) else file_byte x (v_storage v) p)) \<and>
    (\<forall>a. (\<forall>b. xmap x b \<noteq> Some a) \<longrightarrow> peek_block s a = peek_block (v_storage v) a)"
proof -
  let ?B = "BLOCK_SIZE" and ?f = "off div BLOCK_SIZE" and ?cur = "off mod BLOCK_SIZE" and ?s = "v_storage v"
  have B: "0 < ?B" by (simp add: block_size_defs)
  have "length data + ?cur + ?B < 2 ^ 44" using assms(7) mod_less_divisor [OF B, of off] by linarith
  note wc = write_count [OF this]
  have cnt: "?f + cnt = (off + length data + ?B - 1) div ?B" using wc(1,2) by (simp add: cnt_def)
  have fit: "length data + ?cur \<le> cnt * ?B" using wc(1,3) by (simp add: cnt_def)
  have mp: "xmap x b \<noteq> None" if "?f \<le> b" "b < ?f + cnt" for b using assms(8) that cnt by simp
  let ?es = "map_blocks_loop x ?f (?f + cnt)" and ?as = "map (\<lambda>b. the (xmap x b)) [?f..<?f + cnt]"
  have "(off + length data + ?B - 1) div ?B \<le> off + length data + ?B - 1" by (rule div_le_dividend)
  then have "?f + cnt < 2 ^ 64" using cnt assms(6) by linarith
  then have es: "map_blocks x ?f cnt = Ok ?es" by (simp add: map_blocks_def add_u64_def)
  from map_blocks_mapped [OF assms(2,3) mp] have ra: "run_addrs ?es = ?as" "list_all (\<lambda>(a, n). a \<noteq> 0 \<and> 0 < n) ?es" by auto
  have in_x: "\<exists>b. xmap x b = Some a" if "a \<in> set ?as" for a using that mp by fastforce
  have sz: "a < size_blocks ?s" if a: "a \<in> set ?as" for a
  proof -
    from in_x [OF a] obtain b where "xmap x b = Some a" by blast
    then have "seen_from x b b = Some a" by (simp add: seen_from_def)
    with seen_on [OF assms(4)] show ?thesis .
  qed
  have d: "distinct ?as" using one_to_one_distinct [OF assms(5) mp] .
  let ?st = "\<lparr>ws_data_pos = 0, ws_remaining = length data, ws_cur = ?cur, ws_written = 0,
        ws_next = ?f, ws_xtree = x, ws_mod = False, ws_polls = 0\<rparr>"
  from write_extents_blocks [of v ?es ?st data, OF assms(1)] ra sz d B obtain st s where
    w: "write_extents (\<lambda>_. Ok ()) data ?es ?st v = (Ok st, v\<lparr>v_storage := s\<rparr>)"
    "write_seq write_block ?s (block_writes (disk_block ?s) data ?cur ?as) = (Ok (), s)"
    "advanced (min (length data) (cnt * ?B - ?cur)) ?st st" by auto
  from block_writes_effect [of ?s ?as ?cur data, OF assms(1) sz] w(2) B have
    s: "st_ok s" "size_blocks s = size_blocks ?s"
    "\<And>c. peek_block s c = (case map_of (rev (block_writes (disk_block ?s) data ?cur ?as)) c of Some d \<Rightarrow> Ok d | None \<Rightarrow> peek_block ?s c)"
    by auto
  have "peek_block s a = peek_block ?s a" if "\<forall>b. xmap x b \<noteq> Some a" for a
  proof -
    have "a \<notin> set ?as" using in_x that by blast
    from block_writes_none(2) [OF this] show ?thesis using s(3) [of a] by simp
  qed
  moreover have "ws_written st = length data" "\<not> ws_mod st" using w(3) fit by (auto simp: advanced_def min_def)
  moreover note file_byte_written [OF assms(1,4,5) mp fit w(2)]
  ultimately show ?thesis using es w(1) s(1,2) by blast
qed

lemma block_in_range: "b < c \<Longrightarrow> c * BLOCK_SIZE < off + n \<Longrightarrow> b < (off + n + BLOCK_SIZE - 1) div BLOCK_SIZE"
  by (simp add: block_size_defs)

lemma write_at_unfold:
  assumes "v_begin v = (Ok t, v1)" "inode_read E ino v1 = (Ok i, v1)" "from_inode_data (xtroot_bytes (i_dinode i)) = Ok x"
    "map_blocks x (off div BLOCK_SIZE) ((length data + off mod BLOCK_SIZE + BLOCK_SIZE - 1) div BLOCK_SIZE mod 2 ^ 32) = Ok es"
    "write_extents (\<lambda>_. Ok ()) data es \<lparr>ws_data_pos = 0, ws_remaining = length data, ws_cur = off mod BLOCK_SIZE, ws_written = 0,
        ws_next = off div BLOCK_SIZE, ws_xtree = x, ws_mod = False, ws_polls = 0\<rparr> v1 = (Ok st, v2)"
    "\<not> ws_mod st" "st_ok (v_storage v2)" "off + ws_written st < 2 ^ 64"
    "st_bind (update_if (inode_size i < off + ws_written st) E i (\<lambda>d. Ok (put_u64 24 (off + ws_written st) d)) v2) (\<lambda>_ v.
       st_bind (mark_page_dirty E ino (i_page_block i) v) (\<lambda>_ v. v_commit E v)) = (Ok r, v3)"
  shows "write_at E ino off data v = (Ok (ws_written st), v3)"
proof -
  have fd: "on_storage flush_data v2 = (Ok (), v2)" using assms(7) by (simp add: on_storage_def)
  from assms(9) obtain v4 v5 where "update_if (inode_size i < off + ws_written st) E i (\<lambda>d. Ok (put_u64 24 (off + ws_written st) d)) v2 = (Ok (), v4)"
    "mark_page_dirty E ino (i_page_block i) v4 = (Ok (), v5)" "v_commit E v5 = (Ok r, v3)"
    by (auto simp: st_bind_Ok_iff)
  then show ?thesis using assms(1-8) fd
    by (simp add: write_at_def write_at_with_interrupt_def read_file_def Let_def poll_def add_u64_def update_if_def [of False])
qed

text \<open>The inode with its new size.\<close>

definition resized :: "nat \<Rightarrow> inode \<Rightarrow> inode" where
  "resized n i = i\<lparr>i_dinode := (i_dinode i)\<lparr>di_size := (if inode_size i < n then write_u64 (word_of_nat n) else di_size (i_dinode i))\<rparr>\<rparr>"

lemma xtroot_bytes_size [simp]: "xtroot_bytes (d\<lparr>di_size := z\<rparr>) = xtroot_bytes d"
  by (simp add: xtroot_bytes_def)

text \<open>The run of a write from begin to commit, with what it leaves on the device.\<close>

lemma write_at_run:
  assumes E: "library E valid" "idle E valid (k + 2) v" "inode_read E ino v = (Ok i, v)"
    and x: "from_inode_data (xtroot_bytes (i_dinode i)) = Ok x" "validate x" "zero_free x" "extents_on (v_storage v) x"
      "one_to_one x" "data_apart (k + 2) v x"
    and n: "off + length data + BLOCK_SIZE < 2 ^ 64" "length data + 2 * BLOCK_SIZE < 2 ^ 44"
    and m: "\<And>b. off div BLOCK_SIZE \<le> b \<Longrightarrow> b < (off + length data + BLOCK_SIZE - 1) div BLOCK_SIZE \<Longrightarrow> xmap x b \<noteq> None"
  shows "\<exists>v' pg d'. write_at E ino off data v = (Ok (length data), v') \<and> idle E valid k v' \<and>
    v_sb v' = v_sb v \<and> v_agg_size v' = v_agg_size v \<and> size_blocks (v_storage v') = size_blocks (v_storage v) \<and>
    peek_block (v_storage v) (i_page_block i) = Ok pg \<and>
    length d' = DISIZE \<and> slice 4 12 d' = slice 4 12 (slice (i_page_offset i) (i_page_offset i + DISIZE) pg) \<and>
    dinode_parse d' = Inr (i_dinode (resized (off + length data) i)) \<and>
    peek_block (v_storage v') (i_page_block i) = Ok (splice (i_page_offset i) d' pg) \<and>
    (\<forall>c. c \<in> table_blocks v \<and> c \<noteq> i_page_block i \<longrightarrow> peek_block (v_storage v') c = peek_block (v_storage v) c) \<and>
    (\<forall>p. file_byte x (v_storage v') p = (if off \<le> p \<and> p < off + length data then data ! (p - off) else file_byte x (v_storage v) p))"
proof -
  let ?b = "i_page_block i" and ?off = "i_page_offset i" and ?s = "v_storage v" and ?n = "off + length data"
  let ?a = "\<lparr>at_txid = next_txid (v_tx v), at_dirty_pages = [], at_allocated = [], at_freed = []\<rparr>"
  define v1 where "v1 = v\<lparr>v_tx := (v_tx v)\<lparr>next_txid := (next_txid (v_tx v) + 1) mod 2 ^ 64, active := Some ?a\<rparr>\<rparr>"
  have q: "quiet E valid v" and id: "active (v_tx v) = None" "log_fits (k + 2) (v_log v) ?s" "v_agg_size v \<le> size_blocks ?s"
    "table_blocks v \<inter> (log_range (k + 2) (v_log v) \<union> map_block v) = {}"
    and bm: "\<And>m. v_bmap v = Some m \<Longrightarrow> dirty_pages m = {} \<and> dmap_start m < size_blocks ?s"
    using E(2) by (simp_all add: idle_def)
  have ok: "st_ok ?s" using q by (simp add: quiet_def)
  from library.inode_read_slot [OF E(1) q E(3)] obtain pg j where
    s: "i_ino i = ino" "?b \<in> table_blocks v" "peek_block ?s ?b = Ok pg" "?off = j * DISIZE" "?off + DISIZE \<le> length pg"
    "dinode_parse (slice ?off (?off + DISIZE) pg) = Inr (i_dinode i)" by blast
  have b: "?b < size_blocks ?s" using s(2) id(3) by (simp add: table_blocks_def)
  have bg: "v_begin v = (Ok (next_txid (v_tx v)), v1)" using library.v_begin_idle [OF E(1) id(1)] by (simp add: v1_def)
  have q1: "quiet E valid v1" using q by (simp add: quiet_def v1_def)
  have r1: "inode_read E ino v1 = (Ok i, v1)"
    using library.inode_read_begin [OF E(1) q E(3)] by (simp add: v1_def)
  from write_loops [of v1 x off data] ok x n m obtain es st t where
    w: "map_blocks x (off div BLOCK_SIZE) ((length data + off mod BLOCK_SIZE + BLOCK_SIZE - 1) div BLOCK_SIZE mod 2 ^ 32) = Ok es"
    "write_extents (\<lambda>_. Ok ()) data es \<lparr>ws_data_pos = 0, ws_remaining = length data, ws_cur = off mod BLOCK_SIZE, ws_written = 0,
        ws_next = off div BLOCK_SIZE, ws_xtree = x, ws_mod = False, ws_polls = 0\<rparr> v1 = (Ok st, v1\<lparr>v_storage := t\<rparr>)"
    "ws_written st = length data" "\<not> ws_mod st"
    and t: "st_ok t" "size_blocks t = size_blocks ?s"
    "\<And>p. file_byte x t p = (if off \<le> p \<and> p < ?n then data ! (p - off) else file_byte x ?s p)"
    "\<And>a. \<forall>b. xmap x b \<noteq> Some a \<Longrightarrow> peek_block t a = peek_block ?s a"
    by (auto simp: v1_def)
  have tb: "peek_block t k = peek_block ?s k" if "k \<in> table_blocks v" for k
    using t(4) [of k] x(6) that by (auto simp: data_apart_def)
  let ?v2 = "v1\<lparr>v_storage := t\<rparr>" and ?g = "inode_size i < ?n" and ?old = "slice ?off (?off + DISIZE) pg"
  let ?f = "\<lambda>d. Ok (put_u64 24 ?n d)"
  define d' where "d' = (if ?g then put_u64 24 ?n ?old else ?old)"
  have lo: "length ?old = DISIZE" using s(5) by simp
  have d': "length d' = DISIZE" "slice 4 12 d' = slice 4 12 ?old" "dinode_parse d' = Inr (i_dinode (resized ?n i))"
    using lo s(6) put_fields(9) [OF lo s(6), of ?n] by (simp_all add: d'_def resized_def DISIZE_def)
  have q2: "quiet E valid ?v2" using q t(1) by (simp add: quiet_def v1_def)
  have pk: "peek_block (v_storage ?v2) ?b = Ok pg" using tb [OF s(2)] s(3) by simp
  have lf: "log_fits (k + 2) (v_log ?v2) (v_storage ?v2)" using log_fits_cong [OF id(2) t(1,2)] by (simp add: v1_def)
  have mp: "dirty_pages m = {} \<and> dmap_start m < size_blocks (v_storage ?v2)" if "v_bmap ?v2 = Some m" for m
    using bm [of m] that t(2) by (simp add: v1_def)
  have nl: "?b \<notin> log_range (k + 2) (v_log ?v2)" using id(4) s(2) by (auto simp: v1_def)
  from library.write_tail [of E valid ?v2 ?a k ?b pg ?off ?g ?f d' i ino, OF E(1) q2 _ _ lf _ pk s(5) _ d'(1) _ mp s(1) refl refl nl]
    b t(2) obtain r v' where
    e: "st_bind (update_if ?g E i ?f ?v2) (\<lambda>_ v. st_bind (mark_page_dirty E ino ?b v) (\<lambda>_ v. v_commit E v)) = (Ok r, v')"
    and c: "commits_to E valid (k + 2) k [?b \<mapsto> splice ?off d' pg] ?v2 v'"
    by (force simp: v1_def d'_def)
  note d = commits_toD [OF c]
  have wr: "write_at E ino off data v = (Ok (length data), v')"
    using write_at_unfold [OF bg r1 x(1) w(1,2,4)] w(3) t(1) n(1) e by simp
  have idl: "idle E valid k v'" by (rule commits_idle [OF E(2) _ _ _ _ _ c]) (simp_all add: v1_def t(2))
  have eqs: "map_block ?v2 = map_block v" "v_log ?v2 = v_log v" "v_storage ?v2 = t" by (simp_all add: v1_def map_block_def)
  have tk: "peek_block (v_storage v') c = peek_block ?s c" if "c \<in> table_blocks v" "c \<noteq> ?b" for c
    using d(12) [of c] tb [OF that(1)] id(4) that eqs by auto
  have on: "peek_block (v_storage v') ?b = Ok (splice ?off d' pg)" using d(11) [of ?b "splice ?off d' pg"] s(2) id(4) eqs by auto
  have fb: "file_byte x (v_storage v') p = (if off \<le> p \<and> p < ?n then data ! (p - off) else file_byte x ?s p)" for p
  proof -
    have "peek_block (v_storage v') a = peek_block t a" if "xmap x b = Some a" for a b
    proof -
      have "a \<notin> table_blocks v \<union> map_block v \<union> log_range (k + 2) (v_log v)" using x(6) that unfolding data_apart_def by blast
      then have "a \<noteq> ?b" "a \<notin> map_block v" "a \<notin> log_range (k + 2) (v_log v)" using s(2) by blast+
      then show ?thesis using d(12) [of a] eqs by simp
    qed
    then have "view_block (v_storage v') (xmap x b) = view_block t (xmap x b)" for b
      by (cases "xmap x b") (simp_all add: view_block_def disk_block_def peek_block_def)
    then show ?thesis using t(3) [of p] by (simp add: file_byte_def)
  qed
  show ?thesis using wr idl s(3) d' d(2,3,6) on tk fb t(2)
    by (intro exI [of _ v'] exI [of _ pg] exI [of _ d']) (simp add: v1_def)
qed

text \<open>
  C5. Overwriting works: on a volume between operations, a write to a range of a file whose blocks are all
  mapped succeeds and reports the whole length; afterwards the volume is again between operations, the
  file has the same extents and the larger of the two sizes, its bytes are the data in the range and what
  they were outside, reading the range returns the data, and every other inode reads as before.
\<close>

theorem write_at_correct:
  assumes E: "library E valid" "idle E valid (k + 2) v" "inode_read E ino v = (Ok i, v)"
    and x: "from_inode_data (xtroot_bytes (i_dinode i)) = Ok x" "validate x" "zero_free x" "extents_on (v_storage v) x"
      "one_to_one x" "data_apart (k + 2) v x"
    and n: "off + length data + BLOCK_SIZE < 2 ^ 64" "length data + 2 * BLOCK_SIZE < 2 ^ 44"
    and m: "\<And>b. off div BLOCK_SIZE \<le> b \<Longrightarrow> b < (off + length data + BLOCK_SIZE - 1) div BLOCK_SIZE \<Longrightarrow> xmap x b \<noteq> None"
  shows "\<exists>v'. write_at E ino off data v = (Ok (length data), v') \<and> idle E valid k v' \<and>
    inode_read E ino v' = (Ok (resized (off + length data) i), v') \<and>
    (\<forall>p. file_byte x (v_storage v') p = (if off \<le> p \<and> p < off + length data then data ! (p - off) else file_byte x (v_storage v) p)) \<and>
    read_data x off (length data) (v_storage v') = (Ok data, v_storage v') \<and>
    (\<forall>j k. inode_read E j v = (Ok k, v) \<and> (i_page_block k, i_page_offset k) \<noteq> (i_page_block i, i_page_offset i) \<longrightarrow>
       inode_read E j v' = (Ok k, v'))"
proof -
  let ?n = "off + length data"
  have q: "quiet E valid v" "v_agg_size v \<le> size_blocks (v_storage v)" using E(2) by (simp_all add: idle_def)
  from write_at_run [OF assms] obtain v' pg d' where
    w: "write_at E ino off data v = (Ok (length data), v')" "idle E valid k v'" "v_sb v' = v_sb v" "v_agg_size v' = v_agg_size v"
    "size_blocks (v_storage v') = size_blocks (v_storage v)" "peek_block (v_storage v) (i_page_block i) = Ok pg"
    and d': "length d' = DISIZE" "slice 4 12 d' = slice 4 12 (slice (i_page_offset i) (i_page_offset i + DISIZE) pg)"
    "dinode_parse d' = Inr (i_dinode (resized ?n i))"
    and b: "peek_block (v_storage v') (i_page_block i) = Ok (splice (i_page_offset i) d' pg)"
    "\<And>k. k \<in> table_blocks v \<Longrightarrow> k \<noteq> i_page_block i \<Longrightarrow> peek_block (v_storage v') k = peek_block (v_storage v) k"
    and fb: "\<And>p. file_byte x (v_storage v') p = (if off \<le> p \<and> p < ?n then data ! (p - off) else file_byte x (v_storage v) p)"
    by blast
  have q': "quiet E valid v'" using w(2) by (simp add: idle_def)
  note rd = library.inode_read_edited [OF E(1) q(1) q' w(3,4) E(3) q(2) w(6) b d']
  have "read_data x off (length data) (v_storage v') = (Ok (map (file_byte x (v_storage v')) [off..<?n]), v_storage v')"
  proof (rule read_data_bytes)
    show "st_ok (v_storage v')" "extents_on (v_storage v') x" using q' w(5) x(4) by (simp_all add: quiet_def extents_on_def)
    show "xmap x c = None" if "off div BLOCK_SIZE \<le> b" "b < c" "c * BLOCK_SIZE < ?n" "xmap x b = None" for b c
      using m [of b] that block_in_range [of b c off "length data"] by auto
  qed (use x n in auto)
  moreover have "map (file_byte x (v_storage v')) [off..<?n] = data"
    by (rule nth_equalityI) (simp_all add: fb)
  moreover have "inode_read E ino v' = (Ok (resized ?n i), v')" using rd [of ino] E(3) by (simp add: resized_def)
  ultimately show ?thesis using w(1,2) fb rd by (intro exI [of _ v']) auto
qed

section \<open>Example\<close>

text \<open>A file of one block, stored in the third block of the device.\<close>

definition one_root :: xtroot where
  "one_root = set_next (xtroot_default\<lparr>xads := [xad_default, xad_default, mk_xad 0 1 2] @ replicate 15 xad_default\<rparr>) 3"

definition one_file :: dinode where
  "one_file = (demo_inode 0x81a4)\<lparr>di_u := replicate 96 0 @ to_bytes one_root\<rparr>"

lemma one_at: "at (mk_xad 0 1 2) 0 1 2"
  by (rule at_mk_xad; simp)

lemmas one_simps = at_simps [OF one_at] at_simps [OF one_at, simplified]

lemma live_one_root: "live one_root = [mk_xad 0 1 2]"
  by (simp add: live_def one_root_def next_index_def set_next_def xtroot_default_def xt_consts slice_def)

lemma one_root_ok: "validate one_root" "zero_free one_root" "xt_wf one_root"
  by (simp_all add: xt_wf_def validate_def zero_free_def live_one_root one_simps)
    (simp add: one_root_def set_next_def xtroot_default_def xt_consts)

lemma xmap_one_root: "xmap one_root b = (if b = 0 then Some 2 else None)"
  by (simp add: xmap_def live_one_root one_simps)

lemma one_file_root: "from_inode_data (xtroot_bytes one_file) = Ok one_root"
proof -
  have "xtroot_bytes one_file = to_bytes one_root" by (simp add: xtroot_bytes_def one_file_def slice_append_right slice_whole)
  moreover have "one_root\<lparr>xads := [xad_default, xad_default] @ drop XTENTRYSTART (xads one_root)\<rparr> = one_root"
    by (simp add: one_root_def set_next_def xtroot_default_def xt_consts)
  ultimately show ?thesis using from_to_bytes [OF one_root_ok(3)] by simp
qed

theorem write_at_correct_witness:
  "\<exists>v'. write_at list_env 18 100 [7, 8, 9] (demo_volume one_file) = (Ok 3, v') \<and>
     file_byte one_root (v_storage v') 101 = 8 \<and> read_data one_root 100 3 (v_storage v') = (Ok [7, 8, 9], v_storage v')"
proof -
  let ?v = "demo_volume one_file"
  have d: "length (di_u one_file) = 384" "di_fileset one_file = write_u32 16" "di_number one_file = write_u32 2"
    by (simp_all add: one_file_def demo_inode_def)
  have "extents_on (v_storage ?v) one_root"
    by (simp add: extents_on_def live_one_root one_simps)
      (simp add: demo_volume_def mem_size_blocks_def block_size_defs)
  moreover have "data_apart (0 + 2) ?v one_root"
    by (simp add: data_apart_def xmap_one_root table_blocks_def map_block_def) (simp add: demo_volume_def)
  moreover have "one_to_one one_root" by (simp add: one_to_one_def xmap_one_root)
  ultimately show ?thesis
    using write_at_correct [OF lenv.library_axioms demo_idle [OF d(1), of "0 + 2"] demo_read [OF d], of one_root 100 "[7, 8, 9]"]
      one_file_root one_root_ok by (auto simp: xmap_one_root block_size_defs numeral_3_eq_3)
qed

end
