(* ===== verification/Rust_Str.thy ===== *)
theory Rust_Str
  imports Dtree
begin

text \<open>
  What the code uses of Rust strings: a \<open>&str\<close> is a list of Unicode scalar values, \<open>encode_utf16\<close> gives its
  code units (directory names are stored in them), \<open>from_utf16_lossy\<close> reads code units back with U+FFFD for
  an unpaired surrogate, \<open>as_bytes\<close> is the UTF-8 encoding (names of extended attributes are stored in it),
  and the prefix and suffix functions work on the scalar values.
\<close>

type_synonym str = "nat list"

definition is_scalar :: "nat \<Rightarrow> bool" where
  "is_scalar c \<longleftrightarrow> c < 0xD800 \<or> 0xE000 \<le> c \<and> c < 0x110000"

definition str_ok :: "str \<Rightarrow> bool" where
  "str_ok s \<longleftrightarrow> (\<forall>c\<in>set s. is_scalar c)"

definition str_of :: "string \<Rightarrow> str" where
  "str_of = map of_char"

section \<open>UTF-16\<close>

definition utf16_char :: "nat \<Rightarrow> ucs2" where
  "utf16_char c =
     (if c < 0x10000 then [word_of_nat c]
      else [word_of_nat (0xD800 + (c - 0x10000) div 0x400), word_of_nat (0xDC00 + (c - 0x10000) mod 0x400)])"

definition encode_utf16 :: "str \<Rightarrow> ucs2" where
  "encode_utf16 s = concat (map utf16_char s)"

definition high_surrogate :: "16 word \<Rightarrow> bool" where
  "high_surrogate u \<longleftrightarrow> 0xD800 \<le> unat u \<and> unat u < 0xDC00"

definition low_surrogate :: "16 word \<Rightarrow> bool" where
  "low_surrogate u \<longleftrightarrow> 0xDC00 \<le> unat u \<and> unat u < 0xE000"

fun from_utf16_lossy :: "ucs2 \<Rightarrow> str" where
  "from_utf16_lossy [] = []"
| "from_utf16_lossy [u] = [if high_surrogate u \<or> low_surrogate u then 0xFFFD else unat u]"
| "from_utf16_lossy (u # w # us) =
     (if high_surrogate u \<and> low_surrogate w
      then (0x10000 + (unat u - 0xD800) * 0x400 + (unat w - 0xDC00)) # from_utf16_lossy us
      else (if high_surrogate u \<or> low_surrogate u then 0xFFFD else unat u) # from_utf16_lossy (w # us))"

section \<open>UTF-8\<close>

definition utf8_char :: "nat \<Rightarrow> bytes" where
  "utf8_char c =
     (if c < 0x80 then [word_of_nat c]
      else if c < 0x800 then [word_of_nat (0xC0 + c div 0x40), word_of_nat (0x80 + c mod 0x40)]
      else if c < 0x10000 then
        [word_of_nat (0xE0 + c div 0x1000), word_of_nat (0x80 + c div 0x40 mod 0x40), word_of_nat (0x80 + c mod 0x40)]
      else
        [word_of_nat (0xF0 + c div 0x40000), word_of_nat (0x80 + c div 0x1000 mod 0x40),
         word_of_nat (0x80 + c div 0x40 mod 0x40), word_of_nat (0x80 + c mod 0x40)])"

definition as_bytes :: "str \<Rightarrow> bytes" where
  "as_bytes s = concat (map utf8_char s)"

text \<open>
  \<open>String::from_utf8_lossy\<close>: \<open>conts\<close> gives, for a leading byte, the admissible ranges of the following bytes;
  a sequence that breaks off is replaced by U+FFFD, with the bytes that were admissible so far.
\<close>

definition conts :: "nat \<Rightarrow> (nat \<times> nat) list option" where
  "conts b =
     (let any = (0x80, 0xBF) in
      if b < 0x80 then Some []
      else if 0xC2 \<le> b \<and> b < 0xE0 then Some [any]
      else if b = 0xE0 then Some [(0xA0, 0xBF), any]
      else if b = 0xED then Some [(0x80, 0x9F), any]
      else if 0xE0 \<le> b \<and> b < 0xF0 then Some [any, any]
      else if b = 0xF0 then Some [(0x90, 0xBF), any, any]
      else if 0xF0 < b \<and> b < 0xF4 then Some [any, any, any]
      else if b = 0xF4 then Some [(0x80, 0x8F), any, any]
      else None)"

fun match_conts :: "(nat \<times> nat) list \<Rightarrow> nat list \<Rightarrow> nat" where
  "match_conts ((lo, hi) # rs) (b # bs) = (if lo \<le> b \<and> b \<le> hi then Suc (match_conts rs bs) else 0)"
| "match_conts _ _ = 0"

definition assemble :: "nat \<Rightarrow> nat list \<Rightarrow> nat" where
  "assemble b cs =
     fold (\<lambda>c acc. acc * 0x40 + (c - 0x80)) cs
       (case length cs of 0 \<Rightarrow> b | Suc 0 \<Rightarrow> b - 0xC0 | Suc (Suc 0) \<Rightarrow> b - 0xE0 | _ \<Rightarrow> b - 0xF0)"

function utf8_lossy :: "nat list \<Rightarrow> str" where
  "utf8_lossy [] = []"
| "utf8_lossy (b # bs) =
     (case conts b of
        None \<Rightarrow> 0xFFFD # utf8_lossy bs
      | Some rs \<Rightarrow>
          (let n = match_conts rs bs in
           (if n = length rs then assemble b (take n bs) else 0xFFFD) # utf8_lossy (drop n bs)))"
  by pat_completeness auto
termination by (relation "measure length") auto

declare utf8_lossy.simps [simp del]

definition from_utf8_lossy :: "bytes \<Rightarrow> str" where
  "from_utf8_lossy bs = utf8_lossy (map unat bs)"

section \<open>Prefixes and suffixes\<close>

fun strip_prefix :: "str \<Rightarrow> str \<Rightarrow> str option" where
  "strip_prefix [] s = Some s"
| "strip_prefix (p # ps) [] = None"
| "strip_prefix (p # ps) (c # cs) = (if p = c then strip_prefix ps cs else None)"

definition starts_with :: "str \<Rightarrow> str \<Rightarrow> bool" where
  "starts_with p s \<longleftrightarrow> strip_prefix p s \<noteq> None"

definition trim_end_nul :: "str \<Rightarrow> str" where
  "trim_end_nul s = rev (dropWhile (\<lambda>c. c = 0) (rev s))"

lemma strip_prefix_Some: "strip_prefix p s = Some r \<longleftrightarrow> s = p @ r"
  by (induction p s rule: strip_prefix.induct) auto

lemma starts_with_iff: "starts_with p s \<longleftrightarrow> (\<exists>r. s = p @ r)"
  by (auto simp: starts_with_def strip_prefix_Some)

section \<open>Names survive the encoding\<close>

lemma unat_u16 [simp]: "n < 0x10000 \<Longrightarrow> unat (word_of_nat n :: 16 word) = n"
  by (simp add: unat_of_nat take_bit_nat_eq_self_iff)

lemma from_utf16_char:
  assumes "is_scalar c"
  shows "from_utf16_lossy (utf16_char c @ us) = c # from_utf16_lossy us"
proof (cases "c < 0x10000")
  case True
  then have "\<not> high_surrogate (word_of_nat c)" "\<not> low_surrogate (word_of_nat c)" "unat (word_of_nat c :: 16 word) = c"
    using assms by (auto simp: is_scalar_def high_surrogate_def low_surrogate_def)
  then show ?thesis using True by (cases us) (simp_all add: utf16_char_def)
next
  case False
  define m where "m = c - 0x10000"
  have m: "m < 0x100000" "c = 0x10000 + m" using False assms by (auto simp: m_def is_scalar_def)
  then have "m div 0x400 < 0x400" by (simp add: less_mult_imp_div_less)
  then have u: "unat (word_of_nat (0xD800 + m div 0x400) :: 16 word) = 0xD800 + m div 0x400"
    "unat (word_of_nat (0xDC00 + m mod 0x400) :: 16 word) = 0xDC00 + m mod 0x400"
    using mod_less_divisor [of "0x400" m] by (intro unat_u16; linarith)+
  have "utf16_char c = [word_of_nat (0xD800 + m div 0x400), word_of_nat (0xDC00 + m mod 0x400)]"
    using False by (simp add: utf16_char_def m_def)
  moreover have "high_surrogate (word_of_nat (0xD800 + m div 0x400))" "low_surrogate (word_of_nat (0xDC00 + m mod 0x400))"
    using \<open>m div 0x400 < 0x400\<close> mod_less_divisor [of "0x400" m] unfolding high_surrogate_def low_surrogate_def u
    by linarith+
  ultimately show ?thesis using u m div_mult_mod_eq [of m "0x400"] by simp
qed

lemma from_encode_utf16: "str_ok s \<Longrightarrow> from_utf16_lossy (encode_utf16 s) = s"
  by (induction s) (auto simp: str_ok_def encode_utf16_def from_utf16_char)

lemma encode_utf16_inj: "str_ok s \<Longrightarrow> str_ok t \<Longrightarrow> encode_utf16 s = encode_utf16 t \<Longrightarrow> s = t"
  by (metis from_encode_utf16)

end
