(* ===== verification/Volume_Dir.thy ===== *)
theory Volume_Dir
  imports Volume Rust_Str
begin

text \<open>
  The operations of \<open>volume.rs\<close> on names: creating, linking, renaming and removing entries, and the
  open-handle counts that keep an unlinked file alive. Each is one transaction that changes the inode
  table page of the child and of its directory, in copies of the page cached under each inode's number.
\<close>

section \<open>Initial inodes\<close>

definition name_ok :: "ucs2 \<Rightarrow> bool" where
  "name_ok u \<longleftrightarrow> u \<noteq> [] \<and> length u \<le> 11"

text \<open>The fields every new inode gets: mode, size, blocks, links, fileset and number.\<close>

definition init_inode :: "32 word \<Rightarrow> nat \<Rightarrow> 32 word \<Rightarrow> 32 word \<Rightarrow> bytes \<Rightarrow> bytes" where
  "init_inode m sz links child d =
     put_u32 8 (child - word_of_nat FILESYSTEM_I) (put_u32 4 (word_of_nat FILESYSTEM_I)
       (put_u32 40 links (put_u64 32 0 (put_u64 24 sz (put_u32 52 m d)))))"

definition init_dtroot :: "32 word \<Rightarrow> 32 word \<Rightarrow> bytes \<Rightarrow> bytes" where
  "init_dtroot child parent d =
     (let d = d[224 + 16 := 0x83, 224 + 17 := 2, 224 + 18 := 0, 224 + 19 := 0];
          d = put_u32 (224 + 20) parent d;
          d = d[224 + 24 := 1, 224 + 25 := 2];
          d = put_u32 (224 + 32) child d;
          d = d[224 + 32 + 5 := 1];
          d = put_u16 (224 + 32 + 6) 0x2E d;
          d = put_u32 (224 + 32 + 28) 0 d;
          d = put_u32 (224 + 64) parent d;
          d = d[224 + 64 + 5 := 2];
          d = put_u16 (224 + 64 + 6) 0x2E d;
          d = put_u16 (224 + 64 + 8) 0x2E d
      in put_u32 (224 + 64 + 28) 1 d)"

definition inc_nlink :: "bytes \<Rightarrow> bytes res" where
  "inc_nlink d = (if get_u32 40 d = - 1 then Panic else Ok (put_u32 40 (get_u32 40 d + 1) d))"

definition dec_nlink :: "bytes \<Rightarrow> bytes res" where
  "dec_nlink d = (if get_u32 40 d = 0 then Panic else Ok (put_u32 40 (get_u32 40 d - 1) d))"

text \<open>\<open>saturating_sub(1)\<close>.\<close>

definition sat_dec :: "32 word \<Rightarrow> 32 word" where
  "sat_dec n = (if n = 0 then 0 else n - 1)"

definition free_inode :: "bytes \<Rightarrow> bytes" where
  "free_inode d = put_u32 40 0 (put_u64 24 0 (put_u32 52 0 d))"

definition update_at :: "'c env \<Rightarrow> inode \<Rightarrow> (bytes \<Rightarrow> bytes res) \<Rightarrow> 'c volume \<Rightarrow> unit res \<times> 'c volume" where
  "update_at E i f v = update_inode_page E (i_ino i) (i_page_block i) (i_page_offset i) f v"

section \<open>Creating\<close>

text \<open>Inserting the entry of a new child: the index is the number of entries, a duplicate name aborts.\<close>

definition add_entry :: "'c env \<Rightarrow> 32 word \<Rightarrow> ucs2 \<Rightarrow> 32 word \<Rightarrow> 'c volume \<Rightarrow> unit res \<times> 'c volume" where
  "add_entry E parent name child v =
     st_bind (next_dir_index E parent v) (\<lambda>index v.
     st_bind (insert_dir_entry E parent name child index v) (\<lambda>inserted v.
       if inserted then (Ok (), v) else fail_with E AlreadyExists v))"

text \<open>The steps after the inode is chosen: initialise it, insert the entry, touch the parent, commit.\<close>

definition create_child :: "'c env \<Rightarrow> 32 word \<Rightarrow> ucs2 \<Rightarrow> 32 word \<times> nat \<times> nat \<Rightarrow> (bytes \<Rightarrow> bytes)
    \<Rightarrow> ('c volume \<Rightarrow> unit res \<times> 'c volume) \<Rightarrow> 'c volume \<Rightarrow> 32 word res \<times> 'c volume" where
  "create_child E parent name slot init touch_parent v =
     (case slot of (child, block, off) \<Rightarrow>
        st_bind (update_inode_page E child block off (\<lambda>d. Ok (init d)) v) (\<lambda>_ v.
        st_bind (mark_page_dirty E child block v) (\<lambda>_ v.
        st_bind (add_entry E parent name child v) (\<lambda>_ v.
        st_bind (touch_parent v) (\<lambda>_ v.
        st_bind (v_commit E v) (\<lambda>_ v. (Ok child, v)))))))"

definition create_file :: "'c env \<Rightarrow> 32 word \<Rightarrow> str \<Rightarrow> 'c volume \<Rightarrow> 32 word res \<times> 'c volume" where
  "create_file E parent name v =
     st_bind (v_begin v) (\<lambda>_ v.
     st_bind (allocate_inode E v) (\<lambda>slot v.
       if \<not> name_ok (encode_utf16 name) then fail_with E InvalidName v
       else create_child E parent (encode_utf16 name) slot (init_inode 0x81a4 0 1 (fst slot))
              (mark_inode_dirty E parent) v))"

definition mkdir :: "'c env \<Rightarrow> 32 word \<Rightarrow> str \<Rightarrow> 'c volume \<Rightarrow> 32 word res \<times> 'c volume" where
  "mkdir E parent name v =
     st_bind (v_begin v) (\<lambda>_ v.
     st_bind (allocate_inode E v) (\<lambda>slot v.
       if \<not> name_ok (encode_utf16 name) then fail_with E InvalidName v
       else create_child E parent (encode_utf16 name) slot
              (\<lambda>d. init_dtroot (fst slot) parent (init_inode 0x41ED 0 2 (fst slot) d))
              (\<lambda>v. st_bind (inode_read E parent v) (\<lambda>p v.
                   st_bind (update_at E p inc_nlink v) (\<lambda>_ v. mark_page_dirty E parent (i_page_block p) v))) v))"

definition mknod :: "'c env \<Rightarrow> 32 word \<Rightarrow> str \<Rightarrow> 32 word \<Rightarrow> nat \<Rightarrow> 'c volume \<Rightarrow> 32 word res \<times> 'c volume" where
  "mknod E parent name m rdev v =
     (let file_type = m AND 0xf000 in
      st_bind (v_begin v) (\<lambda>_ v.
        if \<not> name_ok (encode_utf16 name) then fail_with E InvalidName v
        else if file_type \<notin> {0x1000, 0x2000, 0x6000, 0xC000} then fail_with E InvalidFileType v
        else
          st_bind (allocate_inode E v) (\<lambda>slot v.
            create_child E parent (encode_utf16 name) slot
              (\<lambda>d. let d = init_inode m 0 1 (fst slot) d in
                   if file_type = 0x2000 \<or> file_type = 0x6000 then put_u64 16 rdev d else d)
              (mark_inode_dirty E parent) v)))"

definition symlink :: "'c env \<Rightarrow> 32 word \<Rightarrow> str \<Rightarrow> str \<Rightarrow> 'c volume \<Rightarrow> 32 word res \<times> 'c volume" where
  "symlink E parent name target v =
     (let target_bytes = as_bytes target in
      st_bind (v_begin v) (\<lambda>_ v.
      st_bind (allocate_inode E v) (\<lambda>slot v.
        if \<not> name_ok (encode_utf16 name) then fail_with E InvalidName v
        else if 128 \<le> length target_bytes then fail_with E NotSupported v
        else
          create_child E parent (encode_utf16 name) slot
            (\<lambda>d. let d = init_inode 0xA1FF (length target_bytes) 1 (fst slot) d in
                 if 128 + length target_bytes \<le> length d then splice 128 target_bytes d else d)
            (mark_inode_dirty E parent) v)))"

definition read_symlink :: "'c env \<Rightarrow> 32 word \<Rightarrow> 'c volume \<Rightarrow> bytes res \<times> 'c volume" where
  "read_symlink E ino v =
     st_bind (inode_read E ino v) (\<lambda>i v.
       if \<not> is_symlink (i_dinode i) then (Err (Other ''not a symbolic link''), v)
       else
         let sz = inode_size i in
         if 0 < sz \<and> sz < 128 then (Ok (slice 0 (min sz (length (di_u (i_dinode i)))) (di_u (i_dinode i))), v)
         else (Err (Other ''symlink target not available''), v))"

definition link_file :: "'c env \<Rightarrow> 32 word \<Rightarrow> str \<Rightarrow> 32 word \<Rightarrow> 'c volume \<Rightarrow> 32 word res \<times> 'c volume" where
  "link_file E parent name target v =
     st_bind (v_begin v) (\<lambda>_ v.
     st_bind (inode_read E target v) (\<lambda>t v.
       if is_dir (i_dinode t) then fail_with E CannotLinkDir v
       else if \<not> name_ok (encode_utf16 name) then fail_with E InvalidName v
       else
         st_bind (add_entry E parent (encode_utf16 name) target v) (\<lambda>_ v.
           if nlink (i_dinode t) = - 1 then (Panic, v)
           else
             st_bind (update_at E t (\<lambda>d. Ok (put_u32 40 (nlink (i_dinode t) + 1) d)) v) (\<lambda>_ v.
             st_bind (mark_page_dirty E target (i_page_block t) v) (\<lambda>_ v.
             st_bind (mark_inode_dirty E parent v) (\<lambda>_ v.
             st_bind (v_commit E v) (\<lambda>_ v. (Ok target, v))))))))"

section \<open>Open handles\<close>

definition open_file :: "'c env \<Rightarrow> 32 word \<Rightarrow> 'c volume \<Rightarrow> unit res \<times> 'c volume" where
  "open_file E ino v =
     st_bind (inode_read E ino v) (\<lambda>i v.
       let n = (case v_open_handles v (i_page_block i) of Some n \<Rightarrow> n | None \<Rightarrow> 0) in
       if n + 1 < 2 ^ 32 then (Ok (), v\<lparr>v_open_handles := (v_open_handles v)(i_page_block i \<mapsto> n + 1)\<rparr>)
       else (Panic, v\<lparr>v_open_handles := (v_open_handles v)(i_page_block i \<mapsto> n)\<rparr>))"

definition has_open_handles :: "'c volume \<Rightarrow> nat \<Rightarrow> bool" where
  "has_open_handles v block \<longleftrightarrow> 0 < (case v_open_handles v block of Some n \<Rightarrow> n | None \<Rightarrow> 0)"

text \<open>The extents of a regular file whose root parses.\<close>

definition file_blocks :: "inode \<Rightarrow> (nat \<times> nat) list res" where
  "file_blocks i =
     (if is_regular (i_dinode i)
      then (case from_inode_data (xtroot_bytes (i_dinode i)) of
              Ok x \<Rightarrow> Ok (fst (truncate_extents x 0)) | Err _ \<Rightarrow> Ok [] | Panic \<Rightarrow> Panic | Exit \<Rightarrow> Exit)
      else Ok [])"

definition release_file :: "'c env \<Rightarrow> 32 word \<Rightarrow> 'c volume \<Rightarrow> unit res \<times> 'c volume" where
  "release_file E ino v =
     st_bind (inode_read E ino v) (\<lambda>i v.
       let v = (case v_open_handles v (i_page_block i) of
                  Some n \<Rightarrow> v\<lparr>v_open_handles := (v_open_handles v)(i_page_block i \<mapsto> n - 1)\<rparr>
                | None \<Rightarrow> v) in
       st_bind (v_begin v) (\<lambda>_ v.
       st_bind
         (if nlink (i_dinode i) = 0 \<and> \<not> has_open_handles v (i_page_block i) then
            st_bind (file_blocks i, v) (\<lambda>freed v.
            st_bind (on_bmap (free_all freed) v) (\<lambda>_ v.
            st_bind (update_at E i (\<lambda>d. Ok (put_u32 52 0 d)) v) (\<lambda>_ v. mark_page_dirty E ino (i_page_block i) v)))
          else (Ok (), v)) (\<lambda>_ v.
       st_bind (v_commit E v) (\<lambda>_ v. (Ok (), v)))))"

section \<open>Removing\<close>

definition rmdir :: "'c env \<Rightarrow> 32 word \<Rightarrow> str \<Rightarrow> 'c volume \<Rightarrow> bool res \<times> 'c volume" where
  "rmdir E parent name v =
     st_bind (v_begin v) (\<lambda>_ v.
     st_bind (remove_dir_entry E parent (encode_utf16 name) v) (\<lambda>child v.
       case child of
         None \<Rightarrow> st_bind (v_abort E v) (\<lambda>_ v. (Ok False, v))
       | Some child_ino \<Rightarrow>
           st_bind (inode_read E child_ino v) (\<lambda>c v.
             if \<not> is_dir (i_dinode c) then fail_with E NotADirectory v
             else
               st_bind (dt_from_inode_data (dtroot_bytes (i_dinode c)), v) (\<lambda>dt v.
                 if 2 < len_entries dt then fail_with E DirectoryNotEmpty v
                 else
                   st_bind (update_at E c (\<lambda>d. Ok (free_inode d)) v) (\<lambda>_ v.
                   st_bind (mark_page_dirty E child_ino (i_page_block c) v) (\<lambda>_ v.
                   st_bind (inode_read E parent v) (\<lambda>p v.
                   st_bind (update_at E p dec_nlink v) (\<lambda>_ v.
                   st_bind (mark_page_dirty E parent (i_page_block p) v) (\<lambda>_ v.
                   st_bind (v_commit E v) (\<lambda>_ v. (Ok True, v)))))))))))"

text \<open>The child of an unlinked entry: freed when the last link is gone and no handle is open.\<close>

definition drop_link :: "'c env \<Rightarrow> inode \<Rightarrow> 'c volume \<Rightarrow> unit res \<times> 'c volume" where
  "drop_link E c v =
     (let new_nlink = sat_dec (nlink (i_dinode c)) in
      if new_nlink = 0 \<and> \<not> has_open_handles v (i_page_block c) then
        st_bind (file_blocks c, v) (\<lambda>freed v.
        st_bind (update_at E c (\<lambda>d. Ok (free_inode d)) v) (\<lambda>_ v. on_bmap (free_all freed) v))
      else update_at E c (\<lambda>d. Ok (put_u32 40 new_nlink d)) v)"

definition unlink_file :: "'c env \<Rightarrow> 32 word \<Rightarrow> str \<Rightarrow> 'c volume \<Rightarrow> bool res \<times> 'c volume" where
  "unlink_file E parent name v =
     st_bind (v_begin v) (\<lambda>_ v.
     st_bind (remove_dir_entry E parent (encode_utf16 name) v) (\<lambda>child v.
       case child of
         None \<Rightarrow> st_bind (v_abort E v) (\<lambda>_ v. (Ok False, v))
       | Some child_ino \<Rightarrow>
           st_bind (inode_read E child_ino v) (\<lambda>c v.
             if is_dir (i_dinode c) then fail_with E InvalidFileType v
             else
               st_bind (drop_link E c v) (\<lambda>_ v.
               st_bind (mark_page_dirty E child_ino (i_page_block c) v) (\<lambda>_ v.
               st_bind (mark_inode_dirty E parent v) (\<lambda>_ v.
               st_bind (v_commit E v) (\<lambda>_ v. (Ok True, v))))))))"

section \<open>Renaming\<close>

text \<open>The checks on an existing destination.\<close>

definition guard_dest :: "'c env \<Rightarrow> bool \<Rightarrow> inode \<Rightarrow> 'c volume \<Rightarrow> unit res \<times> 'c volume" where
  "guard_dest E child_is_dir dest v =
     (if is_dir (i_dinode dest) \<and> \<not> child_is_dir then fail_with E (Other ''cannot rename file over directory'') v
      else if child_is_dir \<and> \<not> is_dir (i_dinode dest) then fail_with E (Other ''cannot rename directory over file'') v
      else if child_is_dir \<and> is_dir (i_dinode dest) then
        st_bind (res_bind (dt_from_inode_data (dtroot_bytes (i_dinode dest))) dt_entries, v) (\<lambda>es v.
          if es \<noteq> [] then fail_with E (Other ''destination directory not empty'') v else (Ok (), v))
      else (Ok (), v))"

definition rename_source :: "'c env \<Rightarrow> 32 word \<Rightarrow> ucs2 \<Rightarrow> 'c volume \<Rightarrow> (32 word \<times> bool) res \<times> 'c volume" where
  "rename_source E old_parent old_name v =
     st_bind (read_dir E old_parent v) (\<lambda>(_, dt) v.
     st_bind (dt_lookup dt old_name, v) (\<lambda>r v.
       case r of
         Some entry \<Rightarrow>
           st_bind (inode_read E (de_inumber entry) v) (\<lambda>c v. (Ok (de_inumber entry, is_dir (i_dinode c)), v))
       | None \<Rightarrow> fail_with E NotFound v))"

definition move_dir :: "'c env \<Rightarrow> 32 word \<Rightarrow> 32 word \<Rightarrow> 32 word \<Rightarrow> 'c volume \<Rightarrow> unit res \<times> 'c volume" where
  "move_dir E child old_parent new_parent v =
     st_bind (inode_read E child v) (\<lambda>c v.
     st_bind (update_at E c (\<lambda>d. Ok (put_u32 (DISIZE - 288 + 20) new_parent d)) v) (\<lambda>_ v.
     st_bind (mark_page_dirty E child (i_page_block c) v) (\<lambda>_ v.
     st_bind (inode_read E old_parent v) (\<lambda>p v.
     st_bind (update_at E p (\<lambda>d. Ok (put_u32 40 (sat_dec (get_u32 40 d)) d)) v) (\<lambda>_ v.
     st_bind (mark_page_dirty E old_parent (i_page_block p) v) (\<lambda>_ v.
     st_bind (inode_read E new_parent v) (\<lambda>q v.
     st_bind (update_at E q inc_nlink v) (\<lambda>_ v. mark_page_dirty E new_parent (i_page_block q) v))))))))"

definition rename_across :: "'c env \<Rightarrow> 32 word \<Rightarrow> ucs2 \<Rightarrow> 32 word \<Rightarrow> ucs2 \<Rightarrow> 32 word \<Rightarrow> bool \<Rightarrow> 'c volume
    \<Rightarrow> unit res \<times> 'c volume" where
  "rename_across E old_parent old_name new_parent new_name child child_is_dir v =
     st_bind (remove_dir_entry E new_parent new_name v) (\<lambda>r v.
     st_bind
       (case r of
          Some dest_ino \<Rightarrow>
            st_bind (inode_read E dest_ino v) (\<lambda>dest v.
            st_bind (guard_dest E child_is_dir dest v) (\<lambda>_ v. mark_page_dirty E new_parent (i_page_block dest) v))
        | None \<Rightarrow> (Ok (), v)) (\<lambda>_ v.
     st_bind (next_dir_index E new_parent v) (\<lambda>num_entries v.
     st_bind (insert_dir_entry E new_parent new_name child num_entries v) (\<lambda>inserted v.
       if \<not> inserted then fail_with E (Other ''failed to insert directory entry'') v
       else
         st_bind (mark_inode_dirty E new_parent v) (\<lambda>_ v.
         st_bind (remove_dir_entry E old_parent old_name v) (\<lambda>_ v.
         st_bind (mark_inode_dirty E old_parent v) (\<lambda>_ v.
           if child_is_dir then move_dir E child old_parent new_parent v else (Ok (), v))))))))"

text \<open>The edit of the single tree: drop the old name, drop the destination, insert the new name.\<close>

definition rename_entry :: "bytes \<Rightarrow> ucs2 \<Rightarrow> ucs2 \<Rightarrow> 32 word \<Rightarrow> nat \<Rightarrow> bytes res" where
  "rename_entry dt old_name new_name child index =
     (let (r1, dt1) = (if old_name \<noteq> new_name then dt_remove dt old_name else (Ok None, dt)) in
      res_bind r1 (\<lambda>_.
        let (r2, dt2) = dt_remove dt1 new_name in
        res_bind r2 (\<lambda>_.
          let (r3, dt3) = dt_insert dt2 new_name child (word_of_nat index) in
          res_bind r3 (\<lambda>_. Ok dt3))))"

definition rename_within :: "'c env \<Rightarrow> 32 word \<Rightarrow> ucs2 \<Rightarrow> ucs2 \<Rightarrow> 32 word \<Rightarrow> bool \<Rightarrow> 'c volume \<Rightarrow> unit res \<times> 'c volume" where
  "rename_within E parent old_name new_name child child_is_dir v =
     st_bind (read_dir E parent v) (\<lambda>(_, dt) v.
     st_bind (dt_lookup dt new_name, v) (\<lambda>r v.
     st_bind
       (case r of
          Some entry \<Rightarrow>
            st_bind (inode_read E (de_inumber entry) v) (\<lambda>dest v. guard_dest E child_is_dir dest v)
        | None \<Rightarrow> (Ok (), v)) (\<lambda>_ v.
     st_bind (entry_count dt, v) (\<lambda>index v.
     st_bind (read_dir E parent v) (\<lambda>(p, dt) v.
     st_bind (rename_entry dt old_name new_name child index, v) (\<lambda>dt' v.
     st_bind (update_at E p (put_root dt') v) (\<lambda>_ v. mark_page_dirty E parent (i_page_block p) v)))))))"

definition rename :: "'c env \<Rightarrow> 32 word \<Rightarrow> str \<Rightarrow> 32 word \<Rightarrow> str \<Rightarrow> 'c volume \<Rightarrow> bool res \<times> 'c volume" where
  "rename E old_parent old_name new_parent new_name v =
     (let old_u16 = encode_utf16 old_name; new_u16 = encode_utf16 new_name in
      st_bind (v_begin v) (\<lambda>_ v.
        if \<not> name_ok old_u16 then fail_with E (Other ''invalid source filename length'') v
        else if \<not> name_ok new_u16 then fail_with E (Other ''invalid destination filename length'') v
        else
          st_bind (rename_source E old_parent old_u16 v) (\<lambda>(child, child_is_dir) v.
          st_bind (if old_parent \<noteq> new_parent
                   then rename_across E old_parent old_u16 new_parent new_u16 child child_is_dir v
                   else rename_within E old_parent old_u16 new_u16 child child_is_dir v) (\<lambda>_ v.
          st_bind (v_commit E v) (\<lambda>_ v. (Ok True, v))))))"

end
