(* ===== verification/Volume_Xattr.thy ===== *)
theory Volume_Xattr
  imports Inode_Edit Rust_Str
begin

text \<open>
  The extended attributes of \<open>volume.rs\<close>, a list of length-prefixed names and values in the first 128 bytes
  of the inode's union, and what is read back after an attribute is set or removed.
\<close>

section \<open>The attribute list\<close>

definition IXATTRSIZE :: nat where "IXATTRSIZE = 128"
definition INLINEEA :: "32 word" where "INLINEEA = 0x00040000"

function parse_xattr_from :: "bytes \<Rightarrow> nat \<Rightarrow> (bytes \<times> bytes) list" where
  "parse_xattr_from data pos =
     (if length data < pos + 4 then []
      else
        let name_len = unat (read_u16 (arr2_of (slice pos (pos + 2) data)));
            val_len = unat (read_u16 (arr2_of (slice (pos + 2) (pos + 4) data)));
            p = pos + 4
        in
        if length data < p + name_len + val_len then []
        else
          (slice p (p + name_len) data, slice (p + name_len) (p + name_len + val_len) data) #
          parse_xattr_from data (p + name_len + val_len))"
  by pat_completeness auto
termination by (relation "measure (\<lambda>(data, pos). length data - pos)") auto

declare parse_xattr_from.simps [simp del]

definition parse_xattr_list :: "bytes \<Rightarrow> (bytes \<times> bytes) list" where
  "parse_xattr_list data = parse_xattr_from data 0"

definition write_xattr_entry :: "bytes \<Rightarrow> bytes \<Rightarrow> bytes \<Rightarrow> bytes" where
  "write_xattr_entry buf name val =
     (let name_len = min (length name) 255; val_len = min (length val) 65535 in
      buf @ list_of_arr2 (write_u16 (word_of_nat name_len)) @ list_of_arr2 (write_u16 (word_of_nat val_len)) @
      take name_len name @ val)"

definition write_xattr_list :: "(bytes \<times> bytes) list \<Rightarrow> bytes" where
  "write_xattr_list es = fold (\<lambda>(name, val) buf. write_xattr_entry buf name val) es []"

definition read_inline_xattr_data :: "inode \<Rightarrow> bytes" where
  "read_inline_xattr_data i =
     (let ea = di_ea (i_dinode i); ea_size = unat (dxd_length ea); u = di_u (i_dinode i) in
      if dxd_flag ea AND DXD_INLINE = 0 then []
      else if ea_size = 0 then []
      else slice 0 (min ea_size (length u)) u)"

definition xattrs :: "inode \<Rightarrow> (bytes \<times> bytes) list" where
  "xattrs i = parse_xattr_list (read_inline_xattr_data i)"

text \<open>The replacement of an existing value, or the new entry at the end.\<close>

definition replace_xattr :: "(bytes \<times> bytes) list \<Rightarrow> bytes \<Rightarrow> bytes \<Rightarrow> (bytes \<times> bytes) list" where
  "replace_xattr es name val =
     map (\<lambda>(n, x). if n = name then (n, val) else (n, x)) es @
     (if name \<in> fst ` set es then [] else [(name, val)])"

text \<open>
  The change of the inode: the area is cleared and rewritten, the descriptor at 104 gets the flag, the
  size and a null location, and the mode its flag.
\<close>

definition put_xattr_area :: "bytes \<Rightarrow> byte \<Rightarrow> (32 word \<Rightarrow> 32 word) \<Rightarrow> bytes \<Rightarrow> bytes" where
  "put_xattr_area list flag mode_change d =
     (let d = splice 128 (replicate IXATTRSIZE 0) d;
          d = (if 128 + length list \<le> length d then splice 128 list d else d);
          d = d[104 := flag];
          d = put_u32 (104 + 4) (word_of_nat (length list)) d;
          d = splice (104 + 8) (replicate 8 0) d
      in put_u32 52 (mode_change (get_u32 52 d)) d)"

section \<open>Operations\<close>

definition XATTR_CREATE :: "32 word" where "XATTR_CREATE = 1"
definition XATTR_REPLACE :: "32 word" where "XATTR_REPLACE = 2"

definition finish_xattr :: "'c env \<Rightarrow> inode \<Rightarrow> (bytes \<Rightarrow> bytes) \<Rightarrow> 'c volume \<Rightarrow> unit res \<times> 'c volume" where
  "finish_xattr E i f v =
     st_bind (update_inode_page E (i_ino i) (i_page_block i) (i_page_offset i) (\<lambda>d. Ok (f d)) v) (\<lambda>_ v.
     st_bind (mark_page_dirty E (i_ino i) (i_page_block i) v) (\<lambda>_ v.
     st_bind (v_commit E v) (\<lambda>_ v. (Ok (), v))))"

definition setxattr :: "'c env \<Rightarrow> 32 word \<Rightarrow> str \<Rightarrow> bytes \<Rightarrow> 32 word \<Rightarrow> 'c volume \<Rightarrow> unit res \<times> 'c volume" where
  "setxattr E ino name val flags v =
     (let name_bytes = as_bytes name in
      st_bind (v_begin v) (\<lambda>_ v.
      st_bind (inode_read E ino v) (\<lambda>i v.
        if 255 < length name_bytes then fail_with E XattrNameTooLong v
        else if IXATTRSIZE < length val then fail_with E XattrValueTooLarge v
        else
          let exists = name_bytes \<in> fst ` set (xattrs i);
              new_list = write_xattr_list (replace_xattr (xattrs i) name_bytes val) in
          if flags AND XATTR_CREATE \<noteq> 0 \<and> exists then fail_with E XattrAlreadyExists v
          else if flags AND XATTR_REPLACE \<noteq> 0 \<and> \<not> exists then fail_with E XattrNotFound v
          else if IXATTRSIZE < length new_list then fail_with E XattrDataTooLarge v
          else finish_xattr E i (put_xattr_area new_list DXD_INLINE (\<lambda>m. m OR INLINEEA)) v)))"

definition getxattr :: "'c env \<Rightarrow> 32 word \<Rightarrow> str \<Rightarrow> 'c volume \<Rightarrow> bytes option res \<times> 'c volume" where
  "getxattr E ino name v =
     st_bind (inode_read E ino v) (\<lambda>i v. (Ok (map_of (xattrs i) (as_bytes name)), v))"

definition listxattr :: "'c env \<Rightarrow> 32 word \<Rightarrow> 'c volume \<Rightarrow> str list res \<times> 'c volume" where
  "listxattr E ino v = st_bind (inode_read E ino v) (\<lambda>i v. (Ok (map (\<lambda>(n, _). from_utf8_lossy n) (xattrs i)), v))"

definition removexattr :: "'c env \<Rightarrow> 32 word \<Rightarrow> str \<Rightarrow> 'c volume \<Rightarrow> bool res \<times> 'c volume" where
  "removexattr E ino name v =
     (let name_bytes = as_bytes name in
      st_bind (v_begin v) (\<lambda>_ v.
      st_bind (inode_read E ino v) (\<lambda>i v.
        if name_bytes \<notin> fst ` set (xattrs i) then st_bind (v_abort E v) (\<lambda>_ v. (Ok False, v))
        else
          let new_list = write_xattr_list (filter (\<lambda>(n, _). n \<noteq> name_bytes) (xattrs i)) in
          st_bind
            (finish_xattr E i
               (put_xattr_area new_list (if new_list = [] then 0 else DXD_INLINE)
                  (\<lambda>m. if new_list = [] then m AND NOT INLINEEA else m OR INLINEEA)) v) (\<lambda>_ v. (Ok True, v)))))"

section \<open>Reading back the list\<close>

definition xattr_bytes :: "bytes \<times> bytes \<Rightarrow> bytes" where
  "xattr_bytes e = list_of_arr2 (write_u16 (word_of_nat (length (fst e)))) @
     list_of_arr2 (write_u16 (word_of_nat (length (snd e)))) @ fst e @ snd e"

definition storable :: "(bytes \<times> bytes) list \<Rightarrow> bool" where
  "storable es \<longleftrightarrow> (\<forall>e\<in>set es. length (fst e) \<le> 255 \<and> length (snd e) \<le> 65535)"

lemma write_xattr_fold:
  assumes "storable es"
  shows "fold (\<lambda>(name, val) buf. write_xattr_entry buf name val) es buf = buf @ concat (map xattr_bytes es)"
  using assms
proof (induction es arbitrary: buf)
  case (Cons e es)
  then have "storable es" "length (fst e) \<le> 255" "length (snd e) \<le> 65535" by (simp_all add: storable_def)
  with Cons.IH show ?case by (cases e) (simp add: write_xattr_entry_def xattr_bytes_def min_def)
qed simp

lemma write_xattr_list_storable: "storable es \<Longrightarrow> write_xattr_list es = concat (map xattr_bytes es)"
  unfolding write_xattr_list_def by (simp add: write_xattr_fold)

lemma parse_xattr_entry:
  assumes "length (fst e) \<le> 255" "length (snd e) \<le> 65535"
  shows "parse_xattr_from (pre @ xattr_bytes e @ post) (length pre) =
    e # parse_xattr_from (pre @ xattr_bytes e @ post) (length pre + length (xattr_bytes e))"
proof -
  obtain n x where e: "e = (n, x)" by (cases e)
  let ?p = "length pre"
  define d where "d = pre @ xattr_bytes e @ post"
  have s: "slice ?p (?p + 2) d = list_of_arr2 (write_u16 (word_of_nat (length n)))"
    "slice (?p + 2) (?p + 4) d = list_of_arr2 (write_u16 (word_of_nat (length x)))"
    "slice (?p + 4) (?p + 4 + length n) d = n"
    "slice (?p + 4 + length n) (?p + 4 + length n + length x) d = x"
    by (simp_all add: d_def e xattr_bytes_def layout_select)
  have u: "unat (word_of_nat (length n) :: 16 word) = length n" "unat (word_of_nat (length x) :: 16 word) = length x"
    using assms by (simp_all add: e unsigned_of_nat take_bit_nat_eq_self)
  have l: "length (xattr_bytes e) = 4 + length n + length x" by (simp add: e xattr_bytes_def)
  have ld: "\<not> length d < ?p + 4" "\<not> length d < ?p + 4 + length n + length x" by (simp_all add: d_def l)
  have "parse_xattr_from d ?p = (n, x) # parse_xattr_from d (?p + 4 + length n + length x)"
    by (subst parse_xattr_from.simps) (simp only: s u ld Let_def if_False arr_of_list read_write_u16)
  then show ?thesis by (simp only: d_def e l [unfolded e] add.assoc)
qed

text \<open>Parsing inverts writing.\<close>

lemma parse_write_from:
  assumes "storable es"
  shows "parse_xattr_from (pre @ concat (map xattr_bytes es)) (length pre) = es"
  using assms
proof (induction es arbitrary: pre)
  case Nil
  then show ?case by (subst parse_xattr_from.simps) simp
next
  case (Cons e es)
  then have e: "length (fst e) \<le> 255" "length (snd e) \<le> 65535" and es: "storable es" by (simp_all add: storable_def)
  show ?case using parse_xattr_entry [OF e, of pre "concat (map xattr_bytes es)"] Cons.IH [OF es, of "pre @ xattr_bytes e"]
    by simp
qed

lemma parse_write_xattr: "storable es \<Longrightarrow> parse_xattr_list (write_xattr_list es) = es"
  using parse_write_from [of es "[]"] by (simp add: parse_xattr_list_def write_xattr_list_storable)

text \<open>A list that fits the area has no name or value that the writer would cut.\<close>

lemma length_write_fold:
  "length (fold (\<lambda>(name, val) buf. write_xattr_entry buf name val) es buf) =
     length buf + sum_list (map (\<lambda>(n, x). 4 + min (length n) 255 + length x) es)"
  by (induction es arbitrary: buf) (auto simp: write_xattr_entry_def Let_def split: prod.splits)

lemma fits_storable:
  assumes "length (write_xattr_list es) \<le> IXATTRSIZE"
  shows "storable es"
proof -
  have "(\<lambda>(n, x). 4 + min (length n) 255 + length x) e \<le> 128" if "e \<in> set es" for e :: "bytes \<times> bytes"
    using member_le_sum_list [of "(\<lambda>(n, x). 4 + min (length n) 255 + length x) e" "map (\<lambda>(n, x). 4 + min (length n) 255 + length x) es"]
      that assms by (auto simp: write_xattr_list_def length_write_fold IXATTRSIZE_def)
  then show ?thesis by (fastforce simp: storable_def)
qed

lemma map_of_replace_map:
  "map_of (map (\<lambda>(k, y). if k = n then (k, x) else (k, y)) es) k = (if k = n then map_option (\<lambda>_. x) (map_of es n) else map_of es k)"
  by (induction es) auto

lemma map_of_replace_xattr: "map_of (replace_xattr es n x) = (map_of es)(n \<mapsto> x)"
proof
  fix k
  have "map_of es n = None \<longleftrightarrow> n \<notin> fst ` set es" by (simp add: map_of_eq_None_iff)
  then show "map_of (replace_xattr es n x) k = ((map_of es)(n \<mapsto> x)) k"
    by (cases "map_of es n") (simp_all add: replace_xattr_def map_add_def map_of_replace_map split: option.split)
qed

section \<open>The inode after a change of its attributes\<close>

definition xattr_update :: "bytes \<Rightarrow> byte \<Rightarrow> (32 word \<Rightarrow> 32 word) \<Rightarrow> dinode \<Rightarrow> dinode" where
  "xattr_update list flag g di = di
     \<lparr>di_u := list @ replicate (IXATTRSIZE - length list) 0 @ drop IXATTRSIZE (di_u di),
      di_ea := \<lparr>dxd_flag = flag, dxd_rsrvd = dxd_rsrvd (di_ea di), dxd_size = write_u32 (word_of_nat (length list)),
                dxd_loc = pxd_from_bytes (replicate 8 0)\<rparr>,
      di_mode := write_u32 (g (mode di))\<rparr>"

lemma clear_area:
  assumes "length d = DISIZE" "length list \<le> IXATTRSIZE"
  shows "splice 128 list (splice 128 (replicate IXATTRSIZE 0) d) =
    take 128 d @ list @ replicate (IXATTRSIZE - length list) 0 @ drop 256 d"
  using assms by (simp add: splice_def IXATTRSIZE_def DISIZE_def min_def)

lemma area_parse:
  assumes "length d = DISIZE" "length list \<le> IXATTRSIZE" "dinode_parse d = Inr di"
  defines "d2 \<equiv> splice 128 list (splice 128 (replicate IXATTRSIZE 0) d)"
  shows "length d2 = DISIZE" "slice 4 12 d2 = slice 4 12 d"
    "dinode_parse d2 = Inr (di\<lparr>di_u := list @ replicate (IXATTRSIZE - length list) 0 @ drop IXATTRSIZE (di_u di)\<rparr>)"
proof -
  have l: "length d = 512" "length list \<le> 128" using assms(1,2) by (simp_all add: DISIZE_def IXATTRSIZE_def)
  have e: "d2 = take 128 d @ list @ replicate (128 - length list) 0 @ drop 256 d"
    using clear_area [OF assms(1,2)] by (simp add: d2_def IXATTRSIZE_def)
  have s: "slice a b d2 = slice a b d" if "b \<le> 128" for a b
  proof (cases "a \<le> b")
    case True
    then show ?thesis using that l by (simp add: e slice_def take_drop min_def)
  qed simp
  have n: "d2 ! k = d ! k" if "k < 128" for k using that l by (simp add: e nth_append)
  have u: "slice 128 512 d2 = list @ replicate (128 - length list) 0 @ drop 128 (slice 128 512 d)"
    using l by (simp add: e slice_def)
  show "length d2 = DISIZE" using l by (simp add: e DISIZE_def)
  show "slice 4 12 d2 = slice 4 12 d" by (rule s) simp
  show "dinode_parse d2 = Inr (di\<lparr>di_u := list @ replicate (IXATTRSIZE - length list) 0 @ drop IXATTRSIZE (di_u di)\<rparr>)"
    using assms(3) l by (auto simp: dinode_parse_def parse_timestruc_def parse_dxd_def s n u IXATTRSIZE_def e [THEN arg_cong, of length])
qed

lemma ea_parse:
  fixes n :: nat and flag :: byte
  assumes "length d = DISIZE" "dinode_parse d = Inr di"
  defines "d5 \<equiv> splice 112 (replicate 8 0) (put_u32 108 (word_of_nat n) (d[104 := flag]))"
  shows "length d5 = DISIZE" "slice 4 12 d5 = slice 4 12 d"
    "dinode_parse d5 = Inr (di\<lparr>di_ea := \<lparr>dxd_flag = flag, dxd_rsrvd = dxd_rsrvd (di_ea di),
       dxd_size = write_u32 (word_of_nat n), dxd_loc = pxd_from_bytes (replicate 8 0)\<rparr>\<rparr>)"
proof -
  have l: "length d = 512" using assms(1) by (simp add: DISIZE_def)
  show "length d5 = DISIZE" using l by (simp add: d5_def DISIZE_def)
  show "slice 4 12 d5 = slice 4 12 d" using l by (simp add: d5_def slice_splice_other slice_update_other)
  show "dinode_parse d5 = Inr (di\<lparr>di_ea := \<lparr>dxd_flag = flag, dxd_rsrvd = dxd_rsrvd (di_ea di),
       dxd_size = write_u32 (word_of_nat n), dxd_loc = pxd_from_bytes (replicate 8 0)\<rparr>\<rparr>)"
    using assms(2) l
    by (auto simp: d5_def dinode_parse_def parse_timestruc_def parse_dxd_def put_u32_def slice_splice_other
        slice_splice_same' slice_update_other nth_splice)
qed

lemma put_xattr_area_parse:
  assumes "length d = DISIZE" "dinode_parse d = Inr di" "length list \<le> IXATTRSIZE"
  shows "length (put_xattr_area list flag g d) = DISIZE" "slice 4 12 (put_xattr_area list flag g d) = slice 4 12 d"
    "dinode_parse (put_xattr_area list flag g d) = Inr (xattr_update list flag g di)"
proof -
  define d2 where "d2 = splice 128 list (splice 128 (replicate IXATTRSIZE 0) d)"
  define d5 where "d5 = splice 112 (replicate 8 0) (put_u32 108 (word_of_nat (length list)) (d2[104 := flag]))"
  note a = area_parse [OF assms(1,3,2), folded d2_def]
  note b = ea_parse [OF a(1,3), of "length list" flag, folded d5_def]
  have "128 + length list \<le> length (splice 128 (replicate IXATTRSIZE 0) d)"
    using assms by (simp add: IXATTRSIZE_def DISIZE_def)
  then have p: "put_xattr_area list flag g d = put_u32 52 (g (get_u32 52 d5)) d5"
    by (simp add: put_xattr_area_def d5_def d2_def Let_def)
  show "length (put_xattr_area list flag g d) = DISIZE" "slice 4 12 (put_xattr_area list flag g d) = slice 4 12 d"
    using a b by (simp_all add: p DISIZE_def)
  show "dinode_parse (put_xattr_area list flag g d) = Inr (xattr_update list flag g di)"
    unfolding p put_fields(4) [OF b(1,3)] get_mode [OF b(1,3)] by (simp add: xattr_update_def mode_def)
qed

lemma xattrs_update:
  assumes "length list \<le> IXATTRSIZE" "flag = DXD_INLINE \<or> list = []"
  shows "xattrs (i\<lparr>i_dinode := xattr_update list flag g di\<rparr>) = parse_xattr_list list"
proof -
  have "unat (word_of_nat (length list) :: 32 word) = length list"
    using assms(1) by (simp add: IXATTRSIZE_def unsigned_of_nat take_bit_nat_eq_self)
  then show ?thesis using assms
    by (auto simp: xattrs_def read_inline_xattr_data_def xattr_update_def dxd_length_def DXD_INLINE_def slice_def Let_def)
qed

text \<open>The tail of the attribute operations on an idle volume.\<close>

lemma finish_xattr_correct:
  assumes "library E valid" "idle E valid (n + 2) v" "inode_read E ino v = (Ok i, v)" "length list \<le> IXATTRSIZE"
  shows "\<exists>v1 v'. v_begin v = (Ok (next_txid (v_tx v)), v1) \<and> inode_read E ino v1 = (Ok i, v1) \<and>
    finish_xattr E i (put_xattr_area list flag g) v1 = (Ok (), v') \<and> idle E valid n v' \<and>
    inode_read E ino v' = (Ok (i\<lparr>i_dinode := xattr_update list flag g (i_dinode i)\<rparr>), v')"
proof -
  have q: "quiet E valid v" using assms(2) by (simp add: idle_def)
  have ino: "i_ino i = ino" using library.inode_read_slot [OF assms(1) q assms(3)] by blast
  have "\<exists>d'. Ok (put_xattr_area list flag g d) = Ok d' \<and> length d' = DISIZE \<and> slice 4 12 d' = slice 4 12 d \<and>
      dinode_parse d' = Inr (xattr_update list flag g (i_dinode i))"
    if "length d = DISIZE" "dinode_parse d = Inr (i_dinode i)" for d
    using put_xattr_area_parse [OF that assms(4)] by blast
  from library.edit_correct [OF assms(1-3), of "\<lambda>d. Ok (put_xattr_area list flag g d)", OF this] obtain v1 v' where e:
    "v_begin v = (Ok (next_txid (v_tx v)), v1)" "inode_read E ino v1 = (Ok i, v1)"
    "st_bind (update_inode_page E ino (i_page_block i) (i_page_offset i) (\<lambda>d. Ok (put_xattr_area list flag g d)) v1) (\<lambda>_ v.
      st_bind (mark_page_dirty E ino (i_page_block i) v) (\<lambda>_ v. st_bind (v_commit E v) (\<lambda>_ v. (Ok (), v)))) = (Ok (), v')"
    "idle E valid n v'"
    "\<forall>j. inode_read E j v' = (case fst (inode_read E j v) of
       Ok k \<Rightarrow> Ok (if i_page_block k = i_page_block i \<and> i_page_offset k = i_page_offset i
                  then k\<lparr>i_dinode := xattr_update list flag g (i_dinode i)\<rparr> else k)
     | r \<Rightarrow> r, v')" by blast
  moreover have "inode_read E ino v' = (Ok (i\<lparr>i_dinode := xattr_update list flag g (i_dinode i)\<rparr>), v')"
    using e(5) assms(3) by simp
  ultimately show ?thesis by (auto simp: finish_xattr_def ino)
qed

section \<open>Set, get, remove\<close>

lemma setxattr_effect:
  assumes "library E valid" "idle E valid (n + 2) v" "inode_read E ino v = (Ok i, v)"
    "length (as_bytes name) \<le> 255" "length val \<le> IXATTRSIZE"
    "flags AND XATTR_CREATE \<noteq> 0 \<Longrightarrow> map_of (xattrs i) (as_bytes name) = None"
    "flags AND XATTR_REPLACE \<noteq> 0 \<Longrightarrow> map_of (xattrs i) (as_bytes name) \<noteq> None"
    "length (write_xattr_list (replace_xattr (xattrs i) (as_bytes name) val)) \<le> IXATTRSIZE"
  shows "\<exists>v'. setxattr E ino name val flags v = (Ok (), v') \<and> idle E valid n v' \<and>
    (\<forall>other. getxattr E ino other v' = (Ok (((map_of (xattrs i))(as_bytes name \<mapsto> val)) (as_bytes other)), v'))"
proof -
  let ?es = "replace_xattr (xattrs i) (as_bytes name) val"
  from finish_xattr_correct [OF assms(1-3,8), of DXD_INLINE "\<lambda>m. m OR INLINEEA"] obtain v1 v' where
    f: "v_begin v = (Ok (next_txid (v_tx v)), v1)" "inode_read E ino v1 = (Ok i, v1)"
    "finish_xattr E i (put_xattr_area (write_xattr_list ?es) DXD_INLINE (\<lambda>m. m OR INLINEEA)) v1 = (Ok (), v')"
    "idle E valid n v'"
    "inode_read E ino v' = (Ok (i\<lparr>i_dinode := xattr_update (write_xattr_list ?es) DXD_INLINE (\<lambda>m. m OR INLINEEA) (i_dinode i)\<rparr>), v')"
    by blast
  have n: "map_of (xattrs i) (as_bytes name) = None \<longleftrightarrow> as_bytes name \<notin> fst ` set (xattrs i)"
    by (simp add: map_of_eq_None_iff)
  have "setxattr E ino name val flags v = (Ok (), v')"
    using f(1-3) assms(4-8) n by (auto simp: setxattr_def Let_def)
  moreover have "getxattr E ino other v' = (Ok (((map_of (xattrs i))(as_bytes name \<mapsto> val)) (as_bytes other)), v')" for other
    using f(5) xattrs_update [OF assms(8), of DXD_INLINE] parse_write_xattr [OF fits_storable [OF assms(8)]]
    by (simp add: getxattr_def map_of_replace_xattr)
  ultimately show ?thesis using f(4) by blast
qed

text \<open>
  C13. Setting an extended attribute and reading it back: when the name, the value and the whole list
  fit and the flags allow it, the call succeeds, and afterwards the name has the new value and
  every other name what it had.
\<close>

theorem setxattr_getxattr:
  assumes "library E valid" "idle E valid (n + 2) v" "inode_read E ino v = (Ok i, v)"
    "length (as_bytes name) \<le> 255" "length val \<le> IXATTRSIZE"
    "flags AND XATTR_CREATE \<noteq> 0 \<Longrightarrow> map_of (xattrs i) (as_bytes name) = None"
    "flags AND XATTR_REPLACE \<noteq> 0 \<Longrightarrow> map_of (xattrs i) (as_bytes name) \<noteq> None"
    "length (write_xattr_list (replace_xattr (xattrs i) (as_bytes name) val)) \<le> IXATTRSIZE"
  shows "\<exists>v'. setxattr E ino name val flags v = (Ok (), v') \<and> idle E valid n v' \<and>
    (\<forall>other. getxattr E ino other v' = (Ok (((map_of (xattrs i))(as_bytes name \<mapsto> val)) (as_bytes other)), v'))"
  using setxattr_effect [OF assms] .

lemma map_of_filter_ne: "map_of (filter (\<lambda>(k, _). k \<noteq> n) es) = (map_of es)(n := None)"
  by (induction es) (auto simp: fun_eq_iff)

text \<open>
  Removing an extended attribute: the call says whether the name was there, and afterwards it is
  gone while every other name keeps its value.
\<close>

theorem removexattr_getxattr:
  assumes "library E valid" "idle E valid (n + 2) v" "inode_read E ino v = (Ok i, v)"
    "as_bytes name \<in> fst ` set (xattrs i)"
    "length (write_xattr_list (filter (\<lambda>(n, _). n \<noteq> as_bytes name) (xattrs i))) \<le> IXATTRSIZE"
  shows "\<exists>v'. removexattr E ino name v = (Ok True, v') \<and> idle E valid n v' \<and>
    (\<forall>other. getxattr E ino other v' = (Ok (((map_of (xattrs i))(as_bytes name := None)) (as_bytes other)), v'))"
proof -
  let ?l = "write_xattr_list (filter (\<lambda>(n, _). n \<noteq> as_bytes name) (xattrs i))"
  let ?f = "if ?l = [] then 0 else DXD_INLINE" and ?g = "\<lambda>m. if ?l = [] then m AND NOT INLINEEA else m OR INLINEEA"
  from finish_xattr_correct [OF assms(1-3,5), of ?f ?g] obtain v1 v' where
    f: "v_begin v = (Ok (next_txid (v_tx v)), v1)" "inode_read E ino v1 = (Ok i, v1)"
    "finish_xattr E i (put_xattr_area ?l ?f ?g) v1 = (Ok (), v')" "idle E valid n v'"
    "inode_read E ino v' = (Ok (i\<lparr>i_dinode := xattr_update ?l ?f ?g (i_dinode i)\<rparr>), v')"
    by blast
  have "removexattr E ino name v = (Ok True, v')" using f(1-3) assms(4) by (simp add: removexattr_def Let_def)
  moreover have "getxattr E ino other v' = (Ok (((map_of (xattrs i))(as_bytes name := None)) (as_bytes other)), v')" for other
    using f(5) xattrs_update [OF assms(5), of ?f] parse_write_xattr [OF fits_storable [OF assms(5)]]
    by (simp add: getxattr_def map_of_filter_ne)
  ultimately show ?thesis using f(4) by blast
qed

lemma live_empty: "next_index x \<le> XTENTRYSTART \<Longrightarrow> live x = []"
  by (simp add: live_def xt_consts min_def)

lemma parse_xads_total: "\<exists>ys. parse_xads data base is xs = Ok ys"
proof (induction "is" arbitrary: xs)
  case (Cons i "is")
  then show ?case by (auto simp: parse_xad_def Let_def)
qed simp

lemma from_inode_data_total: "96 \<le> length data \<Longrightarrow> \<exists>x. from_inode_data data = Ok x"
  using parse_xads_total [of data 32 "[0..<XTROOTMAXSLOT - XTENTRYSTART]" "xads xtroot_default"]
  by (auto simp: from_inode_data_def parse_xtroot_def)

text \<open>
  The attribute area overlaps the root of the extent tree, which starts 96 bytes into the union: after an
  attribute is set on a file whose list takes at most 114 bytes, the header of the root is zero and
  no block of the file is mapped.
\<close>

theorem setxattr_unmaps_file:
  assumes "library E valid" "idle E valid (n + 2) v" "inode_read E ino v = (Ok i, v)" "length (di_u (i_dinode i)) = 384"
    "setxattr E ino name val flags v = (Ok (), v')"
    "length (write_xattr_list (replace_xattr (xattrs i) (as_bytes name) val)) \<le> 114"
  shows "\<exists>i' x'. inode_read E ino v' = (Ok i', v') \<and> inode_size i' = inode_size i \<and>
    from_inode_data (xtroot_bytes (i_dinode i')) = Ok x' \<and> (\<forall>b. lookup x' b = None)"
proof -
  let ?l = "write_xattr_list (replace_xattr (xattrs i) (as_bytes name) val)"
  have l: "length ?l \<le> IXATTRSIZE" using assms(6) by (simp add: IXATTRSIZE_def)
  from finish_xattr_correct [OF assms(1-3) l, of DXD_INLINE "\<lambda>m. m OR INLINEEA"] obtain v1 w where
    f: "v_begin v = (Ok (next_txid (v_tx v)), v1)" "inode_read E ino v1 = (Ok i, v1)"
    "finish_xattr E i (put_xattr_area ?l DXD_INLINE (\<lambda>m. m OR INLINEEA)) v1 = (Ok (), w)"
    "inode_read E ino w = (Ok (i\<lparr>i_dinode := xattr_update ?l DXD_INLINE (\<lambda>m. m OR INLINEEA) (i_dinode i)\<rparr>), w)"
    by blast
  have "w = v'" using assms(5) f(1-3)
    by (auto simp: setxattr_def fail_with_def Let_def st_bind_Ok_iff split: if_splits)
  define di where "di = xattr_update ?l DXD_INLINE (\<lambda>m. m OR INLINEEA) (i_dinode i)"
  have "96 \<le> length (xtroot_bytes di)" using assms(4,6) by (simp add: xtroot_bytes_def di_def xattr_update_def IXATTRSIZE_def)
  then obtain x where x: "from_inode_data (xtroot_bytes di) = Ok x" using from_inode_data_total by blast
  have z: "slice 18 20 (xtroot_bytes di) = [0, 0]"
    using assms(4,6) by (simp add: xtroot_bytes_def di_def xattr_update_def IXATTRSIZE_def slice_def numeral_2_eq_2)
  have "lookup x b = None" for b
  proof -
    from x z have "xh_nextindex (header x) = arr2_of [0, 0]"
      by (auto simp: from_inode_data_def parse_xtroot_def res_bind_Ok_iff split: if_splits)
    then have "live x = []" by (intro live_empty) (simp add: next_index_def nextindex_def arr2_of_def xt_consts)
    then show ?thesis by (simp add: lookup_def)
  qed
  moreover have "inode_size (i\<lparr>i_dinode := di\<rparr>) = inode_size i"
    by (simp add: inode_size_def size_val_def di_def xattr_update_def)
  ultimately show ?thesis using f(4) \<open>w = v'\<close> x by (intro exI [of _ "i\<lparr>i_dinode := di\<rparr>"] exI [of _ x]) (simp add: di_def)
qed

section \<open>Examples\<close>

text \<open>A regular file with no attributes, and the same file with the attribute \<open>a\<close>.\<close>

definition demo_file :: dinode where
  "demo_file = demo_inode 0x81a4"

lemma demo_file_read:
  "inode_read list_env 18 (demo_volume demo_file) = (Ok (demo_at demo_file), demo_volume demo_file)"
  "idle list_env ll_valid n (demo_volume demo_file)"
  by (rule demo_read demo_idle, simp_all add: demo_file_def demo_inode_def)+

lemma demo_file_xattrs: "xattrs (demo_at demo_file) = []"
  by (simp add: xattrs_def read_inline_xattr_data_def demo_file_def demo_inode_def parse_dxd_def Let_def parse_xattr_list_def
      parse_xattr_from.simps)

lemma demo_name: "as_bytes (str_of ''a'') = [97]"
  by (simp add: as_bytes_def str_of_def utf8_char_def)

lemma demo_list: "write_xattr_list (replace_xattr [] [97] [1, 2]) = [1, 0, 2, 0, 97, 1, 2]"
  by (simp add: write_xattr_list_def replace_xattr_def write_xattr_entry_def write_u16_def Let_def)

theorem setxattr_getxattr_witness:
  "\<exists>v'. setxattr list_env 18 (str_of ''a'') [1, 2] 0 (demo_volume demo_file) = (Ok (), v') \<and>
     getxattr list_env 18 (str_of ''a'') v' = (Ok (Some [1, 2]), v')"
  using setxattr_getxattr [OF lenv.library_axioms demo_file_read(2) [of "0 + 2"] demo_file_read(1), of "str_of ''a''" "[1, 2]" 0]
  by (auto simp: demo_name demo_file_xattrs demo_list IXATTRSIZE_def)

theorem setxattr_unmaps_file_witness:
  "\<exists>v' i' x'. setxattr list_env 18 (str_of ''a'') [1, 2] 0 (demo_volume demo_file) = (Ok (), v') \<and>
     inode_read list_env 18 v' = (Ok i', v') \<and> from_inode_data (xtroot_bytes (i_dinode i')) = Ok x' \<and>
     (\<forall>b. lookup x' b = None)"
proof -
  obtain v' where s: "setxattr list_env 18 (str_of ''a'') [1, 2] 0 (demo_volume demo_file) = (Ok (), v')"
    using setxattr_effect [OF lenv.library_axioms demo_file_read(2) [of "0 + 2"] demo_file_read(1), of "str_of ''a''" "[1, 2]" 0]
    by (auto simp: demo_name demo_file_xattrs demo_list IXATTRSIZE_def)
  have "length (di_u demo_file) = 384" by (simp add: demo_file_def demo_inode_def)
  with setxattr_unmaps_file [OF lenv.library_axioms demo_file_read(2) [of "0 + 2"] demo_file_read(1) _ s] s show ?thesis
    by (auto simp: demo_name demo_file_xattrs demo_list)
qed

definition tagged_file :: dinode where
  "tagged_file = xattr_update [1, 0, 2, 0, 97, 1, 2] DXD_INLINE (\<lambda>m. m) demo_file"

lemma tagged_file_read:
  "inode_read list_env 18 (demo_volume tagged_file) = (Ok (demo_at tagged_file), demo_volume tagged_file)"
  "idle list_env ll_valid n (demo_volume tagged_file)"
  by (rule demo_read demo_idle, simp_all add: tagged_file_def xattr_update_def demo_file_def demo_inode_def IXATTRSIZE_def)+

lemma tagged_file_xattrs: "xattrs (demo_at tagged_file) = [([97], [1, 2])]"
proof -
  have st: "storable [([97], [1, 2])]" by (simp add: storable_def)
  have "write_xattr_list [([97], [1, 2])] = [1, 0, 2, 0, 97, 1, 2]" using demo_list by (simp add: replace_xattr_def)
  with parse_write_xattr [OF st] have "parse_xattr_list [1, 0, 2, 0, 97, 1, 2] = [([97], [1, 2])]" by simp
  with xattrs_update [of "[1, 0, 2, 0, 97, 1, 2]" DXD_INLINE "\<lambda>m. m" demo_file "demo_at demo_file"]
  show ?thesis by (simp add: tagged_file_def IXATTRSIZE_def demo_at_def)
qed

theorem removexattr_getxattr_witness:
  "\<exists>v'. removexattr list_env 18 (str_of ''a'') (demo_volume tagged_file) = (Ok True, v') \<and>
     getxattr list_env 18 (str_of ''a'') v' = (Ok None, v')"
  using removexattr_getxattr [OF lenv.library_axioms tagged_file_read(2) [of "0 + 2"] tagged_file_read(1), of "str_of ''a''"]
  by (auto simp: demo_name tagged_file_xattrs write_xattr_list_def)

end
