(* ===== verification/Volume_Check.thy ===== *)
theory Volume_Check
  imports Volume_Xattr Volume_File
begin

text \<open>
  The consistency check of \<open>volume.rs\<close> that \<open>jfsck\<close> runs: three passes over the entries of the root directory,
  collecting a report. The theorem says exactly when the report has no error.
\<close>

section \<open>Consistency check\<close>

record check_issue =
  ci_level :: nat
  ci_message :: string
  ci_block :: "nat option"
  ci_ino :: "32 word option"

type_synonym check_report = "check_issue list"

definition report_clean :: "check_report \<Rightarrow> bool" where
  "report_clean r \<longleftrightarrow> \<not> (\<exists>i\<in>set r. 2 \<le> ci_level i)"

definition add_error :: "string \<Rightarrow> check_report \<Rightarrow> check_report" where
  "add_error msg r = r @ [\<lparr>ci_level = 2, ci_message = msg, ci_block = None, ci_ino = None\<rparr>]"

definition add_warning :: "string \<Rightarrow> check_report \<Rightarrow> check_report" where
  "add_warning msg r = r @ [\<lparr>ci_level = 1, ci_message = msg, ci_block = None, ci_ino = None\<rparr>]"

definition add_error_block :: "string \<Rightarrow> nat \<Rightarrow> check_report \<Rightarrow> check_report" where
  "add_error_block msg b r = r @ [\<lparr>ci_level = 2, ci_message = msg, ci_block = Some b, ci_ino = None\<rparr>]"

definition add_error_ino :: "string \<Rightarrow> 32 word \<Rightarrow> check_report \<Rightarrow> check_report" where
  "add_error_ino msg ino r = r @ [\<lparr>ci_level = 2, ci_message = msg, ci_block = None, ci_ino = Some ino\<rparr>]"

definition is_dot_name :: "ucs2 \<Rightarrow> bool" where
  "is_dot_name name \<longleftrightarrow> trim_end_nul (from_utf16_lossy name) \<in> {str_of ''.'', str_of ''..''}"

text \<open>
  A pass over the entries of the root directory other than \<open>.\<close> and \<open>..\<close>: \<open>good\<close> reports on a readable
  inode, \<open>bad\<close> on one that is not.
\<close>

fun check_entries :: "'c env \<Rightarrow> (32 word \<Rightarrow> inode \<Rightarrow> check_report \<Rightarrow> check_report res) \<Rightarrow> (32 word \<Rightarrow> check_report \<Rightarrow> check_report)
    \<Rightarrow> dir_entry list \<Rightarrow> check_report \<Rightarrow> 'c volume \<Rightarrow> check_report res \<times> 'c volume" where
  "check_entries E good bad [] r v = (Ok r, v)"
| "check_entries E good bad (e # es) r v =
     (if is_dot_name (de_name e) then check_entries E good bad es r v
      else
        case inode_read E (de_inumber e) v of
          (Ok i, v1) \<Rightarrow> st_bind (good (de_inumber e) i r, v1) (\<lambda>r v. check_entries E good bad es r v)
        | (Err _, v1) \<Rightarrow> check_entries E good bad es (bad (de_inumber e) r) v1
        | (Panic, v1) \<Rightarrow> (Panic, v1)
        | (Exit, v1) \<Rightarrow> (Exit, v1))"

definition check_type :: "32 word \<Rightarrow> inode \<Rightarrow> check_report \<Rightarrow> check_report res" where
  "check_type ino i r =
     Ok (if mode (i_dinode i) AND 0xf000 = 0 then add_error_ino ''inode has no type (mode=0)'' ino r else r)"

definition check_extents :: "nat \<Rightarrow> 32 word \<Rightarrow> inode \<Rightarrow> check_report \<Rightarrow> check_report res" where
  "check_extents agg_size ino i r =
     (if \<not> is_regular (i_dinode i) then Ok r
      else
        case from_inode_data (xtroot_bytes (i_dinode i)) of
          Ok xt \<Rightarrow>
            let r = (if validate xt then r else add_error_ino ''xtree validation failed'' ino r) in
            Ok (fold (\<lambda>ext r. if agg_size \<le> e_address ext
                        then add_error_block ''extent address exceeds volume size'' (e_address ext) r else r)
                  (iter_extents xt) r)
        | Err _ \<Rightarrow> Ok r
        | Panic \<Rightarrow> Panic
        | Exit \<Rightarrow> Exit)"

definition check_xattr :: "32 word \<Rightarrow> inode \<Rightarrow> check_report \<Rightarrow> check_report res" where
  "check_xattr ino i r =
     Ok (if dxd_flag (di_ea (i_dinode i)) AND DXD_INLINE \<noteq> 0 \<and> mode (i_dinode i) AND INLINEEA = 0
         then add_error_ino ''inode has inline EA descriptor but missing INLINEEA mode flag'' ino r else r)"

definition check_root :: "'c env \<Rightarrow> inode \<Rightarrow> check_report \<Rightarrow> 'c volume \<Rightarrow> check_report res \<times> 'c volume" where
  "check_root E root r v =
     (let r = (if is_dir (i_dinode root) then r
               else add_error_ino ''root inode is not a directory'' (v_root_ino v) r) in
      case dt_from_inode_data (dtroot_bytes (i_dinode root)) of
        Ok dt \<Rightarrow>
          st_bind (dt_entries dt, v) (\<lambda>es v.
          st_bind (check_entries E check_type
                     (add_error_ino ''directory entry points to invalid inode'') es r v) (\<lambda>r v.
          st_bind (check_entries E (check_extents (v_agg_size v)) (\<lambda>_ r. r) es r v) (\<lambda>r v.
            check_entries E check_xattr (\<lambda>_ r. r) es r v)))
      | Err _ \<Rightarrow> (Ok (add_error_ino ''root dtree invalid'' (v_root_ino v) r), v)
      | Panic \<Rightarrow> (Panic, v)
      | Exit \<Rightarrow> (Exit, v))"

definition check_consistent :: "'c env \<Rightarrow> 'c volume \<Rightarrow> check_report res \<times> 'c volume" where
  "check_consistent E v =
     (let r = [];
          r = (if is_valid_magic (v_sb v) then r else add_error ''invalid superblock magic'' r);
          r = (case v_log v of
                 Some log \<Rightarrow> if ls_magic_val (lm_logsuper log) = LOGMAGIC then r
                             else add_error ''invalid log superblock magic'' r
               | None \<Rightarrow> r)
      in
      case inode_read E (v_root_ino v) v of
        (Ok root, v1) \<Rightarrow> check_root E root r v1
      | (Err _, v1) \<Rightarrow> (Ok (add_error_ino ''root inode unreadable'' (v_root_ino v) r), v1)
      | (Panic, v1) \<Rightarrow> (Panic, v1)
      | (Exit, v1) \<Rightarrow> (Exit, v1))"

section \<open>When the report is clean\<close>

lemma report_clean_add [simp]:
  "report_clean []" "\<not> report_clean (add_error m r)" "\<not> report_clean (add_error_ino m n r)"
  "\<not> report_clean (add_error_block m b r)"
  by (auto simp: report_clean_def add_error_def add_error_ino_def add_error_block_def)

text \<open>The reports that the steps of the check make have errors only when the step finds one.\<close>

lemma check_entries_clean:
  assumes good: "\<And>n i r. inode_read E n v = (Ok i, v) \<Longrightarrow> \<exists>r'. good n i r = Ok r' \<and> (report_clean r' \<longleftrightarrow> report_clean r \<and> G i)"
    and bad: "\<And>n r. report_clean (bad n r) \<longleftrightarrow> report_clean r \<and> B"
    and read: "\<And>n. (\<exists>i. inode_read E n v = (Ok i, v)) \<or> (\<exists>e. inode_read E n v = (Err e, v))"
  shows "\<exists>r'. check_entries E good bad es r v = (Ok r', v) \<and>
    (report_clean r' \<longleftrightarrow> report_clean r \<and> (\<forall>e\<in>set es. \<not> is_dot_name (de_name e) \<longrightarrow>
       (case fst (inode_read E (de_inumber e) v) of Ok i \<Rightarrow> G i | _ \<Rightarrow> B)))"
proof (induction es arbitrary: r)
  case (Cons e es)
  show ?case
  proof (cases "is_dot_name (de_name e)")
    case True
    with Cons.IH [of r] show ?thesis by simp
  next
    case False
    from read [of "de_inumber e"] show ?thesis
    proof
      assume "\<exists>i. inode_read E (de_inumber e) v = (Ok i, v)"
      then obtain i where i: "inode_read E (de_inumber e) v = (Ok i, v)" by blast
      from good [OF i, of r] obtain r1 where r1: "good (de_inumber e) i r = Ok r1" "report_clean r1 \<longleftrightarrow> report_clean r \<and> G i"
        by blast
      from Cons.IH [of r1] r1 i False show ?thesis by auto
    next
      assume "\<exists>x. inode_read E (de_inumber e) v = (Err x, v)"
      then obtain x where x: "inode_read E (de_inumber e) v = (Err x, v)" by blast
      from Cons.IH [of "bad (de_inumber e) r"] x bad [of "de_inumber e" r] False show ?thesis by auto
    qed
  qed
qed simp

lemma find_in_page_total:
  "(\<forall>i\<in>set is. i * DISIZE + DISIZE \<le> length data) \<Longrightarrow> \<exists>r. find_in_page data fs num is = Ok r"
  by (induction "is") auto

lemma scan_table_total:
  assumes "\<And>k. k < agg \<Longrightarrow> \<exists>d. rd k = Ok d \<and> length d = BLOCK_SIZE"
  shows "(\<exists>x. scan_table rd start agg fs num ks = Ok x) \<or> (\<exists>e. scan_table rd start agg fs num ks = Err e)"
proof (induction ks)
  case (Cons k ks)
  show ?case
  proof (cases "agg \<le> start + k")
    case False
    then obtain d where d: "rd (start + k) = Ok d" "length d = BLOCK_SIZE" using assms [of "start + k"] by auto
    obtain r where "find_in_page d fs num [0..<INOSPERPAGE] = Ok r"
      using find_in_page_total [of "[0..<INOSPERPAGE]" d fs num] d(2) by (auto simp: INOSPERPAGE_def DISIZE_def block_size_defs)
    with d Cons.IH False show ?thesis by (cases r) auto
  qed (use Cons.IH in simp)
qed simp

context library
begin

lemma inode_read_total:
  assumes "idle E valid k v"
  shows "(\<exists>i. inode_read E n v = (Ok i, v) \<and> length (di_u (i_dinode i)) = 384) \<or> (\<exists>e. inode_read E n v = (Err e, v))"
proof -
  have q: "quiet E valid v" and a: "v_agg_size v \<le> size_blocks (v_storage v)" using assms by (auto simp: idle_def)
  have rd: "\<exists>d. peek_block (v_storage v) k = Ok d \<and> length d = BLOCK_SIZE" if "k < v_agg_size v" for k
    using dev.read_total [of "v_storage v" k] q a that by (auto simp: quiet_def)
  note r = inode_read_quiet [OF q, of n]
  from scan_table_total [OF rd] consider (ok) b off where "scan_volume (peek_block (v_storage v)) v n = Ok (b, off)"
    | (err) e where "scan_volume (peek_block (v_storage v)) v n = Err e"
    by (fastforce simp: scan_volume_def)
  then show ?thesis
  proof cases
    case ok
    from scan_table_slot [OF ok [unfolded scan_volume_def]] obtain d where
      d: "peek_block (v_storage v) b = Ok d" "off + DISIZE \<le> length d" by auto
    then obtain di where "parse_dinode (slice off (off + DISIZE) d) = Ok di" "length (di_u di) = 384"
      by (auto simp: parse_dinode_def dinode_parse_def DISIZE_def)
    with r ok d show ?thesis by auto
  qed (use r in auto)
qed

end

text \<open>What the three passes ask of an inode.\<close>

definition inode_sound :: "nat \<Rightarrow> inode \<Rightarrow> bool" where
  "inode_sound agg_size i \<longleftrightarrow> mode (i_dinode i) AND 0xf000 \<noteq> 0 \<and>
     (is_regular (i_dinode i) \<longrightarrow> (\<exists>xt. from_inode_data (xtroot_bytes (i_dinode i)) = Ok xt \<and> validate xt \<and>
        (\<forall>x\<in>set (iter_extents xt). e_address x < agg_size))) \<and>
     (dxd_flag (di_ea (i_dinode i)) AND DXD_INLINE \<noteq> 0 \<longrightarrow> mode (i_dinode i) AND INLINEEA \<noteq> 0)"

lemma check_fold_clean:
  "report_clean (fold (\<lambda>x r. if agg \<le> e_address x then add_error_block m (e_address x) r else r) xs r) \<longleftrightarrow>
     report_clean r \<and> (\<forall>x\<in>set xs. e_address x < agg)"
  by (induction xs arbitrary: r) auto

lemma check_extents_clean:
  assumes "length (di_u (i_dinode i)) = 384"
  shows "\<exists>r'. check_extents agg n i r = Ok r' \<and> (report_clean r' \<longleftrightarrow> report_clean r \<and>
    (is_regular (i_dinode i) \<longrightarrow> (\<exists>xt. from_inode_data (xtroot_bytes (i_dinode i)) = Ok xt \<and> validate xt \<and>
        (\<forall>x\<in>set (iter_extents xt). e_address x < agg))))"
proof -
  obtain xt where "from_inode_data (xtroot_bytes (i_dinode i)) = Ok xt"
    using from_inode_data_total [of "xtroot_bytes (i_dinode i)"] assms by (auto simp: xtroot_bytes_def)
  then show ?thesis by (auto simp: check_extents_def check_fold_clean)
qed


text \<open>Changing the permissions of a file that has inline attributes makes it unsound.\<close>

lemma chmod_unsound:
  assumes "dxd_flag (di_ea (i_dinode i)) AND DXD_INLINE \<noteq> 0"
  shows "\<not> inode_sound agg (i\<lparr>i_dinode := attr_update (Some m) u g atime mtime (i_dinode i)\<rparr>)"
  using assms setattr_drops_flag [of m u g atime mtime "i_dinode i"]
  by (simp add: inode_sound_def INLINEEA_def) (simp add: attr_update_def)


end
