(* ===== verification/Fuse_Locks.thy ===== *)
theory Fuse_Locks
  imports JFS_Prelude
begin

text \<open>
  The advisory locks of \<open>fuse/mod.rs\<close>: POSIX byte-range locks and BSD whole-file locks, one list per inode.
  The functions here work on the list of one inode; \<open>Fuse\<close> keeps the tables. Offsets are 64-bit
  unsigned numbers, the fields of the request are signed.
\<close>

section \<open>Requests and locks\<close>

definition F_RDLCK :: int where "F_RDLCK = 0"
definition F_WRLCK :: int where "F_WRLCK = 1"
definition F_UNLCK :: int where "F_UNLCK = 2"
definition SEEK_SET :: int where "SEEK_SET = 0"
definition SEEK_CUR :: int where "SEEK_CUR = 1"
definition SEEK_END :: int where "SEEK_END = 2"
definition LOCK_SH :: "32 word" where "LOCK_SH = 1"
definition LOCK_EX :: "32 word" where "LOCK_EX = 2"
definition LOCK_NB :: "32 word" where "LOCK_NB = 4"
definition LOCK_UN :: "32 word" where "LOCK_UN = 8"
definition u64_max :: nat where "u64_max = 2 ^ 64 - 1"

definition EAGAIN :: int where "EAGAIN = 11"
definition EINVAL :: int where "EINVAL = 22"

lemmas lock_defs = F_RDLCK_def F_WRLCK_def F_UNLCK_def SEEK_SET_def SEEK_CUR_def SEEK_END_def

record flock =
  l_type :: int
  l_whence :: int
  l_start :: int
  l_len :: int
  l_pid :: nat

record posix_lock =
  pl_type :: int
  pl_start :: nat
  pl_end :: nat
  pl_owner :: nat

record flock_lock =
  fl_kind :: "32 word"
  fl_owner :: nat

definition as_u64 :: "int \<Rightarrow> nat" where "as_u64 x = nat (x mod 2 ^ 64)"
definition as_i64 :: "nat \<Rightarrow> int" where "as_i64 n = (if n < 2 ^ 63 then int n else int n - 2 ^ 64)"

section \<open>POSIX locks\<close>

definition overlap :: "nat \<Rightarrow> nat \<Rightarrow> posix_lock \<Rightarrow> bool" where
  "overlap s e l \<longleftrightarrow> \<not> (e \<le> pl_start l \<or> pl_end l \<le> s)"

definition posix_conflicts_with :: "posix_lock \<Rightarrow> posix_lock \<Rightarrow> bool" where
  "posix_conflicts_with a b =
     (if pl_owner a = pl_owner b then False
      else if pl_end b \<le> pl_start a \<or> pl_end a \<le> pl_start b then False
      else pl_type a = F_WRLCK \<or> pl_type b = F_WRLCK)"

definition resolve_flock :: "flock \<Rightarrow> nat \<Rightarrow> (nat \<times> nat) res" where
  "resolve_flock f file_size =
     (let start = (if l_whence f = SEEK_END then min (file_size + as_u64 (l_start f)) u64_max else as_u64 (l_start f)) in
      if l_len f \<le> 0 then Ok (start, u64_max)
      else res_bind (add_u64 start (as_u64 (l_len f))) (\<lambda>e. Ok (start, e)))"

text \<open>The loop over the locks of the inode: the first one that conflicts.\<close>

fun check_lock_conflict :: "posix_lock list \<Rightarrow> nat \<Rightarrow> nat \<Rightarrow> int \<Rightarrow> nat \<Rightarrow> posix_lock option" where
  "check_lock_conflict [] s e ty owner = None"
| "check_lock_conflict (l # ls) s e ty owner =
     (if e \<le> pl_start l \<or> pl_end l \<le> s then check_lock_conflict ls s e ty owner
      else if pl_owner l = owner then check_lock_conflict ls s e ty owner
      else if ty = F_WRLCK \<or> pl_type l = F_WRLCK then Some l
      else check_lock_conflict ls s e ty owner)"

definition release_owner :: "nat \<Rightarrow> posix_lock list \<Rightarrow> posix_lock list" where
  "release_owner owner ls = filter (\<lambda>l. pl_owner l \<noteq> owner) ls"

text \<open>\<open>do_setlk\<close> once the range is resolved: the errno or the new list.\<close>

definition set_posix :: "posix_lock list \<Rightarrow> int \<Rightarrow> nat \<Rightarrow> nat \<Rightarrow> nat \<Rightarrow> int + posix_lock list" where
  "set_posix ls ty s e owner =
     (if ty = F_UNLCK then Inr (release_owner owner ls)
      else if check_lock_conflict ls s e ty owner \<noteq> None then Inl EAGAIN
      else Inr (filter (\<lambda>l. pl_owner l \<noteq> owner \<or> pl_end l \<le> s \<or> e \<le> pl_start l) ls @
                [\<lparr>pl_type = ty, pl_start = s, pl_end = e, pl_owner = owner\<rparr>]))"

definition get_posix :: "posix_lock list \<Rightarrow> flock \<Rightarrow> nat \<Rightarrow> nat \<Rightarrow> nat \<Rightarrow> flock res" where
  "get_posix ls f s e owner =
     (case check_lock_conflict ls s e (l_type f) owner of
        Some c \<Rightarrow>
          if pl_end c \<noteq> u64_max \<and> pl_end c < pl_start c then Panic
          else Ok \<lparr>l_type = pl_type c, l_whence = SEEK_SET, l_start = as_i64 (pl_start c),
               l_len = (if pl_end c = u64_max then 0 else as_i64 (pl_end c - pl_start c)), l_pid = pl_owner c\<rparr>
      | None \<Rightarrow> Ok \<lparr>l_type = F_UNLCK, l_whence = l_whence f, l_start = l_start f, l_len = l_len f, l_pid = 0\<rparr>)"

section \<open>BSD locks\<close>

definition flock_conflicts_with :: "flock_lock \<Rightarrow> flock_lock \<Rightarrow> bool" where
  "flock_conflicts_with a b =
     (if fl_owner a = fl_owner b then False else fl_kind a = LOCK_EX \<or> fl_kind b = LOCK_EX)"

definition release_flock_owner :: "nat \<Rightarrow> flock_lock list \<Rightarrow> flock_lock list" where
  "release_flock_owner owner ls = filter (\<lambda>l. fl_owner l \<noteq> owner) ls"

definition set_flock :: "flock_lock list \<Rightarrow> 32 word \<Rightarrow> nat \<Rightarrow> int + flock_lock list" where
  "set_flock ls operation owner =
     (let kind = operation AND NOT LOCK_NB; new = \<lparr>fl_kind = kind, fl_owner = owner\<rparr> in
      if kind = LOCK_UN then Inr (release_flock_owner owner ls)
      else if kind \<noteq> LOCK_SH \<and> kind \<noteq> LOCK_EX then Inl EINVAL
      else if \<exists>l\<in>set ls. fl_owner l \<noteq> owner \<and> flock_conflicts_with l new then Inl EAGAIN
      else Inr (release_flock_owner owner ls @ [new]))"

section \<open>Mutual exclusion\<close>

text \<open>A lock table is consistent when no lock on it conflicts with another.\<close>

locale lock_table =
  fixes conflicts :: "'l \<Rightarrow> 'l \<Rightarrow> bool" and owner_of :: "'l \<Rightarrow> 'o"
  assumes sym: "conflicts a b \<longleftrightarrow> conflicts b a"
    and own: "owner_of a = owner_of b \<Longrightarrow> \<not> conflicts a b"
begin

definition consistent :: "'l list \<Rightarrow> bool" where
  "consistent ls \<longleftrightarrow> (\<forall>a\<in>set ls. \<forall>b\<in>set ls. \<not> conflicts a b)"

lemma consistent_filter: "consistent ls \<Longrightarrow> consistent (filter P ls)"
  by (auto simp: consistent_def)

lemma consistent_add:
  assumes "consistent ls" "\<forall>l\<in>set ls. owner_of l \<noteq> owner_of n \<longrightarrow> \<not> conflicts l n"
  shows "consistent (filter P ls @ [n])"
  using assms sym own by (fastforce simp: consistent_def)

lemma no_two_holders:
  assumes "consistent ls" "a \<in> set ls" "b \<in> set ls"
  shows "\<not> conflicts a b"
  using assms by (auto simp: consistent_def)

end

interpretation posix: lock_table posix_conflicts_with pl_owner
  by unfold_locales (auto simp: posix_conflicts_with_def)

interpretation bsd: lock_table flock_conflicts_with fl_owner
  by unfold_locales (auto simp: flock_conflicts_with_def)

lemma check_lock_conflict_iff:
  "check_lock_conflict ls s e ty owner = None \<longleftrightarrow>
     (\<forall>l\<in>set ls. \<not> posix_conflicts_with \<lparr>pl_type = ty, pl_start = s, pl_end = e, pl_owner = owner\<rparr> l)"
  by (induction ls) (auto simp: posix_conflicts_with_def)

lemma check_lock_conflict_Some:
  "check_lock_conflict ls s e ty owner = Some l \<Longrightarrow>
     l \<in> set ls \<and> posix_conflicts_with \<lparr>pl_type = ty, pl_start = s, pl_end = e, pl_owner = owner\<rparr> l"
  by (induction ls) (auto simp: posix_conflicts_with_def split: if_splits)

text \<open>The requests on the locks of one inode, and the lists they reach from the empty one.\<close>

inductive posix_step :: "posix_lock list \<Rightarrow> posix_lock list \<Rightarrow> bool" where
  set: "set_posix ls ty s e owner = Inr ls' \<Longrightarrow> posix_step ls ls'"
| release: "posix_step ls (release_owner owner ls)"

inductive flock_step :: "flock_lock list \<Rightarrow> flock_lock list \<Rightarrow> bool" where
  set: "set_flock ls operation owner = Inr ls' \<Longrightarrow> flock_step ls ls'"
| release: "flock_step ls (release_flock_owner owner ls)"

inductive_cases posix_stepE: "posix_step ls ls'"
inductive_cases flock_stepE: "flock_step ls ls'"

lemma posix_step_consistent: "posix_step ls ls' \<Longrightarrow> posix.consistent ls \<Longrightarrow> posix.consistent ls'"
proof (erule posix_stepE)
  fix ty s e owner assume c: "posix.consistent ls" and s: "set_posix ls ty s e owner = Inr ls'"
  let ?n = "\<lparr>pl_type = ty, pl_start = s, pl_end = e, pl_owner = owner\<rparr>"
  show "posix.consistent ls'"
  proof (cases "ty = F_UNLCK")
    case True
    with s c show ?thesis by (auto simp: set_posix_def release_owner_def posix.consistent_filter)
  next
    case False
    with s have "check_lock_conflict ls s e ty owner = None"
      and l: "ls' = filter (\<lambda>l. pl_owner l \<noteq> owner \<or> pl_end l \<le> s \<or> e \<le> pl_start l) ls @ [?n]"
      by (auto simp: set_posix_def split: if_splits)
    then have "\<forall>l\<in>set ls. pl_owner l \<noteq> pl_owner ?n \<longrightarrow> \<not> posix_conflicts_with l ?n"
      using check_lock_conflict_iff [of ls s e ty owner] posix.sym by blast
    then show ?thesis unfolding l by (rule posix.consistent_add [OF c])
  qed
qed (auto simp: release_owner_def posix.consistent_filter)

lemma flock_step_consistent: "flock_step ls ls' \<Longrightarrow> bsd.consistent ls \<Longrightarrow> bsd.consistent ls'"
proof (erule flock_stepE)
  fix operation owner assume c: "bsd.consistent ls" and s: "set_flock ls operation owner = Inr ls'"
  let ?n = "\<lparr>fl_kind = operation AND NOT LOCK_NB, fl_owner = owner\<rparr>"
  consider "ls' = release_flock_owner owner ls"
    | "ls' = release_flock_owner owner ls @ [?n]" "\<forall>l\<in>set ls. fl_owner l \<noteq> owner \<longrightarrow> \<not> flock_conflicts_with l ?n"
    using s by (auto simp: set_flock_def Let_def split: if_splits)
  then show "bsd.consistent ls'"
  proof cases
    case 1
    with c show ?thesis by (simp add: release_flock_owner_def bsd.consistent_filter)
  next
    case 2
    then show ?thesis unfolding release_flock_owner_def by (auto intro: bsd.consistent_add [OF c])
  qed
qed (auto simp: release_flock_owner_def bsd.consistent_filter)

text \<open>
  Mutual exclusion of byte-range locks: on a list reached from the empty one by any sequence of
  set, unlock and release requests, two locks of different owners whose ranges overlap are both read
  locks.
\<close>

theorem posix_locks_exclusive:
  assumes "posix_step\<^sup>*\<^sup>* [] ls" "a \<in> set ls" "b \<in> set ls" "pl_owner a \<noteq> pl_owner b"
    "pl_start a < pl_end b" "pl_start b < pl_end a"
  shows "pl_type a \<noteq> F_WRLCK \<and> pl_type b \<noteq> F_WRLCK"
proof -
  have "posix.consistent ls"
    using assms(1) by (induction rule: rtranclp_induct) (auto simp: posix.consistent_def dest: posix_step_consistent)
  then have "\<not> posix_conflicts_with a b" using assms(2,3) by (rule posix.no_two_holders)
  then show ?thesis using assms(4-6) by (auto simp: posix_conflicts_with_def split: if_splits)
qed

text \<open>
  Mutual exclusion of whole-file locks: after any sequence of requests an exclusive lock is the only
  lock of the file, apart from its owner's.
\<close>

theorem flock_exclusive:
  assumes "flock_step\<^sup>*\<^sup>* [] ls" "a \<in> set ls" "b \<in> set ls" "fl_kind a = LOCK_EX"
  shows "fl_owner a = fl_owner b"
proof -
  have "bsd.consistent ls"
    using assms(1) by (induction rule: rtranclp_induct) (auto simp: bsd.consistent_def dest: flock_step_consistent)
  then have "\<not> flock_conflicts_with a b" using assms(2,3) by (rule bsd.no_two_holders)
  then show ?thesis using assms(4) by (auto simp: flock_conflicts_with_def split: if_splits)
qed

text \<open>
  C19. Asking for a lock and setting it agree: the query reports no conflict exactly when setting the lock
  succeeds, and a reported lock is one of the table, held by another owner, that overlaps the range and
  is exclusive or asked against exclusively.
\<close>

theorem getlk_setlk_agree:
  assumes "l_type f = F_RDLCK \<or> l_type f = F_WRLCK" "get_posix ls f s e owner = Ok g"
  shows "l_type g = F_UNLCK \<and> l_pid g = 0 \<and> (\<exists>ls'. set_posix ls (l_type f) s e owner = Inr ls') \<or>
    set_posix ls (l_type f) s e owner = Inl EAGAIN \<and>
      (\<exists>c\<in>set ls. l_pid g = pl_owner c \<and> l_type g = pl_type c \<and> pl_owner c \<noteq> owner \<and> overlap s e c \<and>
         (l_type f = F_WRLCK \<or> pl_type c = F_WRLCK))"
proof (cases "check_lock_conflict ls s e (l_type f) owner")
  case None
  with assms show ?thesis by (auto simp: get_posix_def set_posix_def lock_defs)
next
  case (Some c)
  from check_lock_conflict_Some [OF this] have "c \<in> set ls"
    "posix_conflicts_with \<lparr>pl_type = l_type f, pl_start = s, pl_end = e, pl_owner = owner\<rparr> c" by auto
  with Some assms show ?thesis
    by (auto simp: get_posix_def set_posix_def posix_conflicts_with_def overlap_def lock_defs split: if_splits)
qed

text \<open>
  Setting a lock inside one's own lock drops the part outside: a write lock on the whole range
  is gone after the owner read-locks some bytes in the middle, and another owner can write-lock the rest.
\<close>

lemma relock_drops_rest:
  assumes "s < m" "m < n" "n < e" "o1 \<noteq> o2"
  defines "l1 \<equiv> \<lparr>pl_type = F_WRLCK, pl_start = s, pl_end = e, pl_owner = o1\<rparr>"
  shows "set_posix [l1] F_WRLCK s m o2 = Inl EAGAIN"
    "\<exists>ls. set_posix [l1] F_RDLCK m n o1 = Inr ls \<and> (\<exists>ls'. set_posix ls F_WRLCK s m o2 = Inr ls')"
  using assms by (auto simp: set_posix_def lock_defs)

text \<open>A negative offset from the end of the file is not subtracted: it saturates at the largest offset.\<close>

lemma seek_end_saturates:
  assumes "l_whence f = SEEK_END" "l_start f < 0" "- l_start f \<le> int sz" "- l_start f < 2 ^ 63" "l_len f \<le> 0"
  shows "resolve_flock f sz = Ok (u64_max, u64_max)"
proof -
  have "l_start f mod 2 ^ 64 = (l_start f + 2 ^ 64) mod 2 ^ 64" by simp
  also have "\<dots> = l_start f + 2 ^ 64" using assms by (intro mod_pos_pos_trivial) auto
  finally have "l_start f mod 2 ^ 64 = l_start f + 2 ^ 64" .
  then have "as_u64 (l_start f) = nat (l_start f + 2 ^ 64)" by (simp add: as_u64_def)
  then have "u64_max \<le> sz + as_u64 (l_start f)" using assms by (simp add: u64_max_def nat_le_iff)
  then show ?thesis using assms by (simp add: resolve_flock_def Let_def)
qed

section \<open>Examples\<close>

lemma two_readers_steps:
  "posix_step\<^sup>*\<^sup>* [] [\<lparr>pl_type = F_RDLCK, pl_start = 0, pl_end = 10, pl_owner = 1\<rparr>,
     \<lparr>pl_type = F_RDLCK, pl_start = 5, pl_end = 15, pl_owner = 2\<rparr>]" (is "posix_step\<^sup>*\<^sup>* [] [?a, ?b]")
proof -
  have "posix_step [] [?a]" by (rule posix_step.set [of _ F_RDLCK 0 10 1]) (simp add: set_posix_def lock_defs)
  moreover have "posix_step [?a] [?a, ?b]"
    by (rule posix_step.set [of _ F_RDLCK 5 15 2]) (simp add: set_posix_def lock_defs)
  ultimately show ?thesis by (meson r_into_rtranclp rtranclp.rtrancl_into_rtrancl)
qed

theorem posix_locks_exclusive_witness:
  "posix_step\<^sup>*\<^sup>* [] [\<lparr>pl_type = F_RDLCK, pl_start = 0, pl_end = 10, pl_owner = 1\<rparr>,
     \<lparr>pl_type = F_RDLCK, pl_start = 5, pl_end = 15, pl_owner = 2\<rparr>] \<and> F_RDLCK \<noteq> F_WRLCK"
  using posix_locks_exclusive [OF two_readers_steps, of "\<lparr>pl_type = F_RDLCK, pl_start = 0, pl_end = 10, pl_owner = 1\<rparr>"
      "\<lparr>pl_type = F_RDLCK, pl_start = 5, pl_end = 15, pl_owner = 2\<rparr>"] two_readers_steps by simp

theorem flock_exclusive_witness:
  "\<exists>ls. flock_step\<^sup>*\<^sup>* [] ls \<and> ls = [\<lparr>fl_kind = LOCK_EX, fl_owner = 7\<rparr>] \<and> (\<forall>b\<in>set ls. fl_owner b = 7)"
proof -
  let ?a = "\<lparr>fl_kind = LOCK_EX, fl_owner = 7\<rparr>"
  have "flock_step [] [?a]"
    by (rule flock_step.set [of _ LOCK_EX 7])
      (simp add: set_flock_def release_flock_owner_def LOCK_EX_def LOCK_UN_def LOCK_SH_def LOCK_NB_def)
  then have s: "flock_step\<^sup>*\<^sup>* [] [?a]" by blast
  then show ?thesis using flock_exclusive [OF s, of ?a] by auto
qed

theorem getlk_setlk_agree_witness:
  "\<exists>g. get_posix [\<lparr>pl_type = F_WRLCK, pl_start = 0, pl_end = 10, pl_owner = 1\<rparr>]
      \<lparr>l_type = F_RDLCK, l_whence = SEEK_SET, l_start = 3, l_len = 2, l_pid = 0\<rparr> 3 5 2 = Ok g \<and> l_pid g = 1"
proof -
  let ?ls = "[\<lparr>pl_type = F_WRLCK, pl_start = 0, pl_end = 10, pl_owner = 1\<rparr>]"
  let ?f = "\<lparr>l_type = F_RDLCK, l_whence = SEEK_SET, l_start = 3, l_len = 2, l_pid = 0\<rparr>"
  obtain g where g: "get_posix ?ls ?f 3 5 2 = Ok g" by (auto simp: get_posix_def lock_defs u64_max_def)
  moreover have "set_posix ?ls (l_type ?f) 3 5 2 = Inl EAGAIN" by (simp add: set_posix_def lock_defs)
  ultimately show ?thesis using getlk_setlk_agree [of ?f ?ls 3 5 2 g] by auto
qed

end
