(* ===== verification/Interrupt.thy ===== *)
theory Interrupt
  imports Xtree
begin

text \<open>
  The request registry of \<open>fuse/interrupt.rs\<close>. An \<open>InterruptFlag\<close> is a shared atomic boolean: the model keeps
  the booleans in \<open>im_cells\<close>, and a flag is the number of its cell, shared between the registry and the token
  of the request. The hash map is an association list without repeated keys.
\<close>

record interrupt_mgr =
  im_next_id :: nat
  im_flags :: "(nat \<times> nat) list"
  im_cells :: "nat \<Rightarrow> bool"
  im_fresh :: nat

record token =
  tk_id :: nat
  tk_flag :: nat

definition im_new :: interrupt_mgr where
  "im_new = \<lparr>im_next_id = 1, im_flags = [], im_cells = (\<lambda>_. False), im_fresh = 0\<rparr>"

text \<open>\<open>InterruptFlag::new\<close>.\<close>

definition flag_new :: "interrupt_mgr \<Rightarrow> nat \<times> interrupt_mgr" where
  "flag_new m = (im_fresh m, m\<lparr>im_cells := (im_cells m)(im_fresh m := False), im_fresh := im_fresh m + 1\<rparr>)"

definition flag_set :: "nat \<Rightarrow> interrupt_mgr \<Rightarrow> interrupt_mgr" where
  "flag_set f m = m\<lparr>im_cells := (im_cells m)(f := True)\<rparr>"

definition is_interrupted :: "token \<Rightarrow> interrupt_mgr \<Rightarrow> bool" where
  "is_interrupted t m = im_cells m (tk_flag t)"

definition token_check :: "token \<Rightarrow> interrupt_mgr \<Rightarrow> unit res" where
  "token_check t m = flag_check (im_cells m (tk_flag t))"

definition register_at :: "nat \<Rightarrow> interrupt_mgr \<Rightarrow> (nat \<times> token) \<times> interrupt_mgr" where
  "register_at req m =
     (let (f, m1) = flag_new m in
      ((req, \<lparr>tk_id = req, tk_flag = f\<rparr>), m1\<lparr>im_flags := (req, f) # filter (\<lambda>x. fst x \<noteq> req) (im_flags m1)\<rparr>))"

definition register :: "interrupt_mgr \<Rightarrow> (nat \<times> token) \<times> interrupt_mgr" where
  "register m = register_at (im_next_id m) (m\<lparr>im_next_id := (im_next_id m + 1) mod 2 ^ 64\<rparr>)"

definition interrupt :: "nat \<Rightarrow> interrupt_mgr \<Rightarrow> bool \<times> interrupt_mgr" where
  "interrupt req m =
     (case map_of (im_flags m) req of
        Some f \<Rightarrow> (True, flag_set f m)
      | None \<Rightarrow> (False, m))"

definition deregister :: "nat \<Rightarrow> interrupt_mgr \<Rightarrow> interrupt_mgr" where
  "deregister req m = m\<lparr>im_flags := filter (\<lambda>x. fst x \<noteq> req) (im_flags m)\<rparr>"

definition pending_count :: "interrupt_mgr \<Rightarrow> nat" where
  "pending_count m = length (im_flags m)"

section \<open>Runs of the registry\<close>

datatype im_op = Register | RegisterAt nat | Interrupt nat | Deregister nat

fun im_step :: "im_op \<Rightarrow> interrupt_mgr \<Rightarrow> interrupt_mgr" where
  "im_step Register m = snd (register m)"
| "im_step (RegisterAt req) m = snd (register_at req m)"
| "im_step (Interrupt req) m = snd (interrupt req m)"
| "im_step (Deregister req) m = deregister req m"

definition im_run :: "im_op list \<Rightarrow> interrupt_mgr \<Rightarrow> interrupt_mgr" where
  "im_run ops m = fold im_step ops m"

text \<open>
  Whether a run signals request \<open>req\<close> before it is deregistered or registered anew; \<open>n\<close> is the counter
  from which \<open>register\<close> takes its numbers.
\<close>

fun signalled :: "nat \<Rightarrow> nat \<Rightarrow> im_op list \<Rightarrow> bool" where
  "signalled req n [] = False"
| "signalled req n (Register # ops) = (if n = req then False else signalled req ((n + 1) mod 2 ^ 64) ops)"
| "signalled req n (RegisterAt r # ops) = (if r = req then False else signalled req n ops)"
| "signalled req n (Interrupt r # ops) = (if r = req then True else signalled req n ops)"
| "signalled req n (Deregister r # ops) = (if r = req then False else signalled req n ops)"

definition im_wf :: "interrupt_mgr \<Rightarrow> bool" where
  "im_wf m \<longleftrightarrow> distinct (map fst (im_flags m)) \<and> distinct (map snd (im_flags m)) \<and>
     (\<forall>x\<in>set (im_flags m). snd x < im_fresh m)"

lemmas im_defs = register_def register_at_def interrupt_def deregister_def flag_new_def flag_set_def

lemma distinct_map_filter: "distinct (map f xs) \<Longrightarrow> distinct (map f (filter P xs))"
  by (induction xs) auto

lemma im_step_wf: "im_wf m \<Longrightarrow> im_wf (im_step op m)"
  by (cases op) (auto simp: im_wf_def im_defs Let_def distinct_map_filter split: option.splits intro: less_SucI)

lemma im_run_wf: "im_wf m \<Longrightarrow> im_wf (im_run ops m)"
  by (induction ops arbitrary: m) (auto simp: im_run_def im_step_wf)

text \<open>A cell stays set, and a cell no registered request points to keeps its value.\<close>

lemma im_step_cell_set: "im_cells m f \<Longrightarrow> f < im_fresh m \<Longrightarrow> im_cells (im_step op m) f \<and> f < im_fresh (im_step op m)"
  by (cases op) (auto simp: im_defs Let_def split: option.splits)

lemma map_of_flag: "map_of (im_flags m) r = Some f \<Longrightarrow> f \<in> snd ` set (im_flags m)"
  by (force dest: map_of_SomeD)

lemma im_step_cell_free:
  assumes "f \<notin> snd ` set (im_flags m)" "f < im_fresh m"
  shows "im_cells (im_step op m) f = im_cells m f \<and> f \<notin> snd ` set (im_flags (im_step op m)) \<and> f < im_fresh (im_step op m)"
  using assms by (cases op) (auto simp: im_defs Let_def split: option.splits dest: map_of_flag)

lemma im_run_cell_set: "im_cells m f \<Longrightarrow> f < im_fresh m \<Longrightarrow> im_cells (im_run ops m) f"
  by (induction ops arbitrary: m) (auto simp: im_run_def dest: im_step_cell_set)

lemma im_run_cell_free: "f \<notin> snd ` set (im_flags m) \<Longrightarrow> f < im_fresh m \<Longrightarrow> im_cells (im_run ops m) f = im_cells m f"
proof (induction ops arbitrary: m)
  case (Cons op ops)
  from im_step_cell_free [OF Cons.prems, of op] Cons.IH [of "im_step op m"] show ?case by (simp add: im_run_def)
qed (simp add: im_run_def)

text \<open>The steps that take the entry of a request away.\<close>

fun drops :: "nat \<Rightarrow> interrupt_mgr \<Rightarrow> im_op \<Rightarrow> bool" where
  "drops req m Register \<longleftrightarrow> im_next_id m = req"
| "drops req m (RegisterAt r) \<longleftrightarrow> r = req"
| "drops req m (Deregister r) \<longleftrightarrow> r = req"
| "drops req m (Interrupt r) \<longleftrightarrow> False"

lemma flag_unique: "im_wf m \<Longrightarrow> (req, f) \<in> set (im_flags m) \<Longrightarrow> (r, f) \<in> set (im_flags m) \<Longrightarrow> r = req"
  unfolding im_wf_def distinct_map inj_on_def by fastforce

lemma im_step_drops:
  assumes "im_wf m" "(req, f) \<in> set (im_flags m)" "drops req m op"
  shows "f \<notin> snd ` set (im_flags (im_step op m)) \<and> f < im_fresh (im_step op m) \<and> im_cells (im_step op m) f = im_cells m f"
proof -
  have "f < im_fresh m" using assms by (auto simp: im_wf_def)
  then show ?thesis using assms(3) flag_unique [OF assms(1,2)] by (cases op) (auto simp: im_defs Let_def)
qed

lemma im_step_keeps:
  assumes "im_wf m" "(req, f) \<in> set (im_flags m)" "\<not> drops req m op"
  shows "(req, f) \<in> set (im_flags (im_step op m)) \<and> im_cells (im_step op m) f = (im_cells m f \<or> op = Interrupt req)"
proof (cases op)
  case (Interrupt r)
  show ?thesis
  proof (cases "map_of (im_flags m) r")
    case None
    with Interrupt assms show ?thesis by (auto simp: im_defs im_wf_def)
  next
    case (Some g)
    have "map_of (im_flags m) req = Some f" using assms by (simp add: im_wf_def)
    then have "r = req \<Longrightarrow> g = f" using Some by simp
    moreover have "g = f \<Longrightarrow> r = req" using flag_unique [OF assms(1,2)] map_of_SomeD [OF Some] by blast
    ultimately show ?thesis using Interrupt Some assms(2) by (cases "r = req"; cases "g = f") (simp_all add: im_defs)
  qed
next
  case Register
  have "f < im_fresh m" using assms by (auto simp: im_wf_def)
  with Register assms(2,3) show ?thesis by (auto simp: im_defs Let_def)
next
  case (RegisterAt r)
  have "f < im_fresh m" using assms by (auto simp: im_wf_def)
  with RegisterAt assms(2,3) show ?thesis by (auto simp: im_defs Let_def)
next
  case (Deregister r)
  with assms(2,3) show ?thesis by (auto simp: im_defs)
qed

lemma im_step_next_id:
  "im_next_id (im_step op m) = (if op = Register then (im_next_id m + 1) mod 2 ^ 64 else im_next_id m)"
  by (cases op) (auto simp: im_defs Let_def split: option.splits)

lemma im_run_signalled:
  assumes "im_wf m" "(req, f) \<in> set (im_flags m)" "\<not> im_cells m f"
  shows "im_cells (im_run ops m) f \<longleftrightarrow> signalled req (im_next_id m) ops"
  using assms
proof (induction ops arbitrary: m)
  case Nil
  then show ?case by (simp add: im_run_def)
next
  case (Cons op ops)
  let ?m = "im_step op m"
  have r: "im_run (op # ops) m = im_run ops ?m" by (simp add: im_run_def)
  have f: "f < im_fresh m" using Cons.prems by (auto simp: im_wf_def)
  note wf = im_step_wf [OF Cons.prems(1), of op]
  show ?case
  proof (cases "drops req m op")
    case True
    note d = im_step_drops [OF Cons.prems(1,2) True]
    then have "\<not> im_cells (im_run ops ?m) f" using im_run_cell_free [of f ?m ops] Cons.prems(3) by simp
    then show ?thesis using r True by (cases op) auto
  next
    case False
    note k = im_step_keeps [OF Cons.prems(1,2) False]
    show ?thesis
    proof (cases "op = Interrupt req")
      case True
      with k wf have "im_cells ?m f" "f < im_fresh ?m" by (auto simp: im_wf_def)
      then show ?thesis using True r by (simp add: im_run_cell_set)
    next
      case nint: False
      with k Cons.prems(3) have "im_cells (im_run ops ?m) f = signalled req (im_next_id ?m) ops"
        by (intro Cons.IH [OF wf]) auto
      then show ?thesis using r False nint im_step_next_id [of op m] by (cases op) auto
    qed
  qed
qed

text \<open>
  C20. Interrupts are precise: the token handed out for a request reads as interrupted after a run of the
  registry exactly when the run contains an interrupt of that request's number before the request
  is deregistered or its number registered again. Interrupts of other requests never reach it.
\<close>

theorem interrupt_precise:
  assumes "register_at req (im_run before im_new) = ((i, t), m)"
  shows "i = req \<and> token_check t m = Ok () \<and>
    token_check t (im_run ops m) = (if signalled req (im_next_id m) ops then Err Interrupted else Ok ())"
proof -
  let ?m = "im_run before im_new"
  have wf: "im_wf ?m" by (rule im_run_wf) (simp add: im_wf_def im_new_def)
  have wf': "im_wf m" using im_step_wf [OF wf, of "RegisterAt req"] assms by simp
  have "(req, tk_flag t) \<in> set (im_flags m)" "\<not> im_cells m (tk_flag t)" "i = req"
    using assms by (auto simp: im_defs Let_def)
  with im_run_signalled [OF wf'] show ?thesis by (simp add: token_check_def flag_check_def)
qed

theorem interrupt_precise_witness:
  "\<exists>i t m. register_at 42 (im_run [Register] im_new) = ((i, t), m) \<and>
     token_check t (im_run [Interrupt 1, Interrupt 42] m) = Err Interrupted \<and>
     token_check t (im_run [Interrupt 1, Deregister 42, Interrupt 42] m) = Ok ()"
proof -
  obtain i t m where r: "register_at 42 (im_run [Register] im_new) = ((i, t), m)" by (metis surj_pair)
  show ?thesis using interrupt_precise [OF r, of "[Interrupt 1, Interrupt 42]"]
    interrupt_precise [OF r, of "[Interrupt 1, Deregister 42, Interrupt 42]"] r by auto
qed

end
