(* ===== verification/Fuse.thy ===== *)
theory Fuse
  imports Volume_File Volume_Dir Volume_Xattr Fuse_Locks Interrupt
begin

text \<open>
  The file system object of \<open>fuse/mod.rs\<close>, \<open>FuseFs\<close>: the mounted volume together with the lock tables, the
  lookup counts, the table of open handles and the registry of interruptible requests. The methods turn
  the results of the volume into an optional value or an errno. A \<open>FuseResult\<close> is \<open>Inl\<close> the errno or \<open>Inr\<close>
  the value, under the outcome that may also be a panic.
\<close>

section \<open>Errors\<close>

definition EPERM :: int where "EPERM = 1"
definition ENOENT :: int where "ENOENT = 2"
definition EINTR :: int where "EINTR = 4"
definition EIO :: int where "EIO = 5"
definition ENXIO :: int where "ENXIO = 6"
definition E2BIG :: int where "E2BIG = 7"
definition EBADF :: int where "EBADF = 9"
definition EACCES :: int where "EACCES = 13"
definition EEXIST :: int where "EEXIST = 17"
definition ENOTDIR :: int where "ENOTDIR = 20"
definition EISDIR :: int where "EISDIR = 21"
definition ENOSPC :: int where "ENOSPC = 28"
definition EROFS :: int where "EROFS = 30"
definition ERANGE :: int where "ERANGE = 34"
definition ENAMETOOLONG :: int where "ENAMETOOLONG = 36"
definition ENOTEMPTY :: int where "ENOTEMPTY = 39"
definition EOPNOTSUPP :: int where "EOPNOTSUPP = 95"

lemmas errno_defs = EPERM_def ENOENT_def EINTR_def EIO_def ENXIO_def E2BIG_def EBADF_def EACCES_def EEXIST_def
  ENOTDIR_def EISDIR_def ENOSPC_def EROFS_def ERANGE_def ENAMETOOLONG_def ENOTEMPTY_def EOPNOTSUPP_def
  EAGAIN_def EINVAL_def

type_synonym 'a fres = "(int + 'a) res"

fun storage_error_to_errno :: "storage_error \<Rightarrow> int" where
  "storage_error_to_errno XattrNotFound = ENOENT"
| "storage_error_to_errno NotFound = ENOENT"
| "storage_error_to_errno XattrAlreadyExists = EEXIST"
| "storage_error_to_errno AlreadyExists = EEXIST"
| "storage_error_to_errno XattrNameTooLong = ENAMETOOLONG"
| "storage_error_to_errno XattrValueTooLarge = E2BIG"
| "storage_error_to_errno XattrDataTooLarge = E2BIG"
| "storage_error_to_errno (XattrBufferTooSmall _) = ERANGE"
| "storage_error_to_errno NoFreeInode = ENOSPC"
| "storage_error_to_errno InvalidName = EINVAL"
| "storage_error_to_errno NotADirectory = ENOTDIR"
| "storage_error_to_errno DirectoryNotEmpty = ENOTEMPTY"
| "storage_error_to_errno InvalidFileType = EPERM"
| "storage_error_to_errno CannotLinkDir = EPERM"
| "storage_error_to_errno NotSupported = EOPNOTSUPP"
| "storage_error_to_errno Interrupted = EINTR"
| "storage_error_to_errno _ = EIO"

text \<open>
  \<open>to_string\<close> of an error, from its \<open>thiserror\<close> attributes. The numbers, and the operating system's text
  of an \<open>Io\<close> error, are left out: no caller searches for them.
\<close>

fun error_message :: "storage_error \<Rightarrow> string" where
  "error_message (Io _) = ''I/O error: ''"
| "error_message InvalidSuperblock = ''invalid superblock magic''"
| "error_message JournalNotReplayed = ''journal not replayed (FM_DIRTY)''"
| "error_message (UnsupportedBlockSize _) = ''unsupported block size: ''"
| "error_message PageNotFound = ''page not found in cache''"
| "error_message ReadOnly = ''read-only storage: write rejected''"
| "error_message FaultInjection = ''injected I/O failure''"
| "error_message (BlockOutOfRange _ _) = ''block number exceeds volume size of blocks''"
| "error_message (ShortRead _ _) = ''short read: requested bytes, got''"
| "error_message (ShortWrite _ _) = ''short write: requested bytes, wrote''"
| "error_message (UnexpectedEof _ _) = ''unexpected EOF reading bytes, got''"
| "error_message Interrupted = ''operation interrupted by FUSE_INTERRUPT''"
| "error_message XattrNotFound = ''xattr not found''"
| "error_message XattrAlreadyExists = ''xattr already exists''"
| "error_message XattrNameTooLong = ''xattr name too long''"
| "error_message XattrValueTooLarge = ''xattr value too large''"
| "error_message XattrDataTooLarge = ''xattr data too large for inline storage''"
| "error_message AlreadyExists = ''directory entry already exists''"
| "error_message InvalidName = ''invalid filename or name''"
| "error_message NoFreeInode = ''no free inodes available''"
| "error_message NotADirectory = ''not a directory''"
| "error_message DirectoryNotEmpty = ''directory not empty''"
| "error_message NotFound = ''not found''"
| "error_message InvalidFileType = ''invalid file type for operation''"
| "error_message NotSupported = ''operation not supported''"
| "error_message CannotLinkDir = ''cannot hard-link a directory''"
| "error_message (XattrBufferTooSmall _) = ''xattr buffer too small, needed bytes''"
| "error_message (Other m) = m"

definition contains :: "string \<Rightarrow> string \<Rightarrow> bool" where
  "contains pat s \<longleftrightarrow> list_ex (\<lambda>i. take (length pat) (drop i s) = pat) [0..<length s + 1]"

definition says :: "storage_error \<Rightarrow> string \<Rightarrow> bool" where
  "says e pat \<longleftrightarrow> contains pat (error_message e)"

definition mkdir_errno :: "storage_error \<Rightarrow> int" where
  "mkdir_errno e =
     (if says e ''already exists'' then EEXIST else if says e ''invalid filename'' then EINVAL
      else if says e ''no free inode'' then ENOSPC else EIO)"

definition rmdir_errno :: "storage_error \<Rightarrow> int" where
  "rmdir_errno e = (if says e ''not a directory'' then ENOTDIR else if says e ''not empty'' then ENOTEMPTY else EIO)"

definition rename_errno :: "storage_error \<Rightarrow> int" where
  "rename_errno e =
     (if says e ''not a directory'' then ENOTDIR
      else if says e ''not empty'' then ENOTEMPTY
      else if says e ''already exists'' \<or> says e ''file exists'' then EEXIST
      else if says e ''directory entry already exists'' then EEXIST
      else if says e ''no such file'' \<or> says e ''not found'' then ENOENT
      else if says e ''invalid'' \<or> says e ''cannot'' then EPERM
      else EIO)"

definition fallocate_errno :: "storage_error \<Rightarrow> int" where
  "fallocate_errno e =
     (if says e ''not supported'' then EOPNOTSUPP
      else if says e ''no contiguous free blocks'' \<or> says e ''no free'' then ENOSPC else EIO)"

definition readlink_errno :: "storage_error \<Rightarrow> int" where
  "readlink_errno e = (if says e ''not a symbolic link'' then ENOENT else EIO)"

section \<open>Names of extended attributes\<close>

definition translate_xattr_name :: "str \<Rightarrow> str" where
  "translate_xattr_name name =
     (case strip_prefix (str_of ''user.'') name of
        Some rest \<Rightarrow> rest
      | None \<Rightarrow>
          (case strip_prefix (str_of ''system.'') name of
             Some rest \<Rightarrow> str_of ''system.'' @ rest
           | None \<Rightarrow> name))"

definition reverse_xattr_name :: "str \<Rightarrow> str" where
  "reverse_xattr_name name =
     (if starts_with (str_of ''user.'') name \<or> starts_with (str_of ''system.'') name then name
      else str_of ''user.'' @ name)"

section \<open>State\<close>

record open_handle =
  oh_fh :: nat
  oh_ino :: "32 word"
  oh_is_dir :: bool

record 'c fuse =
  f_volume :: "'c volume"
  f_writable :: bool
  f_locks :: "32 word \<Rightarrow> posix_lock list option"
  f_flock_locks :: "32 word \<Rightarrow> flock_lock list option"
  f_node_states :: "32 word \<Rightarrow> nat option"
  f_handles :: "nat \<Rightarrow> open_handle option"
  f_next_fh :: nat
  f_interrupts :: interrupt_mgr

definition fuse_new :: "'c volume \<Rightarrow> 'c fuse" where
  "fuse_new v = \<lparr>f_volume = v, f_writable = False, f_locks = Map.empty, f_flock_locks = Map.empty,
     f_node_states = Map.empty, f_handles = Map.empty, f_next_fh = 1, f_interrupts = im_new\<rparr>"

definition enable_writable :: "'c fuse \<Rightarrow> unit res \<times> 'c fuse" where
  "enable_writable fs = (Ok (), fs\<lparr>f_writable := True\<rparr>)"

definition fuse_capabilities :: "32 word" where
  "fuse_capabilities = push_bit 0 1 OR push_bit 5 1 OR push_bit 18 1 OR push_bit 13 1 OR push_bit 14 1"

section \<open>Combinators\<close>

definition on_vol :: "('c volume \<Rightarrow> 'a res \<times> 'c volume) \<Rightarrow> 'c fuse \<Rightarrow> 'a res \<times> 'c fuse" where
  "on_vol g fs = (let (r, v) = g (f_volume fs) in (r, fs\<lparr>f_volume := v\<rparr>))"

text \<open>\<open>.ok()\<close> and \<open>.map_err(f)\<close>.\<close>

fun ok_opt :: "'a res \<times> 's \<Rightarrow> 'a option res \<times> 's" where
  "ok_opt (Ok x, s) = (Ok (Some x), s)"
| "ok_opt (Err _, s) = (Ok None, s)"
| "ok_opt (Panic, s) = (Panic, s)"
| "ok_opt (Exit, s) = (Exit, s)"

fun map_err :: "(storage_error \<Rightarrow> int) \<Rightarrow> 'a res \<times> 's \<Rightarrow> 'a fres \<times> 's" where
  "map_err h (Ok x, s) = (Ok (Inr x), s)"
| "map_err h (Err e, s) = (Ok (Inl (h e)), s)"
| "map_err h (Panic, s) = (Panic, s)"
| "map_err h (Exit, s) = (Exit, s)"

text \<open>The \<open>?\<close> operator on an option and on a \<open>FuseResult\<close>.\<close>

definition opt_bind :: "'a option res \<times> 's \<Rightarrow> ('a \<Rightarrow> 's \<Rightarrow> 'b option res \<times> 's) \<Rightarrow> 'b option res \<times> 's" where
  "opt_bind m f = st_bind m (\<lambda>x s. case x of Some y \<Rightarrow> f y s | None \<Rightarrow> (Ok None, s))"

definition f_bind :: "'a fres \<times> 's \<Rightarrow> ('a \<Rightarrow> 's \<Rightarrow> 'b fres \<times> 's) \<Rightarrow> 'b fres \<times> 's" where
  "f_bind m f = st_bind m (\<lambda>x s. case x of Inr y \<Rightarrow> f y s | Inl e \<Rightarrow> (Ok (Inl e), s))"

definition f_fail :: "int \<Rightarrow> 's \<Rightarrow> 'a fres \<times> 's" where
  "f_fail e s = (Ok (Inl e), s)"

definition f_ok :: "'a \<Rightarrow> 's \<Rightarrow> 'a fres \<times> 's" where
  "f_ok x s = (Ok (Inr x), s)"

section \<open>Lookup counts and handles\<close>

definition lookup_count :: "'c fuse \<Rightarrow> 32 word \<Rightarrow> nat" where
  "lookup_count fs ino = (case f_node_states fs ino of Some n \<Rightarrow> n | None \<Rightarrow> 0)"

definition add_node_state :: "32 word \<Rightarrow> 'c fuse \<Rightarrow> unit res \<times> 'c fuse" where
  "add_node_state ino fs =
     (case f_node_states fs ino of
        None \<Rightarrow> (Ok (), fs\<lparr>f_node_states := (f_node_states fs)(ino \<mapsto> 1)\<rparr>)
      | Some n \<Rightarrow>
          st_bind (add_u64 n 1, fs) (\<lambda>n fs. (Ok (), fs\<lparr>f_node_states := (f_node_states fs)(ino \<mapsto> n)\<rparr>)))"

definition decrement_node_state :: "32 word \<Rightarrow> nat \<Rightarrow> 'c fuse \<Rightarrow> bool \<times> 'c fuse" where
  "decrement_node_state ino nlookup fs =
     (case f_node_states fs ino of
        None \<Rightarrow> (False, fs)
      | Some n \<Rightarrow>
          if n - nlookup = 0 then (True, fs\<lparr>f_node_states := (f_node_states fs)(ino := None)\<rparr>)
          else (False, fs\<lparr>f_node_states := (f_node_states fs)(ino \<mapsto> n - nlookup)\<rparr>))"

definition f_forget :: "'c env \<Rightarrow> 32 word \<Rightarrow> nat \<Rightarrow> 'c fuse \<Rightarrow> 'c fuse" where
  "f_forget E ino nlookup fs =
     (let (should_evict, fs1) = decrement_node_state ino nlookup fs in
      if should_evict
      then fs1\<lparr>f_volume := (f_volume fs1)\<lparr>v_cache := evict (e_lru E) (v_cache (f_volume fs1)) ino\<rparr>\<rparr> else fs1)"

definition batch_forget :: "'c env \<Rightarrow> (32 word \<times> nat) list \<Rightarrow> 'c fuse \<Rightarrow> 'c fuse" where
  "batch_forget E entries fs = fold (\<lambda>(ino, nlookup). f_forget E ino nlookup) entries fs"

definition add_handle :: "32 word \<Rightarrow> bool \<Rightarrow> 'c fuse \<Rightarrow> nat res \<times> 'c fuse" where
  "add_handle ino dir fs =
     (let fh = f_next_fh fs in
      st_bind (add_u64 fh 1, fs) (\<lambda>n fs.
        (Ok fh, fs\<lparr>f_next_fh := n, f_handles := (f_handles fs)(fh \<mapsto> \<lparr>oh_fh = fh, oh_ino = ino, oh_is_dir = dir\<rparr>)\<rparr>)))"

definition release_handle :: "nat \<Rightarrow> 'c fuse \<Rightarrow> open_handle option \<times> 'c fuse" where
  "release_handle fh fs = (f_handles fs fh, fs\<lparr>f_handles := (f_handles fs)(fh := None)\<rparr>)"

definition f_open :: "'c env \<Rightarrow> 32 word \<Rightarrow> 'c fuse \<Rightarrow> unit fres \<times> 'c fuse" where
  "f_open E ino fs = map_err (\<lambda>_. ENOENT) (on_vol (open_file E ino) fs)"

definition f_release :: "'c env \<Rightarrow> 32 word \<Rightarrow> 'c fuse \<Rightarrow> unit fres \<times> 'c fuse" where
  "f_release E ino fs = map_err (\<lambda>_. EIO) (on_vol (release_file E ino) fs)"

section \<open>Reading\<close>

definition get_inode :: "'c env \<Rightarrow> 32 word \<Rightarrow> 'c fuse \<Rightarrow> inode option res \<times> 'c fuse" where
  "get_inode E ino fs = ok_opt (on_vol (inode_read E ino) fs)"

definition f_getattr :: "'c env \<Rightarrow> 32 word \<Rightarrow> 'c fuse \<Rightarrow> dinode option res \<times> 'c fuse" where
  "f_getattr E ino fs = opt_bind (get_inode E ino fs) (\<lambda>i fs. (Ok (Some (i_dinode i)), fs))"

definition parent_of :: "bytes \<Rightarrow> 32 word option" where
  "parent_of dtroot = (if 24 \<le> length dtroot then Some (read_u32 (arr4_of (slice 20 24 dtroot))) else None)"

definition f_lookup :: "'c env \<Rightarrow> 32 word \<Rightarrow> str \<Rightarrow> 'c fuse \<Rightarrow> 32 word option res \<times> 'c fuse" where
  "f_lookup E parent name fs =
     (let found = (\<lambda>ino fs. st_bind (add_node_state ino fs) (\<lambda>_ fs. (Ok (Some ino), fs))) in
      if name = str_of ''.'' then found parent fs
      else
        opt_bind (get_inode E parent fs) (\<lambda>p fs.
          if \<not> is_dir (i_dinode p) then (Ok None, fs)
          else if name = str_of ''..'' then
            (case parent_of (dtroot_bytes (i_dinode p)) of Some ino \<Rightarrow> found ino fs | None \<Rightarrow> (Ok None, fs))
          else
            opt_bind (ok_opt (dt_from_inode_data (dtroot_bytes (i_dinode p)), fs)) (\<lambda>dt fs.
            opt_bind (ok_opt (dt_lookup dt (encode_utf16 name), fs)) (\<lambda>entry fs.
              case entry of Some entry \<Rightarrow> found (de_inumber entry) fs | None \<Rightarrow> (Ok None, fs)))))"

definition infer_file_type :: "'c env \<Rightarrow> 32 word \<Rightarrow> 'c fuse \<Rightarrow> byte res \<times> 'c fuse" where
  "infer_file_type E ino fs =
     st_bind (get_inode E ino fs) (\<lambda>r fs.
       case r of
         None \<Rightarrow> (Ok 0, fs)
       | Some i \<Rightarrow>
           (Ok (if is_symlink (i_dinode i) then 0xA0 else if is_dir (i_dinode i) then 0x04
                else if is_regular (i_dinode i) then 0x08 else 0), fs))"

type_synonym dir_row = "str \<times> 32 word \<times> byte \<times> nat"

fun dir_rows :: "'c env \<Rightarrow> nat \<Rightarrow> dir_entry list \<Rightarrow> 'c fuse \<Rightarrow> dir_row list res \<times> 'c fuse" where
  "dir_rows E cookie [] fs = (Ok [], fs)"
| "dir_rows E cookie (e # es) fs =
     st_bind (infer_file_type E (de_inumber e) fs) (\<lambda>ty fs.
     st_bind (dir_rows E (cookie + 1) es fs) (\<lambda>rows fs.
       (Ok ((trim_end_nul (from_utf16_lossy (de_name e)), de_inumber e, ty, cookie) # rows), fs)))"

definition dot_rows :: "32 word \<Rightarrow> bytes \<Rightarrow> nat \<Rightarrow> dir_row list" where
  "dot_rows ino dtroot offset =
     (if cursor_is_entry offset then [] else [(str_of ''.'', ino, 0x04, DOT_OFFSET)]) @
     (case parent_of dtroot of
        Some p \<Rightarrow> if offset \<le> DOTDOT_OFFSET then [(str_of ''..'', p, 0x04, DOTDOT_OFFSET)] else []
      | None \<Rightarrow> [])"

text \<open>The entries of the directory, none when its tree does not parse.\<close>

definition dir_entries :: "bytes \<Rightarrow> dir_entry list res" where
  "dir_entries dtroot =
     (case res_bind (dt_from_inode_data dtroot) dt_entries of Err _ \<Rightarrow> Ok [] | r \<Rightarrow> r)"

definition start_index :: "nat \<Rightarrow> nat" where
  "start_index offset = (case cursor_entry_index offset of Some i \<Rightarrow> i | None \<Rightarrow> 0)"

definition f_readdir :: "'c env \<Rightarrow> 32 word \<Rightarrow> nat \<Rightarrow> 'c fuse \<Rightarrow> dir_row list option res \<times> 'c fuse" where
  "f_readdir E ino offset fs =
     opt_bind (get_inode E ino fs) (\<lambda>i fs.
       if \<not> is_dir (i_dinode i) then (Ok None, fs)
       else
         st_bind (dir_entries (dtroot_bytes (i_dinode i)), fs) (\<lambda>es fs.
         st_bind (dir_rows E (ENTRY_BASE + start_index offset) (drop (start_index offset) es) fs) (\<lambda>rows fs.
           (Ok (Some (dot_rows ino (dtroot_bytes (i_dinode i)) offset @ rows)), fs))))"

text \<open>The variant with attributes: every name it returns is counted as looked up, even one whose inode cannot be read.\<close>

type_synonym plus_reply = "str \<times> 32 word \<times> byte \<times> dinode \<times> nat"

definition plus_row :: "'c env \<Rightarrow> dir_row \<Rightarrow> 'c fuse \<Rightarrow> plus_reply list res \<times> 'c fuse" where
  "plus_row E row fs =
     (case row of (name, ino, ty, cookie) \<Rightarrow>
        st_bind (add_node_state ino fs) (\<lambda>_ fs.
        st_bind (f_getattr E ino fs) (\<lambda>r fs.
          (Ok (case r of Some d \<Rightarrow> [(name, ino, ty, d, cookie)] | None \<Rightarrow> []), fs))))"

fun plus_dots :: "'c env \<Rightarrow> dir_row list \<Rightarrow> 'c fuse \<Rightarrow> plus_reply list res \<times> 'c fuse" where
  "plus_dots E [] fs = (Ok [], fs)"
| "plus_dots E (row # rows) fs =
     st_bind (plus_row E row fs) (\<lambda>r fs. st_bind (plus_dots E rows fs) (\<lambda>rs fs. (Ok (r @ rs), fs)))"

fun plus_entries :: "'c env \<Rightarrow> nat \<Rightarrow> dir_entry list \<Rightarrow> 'c fuse \<Rightarrow> plus_reply list res \<times> 'c fuse" where
  "plus_entries E cookie [] fs = (Ok [], fs)"
| "plus_entries E cookie (e # es) fs =
     st_bind (infer_file_type E (de_inumber e) fs) (\<lambda>ty fs.
     st_bind (plus_row E (trim_end_nul (from_utf16_lossy (de_name e)), de_inumber e, ty, cookie) fs) (\<lambda>r fs.
     st_bind (plus_entries E (cookie + 1) es fs) (\<lambda>rs fs. (Ok (r @ rs), fs))))"

definition f_readdirplus :: "'c env \<Rightarrow> 32 word \<Rightarrow> nat \<Rightarrow> 'c fuse \<Rightarrow> plus_reply list option res \<times> 'c fuse" where
  "f_readdirplus E ino offset fs =
     opt_bind (get_inode E ino fs) (\<lambda>i fs.
       if \<not> is_dir (i_dinode i) then (Ok None, fs)
       else
         st_bind (plus_dots E (dot_rows ino (dtroot_bytes (i_dinode i)) offset) fs) (\<lambda>dots fs.
         st_bind (dir_entries (dtroot_bytes (i_dinode i)), fs) (\<lambda>es fs.
         st_bind (plus_entries E (ENTRY_BASE + start_index offset) (drop (start_index offset) es) fs) (\<lambda>rows fs.
           (Ok (Some (dots @ rows)), fs)))))"

text \<open>
  The interruptible variant: \<open>flag k\<close> is the value of the token's flag at the \<open>k\<close>-th entry visited. It
  numbers the entries by their index in the whole directory on top of the start index.
\<close>

fun dir_rows_checked :: "'c env \<Rightarrow> (nat \<Rightarrow> bool) \<Rightarrow> nat \<Rightarrow> nat \<Rightarrow> dir_entry list \<Rightarrow> 'c fuse
    \<Rightarrow> dir_row list fres \<times> 'c fuse" where
  "dir_rows_checked E flag k cookie [] fs = f_ok [] fs"
| "dir_rows_checked E flag k cookie (e # es) fs =
     (if flag k then f_fail EINTR fs
      else
        st_bind (infer_file_type E (de_inumber e) fs) (\<lambda>ty fs.
        f_bind (dir_rows_checked E flag (k + 1) (cookie + 1) es fs) (\<lambda>rows fs.
          f_ok ((trim_end_nul (from_utf16_lossy (de_name e)), de_inumber e, ty, cookie) # rows) fs)))"

definition f_readdir_interruptible :: "'c env \<Rightarrow> 32 word \<Rightarrow> nat \<Rightarrow> (nat \<Rightarrow> bool) \<Rightarrow> 'c fuse \<Rightarrow> dir_row list fres \<times> 'c fuse" where
  "f_readdir_interruptible E ino offset flag fs =
     f_bind (map_err (\<lambda>_. ENOENT) (on_vol (inode_read E ino) fs)) (\<lambda>i fs.
       if \<not> is_dir (i_dinode i) then f_fail ENOTDIR fs
       else
         st_bind (dir_entries (dtroot_bytes (i_dinode i)), fs) (\<lambda>es fs.
           let start = start_index offset in
           f_bind (dir_rows_checked E flag 0 (ENTRY_BASE + start + start) (drop start es) fs) (\<lambda>rows fs.
             f_ok (dot_rows ino (dtroot_bytes (i_dinode i)) offset @ rows) fs)))"

definition access_ok :: "dinode \<Rightarrow> 32 word \<Rightarrow> 32 word \<Rightarrow> 32 word \<Rightarrow> bool" where
  "access_ok d amask u g =
     (if u = 0 then True
      else if is_symlink d then True
      else
        let perms = (if u = uid d then drop_bit 6 (mode d) else if g = gid d then drop_bit 3 (mode d) else mode d) in
        \<not> (amask AND 4 \<noteq> 0 \<and> perms AND 4 = 0) \<and> \<not> (amask AND 2 \<noteq> 0 \<and> perms AND 2 = 0) \<and>
        \<not> (amask AND 1 \<noteq> 0 \<and> perms AND 1 = 0))"

definition f_access :: "'c env \<Rightarrow> 32 word \<Rightarrow> 32 word \<Rightarrow> 32 word \<Rightarrow> 32 word \<Rightarrow> 'c fuse \<Rightarrow> unit fres \<times> 'c fuse" where
  "f_access E ino amask u g fs =
     st_bind (f_getattr E ino fs) (\<lambda>r fs.
       case r of
         None \<Rightarrow> f_fail ENOENT fs
       | Some d \<Rightarrow> if access_ok d amask u g then f_ok () fs else f_fail EACCES fs)"

definition f_read :: "'c env \<Rightarrow> 32 word \<Rightarrow> nat \<Rightarrow> nat \<Rightarrow> 'c fuse \<Rightarrow> bytes option res \<times> 'c fuse" where
  "f_read E ino offset len fs =
     opt_bind (get_inode E ino fs) (\<lambda>i fs.
       if inode_size i \<le> offset then (Ok (Some []), fs)
       else
         opt_bind (ok_opt (from_inode_data (xtroot_bytes (i_dinode i)), fs)) (\<lambda>x fs.
           ok_opt (on_vol (on_storage (read_data x offset (min len (inode_size i - offset)))) fs)))"

definition f_read_interruptible :: "'c env \<Rightarrow> 32 word \<Rightarrow> nat \<Rightarrow> nat \<Rightarrow> (nat \<Rightarrow> bool) \<Rightarrow> 'c fuse \<Rightarrow> bytes fres \<times> 'c fuse" where
  "f_read_interruptible E ino offset len flag fs =
     f_bind (map_err (\<lambda>_. ENOENT) (on_vol (inode_read E ino) fs)) (\<lambda>i fs.
       if inode_size i \<le> offset then f_ok [] fs
       else
         f_bind (map_err (\<lambda>_. EIO) (from_inode_data (xtroot_bytes (i_dinode i)), fs)) (\<lambda>x fs.
           map_err (\<lambda>_. EINTR)
             (on_vol (on_storage (\<lambda>s. read_data_checked x offset (min len (inode_size i - offset)) s flag)) fs)))"

fun seek_data :: "nat \<Rightarrow> extent list \<Rightarrow> nat option" where
  "seek_data offset [] = None"
| "seek_data offset (x # xs) =
     (let ext_start = nat (e_offset x) * BLOCK_SIZE; ext_end = ext_start + e_length x * BLOCK_SIZE in
      if offset < ext_end then Some (if ext_start \<le> offset then offset else ext_start)
      else seek_data offset xs)"

fun seek_hole :: "nat \<Rightarrow> nat \<Rightarrow> extent list \<Rightarrow> nat" where
  "seek_hole sz offset [] = sz"
| "seek_hole sz offset (x # xs) =
     (let ext_start = nat (e_offset x) * BLOCK_SIZE; ext_end = min (ext_start + e_length x * BLOCK_SIZE) sz in
      if offset < ext_start then offset else if offset < ext_end then ext_end else seek_hole sz offset xs)"

definition f_lseek :: "'c env \<Rightarrow> 32 word \<Rightarrow> nat \<Rightarrow> int \<Rightarrow> 'c fuse \<Rightarrow> nat option res \<times> 'c fuse" where
  "f_lseek E ino offset seek_type fs =
     opt_bind (get_inode E ino fs) (\<lambda>i fs.
       if inode_size i \<le> offset \<or> seek_type \<notin> {3, 4} then (Ok None, fs)
       else
         opt_bind (ok_opt (from_inode_data (xtroot_bytes (i_dinode i)), fs)) (\<lambda>x fs.
           if seek_type = 3 then (Ok (seek_data offset (iter_extents x)), fs)
           else (Ok (Some (seek_hole (inode_size i) offset (iter_extents x))), fs)))"

definition f_bmap :: "'c env \<Rightarrow> 32 word \<Rightarrow> nat \<Rightarrow> 'c fuse \<Rightarrow> (nat \<times> nat) fres \<times> 'c fuse" where
  "f_bmap E ino file_block fs =
     f_bind (map_err (\<lambda>_. ENOENT) (on_vol (inode_read E ino) fs)) (\<lambda>i fs.
     f_bind (map_err (\<lambda>_. EIO) (from_inode_data (xtroot_bytes (i_dinode i)), fs)) (\<lambda>x fs.
       case lookup x file_block of
         Some ext \<Rightarrow> f_ok (e_address ext + (file_block - nat (e_offset ext)), e_length ext) fs
       | None \<Rightarrow> f_ok (0, 0) fs))"

record statfs =
  st_blocks :: nat
  st_bfree :: nat
  st_bavail :: nat
  st_files :: nat
  st_ffree :: nat
  st_bsize :: nat
  st_blksize :: nat
  st_ino_size :: nat
  st_namelen :: nat

definition f_statfs :: "'c fuse \<Rightarrow> statfs res" where
  "f_statfs fs =
     (let v = f_volume fs in
      res_bind (total_inodes v) (\<lambda>files.
        Ok \<lparr>st_blocks = v_agg_size v, st_bfree = free_blocks v, st_bavail = free_blocks v, st_files = files, st_ffree = 0,
            st_bsize = v_block_size v, st_blksize = v_block_size v, st_ino_size = DISIZE, st_namelen = 255\<rparr>))"

section \<open>Writing\<close>

text \<open>The guard of the modifying methods.\<close>

definition if_writable :: "('c fuse \<Rightarrow> 'a fres \<times> 'c fuse) \<Rightarrow> 'c fuse \<Rightarrow> 'a fres \<times> 'c fuse" where
  "if_writable g fs = (if f_writable fs then g fs else f_fail EROFS fs)"

definition opt_if_writable :: "('c fuse \<Rightarrow> 'a option res \<times> 'c fuse) \<Rightarrow> 'c fuse \<Rightarrow> 'a option res \<times> 'c fuse" where
  "opt_if_writable g fs = (if f_writable fs then g fs else (Ok None, fs))"

text \<open>\<open>.map(|ino| { self.add_node_state(ino); ino })\<close>.\<close>

definition count_new :: "32 word fres \<times> 'c fuse \<Rightarrow> 32 word fres \<times> 'c fuse" where
  "count_new m = f_bind m (\<lambda>ino fs. st_bind (add_node_state ino fs) (\<lambda>_ fs. f_ok ino fs))"

definition f_create :: "'c env \<Rightarrow> 32 word \<Rightarrow> str \<Rightarrow> 'c fuse \<Rightarrow> 32 word option res \<times> 'c fuse" where
  "f_create E parent name = opt_if_writable (\<lambda>fs.
     opt_bind (ok_opt (on_vol (create_file E parent name) fs)) (\<lambda>ino fs.
     st_bind (add_node_state ino fs) (\<lambda>_ fs. (Ok (Some ino), fs))))"

definition f_write :: "'c env \<Rightarrow> 32 word \<Rightarrow> nat \<Rightarrow> bytes \<Rightarrow> 'c fuse \<Rightarrow> nat option res \<times> 'c fuse" where
  "f_write E ino offset data = opt_if_writable (\<lambda>fs. ok_opt (on_vol (write_at E ino offset data) fs))"

definition f_write_interruptible :: "'c env \<Rightarrow> 32 word \<Rightarrow> nat \<Rightarrow> bytes \<Rightarrow> (nat \<Rightarrow> bool) \<Rightarrow> 'c fuse \<Rightarrow> nat fres \<times> 'c fuse" where
  "f_write_interruptible E ino offset data flag = if_writable (\<lambda>fs.
     map_err (\<lambda>_. EINTR) (on_vol (write_at_with_interrupt E ino offset data (\<lambda>k. flag_check (flag k))) fs))"

definition f_flush :: "'c env \<Rightarrow> 32 word \<Rightarrow> 'c fuse \<Rightarrow> unit option res \<times> 'c fuse" where
  "f_flush E ino = opt_if_writable (\<lambda>fs. ok_opt (on_vol (v_fsync E ino) fs))"

definition f_sync_fs :: "'c env \<Rightarrow> 'c fuse \<Rightarrow> unit fres \<times> 'c fuse" where
  "f_sync_fs E = if_writable (\<lambda>fs. map_err (\<lambda>_. EIO) (on_vol (v_sync E) fs))"

definition f_truncate :: "'c env \<Rightarrow> 32 word \<Rightarrow> nat \<Rightarrow> 'c fuse \<Rightarrow> unit option res \<times> 'c fuse" where
  "f_truncate E ino new_size = opt_if_writable (\<lambda>fs. ok_opt (on_vol (v_truncate E ino new_size) fs))"

definition f_fallocate :: "'c env \<Rightarrow> 32 word \<Rightarrow> nat \<Rightarrow> nat \<Rightarrow> 32 word \<Rightarrow> 'c fuse \<Rightarrow> unit fres \<times> 'c fuse" where
  "f_fallocate E ino offset len fmode = if_writable (\<lambda>fs.
     if fmode AND 0x38 \<noteq> 0 then f_fail EOPNOTSUPP fs
     else map_err fallocate_errno (on_vol (fallocate E ino offset len fmode) fs))"

definition f_unlink :: "'c env \<Rightarrow> 32 word \<Rightarrow> str \<Rightarrow> 'c fuse \<Rightarrow> bool option res \<times> 'c fuse" where
  "f_unlink E parent name = opt_if_writable (\<lambda>fs.
     st_bind (ok_opt (on_vol (unlink_file E parent name) fs)) (\<lambda>r fs. (Ok (Some (r = Some True)), fs)))"

definition f_mkdir :: "'c env \<Rightarrow> 32 word \<Rightarrow> str \<Rightarrow> 'c fuse \<Rightarrow> 32 word fres \<times> 'c fuse" where
  "f_mkdir E parent name = if_writable (\<lambda>fs. count_new (map_err mkdir_errno (on_vol (mkdir E parent name) fs)))"

definition f_rmdir :: "'c env \<Rightarrow> 32 word \<Rightarrow> str \<Rightarrow> 'c fuse \<Rightarrow> unit fres \<times> 'c fuse" where
  "f_rmdir E parent name = if_writable (\<lambda>fs.
     f_bind (map_err rmdir_errno (on_vol (rmdir E parent name) fs)) (\<lambda>removed fs.
       if removed then f_ok () fs else f_fail ENOENT fs))"

definition f_setattr :: "'c env \<Rightarrow> 32 word \<Rightarrow> 32 word option \<Rightarrow> 32 word option \<Rightarrow> 32 word option \<Rightarrow> nat option \<Rightarrow> nat option
    \<Rightarrow> nat option \<Rightarrow> 'c fuse \<Rightarrow> unit fres \<times> 'c fuse" where
  "f_setattr E ino m u g atime mtime new_size = if_writable (\<lambda>fs.
     f_bind
       (case new_size of
          None \<Rightarrow> f_ok () fs
        | Some n \<Rightarrow> st_bind (f_truncate E ino n fs) (\<lambda>r fs. if r = None then f_fail EIO fs else f_ok () fs)) (\<lambda>_ fs.
       map_err (\<lambda>_. EIO) (on_vol (v_setattr E ino m u g atime mtime) fs)))"

definition f_rename :: "'c env \<Rightarrow> 32 word \<Rightarrow> str \<Rightarrow> 32 word \<Rightarrow> str \<Rightarrow> 'c fuse \<Rightarrow> unit fres \<times> 'c fuse" where
  "f_rename E old_parent old_name new_parent new_name = if_writable (\<lambda>fs.
     f_bind (map_err rename_errno (on_vol (rename E old_parent old_name new_parent new_name) fs)) (\<lambda>_ fs. f_ok () fs))"

definition f_setxattr :: "'c env \<Rightarrow> 32 word \<Rightarrow> str \<Rightarrow> bytes \<Rightarrow> 32 word \<Rightarrow> 'c fuse \<Rightarrow> unit fres \<times> 'c fuse" where
  "f_setxattr E ino name val flags = if_writable (\<lambda>fs.
     map_err storage_error_to_errno (on_vol (setxattr E ino (translate_xattr_name name) val flags) fs))"

definition f_getxattr :: "'c env \<Rightarrow> 32 word \<Rightarrow> str \<Rightarrow> 'c fuse \<Rightarrow> bytes option fres \<times> 'c fuse" where
  "f_getxattr E ino name = if_writable (\<lambda>fs.
     map_err storage_error_to_errno (on_vol (getxattr E ino (translate_xattr_name name)) fs))"

definition f_removexattr :: "'c env \<Rightarrow> 32 word \<Rightarrow> str \<Rightarrow> 'c fuse \<Rightarrow> unit fres \<times> 'c fuse" where
  "f_removexattr E ino name = if_writable (\<lambda>fs.
     f_bind (map_err storage_error_to_errno (on_vol (removexattr E ino (translate_xattr_name name)) fs)) (\<lambda>removed fs.
       if removed then f_ok () fs else f_fail ENOENT fs))"

definition f_listxattr :: "'c env \<Rightarrow> 32 word \<Rightarrow> 'c fuse \<Rightarrow> str list fres \<times> 'c fuse" where
  "f_listxattr E ino = if_writable (\<lambda>fs.
     f_bind (map_err storage_error_to_errno (on_vol (listxattr E ino) fs)) (\<lambda>names fs.
       f_ok (map reverse_xattr_name names) fs))"

definition f_symlink :: "'c env \<Rightarrow> 32 word \<Rightarrow> str \<Rightarrow> str \<Rightarrow> 'c fuse \<Rightarrow> 32 word fres \<times> 'c fuse" where
  "f_symlink E parent name target = if_writable (\<lambda>fs.
     count_new (map_err storage_error_to_errno (on_vol (symlink E parent name target) fs)))"

definition f_mknod :: "'c env \<Rightarrow> 32 word \<Rightarrow> str \<Rightarrow> 32 word \<Rightarrow> nat \<Rightarrow> 'c fuse \<Rightarrow> 32 word fres \<times> 'c fuse" where
  "f_mknod E parent name m rdev = if_writable (\<lambda>fs.
     count_new (map_err storage_error_to_errno (on_vol (mknod E parent name m rdev) fs)))"

definition f_readlink :: "'c env \<Rightarrow> 32 word \<Rightarrow> 'c fuse \<Rightarrow> bytes fres \<times> 'c fuse" where
  "f_readlink E ino fs = map_err readlink_errno (on_vol (read_symlink E ino) fs)"

definition f_link :: "'c env \<Rightarrow> 32 word \<Rightarrow> str \<Rightarrow> 32 word \<Rightarrow> 'c fuse \<Rightarrow> unit fres \<times> 'c fuse" where
  "f_link E parent name target = if_writable (\<lambda>fs.
     f_bind (map_err storage_error_to_errno (on_vol (link_file E parent name target) fs)) (\<lambda>_ fs. f_ok () fs))"

section \<open>Copying\<close>

text \<open>The read and write path of one chunk; a failed write counts as nothing written.\<close>

definition copy_by_data :: "'c env \<Rightarrow> 32 word \<Rightarrow> nat \<Rightarrow> 32 word \<Rightarrow> nat \<Rightarrow> nat \<Rightarrow> 'c fuse \<Rightarrow> nat fres \<times> 'c fuse" where
  "copy_by_data E src src_off dst dst_off chunk fs =
     st_bind (f_read E src src_off chunk fs) (\<lambda>data fs.
       case data of
         None \<Rightarrow> f_fail EIO fs
       | Some data \<Rightarrow>
           st_bind (f_write E dst dst_off data fs) (\<lambda>written fs.
             f_ok (case written of Some n \<Rightarrow> n | None \<Rightarrow> 0) fs))"

definition copy_chunk :: "'c env \<Rightarrow> bool \<Rightarrow> 32 word \<Rightarrow> nat \<Rightarrow> 32 word \<Rightarrow> nat \<Rightarrow> nat \<Rightarrow> 'c fuse \<Rightarrow> nat fres \<times> 'c fuse" where
  "copy_chunk E is_move src src_off dst dst_off chunk fs =
     (if is_move \<and> src \<noteq> dst then
        st_bind (ok_opt (on_vol (copy_file_range_extent E src src_off dst dst_off chunk) fs)) (\<lambda>r fs.
          case r of
            Some (Some n) \<Rightarrow> f_ok n fs
          | _ \<Rightarrow>
              f_bind (copy_by_data E src src_off dst dst_off chunk fs) (\<lambda>written fs.
                if 0 < written
                then st_bind (ok_opt (on_vol (fallocate E src src_off written 3) fs)) (\<lambda>_ fs. f_ok written fs)
                else f_ok written fs))
      else copy_by_data E src src_off dst dst_off chunk fs)"

definition CHUNK_SIZE :: nat where "CHUNK_SIZE = 65536"

function copy_loop :: "'c env \<Rightarrow> bool \<Rightarrow> 32 word \<Rightarrow> nat \<Rightarrow> 32 word \<Rightarrow> nat \<Rightarrow> nat \<Rightarrow> nat \<Rightarrow> 'c fuse \<Rightarrow> nat fres \<times> 'c fuse" where
  "copy_loop E is_move src cur_src dst cur_dst len copied_so_far fs =
     (if copied_so_far < len then
        (case copy_chunk E is_move src cur_src dst cur_dst (min (len - copied_so_far) CHUNK_SIZE) fs of
           (Ok (Inr copied), fs1) \<Rightarrow>
             if copied = 0 then f_ok copied_so_far fs1
             else if 2 ^ 64 \<le> cur_src + copied \<or> 2 ^ 64 \<le> cur_dst + copied then (Panic, fs1)
             else copy_loop E is_move src (cur_src + copied) dst (cur_dst + copied) len (copied_so_far + copied) fs1
         | (Ok (Inl e), fs1) \<Rightarrow> f_fail e fs1
         | (Err e, fs1) \<Rightarrow> (Err e, fs1)
         | (Panic, fs1) \<Rightarrow> (Panic, fs1)
         | (Exit, fs1) \<Rightarrow> (Exit, fs1))
      else f_ok copied_so_far fs)"
  by pat_completeness auto
termination by (relation "measure (\<lambda>(_, _, _, _, _, _, len, copied_so_far, _). len - copied_so_far)") auto

declare copy_loop.simps [simp del]

definition f_copy_file_range :: "'c env \<Rightarrow> 32 word \<Rightarrow> nat \<Rightarrow> 32 word \<Rightarrow> nat \<Rightarrow> nat \<Rightarrow> 32 word \<Rightarrow> 'c fuse \<Rightarrow> nat fres \<times> 'c fuse" where
  "f_copy_file_range E src src_off dst dst_off len flags = if_writable (\<lambda>fs.
     if src = dst \<and> src_off = dst_off then f_fail EINVAL fs
     else
       f_bind (copy_loop E (flags AND 1 \<noteq> 0) src src_off dst dst_off len 0 fs) (\<lambda>copied_so_far fs.
         if copied_so_far = 0 then f_fail EIO fs else f_ok copied_so_far fs))"

section \<open>Locks\<close>

definition lock_range :: "'c env \<Rightarrow> 32 word \<Rightarrow> flock \<Rightarrow> 'c fuse \<Rightarrow> (nat \<times> nat) fres \<times> 'c fuse" where
  "lock_range E ino f fs =
     f_bind (map_err (\<lambda>_. ENOENT) (on_vol (inode_read E ino) fs)) (\<lambda>i fs.
     st_bind (resolve_flock f (inode_size i), fs) (\<lambda>r fs. f_ok r fs))"

definition locks_of :: "'c fuse \<Rightarrow> 32 word \<Rightarrow> posix_lock list" where
  "locks_of fs ino = (case f_locks fs ino of Some ls \<Rightarrow> ls | None \<Rightarrow> [])"

definition flocks_of :: "'c fuse \<Rightarrow> 32 word \<Rightarrow> flock_lock list" where
  "flocks_of fs ino = (case f_flock_locks fs ino of Some ls \<Rightarrow> ls | None \<Rightarrow> [])"

definition release_owner_locks :: "32 word \<Rightarrow> nat \<Rightarrow> 'c fuse \<Rightarrow> 'c fuse" where
  "release_owner_locks ino owner fs =
     fs\<lparr>f_locks := (f_locks fs)(ino := map_option (release_owner owner) (f_locks fs ino))\<rparr>"

definition release_flocks :: "32 word \<Rightarrow> nat \<Rightarrow> 'c fuse \<Rightarrow> 'c fuse" where
  "release_flocks ino owner fs =
     fs\<lparr>f_flock_locks := (f_flock_locks fs)(ino := map_option (release_flock_owner owner) (f_flock_locks fs ino))\<rparr>"

definition release_locks :: "32 word \<Rightarrow> nat \<Rightarrow> 'c fuse \<Rightarrow> 'c fuse" where
  "release_locks ino owner fs = release_flocks ino owner (release_owner_locks ino owner fs)"

definition do_setlk :: "'c env \<Rightarrow> 32 word \<Rightarrow> flock \<Rightarrow> nat \<Rightarrow> 'c fuse \<Rightarrow> unit fres \<times> 'c fuse" where
  "do_setlk E ino f owner fs =
     f_bind (lock_range E ino f fs) (\<lambda>(s, e) fs.
       if l_type f = F_UNLCK then f_ok () (release_owner_locks ino owner fs)
       else
         case set_posix (locks_of fs ino) (l_type f) s e owner of
           Inl err \<Rightarrow> f_fail err fs
         | Inr ls \<Rightarrow> f_ok () (fs\<lparr>f_locks := (f_locks fs)(ino \<mapsto> ls)\<rparr>))"

definition do_getlk :: "'c env \<Rightarrow> 32 word \<Rightarrow> flock \<Rightarrow> nat \<Rightarrow> 'c fuse \<Rightarrow> flock fres \<times> 'c fuse" where
  "do_getlk E ino f owner fs =
     f_bind (lock_range E ino f fs) (\<lambda>(s, e) fs.
     st_bind (get_posix (locks_of fs ino) f s e owner, fs) (\<lambda>g fs. f_ok g fs))"

definition f_getlk :: "'c env \<Rightarrow> 32 word \<Rightarrow> flock \<Rightarrow> nat \<Rightarrow> 'c fuse \<Rightarrow> flock fres \<times> 'c fuse" where
  "f_getlk E ino f owner = if_writable (\<lambda>fs.
     if l_type f \<noteq> F_RDLCK \<and> l_type f \<noteq> F_WRLCK then f_fail EINVAL fs else do_getlk E ino f owner fs)"

definition f_setlk :: "'c env \<Rightarrow> 32 word \<Rightarrow> flock \<Rightarrow> nat \<Rightarrow> 'c fuse \<Rightarrow> unit fres \<times> 'c fuse" where
  "f_setlk E ino f owner = if_writable (\<lambda>fs.
     if l_type f \<noteq> F_UNLCK \<and> l_type f \<noteq> F_RDLCK \<and> l_type f \<noteq> F_WRLCK then f_fail EINVAL fs
     else do_setlk E ino f owner fs)"

definition f_setlkw :: "'c env \<Rightarrow> 32 word \<Rightarrow> flock \<Rightarrow> nat \<Rightarrow> 'c fuse \<Rightarrow> unit fres \<times> 'c fuse" where
  "f_setlkw E ino f owner = if_writable (\<lambda>fs.
     if l_type f \<noteq> F_UNLCK \<and> l_type f \<noteq> F_RDLCK \<and> l_type f \<noteq> F_WRLCK then f_fail EINVAL fs
     else do_setlk E ino f owner fs)"

definition f_flock :: "32 word \<Rightarrow> 32 word \<Rightarrow> nat \<Rightarrow> 'c fuse \<Rightarrow> unit fres \<times> 'c fuse" where
  "f_flock ino operation owner = if_writable (\<lambda>fs.
     if operation AND NOT LOCK_NB = LOCK_UN then f_ok () (release_flocks ino owner fs)
     else
       case set_flock (flocks_of fs ino) operation owner of
         Inl err \<Rightarrow> f_fail err fs
       | Inr ls \<Rightarrow> f_ok () (fs\<lparr>f_flock_locks := (f_flock_locks fs)(ino \<mapsto> ls)\<rparr>))"

end
