(* ===== verification/Fuse_Adapter.thy ===== *)
theory Fuse_Adapter
  imports Fuse
begin

text \<open>
  The methods of \<open>Fuse3Fs\<close> in \<open>fuse/mod.rs\<close>, which the requests of the kernel reach through the \<open>fuser\<close> crate.
  Each runs with the lock on the file system object held, so a request is one step on its state; the
  reply is modelled as the value or the errno it carries. A request that may be interrupted is
  registered under its number while it runs, and \<open>flag k\<close> is what its token reads at the \<open>k\<close>-th check. The
  time to live of the replies and the conversion of the names from the operating system are left out.
\<close>

section \<open>Attributes\<close>

datatype file_type = NamedPipe | CharDevice | Directory | BlockDevice | RegularFile | Symlink | Socket

record file_attr =
  fa_ino :: "64 word"
  fa_size :: "64 word"
  fa_blocks :: "64 word"
  fa_atime :: "nat \<times> nat"
  fa_mtime :: "nat \<times> nat"
  fa_ctime :: "nat \<times> nat"
  fa_crtime :: "nat \<times> nat"
  fa_kind :: file_type
  fa_perm :: "16 word"
  fa_nlink :: "32 word"
  fa_uid :: "32 word"
  fa_gid :: "32 word"
  fa_rdev :: nat
  fa_blksize :: nat
  fa_flags :: nat

definition kind_of :: "32 word \<Rightarrow> file_type" where
  "kind_of m =
     (let t = m AND 0xf000 in
      if t = 0x1000 then NamedPipe else if t = 0x2000 then CharDevice else if t = 0x4000 then Directory
      else if t = 0x6000 then BlockDevice else if t = 0x8000 then RegularFile else if t = 0xa000 then Symlink
      else if t = 0xc000 then Socket else RegularFile)"

text \<open>\<open>Duration::new\<close> carries whole seconds out of the nanoseconds.\<close>

definition time_of :: "timestruc \<Rightarrow> nat \<times> nat" where
  "time_of t = (let s = unat (seconds t); n = unat (nanoseconds t) in (s + n div 1000000000, n mod 1000000000))"

definition dinode_to_fileattr :: "32 word \<Rightarrow> dinode \<Rightarrow> file_attr" where
  "dinode_to_fileattr ino d =
     \<lparr>fa_ino = ucast ino, fa_size = size_val d, fa_blocks = nblocks d, fa_atime = time_of (di_atime d),
      fa_mtime = time_of (di_mtime d), fa_ctime = time_of (di_ctime d), fa_crtime = time_of (di_ctime d),
      fa_kind = kind_of (mode d), fa_perm = ucast (mode d AND 0x1fff), fa_nlink = nlink d, fa_uid = uid d, fa_gid = gid d,
      fa_rdev = 0, fa_blksize = BLOCK_SIZE, fa_flags = 0\<rparr>"

definition fuse_file_type :: "byte \<Rightarrow> file_type" where
  "fuse_file_type dt =
     (if dt = 0x04 then Directory else if dt = 0x08 then RegularFile else if dt = 0x0A \<or> dt = 0xA0 then Symlink
      else if dt = 0x01 then NamedPipe else if dt = 0x02 then CharDevice else if dt = 0x06 then BlockDevice
      else if dt = 0x0C \<or> dt = 0x0E then Socket else RegularFile)"

section \<open>Entries\<close>

text \<open>The entry reply for an inode: its attributes and generation.\<close>

definition reply_entry :: "'c env \<Rightarrow> 32 word \<Rightarrow> 'c fuse \<Rightarrow> (file_attr \<times> 32 word) fres \<times> 'c fuse" where
  "reply_entry E ino fs =
     st_bind (f_getattr E ino fs) (\<lambda>r fs.
       case r of Some d \<Rightarrow> f_ok (dinode_to_fileattr ino d, generation d) fs | None \<Rightarrow> f_fail ENOENT fs)"

definition fuse_lookup :: "'c env \<Rightarrow> 32 word \<Rightarrow> str \<Rightarrow> 'c fuse \<Rightarrow> (file_attr \<times> 32 word) fres \<times> 'c fuse" where
  "fuse_lookup E parent name fs =
     st_bind (f_lookup E parent name fs) (\<lambda>r fs.
       case r of Some ino \<Rightarrow> reply_entry E ino fs | None \<Rightarrow> f_fail ENOENT fs)"

definition fuse_getattr :: "'c env \<Rightarrow> 32 word \<Rightarrow> 'c fuse \<Rightarrow> file_attr fres \<times> 'c fuse" where
  "fuse_getattr E ino fs = f_bind (reply_entry E ino fs) (\<lambda>(a, _) fs. f_ok a fs)"

definition fuse_setattr :: "'c env \<Rightarrow> 32 word \<Rightarrow> 32 word option \<Rightarrow> 32 word option \<Rightarrow> 32 word option \<Rightarrow> nat option
    \<Rightarrow> nat option \<Rightarrow> nat option \<Rightarrow> 'c fuse \<Rightarrow> file_attr fres \<times> 'c fuse" where
  "fuse_setattr E ino m u g new_size atime mtime fs =
     f_bind (f_setattr E ino m u g atime mtime new_size fs) (\<lambda>_ fs. fuse_getattr E ino fs)"

definition fuse_readlink :: "'c env \<Rightarrow> 32 word \<Rightarrow> 'c fuse \<Rightarrow> bytes fres \<times> 'c fuse" where
  "fuse_readlink E ino fs = f_bind (f_readlink E ino fs) (\<lambda>data fs. f_ok (take 128 data) fs)"

definition fuse_symlink :: "'c env \<Rightarrow> 32 word \<Rightarrow> str \<Rightarrow> str \<Rightarrow> 'c fuse \<Rightarrow> (file_attr \<times> 32 word) fres \<times> 'c fuse" where
  "fuse_symlink E parent name target fs =
     f_bind (f_symlink E parent name target fs) (\<lambda>ino fs. reply_entry E ino fs)"

definition fuse_mknod :: "'c env \<Rightarrow> 32 word \<Rightarrow> str \<Rightarrow> 32 word \<Rightarrow> 32 word \<Rightarrow> 'c fuse \<Rightarrow> (file_attr \<times> 32 word) fres \<times> 'c fuse" where
  "fuse_mknod E parent name m rdev fs =
     f_bind (f_mknod E parent name m (unat rdev) fs) (\<lambda>ino fs. reply_entry E ino fs)"

definition fuse_mkdir :: "'c env \<Rightarrow> 32 word \<Rightarrow> str \<Rightarrow> 'c fuse \<Rightarrow> (file_attr \<times> 32 word) fres \<times> 'c fuse" where
  "fuse_mkdir E parent name fs = f_bind (f_mkdir E parent name fs) (\<lambda>ino fs. reply_entry E ino fs)"

definition fuse_unlink :: "'c env \<Rightarrow> 32 word \<Rightarrow> str \<Rightarrow> 'c fuse \<Rightarrow> unit fres \<times> 'c fuse" where
  "fuse_unlink E parent name fs =
     st_bind (f_unlink E parent name fs) (\<lambda>r fs. if r = Some True then f_ok () fs else f_fail ENOENT fs)"

definition fuse_rename :: "'c env \<Rightarrow> 32 word \<Rightarrow> str \<Rightarrow> 32 word \<Rightarrow> str \<Rightarrow> 32 word \<Rightarrow> 'c fuse \<Rightarrow> unit fres \<times> 'c fuse" where
  "fuse_rename E parent name new_parent new_name flags fs =
     (if flags AND 2 \<noteq> 0 then f_fail EOPNOTSUPP fs
      else if flags AND 1 \<noteq> 0 then f_fail EOPNOTSUPP fs
      else if flags \<noteq> 0 then f_fail EINVAL fs
      else f_rename E parent name new_parent new_name fs)"

definition fuse_link :: "'c env \<Rightarrow> 32 word \<Rightarrow> 32 word \<Rightarrow> str \<Rightarrow> 'c fuse \<Rightarrow> (file_attr \<times> 32 word) fres \<times> 'c fuse" where
  "fuse_link E target parent name fs =
     f_bind (f_link E parent name target fs) (\<lambda>_ fs. reply_entry E target fs)"

section \<open>Extended attributes\<close>

definition ENODATA :: int where "ENODATA = 61"

datatype xattr_reply = XSize nat | XData bytes

definition sized_reply :: "32 word \<Rightarrow> bytes \<Rightarrow> 's \<Rightarrow> xattr_reply fres \<times> 's" where
  "sized_reply sz data s =
     (if sz = 0 then f_ok (XSize (length data mod 2 ^ 32)) s
      else if length data mod 2 ^ 32 \<le> unat sz then f_ok (XData data) s
      else f_fail ERANGE s)"

definition fuse_getxattr :: "'c env \<Rightarrow> 32 word \<Rightarrow> str \<Rightarrow> 32 word \<Rightarrow> 'c fuse \<Rightarrow> xattr_reply fres \<times> 'c fuse" where
  "fuse_getxattr E ino name sz fs =
     f_bind (f_getxattr E ino name fs) (\<lambda>r fs.
       case r of Some data \<Rightarrow> sized_reply sz data fs | None \<Rightarrow> f_fail ENODATA fs)"

definition fuse_listxattr :: "'c env \<Rightarrow> 32 word \<Rightarrow> 32 word \<Rightarrow> 'c fuse \<Rightarrow> xattr_reply fres \<times> 'c fuse" where
  "fuse_listxattr E ino sz fs =
     f_bind (f_listxattr E ino fs) (\<lambda>names fs. sized_reply sz (concat (map (\<lambda>n. as_bytes n @ [0]) names)) fs)"

section \<open>Open files\<close>

definition validate_handle :: "(nat \<Rightarrow> open_handle option) \<Rightarrow> nat \<Rightarrow> 32 word \<Rightarrow> bool \<Rightarrow> int + unit" where
  "validate_handle handles fh expected_ino expect_file =
     (case handles fh of
        Some h \<Rightarrow>
          if oh_ino h = expected_ino then
            (if expect_file \<and> oh_is_dir h then Inl EISDIR
             else if \<not> expect_file \<and> \<not> oh_is_dir h then Inl ENOTDIR
             else Inr ())
          else Inl EBADF
      | None \<Rightarrow> Inl EBADF)"

definition with_handle :: "nat \<Rightarrow> 32 word \<Rightarrow> bool \<Rightarrow> ('c fuse \<Rightarrow> 'a fres \<times> 'c fuse) \<Rightarrow> 'c fuse \<Rightarrow> 'a fres \<times> 'c fuse" where
  "with_handle fh ino expect_file g fs =
     (case validate_handle (f_handles fs) fh ino expect_file of Inl e \<Rightarrow> f_fail e fs | Inr _ \<Rightarrow> g fs)"

definition with_request :: "nat \<Rightarrow> ('c fuse \<Rightarrow> 'a fres \<times> 'c fuse) \<Rightarrow> 'c fuse \<Rightarrow> 'a fres \<times> 'c fuse" where
  "with_request req g fs =
     (let fs1 = fs\<lparr>f_interrupts := snd (register_at req (f_interrupts fs))\<rparr>; (r, fs2) = g fs1
      in (r, fs2\<lparr>f_interrupts := deregister req (f_interrupts fs2)\<rparr>))"

definition fuse_open :: "'c env \<Rightarrow> 32 word \<Rightarrow> 'c fuse \<Rightarrow> nat fres \<times> 'c fuse" where
  "fuse_open E ino fs =
     f_bind (f_open E ino fs) (\<lambda>_ fs. st_bind (add_handle ino False fs) (\<lambda>fh fs. f_ok fh fs))"

definition fuse_opendir :: "'c env \<Rightarrow> 32 word \<Rightarrow> 'c fuse \<Rightarrow> nat fres \<times> 'c fuse" where
  "fuse_opendir E ino fs =
     f_bind (f_open E ino fs) (\<lambda>_ fs. st_bind (add_handle ino True fs) (\<lambda>fh fs. f_ok fh fs))"

definition fuse_read :: "'c env \<Rightarrow> nat \<Rightarrow> 32 word \<Rightarrow> nat \<Rightarrow> nat \<Rightarrow> nat \<Rightarrow> (nat \<Rightarrow> bool) \<Rightarrow> 'c fuse \<Rightarrow> bytes fres \<times> 'c fuse" where
  "fuse_read E req ino fh offset len flag =
     with_handle fh ino False (with_request req (f_read_interruptible E ino offset len flag))"

definition fuse_write :: "'c env \<Rightarrow> nat \<Rightarrow> 32 word \<Rightarrow> nat \<Rightarrow> nat \<Rightarrow> bytes \<Rightarrow> bool \<Rightarrow> (nat \<Rightarrow> bool) \<Rightarrow> 'c fuse \<Rightarrow> nat fres \<times> 'c fuse" where
  "fuse_write E req ino fh offset data write_cache flag =
     with_handle fh ino False (\<lambda>fs.
       f_bind (with_request req (f_write_interruptible E ino offset data flag) fs) (\<lambda>n fs.
         if write_cache
         then st_bind (f_flush E ino fs) (\<lambda>r fs. if r = None then f_fail EIO fs else f_ok n fs)
         else f_ok n fs))"

definition fuse_readdir :: "'c env \<Rightarrow> nat \<Rightarrow> 32 word \<Rightarrow> nat \<Rightarrow> nat \<Rightarrow> (nat \<Rightarrow> bool) \<Rightarrow> 'c fuse \<Rightarrow> dir_row list fres \<times> 'c fuse" where
  "fuse_readdir E req ino fh offset flag =
     with_handle fh ino True (with_request req (f_readdir_interruptible E ino offset flag))"

definition fuse_fallocate :: "'c env \<Rightarrow> 32 word \<Rightarrow> nat \<Rightarrow> nat \<Rightarrow> nat \<Rightarrow> 32 word \<Rightarrow> 'c fuse \<Rightarrow> unit fres \<times> 'c fuse" where
  "fuse_fallocate E ino fh offset len fmode =
     with_handle fh ino False (f_fallocate E ino offset len fmode)"

definition fuse_lseek :: "'c env \<Rightarrow> 32 word \<Rightarrow> nat \<Rightarrow> int \<Rightarrow> int \<Rightarrow> 'c fuse \<Rightarrow> nat fres \<times> 'c fuse" where
  "fuse_lseek E ino fh offset whence =
     with_handle fh ino False (\<lambda>fs.
       if whence \<noteq> 3 \<and> whence \<noteq> 4 then f_fail EINVAL fs
       else
         st_bind (f_lseek E ino (as_u64 offset) whence fs) (\<lambda>r fs.
           case r of Some n \<Rightarrow> f_ok n fs | None \<Rightarrow> f_fail ENXIO fs))"

definition fuse_copy_file_range :: "'c env \<Rightarrow> 32 word \<Rightarrow> nat \<Rightarrow> nat \<Rightarrow> 32 word \<Rightarrow> nat \<Rightarrow> nat \<Rightarrow> nat \<Rightarrow> 64 word \<Rightarrow> 'c fuse
    \<Rightarrow> nat fres \<times> 'c fuse" where
  "fuse_copy_file_range E src fh_in off_in dst fh_out off_out len flags fs =
     (if src = dst \<and> off_in = off_out then f_fail EINVAL fs
      else if flags \<noteq> 0 then f_fail EOPNOTSUPP fs
      else
        with_handle fh_in src False
          (with_handle fh_out dst False (f_copy_file_range E src off_in dst off_out len (ucast flags))) fs)"

text \<open>The rows of the listing whose inode can be read, with its attributes.\<close>

fun with_attrs :: "'c env \<Rightarrow> dir_row list \<Rightarrow> 'c fuse \<Rightarrow> (dir_row \<times> file_attr \<times> 32 word) list res \<times> 'c fuse" where
  "with_attrs E [] fs = (Ok [], fs)"
| "with_attrs E (row # rows) fs =
     (case row of (_, ino, _, _) \<Rightarrow>
        st_bind (f_getattr E ino fs) (\<lambda>r fs.
        st_bind (with_attrs E rows fs) (\<lambda>rest fs.
          (Ok ((case r of Some d \<Rightarrow> [(row, dinode_to_fileattr ino d, generation d)] | None \<Rightarrow> []) @ rest), fs))))"

definition fuse_readdirplus :: "'c env \<Rightarrow> nat \<Rightarrow> 32 word \<Rightarrow> nat \<Rightarrow> nat \<Rightarrow> (nat \<Rightarrow> bool) \<Rightarrow> 'c fuse
    \<Rightarrow> (dir_row \<times> file_attr \<times> 32 word) list fres \<times> 'c fuse" where
  "fuse_readdirplus E req ino fh offset flag =
     with_handle fh ino True (\<lambda>fs.
       f_bind (with_request req (f_readdir_interruptible E ino offset flag) fs) (\<lambda>rows fs.
       st_bind (with_attrs E rows fs) (\<lambda>full fs. f_ok full fs)))"

definition fuse_release :: "'c env \<Rightarrow> 32 word \<Rightarrow> nat \<Rightarrow> nat option \<Rightarrow> bool \<Rightarrow> 'c fuse \<Rightarrow> unit fres \<times> 'c fuse" where
  "fuse_release E ino fh lock_owner flush fs =
     f_bind (if flush then st_bind (f_flush E ino fs) (\<lambda>r fs. if r = None then f_fail EIO fs else f_ok () fs)
             else f_ok () fs) (\<lambda>_ fs.
       let fs1 = snd (release_handle fh fs);
           fs2 = (case lock_owner of Some owner \<Rightarrow> release_locks ino owner fs1 | None \<Rightarrow> fs1)
       in f_release E ino fs2)"

definition fuse_releasedir :: "'c env \<Rightarrow> 32 word \<Rightarrow> nat \<Rightarrow> 'c fuse \<Rightarrow> unit fres \<times> 'c fuse" where
  "fuse_releasedir E ino fh fs = f_release E ino (snd (release_handle fh fs))"

definition fuse_fsync :: "'c env \<Rightarrow> 32 word \<Rightarrow> bool \<Rightarrow> 'c fuse \<Rightarrow> unit fres \<times> 'c fuse" where
  "fuse_fsync E ino datasync fs =
     f_bind (if datasync then f_ok () fs else f_sync_fs E fs) (\<lambda>_ fs.
     st_bind (f_flush E ino fs) (\<lambda>r fs. if r = None then f_fail EIO fs else f_ok () fs))"

definition fuse_create :: "'c env \<Rightarrow> 32 word \<Rightarrow> str \<Rightarrow> 'c fuse \<Rightarrow> (32 word \<times> dinode \<times> nat) fres \<times> 'c fuse" where
  "fuse_create E parent name fs =
     st_bind (f_create E parent name fs) (\<lambda>r fs.
       case r of
         None \<Rightarrow> f_fail EIO fs
       | Some ino \<Rightarrow>
           st_bind (f_getattr E ino fs) (\<lambda>d fs.
             case d of
               None \<Rightarrow> f_fail ENOENT fs
             | Some d \<Rightarrow>
                 st_bind (f_open E ino fs) (\<lambda>_ fs.
                 st_bind (add_handle ino False fs) (\<lambda>fh fs. f_ok (ino, d, fh) fs))))"

definition fuse_forget :: "'c env \<Rightarrow> 32 word \<Rightarrow> nat \<Rightarrow> 'c fuse \<Rightarrow> 'c fuse" where
  "fuse_forget E ino nlookup fs = f_forget E ino nlookup fs"

definition fuse_rmdir :: "'c env \<Rightarrow> 32 word \<Rightarrow> str \<Rightarrow> 'c fuse \<Rightarrow> unit fres \<times> 'c fuse" where
  "fuse_rmdir E parent name fs = f_rmdir E parent name fs"

definition fuse_setxattr :: "'c env \<Rightarrow> 32 word \<Rightarrow> str \<Rightarrow> bytes \<Rightarrow> 32 word \<Rightarrow> 'c fuse \<Rightarrow> unit fres \<times> 'c fuse" where
  "fuse_setxattr E ino name val flags fs = f_setxattr E ino name val flags fs"

definition fuse_removexattr :: "'c env \<Rightarrow> 32 word \<Rightarrow> str \<Rightarrow> 'c fuse \<Rightarrow> unit fres \<times> 'c fuse" where
  "fuse_removexattr E ino name fs = f_removexattr E ino name fs"

definition fuse_flush :: "'c env \<Rightarrow> 32 word \<Rightarrow> 'c fuse \<Rightarrow> unit fres \<times> 'c fuse" where
  "fuse_flush E ino fs = st_bind (f_flush E ino fs) (\<lambda>r fs. if r = None then f_fail EIO fs else f_ok () fs)"

definition fuse_fsyncdir :: "'c env \<Rightarrow> 'c fuse \<Rightarrow> unit fres \<times> 'c fuse" where
  "fuse_fsyncdir E fs = f_bind (f_sync_fs E fs) (\<lambda>_ fs. f_ok () fs)"

definition fuse_access :: "'c env \<Rightarrow> 32 word \<Rightarrow> 32 word \<Rightarrow> 32 word \<Rightarrow> 32 word \<Rightarrow> 'c fuse \<Rightarrow> unit fres \<times> 'c fuse" where
  "fuse_access E ino amask u g fs = f_access E ino amask u g fs"

text \<open>The fields of the reply to \<open>statfs\<close>, in the order of the call.\<close>

definition fuse_statfs :: "'c fuse \<Rightarrow> (nat \<times> nat \<times> nat \<times> nat \<times> nat \<times> nat \<times> nat \<times> nat) res" where
  "fuse_statfs fs =
     res_bind (f_statfs fs) (\<lambda>s.
       Ok (st_blocks s, st_bfree s, st_bavail s, st_files s, st_ffree s, st_bsize s, st_namelen s, st_blksize s))"

definition fuse_poll :: "'c fuse \<Rightarrow> unit fres \<times> 'c fuse" where
  "fuse_poll fs = f_fail EOPNOTSUPP fs"

definition fuse_bmap :: "'c env \<Rightarrow> 32 word \<Rightarrow> nat \<Rightarrow> nat \<Rightarrow> 'c fuse \<Rightarrow> nat fres \<times> 'c fuse" where
  "fuse_bmap E ino blocksize idx fs =
     (if blocksize \<noteq> 0 \<and> blocksize \<noteq> BLOCK_SIZE then f_fail EINVAL fs
      else f_bind (f_bmap E ino idx fs) (\<lambda>(block, _) fs. f_ok block fs))"

definition fuse_destroy :: "'c env \<Rightarrow> 'c fuse \<Rightarrow> unit res \<times> 'c fuse" where
  "fuse_destroy E fs =
     (if f_writable fs then st_bind (ok_opt (on_vol (umount E) fs)) (\<lambda>_ fs. (Ok (), fs)) else (Ok (), fs))"

end
