(* ===== verification/Fuse_Requests.thy ===== *)
theory Fuse_Requests
  imports Fuse_Adapter
begin

text \<open>
  The requests the file system object serves, as steps on its state, and what holds along every sequence of
  them: the lock tables stay exclusive, file handles stay unique, and nothing modifies the volume of a
  file system that is not writable. The last section follows a file handle from \<open>open\<close> to \<open>read\<close>.
\<close>

section \<open>Requests\<close>

text \<open>
  One rule per request: the methods of \<open>Fuse3Fs\<close>, and the lock methods of \<open>FuseFs\<close> that the adapter does not
  reach. The second argument says whether the request asks for a modification. \<open>flag k\<close> is what
  the request's token reads at its \<open>k\<close>-th check.
\<close>

inductive fuse_step :: "'c env \<Rightarrow> bool \<Rightarrow> 'c fuse \<Rightarrow> 'c fuse \<Rightarrow> bool" for E where
  lookup_req: "fuse_step E False fs (snd (fuse_lookup E parent name fs))"
| forget_req: "fuse_step E False fs (fuse_forget E ino n fs)"
| batch_forget_req: "fuse_step E False fs (batch_forget E es fs)"
| getattr_req: "fuse_step E False fs (snd (fuse_getattr E ino fs))"
| setattr_req: "fuse_step E True fs (snd (fuse_setattr E ino m u g new_size atime mtime fs))"
| readlink_req: "fuse_step E False fs (snd (fuse_readlink E ino fs))"
| symlink_req: "fuse_step E True fs (snd (fuse_symlink E parent name target fs))"
| mknod_req: "fuse_step E True fs (snd (fuse_mknod E parent name m rdev fs))"
| mkdir_req: "fuse_step E True fs (snd (fuse_mkdir E parent name fs))"
| unlink_req: "fuse_step E True fs (snd (fuse_unlink E parent name fs))"
| rmdir_req: "fuse_step E True fs (snd (fuse_rmdir E parent name fs))"
| rename_req: "fuse_step E True fs (snd (fuse_rename E parent name new_parent new_name flags fs))"
| link_req: "fuse_step E True fs (snd (fuse_link E target parent name fs))"
| open_req: "fuse_step E False fs (snd (fuse_open E ino fs))"
| opendir_req: "fuse_step E False fs (snd (fuse_opendir E ino fs))"
| read_req: "fuse_step E False fs (snd (fuse_read E req ino fh offset len flag fs))"
| write_req: "fuse_step E True fs (snd (fuse_write E req ino fh offset data write_cache flag fs))"
| readdir_req: "fuse_step E False fs (snd (fuse_readdir E req ino fh offset flag fs))"
| readdirplus_req: "fuse_step E False fs (snd (fuse_readdirplus E req ino fh offset flag fs))"
| release_req: "fuse_step E False fs (snd (fuse_release E ino fh lock_owner flush fs))"
| releasedir_req: "fuse_step E False fs (snd (fuse_releasedir E ino fh fs))"
| flush_req: "fuse_step E True fs (snd (fuse_flush E ino fs))"
| fsync_req: "fuse_step E True fs (snd (fuse_fsync E ino datasync fs))"
| fsyncdir_req: "fuse_step E True fs (snd (fuse_fsyncdir E fs))"
| setxattr_req: "fuse_step E True fs (snd (fuse_setxattr E ino name val flags fs))"
| getxattr_req: "fuse_step E False fs (snd (fuse_getxattr E ino name sz fs))"
| listxattr_req: "fuse_step E False fs (snd (fuse_listxattr E ino sz fs))"
| removexattr_req: "fuse_step E True fs (snd (fuse_removexattr E ino name fs))"
| access_req: "fuse_step E False fs (snd (fuse_access E ino amask u g fs))"
| create_req: "fuse_step E True fs (snd (fuse_create E parent name fs))"
| bmap_req: "fuse_step E False fs (snd (fuse_bmap E ino blocksize idx fs))"
| fallocate_req: "fuse_step E True fs (snd (fuse_fallocate E ino fh offset len fmode fs))"
| lseek_req: "fuse_step E False fs (snd (fuse_lseek E ino fh offset whence fs))"
| copy_file_range_req: "fuse_step E True fs (snd (fuse_copy_file_range E src fh_in off_in dst fh_out off_out len flags fs))"
| getlk_req: "fuse_step E False fs (snd (f_getlk E ino f owner fs))"
| setlk_req: "fuse_step E True fs (snd (f_setlk E ino f owner fs))"
| setlkw_req: "fuse_step E True fs (snd (f_setlkw E ino f owner fs))"
| flock_req: "fuse_step E True fs (snd (f_flock ino operation owner fs))"
| interrupt_req: "fuse_step E False fs (fs\<lparr>f_interrupts := snd (interrupt req (f_interrupts fs))\<rparr>)"
| poll_req: "fuse_step E False fs (snd (fuse_poll fs))"
| destroy_req: "fuse_step E True fs (snd (fuse_destroy E fs))"

inductive_cases fuse_stepE: "fuse_step E modifying fs fs'"

definition any_step :: "'c env \<Rightarrow> 'c fuse \<Rightarrow> 'c fuse \<Rightarrow> bool" where
  "any_step E fs fs' \<longleftrightarrow> fuse_step E True fs fs' \<or> fuse_step E False fs fs'"

section \<open>What a request leaves alone\<close>

text \<open>The tables of locks and handles, with the flag: everything but the volume, the counts and the interrupts.\<close>

definition tables :: "'c fuse \<Rightarrow> (32 word \<Rightarrow> posix_lock list option) \<times> (32 word \<Rightarrow> flock_lock list option) \<times>
    (nat \<Rightarrow> open_handle option) \<times> nat \<times> bool" where
  "tables fs = (f_locks fs, f_flock_locks fs, f_handles fs, f_next_fh fs, f_writable fs)"

definition frames :: "'t \<Rightarrow> ('c fuse \<Rightarrow> 't) \<Rightarrow> 'a res \<times> 'c fuse \<Rightarrow> bool" where
  "frames t \<pi> m \<longleftrightarrow> \<pi> (snd m) = t"

text \<open>A projection that neither the volume, the lookup counts nor the registry of interrupts enter.\<close>

definition blind :: "('c fuse \<Rightarrow> 't) \<Rightarrow> bool" where
  "blind \<pi> \<longleftrightarrow> (\<forall>fs v n i. \<pi> (fs\<lparr>f_volume := v\<rparr>) = \<pi> fs \<and> \<pi> (fs\<lparr>f_node_states := n\<rparr>) = \<pi> fs \<and>
     \<pi> (fs\<lparr>f_interrupts := i\<rparr>) = \<pi> fs)"

lemma blind_tables: "blind tables"
  by (simp add: blind_def tables_def)

named_theorems frame_rules

lemma frames_snd: "frames t \<pi> m \<Longrightarrow> \<pi> (snd m) = t"
  by (simp add: frames_def)

lemma frames_pair [frame_rules]: "\<pi> fs = t \<Longrightarrow> frames t \<pi> (r, fs)"
  by (simp add: frames_def)

lemma frames_ok [frame_rules]: "\<pi> fs = t \<Longrightarrow> frames t \<pi> (f_ok x fs)"
  by (simp add: frames_def f_ok_def)

lemma frames_fail [frame_rules]: "\<pi> fs = t \<Longrightarrow> frames t \<pi> (f_fail e fs)"
  by (simp add: frames_def f_fail_def)

lemma frames_st_bind [frame_rules]:
  "frames t \<pi> m \<Longrightarrow> (\<And>x fs. \<pi> fs = t \<Longrightarrow> frames t \<pi> (f x fs)) \<Longrightarrow> frames t \<pi> (st_bind m f)"
  by (cases "(m, f)" rule: st_bind.cases) (auto simp: frames_def)

lemma frames_f_bind [frame_rules]:
  "frames t \<pi> m \<Longrightarrow> (\<And>x fs. \<pi> fs = t \<Longrightarrow> frames t \<pi> (f x fs)) \<Longrightarrow> frames t \<pi> (f_bind m f)"
  unfolding f_bind_def by (rule frames_st_bind) (auto simp: frames_def split: sum.splits)

lemma frames_opt_bind [frame_rules]:
  "frames t \<pi> m \<Longrightarrow> (\<And>x fs. \<pi> fs = t \<Longrightarrow> frames t \<pi> (f x fs)) \<Longrightarrow> frames t \<pi> (opt_bind m f)"
  unfolding opt_bind_def by (rule frames_st_bind) (auto simp: frames_def split: option.splits)

lemma frames_ok_opt [frame_rules]: "frames t \<pi> m \<Longrightarrow> frames t \<pi> (ok_opt m)"
  by (cases m rule: ok_opt.cases) (auto simp: frames_def)

lemma frames_map_err [frame_rules]: "frames t \<pi> m \<Longrightarrow> frames t \<pi> (map_err h m)"
  by (cases "(h, m)" rule: map_err.cases) (auto simp: frames_def)

lemma frames_on_vol [frame_rules]: "blind \<pi> \<Longrightarrow> \<pi> fs = t \<Longrightarrow> frames t \<pi> (on_vol g fs)"
  by (simp add: frames_def on_vol_def blind_def split: prod.splits)

lemma frames_if [frame_rules]: "(c \<Longrightarrow> frames t \<pi> a) \<Longrightarrow> (\<not> c \<Longrightarrow> frames t \<pi> b) \<Longrightarrow> frames t \<pi> (if c then a else b)"
  by simp

lemma frames_option [frame_rules]:
  "(x = None \<Longrightarrow> frames t \<pi> a) \<Longrightarrow> (\<And>y. x = Some y \<Longrightarrow> frames t \<pi> (b y)) \<Longrightarrow>
     frames t \<pi> (case x of None \<Rightarrow> a | Some y \<Rightarrow> b y)"
  by (cases x) auto

lemma frames_prod [frame_rules]: "(\<And>a b. x = (a, b) \<Longrightarrow> frames t \<pi> (f a b)) \<Longrightarrow> frames t \<pi> (case x of (a, b) \<Rightarrow> f a b)"
  by (cases x) auto

lemma frames_prod_app [frame_rules]:
  "(\<And>a b. x = (a, b) \<Longrightarrow> frames t \<pi> (f a b fs)) \<Longrightarrow> frames t \<pi> ((case x of (a, b) \<Rightarrow> f a b) fs)"
  by (cases x) auto

lemma frames_let [frame_rules]: "frames t \<pi> (f x) \<Longrightarrow> frames t \<pi> (Let x f)"
  by simp

lemma frames_node_state [frame_rules]: "blind \<pi> \<Longrightarrow> \<pi> fs = t \<Longrightarrow> frames t \<pi> (add_node_state ino fs)"
  unfolding add_node_state_def by (intro frame_rules) (auto simp: blind_def)

lemma frames_writable [frame_rules]:
  "\<pi> fs = t \<Longrightarrow> frames t \<pi> (g fs) \<Longrightarrow> frames t \<pi> (if_writable g fs)"
  "\<pi> fs = t \<Longrightarrow> frames t \<pi> (h fs) \<Longrightarrow> frames t \<pi> (opt_if_writable h fs)"
  unfolding if_writable_def opt_if_writable_def by (intro frame_rules; assumption)+

lemma frames_get_inode [frame_rules]: "blind \<pi> \<Longrightarrow> \<pi> fs = t \<Longrightarrow> frames t \<pi> (get_inode E ino fs)"
  unfolding get_inode_def by (intro frame_rules)

lemma frames_getattr [frame_rules]: "blind \<pi> \<Longrightarrow> \<pi> fs = t \<Longrightarrow> frames t \<pi> (f_getattr E ino fs)"
  unfolding f_getattr_def by (intro frame_rules)

lemma frames_with_handle [frame_rules]:
  "\<pi> fs = t \<Longrightarrow> frames t \<pi> (g fs) \<Longrightarrow> frames t \<pi> (with_handle fh ino b g fs)"
  by (simp add: with_handle_def frames_def f_fail_def split: sum.splits)

lemma frames_with_request [frame_rules]:
  assumes "blind \<pi>" "\<pi> fs = t" "\<And>fs. \<pi> fs = t \<Longrightarrow> frames t \<pi> (g fs)"
  shows "frames t \<pi> (with_request req g fs)"
proof -
  let ?fs = "fs\<lparr>f_interrupts := snd (register_at req (f_interrupts fs))\<rparr>"
  have "\<pi> ?fs = t" using assms(1,2) by (simp add: blind_def)
  from assms(3) [OF this] have "\<pi> (snd (g ?fs)) = t" by (rule frames_snd)
  then show ?thesis using assms(1) by (auto simp: with_request_def frames_def blind_def split: prod.splits)
qed

lemma frames_reply_entry [frame_rules]: "blind \<pi> \<Longrightarrow> \<pi> fs = t \<Longrightarrow> frames t \<pi> (reply_entry E ino fs)"
  unfolding reply_entry_def by (intro frame_rules)

lemma frames_infer [frame_rules]: "blind \<pi> \<Longrightarrow> \<pi> fs = t \<Longrightarrow> frames t \<pi> (infer_file_type E ino fs)"
  unfolding infer_file_type_def by (intro frame_rules)

lemma frames_dir_rows [frame_rules]: "blind \<pi> \<Longrightarrow> \<pi> fs = t \<Longrightarrow> frames t \<pi> (dir_rows E c es fs)"
  by (induction es arbitrary: c fs) (simp_all add: frame_rules)

lemma frames_dir_rows_checked [frame_rules]:
  "blind \<pi> \<Longrightarrow> \<pi> fs = t \<Longrightarrow> frames t \<pi> (dir_rows_checked E flag k c es fs)"
  by (induction es arbitrary: k c fs) (simp_all add: frame_rules)

lemma frames_with_attrs [frame_rules]: "blind \<pi> \<Longrightarrow> \<pi> fs = t \<Longrightarrow> frames t \<pi> (with_attrs E rows fs)"
proof (induction rows arbitrary: fs)
  case (Cons row rows)
  note b = Cons.prems(1)
  show ?case by (cases row) (simp, intro frame_rules b Cons.IH Cons.prems(2); assumption)
qed (simp add: frame_rules)

lemma frames_sized [frame_rules]: "\<pi> fs = t \<Longrightarrow> frames t \<pi> (sized_reply sz data fs)"
  unfolding sized_reply_def by (intro frame_rules)

lemma frames_f_read [frame_rules]: "blind \<pi> \<Longrightarrow> \<pi> fs = t \<Longrightarrow> frames t \<pi> (f_read E ino offset len fs)"
  unfolding f_read_def by (intro frame_rules)

lemma frames_f_write [frame_rules]: "blind \<pi> \<Longrightarrow> \<pi> fs = t \<Longrightarrow> frames t \<pi> (f_write E ino offset data fs)"
  unfolding f_write_def by (intro frame_rules)

lemma frames_copy_chunk [frame_rules]:
  "blind \<pi> \<Longrightarrow> \<pi> fs = t \<Longrightarrow> frames t \<pi> (copy_chunk E mv src so dst d n fs)"
  unfolding copy_chunk_def copy_by_data_def by (intro frame_rules; assumption?)

lemma frames_copy_loop [frame_rules]:
  "blind \<pi> \<Longrightarrow> \<pi> fs = t \<Longrightarrow> frames t \<pi> (copy_loop E mv src so dst d len n fs)"
proof (induction E mv src so dst d len n fs rule: copy_loop.induct)
  case (1 E mv src so dst d len n fs)
  obtain r fs1 where c: "copy_chunk E mv src so dst d (min (len - n) CHUNK_SIZE) fs = (r, fs1)" by fastforce
  have "\<pi> fs1 = t" using frames_snd [OF frames_copy_chunk [OF 1(2,3)], of E mv src so dst d "min (len - n) CHUNK_SIZE"] c
    by simp
  then show ?case using 1(1) [OF _ c [symmetric]] 1(2,3) c
    by (subst copy_loop.simps) (auto simp: frames_def f_ok_def f_fail_def split: res.splits sum.splits)
qed

text \<open>Every request but opening, releasing and locking keeps the tables.\<close>

lemmas request_defs = fuse_forget_def fuse_rmdir_def fuse_setxattr_def fuse_removexattr_def fuse_flush_def fuse_fsyncdir_def
  fuse_access_def fuse_poll_def fuse_lookup_def f_lookup_def fuse_getattr_def fuse_setattr_def f_setattr_def f_truncate_def
  fuse_readlink_def f_readlink_def fuse_symlink_def f_symlink_def fuse_mknod_def f_mknod_def fuse_mkdir_def f_mkdir_def
  fuse_unlink_def f_unlink_def f_rmdir_def fuse_rename_def f_rename_def fuse_link_def f_link_def count_new_def
  fuse_read_def f_read_interruptible_def fuse_write_def f_write_interruptible_def f_flush_def fuse_readdir_def
  f_readdir_interruptible_def fuse_readdirplus_def fuse_fsync_def f_sync_fs_def f_setxattr_def fuse_getxattr_def
  f_getxattr_def fuse_listxattr_def f_listxattr_def f_removexattr_def f_access_def fuse_bmap_def f_bmap_def
  fuse_fallocate_def f_fallocate_def fuse_lseek_def f_lseek_def fuse_copy_file_range_def f_copy_file_range_def
  fuse_destroy_def

lemma frames_f_read_interruptible [frame_rules]:
  "blind \<pi> \<Longrightarrow> \<pi> fs = t \<Longrightarrow> frames t \<pi> (f_read_interruptible E ino offset len flag fs)"
  unfolding f_read_interruptible_def by (intro frame_rules)

lemma frames_f_readdir_interruptible [frame_rules]:
  "blind \<pi> \<Longrightarrow> \<pi> fs = t \<Longrightarrow> frames t \<pi> (f_readdir_interruptible E ino offset flag fs)"
  unfolding f_readdir_interruptible_def by (intro frame_rules)

lemma frames_lock_range [frame_rules]: "blind \<pi> \<Longrightarrow> \<pi> fs = t \<Longrightarrow> frames t \<pi> (lock_range E ino f fs)"
  unfolding lock_range_def by (intro frame_rules)

lemma frames_f_open [frame_rules]: "blind \<pi> \<Longrightarrow> \<pi> fs = t \<Longrightarrow> frames t \<pi> (f_open E ino fs)"
  unfolding f_open_def by (intro frame_rules)

lemma frames_f_release [frame_rules]: "blind \<pi> \<Longrightarrow> \<pi> fs = t \<Longrightarrow> frames t \<pi> (f_release E ino fs)"
  unfolding f_release_def by (intro frame_rules)

lemma frames_f_create [frame_rules]: "blind \<pi> \<Longrightarrow> \<pi> fs = t \<Longrightarrow> frames t \<pi> (f_create E parent name fs)"
  unfolding f_create_def by (intro frame_rules)

lemma frames_f_flush [frame_rules]: "blind \<pi> \<Longrightarrow> \<pi> fs = t \<Longrightarrow> frames t \<pi> (f_flush E ino fs)"
  unfolding f_flush_def by (intro frame_rules)

lemma frames_f_getlk: "blind \<pi> \<Longrightarrow> \<pi> fs = t \<Longrightarrow> frames t \<pi> (f_getlk E ino f owner fs)"
  unfolding f_getlk_def do_getlk_def by (intro frame_rules; assumption?)

lemma forget_tables: "tables (f_forget E ino n fs) = tables fs"
  by (simp add: f_forget_def decrement_node_state_def tables_def split: option.splits)

lemma batch_forget_tables: "tables (batch_forget E es fs) = tables fs"
  unfolding batch_forget_def by (induction es arbitrary: fs) (auto simp: forget_tables)

section \<open>Invariants of the tables\<close>

definition fuse_inv :: "'c fuse \<Rightarrow> bool" where
  "fuse_inv fs \<longleftrightarrow> (\<forall>ino. posix.consistent (locks_of fs ino) \<and> bsd.consistent (flocks_of fs ino)) \<and>
     (\<forall>fh h. f_handles fs fh = Some h \<longrightarrow> oh_fh h = fh \<and> fh < f_next_fh fs)"

lemma fuse_inv_tables:
  assumes "tables fs' = tables fs"
  shows "fuse_inv fs' \<longleftrightarrow> fuse_inv fs"
proof -
  have "locks_of fs' = locks_of fs" "flocks_of fs' = flocks_of fs"
    using assms unfolding locks_of_def flocks_of_def tables_def fun_eq_iff by simp_all
  then show ?thesis using assms by (simp add: fuse_inv_def tables_def)
qed

lemma fuse_inv_frames: "frames (tables fs) tables m \<Longrightarrow> fuse_inv fs \<Longrightarrow> fuse_inv (snd m)"
  using fuse_inv_tables [of "snd m" fs] by (simp add: frames_def)

lemma locks_of_release:
  "locks_of (release_owner_locks i w fs) j = (if j = i then release_owner w (locks_of fs i) else locks_of fs j)"
  "flocks_of (release_owner_locks i w fs) = flocks_of fs"
  "locks_of (release_flocks i w fs) = locks_of fs"
  "flocks_of (release_flocks i w fs) j = (if j = i then release_flock_owner w (flocks_of fs i) else flocks_of fs j)"
  by (auto simp: locks_of_def flocks_of_def release_owner_locks_def release_flocks_def release_owner_def
      release_flock_owner_def split: option.splits)

lemma handles_release [simp]:
  "f_handles (release_owner_locks i w fs) = f_handles fs" "f_next_fh (release_owner_locks i w fs) = f_next_fh fs"
  "f_handles (release_flocks i w fs) = f_handles fs" "f_next_fh (release_flocks i w fs) = f_next_fh fs"
  by (simp_all add: release_owner_locks_def release_flocks_def)

lemma fuse_inv_release_owner: "fuse_inv fs \<Longrightarrow> fuse_inv (release_owner_locks ino owner fs)"
  by (simp add: fuse_inv_def locks_of_release release_owner_def posix.consistent_filter)

lemma fuse_inv_release_flocks: "fuse_inv fs \<Longrightarrow> fuse_inv (release_flocks ino owner fs)"
  by (simp add: fuse_inv_def locks_of_release release_flock_owner_def bsd.consistent_filter)

lemma fuse_inv_release_locks: "fuse_inv fs \<Longrightarrow> fuse_inv (release_locks ino owner fs)"
  by (simp add: release_locks_def fuse_inv_release_owner fuse_inv_release_flocks)

lemma fuse_inv_handles:
  assumes "fuse_inv fs" "\<And>k h. H k = Some h \<Longrightarrow> oh_fh h = k \<and> k < n"
  shows "fuse_inv (fs\<lparr>f_next_fh := n, f_handles := H\<rparr>)"
  using assms by (simp add: fuse_inv_def locks_of_def flocks_of_def)

lemma add_handle_eq:
  "add_handle ino d fs =
     (if f_next_fh fs + 1 < 2 ^ 64
      then (Ok (f_next_fh fs), fs\<lparr>f_next_fh := f_next_fh fs + 1,
              f_handles := (f_handles fs)(f_next_fh fs \<mapsto> \<lparr>oh_fh = f_next_fh fs, oh_ino = ino, oh_is_dir = d\<rparr>)\<rparr>)
      else (Panic, fs))"
  by (simp add: add_handle_def add_u64_def Let_def)

lemma fuse_inv_add_handle: "fuse_inv fs \<Longrightarrow> fuse_inv (snd (add_handle ino d fs))"
  unfolding add_handle_eq
  by (simp, intro impI fuse_inv_handles) (auto simp: fuse_inv_def less_Suc_eq split: if_splits)

lemma fuse_inv_release_handle: "fuse_inv fs \<Longrightarrow> fuse_inv (snd (release_handle fh fs))"
  by (simp add: release_handle_def fuse_inv_def locks_of_def flocks_of_def)

lemma consistent_Nil [simp]: "posix.consistent []" "bsd.consistent []"
  by (simp_all add: posix.consistent_def bsd.consistent_def)

lemma fuse_inv_put_locks:
  "fuse_inv fs \<Longrightarrow> posix.consistent ls \<Longrightarrow> fuse_inv (fs\<lparr>f_locks := (f_locks fs)(ino \<mapsto> ls)\<rparr>)"
  "fuse_inv fs \<Longrightarrow> bsd.consistent ks \<Longrightarrow> fuse_inv (fs\<lparr>f_flock_locks := (f_flock_locks fs)(ino \<mapsto> ks)\<rparr>)"
  by (simp_all add: fuse_inv_def locks_of_def flocks_of_def)

text \<open>A step is one computation after another: the invariant goes through the sequencing.\<close>

lemma inv_st_bind:
  assumes "fuse_inv (snd m)" "\<And>x fs. fuse_inv fs \<Longrightarrow> fuse_inv (snd (f x fs))"
  shows "fuse_inv (snd (st_bind m f))"
  using assms by (cases "(m, f)" rule: st_bind.cases) auto

lemma inv_f_bind:
  assumes "fuse_inv (snd m)" "\<And>x fs. fuse_inv fs \<Longrightarrow> fuse_inv (snd (f x fs))"
  shows "fuse_inv (snd (f_bind m f))"
  unfolding f_bind_def by (rule inv_st_bind) (use assms in \<open>auto split: sum.splits\<close>)

lemma do_setlk_inv: "fuse_inv fs \<Longrightarrow> fuse_inv (snd (do_setlk E ino f owner fs))"
  unfolding do_setlk_def
proof (rule inv_f_bind)
  assume "fuse_inv fs"
  then show "fuse_inv (snd (lock_range E ino f fs))"
    by (rule fuse_inv_frames [rotated]) (intro frame_rules blind_tables refl)
next
  fix x :: "nat \<times> nat" and fs :: "'a fuse" assume i: "fuse_inv fs"
  obtain s e where x: "x = (s, e)" by (cases x)
  have "posix.consistent ls" if "set_posix (locks_of fs ino) (l_type f) s e owner = Inr ls" for ls
    using posix_step_consistent [OF posix_step.set [OF that]] i by (simp add: fuse_inv_def)
  then show "fuse_inv (snd ((case x of (s, e) \<Rightarrow> \<lambda>fs.
      if l_type f = F_UNLCK then f_ok () (release_owner_locks ino owner fs)
      else case set_posix (locks_of fs ino) (l_type f) s e owner of
             Inl err \<Rightarrow> f_fail err fs | Inr ls \<Rightarrow> f_ok () (fs\<lparr>f_locks := (f_locks fs)(ino \<mapsto> ls)\<rparr>)) fs))"
    using i by (auto simp: x f_ok_def f_fail_def fuse_inv_release_owner fuse_inv_put_locks split: sum.splits)
qed

lemma f_flock_inv: "fuse_inv fs \<Longrightarrow> fuse_inv (snd (f_flock ino operation owner fs))"
  using flock_step_consistent [OF flock_step.set, of "flocks_of fs ino" operation owner]
  by (simp add: f_flock_def if_writable_def f_ok_def f_fail_def fuse_inv_release_flocks fuse_inv_put_locks fuse_inv_def [of fs]
      split: sum.splits)

lemma f_open_inv: "fuse_inv fs \<Longrightarrow> fuse_inv (snd (f_open E ino fs))"
  by (rule fuse_inv_frames [of fs]) (intro frame_rules blind_tables refl)

lemma fuse_open_inv: "fuse_inv fs \<Longrightarrow> fuse_inv (snd (fuse_open E ino fs))"
  unfolding fuse_open_def by (intro inv_f_bind inv_st_bind f_open_inv fuse_inv_add_handle) (simp_all add: f_ok_def)

lemma fuse_opendir_inv: "fuse_inv fs \<Longrightarrow> fuse_inv (snd (fuse_opendir E ino fs))"
  unfolding fuse_opendir_def by (intro inv_f_bind inv_st_bind f_open_inv fuse_inv_add_handle) (simp_all add: f_ok_def)

lemma f_release_inv: "fuse_inv fs \<Longrightarrow> fuse_inv (snd (f_release E ino fs))"
  by (rule fuse_inv_frames [of fs]) (intro frame_rules blind_tables refl)

lemma fuse_release_inv: "fuse_inv fs \<Longrightarrow> fuse_inv (snd (fuse_release E ino fh lock_owner flush fs))"
  unfolding fuse_release_def
proof (rule inv_f_bind)
  assume "fuse_inv fs"
  then show "fuse_inv (snd (if flush then st_bind (f_flush E ino fs) (\<lambda>r fs. if r = None then f_fail EIO fs else f_ok () fs)
             else f_ok () fs))"
    by (rule fuse_inv_frames [rotated]) (intro frame_rules blind_tables refl; assumption)
qed (auto simp: Let_def intro!: f_release_inv fuse_inv_release_locks fuse_inv_release_handle split: option.splits)

lemma fuse_create_inv: "fuse_inv fs \<Longrightarrow> fuse_inv (snd (fuse_create E parent name fs))"
  unfolding fuse_create_def
proof (rule inv_st_bind)
  assume "fuse_inv fs"
  then show "fuse_inv (snd (f_create E parent name fs))"
    by (rule fuse_inv_frames [rotated]) (intro frame_rules blind_tables refl)
next
  fix r :: "32 word option" and fs :: "'a fuse" assume i: "fuse_inv fs"
  have g: "fuse_inv (snd (f_getattr E ino fs))" for ino
    using i by (rule fuse_inv_frames [rotated]) (intro frame_rules blind_tables refl)
  show "fuse_inv (snd (case r of None \<Rightarrow> f_fail EIO fs
       | Some ino \<Rightarrow> st_bind (f_getattr E ino fs) (\<lambda>d fs. case d of None \<Rightarrow> f_fail ENOENT fs
             | Some d \<Rightarrow> st_bind (f_open E ino fs) (\<lambda>_ fs.
                 st_bind (add_handle ino False fs) (\<lambda>fh fs. f_ok (ino, d, fh) fs)))))"
    using i by (auto simp: f_fail_def f_ok_def split: option.splits
        intro!: inv_st_bind g f_open_inv fuse_inv_add_handle)
qed

text \<open>The other requests keep the tables.\<close>

lemma fuse_step_inv:
  assumes "fuse_step E modifying fs fs'" "fuse_inv fs"
  shows "fuse_inv fs'"
  using assms(1)
proof cases
  case forget_req
  with assms(2) fuse_inv_tables [OF forget_tables] show ?thesis unfolding fuse_forget_def by blast
next
  case batch_forget_req
  with assms(2) fuse_inv_tables [OF batch_forget_tables] show ?thesis by blast
next
  case interrupt_req
  then have "tables fs' = tables fs" by (simp add: tables_def)
  with assms(2) fuse_inv_tables show ?thesis by blast
next
  case open_req
  with assms(2) show ?thesis by (simp add: fuse_open_inv)
next
  case opendir_req
  with assms(2) show ?thesis by (simp add: fuse_opendir_inv)
next
  case release_req
  with assms(2) show ?thesis by (simp add: fuse_release_inv)
next
  case releasedir_req
  with assms(2) show ?thesis by (simp add: fuse_releasedir_def f_release_inv fuse_inv_release_handle)
next
  case create_req
  with assms(2) show ?thesis by (simp add: fuse_create_inv)
next
  case setlk_req
  with assms(2) show ?thesis by (simp add: f_setlk_def if_writable_def f_fail_def do_setlk_inv)
next
  case setlkw_req
  with assms(2) show ?thesis by (simp add: f_setlkw_def if_writable_def f_fail_def do_setlk_inv)
next
  case flock_req
  with assms(2) show ?thesis by (simp add: f_flock_inv)
next
  case getlk_req
  with assms(2) fuse_inv_frames [OF frames_f_getlk [OF blind_tables refl]] show ?thesis by blast
qed ((simp only:; rule fuse_inv_frames [OF _ assms(2)]; simp only: request_defs;
    intro frame_rules blind_tables refl; assumption)+)

section \<open>Locks and handles of a served file system\<close>

lemma any_step_inv:
  assumes "(any_step E)\<^sup>*\<^sup>* fs fs'" "fuse_inv fs"
  shows "fuse_inv fs'"
  using assms by (induction rule: rtranclp_induct) (auto simp: any_step_def dest: fuse_step_inv)

lemma fuse_inv_new: "fuse_inv (fuse_new v)" "fuse_inv (snd (enable_writable (fuse_new v)))"
  by (simp_all add: fuse_inv_def fuse_new_def enable_writable_def locks_of_def flocks_of_def)

text \<open>
  C11. Whatever requests a mounted file system has served, in whatever order: two byte-range locks of different owners
  on overlapping bytes of one file are both read locks, an exclusive whole-file lock excludes every
  other owner, and every open handle is filed under its own number, which the next handle will not reuse.
\<close>

theorem served_tables_safe:
  assumes "(any_step E)\<^sup>*\<^sup>* (snd (enable_writable (fuse_new v))) fs"
  shows "(\<forall>a\<in>set (locks_of fs ino). \<forall>b\<in>set (locks_of fs ino).
       pl_owner a \<noteq> pl_owner b \<and> pl_start a < pl_end b \<and> pl_start b < pl_end a \<longrightarrow>
       pl_type a \<noteq> F_WRLCK \<and> pl_type b \<noteq> F_WRLCK) \<and>
     (\<forall>a\<in>set (flocks_of fs ino). \<forall>b\<in>set (flocks_of fs ino). fl_kind a = LOCK_EX \<longrightarrow> fl_owner a = fl_owner b) \<and>
     (\<forall>fh h. f_handles fs fh = Some h \<longrightarrow> oh_fh h = fh \<and> fh \<noteq> f_next_fh fs)"
proof -
  have i: "fuse_inv fs" using any_step_inv [OF assms fuse_inv_new(2)] .
  then have "posix.consistent (locks_of fs ino)" "bsd.consistent (flocks_of fs ino)" by (simp_all add: fuse_inv_def)
  note c = posix.no_two_holders [OF this(1)] bsd.no_two_holders [OF this(2)]
  have "pl_type a \<noteq> F_WRLCK \<and> pl_type b \<noteq> F_WRLCK" if "a \<in> set (locks_of fs ino)" "b \<in> set (locks_of fs ino)"
    "pl_owner a \<noteq> pl_owner b" "pl_start a < pl_end b" "pl_start b < pl_end a" for a b
    using c(1) [OF that(1,2)] that(3-) by (simp add: posix_conflicts_with_def)
  moreover have "fl_owner a = fl_owner b" if "a \<in> set (flocks_of fs ino)" "b \<in> set (flocks_of fs ino)" "fl_kind a = LOCK_EX" for a b
    using c(2) [OF that(1,2)] that(3) by (simp add: flock_conflicts_with_def split: if_splits)
  moreover have "oh_fh h = fh \<and> fh \<noteq> f_next_fh fs" if "f_handles fs fh = Some h" for fh h
    using i that by (auto simp: fuse_inv_def)
  ultimately show ?thesis by blast
qed

section \<open>A file system that is not writable\<close>

lemma frames_add_handle [frame_rules]: "f_writable fs = t \<Longrightarrow> frames t f_writable (add_handle ino d fs)"
  by (simp add: frames_def add_handle_eq)

lemma blind_writable: "blind f_writable"
  by (simp add: blind_def)

lemma release_writable [simp]:
  "f_writable (snd (release_handle fh fs)) = f_writable fs" "f_writable (release_locks ino w fs) = f_writable fs"
  "f_writable (release_owner_locks ino w fs) = f_writable fs" "f_writable (release_flocks ino w fs) = f_writable fs"
  by (simp_all add: release_handle_def release_locks_def release_owner_locks_def release_flocks_def)

lemma forget_writable [simp]: "f_writable (f_forget E ino n fs) = f_writable fs" "f_writable (batch_forget E es fs) = f_writable fs"
  using forget_tables [of E ino n fs] batch_forget_tables [of E es fs] by (simp_all add: tables_def)

text \<open>No request changes whether the file system is writable.\<close>

lemma fuse_step_writable:
  assumes "fuse_step E modifying fs fs'"
  shows "f_writable fs' = f_writable fs"
  using assms
proof cases
  case setlk_req
  show ?thesis unfolding setlk_req(2) f_setlk_def do_setlk_def
    by (intro frames_snd frame_rules blind_writable refl) (auto intro!: frame_rules split: sum.splits)
next
  case setlkw_req
  show ?thesis unfolding setlkw_req(2) f_setlkw_def do_setlk_def
    by (intro frames_snd frame_rules blind_writable refl) (auto intro!: frame_rules split: sum.splits)
next
  case flock_req
  show ?thesis unfolding flock_req(2) f_flock_def
    by (intro frames_snd frame_rules blind_writable refl) (auto intro!: frame_rules split: sum.splits)
next
  case getlk_req
  show ?thesis unfolding getlk_req(2) by (intro frames_snd frames_f_getlk blind_writable refl)
next
  case release_req
  show ?thesis unfolding release_req(2) fuse_release_def
    by (intro frames_snd frame_rules blind_writable refl) (auto intro!: frame_rules split: option.splits)
next
  case destroy_req
  show ?thesis unfolding destroy_req(2) fuse_destroy_def
    by (rule frames_snd, rule frames_if) (auto intro!: frame_rules blind_writable)
qed (auto simp: fuse_open_def fuse_opendir_def fuse_create_def fuse_releasedir_def request_defs
    intro!: frames_snd frame_rules blind_writable)

lemma unwritable_step:
  assumes "fuse_step E True fs fs'" "\<not> f_writable fs"
  shows "f_volume fs' = f_volume fs"
  using assms
proof cases
  case (write_req req ino fh offset data write_cache flag)
  with assms(2) show ?thesis
    by (auto simp: fuse_write_def with_handle_def with_request_def f_write_interruptible_def if_writable_def f_fail_def f_bind_def
        split: sum.splits)
qed (auto simp: request_defs fuse_create_def f_create_def f_setlk_def f_setlkw_def f_flock_def if_writable_def opt_if_writable_def
    with_handle_def f_fail_def f_ok_def f_bind_def opt_bind_def split: sum.splits option.splits)

text \<open>
  C12. A file system that was not made writable rejects every modification: after any requests it is still not
  writable, and a request to create, remove, rename, link, write, truncate, allocate, copy, set
  attributes, lock or sync leaves its volume, device and cache included, exactly as it was.
\<close>

theorem read_only_unmodified:
  assumes "(any_step E)\<^sup>*\<^sup>* (fuse_new v) fs" "fuse_step E True fs fs'"
  shows "\<not> f_writable fs' \<and> f_volume fs' = f_volume fs"
proof -
  have "f_writable fs = f_writable (fuse_new v)"
    using assms(1) by (induction rule: rtranclp_induct) (auto simp: any_step_def dest: fuse_step_writable)
  then have "\<not> f_writable fs" by (simp add: fuse_new_def)
  with unwritable_step [OF assms(2)] fuse_step_writable [OF assms(2)] show ?thesis by simp
qed

section \<open>From open to read\<close>

lemma f_bind_Ok_iff:
  "f_bind m f = (Ok (Inr y), t) \<longleftrightarrow> (\<exists>x s. m = (Ok (Inr x), s) \<and> f x s = (Ok (Inr y), t))"
proof -
  obtain r s where m: "m = (r, s)" by (cases m)
  show ?thesis
  proof (cases r)
    case (Ok x)
    then show ?thesis by (cases x) (simp_all add: m f_bind_def)
  qed (simp_all add: m f_bind_def)
qed

text \<open>
  The handlers for files pass \<open>expect_file = false\<close> and the handlers for directories \<open>true\<close>: a file that was
  opened can be neither read nor written through its handle, nor can a directory be listed.
\<close>

theorem opened_file_unreadable:
  assumes "fuse_open E ino fs = (Ok (Inr fh), fs1)" "fuse_opendir E dir fs1 = (Ok (Inr dh), fs2)"
  shows "fuse_read E req ino fh offset len flag fs2 = (Ok (Inl ENOTDIR), fs2) \<and>
    fuse_write E req ino fh offset data write_cache flag fs2 = (Ok (Inl ENOTDIR), fs2) \<and>
    fuse_readdir E req dir dh offset flag fs2 = (Ok (Inl EISDIR), fs2)"
proof -
  have o: "f_handles fs' = (f_handles fs0)(h \<mapsto> \<lparr>oh_fh = h, oh_ino = i, oh_is_dir = d\<rparr>) \<and> h = f_next_fh fs0 \<and> f_next_fh fs' = h + 1"
    if "f_bind (f_open E i fs0) (\<lambda>_ fs. st_bind (add_handle i d fs) (\<lambda>fh fs. f_ok fh fs)) = (Ok (Inr h), fs')"
    for i fs0 h fs' d
  proof -
    have t: "tables (snd (f_open E i fs0)) = tables fs0" by (intro frames_snd frame_rules blind_tables refl)
    from that obtain x fsx where x: "f_open E i fs0 = (Ok (Inr x), fsx)" "st_bind (add_handle i d fsx) (\<lambda>fh fs. f_ok fh fs) = (Ok (Inr h), fs')"
      by (auto simp: f_bind_Ok_iff)
    with t show ?thesis by (auto simp: add_handle_eq tables_def f_ok_def split: if_splits)
  qed
  from o [OF assms(1) [unfolded fuse_open_def]] o [OF assms(2) [unfolded fuse_opendir_def]]
  have "f_handles fs2 fh = Some \<lparr>oh_fh = fh, oh_ino = ino, oh_is_dir = False\<rparr>"
    "f_handles fs2 dh = Some \<lparr>oh_fh = dh, oh_ino = dir, oh_is_dir = True\<rparr>" by auto
  then show ?thesis by (simp add: fuse_read_def fuse_write_def fuse_readdir_def with_handle_def validate_handle_def f_fail_def)
qed

section \<open>Examples\<close>

theorem served_tables_safe_witness:
  "\<exists>fs. (any_step list_env)\<^sup>*\<^sup>* (snd (enable_writable (fuse_new (demo_volume demo_file)))) fs \<and>
     flocks_of fs 18 = [\<lparr>fl_kind = LOCK_EX, fl_owner = 7\<rparr>] \<and> (\<forall>b\<in>set (flocks_of fs 18). fl_owner b = 7)"
proof -
  let ?fs = "snd (enable_writable (fuse_new (demo_volume demo_file)))" and ?a = "\<lparr>fl_kind = LOCK_EX, fl_owner = 7\<rparr>"
  let ?gs = "snd (f_flock 18 LOCK_EX 7 ?fs)"
  have s: "(any_step list_env)\<^sup>*\<^sup>* ?fs ?gs" using flock_req [of list_env ?fs 18 LOCK_EX 7] by (auto simp: any_step_def)
  moreover have "flocks_of ?gs 18 = [?a]"
    by (simp add: f_flock_def if_writable_def enable_writable_def fuse_new_def set_flock_def flocks_of_def f_ok_def
        release_flock_owner_def LOCK_EX_def LOCK_UN_def LOCK_SH_def LOCK_NB_def)
  ultimately show ?thesis using served_tables_safe [OF s, of 18] by (intro exI [of _ ?gs]) auto
qed

theorem read_only_unmodified_witness:
  "f_volume (snd (fuse_mkdir list_env 18 (str_of ''d'') (fuse_new (demo_volume demo_file)))) = demo_volume demo_file"
proof -
  have "(any_step list_env)\<^sup>*\<^sup>* (fuse_new (demo_volume demo_file)) (fuse_new (demo_volume demo_file))" by blast
  from read_only_unmodified [OF this mkdir_req, of 18 "str_of ''d''"] show ?thesis by (simp add: fuse_new_def)
qed

lemma demo_open:
  assumes "f_volume fs = (demo_volume demo_file)\<lparr>v_open_handles := H\<rparr>" "H 1 = Some 1 \<or> H 1 = None"
  shows "\<exists>H'. f_open list_env 18 fs = (Ok (Inr ()), fs\<lparr>f_volume := (demo_volume demo_file)\<lparr>v_open_handles := H'\<rparr>\<rparr>) \<and>
    H' 1 = Some (case H 1 of Some n \<Rightarrow> n + 1 | None \<Rightarrow> 1)"
proof -
  let ?v = "(demo_volume demo_file)\<lparr>v_open_handles := H\<rparr>"
  have q: "quiet list_env ll_valid (demo_volume demo_file)" using demo_file_read(2) [of 0] by (simp add: idle_def)
  then have q': "quiet list_env ll_valid ?v" by (simp add: quiet_def)
  have "inode_read list_env 18 ?v = (Ok (demo_at demo_file), ?v)"
    using lenv.inode_read_quiet [OF q, of 18] lenv.inode_read_quiet [OF q', of 18] demo_file_read(1)
    by (simp add: scan_volume_def max_scan_def)
  moreover define n where "n = (case H 1 of Some n \<Rightarrow> n | None \<Rightarrow> 0)"
  moreover have "n = 0 \<or> n = 1" using assms(2) by (auto simp: n_def)
  ultimately have "f_open list_env 18 fs = (Ok (Inr ()), fs\<lparr>f_volume := (demo_volume demo_file)\<lparr>v_open_handles := H(1 \<mapsto> n + 1)\<rparr>\<rparr>)"
    using assms(1) by (auto simp: f_open_def on_vol_def open_file_def demo_at_def)
  then show ?thesis by (intro exI [of _ "H(1 \<mapsto> n + 1)"]) (auto simp: n_def split: option.splits)
qed

theorem opened_file_unreadable_witness:
  "\<exists>fs1 fs2. fuse_open list_env 18 (fuse_new (demo_volume demo_file)) = (Ok (Inr 1), fs1) \<and>
     fuse_opendir list_env 18 fs1 = (Ok (Inr 2), fs2) \<and>
     fuse_read list_env 5 18 1 0 10 (\<lambda>_. False) fs2 = (Ok (Inl ENOTDIR), fs2)"
proof -
  let ?fs = "fuse_new (demo_volume demo_file)"
  have v: "f_volume ?fs = (demo_volume demo_file)\<lparr>v_open_handles := Map.empty\<rparr>" by (simp add: fuse_new_def demo_volume_def)
  from demo_open [OF v] obtain H where
    o1: "f_open list_env 18 ?fs = (Ok (Inr ()), ?fs\<lparr>f_volume := (demo_volume demo_file)\<lparr>v_open_handles := H\<rparr>\<rparr>)"
    "H 1 = Some 1" by auto
  obtain fs1 where fs1: "fuse_open list_env 18 ?fs = (Ok (Inr 1), fs1)"
    "f_volume fs1 = (demo_volume demo_file)\<lparr>v_open_handles := H\<rparr>" "f_next_fh fs1 = 2"
    using o1(1) by (auto simp: fuse_open_def f_bind_def add_handle_eq f_ok_def fuse_new_def)
  from demo_open [OF fs1(2)] o1(2) obtain fs2 where "fuse_opendir list_env 18 fs1 = (Ok (Inr 2), fs2)"
    using fs1(3) by (auto simp: fuse_opendir_def f_bind_def add_handle_eq f_ok_def)
  with opened_file_unreadable [OF fs1(1), of 18 2 fs2, of 5 0 10 "\<lambda>_. False"] fs1(1) show ?thesis by blast
qed

end
