(* ===== verification/Format.thy ===== *)
theory Format
  imports Volume_Check Volume_Write
begin

text \<open>
  The formatter of \<open>mkfs.rs\<close>: the images of the superblock, the log superblock, the inode table and the
  allocation map, and the order in which they are written. The results of the writes are dropped as
  in the code. The last section proves that a formatted device mounts, with the free blocks the formatter
  meant, an empty root directory and a clean consistency report.
\<close>

section \<open>Images\<close>

definition LOG_AREA_BLOCKS :: nat where "LOG_AREA_BLOCKS = 256"
definition DEFAULT_NUM_BLOCKS :: nat where "DEFAULT_NUM_BLOCKS = 4096"
definition LOGPAGES :: nat where "LOGPAGES = 16"
definition IFJOURNAL :: "32 word" where "IFJOURNAL = 0x00010000"

definition make_pxd :: "32 word \<Rightarrow> 64 word \<Rightarrow> pxd" where
  "make_pxd len addr = pxd_set_address (pxd_set_length pxd_default len) addr"

text \<open>The memory image of \<open>JfsSuperblock\<close>; the fields that are not in the record are zero.\<close>

definition superblock_bytes :: "superblock \<Rightarrow> bytes" where
  "superblock_bytes sb =
     list_of_arr4 (s_magic sb) @ list_of_arr4 (s_version sb) @ list_of_arr8 (s_size sb) @ list_of_arr4 (s_bsize sb) @
     list_of_arr2 (s_l2bsize sb) @ list_of_arr2 (s_l2bfactor sb) @ list_of_arr4 (s_pbsize sb) @ list_of_arr2 (s_l2pbsize sb) @
     list_of_arr2 (s_pad sb) @ list_of_arr4 (s_agsize sb) @ list_of_arr4 (s_flag sb) @ list_of_arr4 (s_state sb) @
     list_of_arr4 (s_compress sb) @ pxd_into_bytes (s_ait2 sb) @ pxd_into_bytes (s_aim2 sb) @ replicate 8 0 @
     pxd_into_bytes (s_logpxd sb) @ replicate 104 0"

definition format_super :: "nat \<Rightarrow> superblock" where
  "format_super num_blocks = sb_default
     \<lparr>s_magic := JFS_MAGIC, s_version := write_u32 1, s_size := write_u64 (word_of_nat num_blocks),
      s_bsize := write_u32 (word_of_nat PSIZE), s_l2bsize := write_u16 12, s_l2bfactor := write_u16 3,
      s_pbsize := write_u32 512, s_l2pbsize := write_u16 9, s_agsize := write_u32 8192, s_flag := write_u32 0x10200900,
      s_state := write_u32 FM_CLEAN, s_ait2 := make_pxd 4 24, s_aim2 := make_pxd 2 22,
      s_logpxd := make_pxd (word_of_nat LOG_AREA_BLOCKS) 3840\<rparr>"

text \<open>The memory image of \<open>LogSuper\<close>.\<close>

definition logsuper_image :: "logsuper \<Rightarrow> bytes" where
  "logsuper_image l = logsuper_head l @ ls_uuid l @ ls_label l @ concat (ls_active l)"

definition format_log_super :: logsuper where
  "format_log_super = logsuper_default
     \<lparr>ls_magic := write_u32 LOGMAGIC, ls_version := write_u32 LOGVERSION, ls_serial := write_u32 0,
      ls_size := write_u32 (word_of_nat LOGPAGES), ls_bsize := write_u32 (word_of_nat LOGPSIZE), ls_l2bsize := write_u32 12,
      ls_flag := write_u32 0x10200900, ls_state := write_u32 LOGREDONE, ls_end := write_u32 0\<rparr>"

definition build_root_inode_bytes :: bytes where
  "build_root_inode_bytes =
     (let d = replicate DISIZE 0;
          d = put_u32 0 0 d; d = put_u32 4 (word_of_nat FILESYSTEM_I) d; d = put_u32 8 (word_of_nat ROOT_I) d;
          d = put_u32 12 1 d; d = splice 16 (pxd_into_bytes (make_pxd 1 28)) d;
          d = put_u64 24 256 d; d = put_u64 32 0 d; d = put_u32 40 2 d; d = put_u32 44 0 d; d = put_u32 48 0 d;
          d = put_u32 52 (IFJOURNAL OR 0x4000 OR 0x1ED) d;
          dtroot = slice 224 (224 + 288) d;
          dtroot = dtroot[16 := 0x83, 17 := 0, 18 := 0, 19 := 0];
          dtroot = put_u32 20 2 dtroot
      in splice 224 dtroot d)"

definition build_bmap_inode_bytes :: "nat \<Rightarrow> bytes" where
  "build_bmap_inode_bytes num_blocks =
     (let d = replicate DISIZE 0;
          d = put_u32 4 1 d; d = put_u32 8 (word_of_nat BMAP_I) d; d = put_u32 12 1 d; d = put_u64 24 24576 d;
          d = put_u64 32 2 d; d = put_u32 40 1 d; d = put_u32 52 0x18000 d;
          xtroot = drop 224 d;
          xtroot = xtroot[16 := 0x83];
          xtroot = put_u16 18 3 xtroot;
          xtroot = put_u16 20 18 xtroot;
          xad = slice 32 (32 + 16) xtroot;
          xad = xad[0 := 0];
          xad = put_u32 4 0 xad;
          xad = splice 8 (pxd_into_bytes (make_pxd 2 17)) xad
      in splice 224 (splice 32 xad xtroot) d)"

definition build_aggregate_inode_bytes :: "nat \<Rightarrow> bytes" where
  "build_aggregate_inode_bytes num_blocks =
     (let d = replicate DISIZE 0 in
      put_u32 52 0x18000 (put_u32 40 1 (put_u64 24 8192 (put_u32 8 (word_of_nat FILESYSTEM_I) (put_u32 4 1 d)))))"

text \<open>\<open>vec![0u8; BLOCK_SIZE]\<close> with one inode copied into a slot.\<close>

definition slot_page :: "nat \<Rightarrow> bytes \<Rightarrow> bytes" where
  "slot_page slot di = splice (slot * DISIZE) di (replicate BLOCK_SIZE 0)"

section \<open>The allocation map\<close>

definition reserved_runs :: "(nat \<times> nat) list" where
  "reserved_runs = [(0, 17), (17, 3), (22, 2), (24, 5), (3840, LOG_AREA_BLOCKS)]"

definition is_reserved :: "nat \<Rightarrow> bool" where
  "is_reserved blk \<longleftrightarrow> list_ex (\<lambda>(s, l). s \<le> blk \<and> blk < s + l) reserved_runs"

text \<open>\<open>for (start, len) in &reserved { nfree -= len; }\<close>.\<close>

fun take_reserved :: "(nat \<times> nat) list \<Rightarrow> nat \<Rightarrow> nat res" where
  "take_reserved [] n = Ok n"
| "take_reserved ((s, l) # rs) n = res_bind (sub_u64 n l) (take_reserved rs)"

definition set_free_bit :: "nat \<Rightarrow> bytes \<Rightarrow> bytes" where
  "set_free_bit blk dmap =
     (let pmap_off = 3072 + blk div 32 * 4
      in put_u32 pmap_off (get_u32 pmap_off dmap OR push_bit (blk mod 32) 1) dmap)"

definition dmap_image :: "nat \<Rightarrow> nat \<Rightarrow> bytes" where
  "dmap_image sz dmap_idx =
     fold (\<lambda>blk dmap.
         let global_blk = dmap_idx * BLOCKS_PER_DMAP + blk in
         if sz \<le> global_blk then dmap
         else if is_reserved global_blk then dmap else set_free_bit blk dmap)
       [0..<BLOCKS_PER_DMAP] (replicate BLOCK_SIZE 0)"

definition descriptor_image :: "nat \<Rightarrow> nat \<Rightarrow> bytes" where
  "descriptor_image sz nf = put_u64 8 nf (put_u64 0 sz (replicate BLOCK_SIZE 0))"

section \<open>Writing the image\<close>

text \<open>\<open>let _ = storage.write_bytes(..)\<close>: an error is dropped, a panic is not.\<close>

definition put_bytes :: "nat \<Rightarrow> bytes \<Rightarrow> storage \<Rightarrow> unit res \<times> storage" where
  "put_bytes offset data s =
     (case write_bytes s offset data of (Err _, s') \<Rightarrow> (Ok (), s') | r \<Rightarrow> r)"

definition build_superblock :: "nat \<Rightarrow> storage \<Rightarrow> unit res \<times> storage" where
  "build_superblock num_blocks s = put_bytes SUPER1_OFF (superblock_bytes (format_super num_blocks)) s"

definition build_log_super :: "storage \<Rightarrow> unit res \<times> storage" where
  "build_log_super s = put_bytes (3840 * BLOCK_SIZE + BLOCK_SIZE) (logsuper_image format_log_super) s"

definition build_aggregate_inode_table :: "nat \<Rightarrow> storage \<Rightarrow> unit res \<times> storage" where
  "build_aggregate_inode_table num_blocks s =
     st_bind (put_bytes (24 * BLOCK_SIZE) (slot_page 1 (build_bmap_inode_bytes num_blocks)) s) (\<lambda>_ s.
     st_bind (put_bytes ((24 + 2) * BLOCK_SIZE) (slot_page 0 (build_aggregate_inode_bytes num_blocks)) s) (\<lambda>_ s.
     put_bytes ((24 + 4) * BLOCK_SIZE) (slot_page 2 build_root_inode_bytes) s))"

fun build_dmaps :: "nat \<Rightarrow> nat list \<Rightarrow> storage \<Rightarrow> unit res \<times> storage" where
  "build_dmaps sz [] s = (Ok (), s)"
| "build_dmaps sz (i # is) s =
     st_bind (put_bytes ((17 + 1 + i) * BLOCK_SIZE) (dmap_image sz i) s) (\<lambda>_ s. build_dmaps sz is s)"

definition build_block_alloc_map :: "nat \<Rightarrow> storage \<Rightarrow> unit res \<times> storage" where
  "build_block_alloc_map num_blocks s =
     st_bind (take_reserved reserved_runs num_blocks, s) (\<lambda>nf s.
     st_bind (put_bytes (17 * BLOCK_SIZE) (descriptor_image num_blocks nf) s) (\<lambda>_ s.
     build_dmaps num_blocks [0..<2] s))"

definition build_bmap_inode :: "nat \<Rightarrow> storage \<Rightarrow> unit res \<times> storage" where
  "build_bmap_inode num_blocks s = put_bytes (24 * BLOCK_SIZE) (slot_page 1 (build_bmap_inode_bytes num_blocks)) s"

definition build_filesystem :: "nat \<Rightarrow> storage \<Rightarrow> unit res \<times> storage" where
  "build_filesystem num_blocks s =
     st_bind (build_superblock num_blocks s) (\<lambda>_ s.
     st_bind (build_log_super s) (\<lambda>_ s.
     st_bind (build_aggregate_inode_table num_blocks s) (\<lambda>_ s.
     st_bind (build_block_alloc_map num_blocks s) (\<lambda>_ s.
     build_bmap_inode num_blocks s))))"

definition create_filesystem_with_blocks :: "nat \<Rightarrow> unit res \<times> storage" where
  "create_filesystem_with_blocks num_blocks = build_filesystem num_blocks (MemoryStorage (mem_new num_blocks))"

definition create_filesystem :: "unit res \<times> storage" where
  "create_filesystem = create_filesystem_with_blocks DEFAULT_NUM_BLOCKS"

text \<open>Not called by the others: the root inode alone.\<close>

definition build_root_inode :: "storage \<Rightarrow> unit res \<times> storage" where
  "build_root_inode s = put_bytes (28 * BLOCK_SIZE) (slot_page 2 build_root_inode_bytes) s"

section \<open>The free bits\<close>

lemma slice_zeros [simp]: "b \<le> n \<Longrightarrow> slice a b (replicate n x) = replicate (b - a) x"
  by (simp add: slice_def min_def)

lemma arr_zeros [simp]:
  "arr2_of (replicate 2 0) = zero2" "arr4_of (replicate 4 0) = zero4" "arr8_of (replicate 8 0) = zero8"
  by (simp_all add: numeral_eq_Suc arr2_of_def arr4_of_def arr8_of_def)

lemma get_u32_zeros: "p + 4 \<le> n \<Longrightarrow> get_u32 p (replicate n 0) = 0"
  by (simp add: get_u32_def)

lemma get_put_u32:
  assumes "p + 4 \<le> length d" "q + 4 \<le> p \<or> p + 4 \<le> q \<or> p = q"
  shows "get_u32 q (put_u32 p w d) = (if p = q then w else get_u32 q d)"
  using assms by (auto simp: get_u32_def put_u32_def slice_splice_other slice_splice_same')

lemma length_set_free_bit [simp]: "blk < 8192 \<Longrightarrow> length d = BLOCK_SIZE \<Longrightarrow> length (set_free_bit blk d) = BLOCK_SIZE"
  by (simp add: set_free_bit_def Let_def block_size_defs)

lemma bit_set_free_bit:
  assumes "length d = BLOCK_SIZE" "blk < 8192" "i < 8192"
  shows "bit (get_u32 (3072 + i div 32 * 4) (set_free_bit blk d)) (i mod 32) =
    (blk = i \<or> bit (get_u32 (3072 + i div 32 * 4) d) (i mod 32))"
proof -
  let ?p = "3072 + blk div 32 * 4" and ?q = "3072 + i div 32 * 4"
  have p: "?p + 4 \<le> length d" using assms(1,2) by (simp add: block_size_defs)
  have sep: "?q + 4 \<le> ?p \<or> ?p + 4 \<le> ?q \<or> ?p = ?q" by auto
  have e: "blk = i \<longleftrightarrow> blk div 32 = i div 32 \<and> blk mod 32 = i mod 32" by (metis div_mult_mod_eq)
  show ?thesis
    unfolding set_free_bit_def Let_def get_put_u32 [OF p sep]
    using e by (auto simp: bit_simps)
qed

definition free_block :: "nat \<Rightarrow> nat \<Rightarrow> bool" where
  "free_block sz blk \<longleftrightarrow> blk < sz \<and> \<not> is_reserved blk"

lemma dmap_fold_bits:
  assumes "k \<le> 8192" "i < 8192"
  shows "length (fold (\<lambda>blk d. let g = start + blk in if sz \<le> g then d else if is_reserved g then d else set_free_bit blk d)
        [0..<k] (replicate BLOCK_SIZE 0)) = BLOCK_SIZE \<and>
    bit (get_u32 (3072 + i div 32 * 4)
      (fold (\<lambda>blk d. let g = start + blk in if sz \<le> g then d else if is_reserved g then d else set_free_bit blk d)
        [0..<k] (replicate BLOCK_SIZE 0))) (i mod 32) = (i < k \<and> free_block sz (start + i))"
  using assms(1)
proof (induction k)
  case 0
  have "get_u32 (3072 + i div 32 * 4) (replicate BLOCK_SIZE 0) = 0"
    using assms(2) by (intro get_u32_zeros) (simp add: block_size_defs)
  then show ?case by simp
next
  case (Suc k)
  then show ?case using assms(2) by (auto simp: Let_def bit_set_free_bit free_block_def less_Suc_eq)
qed

lemma dmap_image_bits:
  "length (dmap_image sz idx) = BLOCK_SIZE"
  "i < 8192 \<Longrightarrow> bit (get_u32 (3072 + i div 32 * 4) (dmap_image sz idx)) (i mod 32) = free_block sz (idx * 8192 + i)"
  using dmap_fold_bits [of 8192 i "idx * 8192" sz] dmap_fold_bits [of 8192 0 "idx * 8192" sz]
  by (auto simp: dmap_image_def BLOCKS_PER_DMAP_def)

text \<open>Reading the page back.\<close>

lemma parse_dmap_word_nth:
  "length (parse_dmap_word w first fm) = length fm"
  "i < length fm \<Longrightarrow> parse_dmap_word w first fm ! i = (if first \<le> i \<and> i < first + 32 then bit w (i - first) else fm ! i)"
proof -
  have *: "length (fold (\<lambda>b fm. if first + b < length fm then fm[first + b := bit w b] else fm) [0..<k] fm) = length fm \<and>
    (\<forall>i<length fm. fold (\<lambda>b fm. if first + b < length fm then fm[first + b := bit w b] else fm) [0..<k] fm ! i =
       (if first \<le> i \<and> i < first + k then bit w (i - first) else fm ! i))" for k
  proof (induction k)
    case (Suc k)
    then show ?case by (auto simp: nth_list_update less_Suc_eq)
  qed auto
  show "length (parse_dmap_word w first fm) = length fm"
    "i < length fm \<Longrightarrow> parse_dmap_word w first fm ! i = (if first \<le> i \<and> i < first + 32 then bit w (i - first) else fm ! i)"
    using * [of 32] by (auto simp: parse_dmap_word_def)
qed

lemma parse_dmap_page_nth:
  assumes "length page = BLOCK_SIZE"
  shows "length (parse_dmap_page page start fm) = length fm"
    "i < length fm \<Longrightarrow> parse_dmap_page page start fm ! i =
       (if start \<le> i \<and> i < start + 8192 then bit (get_u32 (3072 + (i - start) div 32 * 4) page) ((i - start) mod 32) else fm ! i)"
proof -
  let ?f = "\<lambda>word_idx fm. let off = 3072 + word_idx * 4 in
         if length page < off + 4 then fm
         else parse_dmap_word (read_u32 (arr4_of (slice off (off + 4) page))) (start + word_idx * 32) fm"
  have *: "k \<le> 256 \<Longrightarrow> length (fold ?f [0..<k] fm) = length fm \<and>
    (\<forall>i<length fm. fold ?f [0..<k] fm ! i =
       (if start \<le> i \<and> i < start + k * 32 then bit (get_u32 (3072 + (i - start) div 32 * 4) page) ((i - start) mod 32) else fm ! i))" for k
  proof (induction k)
    case (Suc k)
    have w: "start + k * 32 \<le> i \<Longrightarrow> i < start + k * 32 + 32 \<Longrightarrow> (i - start) div 32 = k \<and> (i - start) mod 32 = i - (start + k * 32)" for i
      by (auto simp: div_nat_eqI mod_nat_eqI dest!: le_Suc_ex)
    from Suc assms show ?case
      by (auto simp: parse_dmap_word_nth block_size_defs get_u32_def [symmetric] add.commute w)
  qed auto
  show "length (parse_dmap_page page start fm) = length fm"
    "i < length fm \<Longrightarrow> parse_dmap_page page start fm ! i =
       (if start \<le> i \<and> i < start + 8192 then bit (get_u32 (3072 + (i - start) div 32 * 4) page) ((i - start) mod 32) else fm ! i)"
    using * [of 256] by (auto simp: parse_dmap_page_def)
qed

section \<open>The formatted device\<close>

lemma length_images [simp]:
  "length (superblock_bytes sb) = 184" "length build_root_inode_bytes = 512" "length (build_bmap_inode_bytes n) = 512"
  "length (build_aggregate_inode_bytes n) = 512" "length (descriptor_image a b) = 4096" "length (logsuper_image format_log_super) = 2116"
  by (simp_all add: superblock_bytes_def pxd_into_bytes_def build_root_inode_bytes_def build_bmap_inode_bytes_def
      build_aggregate_inode_bytes_def descriptor_image_def DISIZE_def Let_def block_size_defs put_u16_def
      logsuper_image_def logsuper_head_def format_log_super_def logsuper_default_def length_concat sum_list_replicate MAX_ACTIVE_def)

lemma length_slot_page [simp]: "k < 8 \<Longrightarrow> length d = 512 \<Longrightarrow> length (slot_page k d) = 4096"
  by (simp add: slot_page_def DISIZE_def block_size_defs)

lemma check_geometry_with_contents: "check_geometry (with_contents s x) = check_geometry s"
  by (cases s) (auto simp: check_geometry_def)

text \<open>The writes of the formatter as a list; on a healthy device they all succeed and splice into its contents.\<close>

fun put_all :: "(nat \<times> bytes) list \<Rightarrow> storage \<Rightarrow> unit res \<times> storage" where
  "put_all [] s = (Ok (), s)"
| "put_all ((a, d) # ws) s = st_bind (put_bytes a d s) (\<lambda>_ s. put_all ws s)"

lemma put_all_ok:
  assumes "st_ok s" "\<forall>(a, d) \<in> set ws. a + length d \<le> length (contents s)"
  shows "put_all ws s = (Ok (), with_contents s (fold (\<lambda>(a, d). splice a d) ws (contents s)))"
  using assms
proof (induction ws arbitrary: s)
  case (Cons w ws)
  obtain a d where w: "w = (a, d)" by (cases w)
  have r: "a + length d \<le> length (contents s)" using Cons.prems(2) by (simp add: w)
  let ?s = "with_contents s (splice a d (contents s))"
  have s: "st_ok ?s" "contents ?s = splice a d (contents s)" using st_ok_with_contents Cons.prems(1) r by simp_all
  then have "\<forall>(a, d) \<in> set ws. a + length d \<le> length (contents ?s)" using Cons.prems(2) r by simp
  from Cons.IH [OF s(1) this] s(2) write_bytes_with_contents [OF Cons.prems(1) r] show ?case
    by (simp add: w put_bytes_def with_contents_simps)
qed (simp add: with_contents_simps)

lemma put_all_fun: "put_all [] = Pair (Ok ())" "put_all ((a, d) # ws) = (\<lambda>s. st_bind (put_bytes a d s) (\<lambda>_. put_all ws))"
  by (auto simp: fun_eq_iff)

definition format_image :: "nat \<Rightarrow> bytes" where
  "format_image n =
     splice 98304 (slot_page 1 (build_bmap_inode_bytes n)) (splice 77824 (dmap_image n 1) (splice 73728 (dmap_image n 0)
    (splice 69632 (descriptor_image n (n - 283)) (splice 114688 (slot_page 2 build_root_inode_bytes)
    (splice 106496 (slot_page 0 (build_aggregate_inode_bytes n)) (splice 98304 (slot_page 1 (build_bmap_inode_bytes n))
    (splice 15732736 (logsuper_image format_log_super) (splice 32768 (superblock_bytes (format_super n))
    (replicate (n * 4096) 0)))))))))"

lemma length_dmap [simp]: "length (dmap_image sz idx) = 4096"
  using dmap_image_bits(1) by (simp add: block_size_defs)

lemma length_format_image: "4096 \<le> n \<Longrightarrow> length (format_image n) = n * 4096"
  by (simp add: format_image_def)

lemma take_reserved_runs: "283 \<le> n \<Longrightarrow> take_reserved reserved_runs n = Ok (n - 283)"
  by (simp add: reserved_runs_def sub_u64_def LOG_AREA_BLOCKS_def) linarith

lemma format_device:
  assumes "4096 \<le> n" "st_ok s" "contents s = replicate (n * 4096) 0"
  shows "build_filesystem n s = (Ok (), with_contents s (format_image n))"
proof -
  have n: "16777216 \<le> n * 4096" using assms(1) by simp
  have two: "[0..<2::nat] = [0, 1]" by (simp add: numeral_2_eq_2)
  have b: "BLOCK_SIZE = 4096" by (simp add: block_size_defs)
  let ?ws = "[(32768, superblock_bytes (format_super n)), (15732736, logsuper_image format_log_super),
    (98304, slot_page 1 (build_bmap_inode_bytes n)), (106496, slot_page 0 (build_aggregate_inode_bytes n)),
    (114688, slot_page 2 build_root_inode_bytes), (69632, descriptor_image n (n - 283)), (73728, dmap_image n 0),
    (77824, dmap_image n 1), (98304, slot_page 1 (build_bmap_inode_bytes n))]"
  have "build_filesystem n s = put_all ?ws s"
    using assms(1)
    by (simp add: build_filesystem_def build_superblock_def build_log_super_def build_aggregate_inode_table_def
        build_block_alloc_map_def build_bmap_inode_def take_reserved_runs two b SUPER1_OFF_def st_bind_assoc st_bind_unit
        put_all_fun del: put_all.simps)
  moreover have "\<forall>(a, d) \<in> set ?ws. a + length d \<le> length (contents s)" using n by (simp add: assms(3))
  ultimately show ?thesis using put_all_ok [OF assms(2), of ?ws] by (simp add: assms(3) format_image_def)
qed

text \<open>What a block of the device holds.\<close>

lemma slice_splice_prefix:
  assumes "a + length ys \<le> b" "b \<le> length xs"
  shows "slice a b (splice a ys xs) = ys @ slice (a + length ys) b xs"
  using assms by (simp add: slice_def splice_def min_def)

lemma format_blocks:
  assumes "4096 \<le> n"
  shows "slice 32768 36864 (format_image n) = superblock_bytes (format_super n) @ replicate 3912 0"
    "slice 15732736 15736832 (format_image n) = logsuper_image format_log_super @ replicate 1980 0"
    "slice 69632 73728 (format_image n) = descriptor_image n (n - 283)"
    "slice 73728 77824 (format_image n) = dmap_image n 0"
    "slice 98304 102400 (format_image n) = slot_page 1 (build_bmap_inode_bytes n)"
    "slice 102400 106496 (format_image n) = replicate 4096 0"
    "slice 106496 110592 (format_image n) = slot_page 0 (build_aggregate_inode_bytes n)"
    "slice 110592 114688 (format_image n) = replicate 4096 0"
    "slice 114688 118784 (format_image n) = slot_page 2 build_root_inode_bytes"
proof -
  have n: "16777216 \<le> n * 4096" using assms by simp
  show "slice 32768 36864 (format_image n) = superblock_bytes (format_super n) @ replicate 3912 0"
    using n by (simp add: format_image_def slice_splice_other slice_splice_prefix)
  show "slice 15732736 15736832 (format_image n) = logsuper_image format_log_super @ replicate 1980 0"
    using n by (simp add: format_image_def slice_splice_other slice_splice_prefix)
  show "slice 69632 73728 (format_image n) = descriptor_image n (n - 283)"
    using n by (simp add: format_image_def slice_splice_other slice_splice_same')
  show "slice 73728 77824 (format_image n) = dmap_image n 0"
    using n by (simp add: format_image_def slice_splice_other slice_splice_same')
  show "slice 98304 102400 (format_image n) = slot_page 1 (build_bmap_inode_bytes n)"
    using n by (simp add: format_image_def slice_splice_other slice_splice_same')
  show "slice 102400 106496 (format_image n) = replicate 4096 0"
    using n by (simp add: format_image_def slice_splice_other slice_splice_same')
  show "slice 106496 110592 (format_image n) = slot_page 0 (build_aggregate_inode_bytes n)"
    using n by (simp add: format_image_def slice_splice_other slice_splice_same')
  show "slice 110592 114688 (format_image n) = replicate 4096 0"
    using n by (simp add: format_image_def slice_splice_other slice_splice_same')
  show "slice 114688 118784 (format_image n) = slot_page 2 build_root_inode_bytes"
    using n by (simp add: format_image_def slice_splice_other slice_splice_same')
qed

section \<open>Mounting the formatted device\<close>

lemma length_pxd_bytes [simp]: "length (pxd_into_bytes p) = 8"
  by (simp add: pxd_into_bytes_def)

lemma super_fields:
  "slice 0 4 (superblock_bytes sb @ z) = list_of_arr4 (s_magic sb)"
  "slice 4 8 (superblock_bytes sb @ z) = list_of_arr4 (s_version sb)"
  "slice 8 16 (superblock_bytes sb @ z) = list_of_arr8 (s_size sb)"
  "slice 16 20 (superblock_bytes sb @ z) = list_of_arr4 (s_bsize sb)"
  "slice 20 22 (superblock_bytes sb @ z) = list_of_arr2 (s_l2bsize sb)"
  "slice 22 24 (superblock_bytes sb @ z) = list_of_arr2 (s_l2bfactor sb)"
  "slice 24 28 (superblock_bytes sb @ z) = list_of_arr4 (s_pbsize sb)"
  "slice 28 30 (superblock_bytes sb @ z) = list_of_arr2 (s_l2pbsize sb)"
  "slice 30 32 (superblock_bytes sb @ z) = list_of_arr2 (s_pad sb)"
  "slice 32 36 (superblock_bytes sb @ z) = list_of_arr4 (s_agsize sb)"
  "slice 36 40 (superblock_bytes sb @ z) = list_of_arr4 (s_flag sb)"
  "slice 40 44 (superblock_bytes sb @ z) = list_of_arr4 (s_state sb)"
  "slice 44 48 (superblock_bytes sb @ z) = list_of_arr4 (s_compress sb)"
  "slice 48 56 (superblock_bytes sb @ z) = pxd_into_bytes (s_ait2 sb)"
  "slice 56 64 (superblock_bytes sb @ z) = pxd_into_bytes (s_aim2 sb)"
  "slice 72 80 (superblock_bytes sb @ z) = pxd_into_bytes (s_logpxd sb)"
  by (simp_all add: superblock_bytes_def layout_select)

lemma parse_superblock_bytes: "parse_super (superblock_bytes sb @ replicate 3912 0) = sb"
  by (simp add: parse_super_def super_fields Let_def)

text \<open>The image with another file system state in the superblock, as mounting and unmounting leave it.\<close>

definition state_image :: "nat \<Rightarrow> 32 word \<Rightarrow> bytes" where
  "state_image n st = splice 32808 (list_of_arr4 (write_u32 st)) (format_image n)"

lemma length_state_image: "4096 \<le> n \<Longrightarrow> length (state_image n st) = n * 4096"
  using length_format_image [of n] by (simp add: state_image_def)

lemma slice_splice_inner:
  assumes "a \<le> p" "p + length ys \<le> b" "b \<le> length xs"
  shows "slice a b (splice p ys xs) = splice (p - a) ys (slice a b xs)"
  using assms by (intro nth_equalityI) (auto simp: nth_splice add.commute)

lemma splice_state:
  "splice 40 (list_of_arr4 (write_u32 st)) (superblock_bytes sb @ z) = superblock_bytes (sb\<lparr>s_state := write_u32 st\<rparr>) @ z"
  by (simp add: superblock_bytes_def splice_def)

lemma state_blocks:
  assumes "4096 \<le> n"
  shows "slice 32768 36864 (state_image n st) = superblock_bytes ((format_super n)\<lparr>s_state := write_u32 st\<rparr>) @ replicate 3912 0"
    "36864 \<le> a \<Longrightarrow> slice a b (state_image n st) = slice a b (format_image n)"
  using assms length_format_image [OF assms] format_blocks(1) [OF assms]
  by (simp_all add: state_image_def slice_splice_inner slice_splice_other splice_state)

lemma state_image_clean: "4096 \<le> n \<Longrightarrow> state_image n FM_CLEAN = format_image n"
proof -
  assume n: "4096 \<le> n"
  have "slice 40 44 (slice 32768 36864 (format_image n)) = list_of_arr4 (s_state (format_super n))"
    unfolding format_blocks(1) [OF n] by (rule super_fields)
  then have "slice 32808 32812 (format_image n) = list_of_arr4 (write_u32 FM_CLEAN)"
    by (simp add: slice_slice format_super_def)
  then show ?thesis using splice_slice [of 32808 32812 "format_image n"] length_format_image [OF n] n by (simp add: state_image_def)
qed

definition formatted :: "nat \<Rightarrow> 32 word \<Rightarrow> storage \<Rightarrow> bool" where
  "formatted n st s \<longleftrightarrow> st_ok s \<and> contents s = state_image n st"

lemma read_formatted:
  assumes "4096 \<le> n" "formatted n st s"
  shows "off + len \<le> n * 4096 \<Longrightarrow> read_bytes s off len = (Ok (slice off (off + len) (state_image n st)), s)"
    "b < n \<Longrightarrow> read_block s b = (Ok (slice (b * 4096) (b * 4096 + 4096) (state_image n st)), s)"
    "size_blocks s = n"
  using assms length_state_image [OF assms(1)] bdev.read_slice [of s off len] dev.read_slice [of s b] dev.size_data [of s]
  by (auto simp: formatted_def block_size_defs)

lemma st_ok_length: "st_ok s \<Longrightarrow> length (contents s) < 2 ^ 64"
  by (auto simp: st_ok_cases mem_ok_def file_ok_def)

lemma formatted_size: "4096 \<le> n \<Longrightarrow> formatted n st s \<Longrightarrow> n * 4096 < 2 ^ 64"
  using st_ok_length [of s] length_state_image [of n] by (simp add: formatted_def)

lemma parse_pxd_bytes:
  "parse_pxd_addr (pxd_into_bytes p) = unat (pxd_address p)" "parse_pxd_len (pxd_into_bytes p) = unat (pxd_length p)"
  by (simp_all add: parse_pxd_addr_def parse_pxd_len_def pxd_address_alt pxd_length_def pxd_into_bytes_def layout_select Let_def)

lemma make_pxd_fields [simp]: "pxd_length (make_pxd l a) = take_bit 24 l" "pxd_address (make_pxd l a) = take_bit 40 a"
  by (simp_all add: make_pxd_def)

lemma slot_page_slices:
  assumes "length d = 512"
  shows "a = k * 512 + i \<Longrightarrow> b = k * 512 + j \<Longrightarrow> k < 8 \<Longrightarrow> i \<le> j \<Longrightarrow> j \<le> 512 \<Longrightarrow> slice a b (slot_page k d) = slice i j d"
    "b \<le> k * 512 \<or> (k + 1) * 512 \<le> a \<Longrightarrow> k < 8 \<Longrightarrow> b \<le> 4096 \<Longrightarrow> slice a b (slot_page k d) = replicate (b - a) 0"
proof -
  assume *: "a = k * 512 + i" "b = k * 512 + j" "k < 8" "i \<le> j" "j \<le> 512"
  have "slice i j d = slice i j (slice (k * 512) (k * 512 + 512) (slot_page k d))"
    using assms *(3) by (simp add: slot_page_def DISIZE_def block_size_defs slice_splice_same')
  then show "slice a b (slot_page k d) = slice i j d" using * by (simp add: slice_slice)
next
  assume "b \<le> k * 512 \<or> (k + 1) * 512 \<le> a" "k < 8" "b \<le> 4096"
  then show "slice a b (slot_page k d) = replicate (b - a) 0"
    using assms unfolding slot_page_def DISIZE_def block_size_defs by (subst slice_splice_other) auto
qed

lemma slice_put [simp]:
  "p + 4 \<le> length d \<Longrightarrow> b \<le> p \<or> p + 4 \<le> a \<Longrightarrow> slice a b (put_u32 p w d) = slice a b d"
  "p + 8 \<le> length d \<Longrightarrow> b \<le> p \<or> p + 8 \<le> a \<Longrightarrow> slice a b (put_u64 p m d) = slice a b d"
  "p + 2 \<le> length d \<Longrightarrow> b \<le> p \<or> p + 2 \<le> a \<Longrightarrow> slice a b (put_u16 p h d) = slice a b d"
  "p + 4 \<le> length d \<Longrightarrow> b = p + 4 \<Longrightarrow> slice p b (put_u32 p w d) = list_of_arr4 (write_u32 w)"
  "p + 8 \<le> length d \<Longrightarrow> b = p + 8 \<Longrightarrow> slice p b (put_u64 p m d) = list_of_arr8 (write_u64 (word_of_nat m))"
  "p + 2 \<le> length d \<Longrightarrow> b = p + 2 \<Longrightarrow> slice p b (put_u16 p h d) = list_of_arr2 (write_u16 h)"
  by (simp_all add: put_u16_def put_u32_def put_u64_def slice_splice_other slice_splice_same')

lemma length_put16 [simp]: "p + 2 \<le> length d \<Longrightarrow> length (put_u16 p h d) = length d"
  by (simp add: put_u16_def)

lemma bmap_inode_keys:
  "slice 4 8 (build_bmap_inode_bytes n) = list_of_arr4 (write_u32 1)"
  "slice 8 12 (build_bmap_inode_bytes n) = list_of_arr4 (write_u32 (word_of_nat BMAP_I))"
  by (simp_all add: build_bmap_inode_bytes_def Let_def DISIZE_def slice_splice_other)

lemma bmap_inode_root: "parse_bmap_xtroot (build_bmap_inode_bytes n) = Ok (17, 2)"
proof -
  define d where "d = put_u32 52 0x18000 (put_u32 40 1 (put_u64 32 2 (put_u64 24 24576 (put_u32 12 1
    (put_u32 8 (word_of_nat BMAP_I) (put_u32 4 1 (replicate 512 0)))))))"
  have l: "length d = 512" by (simp add: d_def)
  define xt where "xt = put_u16 20 18 (put_u16 18 3 ((drop 224 d)[16 := 0x83]))"
  have lx: "length xt = 288" using l by (simp add: xt_def)
  define xad where "xad = splice 8 (pxd_into_bytes (make_pxd 2 17)) (put_u32 4 0 ((slice 32 48 xt)[0 := 0]))"
  have la: "length xad = 16" using lx by (simp add: xad_def)
  have e: "build_bmap_inode_bytes n = splice 224 (splice 32 xad xt) d"
    by (simp add: build_bmap_inode_bytes_def Let_def DISIZE_def xt_def d_def xad_def)
  have x: "drop 224 (build_bmap_inode_bytes n) = splice 32 xad xt" using l lx la by (simp add: e splice_def)
  have "slice 18 20 (splice 32 xad xt) = list_of_arr2 (write_u16 3)" using lx la l by (simp add: slice_splice_other) (simp add: xt_def)
  moreover have "slice 40 48 (splice 32 xad xt) = slice 8 16 xad"
  proof -
    have "slice 8 16 (slice 32 48 (splice 32 xad xt)) = slice 8 16 xad" using lx la by (simp add: slice_splice_same')
    then show ?thesis by (simp add: slice_slice)
  qed
  moreover have "slice 8 16 xad = pxd_into_bytes (make_pxd 2 17)"
    using lx by (simp add: xad_def slice_splice_same')
  ultimately show ?thesis using lx la l
    by (simp add: parse_bmap_xtroot_def x parse_pxd_bytes Let_def upt_rec)
qed

lemma format_bmap:
  assumes "4096 \<le> n" "formatted n st s"
  shows "\<exists>fm. bmap_new s = (Ok \<lparr>mapsize = n, nfree = n - 283, free_map = fm, ndmap = 1, dmap_start = 17,
      dmap_len = 2, allocated = [], freed = [], dirty_pages = {}\<rparr>, s) \<and>
    length fm = n \<and> (\<forall>i<n. fm ! i = (i < 8192 \<and> free_block n i))"
proof -
  note rd = read_formatted [OF assms] and fb = state_blocks(1) [OF assms(1), of st] format_blocks(2-) [OF assms(1)] and sb = state_blocks(2) [OF assms(1), of _ _ st]
  let ?bi = "build_bmap_inode_bytes n"
  have big: "16777216 \<le> n * 4096" using assms(1) by simp
  have n64: "unat (word_of_nat n :: 64 word) = n" "unat (word_of_nat (n - 283) :: 64 word) = n - 283"
    using formatted_size [OF assms] by (simp_all add: unsigned_of_nat take_bit_nat_eq_self)
  have "s_ait2 ((format_super n)\<lparr>s_state := write_u32 st\<rparr>) = make_pxd 4 24" by (simp add: format_super_def)
  then have ait: "slice 48 56 (superblock_bytes ((format_super n)\<lparr>s_state := write_u32 st\<rparr>) @ replicate 3912 0) = pxd_into_bytes (make_pxd 4 24)"
    by (simp add: super_fields)
  have pg: "scan_inodes (slot_page 1 ?bi) 24 [0..<INOSPERPAGE] = Some (24, 512)"
  proof -
    have "[0..<INOSPERPAGE] = 0 # 1 # [2..<INOSPERPAGE]" by (simp add: INOSPERPAGE_def upt_rec)
    moreover have "slice 4 8 (slot_page 1 ?bi) = replicate 4 0" "slice 8 12 (slot_page 1 ?bi) = replicate 4 0"
      using slot_page_slices(2) [of ?bi 8 1 4] slot_page_slices(2) [of ?bi 12 1 8] by simp_all
    moreover have "slice 516 520 (slot_page 1 ?bi) = list_of_arr4 (write_u32 1)"
      "slice 520 524 (slot_page 1 ?bi) = list_of_arr4 (write_u32 (word_of_nat BMAP_I))"
      using slot_page_slices(1) [of ?bi 516 1 4 520 8] slot_page_slices(1) [of ?bi 520 1 8 524 12] bmap_inode_keys by simp_all
    ultimately show ?thesis by (simp add: DISIZE_def BMAP_I_def)
  qed
  have find: "find_bmap_inode s = (Ok (24, 512), s)"
  proof -
    have "[0..<36::nat] = 0 # [1..<36]" by (simp add: upt_rec)
    then show ?thesis using assms(1) big fb(1,5) ait pg
      by (simp add: sb find_bmap_inode_def rd SUPER1_OFF_def PSIZE_def slice_res_def parse_pxd_bytes)
  qed
  have di: "slice 512 1024 (slot_page 1 ?bi) = ?bi"
    using slot_page_slices(1) [of ?bi 512 1 0 1024 512] by (simp add: slice_whole)
  let ?fm = "parse_dmap_page (dmap_image n 0) 0 (replicate n False)"
  have "slice 0 8 (descriptor_image n (n - 283)) = list_of_arr8 (write_u64 (word_of_nat n))"
    "slice 8 16 (descriptor_image n (n - 283)) = list_of_arr8 (write_u64 (word_of_nat (n - 283)))"
    by (simp_all add: descriptor_image_def block_size_defs)
  then have "bmap_new s = (Ok \<lparr>mapsize = n, nfree = n - 283, free_map = ?fm, ndmap = 1, dmap_start = 17,
      dmap_len = 2, allocated = [], freed = [], dirty_pages = {}\<rparr>, s)"
    using assms(1) fb(3,4,5) find di bmap_inode_root n64
    by (simp add: bmap_new_def rd sb slice_res_def DISIZE_def block_size_defs BLOCKS_PER_DMAP_def Let_def upt_rec)
  moreover have "length ?fm = n" "\<forall>i<n. ?fm ! i = (i < 8192 \<and> free_block n i)"
    using parse_dmap_page_nth [OF dmap_image_bits(1) [of n 0]] dmap_image_bits(2) [of _ n 0] by simp_all
  ultimately show ?thesis by blast
qed

text \<open>The search of the inode table.\<close>

lemma slot_page_slot:
  assumes "length d = 512" "k < INOSPERPAGE" "i < INOSPERPAGE"
  shows "slice (i * DISIZE) (i * DISIZE + DISIZE) (slot_page k d) = (if i = k then d else replicate 512 0)"
proof -
  have k: "k < 8" and i: "i < 8" using assms(2,3) by (simp_all add: INOSPERPAGE_def)
  show ?thesis
  proof (cases "i = k")
    case True
    then show ?thesis using slot_page_slices(1) [OF assms(1), of "k * 512" k 0 "k * 512 + 512" 512] k assms(1)
      by (simp add: DISIZE_def slice_whole)
  next
    case False
    then have "i * 512 + 512 \<le> k * 512 \<or> (k + 1) * 512 \<le> i * 512" by auto
    then show ?thesis using slot_page_slices(2) [OF assms(1), of "i * 512 + 512" k "i * 512"] k i False by (simp add: DISIZE_def)
  qed
qed

lemma zero_page: "replicate 4096 0 = slot_page 0 (replicate 512 0)"
  by (simp add: slot_page_def block_size_defs splice_def flip: replicate_add)

lemma find_in_slot_page:
  assumes "length d = 512" "k < INOSPERPAGE" "(fs, num) \<noteq> (0, 0)" "list_all (\<lambda>i. i < INOSPERPAGE) is"
  shows "find_in_page (slot_page k d) fs num is =
    Ok (if k \<in> set is \<and> read_u32 (arr4_of (slice 4 8 d)) = fs \<and> read_u32 (arr4_of (slice 8 12 d)) = num then Some (k * DISIZE) else None)"
  using assms(4)
proof (induction "is")
  case (Cons i "is")
  have k: "k < 8" and i: "i < 8" using assms(2) Cons.prems by (simp_all add: INOSPERPAGE_def)
  have "i * DISIZE + DISIZE \<le> length (slot_page k d)" using i k assms(1) by (simp add: DISIZE_def)
  then show ?case using Cons assms(3) slot_page_slot [OF assms(1,2), of i] by (auto simp: slice_res_def)
qed simp

lemma find_in_zeros:
  "(fs, num) \<noteq> (0, 0) \<Longrightarrow> list_all (\<lambda>i. i < INOSPERPAGE) is \<Longrightarrow> find_in_page (replicate 4096 0) fs num is = Ok None"
proof -
  assume *: "(fs, num) \<noteq> (0, 0)" "list_all (\<lambda>i. i < INOSPERPAGE) is"
  show ?thesis using zero_page find_in_slot_page [of "replicate 512 0" 0 fs num "is"] * by (auto simp: INOSPERPAGE_def)
qed

lemma root_inode_slices:
  "slice 4 8 build_root_inode_bytes = list_of_arr4 (write_u32 16)" "slice 8 12 build_root_inode_bytes = list_of_arr4 (write_u32 2)"
  "slice 52 56 build_root_inode_bytes = list_of_arr4 (write_u32 0x141ED)"
  by (simp_all add: build_root_inode_bytes_def Let_def DISIZE_def slice_splice_other FILESYSTEM_I_def ROOT_I_def IFJOURNAL_def)

lemma root_inode_dtroot: "build_root_inode_bytes ! 241 = 0"
  by (simp add: build_root_inode_bytes_def Let_def DISIZE_def nth_splice put_u32_def)

definition format_root :: dinode where
  "format_root = (case dinode_parse build_root_inode_bytes of Inr d \<Rightarrow> d)"

lemma format_root_facts:
  "parse_dinode build_root_inode_bytes = Ok format_root" "is_dir format_root" "length (dtroot_bytes format_root) = 288"
  "dt_from_inode_data (dtroot_bytes format_root) = Ok (dtroot_bytes format_root)" "dt_entries (dtroot_bytes format_root) = Ok []"
proof -
  have p: "dinode_parse build_root_inode_bytes = Inr format_root" by (simp add: format_root_def dinode_parse_def)
  then show "parse_dinode build_root_inode_bytes = Ok format_root" by (simp add: parse_dinode_def)
  have m: "di_mode format_root = write_u32 0x141ED" "di_u format_root = slice 128 512 build_root_inode_bytes"
    by (simp_all add: format_root_def dinode_parse_def root_inode_slices)
  show "is_dir format_root" using m(1) by (simp add: is_dir_def mode_def)
  show l: "length (dtroot_bytes format_root) = 288" using m(2) by (simp add: dtroot_bytes_def)
  show "dt_from_inode_data (dtroot_bytes format_root) = Ok (dtroot_bytes format_root)"
    using l by (simp add: dt_from_inode_data_def DTROOT_ENTRY_BASE_def DTENTRYSTART_def DTSLOTSIZE_def)
  have "dtroot_bytes format_root ! 17 = 0" using m(2) root_inode_dtroot by (simp add: dtroot_bytes_def)
  then have "dt_next_index (dtroot_bytes format_root) = 0" using l by (simp add: dt_next_index_def DTROOT_NEXTINDEX_def)
  then show "dt_entries (dtroot_bytes format_root) = Ok []" by (simp add: dt_entries_def read_stbl_def slice_def)
qed

text \<open>A volume whose inode table is the formatted one.\<close>

lemma scan_format:
  assumes "4096 \<le> n" "unat (pxd_address (s_ait2 (v_sb v))) = 24" "max_scan v = 36" "v_agg_size v = n"
    "\<And>b. 24 \<le> b \<Longrightarrow> b \<le> 28 \<Longrightarrow> rd b = Ok (slice (b * 4096) (b * 4096 + 4096) (format_image n))"
  shows "scan_volume rd v 18 = Ok (28, 1024)"
proof -
  note fb = format_blocks [OF assms(1)]
  have ls: "list_all (\<lambda>i. i < INOSPERPAGE) [0..<INOSPERPAGE]" by (simp add: list_all_iff)
  have key: "inode_key 18 = (16, 2)" by (simp add: inode_key_def FILESYSTEM_I_def)
  have ag: "slice 4 8 (build_aggregate_inode_bytes n) = list_of_arr4 (write_u32 1)"
    by (simp add: build_aggregate_inode_bytes_def DISIZE_def)
  have f: "find_in_page (slot_page 1 (build_bmap_inode_bytes n)) 16 2 [0..<INOSPERPAGE] = Ok None"
    "find_in_page (replicate 4096 0) 16 2 [0..<INOSPERPAGE] = Ok None"
    "find_in_page (slot_page 0 (build_aggregate_inode_bytes n)) 16 2 [0..<INOSPERPAGE] = Ok None"
    "find_in_page (slot_page 2 build_root_inode_bytes) 16 2 [0..<INOSPERPAGE] = Ok (Some 1024)"
    using find_in_slot_page [OF _ _ _ ls] find_in_zeros [OF _ ls]
    by (simp_all add: INOSPERPAGE_def DISIZE_def bmap_inode_keys ag root_inode_slices)
  have r: "rd 24 = Ok (slot_page 1 (build_bmap_inode_bytes n))" "rd 25 = Ok (replicate 4096 0)"
    "rd 26 = Ok (slot_page 0 (build_aggregate_inode_bytes n))" "rd 27 = Ok (replicate 4096 0)" "rd 28 = Ok (slot_page 2 build_root_inode_bytes)"
    using assms(5) [of 24] assms(5) [of 25] assms(5) [of 26] assms(5) [of 27] assms(5) [of 28] fb by simp_all
  have "[0..<36::nat] = [0, 1, 2, 3, 4] @ [5..<36]" by (simp add: upt_rec)
  then show ?thesis using assms(1-4) f r by (simp add: scan_volume_def key)
qed

lemma format_root_read:
  assumes "library E valid" "quiet E valid v" "4096 \<le> n" "unat (pxd_address (s_ait2 (v_sb v))) = 24" "max_scan v = 36" "v_agg_size v = n"
    "\<And>b. 24 \<le> b \<Longrightarrow> b \<le> 28 \<Longrightarrow> peek_block (v_storage v) b = Ok (slice (b * 4096) (b * 4096 + 4096) (format_image n))"
  shows "inode_read E 18 v = (Ok \<lparr>i_dinode = format_root, i_ino = 18, i_page_block = 28, i_page_offset = 1024\<rparr>, v)"
proof -
  have "peek_block (v_storage v) 28 = Ok (slot_page 2 build_root_inode_bytes)"
    using assms(7) [of 28] format_blocks(9) [OF assms(3)] by simp
  moreover have "slice 1024 1536 (slot_page 2 build_root_inode_bytes) = build_root_inode_bytes"
    using slot_page_slices(1) [of build_root_inode_bytes 1024 2 0 1536 512] by (simp add: slice_whole)
  ultimately show ?thesis
    using library.inode_read_quiet [OF assms(1,2), of 18] scan_format [OF assms(3-6), of "peek_block (v_storage v)"] assms(7) format_root_facts(1)
    by (simp add: slice_res_def DISIZE_def)
qed

lemma log_image_fields:
  "slice 0 4 (logsuper_image l @ z) = list_of_arr4 (ls_magic l)" "slice 4 8 (logsuper_image l @ z) = list_of_arr4 (ls_version l)"
  "slice 28 32 (logsuper_image l @ z) = list_of_arr4 (ls_state l)"
  by (simp_all add: logsuper_image_def logsuper_head_def layout_select)

lemma format_log:
  assumes "4096 \<le> n" "formatted n st s"
  shows "\<exists>l. lm_read_super s 15728640 = (Ok l, s) \<and> ls_magic_val l = LOGMAGIC \<and>
    ls_version_val l = LOGVERSION \<and> ls_state_val l = LOGREDONE \<and> ls_wf l"
  using assms format_blocks(2) [OF assms(1)]
  by (simp add: lm_read_super_def state_blocks(2) read_formatted [OF assms] block_size_defs parse_logsuper_def field4_def log_image_fields)
    (simp add: ls_magic_val_def ls_version_val_def ls_state_val_def format_log_super_def ls_wf_def logsuper_default_def)

abbreviation super_state :: "nat \<Rightarrow> 32 word \<Rightarrow> superblock" where
  "super_state n st \<equiv> (format_super n)\<lparr>s_state := write_u32 st\<rparr>"

lemma format_super_facts:
  assumes "n < 2 ^ 64"
  shows "is_valid_magic (super_state n st)" "sb_version (super_state n st) = 1" "sb_block_size (super_state n st) = PSIZE"
    "has_inline_log (super_state n st)" "aggregate_size (super_state n st) = n" "s_ait2 (super_state n st) = make_pxd 4 24"
    "unat (pxd_address (s_logpxd (super_state n st))) = 3840" "sb_state (super_state n st) = st"
  using assms by (simp_all add: is_valid_magic_def sb_version_def sb_block_size_def has_inline_log_def sb_flag_def aggregate_size_def sb_state_def
      format_super_def PSIZE_def LOG_AREA_BLOCKS_def unsigned_of_nat take_bit_nat_eq_self)

lemma lm_logsuper_new: "lm_logsuper (logmgr_new l base) = l"
  by (simp add: logmgr_new_def)

text \<open>The read-only mount.\<close>

lemma open_format:
  assumes "library E valid" "4096 \<le> n" "formatted n st s" "check_geometry s (super_state n st) = Ok ()"
  shows "\<exists>v l. open_from_storage E s = (Ok v, s) \<and> quiet E valid v \<and> v_storage v = s \<and>
    v_sb v = super_state n st \<and> v_agg_size v = n \<and> v_root_ino v = 18 \<and> v_open_handles v = Map.empty \<and> active (v_tx v) = None \<and>
    v_log v = Some (logmgr_new l 15728640) \<and> ls_magic_val l = LOGMAGIC \<and> ls_wf l \<and>
    (\<exists>b. v_bmap v = Some b \<and> mapsize b = n \<and> nfree b = n - 283 \<and> dmap_start b = 17 \<and> dirty_pages b = {} \<and>
       length (free_map b) = n \<and> (\<forall>i<n. free_map b ! i = (i < 8192 \<and> free_block n i)))"
proof -
  let ?s = s and ?sb = "super_state n st"
  have n: "n < 2 ^ 64" using formatted_size [OF assms(2,3)] by simp
  note sf = format_super_facts [OF n]
  have big: "16777216 \<le> n * 4096" using assms(2) by simp
  have rs: "read_super ?s = (Ok ?sb, ?s)"
    using big state_blocks(1) [OF assms(2)] parse_superblock_bytes
    by (simp add: read_super_def read_formatted [OF assms(2,3)] SUPER1_OFF_def PSIZE_def)
  have vs: "validate_super ?sb = Ok ()" using sf by (simp add: validate_super_def)
  obtain l where l: "lm_read_super ?s 15728640 = (Ok l, ?s)" "ls_magic_val l = LOGMAGIC" "ls_version_val l = LOGVERSION"
    "ls_state_val l = LOGREDONE" "ls_wf l" using format_log [OF assms(2,3)] by blast
  obtain fm where fm: "bmap_new ?s = (Ok \<lparr>mapsize = n, nfree = n - 283, free_map = fm, ndmap = 1, dmap_start = 17,
      dmap_len = 2, allocated = [], freed = [], dirty_pages = {}\<rparr>, ?s)" "length fm = n" "\<forall>i<n. fm ! i = (i < 8192 \<and> free_block n i)"
    using format_bmap [OF assms(2,3)] by blast
  let ?v = "\<lparr>v_sb = ?sb, v_log = Some (logmgr_new l 15728640), v_tx = tx_new, v_storage = ?s, v_log_storage = True,
      v_cache = cache_new (e_lru E) 256, v_block_size = PSIZE, v_l2bsize = read_u16 (s_l2bsize ?sb), v_agg_size = n, v_ag_size = sb_agsize ?sb,
      v_num_ag = (if 0 < sb_agsize ?sb then n div sb_agsize ?sb mod 2 ^ 32 else 1), v_root_ino = word_of_nat (FILESYSTEM_I + ROOT_I),
      v_bmap = Some \<lparr>mapsize = n, nfree = n - 283, free_map = fm, ndmap = 1, dmap_start = 17, dmap_len = 2, allocated = [], freed = [], dirty_pages = {}\<rparr>,
      v_open_handles = Map.empty\<rparr>"
  have "open_from_storage E ?s = (Ok ?v, ?s)"
    using sf l fm(1) by (simp add: open_from_storage_def assms(4) rs vs Let_def init_log_def on_storage_def recover_journal_def block_size_defs
        lm_logsuper_new)
  moreover have "quiet E valid ?v"
    using library.new_law [OF assms(1)] assms(3) by (simp add: formatted_def quiet_def cache_new_def)
  moreover have "v_root_ino ?v = 18" by (simp add: FILESYSTEM_I_def ROOT_I_def)
  ultimately show ?thesis using l(2,5) fm(2,3) by (intro exI [of _ ?v] exI [of _ l]) (simp add: tx_new_def)
qed

text \<open>Marking the volume dirty rewrites the state in the superblock and nothing else.\<close>

lemma set_state_format:
  assumes "4096 \<le> n" "formatted n st (v_storage v)" "v_sb v = super_state n st"
  shows "set_fs_state st' v = (Ok (), v\<lparr>v_storage := with_contents (v_storage v) (state_image n st'), v_sb := super_state n st'\<rparr>)"
    "formatted n st' (with_contents (v_storage v) (state_image n st'))"
proof -
  have l: "length (state_image n st) = n * 4096" "16777216 \<le> n * 4096" using assms(1) by (simp_all add: length_state_image)
  define buf where "buf = splice 40 (list_of_arr4 (write_u32 st')) (slice 32768 36864 (state_image n st))"
  have lb: "length buf = 4096" "slice 40 44 buf = list_of_arr4 (write_u32 st')"
    using l by (simp_all add: buf_def slice_splice_same')
  have "splice 32768 buf (state_image n st) = splice 32808 (list_of_arr4 (write_u32 st')) (state_image n st)"
    using l by (intro nth_equalityI) (auto simp: buf_def nth_splice)
  then have img: "splice 32768 buf (state_image n st) = state_image n st'"
    using length_format_image [OF assms(1)] l(2) by (simp add: state_image_def splice_over)
  have ok: "st_ok (v_storage v)" "contents (v_storage v) = state_image n st" using assms(2) by (simp_all add: formatted_def)
  then have w: "write_bytes (v_storage v) 32768 buf = (Ok (), with_contents (v_storage v) (state_image n st'))"
    using write_bytes_with_contents [of "v_storage v" 32768 buf] l lb(1) img by simp
  show f: "formatted n st' (with_contents (v_storage v) (state_image n st'))"
    using ok st_ok_with_contents [OF ok(1)] assms(1) by (simp add: formatted_def length_state_image)
  then show "set_fs_state st' v = (Ok (), v\<lparr>v_storage := with_contents (v_storage v) (state_image n st'), v_sb := super_state n st'\<rparr>)"
    using l lb assms(3) w read_formatted(1) [OF assms(1,2), of 32768 4096]
    by (simp add: set_fs_state_def on_storage_def SUPER1_OFF_def PSIZE_def formatted_def flip: buf_def)
qed

lemma is_reserved_iff: "is_reserved i \<longleftrightarrow> i \<in> {0..<20} \<union> {22..<29} \<union> {3840..<4096}"
  by (auto simp: is_reserved_def reserved_runs_def LOG_AREA_BLOCKS_def)

lemma free_count_format:
  assumes "4096 \<le> n" "length fm = n" "\<forall>i<n. fm ! i = (\<not> is_reserved i)"
  shows "free_count fm = n - 283"
proof -
  let ?R = "{0..<20} \<union> {22..<29} \<union> {3840..<4096::nat}"
  have "{i. i < length fm \<and> fm ! i} = {0..<n} - ?R" using assms(2,3) by (auto simp: is_reserved_iff)
  moreover have "?R \<subseteq> {0..<n}" using assms(1) by auto
  moreover have "card ?R = 283"
  proof -
    have "{0..<20} \<inter> {22..<29::nat} = {}" "({0..<20} \<union> {22..<29}) \<inter> {3840..<4096::nat} = {}" by auto
    then show ?thesis by (subst card_Un_disjoint, simp_all)+
  qed
  ultimately show ?thesis by (simp add: free_count_def length_filter_conv_card card_Diff_subset)
qed

text \<open>An open volume of a formatted device.\<close>

definition fresh_volume :: "'c env \<Rightarrow> nat \<Rightarrow> 'c volume \<Rightarrow> bool" where
  "fresh_volume E n v \<longleftrightarrow>
     v_agg_size v = n \<and>
     (\<exists>b. v_bmap v = Some b \<and> mapsize b = n \<and> length (free_map b) = n \<and> (\<forall>i<n. free_map b ! i = (\<not> is_reserved i)) \<and>
       nfree b = free_count (free_map b)) \<and>
     (\<exists>root. inode_read E (v_root_ino v) v = (Ok root, v) \<and> is_dir (i_dinode root) \<and>
       dt_from_inode_data (dtroot_bytes (i_dinode root)) = Ok (dtroot_bytes (i_dinode root)) \<and>
       dt_entries (dtroot_bytes (i_dinode root)) = Ok []) \<and>
     check_consistent E v = (Ok [], v)"

definition holds_format :: "'c env \<Rightarrow> ('c \<Rightarrow> bool) \<Rightarrow> nat \<Rightarrow> 32 word \<Rightarrow> 'c volume \<Rightarrow> bool" where
  "holds_format E valid n st v \<longleftrightarrow> quiet E valid v \<and> formatted n st (v_storage v) \<and> v_sb v = super_state n st \<and> v_agg_size v = n \<and>
     v_root_ino v = 18 \<and> v_open_handles v = Map.empty \<and> active (v_tx v) = None \<and>
     (\<exists>l. v_log v = Some (logmgr_new l 15728640) \<and> ls_magic_val l = LOGMAGIC \<and> ls_wf l) \<and>
     (\<exists>b. v_bmap v = Some b \<and> mapsize b = n \<and> nfree b = n - 283 \<and> dmap_start b = 17 \<and> dirty_pages b = {} \<and> length (free_map b) = n \<and>
       (\<forall>i<n. free_map b ! i = (i < 8192 \<and> free_block n i)))"

lemma holds_format_fresh:
  assumes "library E valid" "4096 \<le> n" "n \<le> 8192" "holds_format E valid n st v"
  shows "fresh_volume E n v"
proof -
  let ?root = "\<lparr>i_dinode = format_root, i_ino = 18, i_page_block = 28, i_page_offset = 1024\<rparr>"
  obtain l b where v: "quiet E valid v" "formatted n st (v_storage v)" "v_sb v = super_state n st" "v_agg_size v = n" "v_root_ino v = 18"
    "v_log v = Some (logmgr_new l 15728640)" "ls_magic_val l = LOGMAGIC"
    and b: "v_bmap v = Some b" "mapsize b = n" "nfree b = n - 283" "length (free_map b) = n"
    "\<forall>i<n. free_map b ! i = (i < 8192 \<and> free_block n i)"
    using assms(4) unfolding holds_format_def by metis
  note sf = format_super_facts [of n st]
  have ait: "unat (pxd_address (s_ait2 (v_sb v))) = 24" "unat (pxd_length (s_ait2 (v_sb v))) = 4"
    using sf(6) assms(3) v(3) by simp_all
  have pk: "peek_block (v_storage v) k = Ok (slice (k * 4096) (k * 4096 + 4096) (format_image n))" if "24 \<le> k" "k \<le> 28" for k
    using that assms(2) read_formatted(2) [OF assms(2) v(2), of k] state_blocks(2) [OF assms(2), of "k * 4096"] by (simp add: peek_block_def)
  have root: "inode_read E (v_root_ino v) v = (Ok ?root, v)"
    using format_root_read [OF assms(1) v(1) assms(2) ait(1) _ v(4) pk] ait v(5) by (simp add: max_scan_def)
  have fr: "\<forall>i<n. free_map b ! i = (\<not> is_reserved i)" using b(5) assms(3) by (simp add: free_block_def)
  have "is_valid_magic (v_sb v)" using sf(1) assms(3) v(3) by simp
  then have "check_consistent E v = (Ok [], v)" using v(6,7) root format_root_facts
    by (simp add: check_consistent_def check_root_def lm_logsuper_new)
  then show ?thesis
    unfolding fresh_volume_def using root format_root_facts b(1-4) fr free_count_format [OF assms(2) b(4) fr] v(4) by auto
qed

lemma formatted_opens:
  assumes "library E valid" "4096 \<le> n" "formatted n st s" "check_geometry s (super_state n st) = Ok ()"
  shows "\<exists>v. open_from_storage E s = (Ok v, s) \<and> v_storage v = s \<and> holds_format E valid n st v"
  using open_format [OF assms] assms(3) unfolding holds_format_def by metis

lemma set_state_holds:
  assumes "4096 \<le> n" "holds_format E valid n st v"
  shows "\<exists>v'. set_fs_state st' v = (Ok (), v') \<and> holds_format E valid n st' v' \<and>
    v_storage v' = with_contents (v_storage v) (state_image n st')"
proof -
  from assms(2) have v: "formatted n st (v_storage v)" "v_sb v = super_state n st" by (auto simp: holds_format_def)
  from set_state_format [OF assms(1) v, of st'] assms(2) show ?thesis by (auto simp: holds_format_def quiet_def formatted_def)
qed

lemma formatted_mounts:
  assumes "library E valid" "4096 \<le> n" "n \<le> 8192" "formatted n st s" "check_geometry s (super_state n st) = Ok ()"
  shows "\<exists>v. mount_from_storage E s = (Ok v, with_contents s (state_image n FM_DIRTY)) \<and>
    v_storage v = with_contents s (state_image n FM_DIRTY) \<and> holds_format E valid n FM_DIRTY v"
proof -
  obtain v where v: "open_from_storage E s = (Ok v, s)" "v_storage v = s" "holds_format E valid n st v"
    using formatted_opens [OF assms(1,2,4,5)] by blast
  obtain root where "inode_read E (v_root_ino v) v = (Ok root, v)" "is_dir (i_dinode root)"
    "dt_from_inode_data (dtroot_bytes (i_dinode root)) = Ok (dtroot_bytes (i_dinode root))"
    using holds_format_fresh [OF assms(1-3) v(3)] unfolding fresh_volume_def by blast
  with v set_state_holds [OF assms(2) v(3), of FM_DIRTY] show ?thesis by (auto simp: mount_from_storage_def)
qed

lemma format_makes:
  assumes "4096 \<le> n" "st_ok s" "contents s = replicate (n * 4096) 0"
  shows "formatted n FM_CLEAN (with_contents s (format_image n))"
  using assms st_ok_with_contents [OF assms(2)] state_image_clean [OF assms(1)] length_format_image [OF assms(1)]
  by (simp add: formatted_def)

lemma super_state_clean: "super_state n FM_CLEAN = format_super n"
  by (simp add: format_super_def)



end
