(* ===== verification/Inode_Table.thy ===== *)
theory Inode_Table
  imports Inode_Edit
begin

text \<open>
  The inode table as a list of keyed slots, so that giving a slot a new key is an update of one element, and reading
  inodes while pages of the table are in the cache, which the directory operations do in the middle
  of a transaction.
\<close>

section \<open>The inode table as a list of slots\<close>

definition slots_from :: "nat \<Rightarrow> nat \<Rightarrow> nat list \<Rightarrow> (nat \<times> nat) list" where
  "slots_from start agg ks =
     concat (map (\<lambda>k. if agg \<le> start + k then [] else map (\<lambda>i. (start + k, i * DISIZE)) [0..<INOSPERPAGE]) ks)"

definition table_slots :: "'c volume \<Rightarrow> (nat \<times> nat) list" where
  "table_slots v = slots_from (unat (pxd_address (s_ait2 (v_sb v)))) (v_agg_size v) [0..<max_scan v]"

definition key_of :: "bytes \<Rightarrow> 32 word \<times> 32 word" where
  "key_of d = (read_u32 (arr4_of (slice 4 8 d)), read_u32 (arr4_of (slice 8 12 d)))"

definition slot_bytes :: "(nat \<Rightarrow> bytes res) \<Rightarrow> nat \<times> nat \<Rightarrow> bytes" where
  "slot_bytes rd s = (case rd (fst s) of Ok d \<Rightarrow> slice (snd s) (snd s + DISIZE) d | _ \<Rightarrow> [])"

definition slot_key :: "(nat \<Rightarrow> bytes res) \<Rightarrow> nat \<times> nat \<Rightarrow> 32 word \<times> 32 word" where
  "slot_key rd s = key_of (slot_bytes rd s)"

text \<open>Every block of the table is readable.\<close>

definition table_ok :: "(nat \<Rightarrow> bytes res) \<Rightarrow> 'c volume \<Rightarrow> bool" where
  "table_ok rd v \<longleftrightarrow> (\<forall>b\<in>table_blocks v. \<exists>d. rd b = Ok d \<and> length d = BLOCK_SIZE)"

lemma slots_from_iff: "(b, off) \<in> set (slots_from s agg ks) \<longleftrightarrow> b < agg \<and> (\<exists>k\<in>set ks. b = s + k) \<and> (\<exists>i<INOSPERPAGE. off = i * DISIZE)"
  by (induction ks) (auto simp: slots_from_def)

lemma table_slots_iff: "(b, off) \<in> set (table_slots v) \<longleftrightarrow> b \<in> table_blocks v \<and> (\<exists>i<INOSPERPAGE. off = i * DISIZE)"
proof -
  have "(\<exists>k\<in>set [0..<n]. b = s + k) \<longleftrightarrow> s \<le> b \<and> b < s + n" for s n
    by (auto intro: bexI [of _ "b - s"])
  then show ?thesis unfolding table_slots_def slots_from_iff table_blocks_def by blast
qed

lemma find_in_page_find:
  assumes "length data = BLOCK_SIZE" "list_all (\<lambda>i. i < INOSPERPAGE) is"
  shows "find_in_page data fs num is =
    Ok (map_option (\<lambda>i. i * DISIZE) (find (\<lambda>i. key_of (slice (i * DISIZE) (i * DISIZE + DISIZE) data) = (fs, num)) is))"
  using assms(2)
proof (induction "is")
  case (Cons i "is")
  then have "i * DISIZE + DISIZE \<le> length data" using assms(1) by (simp add: INOSPERPAGE_def DISIZE_def block_size_defs)
  then show ?case using Cons by (simp add: slice_res_def key_of_def)
qed simp

lemma find_map: "find P (map f xs) = map_option f (find (\<lambda>x. P (f x)) xs)"
  by (induction xs) auto

lemma find_append: "find P (xs @ ys) = (case find P xs of Some x \<Rightarrow> Some x | None \<Rightarrow> find P ys)"
  by (induction xs) auto

lemma scan_table_find:
  assumes "\<And>k. k \<in> set ks \<Longrightarrow> start + k < agg \<Longrightarrow> \<exists>d. rd (start + k) = Ok d \<and> length d = BLOCK_SIZE"
  shows "scan_table rd start agg fs num ks =
    (case find (\<lambda>s. slot_key rd s = (fs, num)) (slots_from start agg ks) of
       Some s \<Rightarrow> Ok s | None \<Rightarrow> Err (Other ''inode not found in inode table''))"
  using assms
proof (induction ks)
  case (Cons k ks)
  have IH: "scan_table rd start agg fs num ks = (case find (\<lambda>s. slot_key rd s = (fs, num)) (slots_from start agg ks) of
       Some s \<Rightarrow> Ok s | None \<Rightarrow> Err (Other ''inode not found in inode table''))"
    using Cons.prems by (intro Cons.IH) simp
  show ?case
  proof (cases "agg \<le> start + k")
    case True
    then show ?thesis using IH by (simp add: slots_from_def)
  next
    case False
    then obtain d where d: "rd (start + k) = Ok d" "length d = BLOCK_SIZE" using Cons.prems by fastforce
    have "slots_from start agg (k # ks) = map (\<lambda>i. (start + k, i * DISIZE)) [0..<INOSPERPAGE] @ slots_from start agg ks"
      using False by (simp add: slots_from_def)
    moreover have "slot_key rd (start + k, i * DISIZE) = key_of (slice (i * DISIZE) (i * DISIZE + DISIZE) d)" for i
      using d(1) by (simp add: slot_key_def slot_bytes_def)
    ultimately show ?thesis using False d IH find_in_page_find [OF d(2), of "[0..<INOSPERPAGE]" fs num]
      by (cases "find (\<lambda>i. key_of (slice (i * DISIZE) (i * DISIZE + DISIZE) d) = (fs, num)) [0..<INOSPERPAGE]")
        (simp_all add: list_all_iff find_append find_map)
  qed
qed (simp add: slots_from_def)

lemma scan_volume_find:
  assumes "table_ok rd v"
  shows "scan_volume rd v ino = (case find (\<lambda>s. slot_key rd s = inode_key ino) (table_slots v) of
       Some s \<Rightarrow> Ok s | None \<Rightarrow> Err (Other ''inode not found in inode table''))"
  using assms scan_table_find [of "[0..<max_scan v]" _ _ rd "fst (inode_key ino)" "snd (inode_key ino)"]
  by (auto simp: scan_volume_def table_slots_def table_ok_def table_blocks_def)

text \<open>One element of a list gets a new answer.\<close>

lemma find_keep:
  assumes "find P xs = Some x" "x \<noteq> y" "\<And>z. z \<in> set xs \<Longrightarrow> z \<noteq> y \<Longrightarrow> Q z = P z" "\<not> Q y"
  shows "find Q xs = Some x"
  using assms(1,3)
proof (induction xs)
  case (Cons a xs)
  then show ?case using assms(2,4) by (cases "a = y") (auto split: if_splits)
qed simp

lemma find_new:
  assumes "find P xs = None \<or> find P xs = Some y" "\<And>z. z \<in> set xs \<Longrightarrow> z \<noteq> y \<Longrightarrow> Q z = P z" "Q y" "y \<in> set xs"
  shows "find Q xs = Some y"
  using assms(1,2,4)
proof (induction xs)
  case (Cons a xs)
  then show ?case using assms(3) by (cases "a = y") (auto split: if_splits)
qed simp

text \<open>What the search and the parser make of the blocks.\<close>

definition inode_at :: "(nat \<Rightarrow> bytes res) \<Rightarrow> 'c volume \<Rightarrow> 32 word \<Rightarrow> inode res" where
  "inode_at rd v ino =
     res_bind (scan_volume rd v ino) (\<lambda>s.
     res_bind (parse_dinode (slot_bytes rd s)) (\<lambda>d.
       Ok \<lparr>i_dinode = d, i_ino = ino, i_page_block = fst s, i_page_offset = snd s\<rparr>))"

lemma slot_fits: "table_ok rd v \<Longrightarrow> s \<in> set (table_slots v) \<Longrightarrow>
  \<exists>d i. rd (fst s) = Ok d \<and> length d = BLOCK_SIZE \<and> snd s = i * DISIZE \<and> snd s + DISIZE \<le> length d"
  by (cases s) (auto simp: table_slots_iff table_ok_def INOSPERPAGE_def DISIZE_def block_size_defs)

lemma inode_at_Ok:
  assumes "table_ok rd v" "inode_at rd v ino = Ok i"
  shows "find (\<lambda>s. slot_key rd s = inode_key ino) (table_slots v) = Some (i_page_block i, i_page_offset i) \<and>
    (i_page_block i, i_page_offset i) \<in> set (table_slots v) \<and>
    parse_dinode (slot_bytes rd (i_page_block i, i_page_offset i)) = Ok (i_dinode i) \<and> i_ino i = ino"
  using assms
  by (auto simp: inode_at_def res_bind_Ok_iff scan_volume_find find_Some_iff split: option.splits)

lemma inode_at_intro:
  assumes "table_ok rd v" "find (\<lambda>s. slot_key rd s = inode_key ino) (table_slots v) = Some s" "parse_dinode (slot_bytes rd s) = Ok d"
  shows "inode_at rd v ino = Ok \<lparr>i_dinode = d, i_ino = ino, i_page_block = fst s, i_page_offset = snd s\<rparr>"
  using assms by (simp add: inode_at_def scan_volume_find)

lemma inode_at_agree:
  assumes "table_slots v' = table_slots v" "table_ok rd' v'" "table_ok rd v" "\<And>b. b \<in> table_blocks v \<Longrightarrow> rd' b = rd b"
  shows "inode_at rd' v' ino = inode_at rd v ino"
proof -
  have eq: "slot_bytes rd' s = slot_bytes rd s" if "s \<in> set (table_slots v)" for s
    using that assms(4) [of "fst s"] table_slots_iff [of "fst s" "snd s" v] by (simp add: slot_bytes_def)
  then have "find (\<lambda>s. slot_key rd' s = inode_key ino) (table_slots v) = find (\<lambda>s. slot_key rd s = inode_key ino) (table_slots v)"
    by (intro find_cong refl) (simp add: slot_key_def)
  then show ?thesis
    using assms(1-3) eq by (auto simp: inode_at_def scan_volume_find split: option.split dest: find_SomeD)
qed

text \<open>Writing the inode \<open>d'\<close> into a slot.\<close>

definition put_slot :: "nat \<times> nat \<Rightarrow> bytes \<Rightarrow> (nat \<Rightarrow> bytes res) \<Rightarrow> nat \<Rightarrow> bytes res" where
  "put_slot s d' rd = (case rd (fst s) of Ok d \<Rightarrow> rd(fst s := Ok (splice (snd s) d' d)) | _ \<Rightarrow> rd)"

lemma put_slot_bytes:
  assumes "table_ok rd v" "s \<in> set (table_slots v)" "z \<in> set (table_slots v)" "length d' = DISIZE"
  shows "slot_bytes (put_slot s d' rd) z = (if z = s then d' else slot_bytes rd z)" "table_ok (put_slot s d' rd) v"
proof -
  obtain d i where s: "rd (fst s) = Ok d" "length d = BLOCK_SIZE" "snd s = i * DISIZE" "snd s + DISIZE \<le> length d"
    using slot_fits [OF assms(1,2)] by blast
  obtain j where z: "snd z = j * DISIZE" using slot_fits [OF assms(1,3)] by blast
  show "table_ok (put_slot s d' rd) v" using assms(1,4) s by (auto simp: table_ok_def put_slot_def)
  show "slot_bytes (put_slot s d' rd) z = (if z = s then d' else slot_bytes rd z)"
  proof (cases "fst z = fst s")
    case False
    then show ?thesis using s(1) by (auto simp: slot_bytes_def put_slot_def)
  next
    case True
    then show ?thesis using s assms(4) slot_other [OF s(3) z _ s(4) assms(4)]
      by (cases "snd z = snd s") (auto simp: slot_bytes_def put_slot_def slice_simps prod_eq_iff)
  qed
qed

lemma put_slot_other:
  assumes "table_ok rd v" "s \<in> set (table_slots v)" "length d' = DISIZE" "inode_at rd v j = Ok i" "(i_page_block i, i_page_offset i) \<noteq> s"
    "key_of d' \<noteq> inode_key j \<or> key_of d' = slot_key rd s"
  shows "inode_at (put_slot s d' rd) v j = Ok i"
proof -
  let ?z = "(i_page_block i, i_page_offset i)"
  from inode_at_Ok [OF assms(1,4)] have z: "find (\<lambda>s. slot_key rd s = inode_key j) (table_slots v) = Some ?z"
    "?z \<in> set (table_slots v)" "parse_dinode (slot_bytes rd ?z) = Ok (i_dinode i)" "i_ino i = j" by auto
  note b = put_slot_bytes [OF assms(1,2) _ assms(3)]
  have same: "slot_key (put_slot s d' rd) x = slot_key rd x" if "x \<in> set (table_slots v)" "x \<noteq> s" for x
    using b(1) [OF that(1)] that(2) by (simp add: slot_key_def)
  have new: "slot_key (put_slot s d' rd) s = key_of d'" using b(1) [OF assms(2)] by (simp add: slot_key_def)
  have "find (\<lambda>x. slot_key (put_slot s d' rd) x = inode_key j) (table_slots v) = Some ?z"
  proof (cases "key_of d' = inode_key j")
    case False
    then show ?thesis using same new by (intro find_keep [OF z(1) assms(5)]) simp_all
  next
    case True
    then have "find (\<lambda>x. slot_key (put_slot s d' rd) x = inode_key j) (table_slots v) = find (\<lambda>x. slot_key rd x = inode_key j) (table_slots v)"
      using assms(6) same new by (intro find_cong refl) metis
    then show ?thesis using z(1) by simp
  qed
  from inode_at_intro [OF b(2) this] b(1) [OF z(2)] z(3,4) assms(2,5) show ?thesis by simp
qed

lemma put_slot_new:
  assumes "table_ok rd v" "s \<in> set (table_slots v)" "length d' = DISIZE" "parse_dinode d' = Ok di" "key_of d' = inode_key j"
    "\<And>i. inode_at rd v j = Ok i \<Longrightarrow> (i_page_block i, i_page_offset i) = s"
  shows "inode_at (put_slot s d' rd) v j = Ok \<lparr>i_dinode = di, i_ino = j, i_page_block = fst s, i_page_offset = snd s\<rparr>"
proof -
  note b = put_slot_bytes [OF assms(1,2) _ assms(3)]
  have "find (\<lambda>x. slot_key rd x = inode_key j) (table_slots v) = None \<or> find (\<lambda>x. slot_key rd x = inode_key j) (table_slots v) = Some s"
  proof (cases "find (\<lambda>x. slot_key rd x = inode_key j) (table_slots v)")
    case (Some z)
    then have "z \<in> set (table_slots v)" by (auto simp: find_Some_iff)
    from slot_fits [OF assms(1) this] have "length (slot_bytes rd z) = DISIZE" by (auto simp: slot_bytes_def)
    then obtain dz where "parse_dinode (slot_bytes rd z) = Ok dz" by (auto simp: parse_dinode_def dinode_parse_def DISIZE_def)
    from assms(6) [OF inode_at_intro [OF assms(1) Some this]] show ?thesis using Some by simp
  qed simp
  then have "find (\<lambda>x. slot_key (put_slot s d' rd) x = inode_key j) (table_slots v) = Some s"
    by (rule find_new) (use b(1) assms(2,5) in \<open>simp_all add: slot_key_def\<close>)
  from inode_at_intro [OF b(2) this] b(1) [OF assms(2)] assms(2,4) show ?thesis by simp
qed

text \<open>A copy of a block with the keys that the blocks \<open>rd\<close> have.\<close>

definition page_like :: "(nat \<Rightarrow> bytes res) \<Rightarrow> 'c volume \<Rightarrow> nat \<Rightarrow> bytes \<Rightarrow> bool" where
  "page_like rd v b d \<longleftrightarrow> (b \<in> table_blocks v \<longrightarrow> length d = BLOCK_SIZE) \<and>
     (\<forall>off. (b, off) \<in> set (table_slots v) \<longrightarrow> key_of (slice off (off + DISIZE) d) = slot_key rd (b, off))"

lemma page_like_same: "table_ok rd v \<Longrightarrow> rd b = Ok d \<Longrightarrow> page_like rd v b d"
  by (auto simp: page_like_def table_ok_def slot_key_def slot_bytes_def)

lemma page_like_put:
  assumes "table_ok rd v" "(b, off) \<in> set (table_slots v)" "length d' = DISIZE" "key_of d' = slot_key rd (b, off)" "put_slot (b, off) d' rd b = Ok d"
  shows "page_like rd v b d"
proof -
  note s = put_slot_bytes [OF assms(1,2) _ assms(3)]
  have "page_like (put_slot (b, off) d' rd) v b d" using page_like_same [OF s(2) [OF assms(2)] assms(5)] .
  moreover have "slot_key (put_slot (b, off) d' rd) z = slot_key rd z" if "z \<in> set (table_slots v)" for z
    using s(1) [OF that] assms(4) by (simp add: slot_key_def)
  ultimately show ?thesis by (simp add: page_like_def)
qed

lemma put_slot_same:
  assumes "table_ok rd v" "inode_at rd v j = Ok i" "length d' = DISIZE" "key_of d' = slot_key rd (i_page_block i, i_page_offset i)"
    "parse_dinode d' = Ok di"
  shows "inode_at (put_slot (i_page_block i, i_page_offset i) d' rd) v j = Ok (i\<lparr>i_dinode := di\<rparr>)"
proof -
  let ?s = "(i_page_block i, i_page_offset i)"
  from inode_at_Ok [OF assms(1,2)] have s: "find (\<lambda>s. slot_key rd s = inode_key j) (table_slots v) = Some ?s"
    "?s \<in> set (table_slots v)" "i_ino i = j" by auto
  have "key_of d' = inode_key j" using find_SomeD [OF s(1)] assms(4) by simp
  from put_slot_new [OF assms(1) s(2) assms(3,5) this] assms(2) s(3) show ?thesis by (cases i) simp
qed

section \<open>Reading while pages are cached\<close>

text \<open>A block as the search of the table sees it: from any page that caches it, else from the device.\<close>

definition vol_page :: "'c env \<Rightarrow> 'c volume \<Rightarrow> nat \<Rightarrow> bytes res" where
  "vol_page E v b = (case cache_peek_block (e_lru E) (v_cache v) b of Some p \<Rightarrow> Ok (cp_data p) | None \<Rightarrow> peek_block (v_storage v) b)"

lemma find_in_blocks_view:
  assumes "st_ok (v_storage v)"
  shows "find_in_blocks E fs num ks v =
    (scan_table (vol_page E v) (unat (pxd_address (s_ait2 (v_sb v)))) (v_agg_size v) fs num ks, v)"
proof (induction ks)
  case (Cons k ks)
  let ?b = "unat (pxd_address (s_ait2 (v_sb v))) + k"
  have t: "table_page E ?b v = (vol_page E v ?b, v)"
    using assms by (simp add: read_page_ok table_page_def vol_page_def split: option.split)
  show ?case
  proof (cases "v_agg_size v \<le> ?b")
    case False
    show ?thesis
    proof (cases "vol_page E v ?b")
      case (Ok d)
      then show ?thesis using False t Cons.IH
        by (cases "find_in_page d fs num [0..<INOSPERPAGE]") (auto split: option.splits)
    qed (use False t in simp_all)
  qed (use Cons.IH in simp)
qed simp

text \<open>
  The search gives the slot that the blocks \<open>rd\<close> have when the cached copies have the same keys; the inode comes from
  the page cached under its own number, else from the device.
\<close>

lemma inode_read_view:
  assumes "st_ok (v_storage v)" "table_ok rd v" "table_ok (vol_page E v) v"
    "\<And>s. s \<in> set (table_slots v) \<Longrightarrow> slot_key (vol_page E v) s = slot_key rd s" "inode_at rd v ino = Ok i"
    "(case cache_peek (e_lru E) (v_cache v) ino (i_page_block i) of Some p \<Rightarrow> Ok (cp_data p)
      | None \<Rightarrow> peek_block (v_storage v) (i_page_block i)) = Ok data" "length data = BLOCK_SIZE"
    "parse_dinode (slice (i_page_offset i) (i_page_offset i + DISIZE) data) = Ok di"
  shows "inode_read E ino v = (Ok (i\<lparr>i_dinode := di\<rparr>), v)"
proof -
  let ?s = "(i_page_block i, i_page_offset i)"
  from inode_at_Ok [OF assms(2,5)] have s: "find (\<lambda>s. slot_key rd s = inode_key ino) (table_slots v) = Some ?s"
    "?s \<in> set (table_slots v)" "i_ino i = ino" by auto
  have "find (\<lambda>s. slot_key (vol_page E v) s = inode_key ino) (table_slots v) = Some ?s"
    using s(1) find_cong [OF refl, of "table_slots v" "\<lambda>s. slot_key (vol_page E v) s = inode_key ino" "\<lambda>s. slot_key rd s = inode_key ino"]
      assms(4) by simp
  then have f: "find_inode_page E ino v = (Ok ?s, v)"
    using scan_volume_find [OF assms(3), of ino] find_in_blocks_view [OF assms(1)] by (simp add: find_inode_page_def scan_volume_def)
  have r: "(case cache_peek (e_lru E) (v_cache v) ino (i_page_block i) of Some p \<Rightarrow> (Ok (cp_data p), v)
      | None \<Rightarrow> read_page (i_page_block i) v) = (Ok data, v)"
    using assms(1,6) by (auto simp: read_page_ok split: option.splits)
  have fit: "i_page_offset i + DISIZE \<le> length data" using slot_fits [OF assms(2) s(2)] assms(7) by auto
  have "inode_read E ino v = (Ok \<lparr>i_dinode = di, i_ino = ino, i_page_block = i_page_block i, i_page_offset = i_page_offset i\<rparr>, v)"
    using f r fit assms(8) by (simp add: inode_read_def slice_res_def)
  then show ?thesis using s(3) by (cases i) simp
qed

context library
begin

lemma inode_read_at: "quiet E valid v \<Longrightarrow> table_ok (peek_block (v_storage v)) v \<Longrightarrow> inode_read E ino v = (inode_at (peek_block (v_storage v)) v ino, v)"
proof -
  assume q: "quiet E valid v" "table_ok (peek_block (v_storage v)) v"
  show ?thesis
  proof (cases "find (\<lambda>s. slot_key (peek_block (v_storage v)) s = inode_key ino) (table_slots v)")
    case None
    then show ?thesis using inode_read_quiet [OF q(1), of ino] scan_volume_find [OF q(2), of ino] by (simp add: inode_at_def)
  next
    case (Some s)
    then have "s \<in> set (table_slots v)" by (auto simp: find_Some_iff)
    from slot_fits [OF q(2) this] obtain d where "peek_block (v_storage v) (fst s) = Ok d" "snd s + DISIZE \<le> length d" by blast
    with Some show ?thesis using inode_read_quiet [OF q(1), of ino] scan_volume_find [OF q(2), of ino]
      by (cases s) (simp add: inode_at_def slot_bytes_def slice_res_def)
  qed
qed

lemma peek_block_cached:
  assumes "valid (cache c)"
  shows "cache_peek_block (e_lru E) c b = Some p \<Longrightarrow> \<exists>j. lru_peek (e_lru E) (cache c) (j, b) = Some p"
    "cache_peek_block (e_lru E) c b = None \<Longrightarrow> lru_peek (e_lru E) (cache c) (j, b) = None"
proof -
  note it = iter_peek [OF assms]
  show "\<exists>j. lru_peek (e_lru E) (cache c) (j, b) = Some p" if pb: "cache_peek_block (e_lru E) c b = Some p"
  proof -
    from pb obtain k where "find (\<lambda>x. snd (fst x) = b) (lru_iter (e_lru E) (cache c)) = Some (k, p)" by (auto simp: cache_peek_block_def)
    from find_SomeD [OF this] have "(k, p) \<in> set (lru_iter (e_lru E) (cache c))" "snd k = b" by simp_all
    then show ?thesis using it by (cases k) auto
  qed
  show "lru_peek (e_lru E) (cache c) (j, b) = None" if "cache_peek_block (e_lru E) c b = None"
  proof (rule ccontr)
    assume "lru_peek (e_lru E) (cache c) (j, b) \<noteq> None"
    then obtain p where "((j, b), p) \<in> set (lru_iter (e_lru E) (cache c))" using it by auto
    then show False using that by (auto simp: cache_peek_block_def find_None_iff)
  qed
qed

lemma inode_read_cached:
  assumes "st_ok (v_storage v)" "table_ok rd v" "valid (cache (v_cache v))" "lru_peek (e_lru E) (cache (v_cache v)) = m"
    "\<And>j b p. m (j, b) = Some p \<Longrightarrow> page_like rd v b (cp_data p)" "\<And>b. (\<And>j. m (j, b) = None) \<Longrightarrow> rd b = peek_block (v_storage v) b"
    "inode_at rd v ino = Ok i"
    "(case m (ino, i_page_block i) of Some p \<Rightarrow> Ok (cp_data p) | None \<Rightarrow> peek_block (v_storage v) (i_page_block i)) = Ok data"
    "length data = BLOCK_SIZE" "parse_dinode (slice (i_page_offset i) (i_page_offset i + DISIZE) data) = Ok di"
  shows "inode_read E ino v = (Ok (i\<lparr>i_dinode := di\<rparr>), v)"
proof (rule inode_read_view [OF assms(1,2) _ _ assms(7) _ assms(9,10)])
  have vp: "(\<exists>d. vol_page E v b = Ok d \<and> page_like rd v b d) \<or> vol_page E v b = rd b" for b
  proof (cases "cache_peek_block (e_lru E) (v_cache v) b")
    case None
    then show ?thesis using peek_block_cached(2) [OF assms(3) None] assms(4,6) by (simp add: vol_page_def)
  next
    case (Some p)
    then show ?thesis using peek_block_cached(1) [OF assms(3) Some] assms(4,5) by (auto simp: vol_page_def)
  qed
  show "table_ok (vol_page E v) v"
    unfolding table_ok_def
  proof
    fix b assume "b \<in> table_blocks v"
    then show "\<exists>d. vol_page E v b = Ok d \<and> length d = BLOCK_SIZE" using vp [of b] assms(2) by (auto simp: table_ok_def page_like_def)
  qed
  show "slot_key (vol_page E v) s = slot_key rd s" if "s \<in> set (table_slots v)" for s
    using vp [of "fst s"] that by (cases s) (auto simp: slot_key_def slot_bytes_def page_like_def)
  show "(case cache_peek (e_lru E) (v_cache v) ino (i_page_block i) of Some p \<Rightarrow> Ok (cp_data p)
      | None \<Rightarrow> peek_block (v_storage v) (i_page_block i)) = Ok data" using assms(4,8) by (simp add: cache_peek_def)
qed

text \<open>Loading a page into a cache with room: a cached copy of the block is preferred to the device.\<close>

lemma update_inode_page_load:
  assumes "st_ok (v_storage v)" "valid (cache (v_cache v))" "lru_peek (e_lru E) (cache (v_cache v)) = m" "m (ino, b) = None"
    "lru_len (e_lru E) (cache (v_cache v)) < lru_cap (e_lru E) (cache (v_cache v))"
    "\<And>j p. m (j, b) = Some p \<Longrightarrow> cp_data p = data" "(\<And>j. m (j, b) = None) \<Longrightarrow> peek_block (v_storage v) b = Ok data"
    "off + DISIZE \<le> length data" "f (slice off (off + DISIZE) data) = Ok d'"
  shows "\<exists>c p. update_inode_page E ino b off f v = (Ok (), v\<lparr>v_cache := c\<rparr>) \<and> valid (cache c) \<and>
    lru_peek (e_lru E) (cache c) = m((ino, b) \<mapsto> p) \<and> cp_data p = splice off d' data"
proof -
  let ?L = "e_lru E" and ?c = "cache (v_cache v)"
  obtain r l where g: "lru_get ?L ?c (ino, b) = (r, l)" by fastforce
  from get_law [OF assms(2), of "(ino, b)"] g assms(3,4) have r: "r = None" "valid l" "lru_peek ?L l = m" "lru_cap ?L l = lru_cap ?L ?c" by auto
  have "dom (map_of (lru_iter ?L l)) = dom (map_of (lru_iter ?L ?c))" using view_law [OF assms(2)] view_law [OF r(2)] r(3) assms(3) by simp
  then have "fst ` set (lru_iter ?L l) = fst ` set (lru_iter ?L ?c)" by (simp add: dom_map_of_conv_image_fst)
  then have len: "lru_len ?L l = lru_len ?L ?c"
    using view_law [OF assms(2)] view_law [OF r(2)] distinct_card [of "map fst (lru_iter ?L l)"] distinct_card [of "map fst (lru_iter ?L ?c)"] by simp
  define page where "page = \<lparr>cp_block = b, cp_data = data, cp_dirty = False, cp_inode = Some ino, cp_index = 0,
    pin_count = 0, cp_txid = 0\<rparr>"
  define l1 where "l1 = lru_put ?L l (ino, b) page"
  have gl: "get_or_load ?L (v_cache v) (v_storage v) ino b 0 = (Ok page, (v_cache v)\<lparr>cache := l1\<rparr>, v_storage v)"
  proof (cases "find (\<lambda>x. snd (fst x) = b \<and> fst (fst x) \<noteq> ino) (lru_iter ?L l)")
    case None
    have "m (j, b) = None" for j
    proof (rule ccontr)
      assume "m (j, b) \<noteq> None"
      then obtain p where "((j, b), p) \<in> set (lru_iter ?L l)" using iter_peek [OF r(2)] r(3) by auto
      moreover from \<open>m (j, b) \<noteq> None\<close> have "j \<noteq> ino" using assms(4) by auto
      ultimately show False using None by (auto simp: find_None_iff)
    qed
    then show ?thesis using g r(1) None assms(1,7) by (simp add: get_or_load_def page_def l1_def Let_def)
  next
    case (Some x)
    then have "x \<in> set (lru_iter ?L l)" "snd (fst x) = b" by (auto simp: find_Some_iff)
    then have "cp_data (snd x) = data" using iter_peek [OF r(2), of "fst x" "snd x"] r(3) assms(6) [of "fst (fst x)" "snd x"] by (cases x) auto
    then show ?thesis using g r(1) Some by (simp add: get_or_load_def page_def l1_def Let_def)
  qed
  have l1: "valid l1" "lru_peek ?L l1 = m((ino, b) \<mapsto> page)"
    using put_law [OF r(2), of "(ino, b)" page] r(3,4) len assms(5) by (auto simp: l1_def)
  define l2 where "l2 = lru_get_mut ?L l1 (ino, b) (\<lambda>p. (cp_pin p)\<lparr>cp_data := splice off d' data\<rparr>)"
  have l2: "valid l2" "lru_peek ?L l2 = m((ino, b) \<mapsto> (cp_pin page)\<lparr>cp_data := splice off d' data\<rparr>)"
    using get_mut_law [OF l1(1), of "(ino, b)" "\<lambda>p. (cp_pin p)\<lparr>cp_data := splice off d' data\<rparr>"] l1(2)
    by (auto simp: l2_def)
  define l3 where "l3 = lru_get_mut ?L l2 (ino, b) cp_unpin"
  have l3: "valid l3" "lru_peek ?L l3 = m((ino, b) \<mapsto> cp_unpin ((cp_pin page)\<lparr>cp_data := splice off d' data\<rparr>))"
    using get_mut_law [OF l2(1), of "(ino, b)" cp_unpin] l2(2) by (auto simp: l3_def)
  have "update_inode_page E ino b off f v = (Ok (), v\<lparr>v_cache := (v_cache v)\<lparr>cache := l3\<rparr>\<rparr>)"
    using l1 assms(8,9)
    by (simp add: update_inode_page_def gl cache_peek_def edit_dinode_def page_def get_mut_for_write_def unpin_page_def
        l3_def l2_def)
  with l3 show ?thesis by (intro exI [of _ "(v_cache v)\<lparr>cache := l3\<rparr>"]) (auto simp: cp_unpin_def cp_pin_def)
qed

text \<open>Marking a cached page dirty.\<close>

lemma mark_page_dirty_cached:
  assumes "valid (cache (v_cache v))" "lru_peek (e_lru E) (cache (v_cache v)) = m" "m (ino, b) = Some p"
    "active (v_tx v) = Some a" "(ino, b) \<notin> set (at_dirty_pages a)"
  shows "\<exists>c q. mark_page_dirty E ino b v =
      (Ok (), v\<lparr>v_tx := (v_tx v)\<lparr>active := Some (a\<lparr>at_dirty_pages := at_dirty_pages a @ [(ino, b)]\<rparr>)\<rparr>, v_cache := c\<rparr>) \<and>
    valid (cache c) \<and> lru_peek (e_lru E) (cache c) = m((ino, b) \<mapsto> q) \<and> cp_data q = cp_data p"
proof -
  define c where "c = (v_cache v)\<lparr>cache := lru_get_mut (e_lru E) (cache (v_cache v)) (ino, b) (cp_mark_dirty_txn (at_txid a))\<rparr>"
  have "mark_page_dirty E ino b v =
      (Ok (), v\<lparr>v_tx := (v_tx v)\<lparr>active := Some (a\<lparr>at_dirty_pages := at_dirty_pages a @ [(ino, b)]\<rparr>)\<rparr>, v_cache := c\<rparr>)"
    using assms(4,5) by (simp add: mark_page_dirty_def tx_mark_dirty_def cache_mark_dirty_txn_def c_def)
  moreover have "valid (cache c)" "lru_peek (e_lru E) (cache c) = m((ino, b) \<mapsto> cp_mark_dirty_txn (at_txid a) p)"
    using get_mut_law [OF assms(1), of "(ino, b)" "cp_mark_dirty_txn (at_txid a)"] assms(2,3) by (auto simp: c_def)
  moreover have "cp_data (cp_mark_dirty_txn (at_txid a) p) = cp_data p" by (simp add: cp_mark_dirty_txn_def)
  ultimately show ?thesis by blast
qed

end

end
