(* ===== verification/Volume_Create.thy ===== *)
theory Volume_Create
  imports Volume_Dir Inode_Table
begin

text \<open>
  Creating a file or a symbolic link, from the free inode to the committed directory entry. The page of the new inode and
  the page of its directory are two pages of the cache even when they are the same block of the
  table; the second is then loaded from the first and written after it.
\<close>

section \<open>The bytes of a new inode and of a directory\<close>

definition created :: "32 word \<Rightarrow> nat \<Rightarrow> 32 word \<Rightarrow> 32 word \<Rightarrow> dinode \<Rightarrow> dinode" where
  "created m sz links child di = di\<lparr>di_fileset := write_u32 (word_of_nat FILESYSTEM_I), di_number := write_u32 (child - word_of_nat FILESYSTEM_I),
     di_size := write_u64 (word_of_nat sz), di_nblocks := write_u64 0, di_nlink := write_u32 links, di_mode := write_u32 m\<rparr>"

lemma put_key_fields:
  assumes "length d = DISIZE" "dinode_parse d = Inr di"
  shows "dinode_parse (put_u32 4 w d) = Inr (di\<lparr>di_fileset := write_u32 w\<rparr>)"
    "dinode_parse (put_u32 8 w d) = Inr (di\<lparr>di_number := write_u32 w\<rparr>)"
  using assms
  by (simp_all add: dinode_parse_def parse_timestruc_def parse_dxd_def put_u32_def DISIZE_def
      slice_splice_other slice_splice_same' nth_splice del: slice_splice_same, auto simp: slice_splice_other slice_splice_same')

lemma init_inode_parse:
  assumes "length d = DISIZE" "dinode_parse d = Inr di"
  shows "length (init_inode m sz links child d) = DISIZE"
    "dinode_parse (init_inode m sz links child d) = Inr (created m sz links child di)"
    "key_of (init_inode m sz links child d) = (word_of_nat FILESYSTEM_I, child - word_of_nat FILESYSTEM_I)"
proof -
  define d1 where "d1 = put_u32 52 m d"
  define d2 where "d2 = put_u64 24 sz d1"
  define d3 where "d3 = put_u64 32 0 d2"
  define d4 where "d4 = put_u32 40 links d3"
  define d5 where "d5 = put_u32 4 (word_of_nat FILESYSTEM_I) d4"
  note ds = d1_def d2_def d3_def d4_def d5_def
  have e: "init_inode m sz links child d = put_u32 8 (child - word_of_nat FILESYSTEM_I) d5" by (simp add: init_inode_def ds)
  have l: "length d1 = DISIZE" "length d2 = DISIZE" "length d3 = DISIZE" "length d4 = DISIZE" "length d5 = DISIZE"
    using assms(1) by (simp_all add: ds DISIZE_def)
  show "length (init_inode m sz links child d) = DISIZE" using l(5) by (simp add: e DISIZE_def)
  have "dinode_parse d1 = Inr (di\<lparr>di_mode := write_u32 m\<rparr>)" unfolding d1_def by (rule put_fields(4) [OF assms])
  note p2 = put_fields(9) [OF l(1) this, of sz, folded d2_def]
  note p3 = put_fields(10) [OF l(2) p2, of 0, folded d3_def]
  note p4 = put_fields(1) [OF l(3) p3, of links, folded d4_def]
  note p5 = put_key_fields(1) [OF l(4) p4, of "word_of_nat FILESYSTEM_I", folded d5_def]
  note p6 = put_key_fields(2) [OF l(5) p5, of "child - word_of_nat FILESYSTEM_I", folded e]
  from p6 show "dinode_parse (init_inode m sz links child d) = Inr (created m sz links child di)" by (simp add: created_def)
  have "slice 4 8 (put_u32 8 w d5) = list_of_arr4 (write_u32 (word_of_nat FILESYSTEM_I))"
    "slice 8 12 (put_u32 8 w d5) = list_of_arr4 (write_u32 w)" for w
    using l(4,5) by (simp_all add: put_u32_def d5_def DISIZE_def slice_splice_other slice_splice_same')
  then show "key_of (init_inode m sz links child d) = (word_of_nat FILESYSTEM_I, child - word_of_nat FILESYSTEM_I)"
    by (simp add: e key_of_def)
qed

definition with_root :: "bytes \<Rightarrow> dinode \<Rightarrow> dinode" where
  "with_root r di = di\<lparr>di_u := take 96 (di_u di) @ r\<rparr>"

lemma put_root_parse:
  assumes "length d = DISIZE" "dinode_parse d = Inr di" "length r = 288"
  shows "\<exists>d'. put_root r d = Ok d' \<and> length d' = DISIZE \<and> key_of d' = key_of d \<and> dinode_parse d' = Inr (with_root r di)"
    "dtroot_bytes (with_root r di) = r"
proof -
  let ?d = "splice 224 r d"
  have u: "di_u di = slice 128 512 d" using assms(1,2) by (auto simp: dinode_parse_def DISIZE_def)
  have "slice 128 512 ?d = take 96 (di_u di) @ r" using assms(1,3) u by (simp add: splice_def slice_def DISIZE_def min_def drop_take)
  moreover have "slice a b ?d = slice a b d" if "b \<le> 224" for a b
    using assms(1,3) that by (intro slice_splice_other) (simp_all add: DISIZE_def)
  moreover have "?d ! k = d ! k" if "k < 224" for k using assms(1,3) that by (simp add: nth_splice DISIZE_def)
  ultimately have "dinode_parse ?d = Inr (with_root r di)" "key_of ?d = key_of d"
    using assms by (auto simp: dinode_parse_def parse_timestruc_def parse_dxd_def DISIZE_def with_root_def key_of_def)
  then show "\<exists>d'. put_root r d = Ok d' \<and> length d' = DISIZE \<and> key_of d' = key_of d \<and> dinode_parse d' = Inr (with_root r di)"
    using assms(1,3) by (intro exI [of _ ?d]) (simp add: put_root_def DISIZE_def)
  show "dtroot_bytes (with_root r di) = r" using u assms(1) by (simp add: dtroot_bytes_def with_root_def DISIZE_def)
qed

section \<open>The free inode\<close>

lemma free_slot_Some:
  "free_slot data off0 is = Some (ino, off) \<Longrightarrow> \<exists>i\<in>set is. off = i * DISIZE \<and> off + DISIZE \<le> length data \<and>
     get_u32 (off + 52) data = 0 \<and> ino = word_of_nat FILESYSTEM_I + word_of_nat (off0 * INOSPERPAGE + i)"
  by (induction "is") (auto simp: Let_def split: if_splits)

context library
begin

lemma free_in_blocks_tx:
  assumes "quiet E valid v"
  shows "free_in_blocks E ks (v\<lparr>v_tx := tm\<rparr>) =
    (fst (free_in_blocks E ks v), v\<lparr>v_tx := case fst (free_in_blocks E ks v) of Ok (_, b, _) \<Rightarrow> snd (record_allocation tm b) | _ \<Rightarrow> tm\<rparr>)"
proof (induction ks)
  case (Cons k ks)
  let ?b = "unat (pxd_address (s_ait2 (v_sb v))) + k" and ?w = "v\<lparr>v_tx := tm\<rparr>"
  have t: "table_page E ?b v = (peek_block (v_storage v) ?b, v)" "table_page E ?b ?w = (peek_block (v_storage v) ?b, ?w)"
    using assms by (simp_all add: read_page_ok table_page_def cache_peek_block_def quiet_def)
  show ?case
  proof (cases "v_agg_size v \<le> ?b")
    case False
    show ?thesis
    proof (cases "peek_block (v_storage v) ?b")
      case (Ok d)
      then show ?thesis using False t Cons.IH by (auto simp: Let_def split: option.splits prod.splits)
    qed (use False t in simp_all)
  qed (use Cons.IH in simp)
qed simp

lemma free_in_blocks_slot:
  assumes "quiet E valid v" "fst (free_in_blocks E ks v) = Ok (child, b, off)"
  shows "\<exists>k\<in>set ks. b = unat (pxd_address (s_ait2 (v_sb v))) + k \<and> b < v_agg_size v \<and>
    (\<exists>d i. peek_block (v_storage v) b = Ok d \<and> i < INOSPERPAGE \<and> off = i * DISIZE \<and> off + DISIZE \<le> length d \<and> get_u32 (off + 52) d = 0 \<and>
       child = word_of_nat FILESYSTEM_I + word_of_nat (k * INOSPERPAGE + i))"
  using assms(2)
proof (induction ks)
  case (Cons k ks)
  let ?b = "unat (pxd_address (s_ait2 (v_sb v))) + k"
  have t: "table_page E ?b v = (peek_block (v_storage v) ?b, v)"
    using assms(1) by (simp add: read_page_ok table_page_def cache_peek_block_def quiet_def)
  show ?case
  proof (cases "v_agg_size v \<le> ?b")
    case False
    show ?thesis
    proof (cases "peek_block (v_storage v) ?b")
      case (Ok d)
      show ?thesis
      proof (cases "free_slot d k [0..<INOSPERPAGE]")
        case None
        then show ?thesis using False Ok t Cons by auto
      next
        case (Some x)
        then have "x = (child, off)" "b = ?b" using False Ok t Cons.prems by (auto simp: Let_def split: prod.splits)
        with free_slot_Some [of d k "[0..<INOSPERPAGE]" child off] Some show ?thesis using False Ok by auto
      qed
    qed (use False t Cons.prems in simp_all)
  qed (use Cons in auto)
qed simp

end

lemma max_scan_bound: "max_scan v < 2 ^ 24 + 32"
  using pxd_length_bound [of "s_ait2 (v_sb v)"] by (simp add: max_scan_def)

section \<open>The transaction\<close>

lemma same_table [simp]:
  "table_slots (v\<lparr>v_tx := tm, v_cache := c\<rparr>) = table_slots v" "table_ok rd (v\<lparr>v_tx := tm, v_cache := c\<rparr>) = table_ok rd v"
  "inode_at rd (v\<lparr>v_tx := tm, v_cache := c\<rparr>) = inode_at rd v"
  by (simp_all add: table_slots_def max_scan_def table_ok_def table_blocks_def inode_at_def scan_volume_def fun_eq_iff)

text \<open>
  The last step of a creation: it touches the cached page of the directory, marks it dirty and changes the directory by \<open>h\<close>.
\<close>

definition touches :: "'c env \<Rightarrow> ('c \<Rightarrow> bool) \<Rightarrow> 32 word \<Rightarrow> inode \<Rightarrow> ('c volume \<Rightarrow> unit res \<times> 'c volume) \<Rightarrow> (dinode \<Rightarrow> dinode) \<Rightarrow> bool" where
  "touches E valid parent p touch h \<longleftrightarrow> (\<forall>v a m r dp.
     inode_read E parent v = (Ok (p\<lparr>i_dinode := dp\<rparr>), v) \<and> active (v_tx v) = Some a \<and> (parent, i_page_block p) \<notin> set (at_dirty_pages a) \<and>
     valid (cache (v_cache v)) \<and> lru_peek (e_lru E) (cache (v_cache v)) = m \<and> m (parent, i_page_block p) = Some r \<and>
     i_page_offset p + DISIZE \<le> length (cp_data r) \<and>
     dinode_parse (slice (i_page_offset p) (i_page_offset p + DISIZE) (cp_data r)) = Inr dp \<and> nlink dp = nlink (i_dinode p) \<longrightarrow>
     (\<exists>c q d. touch v =
        (Ok (), v\<lparr>v_tx := (v_tx v)\<lparr>active := Some (a\<lparr>at_dirty_pages := at_dirty_pages a @ [(parent, i_page_block p)]\<rparr>)\<rparr>, v_cache := c\<rparr>) \<and>
      valid (cache c) \<and> lru_peek (e_lru E) (cache c) = m((parent, i_page_block p) \<mapsto> q) \<and>
      cp_data q = splice (i_page_offset p) d (cp_data r) \<and> length d = DISIZE \<and>
      key_of d = key_of (slice (i_page_offset p) (i_page_offset p + DISIZE) (cp_data r)) \<and> dinode_parse d = Inr (h dp)))"

lemma touchesD:
  assumes "touches E valid parent p touch h" "inode_read E parent v = (Ok (p\<lparr>i_dinode := dp\<rparr>), v)" "active (v_tx v) = Some a"
    "(parent, i_page_block p) \<notin> set (at_dirty_pages a)" "valid (cache (v_cache v))" "lru_peek (e_lru E) (cache (v_cache v)) = m"
    "m (parent, i_page_block p) = Some r" "i_page_offset p + DISIZE \<le> length (cp_data r)"
    "slice (i_page_offset p) (i_page_offset p + DISIZE) (cp_data r) = d2" "dinode_parse d2 = Inr dp" "nlink dp = nlink (i_dinode p)"
  shows "\<exists>c q d. touch v =
      (Ok (), v\<lparr>v_tx := (v_tx v)\<lparr>active := Some (a\<lparr>at_dirty_pages := at_dirty_pages a @ [(parent, i_page_block p)]\<rparr>)\<rparr>, v_cache := c\<rparr>) \<and>
    valid (cache c) \<and> lru_peek (e_lru E) (cache c) = m((parent, i_page_block p) \<mapsto> q) \<and>
    cp_data q = splice (i_page_offset p) d (cp_data r) \<and> length d = DISIZE \<and> key_of d = key_of d2 \<and> dinode_parse d = Inr (h dp)"
  using assms(1) [unfolded touches_def, rule_format, of v dp a m r] assms(2-11) by simp

text \<open>The table after a creation: the slot \<open>c\<close> got the key of the child, the slot \<open>s\<close> kept its key, and all others kept their bytes.\<close>

definition table_step :: "nat \<times> nat \<Rightarrow> 32 word \<Rightarrow> nat \<times> nat \<Rightarrow> 'c volume \<Rightarrow> 'c volume \<Rightarrow> bool" where
  "table_step c child s v v' \<longleftrightarrow> v_sb v' = v_sb v \<and> v_agg_size v' = v_agg_size v \<and> v_open_handles v' = v_open_handles v \<and>
     slot_key (peek_block (v_storage v')) c = inode_key child \<and>
     slot_key (peek_block (v_storage v')) s = slot_key (peek_block (v_storage v)) s \<and>
     (\<forall>z\<in>set (table_slots v) - {c, s}. slot_bytes (peek_block (v_storage v')) z = slot_bytes (peek_block (v_storage v)) z)"

text \<open>The entry is added at the end of the root.\<close>

definition added :: "bytes \<Rightarrow> ucs2 \<Rightarrow> 32 word \<Rightarrow> bytes \<Rightarrow> bool" where
  "added r name child dt \<longleftrightarrow> dt_wf dt \<and> (packed r \<longrightarrow> packed dt) \<and>
     entry_list dt = entry_list r @ [\<lparr>de_inumber = child, de_name = name, de_index = word_of_nat (length (entry_list r))\<rparr>]"

text \<open>The directory that takes the entry: readable, with room and without a free list.\<close>

definition accepts :: "bytes \<Rightarrow> ucs2 \<Rightarrow> bool" where
  "accepts dt name \<longleftrightarrow> dt_wf dt \<and> no_free_list dt \<and> dt_next_index dt < 8 \<and> next_slot dt \<notin> set (stbl dt) \<and>
     name \<notin> de_name ` set (entry_list dt)"

context library
begin

lemma inode_read_one_page:
  assumes "st_ok (v_storage v)" "table_ok (peek_block (v_storage v)) v" "inode_at (peek_block (v_storage v)) v parent = Ok p"
    and c: "valid (cache c)" "lru_peek (e_lru E) (cache c) = [(child, fst s) \<mapsto> q]"
      "put_slot s d' (peek_block (v_storage v)) (fst s) = Ok (cp_data q)"
    and s: "s \<in> set (table_slots v)" "length d' = DISIZE" "(i_page_block p, i_page_offset p) \<noteq> s" "key_of d' \<noteq> inode_key parent"
      "child \<noteq> parent"
  shows "inode_read E parent (v\<lparr>v_tx := tm, v_cache := c\<rparr>) = (Ok p, v\<lparr>v_tx := tm, v_cache := c\<rparr>)"
proof -
  let ?rd = "peek_block (v_storage v)" and ?w = "v\<lparr>v_tx := tm, v_cache := c\<rparr>"
  let ?rd1 = "put_slot s d' ?rd"
  have out: "?rd1 b = ?rd b" if "b \<noteq> fst s" for b using that by (auto simp: put_slot_def split: res.split)
  have t1: "table_ok ?rd1 v" using put_slot_bytes(2) [OF assms(2) s(1) s(1) s(2)] .
  have at: "inode_at ?rd1 v parent = Ok p" using put_slot_other [OF assms(2) s(1,2) assms(3) s(3)] s(4) by simp
  from inode_at_Ok [OF assms(2,3)] have pk: "(i_page_block p, i_page_offset p) \<in> set (table_slots v)"
    "parse_dinode (slot_bytes ?rd (i_page_block p, i_page_offset p)) = Ok (i_dinode p)" by auto
  from slot_fits [OF assms(2) pk(1)] obtain d where d: "?rd (i_page_block p) = Ok d" "length d = BLOCK_SIZE" by auto
  have "inode_read E parent ?w = (Ok (p\<lparr>i_dinode := i_dinode p\<rparr>), ?w)"
  proof (rule inode_read_cached [where m = "[(child, fst s) \<mapsto> q]" and rd = ?rd1 and data = d])
    show "page_like ?rd1 ?w b (cp_data p')" if "[(child, fst s) \<mapsto> q] (j, b) = Some p'" for j b p'
      using that page_like_same [of ?rd1 ?w b "cp_data p'"] c(3) t1 by (auto split: if_splits)
    show "?rd1 b = peek_block (v_storage ?w) b" if "\<And>j. [(child, fst s) \<mapsto> q] (j, b) = None" for b
      using that [of child] out by (auto split: if_splits)
  qed (use assms(1) t1 at c(1,2) d pk(2) s(5) in \<open>simp_all add: slot_bytes_def\<close>)
  then show ?thesis by simp
qed

lemma inode_read_two_pages:
  assumes "st_ok (v_storage v)" "table_ok rd1 v" "inode_at rd1 v parent = Ok p"
    and c: "valid (cache c)" "lru_peek (e_lru E) (cache c) = [(child, cb) \<mapsto> q, (parent, i_page_block p) \<mapsto> r]"
      "rd1 cb = Ok (cp_data q)" "put_slot (i_page_block p, i_page_offset p) d2 rd1 (i_page_block p) = Ok (cp_data r)"
      "\<And>b. b \<noteq> cb \<Longrightarrow> rd1 b = peek_block (v_storage v) b"
    and s: "length d2 = DISIZE" "key_of d2 = slot_key rd1 (i_page_block p, i_page_offset p)" "parse_dinode d2 = Ok di"
  shows "inode_read E parent (v\<lparr>v_tx := tm, v_cache := c\<rparr>) = (Ok (p\<lparr>i_dinode := di\<rparr>), v\<lparr>v_tx := tm, v_cache := c\<rparr>)"
proof -
  let ?w = "v\<lparr>v_tx := tm, v_cache := c\<rparr>" and ?s = "(i_page_block p, i_page_offset p)"
  let ?m = "[(child, cb) \<mapsto> q, (parent, i_page_block p) \<mapsto> r]"
  from inode_at_Ok [OF assms(2,3)] have pk: "?s \<in> set (table_slots v)" by auto
  note b2 = put_slot_bytes [OF assms(2) pk _ s(1)]
  have lr: "length (cp_data r) = BLOCK_SIZE" using slot_fits [OF b2(2) [OF pk] pk] c(4) by auto
  have sl: "slice (i_page_offset p) (i_page_offset p + DISIZE) (cp_data r) = d2" using b2(1) [OF pk] c(4) by (simp add: slot_bytes_def)
  show ?thesis
  proof (rule inode_read_cached [where m = ?m and rd = rd1 and data = "cp_data r"])
    show "page_like rd1 ?w b (cp_data p')" if "?m (j, b) = Some p'" for j b p'
      using that page_like_same [of rd1 ?w b "cp_data p'"] page_like_put [of rd1 ?w "i_page_block p" "i_page_offset p" d2 "cp_data p'"]
        c(3,4) assms(2) pk s(1,2) by (auto split: if_splits)
    show "rd1 b = peek_block (v_storage ?w) b" if "\<And>j. ?m (j, b) = None" for b
      using that [of child] c(5) by (auto split: if_splits)
  qed (use assms(1-3) c(1,2) lr sl s(3) in simp_all)
qed

lemma lru_len_one:
  assumes "valid c" "lru_peek (e_lru E) c = [k \<mapsto> p]"
  shows "lru_len (e_lru E) c = 1"
proof -
  have "map_of (lru_iter (e_lru E) c) = [k \<mapsto> p]" using view_law [OF assms(1)] assms(2) by metis
  then have "dom (map_of (lru_iter (e_lru E) c)) = {k}" by simp
  then have "set (map fst (lru_iter (e_lru E) c)) = {k}" by (simp add: dom_map_of_conv_image_fst)
  then show ?thesis using view_law [OF assms(1)] distinct_card [of "map fst (lru_iter (e_lru E) c)"] by simp
qed

text \<open>Writing the root \<open>dt\<close> into the page of a directory, which is loaded from another copy of its block or from the device.\<close>

lemma put_root_load:
  assumes "st_ok (v_storage v)"
    and c: "valid (cache (v_cache v))" "lru_peek (e_lru E) (cache (v_cache v)) = m" "m (parent, i_page_block p) = None"
      "lru_len (e_lru E) (cache (v_cache v)) < lru_cap (e_lru E) (cache (v_cache v))"
    and Y: "\<And>j q. m (j, i_page_block p) = Some q \<Longrightarrow> cp_data q = Y"
      "(\<And>j. m (j, i_page_block p) = None) \<Longrightarrow> peek_block (v_storage v) (i_page_block p) = Ok Y"
      "i_page_offset p + DISIZE \<le> length Y" "parse_dinode (slice (i_page_offset p) (i_page_offset p + DISIZE) Y) = Ok (i_dinode p)"
    and dt: "dt_wf dt"
  shows "\<exists>c' r d2. update_inode_page E parent (i_page_block p) (i_page_offset p) (put_root dt) v = (Ok (), v\<lparr>v_cache := c'\<rparr>) \<and>
    valid (cache c') \<and> lru_peek (e_lru E) (cache c') = m((parent, i_page_block p) \<mapsto> r) \<and> cp_data r = splice (i_page_offset p) d2 Y \<and>
    length d2 = DISIZE \<and> key_of d2 = key_of (slice (i_page_offset p) (i_page_offset p + DISIZE) Y) \<and>
    dinode_parse d2 = Inr (with_root dt (i_dinode p)) \<and> dtroot_bytes (with_root dt (i_dinode p)) = dt"
proof -
  define d0 where "d0 = slice (i_page_offset p) (i_page_offset p + DISIZE) Y"
  have l0: "length d0 = DISIZE" using Y(3) by (simp add: d0_def)
  have p0: "dinode_parse d0 = Inr (i_dinode p)" using Y(4) by (simp add: d0_def parse_dinode_def split: sum.splits)
  have "length dt = 288" using dt by (simp add: dt_wf_def)
  from put_root_parse [OF l0 p0 this] obtain d2 where
    d2: "put_root dt d0 = Ok d2" "length d2 = DISIZE" "key_of d2 = key_of d0" "dinode_parse d2 = Inr (with_root dt (i_dinode p))"
    "dtroot_bytes (with_root dt (i_dinode p)) = dt" by blast
  have "\<exists>c' r. update_inode_page E parent (i_page_block p) (i_page_offset p) (put_root dt) v = (Ok (), v\<lparr>v_cache := c'\<rparr>) \<and>
    valid (cache c') \<and> lru_peek (e_lru E) (cache c') = m((parent, i_page_block p) \<mapsto> r) \<and>
    cp_data r = splice (i_page_offset p) d2 Y"
    by (rule update_inode_page_load [OF assms(1) c Y(1,2,3)]) (use d2(1) in \<open>simp_all add: d0_def\<close>)
  then show ?thesis using d2(2-5) unfolding d0_def by blast
qed

lemma read_dir_wf: "inode_read E ino v = (Ok i, v) \<Longrightarrow> dt_wf (dtroot_bytes (i_dinode i)) \<Longrightarrow>
    read_dir E ino v = (Ok (i, dtroot_bytes (i_dinode i)), v)"
  by (simp add: read_dir_def dt_wf_def dt_from_inode_data_def DTROOT_ENTRY_BASE_def DTENTRYSTART_def DTSLOTSIZE_def)

lemma add_entry_load:
  assumes "st_ok (v_storage v)" "inode_read E parent v = (Ok p, v)"
    and c: "valid (cache (v_cache v))" "lru_peek (e_lru E) (cache (v_cache v)) = m" "m (parent, i_page_block p) = None"
      "lru_len (e_lru E) (cache (v_cache v)) < lru_cap (e_lru E) (cache (v_cache v))"
    and Y: "\<And>j q. m (j, i_page_block p) = Some q \<Longrightarrow> cp_data q = Y"
      "(\<And>j. m (j, i_page_block p) = None) \<Longrightarrow> peek_block (v_storage v) (i_page_block p) = Ok Y"
      "i_page_offset p + DISIZE \<le> length Y" "parse_dinode (slice (i_page_offset p) (i_page_offset p + DISIZE) Y) = Ok (i_dinode p)"
    and n: "accepts (dtroot_bytes (i_dinode p)) name" "length name \<le> 11"
  shows "\<exists>c' r d2 dt. add_entry E parent name child v = (Ok (), v\<lparr>v_cache := c'\<rparr>) \<and>
    valid (cache c') \<and> lru_peek (e_lru E) (cache c') = m((parent, i_page_block p) \<mapsto> r) \<and> cp_data r = splice (i_page_offset p) d2 Y \<and>
    length d2 = DISIZE \<and> key_of d2 = key_of (slice (i_page_offset p) (i_page_offset p + DISIZE) Y) \<and>
    dinode_parse d2 = Inr (with_root dt (i_dinode p)) \<and> dtroot_bytes (with_root dt (i_dinode p)) = dt \<and> added (dtroot_bytes (i_dinode p)) name child dt"
proof -
  let ?dt = "dtroot_bytes (i_dinode p)" and ?idx = "length (entry_list (dtroot_bytes (i_dinode p)))"
  have wf: "dt_wf ?dt" "no_free_list ?dt" "dt_next_index ?dt < 8" "next_slot ?dt \<notin> set (stbl ?dt)"
    "find (\<lambda>e. de_name e = name) (entry_list ?dt) = None" using n(1) by (auto simp: accepts_def find_None_iff)
  note rdir = read_dir_wf [OF assms(2) wf(1)]
  have idx: "next_dir_index E parent v = (Ok ?idx, v)"
    using rdir dt_entries_list [OF wf(1)] by (simp add: next_dir_index_def entry_count_def)
  from dt_insert_entries [OF wf(1-3) n(2) wf(5,4), of child "word_of_nat ?idx"] obtain dt where
    dt: "dt_insert ?dt name child (word_of_nat ?idx) = (Ok True, dt)" "dt_wf dt" "added ?dt name child dt"
    unfolding added_def by blast
  have "\<exists>c' r d2. update_inode_page E parent (i_page_block p) (i_page_offset p) (put_root dt) v = (Ok (), v\<lparr>v_cache := c'\<rparr>) \<and>
    valid (cache c') \<and> lru_peek (e_lru E) (cache c') = m((parent, i_page_block p) \<mapsto> r) \<and> cp_data r = splice (i_page_offset p) d2 Y \<and>
    length d2 = DISIZE \<and> key_of d2 = key_of (slice (i_page_offset p) (i_page_offset p + DISIZE) Y) \<and>
    dinode_parse d2 = Inr (with_root dt (i_dinode p)) \<and> dtroot_bytes (with_root dt (i_dinode p)) = dt"
    by (rule put_root_load [OF assms(1) c Y dt(2)])
  then obtain c' r d2 where
    u: "update_inode_page E parent (i_page_block p) (i_page_offset p) (put_root dt) v = (Ok (), v\<lparr>v_cache := c'\<rparr>)"
    "valid (cache c')" "lru_peek (e_lru E) (cache c') = m((parent, i_page_block p) \<mapsto> r)" "cp_data r = splice (i_page_offset p) d2 Y"
    and d2: "length d2 = DISIZE" "key_of d2 = key_of (slice (i_page_offset p) (i_page_offset p + DISIZE) Y)"
    "dinode_parse d2 = Inr (with_root dt (i_dinode p))" "dtroot_bytes (with_root dt (i_dinode p)) = dt" by blast
  have "add_entry E parent name child v = (Ok (), v\<lparr>v_cache := c'\<rparr>)"
    using idx rdir dt(1) u(1) by (simp add: add_entry_def insert_dir_entry_def)
  then show ?thesis using u(2-4) d2 dt(2,3) by blast
qed

lemma add_entry_run:
  assumes "st_ok (v_storage v)" "table_ok (peek_block (v_storage v)) v" "inode_at (peek_block (v_storage v)) v parent = Ok p"
    and c: "valid (cache c)" "lru_peek (e_lru E) (cache c) = [(child, fst s) \<mapsto> q]"
      "put_slot s d' (peek_block (v_storage v)) (fst s) = Ok (cp_data q)"
    and s: "s \<in> set (table_slots v)" "length d' = DISIZE" "(i_page_block p, i_page_offset p) \<noteq> s" "key_of d' \<noteq> inode_key parent"
      "child \<noteq> parent"
    and n: "accepts (dtroot_bytes (i_dinode p)) name" "length name \<le> 11"
    and room: "\<And>c. valid c \<Longrightarrow> 2 \<le> lru_cap (e_lru E) c"
  shows "\<exists>c' r d2 dt. add_entry E parent name child (v\<lparr>v_tx := tm, v_cache := c\<rparr>) = (Ok (), v\<lparr>v_tx := tm, v_cache := c'\<rparr>) \<and>
    valid (cache c') \<and> lru_peek (e_lru E) (cache c') = [(child, fst s) \<mapsto> q, (parent, i_page_block p) \<mapsto> r] \<and>
    put_slot (i_page_block p, i_page_offset p) d2 (put_slot s d' (peek_block (v_storage v))) (i_page_block p) = Ok (cp_data r) \<and>
    length d2 = DISIZE \<and> key_of d2 = slot_key (put_slot s d' (peek_block (v_storage v))) (i_page_block p, i_page_offset p) \<and>
    dinode_parse d2 = Inr (with_root dt (i_dinode p)) \<and> dtroot_bytes (with_root dt (i_dinode p)) = dt \<and> added (dtroot_bytes (i_dinode p)) name child dt"
proof -
  let ?rd = "peek_block (v_storage v)" and ?w = "v\<lparr>v_tx := tm, v_cache := c\<rparr>" and ?s = "(i_page_block p, i_page_offset p)"
  define rd1 where "rd1 = put_slot s d' ?rd"
  have rp: "inode_read E parent ?w = (Ok p, ?w)" using inode_read_one_page [OF assms(1-3) c s] .
  from inode_at_Ok [OF assms(2,3)] have pk: "?s \<in> set (table_slots v)" "parse_dinode (slot_bytes ?rd ?s) = Ok (i_dinode p)" by auto
  have t1: "table_ok rd1 v" using put_slot_bytes(2) [OF assms(2) s(1) s(1) s(2)] by (simp add: rd1_def)
  from slot_fits [OF t1 pk(1)] obtain Y where Y: "rd1 (i_page_block p) = Ok Y" "i_page_offset p + DISIZE \<le> length Y" by auto
  have d0: "slot_bytes rd1 ?s = slice (i_page_offset p) (i_page_offset p + DISIZE) Y" using Y(1) by (simp add: slot_bytes_def)
  have "slot_bytes rd1 ?s = slot_bytes ?rd ?s" using put_slot_bytes(1) [OF assms(2) s(1) pk(1) s(2)] s(3) by (simp add: rd1_def)
  then have py: "parse_dinode (slice (i_page_offset p) (i_page_offset p + DISIZE) Y) = Ok (i_dinode p)" using pk(2) d0 by simp
  have src: "cp_data q' = Y" if "[(child, fst s) \<mapsto> q] (j, i_page_block p) = Some q'" for j q'
    using that Y(1) c(3) by (auto simp: rd1_def split: if_splits)
  have dev: "peek_block (v_storage ?w) (i_page_block p) = Ok Y" if "\<And>j. [(child, fst s) \<mapsto> q] (j, i_page_block p) = None"
  proof -
    have "i_page_block p \<noteq> fst s" using that [of child] by auto
    then show ?thesis using Y(1) by (auto simp: rd1_def put_slot_def split: res.splits)
  qed
  have len: "lru_len (e_lru E) (cache (v_cache ?w)) < lru_cap (e_lru E) (cache (v_cache ?w))"
    using lru_len_one [OF c(1,2)] room [OF c(1)] by simp
  have "\<exists>c' r d2 dt. add_entry E parent name child ?w = (Ok (), ?w\<lparr>v_cache := c'\<rparr>) \<and>
    valid (cache c') \<and> lru_peek (e_lru E) (cache c') = [(child, fst s) \<mapsto> q]((parent, i_page_block p) \<mapsto> r) \<and> cp_data r = splice (i_page_offset p) d2 Y \<and>
    length d2 = DISIZE \<and> key_of d2 = key_of (slice (i_page_offset p) (i_page_offset p + DISIZE) Y) \<and>
    dinode_parse d2 = Inr (with_root dt (i_dinode p)) \<and> dtroot_bytes (with_root dt (i_dinode p)) = dt \<and> added (dtroot_bytes (i_dinode p)) name child dt"
    by (rule add_entry_load [OF _ rp _ _ _ len src dev Y(2) py n]) (use assms(1) c(1,2) s(5) in simp_all)
  moreover have "put_slot ?s d2 rd1 (i_page_block p) = Ok (splice (i_page_offset p) d2 Y)" for d2 using Y(1) by (simp add: put_slot_def)
  moreover have "slot_key rd1 ?s = key_of (slice (i_page_offset p) (i_page_offset p + DISIZE) Y)" using d0 by (simp add: slot_key_def)
  ultimately show ?thesis unfolding rd1_def [symmetric] by fastforce
qed

lemma idle_table:
  assumes "idle E valid k v"
  shows "quiet E valid v" "st_ok (v_storage v)" "table_ok (peek_block (v_storage v)) v"
    "b \<in> table_blocks v \<Longrightarrow> b < size_blocks (v_storage v)"
proof -
  show q: "quiet E valid v" "st_ok (v_storage v)" using assms by (simp_all add: idle_def quiet_def)
  show b: "b \<in> table_blocks v \<Longrightarrow> b < size_blocks (v_storage v)" for b using assms by (simp add: idle_def table_blocks_def)
  show "table_ok (peek_block (v_storage v)) v" using dev.read_total [OF q(2)] b by (auto simp: table_ok_def)
qed

text \<open>The page of the new inode and its place in the list of dirty pages.\<close>

lemma child_page:
  assumes "idle E valid k v" "active tm = Some a" "at_dirty_pages a = []" "(cb, coff) \<in> set (table_slots v)"
    "d' = init (slot_bytes (peek_block (v_storage v)) (cb, coff))"
  shows "\<exists>c q. st_bind (update_inode_page E child cb coff (\<lambda>d. Ok (init d)) (v\<lparr>v_tx := tm\<rparr>)) (\<lambda>_ v. mark_page_dirty E child cb v) =
      (Ok (), v\<lparr>v_tx := tm\<lparr>active := Some (a\<lparr>at_dirty_pages := [(child, cb)]\<rparr>)\<rparr>, v_cache := c\<rparr>) \<and>
    valid (cache c) \<and> lru_peek (e_lru E) (cache c) = [(child, cb) \<mapsto> q] \<and>
    put_slot (cb, coff) d' (peek_block (v_storage v)) cb = Ok (cp_data q)"
proof -
  let ?rd = "peek_block (v_storage v)" and ?v1 = "v\<lparr>v_tx := tm\<rparr>"
  note id = idle_table [OF assms(1)]
  from slot_fits [OF id(3) assms(4)] obtain data where data: "?rd cb = Ok data" "coff + DISIZE \<le> length data" by auto
  have "slot_bytes ?rd (cb, coff) = slice coff (coff + DISIZE) data" using data(1) by (simp add: slot_bytes_def)
  then have f: "(\<lambda>d. Ok (init d)) (slice coff (coff + DISIZE) data) = Ok d'" using assms(5) by simp
  have q1: "quiet E valid ?v1" using id(1) by (simp add: quiet_def)
  from update_inode_page_quiet [OF q1, of cb data coff "\<lambda>d. Ok (init d)" d' child] data f obtain c1 p1 where
    u: "update_inode_page E child cb coff (\<lambda>d. Ok (init d)) ?v1 = (Ok (), ?v1\<lparr>v_cache := c1\<rparr>)" "valid (cache c1)"
    "lru_peek (e_lru E) (cache c1) = [(child, cb) \<mapsto> p1]" "cp_data p1 = splice coff d' data" by auto
  from mark_page_dirty_one [of "?v1\<lparr>v_cache := c1\<rparr>" child cb p1 a] u(2,3) assms(2,3) obtain c q where
    m: "mark_page_dirty E child cb (?v1\<lparr>v_cache := c1\<rparr>) = (Ok (), v\<lparr>v_tx := tm\<lparr>active := Some (a\<lparr>at_dirty_pages := [(child, cb)]\<rparr>)\<rparr>, v_cache := c\<rparr>)"
    "valid (cache c)" "lru_peek (e_lru E) (cache c) = [(child, cb) \<mapsto> q]" "cp_data q = cp_data p1" by auto
  have "put_slot (cb, coff) d' ?rd cb = Ok (cp_data q)" using data(1) u(4) m(4) by (simp add: put_slot_def)
  then show ?thesis using u(1) m by (intro exI [of _ c] exI [of _ q]) simp
qed

text \<open>The commit of two pages of the table: of two copies of one block the second stays.\<close>

lemma commit_two:
  assumes "idle E valid (k + 3) v" "valid (cache c)" "lru_peek (e_lru E) (cache c) = [(i, b1) \<mapsto> q, (j, b2) \<mapsto> r]" "i \<noteq> j"
    "b1 \<in> table_blocks v" "b2 \<in> table_blocks v" "length (cp_data q) = BLOCK_SIZE" "length (cp_data r) = BLOCK_SIZE"
    "active tm = Some a" "at_dirty_pages a = [(i, b1), (j, b2)]"
  shows "\<exists>rs v'. v_commit E (v\<lparr>v_tx := tm, v_cache := c\<rparr>) = (Ok rs, v') \<and> idle E valid k v' \<and> v_sb v' = v_sb v \<and> v_agg_size v' = v_agg_size v \<and>
    v_open_handles v' = v_open_handles v \<and>
    (\<forall>b\<in>table_blocks v. peek_block (v_storage v') b =
       (if b = b2 then Ok (cp_data r) else if b = b1 then Ok (cp_data q) else peek_block (v_storage v) b))"
proof -
  let ?w = "v\<lparr>v_tx := tm, v_cache := c\<rparr>" and ?L = "e_lru E"
  note id = idle_table [OF assms(1)]
  have cp: "cache_peek ?L (v_cache ?w) i b1 = Some q" "cache_peek ?L (v_cache ?w) j b2 = Some r"
    using assms(3,4) by (auto simp: cache_peek_def)
  have ic: "in_cache ?L (v_cache ?w) (at_dirty_pages a) = [(i, b1), (j, b2)]"
    "images ?L (v_cache ?w) [(i, b1), (j, b2)] = [(b1, cp_data q), (b2, cp_data r)]"
    using cp assms(10) by (simp_all add: images_def page_data_def)
  have own: "(x, b) \<in> set (at_dirty_pages a)" if "cache_peek ?L (v_cache ?w) x b \<noteq> None" for x b
    using that assms(3,10) by (auto simp: cache_peek_def split: if_splits)
  have pages: "snd x < size_blocks (v_storage ?w) \<and> length (page_data ?L (v_cache ?w) x) = BLOCK_SIZE"
    if "x \<in> set (in_cache ?L (v_cache ?w) (at_dirty_pages a))" for x
    using that cp assms(5-8) id(4) unfolding ic(1) by (auto simp: page_data_def)
  have bm: "\<And>m. v_bmap ?w = Some m \<Longrightarrow> dirty_pages m = {} \<and> dmap_start m < size_blocks (v_storage ?w)"
    and lf: "log_fits (k + 3) (v_log v) (v_storage v)" using assms(1) by (simp_all add: idle_def)
  from v_commit_pages [of ?w a k, OF _ _ _ _ pages own bm] id(2) assms(2,9,10) lf obtain rs v' where
    cm: "v_commit E ?w = (Ok rs, v')" "commits_to E valid (k + 3) k [b1 \<mapsto> cp_data q, b2 \<mapsto> cp_data r] ?w v'"
    unfolding ic by (auto simp: eval_nat_numeral)
  note d = commits_toD [OF cm(2)]
  have "idle E valid k v'" by (rule commits_idle [OF assms(1) _ _ _ _ _ cm(2)]) simp_all
  moreover have "peek_block (v_storage v') b = (if b = b2 then Ok (cp_data r) else if b = b1 then Ok (cp_data q) else peek_block (v_storage v) b)"
    if b: "b \<in> table_blocks v" for b
  proof -
    have "b \<notin> log_range (k + 3) (v_log v)" "b \<notin> map_block v" using b assms(1) by (auto simp: idle_def)
    then show ?thesis using d(11) [of b] d(12) [of b] by (cases "b = b2"; cases "b = b1") (auto simp: map_block_def)
  qed
  moreover have "v_open_handles v' = v_open_handles v" using cm(2) by (auto simp: commits_to_def)
  ultimately show ?thesis using cm(1) d(2,3) by (intro exI [of _ rs] exI [of _ v']) simp
qed

lemma mark_inode_dirty_touches: "touches E valid parent p (mark_inode_dirty E parent) id"
  unfolding touches_def
proof (intro allI impI, elim conjE)
  fix v a m dp and r :: cached_page
  let ?b = "(parent, i_page_block p)" and ?d = "slice (i_page_offset p) (i_page_offset p + DISIZE) (cp_data r)"
  assume w: "inode_read E parent v = (Ok (p\<lparr>i_dinode := dp\<rparr>), v)" "active (v_tx v) = Some a" "?b \<notin> set (at_dirty_pages a)"
    "valid (cache (v_cache v))" "lru_peek (e_lru E) (cache (v_cache v)) = m" "m ?b = Some r"
    "i_page_offset p + DISIZE \<le> length (cp_data r)" "dinode_parse ?d = Inr dp"
  from mark_page_dirty_cached [OF w(4-6,2,3)] obtain c q where
    m: "mark_page_dirty E parent (i_page_block p) v =
      (Ok (), v\<lparr>v_tx := (v_tx v)\<lparr>active := Some (a\<lparr>at_dirty_pages := at_dirty_pages a @ [?b]\<rparr>)\<rparr>, v_cache := c\<rparr>)"
    "valid (cache c)" "lru_peek (e_lru E) (cache c) = m(?b \<mapsto> q)" "cp_data q = cp_data r" by blast
  have "splice (i_page_offset p) ?d (cp_data r) = cp_data r" using w(7) by (intro splice_slice) simp_all
  then show "\<exists>c q d. mark_inode_dirty E parent v =
      (Ok (), v\<lparr>v_tx := (v_tx v)\<lparr>active := Some (a\<lparr>at_dirty_pages := at_dirty_pages a @ [?b]\<rparr>)\<rparr>, v_cache := c\<rparr>) \<and>
    valid (cache c) \<and> lru_peek (e_lru E) (cache c) = m(?b \<mapsto> q) \<and> cp_data q = splice (i_page_offset p) d (cp_data r) \<and>
    length d = DISIZE \<and> key_of d = key_of ?d \<and> dinode_parse d = Inr (id dp)"
    using w(1,7,8) m by (intro exI [of _ c] exI [of _ q] exI [of _ ?d]) (simp add: mark_inode_dirty_def)
qed

lemma create_child_run:
  assumes idl: "idle E valid (k + 3) v" and room: "\<And>c. valid c \<Longrightarrow> 2 \<le> lru_cap (e_lru E) c"
    and tm: "active tm = Some a" "at_dirty_pages a = []"
    and p: "inode_at (peek_block (v_storage v)) v parent = Ok p" "accepts (dtroot_bytes (i_dinode p)) name" "length name \<le> 11"
    and s: "(cb, coff) \<in> set (table_slots v)" "(i_page_block p, i_page_offset p) \<noteq> (cb, coff)" "child \<noteq> parent"
    and touch: "touches E valid parent p touch h"
    and d': "d' = init (slot_bytes (peek_block (v_storage v)) (cb, coff))" "length d' = DISIZE" "key_of d' \<noteq> inode_key parent"
  shows "\<exists>v' d3 dt. create_child E parent name (child, cb, coff) init touch (v\<lparr>v_tx := tm\<rparr>) = (Ok child, v') \<and>
    idle E valid k v' \<and> v_sb v' = v_sb v \<and> v_agg_size v' = v_agg_size v \<and>
    v_open_handles v' = v_open_handles v \<and>
    (\<forall>b\<in>table_blocks v. peek_block (v_storage v') b =
       put_slot (i_page_block p, i_page_offset p) d3 (put_slot (cb, coff) d' (peek_block (v_storage v))) b) \<and>
    length d3 = DISIZE \<and> key_of d3 = slot_key (put_slot (cb, coff) d' (peek_block (v_storage v))) (i_page_block p, i_page_offset p) \<and>
    parse_dinode d3 = Ok (h (with_root dt (i_dinode p))) \<and> dtroot_bytes (with_root dt (i_dinode p)) = dt \<and> added (dtroot_bytes (i_dinode p)) name child dt"
proof -
  let ?rd = "peek_block (v_storage v)" and ?pb = "i_page_block p" and ?s = "(i_page_block p, i_page_offset p)" and ?L = "e_lru E"
  define rd1 where "rd1 = put_slot (cb, coff) d' ?rd"
  note id = idle_table [OF idl]
  let ?a1 = "a\<lparr>at_dirty_pages := [(child, cb)]\<rparr>"
  let ?t1 = "tm\<lparr>active := Some ?a1\<rparr>"
  from child_page [where init = init and child = child, OF idl tm s(1) d'(1)] obtain c q where
    c: "st_bind (update_inode_page E child cb coff (\<lambda>d. Ok (init d)) (v\<lparr>v_tx := tm\<rparr>)) (\<lambda>_ v. mark_page_dirty E child cb v) =
      (Ok (), v\<lparr>v_tx := ?t1, v_cache := c\<rparr>)" "valid (cache c)" "lru_peek ?L (cache c) = [(child, cb) \<mapsto> q]" "rd1 cb = Ok (cp_data q)"
    by (auto simp: rd1_def)
  from add_entry_run [of v parent p c child "(cb, coff)" q d' name ?t1, OF id(2,3) p(1) c(2) _ _ s(1) d'(2) s(2) d'(3) s(3) p(2,3) room] c(3,4)
  obtain c1 r d2 dt where
    e: "add_entry E parent name child (v\<lparr>v_tx := ?t1, v_cache := c\<rparr>) = (Ok (), v\<lparr>v_tx := ?t1, v_cache := c1\<rparr>)"
    and c1: "valid (cache c1)" "lru_peek ?L (cache c1) = [(child, cb) \<mapsto> q, (parent, ?pb) \<mapsto> r]" "put_slot ?s d2 rd1 ?pb = Ok (cp_data r)"
    and d2: "length d2 = DISIZE" "key_of d2 = slot_key rd1 ?s" "dinode_parse d2 = Inr (with_root dt (i_dinode p))"
    and dt: "dtroot_bytes (with_root dt (i_dinode p)) = dt" "added (dtroot_bytes (i_dinode p)) name child dt"
    by (auto simp: rd1_def)
  have t1: "table_ok rd1 v" using put_slot_bytes(2) [OF id(3) s(1) s(1) d'(2)] by (simp add: rd1_def)
  have at1: "inode_at rd1 v parent = Ok p" using put_slot_other [OF id(3) s(1) d'(2) p(1) s(2)] d'(3) by (simp add: rd1_def)
  have out1: "rd1 b = ?rd b" if "b \<noteq> cb" for b using that by (auto simp: rd1_def put_slot_def split: res.split)
  have pd2: "parse_dinode d2 = Ok (with_root dt (i_dinode p))" using d2(3) by (simp add: parse_dinode_def)
  note rd2 = inode_read_two_pages [OF id(2) t1 at1 c1(1,2) c(4) c1(3) out1 d2(1,2) pd2, of ?t1]
  from inode_at_Ok [OF id(3) p(1)] have pk: "?s \<in> set (table_slots v)" by auto
  have blk: "cb \<in> table_blocks v" "?pb \<in> table_blocks v" using s(1) pk by (auto simp: table_slots_iff)
  have t2: "table_ok (put_slot ?s d2 rd1) v" using put_slot_bytes(2) [OF t1 pk pk d2(1)] .
  obtain Y where Y: "rd1 ?pb = Ok Y" "i_page_offset p + DISIZE \<le> length Y" "cp_data r = splice (i_page_offset p) d2 Y"
    using slot_fits [OF t1 pk] c1(3) by (auto simp: put_slot_def)
  have lens: "length (cp_data q) = BLOCK_SIZE" "length (cp_data r) = BLOCK_SIZE"
    using t1 t2 blk c(4) c1(3) by (auto simp: table_ok_def)
  have sr: "slice (i_page_offset p) (i_page_offset p + DISIZE) (cp_data r) = d2" using Y(2,3) d2(1) slice_splice_same [of "i_page_offset p" d2 Y] by simp
  let ?a2 = "a\<lparr>at_dirty_pages := [(child, cb), (parent, ?pb)]\<rparr>" and ?w = "v\<lparr>v_tx := ?t1, v_cache := c1\<rparr>"
  have "\<exists>c q' d. touch ?w =
      (Ok (), ?w\<lparr>v_tx := (v_tx ?w)\<lparr>active := Some (?a1\<lparr>at_dirty_pages := at_dirty_pages ?a1 @ [(parent, ?pb)]\<rparr>)\<rparr>, v_cache := c\<rparr>) \<and>
    valid (cache c) \<and> lru_peek (e_lru E) (cache c) = [(child, cb) \<mapsto> q, (parent, ?pb) \<mapsto> r]((parent, ?pb) \<mapsto> q') \<and>
    cp_data q' = splice (i_page_offset p) d (cp_data r) \<and> length d = DISIZE \<and> key_of d = key_of d2 \<and>
    dinode_parse d = Inr (h (with_root dt (i_dinode p)))"
    by (rule touchesD [OF touch]) (use rd2 c1(1,2) s(3) sr d2(3) Y(2,3) lens d2(1) in \<open>simp_all add: with_root_def nlink_def\<close>)
  then obtain c2 r2 d3 where
    m: "touch ?w = (Ok (), v\<lparr>v_tx := tm\<lparr>active := Some ?a2\<rparr>, v_cache := c2\<rparr>)"
    and c2: "valid (cache c2)" "lru_peek ?L (cache c2) = [(child, cb) \<mapsto> q, (parent, ?pb) \<mapsto> r2]" "cp_data r2 = splice (i_page_offset p) d3 (cp_data r)"
    and d3: "length d3 = DISIZE" "key_of d3 = key_of d2" "dinode_parse d3 = Inr (h (with_root dt (i_dinode p)))" by auto
  let ?v2 = "v\<lparr>v_tx := tm\<lparr>active := Some ?a2\<rparr>, v_cache := c2\<rparr>"
  have "splice (i_page_offset p) d3 (cp_data r) = splice (i_page_offset p) d3 Y"
    unfolding Y(3) using Y(2) d2(1) d3(1) by (intro splice_over) simp_all
  then have r2: "put_slot ?s d3 rd1 ?pb = Ok (cp_data r2)" using Y(1) c2(3) by (simp add: put_slot_def)
  have lr2: "length (cp_data r2) = BLOCK_SIZE" using c2(3) lens(2) d3(1) Y(2,3) d2(1) by simp
  from commit_two [OF idl c2(1,2) s(3) blk lens(1) _ _ _, of "tm\<lparr>active := Some ?a2\<rparr>" ?a2] lr2 obtain rs v' where
    cm: "v_commit E ?v2 = (Ok rs, v')" "idle E valid k v'" "v_sb v' = v_sb v" "v_agg_size v' = v_agg_size v"
    "\<And>b. b \<in> table_blocks v \<Longrightarrow> peek_block (v_storage v') b =
       (if b = ?pb then Ok (cp_data r2) else if b = cb then Ok (cp_data q) else ?rd b)" "v_open_handles v' = v_open_handles v" by auto
  have "peek_block (v_storage v') b = put_slot ?s d3 rd1 b" if b: "b \<in> table_blocks v" for b
  proof -
    have out2: "put_slot ?s d3 rd1 b = rd1 b" if "b \<noteq> ?pb" using that by (auto simp: put_slot_def split: res.split)
    show ?thesis using cm(5) [OF b] c(4) r2 out1 out2 by (cases "b = ?pb"; cases "b = cb") auto
  qed
  moreover have "create_child E parent name (child, cb, coff) init touch (v\<lparr>v_tx := tm\<rparr>) = (Ok child, v')"
    using c(1) e m cm(1) by (auto simp: create_child_def st_bind_Ok_iff)
  ultimately show ?thesis using cm(2-4,6) d2(2) d3 dt unfolding rd1_def
    by (intro exI [of _ v'] exI [of _ d3] exI [of _ dt]) (simp add: parse_dinode_def)
qed

lemma idle_begin:
  assumes "idle E valid k v"
  shows "\<exists>x tm a. v_begin v = (Ok x, v\<lparr>v_tx := tm\<rparr>) \<and> active tm = Some a \<and> at_dirty_pages a = [] \<and>
    (\<forall>ino i. inode_read E ino v = (Ok i, v) \<longrightarrow> inode_read E ino (v\<lparr>v_tx := tm\<rparr>) = (Ok i, v\<lparr>v_tx := tm\<rparr>))"
proof -
  have "active (v_tx v) = None" using assms by (simp add: idle_def)
  from v_begin_idle [OF this] inode_read_begin [OF idle_table(1) [OF assms]] show ?thesis by fastforce
qed

lemma begin_allocate:
  assumes "idle E valid k v" "fst (allocate_inode E v) = Ok (child, cb, coff)"
  shows "\<exists>t tm0 tm a. v_begin v = (Ok t, v\<lparr>v_tx := tm0\<rparr>) \<and> allocate_inode E (v\<lparr>v_tx := tm0\<rparr>) = (Ok (child, cb, coff), v\<lparr>v_tx := tm\<rparr>) \<and>
    active tm = Some a \<and> at_dirty_pages a = []"
proof -
  have "active (v_tx v) = None" using assms(1) by (simp add: idle_def)
  note b = v_begin_idle [OF this]
  note f = free_in_blocks_tx [OF idle_table(1) [OF assms(1)], of "[0..<max_scan v]"]
  have ms: "max_scan (v\<lparr>v_tx := tm\<rparr>) = max_scan v" for tm by (simp add: max_scan_def)
  let ?a = "\<lparr>at_txid = next_txid (v_tx v), at_dirty_pages = [], at_allocated = [], at_freed = []\<rparr>"
  define tm0 where "tm0 = (v_tx v)\<lparr>next_txid := (next_txid (v_tx v) + 1) mod 2 ^ 64, active := Some ?a\<rparr>"
  have "allocate_inode E (v\<lparr>v_tx := tm0\<rparr>) = (Ok (child, cb, coff), v\<lparr>v_tx := snd (record_allocation tm0 cb)\<rparr>)"
    using f assms(2) unfolding allocate_inode_def ms by simp
  moreover have "active (snd (record_allocation tm0 cb)) = Some (?a\<lparr>at_allocated := [cb]\<rparr>)"
    by (simp add: record_allocation_def tm0_def)
  ultimately show ?thesis using b [folded tm0_def]
    by (intro exI [of _ "next_txid (v_tx v)"] exI [of _ tm0] exI [of _ "snd (record_allocation tm0 cb)"] exI [of _ "?a\<lparr>at_allocated := [cb]\<rparr>"]) simp
qed

lemma inode_key_inj: "inode_key i = inode_key j \<Longrightarrow> i = j"
  by (auto simp: inode_key_def FILESYSTEM_I_def split: if_splits)

text \<open>What the allocation promises of the slot: it is in the table, unused, and its number is the child's key.\<close>

lemma allocated_slot:
  assumes "idle E valid k v" "fst (allocate_inode E v) = Ok (child, cb, coff)"
  shows "(cb, coff) \<in> set (table_slots v)" "get_u32 52 (slot_bytes (peek_block (v_storage v)) (cb, coff)) = 0"
    "inode_key child = (word_of_nat FILESYSTEM_I, child - word_of_nat FILESYSTEM_I)"
proof -
  from free_in_blocks_slot [OF idle_table(1) [OF assms(1)] assms(2) [unfolded allocate_inode_def]] obtain m d i where
    s: "m < max_scan v" "cb = unat (pxd_address (s_ait2 (v_sb v))) + m" "cb < v_agg_size v" "peek_block (v_storage v) cb = Ok d"
    "i < INOSPERPAGE" "coff = i * DISIZE" "coff + DISIZE \<le> length d" "get_u32 (coff + 52) d = 0"
    "child = word_of_nat FILESYSTEM_I + word_of_nat (m * INOSPERPAGE + i)" by auto
  show "(cb, coff) \<in> set (table_slots v)" using s(1-3,5,6) by (auto simp: table_slots_iff table_blocks_def)
  show "get_u32 52 (slot_bytes (peek_block (v_storage v)) (cb, coff)) = 0"
    using s(4,7,8) by (simp add: slot_bytes_def get_u32_def slice_slice DISIZE_def add.commute)
  have "16 + (m * 8 + i) < 2 ^ 32" using s(1,5) max_scan_bound [of v] by (simp add: INOSPERPAGE_def)
  moreover have "child = word_of_nat (16 + (m * 8 + i))" using s(9) by (simp add: FILESYSTEM_I_def INOSPERPAGE_def)
  ultimately have "unat child = 16 + (m * 8 + i)" by (simp only: unsigned_of_nat) (simp add: take_bit_nat_eq_self)
  then show "inode_key child = (word_of_nat FILESYSTEM_I, child - word_of_nat FILESYSTEM_I)"
    by (simp add: inode_key_def FILESYSTEM_I_def)
qed

lemma inode_read_after:
  assumes "idle E valid k v'" "v_sb v' = v_sb v" "v_agg_size v' = v_agg_size v" "table_ok rd v"
    "\<And>b. b \<in> table_blocks v \<Longrightarrow> peek_block (v_storage v') b = rd b"
  shows "inode_read E j v' = (inode_at rd v j, v')"
proof -
  note i' = idle_table [OF assms(1)]
  have same: "table_slots v' = table_slots v" "table_blocks v' = table_blocks v"
    using assms(2,3) by (simp_all add: table_slots_def table_blocks_def max_scan_def)
  have "inode_at (peek_block (v_storage v')) v' j = inode_at rd v j"
    by (rule inode_at_agree) (use assms(4,5) i'(3) same in auto)
  then show ?thesis using inode_read_at [OF i'(1,3), of j] by simp
qed

text \<open>
  Every creation with these steps: the child is there with what its initialisation says, the directory has its
  entry, and the other inodes are as they were.
\<close>

lemma child_created:
  assumes idl: "idle E valid (k + 3) v" and room: "\<And>c. valid c \<Longrightarrow> 2 \<le> lru_cap (e_lru E) c"
    and p: "inode_read E parent v = (Ok p, v)" "is_dir (i_dinode p)" "accepts (dtroot_bytes (i_dinode p)) name" "length name \<le> 11"
    and c: "fst (allocate_inode E v) = Ok (child, cb, coff)"
      "\<And>i. inode_read E child v = (Ok i, v) \<Longrightarrow> (i_page_block i, i_page_offset i) = (cb, coff)"
    and init: "\<And>d di. length d = DISIZE \<Longrightarrow> dinode_parse d = Inr di \<Longrightarrow> length (init d) = DISIZE \<and> dinode_parse (init d) = Inr (g di) \<and>
      key_of (init d) = (word_of_nat FILESYSTEM_I, child - word_of_nat FILESYSTEM_I)"
    and touch: "touches E valid parent p touch h"
    and tm: "active tm = Some a" "at_dirty_pages a = []"
  shows "\<exists>v' di dt. create_child E parent name (child, cb, coff) init touch (v\<lparr>v_tx := tm\<rparr>) = (Ok child, v') \<and>
    idle E valid k v' \<and>
    inode_read E child v' = (Ok \<lparr>i_dinode = g di, i_ino = child, i_page_block = cb, i_page_offset = coff\<rparr>, v') \<and>
    parse_dinode (slot_bytes (peek_block (v_storage v)) (cb, coff)) = Ok di \<and> length (di_u di) = 384 \<and>
    inode_read E parent v' = (Ok (p\<lparr>i_dinode := h (with_root dt (i_dinode p))\<rparr>), v') \<and>
    dtroot_bytes (with_root dt (i_dinode p)) = dt \<and> added (dtroot_bytes (i_dinode p)) name child dt \<and>
    (\<forall>j i. inode_read E j v = (Ok i, v) \<and> (i_page_block i, i_page_offset i) \<notin> {(cb, coff), (i_page_block p, i_page_offset p)} \<longrightarrow>
       inode_read E j v' = (Ok i, v')) \<and> table_step (cb, coff) child (i_page_block p, i_page_offset p) v v'"
proof -
  let ?rd = "peek_block (v_storage v)" and ?s = "(i_page_block p, i_page_offset p)" and ?c = "(cb, coff)"
  note id = idle_table [OF idl] and al = allocated_slot [OF idl c(1)]
  note at = inode_read_at [OF id(1,3)]
  have ap: "inode_at ?rd v parent = Ok p" using p(1) at by simp
  from slot_fits [OF id(3) al(1)] have "length (slot_bytes ?rd ?c) = DISIZE" by (auto simp: slot_bytes_def)
  then obtain di where di: "length (slot_bytes ?rd ?c) = DISIZE" "dinode_parse (slot_bytes ?rd ?c) = Inr di" "length (di_u di) = 384"
    by (auto simp: dinode_parse_def DISIZE_def)
  define d' where "d' = init (slot_bytes ?rd ?c)"
  have d': "length d' = DISIZE" "parse_dinode d' = Ok (g di)" "key_of d' = inode_key child"
    using init [OF di(1,2)] al(3) by (simp_all add: d'_def parse_dinode_def)
  have ne: "?s \<noteq> ?c"
  proof
    assume "?s = ?c"
    then have "parse_dinode (slot_bytes ?rd ?c) = Ok (i_dinode p)" using inode_at_Ok [OF id(3) ap] by simp
    then have "di = i_dinode p" using di(2) by (simp add: parse_dinode_def)
    then show False using p(2) get_mode [OF di(1,2)] al(2) by (simp add: is_dir_def)
  qed
  then have cp: "child \<noteq> parent" using c(2) p(1) by auto
  then have kp: "key_of d' \<noteq> inode_key parent" using d'(3) inode_key_inj by metis
  from create_child_run [where init = init, OF idl room tm ap p(3,4) al(1) ne cp touch d'_def d'(1) kp] obtain v' d2 dt where
    r: "create_child E parent name (child, cb, coff) init touch (v\<lparr>v_tx := tm\<rparr>) = (Ok child, v')"
    "idle E valid k v'" "v_sb v' = v_sb v" "v_agg_size v' = v_agg_size v"
    and oh: "v_open_handles v' = v_open_handles v"
    and b: "\<forall>b\<in>table_blocks v. peek_block (v_storage v') b = put_slot ?s d2 (put_slot ?c d' ?rd) b"
    and d2: "length d2 = DISIZE" "key_of d2 = slot_key (put_slot ?c d' ?rd) ?s" "parse_dinode d2 = Ok (h (with_root dt (i_dinode p)))"
    and dt: "dtroot_bytes (with_root dt (i_dinode p)) = dt" "added (dtroot_bytes (i_dinode p)) name child dt" by blast
  define rd1 where "rd1 = put_slot ?c d' ?rd"
  have t1: "table_ok rd1 v" using put_slot_bytes(2) [OF id(3) al(1) al(1) d'(1)] by (simp add: rd1_def)
  have p1: "inode_at rd1 v parent = Ok p" using put_slot_other [OF id(3) al(1) d'(1) ap ne] kp by (simp add: rd1_def)
  have sp: "?s \<in> set (table_slots v)" using inode_at_Ok [OF t1 p1] by blast
  have rd: "inode_read E j v' = (inode_at (put_slot ?s d2 rd1) v j, v')" for j
    by (rule inode_read_after [OF r(2-4)]) (use b put_slot_bytes(2) [OF t1 sp sp d2(1)] in \<open>simp_all add: rd1_def\<close>)
  have "inode_at rd1 v child = Ok \<lparr>i_dinode = g di, i_ino = child, i_page_block = cb, i_page_offset = coff\<rparr>"
    using put_slot_new [OF id(3) al(1) d'] c(2) at by (simp add: rd1_def)
  then have ch: "inode_at (put_slot ?s d2 rd1) v child = Ok \<lparr>i_dinode = g di, i_ino = child, i_page_block = cb, i_page_offset = coff\<rparr>"
    using put_slot_other [OF t1 sp d2(1)] d2(2) ne by (auto simp: rd1_def)
  have pa: "inode_at (put_slot ?s d2 rd1) v parent = Ok (p\<lparr>i_dinode := h (with_root dt (i_dinode p))\<rparr>)"
    using put_slot_same [OF t1 p1 d2(1)] d2(2,3) by (simp add: rd1_def)
  have other: "inode_at (put_slot ?s d2 rd1) v j = Ok i" if "inode_read E j v = (Ok i, v)" "(i_page_block i, i_page_offset i) \<notin> {?c, ?s}" for i j
  proof -
    have ij: "inode_at ?rd v j = Ok i" using that(1) at by simp
    have "j \<noteq> child" using that c(2) by auto
    then have "key_of d' \<noteq> inode_key j" using d'(3) inode_key_inj by metis
    then have "inode_at rd1 v j = Ok i" using put_slot_other [OF id(3) al(1) d'(1) ij] that(2) by (simp add: rd1_def)
    then show ?thesis using put_slot_other [OF t1 sp d2(1)] d2(2) that(2) by (simp add: rd1_def)
  qed
  have "table_step ?c child ?s v v'"
  proof -
    note b1 = put_slot_bytes [OF id(3) al(1) _ d'(1)] and b2 = put_slot_bytes [OF t1 sp _ d2(1)]
    have "slot_bytes (peek_block (v_storage v')) z = (if z = ?s then d2 else if z = ?c then d' else slot_bytes ?rd z)" if z: "z \<in> set (table_slots v)" for z
    proof -
      have "fst z \<in> table_blocks v" using z table_slots_iff [of "fst z" "snd z" v] by simp
      then have "slot_bytes (peek_block (v_storage v')) z = slot_bytes (put_slot ?s d2 rd1) z" using b by (simp add: slot_bytes_def rd1_def)
      then show ?thesis using b1(1) [OF z] b2(1) [OF z] by (simp add: rd1_def)
    qed
    moreover have "slot_key rd1 ?s = slot_key ?rd ?s" using b1(1) [OF sp] ne by (auto simp: slot_key_def rd1_def)
    ultimately show ?thesis using r(3,4) oh d'(3) d2(2) ne sp al(1) by (auto simp: table_step_def slot_key_def rd1_def)
  qed
  moreover have "parse_dinode (slot_bytes ?rd ?c) = Ok di" using di(2) by (simp add: parse_dinode_def)
  ultimately show ?thesis using r(1,2) rd ch pa other dt di(3) by (intro exI [of _ v'] exI [of _ di] exI [of _ dt]) auto
qed

end

section \<open>Creating files and symbolic links\<close>

text \<open>
  The inode number that the allocation finds is new: if an inode is already found under it, it is the free slot itself.
\<close>

definition fresh_slot :: "'c env \<Rightarrow> 'c volume \<Rightarrow> 32 word \<times> nat \<times> nat \<Rightarrow> bool" where
  "fresh_slot E v slot \<longleftrightarrow> fst (allocate_inode E v) = Ok slot \<and>
     (case inode_read E (fst slot) v of (Ok i, _) \<Rightarrow> (i_page_block i, i_page_offset i) = snd slot | _ \<Rightarrow> True)"

text \<open>The directory after the operation, and the inodes that are neither the child nor the directory.\<close>

definition entered :: "'c env \<Rightarrow> (dinode \<Rightarrow> dinode) \<Rightarrow> 32 word \<Rightarrow> inode \<Rightarrow> ucs2 \<Rightarrow> 32 word \<Rightarrow> 'c volume \<Rightarrow> bool" where
  "entered E h parent p name child v' \<longleftrightarrow>
     (\<exists>dt. inode_read E parent v' = (Ok (p\<lparr>i_dinode := h (with_root dt (i_dinode p))\<rparr>), v') \<and>
        dtroot_bytes (with_root dt (i_dinode p)) = dt \<and> added (dtroot_bytes (i_dinode p)) name child dt)"

definition others_kept :: "'c env \<Rightarrow> (nat \<times> nat) set \<Rightarrow> 'c volume \<Rightarrow> 'c volume \<Rightarrow> bool" where
  "others_kept E S v v' \<longleftrightarrow> (\<forall>j i. inode_read E j v = (Ok i, v) \<and> (i_page_block i, i_page_offset i) \<notin> S \<longrightarrow> inode_read E j v' = (Ok i, v'))"

lemma creation:
  assumes "library E valid" "idle E (roomy E valid) (k + 3) v" "inode_read E parent v = (Ok p, v)" "is_dir (i_dinode p)"
    "accepts (dtroot_bytes (i_dinode p)) name" "name_ok name" "fresh_slot E v (child, cb, coff)"
    and touch: "touches E (roomy E valid) parent p touch h"
    and init: "\<And>d di. length d = DISIZE \<Longrightarrow> dinode_parse d = Inr di \<Longrightarrow> length (init d) = DISIZE \<and> dinode_parse (init d) = Inr (g di) \<and>
      key_of (init d) = (word_of_nat FILESYSTEM_I, child - word_of_nat FILESYSTEM_I)"
  shows "\<exists>t v0 v1 v' di. v_begin v = (Ok t, v0) \<and> allocate_inode E v0 = (Ok (child, cb, coff), v1) \<and>
    create_child E parent name (child, cb, coff) init touch v1 = (Ok child, v') \<and> idle E (roomy E valid) k v' \<and>
    inode_read E child v' = (Ok \<lparr>i_dinode = g di, i_ino = child, i_page_block = cb, i_page_offset = coff\<rparr>, v') \<and>
    parse_dinode (slot_bytes (peek_block (v_storage v)) (cb, coff)) = Ok di \<and> length (di_u di) = 384 \<and>
    entered E h parent p name child v' \<and> others_kept E {(cb, coff), (i_page_block p, i_page_offset p)} v v' \<and>
    table_step (cb, coff) child (i_page_block p, i_page_offset p) v v'"
proof -
  have L: "library E (roomy E valid)" using library.roomy_library [OF assms(1)] .
  have c: "fst (allocate_inode E v) = Ok (child, cb, coff)" using assms(7) by (simp add: fresh_slot_def)
  have new: "(i_page_block i, i_page_offset i) = (cb, coff)" if "inode_read E child v = (Ok i, v)" for i
    using assms(7) that by (simp add: fresh_slot_def)
  from library.begin_allocate [OF L assms(2) c] obtain t tm0 tm a where
    b: "v_begin v = (Ok t, v\<lparr>v_tx := tm0\<rparr>)" "allocate_inode E (v\<lparr>v_tx := tm0\<rparr>) = (Ok (child, cb, coff), v\<lparr>v_tx := tm\<rparr>)"
    "active tm = Some a" "at_dirty_pages a = []" by blast
  have n: "length name \<le> 11" using assms(6) by (simp add: name_ok_def)
  have "2 \<le> lru_cap (e_lru E) c" if "roomy E valid c" for c using that by (simp add: roomy_def)
  from library.child_created [where init = init and g = g, OF L assms(2) this assms(3-5) n c new init touch b(3,4)] b(1,2)
  show ?thesis unfolding entered_def others_kept_def by blast
qed

lemma create_file_made:
  assumes "library E valid" "idle E (roomy E valid) (k + 3) v" "inode_read E parent v = (Ok p, v)" "is_dir (i_dinode p)"
    "accepts (dtroot_bytes (i_dinode p)) (encode_utf16 name)" "name_ok (encode_utf16 name)" "fresh_slot E v (child, cb, coff)"
  shows "\<exists>v' c. create_file E parent name v = (Ok child, v') \<and> idle E (roomy E valid) k v' \<and>
    inode_read E child v' = (Ok c, v') \<and> (i_page_block c, i_page_offset c) = (cb, coff) \<and>
    is_regular (i_dinode c) \<and> inode_size c = 0 \<and> nlink (i_dinode c) = 1 \<and>
    (\<exists>di. parse_dinode (slot_bytes (peek_block (v_storage v)) (cb, coff)) = Ok di \<and> di_u (i_dinode c) = di_u di) \<and>
    entered E id parent p (encode_utf16 name) child v' \<and> others_kept E {(cb, coff), (i_page_block p, i_page_offset p)} v v' \<and>
    table_step (cb, coff) child (i_page_block p, i_page_offset p) v v'"
proof -
  have i: "length (init_inode 0x81a4 0 1 child d) = DISIZE \<and> dinode_parse (init_inode 0x81a4 0 1 child d) = Inr (created 0x81a4 0 1 child di) \<and>
      key_of (init_inode 0x81a4 0 1 child d) = (word_of_nat FILESYSTEM_I, child - word_of_nat FILESYSTEM_I)"
    if "length d = DISIZE" "dinode_parse d = Inr di" for d di using init_inode_parse [OF that] by blast
  note touch = library.mark_inode_dirty_touches [OF library.roomy_library [OF assms(1)], of parent p]
  from creation [where init = "init_inode 0x81a4 0 1 child" and g = "created 0x81a4 0 1 child", OF assms touch i] obtain t v0 v1 v' di where
    b: "v_begin v = (Ok t, v0)" "allocate_inode E v0 = (Ok (child, cb, coff), v1)"
    "create_child E parent (encode_utf16 name) (child, cb, coff) (init_inode 0x81a4 0 1 child) (mark_inode_dirty E parent) v1 = (Ok child, v')"
    and r: "idle E (roomy E valid) k v'"
    "inode_read E child v' = (Ok \<lparr>i_dinode = created 0x81a4 0 1 child di, i_ino = child, i_page_block = cb, i_page_offset = coff\<rparr>, v')"
    "parse_dinode (slot_bytes (peek_block (v_storage v)) (cb, coff)) = Ok di"
    "entered E id parent p (encode_utf16 name) child v'" "others_kept E {(cb, coff), (i_page_block p, i_page_offset p)} v v'"
    "table_step (cb, coff) child (i_page_block p, i_page_offset p) v v'" by blast
  have "create_file E parent name v = (Ok child, v')" using b assms(6) by (simp add: create_file_def)
  then show ?thesis using r
    by (intro exI [of _ v'] exI [of _ "\<lparr>i_dinode = created 0x81a4 0 1 child di, i_ino = child, i_page_block = cb, i_page_offset = coff\<rparr>"])
      (simp add: created_def is_regular_def mode_def inode_size_def size_val_def nlink_def)
qed

lemma create_file_run:
  assumes "library E valid" "idle E (roomy E valid) (k + 3) v" "inode_read E parent v = (Ok p, v)" "is_dir (i_dinode p)"
    "accepts (dtroot_bytes (i_dinode p)) (encode_utf16 name)" "name_ok (encode_utf16 name)" "fresh_slot E v (child, cb, coff)"
  shows "\<exists>v' c. create_file E parent name v = (Ok child, v') \<and> idle E (roomy E valid) k v' \<and>
    inode_read E child v' = (Ok c, v') \<and> (i_page_block c, i_page_offset c) = (cb, coff) \<and>
    is_regular (i_dinode c) \<and> inode_size c = 0 \<and> nlink (i_dinode c) = 1 \<and>
    entered E id parent p (encode_utf16 name) child v' \<and> others_kept E {(cb, coff), (i_page_block p, i_page_offset p)} v v'"
  using create_file_made [OF assms] by blast


text \<open>
  What a new file takes over: its union, which holds the extent tree, is that of the free inode. When the slot belonged
  to a removed file, whose blocks are free by then, the new file maps those blocks.
\<close>

theorem create_file_inherits_extents:
  assumes "library E valid" "idle E (roomy E valid) (k + 3) v" "inode_read E parent v = (Ok p, v)" "is_dir (i_dinode p)"
    "accepts (dtroot_bytes (i_dinode p)) (encode_utf16 name)" "name_ok (encode_utf16 name)" "fresh_slot E v (child, cb, coff)"
    "inode_read E child v = (Ok old, v)"
  shows "\<exists>v' c. create_file E parent name v = (Ok child, v') \<and> inode_read E child v' = (Ok c, v') \<and>
    xtroot_bytes (i_dinode c) = xtroot_bytes (i_dinode old)"
proof -
  have L: "library E (roomy E valid)" using library.roomy_library [OF assms(1)] .
  note id = library.idle_table [OF L assms(2)]
  have "inode_at (peek_block (v_storage v)) v child = Ok old" using assms(8) library.inode_read_at [OF L id(1,3)] by simp
  moreover have "(i_page_block old, i_page_offset old) = (cb, coff)" using assms(7,8) by (simp add: fresh_slot_def)
  ultimately have "parse_dinode (slot_bytes (peek_block (v_storage v)) (cb, coff)) = Ok (i_dinode old)" using inode_at_Ok [OF id(3)] by auto
  then show ?thesis using create_file_made [OF assms(1-7)] by (auto simp: xtroot_bytes_def)
qed

text \<open>The target of a symbolic link lies at the start of the union.\<close>

lemma put_target_parse:
  assumes "length d = DISIZE" "dinode_parse d = Inr di" "length t < 128"
  shows "length (splice 128 t d) = DISIZE" "dinode_parse (splice 128 t d) = Inr (di\<lparr>di_u := t @ drop (length t) (di_u di)\<rparr>)"
    "key_of (splice 128 t d) = key_of d"
proof -
  have u: "di_u di = slice 128 512 d" using assms(1,2) by (auto simp: dinode_parse_def DISIZE_def)
  have "slice 128 512 (splice 128 t d) = t @ drop (length t) (di_u di)"
    using assms(1,3) u by (simp add: splice_def slice_def DISIZE_def min_def add.commute)
  moreover have "slice a b (splice 128 t d) = slice a b d" if "b \<le> 128" for a b
    using assms(1,3) that by (intro slice_splice_other) (simp_all add: DISIZE_def)
  moreover have "splice 128 t d ! k = d ! k" if "k < 128" for k using assms(1,3) that by (simp add: nth_splice DISIZE_def)
  ultimately show "dinode_parse (splice 128 t d) = Inr (di\<lparr>di_u := t @ drop (length t) (di_u di)\<rparr>)" "key_of (splice 128 t d) = key_of d"
    using assms by (auto simp: dinode_parse_def parse_timestruc_def parse_dxd_def DISIZE_def key_of_def)
qed (use assms in \<open>simp add: DISIZE_def\<close>)

lemma symlink_run:
  assumes "library E valid" "idle E (roomy E valid) (k + 3) v" "inode_read E parent v = (Ok p, v)" "is_dir (i_dinode p)"
    "accepts (dtroot_bytes (i_dinode p)) (encode_utf16 name)" "name_ok (encode_utf16 name)" "fresh_slot E v (child, cb, coff)"
    "0 < length (as_bytes target)" "length (as_bytes target) < 128"
  shows "\<exists>v' c. symlink E parent name target v = (Ok child, v') \<and> idle E (roomy E valid) k v' \<and> v_open_handles v' = v_open_handles v \<and>
    inode_read E child v' = (Ok c, v') \<and> is_symlink (i_dinode c) \<and> nlink (i_dinode c) = 1 \<and>
    (i_page_block c, i_page_offset c) = (cb, coff) \<and> read_symlink E child v' = (Ok (as_bytes target), v') \<and>
    entered E id parent p (encode_utf16 name) child v' \<and> others_kept E {(cb, coff), (i_page_block p, i_page_offset p)} v v'"
proof -
  let ?t = "as_bytes target"
  let ?m = "created 0xA1FF (length ?t) 1 child"
  let ?init = "\<lambda>d. let d = init_inode 0xA1FF (length ?t) 1 child d in if 128 + length ?t \<le> length d then splice 128 ?t d else d"
  let ?g = "\<lambda>di. (?m di)\<lparr>di_u := ?t @ drop (length ?t) (di_u di)\<rparr>"
  have i: "length (?init d) = DISIZE \<and> dinode_parse (?init d) = Inr (?g di) \<and>
      key_of (?init d) = (word_of_nat FILESYSTEM_I, child - word_of_nat FILESYSTEM_I)"
    if "length d = DISIZE" "dinode_parse d = Inr di" for d di
  proof -
    note ip = init_inode_parse [OF that, of "0xA1FF" "length ?t" 1 child]
    have "128 + length ?t \<le> length (init_inode 0xA1FF (length ?t) 1 child d)" using ip(1) assms(9) by (simp add: DISIZE_def)
    with put_target_parse [OF ip(1,2) assms(9)] ip(3) show ?thesis by (simp add: Let_def) (simp add: created_def)
  qed
  note touch = library.mark_inode_dirty_touches [OF library.roomy_library [OF assms(1)], of parent p]
  from creation [where init = ?init and g = ?g, OF assms(1-7) touch i] obtain t v0 v1 v' di where
    b: "v_begin v = (Ok t, v0)" "allocate_inode E v0 = (Ok (child, cb, coff), v1)"
    "create_child E parent (encode_utf16 name) (child, cb, coff) ?init (mark_inode_dirty E parent) v1 = (Ok child, v')"
    and r: "idle E (roomy E valid) k v'"
    "inode_read E child v' = (Ok \<lparr>i_dinode = ?g di, i_ino = child, i_page_block = cb, i_page_offset = coff\<rparr>, v')" "length (di_u di) = 384"
    "entered E id parent p (encode_utf16 name) child v'" "others_kept E {(cb, coff), (i_page_block p, i_page_offset p)} v v'"
    "table_step (cb, coff) child (i_page_block p, i_page_offset p) v v'" by blast
  have "symlink E parent name target v = (Ok child, v')" using b assms(6,9) by (simp add: symlink_def Let_def)
  moreover have "read_symlink E child v' = (Ok ?t, v')"
  proof -
    have "unat (word_of_nat (length ?t) :: 64 word) = length ?t" using assms(9) by (simp add: unsigned_of_nat take_bit_nat_eq_self)
    then show ?thesis using r(2,3) assms(8,9)
      by (simp add: read_symlink_def created_def is_symlink_def mode_def inode_size_def size_val_def Let_def slice_def)
  qed
  moreover have "is_symlink (?g di)" "nlink (?g di) = 1" by (simp_all add: created_def is_symlink_def mode_def nlink_def)
  moreover have "v_open_handles v' = v_open_handles v" using r(6) by (simp add: table_step_def)
  ultimately show ?thesis using r(1,2,4,5)
    by (intro exI [of _ v'] exI [of _ "\<lparr>i_dinode = ?g di, i_ino = child, i_page_block = cb, i_page_offset = coff\<rparr>"]) simp
qed

text \<open>
  C7. A symbolic link gives its target back: after \<open>symlink\<close> with a target of 1 to 127 bytes, under the conditions for creating a
  file (a directory without holes and with fewer than 8 entries, a new name of 1 to 11 UTF-16 code units, a free
  inode), \<open>read_symlink\<close> returns exactly those bytes, and the directory lists the link.
\<close>

theorem symlink_read_symlink:
  assumes "library E valid" "idle E (roomy E valid) (k + 3) v" "inode_read E parent v = (Ok p, v)" "is_dir (i_dinode p)"
    "accepts (dtroot_bytes (i_dinode p)) (encode_utf16 name)" "name_ok (encode_utf16 name)" "fresh_slot E v (child, cb, coff)"
    "0 < length (as_bytes target)" "length (as_bytes target) < 128"
  shows "\<exists>v'. symlink E parent name target v = (Ok child, v') \<and> idle E (roomy E valid) k v' \<and>
    read_symlink E child v' = (Ok (as_bytes target), v') \<and>
    entered E id parent p (encode_utf16 name) child v' \<and> others_kept E {(cb, coff), (i_page_block p, i_page_offset p)} v v'"
  using symlink_run [OF assms] by blast

end
