(* ===== verification/Volume_Files.thy ===== *)
theory Volume_Files
  imports Volume_Create
begin

text \<open>
  Many creations in a row. The allocation of inodes is a search for the first free slot of the table; as long as every
  inode of the file system has the number of its slot, the number it gives is new. Creations keep
  that, so that a directory without holes takes names until its eight entries are used.
\<close>

section \<open>The first free slot\<close>

definition slot_number :: "'c volume \<Rightarrow> nat \<times> nat \<Rightarrow> nat" where
  "slot_number v s = (fst s - unat (pxd_address (s_ait2 (v_sb v)))) * INOSPERPAGE + snd s div DISIZE"

definition ino_of :: "'c volume \<Rightarrow> nat \<times> nat \<Rightarrow> 32 word" where
  "ino_of v s = word_of_nat FILESYSTEM_I + word_of_nat (slot_number v s)"

definition is_free :: "'c volume \<Rightarrow> nat \<times> nat \<Rightarrow> bool" where
  "is_free v s \<longleftrightarrow> get_u32 52 (slot_bytes (peek_block (v_storage v)) s) = 0 \<and> ino_of v s \<noteq> word_of_nat (FILESYSTEM_I + ROOT_I)"

lemma free_slot_find:
  assumes "length data = BLOCK_SIZE" "list_all (\<lambda>i. i < INOSPERPAGE) is"
  shows "free_slot data k is = map_option (\<lambda>i. (word_of_nat FILESYSTEM_I + word_of_nat (k * INOSPERPAGE + i), i * DISIZE))
    (find (\<lambda>i. get_u32 (i * DISIZE + 52) data = 0 \<and> word_of_nat FILESYSTEM_I + word_of_nat (k * INOSPERPAGE + i) \<noteq> (word_of_nat (FILESYSTEM_I + ROOT_I) :: 32 word)) is)"
  using assms(2)
proof (induction "is")
  case (Cons i "is")
  then have "i * DISIZE + DISIZE \<le> length data" using assms(1) by (simp add: INOSPERPAGE_def DISIZE_def block_size_defs)
  then show ?case using Cons by (simp add: Let_def)
qed simp

context library
begin

lemma free_in_blocks_find:
  assumes "quiet E valid v" "\<And>k. k \<in> set ks \<Longrightarrow> start + k < v_agg_size v \<Longrightarrow> \<exists>d. peek_block (v_storage v) (start + k) = Ok d \<and> length d = BLOCK_SIZE"
    and start: "start = unat (pxd_address (s_ait2 (v_sb v)))"
  shows "fst (free_in_blocks E ks v) =
    (case find (is_free v) (slots_from start (v_agg_size v) ks) of Some s \<Rightarrow> Ok (ino_of v s, s) | None \<Rightarrow> Err NoFreeInode)"
  using assms(2)
proof (induction ks)
  case (Cons k ks)
  let ?b = "start + k" and ?rd = "peek_block (v_storage v)"
  have IH: "fst (free_in_blocks E ks v) =
    (case find (is_free v) (slots_from start (v_agg_size v) ks) of Some s \<Rightarrow> Ok (ino_of v s, s) | None \<Rightarrow> Err NoFreeInode)"
    using Cons.prems by (intro Cons.IH) simp
  have t: "table_page E ?b v = (?rd ?b, v)"
    using assms(1) by (simp add: read_page_ok table_page_def cache_peek_block_def quiet_def)
  show ?case
  proof (cases "v_agg_size v \<le> ?b")
    case True
    then show ?thesis using IH start by (simp add: slots_from_def)
  next
    case False
    then obtain d where d: "?rd ?b = Ok d" "length d = BLOCK_SIZE" using Cons.prems by fastforce
    have sl: "slots_from start (v_agg_size v) (k # ks) = map (\<lambda>i. (?b, i * DISIZE)) [0..<INOSPERPAGE] @ slots_from start (v_agg_size v) ks"
      using False by (simp add: slots_from_def)
    have n: "ino_of v (?b, i * DISIZE) = word_of_nat FILESYSTEM_I + word_of_nat (k * INOSPERPAGE + i)" for i
      using start by (simp add: ino_of_def slot_number_def DISIZE_def)
    have "is_free v (?b, i * DISIZE) \<longleftrightarrow> get_u32 (i * DISIZE + 52) d = 0 \<and>
        word_of_nat FILESYSTEM_I + word_of_nat (k * INOSPERPAGE + i) \<noteq> (word_of_nat (FILESYSTEM_I + ROOT_I) :: 32 word)" for i
      using d(1) n [of i] by (simp add: is_free_def slot_bytes_def get_u32_def slice_slice DISIZE_def add.commute)
    then have f: "free_slot d k [0..<INOSPERPAGE] =
        map_option (\<lambda>i. (ino_of v (?b, i * DISIZE), i * DISIZE)) (find (\<lambda>i. is_free v (?b, i * DISIZE)) [0..<INOSPERPAGE])"
      using free_slot_find [OF d(2), of "[0..<INOSPERPAGE]" k] n by (simp add: list_all_iff)
    show ?thesis
      using False t d(1) f IH start
      by (cases "find (\<lambda>i. is_free v (?b, i * DISIZE)) [0..<INOSPERPAGE]") (simp_all add: sl [unfolded start] find_append find_map Let_def)
  qed
qed (simp add: slots_from_def)

text \<open>Allocation takes the first free slot, and fails only when there is none.\<close>

lemma allocate_first:
  assumes "idle E valid k v"
  shows "fst (allocate_inode E v) = (case find (is_free v) (table_slots v) of Some s \<Rightarrow> Ok (ino_of v s, s) | None \<Rightarrow> Err NoFreeInode)"
proof -
  note id = idle_table [OF assms]
  have "\<exists>d. peek_block (v_storage v) (unat (pxd_address (s_ait2 (v_sb v))) + j) = Ok d \<and> length d = BLOCK_SIZE"
    if "j \<in> set [0..<max_scan v]" "unat (pxd_address (s_ait2 (v_sb v))) + j < v_agg_size v" for j
    using that id(3) by (auto simp: table_ok_def table_blocks_def)
  from free_in_blocks_find [of v "[0..<max_scan v]", OF id(1) this refl] show ?thesis by (simp add: allocate_inode_def table_slots_def)
qed

end

lemma slot_cases: "s \<in> set (table_slots v) \<Longrightarrow> \<exists>b i. s = (b, i * DISIZE) \<and> b \<in> table_blocks v \<and> i < INOSPERPAGE"
  using table_slots_iff [of "fst s" "snd s" v] by (auto simp: prod_eq_iff)

lemma slot_number_bound:
  assumes "s \<in> set (table_slots v)"
  shows "16 + slot_number v s < 2 ^ 32"
proof -
  obtain b i where s: "s = (b, i * DISIZE)" "b \<in> table_blocks v" "i < INOSPERPAGE" using slot_cases [OF assms] by blast
  then have "b - unat (pxd_address (s_ait2 (v_sb v))) < 2 ^ 24 + 32" using max_scan_bound [of v] by (auto simp: table_blocks_def)
  then show ?thesis using s by (simp add: slot_number_def DISIZE_def INOSPERPAGE_def)
qed

lemma eight_unique: "(x :: nat) * 8 + i = y * 8 + j \<Longrightarrow> i < 8 \<Longrightarrow> j < 8 \<Longrightarrow> x = y \<and> i = j"
  by presburger

lemma slot_number_inj:
  assumes "s \<in> set (table_slots v)" "z \<in> set (table_slots v)" "(word_of_nat (slot_number v s) :: 32 word) = word_of_nat (slot_number v z)"
  shows "s = z"
proof -
  obtain b i where s: "s = (b, i * DISIZE)" "b \<in> table_blocks v" "i < INOSPERPAGE" using slot_cases [OF assms(1)] by blast
  obtain c j where z: "z = (c, j * DISIZE)" "c \<in> table_blocks v" "j < INOSPERPAGE" using slot_cases [OF assms(2)] by blast
  let ?a = "unat (pxd_address (s_ait2 (v_sb v)))"
  have "slot_number v s = slot_number v z"
    using arg_cong [OF assms(3), of unat] slot_number_bound [OF assms(1)] slot_number_bound [OF assms(2)]
    by (simp add: unsigned_of_nat take_bit_nat_eq_self)
  then have "(b - ?a) * 8 + i = (c - ?a) * 8 + j" using s(1) z(1) by (simp add: slot_number_def DISIZE_def INOSPERPAGE_def)
  moreover have "i < 8" "j < 8" using s(3) z(3) by (simp_all add: INOSPERPAGE_def)
  ultimately have "b - ?a = c - ?a" "i = j" using eight_unique by blast+
  then show ?thesis using s z by (auto simp: table_blocks_def)
qed

section \<open>Numbers\<close>

text \<open>Every inode of the file system but the root has the number of its slot.\<close>

definition numbered :: "'c volume \<Rightarrow> bool" where
  "numbered v \<longleftrightarrow> (\<forall>s\<in>set (table_slots v). fst (slot_key (peek_block (v_storage v)) s) = word_of_nat FILESYSTEM_I \<longrightarrow>
     snd (slot_key (peek_block (v_storage v)) s) \<in> {word_of_nat ROOT_I, word_of_nat (slot_number v s)})"

lemma ino_of_key:
  assumes "s \<in> set (table_slots v)"
  shows "inode_key (ino_of v s) = (word_of_nat FILESYSTEM_I, word_of_nat (slot_number v s))"
proof -
  have "ino_of v s = word_of_nat (16 + slot_number v s)" by (simp add: ino_of_def FILESYSTEM_I_def)
  moreover have "unat (word_of_nat (16 + slot_number v s) :: 32 word) = 16 + slot_number v s"
    using slot_number_bound [OF assms] by (simp only: unsigned_of_nat) (simp add: take_bit_nat_eq_self)
  ultimately show ?thesis by (simp add: inode_key_def FILESYSTEM_I_def)
qed

lemma numbered_fresh:
  assumes "library E valid" "idle E valid k v" "numbered v" "find (is_free v) (table_slots v) = Some s"
  shows "fresh_slot E v (ino_of v s, s)"
proof -
  note id = library.idle_table [OF assms(1,2)]
  from find_SomeD [OF assms(4)] have s: "s \<in> set (table_slots v)" "is_free v s" by simp_all
  have "(i_page_block i, i_page_offset i) = s" if i: "inode_at (peek_block (v_storage v)) v (ino_of v s) = Ok i" for i
  proof -
    let ?z = "(i_page_block i, i_page_offset i)"
    from inode_at_Ok [OF id(3) i] have z: "?z \<in> set (table_slots v)"
      "slot_key (peek_block (v_storage v)) ?z = (word_of_nat FILESYSTEM_I, word_of_nat (slot_number v s))"
      using ino_of_key [OF s(1)] by (auto dest: find_SomeD)
    with assms(3) have "word_of_nat (slot_number v s) \<in> {word_of_nat ROOT_I :: 32 word, word_of_nat (slot_number v ?z)}" by (force simp: numbered_def)
    moreover have "word_of_nat (slot_number v s) \<noteq> (word_of_nat ROOT_I :: 32 word)" using s(2) by (auto simp: is_free_def ino_of_def)
    ultimately show ?thesis using slot_number_inj [OF s(1) z(1)] by simp
  qed
  moreover have "fst (allocate_inode E v) = Ok (ino_of v s, s)" using library.allocate_first [OF assms(1,2)] assms(4) by simp
  ultimately show ?thesis using library.inode_read_at [OF assms(1) id(1,3), of "ino_of v s"]
    by (simp add: fresh_slot_def split: res.split)
qed

lemma step_table:
  assumes "table_step c child s v v'"
  shows "table_slots v' = table_slots v" "slot_number v' = slot_number v" "ino_of v' = ino_of v"
  using assms by (simp_all add: table_step_def table_slots_def max_scan_def slot_number_def ino_of_def fun_eq_iff)

lemma numbered_step:
  assumes "numbered v" "table_step c (ino_of v c) s v v'" "c \<in> set (table_slots v)"
  shows "numbered v'"
  unfolding numbered_def step_table [OF assms(2)]
proof (intro ballI impI)
  fix z assume z: "z \<in> set (table_slots v)" "fst (slot_key (peek_block (v_storage v')) z) = word_of_nat FILESYSTEM_I"
  consider "z = c" | "z \<noteq> c" "z = s" | "z \<notin> {c, s}" by blast
  then show "snd (slot_key (peek_block (v_storage v')) z) \<in> {word_of_nat ROOT_I, word_of_nat (slot_number v z)}"
  proof cases
    case 1
    then show ?thesis using assms(2) ino_of_key [OF assms(3)] by (simp add: table_step_def)
  next
    case 2
    then have "slot_key (peek_block (v_storage v')) z = slot_key (peek_block (v_storage v)) z" using assms(2) by (simp add: table_step_def)
    then show ?thesis using assms(1) z by (simp add: numbered_def)
  next
    case 3
    then have "slot_key (peek_block (v_storage v')) z = slot_key (peek_block (v_storage v)) z" using assms(2) z(1) by (simp add: table_step_def slot_key_def)
    then show ?thesis using assms(1) z by (simp add: numbered_def)
  qed
qed

definition free_slots :: "'c volume \<Rightarrow> (nat \<times> nat) set" where
  "free_slots v = {s \<in> set (table_slots v). is_free v s}"

lemma free_slots_step:
  assumes "table_step c child s v v'" "\<not> is_free v s"
  shows "card (free_slots v) \<le> card (free_slots v') + 1"
proof -
  have "free_slots v \<subseteq> insert c (free_slots v')"
  proof
    fix z assume z: "z \<in> free_slots v"
    show "z \<in> insert c (free_slots v')"
    proof (cases "z = c")
      case False
      then have "slot_bytes (peek_block (v_storage v')) z = slot_bytes (peek_block (v_storage v)) z"
        using assms z by (auto simp: table_step_def free_slots_def)
      then show ?thesis using z step_table [OF assms(1)] by (simp add: free_slots_def is_free_def)
    qed simp
  qed
  moreover have fin: "finite (free_slots v')" by (simp add: free_slots_def)
  ultimately have "card (free_slots v) \<le> card (insert c (free_slots v'))" by (intro card_mono) simp_all
  also have "\<dots> \<le> card (free_slots v') + 1" using fin by (simp add: card_insert_if)
  finally show ?thesis .
qed

section \<open>Creating many files\<close>

text \<open>A directory and a table with room for \<open>m\<close> more files.\<close>

definition takes :: "'c env \<Rightarrow> 32 word \<Rightarrow> nat \<Rightarrow> inode \<Rightarrow> 'c volume \<Rightarrow> bool" where
  "takes E parent m p v \<longleftrightarrow> inode_read E parent v = (Ok p, v) \<and> is_dir (i_dinode p) \<and> packed (dtroot_bytes (i_dinode p)) \<and>
     length (entry_list (dtroot_bytes (i_dinode p))) + m \<le> 8 \<and> numbered v \<and> m \<le> card (free_slots v)"

definition new_file :: "'c env \<Rightarrow> 32 word \<Rightarrow> 'c volume \<Rightarrow> bool" where
  "new_file E ino v \<longleftrightarrow> (\<exists>c. inode_read E ino v = (Ok c, v) \<and> is_regular (i_dinode c) \<and> inode_size c = 0 \<and> nlink (i_dinode c) = 1)"

text \<open>The inodes in use, other than the directory, stay as they are, and none of them has a number of \<open>S\<close>.\<close>

definition used_kept :: "'c env \<Rightarrow> 32 word \<Rightarrow> 32 word set \<Rightarrow> 'c volume \<Rightarrow> 'c volume \<Rightarrow> bool" where
  "used_kept E parent S v v' \<longleftrightarrow> (\<forall>j i. inode_read E j v = (Ok i, v) \<and> mode (i_dinode i) \<noteq> 0 \<and> j \<noteq> parent \<longrightarrow>
     inode_read E j v' = (Ok i, v') \<and> j \<notin> S)"

lemma packed_accepts:
  assumes "packed d" "length (entry_list d) < 8" "name \<notin> de_name ` set (entry_list d)"
  shows "accepts d name"
proof -
  have wf: "dt_wf d" "no_free_list d" using assms(1) by (simp_all add: packed_def)
  have "dt_next_index d < 8" using length_stbl [OF wf(1)] assms(2) by (simp add: entry_list_def)
  then show ?thesis using wf packed_next [OF assms(1)] assms(3) by (simp add: accepts_def)
qed

lemma used_not_free:
  assumes "library E valid" "idle E valid k v" "inode_read E j v = (Ok i, v)" "mode (i_dinode i) \<noteq> 0"
  shows "\<not> is_free v (i_page_block i, i_page_offset i)"
proof -
  note id = library.idle_table [OF assms(1,2)]
  have "inode_at (peek_block (v_storage v)) v j = Ok i" using assms(3) library.inode_read_at [OF assms(1) id(1,3)] by simp
  note ip = inode_at_Ok [OF id(3) this]
  let ?d = "slot_bytes (peek_block (v_storage v)) (i_page_block i, i_page_offset i)"
  have "length ?d = DISIZE" using slot_fits [OF id(3), of "(i_page_block i, i_page_offset i)"] ip by (auto simp: slot_bytes_def)
  moreover have "dinode_parse ?d = Inr (i_dinode i)" using ip by (auto simp: parse_dinode_def split: sum.splits)
  ultimately show ?thesis using get_mode assms(4) by (simp add: is_free_def)
qed

lemma takes_fresh:
  assumes "library E valid" "idle E valid k v" "takes E parent (Suc m) p v"
  shows "\<exists>c\<in>set (table_slots v). is_free v c \<and> fresh_slot E v (ino_of v c, fst c, snd c)"
proof -
  have "free_slots v \<noteq> {}" "numbered v" using assms(3) by (auto simp: takes_def)
  then obtain c where c: "find (is_free v) (table_slots v) = Some c" by (cases "find (is_free v) (table_slots v)") (auto simp: free_slots_def find_None_iff)
  from find_SomeD [OF c] numbered_fresh [OF assms(1,2) \<open>numbered v\<close> c] show ?thesis by auto
qed

lemma create_one:
  assumes "library E valid" "idle E (roomy E valid) (k + 3) v" "takes E parent (Suc m) p v" "name_ok (encode_utf16 name)"
    "encode_utf16 name \<notin> de_name ` set (entry_list (dtroot_bytes (i_dinode p)))"
  shows "\<exists>ino v' p'. create_file E parent name v = (Ok ino, v') \<and> idle E (roomy E valid) k v' \<and> takes E parent m p' v' \<and> new_file E ino v' \<and>
    map de_name (entry_list (dtroot_bytes (i_dinode p'))) = map de_name (entry_list (dtroot_bytes (i_dinode p))) @ [encode_utf16 name] \<and>
    map de_inumber (entry_list (dtroot_bytes (i_dinode p'))) = map de_inumber (entry_list (dtroot_bytes (i_dinode p))) @ [ino] \<and>
    ino \<noteq> parent \<and> used_kept E parent {ino} v v'"
proof -
  have L: "library E (roomy E valid)" using library.roomy_library [OF assms(1)] .
  note id = library.idle_table [OF L assms(2)]
  let ?dt = "dtroot_bytes (i_dinode p)" and ?s = "(i_page_block p, i_page_offset p)"
  have p: "inode_read E parent v = (Ok p, v)" "is_dir (i_dinode p)" "packed ?dt" "length (entry_list ?dt) < 8" "numbered v" "Suc m \<le> card (free_slots v)"
    using assms(3) by (simp_all add: takes_def)
  from takes_fresh [OF L assms(2,3)] obtain c where cs: "c \<in> set (table_slots v)" "is_free v c"
    and fr: "fresh_slot E v (ino_of v c, fst c, snd c)" by blast
  from create_file_made [OF assms(1,2) p(1,2) packed_accepts [OF p(3,4) assms(5)] assms(4) fr] obtain v' f where
    f: "create_file E parent name v = (Ok (ino_of v c), v')" "idle E (roomy E valid) k v'" "inode_read E (ino_of v c) v' = (Ok f, v')"
    "is_regular (i_dinode f)" "inode_size f = 0" "nlink (i_dinode f) = 1"
    and e: "entered E id parent p (encode_utf16 name) (ino_of v c) v'" and o: "others_kept E {c, ?s} v v'" and st: "table_step c (ino_of v c) ?s v v'" by auto
  from e obtain dt where dt: "inode_read E parent v' = (Ok (p\<lparr>i_dinode := with_root dt (i_dinode p)\<rparr>), v')"
    "dtroot_bytes (with_root dt (i_dinode p)) = dt" "added ?dt (encode_utf16 name) (ino_of v c) dt" by (auto simp: entered_def)
  have md: "mode (i_dinode p) \<noteq> 0" using p(2) by (auto simp: is_dir_def)
  note nf = used_not_free [OF L assms(2)]
  have "is_dir (with_root dt (i_dinode p))" using p(2) by (simp add: is_dir_def mode_def with_root_def)
  moreover have "m \<le> card (free_slots v')" using free_slots_step [OF st nf [OF p(1) md]] p(6) by simp
  ultimately have t: "takes E parent m (p\<lparr>i_dinode := with_root dt (i_dinode p)\<rparr>) v'"
    using dt numbered_step [OF p(5) st cs(1)] p(3) assms(3) by (simp add: takes_def added_def)
  have new: "(i_page_block i, i_page_offset i) = c" if "inode_read E (ino_of v c) v = (Ok i, v)" for i
    using fr that by (simp add: fresh_slot_def prod_eq_iff)
  have np: "ino_of v c \<noteq> parent" using new [of p] p(1) nf [OF p(1) md] cs(2) by auto
  have "inode_read E j v' = (Ok i, v') \<and> j \<noteq> ino_of v c" if j: "inode_read E j v = (Ok i, v)" "mode (i_dinode i) \<noteq> 0" "j \<noteq> parent" for j i
  proof -
    let ?z = "(i_page_block i, i_page_offset i)"
    note at = library.inode_read_at [OF L id(1,3)]
    have "?z \<noteq> ?s"
    proof
      assume "?z = ?s"
      moreover have "inode_at (peek_block (v_storage v)) v j = Ok i" "inode_at (peek_block (v_storage v)) v parent = Ok p" using j(1) p(1) at by simp_all
      ultimately have "inode_key j = inode_key parent" using inode_at_Ok [OF id(3)] by (metis (mono_tags, lifting) find_SomeD)
      then show False using library.inode_key_inj [OF L] j(3) by blast
    qed
    moreover have zc: "?z \<noteq> c" using nf [OF j(1,2)] cs(2) by auto
    ultimately show ?thesis using o j(1) new [of i] by (auto simp: others_kept_def)
  qed
  then show ?thesis using f t np dt(2,3)
    by (intro exI [of _ "ino_of v c"] exI [of _ v'] exI [of _ "p\<lparr>i_dinode := with_root dt (i_dinode p)\<rparr>"])
      (auto simp: new_file_def used_kept_def added_def)
qed

fun create_files :: "'c env \<Rightarrow> 32 word \<Rightarrow> str list \<Rightarrow> 'c volume \<Rightarrow> 32 word list res \<times> 'c volume" where
  "create_files E parent [] v = (Ok [], v)"
| "create_files E parent (n # ns) v =
     st_bind (create_file E parent n v) (\<lambda>ino v. st_bind (create_files E parent ns v) (\<lambda>inos v. (Ok (ino # inos), v)))"

lemma used_kept_trans:
  assumes "used_kept E parent S v v'" "used_kept E parent T v' v''"
  shows "used_kept E parent (S \<union> T) v v''"
  using assms by (auto simp: used_kept_def)

lemma new_file_used: "new_file E ino v \<Longrightarrow> \<exists>c. inode_read E ino v = (Ok c, v) \<and> mode (i_dinode c) \<noteq> 0"
  by (auto simp: new_file_def is_regular_def)

lemma create_files_run:
  assumes "library E valid" "idle E (roomy E valid) (k + 3 * length names) v" "takes E parent (length names) p v"
    "list_all (\<lambda>n. name_ok (encode_utf16 n)) names" "distinct (map encode_utf16 names)"
    "set (map encode_utf16 names) \<inter> de_name ` set (entry_list (dtroot_bytes (i_dinode p))) = {}"
  shows "\<exists>inos v' p'. create_files E parent names v = (Ok inos, v') \<and> idle E (roomy E valid) k v' \<and> takes E parent 0 p' v' \<and>
    map de_name (entry_list (dtroot_bytes (i_dinode p'))) = map de_name (entry_list (dtroot_bytes (i_dinode p))) @ map encode_utf16 names \<and>
    map de_inumber (entry_list (dtroot_bytes (i_dinode p'))) = map de_inumber (entry_list (dtroot_bytes (i_dinode p))) @ inos \<and>
    distinct inos \<and> parent \<notin> set inos \<and> (\<forall>ino\<in>set inos. new_file E ino v') \<and> used_kept E parent (set inos) v v'"
  using assms(2-)
proof (induction names arbitrary: v p)
  case Nil
  then show ?case by (intro exI [of _ "[]"] exI [of _ v] exI [of _ p]) (auto simp: used_kept_def)
next
  case (Cons n ns)
  let ?es = "\<lambda>p. entry_list (dtroot_bytes (i_dinode p))"
  have i: "idle E (roomy E valid) (k + 3 * length ns + 3) v" and t: "takes E parent (Suc (length ns)) p v" "name_ok (encode_utf16 n)"
    "encode_utf16 n \<notin> de_name ` set (?es p)" using Cons.prems by (simp_all add: algebra_simps)
  from create_one [OF assms(1) i t] obtain ino v1 p1 where
    one: "create_file E parent n v = (Ok ino, v1)" "idle E (roomy E valid) (k + 3 * length ns) v1" "takes E parent (length ns) p1 v1" "new_file E ino v1"
    "map de_name (?es p1) = map de_name (?es p) @ [encode_utf16 n]" "map de_inumber (?es p1) = map de_inumber (?es p) @ [ino]"
    "ino \<noteq> parent" "used_kept E parent {ino} v v1" by blast
  have "de_name ` set (?es p1) = de_name ` set (?es p) \<union> {encode_utf16 n}" using arg_cong [OF one(5), of set] by simp
  then have "set (map encode_utf16 ns) \<inter> de_name ` set (?es p1) = {}" using Cons.prems(4,5) by auto
  from Cons.IH [OF one(2,3) _ _ this] Cons.prems(3,4) obtain inos v' p' where
    rest: "create_files E parent ns v1 = (Ok inos, v')" "idle E (roomy E valid) k v'" "takes E parent 0 p' v'"
    "map de_name (?es p') = map de_name (?es p1) @ map encode_utf16 ns" "map de_inumber (?es p') = map de_inumber (?es p1) @ inos"
    "distinct inos" "parent \<notin> set inos" "\<forall>ino\<in>set inos. new_file E ino v'" "used_kept E parent (set inos) v1 v'" by auto
  from new_file_used [OF one(4)] rest(9) one(7) have "ino \<notin> set inos" by (auto simp: used_kept_def)
  moreover have "new_file E ino v'" using one(4,7) new_file_used [OF one(4)] rest(9) by (auto simp: new_file_def used_kept_def)
  moreover have "used_kept E parent (set (ino # inos)) v v'" using used_kept_trans [OF one(8) rest(9)] by simp
  ultimately show ?case using one(1,5-7) rest by (intro exI [of _ "ino # inos"] exI [of _ v'] exI [of _ p']) simp
qed

end
