(* ===== verification/Volume_Mkdir.thy ===== *)
theory Volume_Mkdir
  imports Volume_Create
begin

text \<open>
  Creating a directory: besides the steps of every creation the new inode gets the entries \<open>.\<close> and \<open>..\<close>, and the parent
  one link more, in the page that already holds the new entry.
\<close>

section \<open>The root of a new directory\<close>

lemma init_dtroot_bytes:
  assumes "length d = DISIZE" and D_def: "D = init_dtroot child parent d"
  shows "length D = DISIZE" "b \<le> 224 \<Longrightarrow> slice a b D = slice a b d" "k < 224 \<Longrightarrow> D ! k = d ! k"
    "D ! 241 = 2" "D ! 242 = 0" "slice 248 250 D = [1, 2]" "D ! 261 = 1" "D ! 293 = 2"
    "slice 256 260 D = list_of_arr4 (write_u32 child)" "slice 262 264 D = list_of_arr2 (write_u16 0x2E)" "slice 284 288 D = list_of_arr4 (write_u32 0)"
    "slice 288 292 D = list_of_arr4 (write_u32 parent)" "slice 294 298 D = list_of_arr2 (write_u16 0x2E) @ list_of_arr2 (write_u16 0x2E)"
    "slice 316 320 D = list_of_arr4 (write_u32 1)"
proof -
  note defs = D_def init_dtroot_def Let_def put_u32_def put_u16_def DISIZE_def
  show l: "length D = DISIZE" using assms(1) by (simp add: defs)
  show "b \<le> 224 \<Longrightarrow> slice a b D = slice a b d" using assms(1) by (simp add: defs slice_splice_other slice_update_other)
  show "k < 224 \<Longrightarrow> D ! k = d ! k" using assms(1) by (simp add: defs nth_splice)
  show "D ! 241 = 2" "D ! 242 = 0" "D ! 261 = 1" "D ! 293 = 2" using assms(1) by (simp_all add: defs nth_splice)
  have "D ! 248 = 1" "D ! 249 = 2" using assms(1) by (simp_all add: defs nth_splice)
  then show "slice 248 250 D = [1, 2]" using l by (intro nth_equalityI) (auto simp: less_Suc_eq DISIZE_def numeral_2_eq_2)
  show "slice 256 260 D = list_of_arr4 (write_u32 child)" "slice 262 264 D = list_of_arr2 (write_u16 0x2E)" "slice 284 288 D = list_of_arr4 (write_u32 0)"
    "slice 288 292 D = list_of_arr4 (write_u32 parent)" "slice 316 320 D = list_of_arr4 (write_u32 1)"
    using assms(1) by (simp_all add: defs slice_splice_other slice_splice_same' slice_update_other)
  have "slice 294 296 D = list_of_arr2 (write_u16 0x2E)" "slice 296 298 D = list_of_arr2 (write_u16 0x2E)"
    using assms(1) by (simp_all add: defs slice_splice_other slice_splice_same' slice_update_other)
  then show "slice 294 298 D = list_of_arr2 (write_u16 0x2E) @ list_of_arr2 (write_u16 0x2E)"
    using slice_split [of 294 296 298 D] by simp
qed

definition dot_entries :: "32 word \<Rightarrow> 32 word \<Rightarrow> dir_entry list" where
  "dot_entries child parent = [\<lparr>de_inumber = child, de_name = [0x2E], de_index = 0\<rparr>, \<lparr>de_inumber = parent, de_name = [0x2E, 0x2E], de_index = 1\<rparr>]"

lemma u16_dots: "bytes_to_u16 (list_of_arr2 (write_u16 w)) = [w]" "bytes_to_u16 (list_of_arr2 (write_u16 w) @ list_of_arr2 (write_u16 x)) = [w, x]"
proof -
  have "\<exists>a b. write_u16 y = A2 a b" for y by (cases "write_u16 y") auto
  then obtain a b c e where "write_u16 w = A2 a b" "write_u16 x = A2 c e" by metis
  then show "bytes_to_u16 (list_of_arr2 (write_u16 w)) = [w]" "bytes_to_u16 (list_of_arr2 (write_u16 w) @ list_of_arr2 (write_u16 x)) = [w, x]"
    using read_write_u16 [of w] read_write_u16 [of x] by simp_all
qed

lemma dot_root:
  assumes "length d = DISIZE" "r = slice 224 512 (init_dtroot child parent d)"
  shows "length r = 288" "dt_wf r" "no_free_list r" "entry_list r = dot_entries child parent"
proof -
  note b = init_dtroot_bytes [where child = child and parent = parent, OF assms(1) refl]
  have n: "r ! k = init_dtroot child parent d ! (224 + k)" if "k < 288" for k using that b(1) by (simp add: assms(2) DISIZE_def)
  have s: "slice a c r = slice (224 + a) (224 + c) (init_dtroot child parent d)" if "c \<le> 288" for a c using that by (simp add: assms(2) slice_slice)
  show l: "length r = 288" using b(1) by (simp add: assms(2) DISIZE_def)
  have i: "dt_next_index r = 2" using n [of 17] b(4) l by (simp add: dt_next_index_def DTROOT_NEXTINDEX_def)
  then have st: "stbl r = [1, 2]" using s [of 26 24] b(6) by (simp add: stbl_def read_stbl_def)
  show "no_free_list r" using n [of 18] b(5) by (simp add: no_free_list_def)
  have len: "r ! 37 = 1" "r ! 69 = 2" using n [of 37] n [of 69] b(7,8) by simp_all
  show "dt_wf r" using l i st len by (simp add: dt_wf_def slot_ok_def)
  have "view_at r 32 = \<lparr>de_inumber = child, de_name = [0x2E], de_index = 0\<rparr>" "view_at r 64 = \<lparr>de_inumber = parent, de_name = [0x2E, 0x2E], de_index = 1\<rparr>"
    using len s [of 36 32] s [of 40 38] s [of 64 60] s [of 68 64] s [of 74 70] s [of 96 92] b(9-14) by (simp_all add: view_at_def u16_dots)
  then show "entry_list r = dot_entries child parent" by (simp add: entry_list_def st dot_entries_def)
qed

lemma init_dtroot_parse:
  assumes "length d = DISIZE" "dinode_parse d = Inr di"
  shows "dinode_parse (init_dtroot child parent d) = Inr (with_root (slice 224 512 (init_dtroot child parent d)) di)"
    "key_of (init_dtroot child parent d) = key_of d"
proof -
  let ?D = "init_dtroot child parent d"
  note b = init_dtroot_bytes [where child = child and parent = parent, OF assms(1) refl]
  have "slice 128 512 ?D = slice 128 224 d @ slice 224 512 ?D" using slice_split [of 128 224 512 ?D] b(2) by simp
  moreover have "take 96 (slice 128 512 d) = slice 128 224 d" by (simp add: slice_def drop_take)
  ultimately show "dinode_parse ?D = Inr (with_root (slice 224 512 ?D) di)" "key_of ?D = key_of d"
    using assms b(1-3) by (auto simp: dinode_parse_def parse_timestruc_def parse_dxd_def DISIZE_def with_root_def key_of_def)
qed

section \<open>The link of the parent\<close>

definition linked :: "dinode \<Rightarrow> dinode" where
  "linked di = di\<lparr>di_nlink := write_u32 (nlink di + 1)\<rparr>"

lemma get_nlink: "length d = DISIZE \<Longrightarrow> dinode_parse d = Inr di \<Longrightarrow> get_u32 40 d = nlink di"
  by (auto simp: dinode_parse_def get_u32_def nlink_def DISIZE_def)

definition link_parent :: "'c env \<Rightarrow> 32 word \<Rightarrow> 'c volume \<Rightarrow> unit res \<times> 'c volume" where
  "link_parent E parent v = st_bind (inode_read E parent v) (\<lambda>p v.
     st_bind (update_at E p inc_nlink v) (\<lambda>_ v. mark_page_dirty E parent (i_page_block p) v))"

context library
begin

lemma update_inode_page_cached:
  assumes "valid (cache (v_cache v))" "lru_peek (e_lru E) (cache (v_cache v)) = m" "m (ino, b) = Some r"
    "off + DISIZE \<le> length (cp_data r)" "f (slice off (off + DISIZE) (cp_data r)) = Ok d'"
  shows "\<exists>c p. update_inode_page E ino b off f v = (Ok (), v\<lparr>v_cache := c\<rparr>) \<and> valid (cache c) \<and>
    lru_peek (e_lru E) (cache c) = m((ino, b) \<mapsto> p) \<and> cp_data p = splice off d' (cp_data r)"
proof -
  let ?L = "e_lru E" and ?c = "cache (v_cache v)"
  obtain x l where g: "lru_get ?L ?c (ino, b) = (x, l)" by fastforce
  from get_law [OF assms(1), of "(ino, b)"] g assms(2,3) have r: "x = Some r" "valid l" "lru_peek ?L l = m" by auto
  define l2 where "l2 = lru_get_mut ?L l (ino, b) (\<lambda>p. (cp_pin p)\<lparr>cp_data := splice off d' (cp_data r)\<rparr>)"
  have l2: "valid l2" "lru_peek ?L l2 = m((ino, b) \<mapsto> (cp_pin r)\<lparr>cp_data := splice off d' (cp_data r)\<rparr>)"
    using get_mut_law [OF r(2), of "(ino, b)" "\<lambda>p. (cp_pin p)\<lparr>cp_data := splice off d' (cp_data r)\<rparr>"] r(3) assms(3)
    by (auto simp: l2_def)
  define l3 where "l3 = lru_get_mut ?L l2 (ino, b) cp_unpin"
  have l3: "valid l3" "lru_peek ?L l3 = m((ino, b) \<mapsto> cp_unpin ((cp_pin r)\<lparr>cp_data := splice off d' (cp_data r)\<rparr>))"
    using get_mut_law [OF l2(1), of "(ino, b)" cp_unpin] l2(2) by (auto simp: l3_def)
  have "update_inode_page E ino b off f v = (Ok (), v\<lparr>v_cache := (v_cache v)\<lparr>cache := l3\<rparr>\<rparr>)"
    using g r assms(3-5)
    by (simp add: update_inode_page_def get_or_load_def cache_peek_def edit_dinode_def get_mut_for_write_def unpin_page_def l3_def l2_def)
  with l3 show ?thesis by (intro exI [of _ "(v_cache v)\<lparr>cache := l3\<rparr>"]) (auto simp: cp_unpin_def cp_pin_def)
qed

lemma link_parent_touches:
  assumes "nlink (i_dinode p) \<noteq> - 1" "i_ino p = parent"
  shows "touches E valid parent p (link_parent E parent) linked"
  unfolding touches_def
proof (intro allI impI, elim conjE)
  fix v a m dp and r :: cached_page
  let ?b = "(parent, i_page_block p)" and ?d = "slice (i_page_offset p) (i_page_offset p + DISIZE) (cp_data r)"
  assume w: "inode_read E parent v = (Ok (p\<lparr>i_dinode := dp\<rparr>), v)" "active (v_tx v) = Some a" "?b \<notin> set (at_dirty_pages a)"
    "valid (cache (v_cache v))" "lru_peek (e_lru E) (cache (v_cache v)) = m" "m ?b = Some r"
    "i_page_offset p + DISIZE \<le> length (cp_data r)" "dinode_parse ?d = Inr dp" "nlink dp = nlink (i_dinode p)"
  have l: "length ?d = DISIZE" using w(7) by simp
  define d where "d = put_u32 40 (nlink dp + 1) ?d"
  have f: "inc_nlink ?d = Ok d" using get_nlink [OF l w(8)] w(9) assms(1) by (simp add: inc_nlink_def d_def)
  have d: "length d = DISIZE" "key_of d = key_of ?d" "dinode_parse d = Inr (linked dp)"
    using l put_fields(1) [OF l w(8)] by (simp_all add: d_def linked_def key_of_def put_u32_def slice_splice_other DISIZE_def)
  from update_inode_page_cached [where f = inc_nlink, OF w(4-7) f] obtain c q where
    u: "update_inode_page E parent (i_page_block p) (i_page_offset p) inc_nlink v = (Ok (), v\<lparr>v_cache := c\<rparr>)" "valid (cache c)"
    "lru_peek (e_lru E) (cache c) = m(?b \<mapsto> q)" "cp_data q = splice (i_page_offset p) d (cp_data r)" by blast
  have q: "(m(?b \<mapsto> q)) ?b = Some q" by simp
  from mark_page_dirty_cached [of "v\<lparr>v_cache := c\<rparr>" "m(?b \<mapsto> q)" parent "i_page_block p" q a] u(2,3) w(2,3) obtain c' q' where
    m: "mark_page_dirty E parent (i_page_block p) (v\<lparr>v_cache := c\<rparr>) =
      (Ok (), v\<lparr>v_tx := (v_tx v)\<lparr>active := Some (a\<lparr>at_dirty_pages := at_dirty_pages a @ [?b]\<rparr>)\<rparr>, v_cache := c'\<rparr>)"
    "valid (cache c')" "lru_peek (e_lru E) (cache c') = m(?b \<mapsto> q')" "cp_data q' = cp_data q" by auto
  show "\<exists>c q d. link_parent E parent v =
      (Ok (), v\<lparr>v_tx := (v_tx v)\<lparr>active := Some (a\<lparr>at_dirty_pages := at_dirty_pages a @ [?b]\<rparr>)\<rparr>, v_cache := c\<rparr>) \<and>
    valid (cache c) \<and> lru_peek (e_lru E) (cache c) = m(?b \<mapsto> q) \<and> cp_data q = splice (i_page_offset p) d (cp_data r) \<and>
    length d = DISIZE \<and> key_of d = key_of ?d \<and> dinode_parse d = Inr (linked dp)"
    using w(1) u(1,4) m d assms(2)
    by (intro exI [of _ c'] exI [of _ q'] exI [of _ d]) (simp add: link_parent_def update_at_def)
qed

end

section \<open>Creating directories\<close>

text \<open>
  C8. Creating a directory works on a volume between operations, in a directory without holes that has fewer than 8 entries and a link count
  below the maximum, under a new name of 1 to 11 UTF-16 code units, when the inode table has a free slot whose number is not
  in use: the operation commits, the new directory has two links and lists itself as \<open>.\<close> and its parent as \<open>..\<close>; the parent lists its
  old entries and then the new one and has one link more; every other inode is as before.
\<close>

theorem mkdir_correct:
  assumes "library E valid" "idle E (roomy E valid) (k + 3) v" "inode_read E parent v = (Ok p, v)" "is_dir (i_dinode p)"
    "accepts (dtroot_bytes (i_dinode p)) (encode_utf16 name)" "name_ok (encode_utf16 name)" "fresh_slot E v (child, cb, coff)"
    "nlink (i_dinode p) \<noteq> - 1"
  shows "\<exists>v' c. mkdir E parent name v = (Ok child, v') \<and> idle E (roomy E valid) k v' \<and>
    inode_read E child v' = (Ok c, v') \<and> (i_page_block c, i_page_offset c) = (cb, coff) \<and> is_dir (i_dinode c) \<and> nlink (i_dinode c) = 2 \<and>
    dt_entries (dtroot_bytes (i_dinode c)) = Ok (dot_entries child parent) \<and>
    entered E linked parent p (encode_utf16 name) child v' \<and> others_kept E {(cb, coff), (i_page_block p, i_page_offset p)} v v'"
proof -
  let ?init = "\<lambda>d. init_dtroot child parent (init_inode 0x41ED 0 2 child d)"
  let ?g = "\<lambda>di. with_root (slice 224 512 (?init (dinode_bytes di))) (created 0x41ED 0 2 child di)"
  have L: "library E (roomy E valid)" using library.roomy_library [OF assms(1)] .
  note id = library.idle_table [OF L assms(2)]
  have "inode_at (peek_block (v_storage v)) v parent = Ok p" using assms(3) library.inode_read_at [OF L id(1,3)] by simp
  then have ino: "i_ino p = parent" using inode_at_Ok [OF id(3)] by blast
  note touch = library.link_parent_touches [OF L assms(8) ino]
  have i: "length (?init d) = DISIZE \<and> dinode_parse (?init d) = Inr (?g di) \<and>
      key_of (?init d) = (word_of_nat FILESYSTEM_I, child - word_of_nat FILESYSTEM_I)"
    if d: "length d = DISIZE" "dinode_parse d = Inr di" for d di
  proof -
    note ip = init_inode_parse [OF d, of "0x41ED" 0 2 child]
    have "dinode_bytes di = d" using d by (intro dinode_bytes_parse) (simp_all add: DISIZE_def)
    then show ?thesis using init_dtroot_bytes(1) [OF ip(1) refl] init_dtroot_parse [OF ip(1,2)] ip(3) by simp
  qed
  from creation [where init = ?init and g = ?g, OF assms(1-7) touch i] obtain t v0 v1 v' di where
    b: "v_begin v = (Ok t, v0)" "allocate_inode E v0 = (Ok (child, cb, coff), v1)"
    "create_child E parent (encode_utf16 name) (child, cb, coff) ?init (link_parent E parent) v1 = (Ok child, v')"
    and r: "idle E (roomy E valid) k v'"
    "inode_read E child v' = (Ok \<lparr>i_dinode = ?g di, i_ino = child, i_page_block = cb, i_page_offset = coff\<rparr>, v')" "length (di_u di) = 384"
    "entered E linked parent p (encode_utf16 name) child v'" "others_kept E {(cb, coff), (i_page_block p, i_page_offset p)} v v'"
    by blast
  have "length (dinode_bytes di) = DISIZE" using r(3) by (simp add: DISIZE_def)
  from init_inode_parse(1) [OF this] dinode_parse_bytes [OF r(3)]
  have li: "length (init_inode 0x41ED 0 2 child (dinode_bytes di)) = DISIZE" by simp
  note dr = dot_root [OF li refl, of child parent]
  have lu: "length (take 96 (di_u di)) = 96" using r(3) by simp
  have root: "dtroot_bytes (?g di) = slice 224 512 (?init (dinode_bytes di))"
    using lu by (simp add: dtroot_bytes_def with_root_def created_def)
  have "mkdir E parent name v = (Ok child, v')" using b assms(6) by (simp add: mkdir_def link_parent_def [abs_def])
  then show ?thesis using r(1,2,4,5) root dt_entries_list [OF dr(2)] dr(4)
    by (intro exI [of _ v'] exI [of _ "\<lparr>i_dinode = ?g di, i_ino = child, i_page_block = cb, i_page_offset = coff\<rparr>"])
      (simp add: with_root_def created_def is_dir_def mode_def nlink_def)
qed

text \<open>
  A directory that holds only \<open>.\<close> and \<open>..\<close>, as a new one does, counts as not empty when another directory is renamed onto
  it, so such a rename is always refused.
\<close>

theorem rename_onto_new_directory:
  assumes "library E valid" "idle E valid k v" "\<And>b. v_bmap v = Some b \<Longrightarrow> allocated b = [] \<and> freed b = []"
    "name_ok (encode_utf16 old)" "name_ok (encode_utf16 new)" "inode_read E parent v = (Ok p, v)" "dt_wf (dtroot_bytes (i_dinode p))"
    "dt_lookup (dtroot_bytes (i_dinode p)) (encode_utf16 old) = Ok (Some e)" "inode_read E (de_inumber e) v = (Ok c, v)" "is_dir (i_dinode c)"
    "dt_lookup (dtroot_bytes (i_dinode p)) (encode_utf16 new) = Ok (Some e')" "inode_read E (de_inumber e') v = (Ok d, v)" "is_dir (i_dinode d)"
    "dt_wf (dtroot_bytes (i_dinode d))" "entry_list (dtroot_bytes (i_dinode d)) = dot_entries child parent"
  shows "\<exists>v'. rename E parent old parent new v = (Err (Other ''destination directory not empty''), v')"
proof -
  from library.idle_begin [OF assms(1,2)] obtain x tm a where
    b: "v_begin v = (Ok x, v\<lparr>v_tx := tm\<rparr>)" "active tm = Some a"
    "\<And>ino i. inode_read E ino v = (Ok i, v) \<Longrightarrow> inode_read E ino (v\<lparr>v_tx := tm\<rparr>) = (Ok i, v\<lparr>v_tx := tm\<rparr>)" by blast
  let ?w = "v\<lparr>v_tx := tm\<rparr>"
  have rd: "read_dir E parent ?w = (Ok (p, dtroot_bytes (i_dinode p)), ?w)" by (rule library.read_dir_wf [OF assms(1) b(3) [OF assms(6)] assms(7)])
  have df: "dt_from_inode_data (dtroot_bytes (i_dinode d)) = Ok (dtroot_bytes (i_dinode d))"
    using assms(14) by (simp add: dt_wf_def dt_from_inode_data_def DTROOT_ENTRY_BASE_def DTENTRYSTART_def DTSLOTSIZE_def)
  obtain v' where f: "fail_with E (Other ''destination directory not empty'') ?w = (Err (Other ''destination directory not empty'') :: unit res, v')"
    using b(2) assms(3) by (cases "v_bmap v") (simp_all add: fail_with_def v_abort_def tx_abort_def on_bmap_def rollback_def)
  have "guard_dest E True d ?w = (Err (Other ''destination directory not empty''), v')"
    using assms(13,15) df dt_entries_list [OF assms(14)] f by (simp add: guard_dest_def dot_entries_def)
  then show ?thesis using b(1) b(3) [OF assms(9)] b(3) [OF assms(12)] rd assms(4,5,8,10,11)
    by (simp add: rename_def rename_source_def rename_within_def)
qed

end
