(* ===== verification/Volume_Link.thy ===== *)
theory Volume_Link
  imports Volume_Create
begin

text \<open>
  Adding and removing links to an existing inode. Both operations change the directory first and then the inode, in
  two pages of the cache, and write the page of the inode before the page of the directory. When both inodes lie in
  one block of the table the two pages are copies of that block, the copy of the directory lacks the change of the inode,
  and it is the one that stays.
\<close>

section \<open>A directory and another inode in one transaction\<close>

text \<open>The blocks after the commit.\<close>

definition both_put :: "nat \<times> nat \<Rightarrow> bytes \<Rightarrow> nat \<times> nat \<Rightarrow> bytes \<Rightarrow> (nat \<Rightarrow> bytes res) \<Rightarrow> nat \<Rightarrow> bytes res" where
  "both_put t d' s d2 rd = (if fst t = fst s then put_slot s d2 rd else put_slot t d' (put_slot s d2 rd))"

lemma both_put_inodes:
  assumes "table_ok rd v" "inode_at rd v parent = Ok p" "inode_at rd v target = Ok t" "s = (i_page_block p, i_page_offset p)"
    "u = (i_page_block t, i_page_offset t)" "s \<noteq> u"
    and d2: "length d2 = DISIZE" "key_of d2 = slot_key rd s" "parse_dinode d2 = Ok dp"
    and d': "length d' = DISIZE" "key_of d' = slot_key rd u" "parse_dinode d' = Ok dt"
  shows "inode_at (both_put u d' s d2 rd) v parent = Ok (p\<lparr>i_dinode := dp\<rparr>)"
    "inode_at (both_put u d' s d2 rd) v target = Ok (if fst u = fst s then t else t\<lparr>i_dinode := dt\<rparr>)"
    "inode_at rd v j = Ok i \<Longrightarrow> (i_page_block i, i_page_offset i) \<notin> {s, u} \<Longrightarrow> inode_at (both_put u d' s d2 rd) v j = Ok i"
proof -
  let ?rd1 = "put_slot s d2 rd"
  have sl: "s \<in> set (table_slots v)" "u \<in> set (table_slots v)" using inode_at_Ok [OF assms(1,2)] inode_at_Ok [OF assms(1,3)] assms(4,5) by auto
  note b = put_slot_bytes [OF assms(1) sl(1) _ d2(1)]
  have k: "key_of d' = slot_key ?rd1 u" using b(1) [OF sl(2)] assms(6) d'(2) by (simp add: slot_key_def)
  have p1: "inode_at ?rd1 v parent = Ok (p\<lparr>i_dinode := dp\<rparr>)" using put_slot_same [OF assms(1,2) d2(1) _ d2(3)] d2(2) assms(4) by simp
  have t1: "inode_at ?rd1 v target = Ok t" using put_slot_other [OF assms(1) sl(1) d2(1) assms(3)] d2(2) assms(5,6) by simp
  note o2 = put_slot_other [OF b(2) [OF sl(1)] sl(2) d'(1)]
  show "inode_at (both_put u d' s d2 rd) v parent = Ok (p\<lparr>i_dinode := dp\<rparr>)"
    using p1 o2 [OF p1] k assms(4,6) by (simp add: both_put_def)
  show "inode_at (both_put u d' s d2 rd) v target = Ok (if fst u = fst s then t else t\<lparr>i_dinode := dt\<rparr>)"
    using t1 put_slot_same [OF b(2) [OF sl(1)] t1 d'(1) _ d'(3)] k assms(5) by (simp add: both_put_def)
  show "inode_at (both_put u d' s d2 rd) v j = Ok i" if "inode_at rd v j = Ok i" "(i_page_block i, i_page_offset i) \<notin> {s, u}"
  proof -
    have "inode_at ?rd1 v j = Ok i" using put_slot_other [OF assms(1) sl(1) d2(1) that(1)] d2(2) that(2) by simp
    then show ?thesis using o2 k that(2) by (simp add: both_put_def)
  qed
qed

context library
begin

lemma inode_read_beside:
  assumes "st_ok (v_storage v)" "table_ok (peek_block (v_storage v)) v" "inode_at (peek_block (v_storage v)) v ino = Ok i" "ino \<noteq> parent"
    and c: "valid (cache c)" "lru_peek (e_lru E) (cache c) = [(parent, pb) \<mapsto> r]"
      "put_slot (pb, poff) d2 (peek_block (v_storage v)) pb = Ok (cp_data r)"
    and s: "(pb, poff) \<in> set (table_slots v)" "length d2 = DISIZE" "key_of d2 = slot_key (peek_block (v_storage v)) (pb, poff)"
  shows "inode_read E ino (v\<lparr>v_tx := tm, v_cache := c\<rparr>) = (Ok i, v\<lparr>v_tx := tm, v_cache := c\<rparr>)"
proof -
  let ?rd = "peek_block (v_storage v)" and ?w = "v\<lparr>v_tx := tm, v_cache := c\<rparr>"
  from inode_at_Ok [OF assms(2,3)] have pk: "(i_page_block i, i_page_offset i) \<in> set (table_slots v)"
    "parse_dinode (slot_bytes ?rd (i_page_block i, i_page_offset i)) = Ok (i_dinode i)" by auto
  from slot_fits [OF assms(2) pk(1)] obtain d where d: "?rd (i_page_block i) = Ok d" "length d = BLOCK_SIZE" by auto
  have "inode_read E ino ?w = (Ok (i\<lparr>i_dinode := i_dinode i\<rparr>), ?w)"
  proof (rule inode_read_cached [where m = "[(parent, pb) \<mapsto> r]" and rd = ?rd and data = d])
    show "page_like ?rd ?w b (cp_data q)" if "[(parent, pb) \<mapsto> r] (j, b) = Some q" for j b q
      using that page_like_put [of ?rd ?w pb poff d2 "cp_data r"] c(3) s assms(2) by (auto split: if_splits)
  qed (use assms(1-4) c(1,2) d pk(2) in \<open>simp_all add: slot_bytes_def\<close>)
  then show ?thesis by simp
qed

text \<open>The inode is edited while the changed page of the directory is in the cache.\<close>

lemma edit_beside:
  assumes "st_ok (v_storage v)" "table_ok (peek_block (v_storage v)) v" and room: "\<And>c. valid c \<Longrightarrow> 2 \<le> lru_cap (e_lru E) c"
    and tm: "active tm = Some a" "at_dirty_pages a = []"
    and p: "(pb, poff) \<in> set (table_slots v)" "(tb, toff) \<in> set (table_slots v)" "(pb, poff) \<noteq> (tb, toff)" "target \<noteq> parent"
    and c: "valid (cache c)" "lru_peek (e_lru E) (cache c) = [(parent, pb) \<mapsto> r]"
      "put_slot (pb, poff) d2 (peek_block (v_storage v)) pb = Ok (cp_data r)" "length d2 = DISIZE"
    and f: "f (slot_bytes (peek_block (v_storage v)) (tb, toff)) = Ok d'"
  shows "\<exists>c' q. st_bind (update_inode_page E target tb toff f (v\<lparr>v_tx := tm, v_cache := c\<rparr>)) (\<lambda>_ v. mark_page_dirty E target tb v) =
      (Ok (), v\<lparr>v_tx := tm\<lparr>active := Some (a\<lparr>at_dirty_pages := [(target, tb)]\<rparr>)\<rparr>, v_cache := c'\<rparr>) \<and>
    valid (cache c') \<and> lru_peek (e_lru E) (cache c') = [(target, tb) \<mapsto> q, (parent, pb) \<mapsto> r] \<and>
    put_slot (tb, toff) d' (put_slot (pb, poff) d2 (peek_block (v_storage v))) tb = Ok (cp_data q)"
proof -
  let ?rd = "peek_block (v_storage v)" and ?w = "v\<lparr>v_tx := tm, v_cache := c\<rparr>" and ?m = "[(parent, pb) \<mapsto> r]"
  define rd1 where "rd1 = put_slot (pb, poff) d2 ?rd"
  note b1 = put_slot_bytes [OF assms(2) p(1) _ c(4), folded rd1_def]
  from slot_fits [OF b1(2) [OF p(1)] p(2)] obtain Y where Y: "rd1 tb = Ok Y" "toff + DISIZE \<le> length Y" by auto
  have "slot_bytes rd1 (tb, toff) = slot_bytes ?rd (tb, toff)" using b1(1) [OF p(2)] p(3) by auto
  then have fY: "f (slice toff (toff + DISIZE) Y) = Ok d'" using f Y(1) by (simp add: slot_bytes_def)
  have src: "cp_data q = Y" if "?m (j, tb) = Some q" for j q using that Y(1) c(3) by (auto simp: rd1_def split: if_splits)
  have dev: "peek_block (v_storage ?w) tb = Ok Y" if "\<And>j. ?m (j, tb) = None"
  proof -
    have "tb \<noteq> pb" using that [of parent] by auto
    then show ?thesis using Y(1) by (auto simp: rd1_def put_slot_def split: res.splits)
  qed
  have len: "lru_len (e_lru E) (cache (v_cache ?w)) < lru_cap (e_lru E) (cache (v_cache ?w))"
    using lru_len_one [OF c(1,2)] room [OF c(1)] by simp
  have "\<exists>c1 q. update_inode_page E target tb toff f ?w = (Ok (), ?w\<lparr>v_cache := c1\<rparr>) \<and> valid (cache c1) \<and>
    lru_peek (e_lru E) (cache c1) = ?m((target, tb) \<mapsto> q) \<and> cp_data q = splice toff d' Y"
    by (rule update_inode_page_load [where m = ?m and f = f and v = ?w, OF _ _ _ _ len src dev Y(2) fY]) (use assms(1) c(1,2) p(4) in simp_all)
  then obtain c1 q where u: "update_inode_page E target tb toff f ?w = (Ok (), v\<lparr>v_tx := tm, v_cache := c1\<rparr>)" "valid (cache c1)"
    "lru_peek (e_lru E) (cache c1) = ?m((target, tb) \<mapsto> q)" "cp_data q = splice toff d' Y" by auto
  from mark_page_dirty_cached [of "v\<lparr>v_tx := tm, v_cache := c1\<rparr>" _ target tb q a] u(2,3) tm obtain c2 q2 where
    m: "mark_page_dirty E target tb (v\<lparr>v_tx := tm, v_cache := c1\<rparr>) =
      (Ok (), v\<lparr>v_tx := tm\<lparr>active := Some (a\<lparr>at_dirty_pages := [(target, tb)]\<rparr>)\<rparr>, v_cache := c2\<rparr>)"
    "valid (cache c2)" "lru_peek (e_lru E) (cache c2) = ?m((target, tb) \<mapsto> q2)" "cp_data q2 = cp_data q" by auto
  have "lru_peek (e_lru E) (cache c2) = [(target, tb) \<mapsto> q2, (parent, pb) \<mapsto> r]"
    unfolding m(3) using p(4) by (intro fun_upd_twist) simp
  moreover have "put_slot (tb, toff) d' rd1 tb = Ok (cp_data q2)" using Y(1) u(4) m(4) by (simp add: put_slot_def)
  ultimately show ?thesis using u(1) m(1,2) unfolding rd1_def by (intro exI [of _ c2] exI [of _ q2]) simp
qed

text \<open>The directory is marked dirty after the inode, and both pages are written.\<close>

lemma commit_beside:
  assumes idl: "idle E valid (k + 3) v" and p: "inode_at (peek_block (v_storage v)) v parent = Ok p" "p = \<lparr>i_dinode = dp0, i_ino = parent, i_page_block = pb, i_page_offset = poff\<rparr>"
    and t: "(tb, toff) \<in> set (table_slots v)" "(pb, poff) \<noteq> (tb, toff)" "target \<noteq> parent"
    and tm: "active tm = Some a" "at_dirty_pages a = [(target, tb)]"
    and c: "valid (cache c)" "lru_peek (e_lru E) (cache c) = [(target, tb) \<mapsto> q, (parent, pb) \<mapsto> r]"
      "put_slot (pb, poff) d2 (peek_block (v_storage v)) pb = Ok (cp_data r)"
      "put_slot (tb, toff) d' (put_slot (pb, poff) d2 (peek_block (v_storage v))) tb = Ok (cp_data q)"
    and d2: "length d2 = DISIZE" "key_of d2 = slot_key (peek_block (v_storage v)) (pb, poff)" "parse_dinode d2 = Ok dp"
    and d': "length d' = DISIZE" "key_of d' = slot_key (peek_block (v_storage v)) (tb, toff)"
  shows "\<exists>rs v'. st_bind (mark_inode_dirty E parent (v\<lparr>v_tx := tm, v_cache := c\<rparr>)) (\<lambda>_ v. v_commit E v) = (Ok rs, v') \<and> idle E valid k v' \<and>
    (\<forall>j. inode_read E j v' = (inode_at (both_put (tb, toff) d' (pb, poff) d2 (peek_block (v_storage v))) v j, v'))"
proof -
  let ?rd = "peek_block (v_storage v)" and ?w = "v\<lparr>v_tx := tm, v_cache := c\<rparr>" and ?m = "[(target, tb) \<mapsto> q, (parent, pb) \<mapsto> r]"
  define rd1 where "rd1 = put_slot (pb, poff) d2 ?rd"
  note id = idle_table [OF idl]
  from inode_at_Ok [OF id(3) p(1)] p(2) have pk: "(pb, poff) \<in> set (table_slots v)" by simp
  note b1 = put_slot_bytes [OF id(3) pk _ d2(1), folded rd1_def]
  have t1: "table_ok rd1 v" by (rule b1(2) [OF pk])
  note b2 = put_slot_bytes [OF t1 t(1) _ d'(1)]
  have k1: "key_of d' = slot_key rd1 (tb, toff)" using b1(1) [OF t(1)] t(2) d'(2) by (auto simp: slot_key_def)
  have at1: "inode_at rd1 v parent = Ok (p\<lparr>i_dinode := dp\<rparr>)" using put_slot_same [OF id(3) p(1) d2(1) _ d2(3)] d2(2) p(2) by (simp add: rd1_def)
  have blk: "tb \<in> table_blocks v" "pb \<in> table_blocks v" using t(1) pk by (auto simp: table_slots_iff)
  have lens: "length (cp_data q) = BLOCK_SIZE" "length (cp_data r) = BLOCK_SIZE"
    using t1 b2(2) [OF t(1)] blk c(3,4) by (auto simp: table_ok_def rd1_def)
  have r1: "rd1 pb = Ok (cp_data r)" using c(3) by (simp add: rd1_def)
  have pr: "parse_dinode (slice poff (poff + DISIZE) (cp_data r)) = Ok dp" using b1(1) [OF pk] r1 d2(3) by (simp add: slot_bytes_def)
  have out: "rd1 b = ?rd b" if "b \<noteq> pb" for b using that by (auto simp: rd1_def put_slot_def split: res.split)
  have "inode_read E parent ?w = (Ok (p\<lparr>i_dinode := dp\<rparr>\<lparr>i_dinode := dp\<rparr>), ?w)"
  proof (rule inode_read_cached [where m = ?m and rd = rd1 and data = "cp_data r"])
    show "page_like rd1 ?w b (cp_data x)" if "?m (j, b) = Some x" for j b x
      using that page_like_same [of rd1 ?w b "cp_data x"] page_like_put [of rd1 ?w tb toff d' "cp_data x"] r1 c(4) t1 t(1) d'(1) k1
      by (auto simp: rd1_def split: if_splits)
    show "rd1 b = peek_block (v_storage ?w) b" if "\<And>j. ?m (j, b) = None" for b
      using that [of parent] out by (auto split: if_splits)
  qed (use id(2) t1 at1 c(1,2) lens pr p(2) in simp_all)
  then have rp: "inode_read E parent ?w = (Ok (p\<lparr>i_dinode := dp\<rparr>), ?w)" by simp
  let ?a = "a\<lparr>at_dirty_pages := [(target, tb), (parent, pb)]\<rparr>"
  from mark_page_dirty_cached [of ?w _ parent pb r a] c(1,2) t(3) tm obtain c2 r2 where
    m: "mark_page_dirty E parent pb ?w = (Ok (), v\<lparr>v_tx := tm\<lparr>active := Some ?a\<rparr>, v_cache := c2\<rparr>)"
    and c2: "valid (cache c2)" "lru_peek (e_lru E) (cache c2) = [(target, tb) \<mapsto> q, (parent, pb) \<mapsto> r2]" "cp_data r2 = cp_data r" by auto
  let ?v2 = "v\<lparr>v_tx := tm\<lparr>active := Some ?a\<rparr>, v_cache := c2\<rparr>"
  have md: "mark_inode_dirty E parent ?w = (Ok (), ?v2)" using rp m p(2) by (simp add: mark_inode_dirty_def)
  from commit_two [OF idl c2(1,2) t(3) blk lens(1) _ _ _, of "tm\<lparr>active := Some ?a\<rparr>" ?a] lens(2) c2(3) obtain rs v' where
    cm: "v_commit E ?v2 = (Ok rs, v')" "idle E valid k v'" "v_sb v' = v_sb v" "v_agg_size v' = v_agg_size v"
    "\<And>b. b \<in> table_blocks v \<Longrightarrow> peek_block (v_storage v') b =
       (if b = pb then Ok (cp_data r) else if b = tb then Ok (cp_data q) else ?rd b)" by auto
  have "peek_block (v_storage v') b = both_put (tb, toff) d' (pb, poff) d2 ?rd b" if b: "b \<in> table_blocks v" for b
  proof -
    have "put_slot (tb, toff) d' rd1 b = rd1 b" if "b \<noteq> tb" using that by (auto simp: put_slot_def split: res.split)
    then show ?thesis using cm(5) [OF b] c(3,4) out r1 unfolding both_put_def rd1_def [symmetric] by (cases "b = pb"; cases "b = tb") auto
  qed
  moreover have "table_ok (both_put (tb, toff) d' (pb, poff) d2 ?rd) v" using t1 b2(2) [OF t(1)] by (simp add: both_put_def rd1_def)
  ultimately have "inode_read E j v' = (inode_at (both_put (tb, toff) d' (pb, poff) d2 ?rd) v j, v')" for j
    using inode_read_after [OF cm(2-4)] by blast
  then show ?thesis using md cm(1,2) by (intro exI [of _ rs] exI [of _ v']) simp
qed

lemma change_both:
  assumes idl: "idle E valid (k + 3) v" and room: "\<And>c. valid c \<Longrightarrow> 2 \<le> lru_cap (e_lru E) c"
    and tm: "active tm = Some a" "at_dirty_pages a = []"
    and p: "inode_at (peek_block (v_storage v)) v parent = Ok p" "inode_at (peek_block (v_storage v)) v target = Ok t"
      "s = (i_page_block p, i_page_offset p)" "u = (i_page_block t, i_page_offset t)" "s \<noteq> u"
    and c: "valid (cache c)" "lru_peek (e_lru E) (cache c) = [(parent, fst s) \<mapsto> r]"
      "put_slot s d2 (peek_block (v_storage v)) (fst s) = Ok (cp_data r)"
    and d2: "length d2 = DISIZE" "key_of d2 = slot_key (peek_block (v_storage v)) s" "parse_dinode d2 = Ok dp"
    and d': "f (slot_bytes (peek_block (v_storage v)) u) = Ok d'" "length d' = DISIZE" "key_of d' = slot_key (peek_block (v_storage v)) u"
      "parse_dinode d' = Ok dt"
  shows "\<exists>v'. st_bind (update_at E t f (v\<lparr>v_tx := tm, v_cache := c\<rparr>)) (\<lambda>_ v. st_bind (mark_page_dirty E target (i_page_block t) v) (\<lambda>_ v.
      st_bind (mark_inode_dirty E parent v) (\<lambda>_ v. st_bind (v_commit E v) (\<lambda>_ v. (Ok x, v))))) = (Ok x, v') \<and> idle E valid k v' \<and>
    inode_read E parent v' = (Ok (p\<lparr>i_dinode := dp\<rparr>), v') \<and>
    inode_read E target v' = (Ok (if fst u = fst s then t else t\<lparr>i_dinode := dt\<rparr>), v') \<and> others_kept E {s, u} v v'"
proof -
  let ?rd = "peek_block (v_storage v)" and ?w = "v\<lparr>v_tx := tm, v_cache := c\<rparr>"
  note id = idle_table [OF idl]
  note ip = inode_at_Ok [OF id(3) p(1)] and it = inode_at_Ok [OF id(3) p(2)]
  have sl: "(fst s, snd s) \<in> set (table_slots v)" "(fst u, snd u) \<in> set (table_slots v)" "(fst s, snd s) \<noteq> (fst u, snd u)"
    using ip it p(3-5) by simp_all
  have ne: "target \<noteq> parent" using p by (metis res.inject)
  have n: "p = \<lparr>i_dinode = i_dinode p, i_ino = parent, i_page_block = fst s, i_page_offset = snd s\<rparr>" using ip p(3) by (cases p) simp
  have r: "put_slot (fst s, snd s) d2 ?rd (fst s) = Ok (cp_data r)" "f (slot_bytes ?rd (fst u, snd u)) = Ok d'" using c(3) d'(1) by simp_all
  from edit_beside [where f = f, OF id(2,3) room tm sl ne c(1,2) r(1) d2(1) r(2)] obtain c' q where
    e: "st_bind (update_inode_page E target (fst u) (snd u) f ?w) (\<lambda>_ v. mark_page_dirty E target (fst u) v) =
      (Ok (), v\<lparr>v_tx := tm\<lparr>active := Some (a\<lparr>at_dirty_pages := [(target, fst u)]\<rparr>)\<rparr>, v_cache := c'\<rparr>)"
    "valid (cache c')" "lru_peek (e_lru E) (cache c') = [(target, fst u) \<mapsto> q, (parent, fst s) \<mapsto> r]"
    "put_slot (fst u, snd u) d' (put_slot (fst s, snd s) d2 ?rd) (fst u) = Ok (cp_data q)" by blast
  from commit_beside [OF idl p(1) n sl(2,3) ne _ _ e(2,3) r(1) e(4) d2(1) _ d2(3) d'(2),
      of "tm\<lparr>active := Some (a\<lparr>at_dirty_pages := [(target, fst u)]\<rparr>)\<rparr>" "a\<lparr>at_dirty_pages := [(target, fst u)]\<rparr>"] d2(2) d'(3)
  obtain rs v' where
    m: "st_bind (mark_inode_dirty E parent (v\<lparr>v_tx := tm\<lparr>active := Some (a\<lparr>at_dirty_pages := [(target, fst u)]\<rparr>)\<rparr>, v_cache := c'\<rparr>)) (\<lambda>_ v. v_commit E v) = (Ok rs, v')"
    "idle E valid k v'" "\<And>j. inode_read E j v' = (inode_at (both_put u d' s d2 ?rd) v j, v')" by auto
  note bp = both_put_inodes [OF id(3) p d2 d'(2-4)]
  have "others_kept E {s, u} v v'" unfolding others_kept_def using m(3) bp(3) inode_read_at [OF id(1,3)] by auto
  then show ?thesis using e(1) m bp(1,2) it p(4) by (intro exI [of _ v']) (auto simp: update_at_def st_bind_Ok_iff)
qed

lemma quiet_cache:
  assumes "quiet E valid v"
  shows "valid (cache (v_cache v))" "lru_peek (e_lru E) (cache (v_cache v)) = Map.empty"
    "lru_len (e_lru E) (cache (v_cache v)) < lru_cap (e_lru E) (cache (v_cache v))"
  using assms view_law [of "cache (v_cache v)"] by (auto simp: quiet_def)

text \<open>The directory and the page it is edited in, at the start of a transaction.\<close>

lemma dir_page:
  assumes "idle E valid k v" "inode_read E parent v = (Ok p, v)"
  shows "\<exists>Y. inode_at (peek_block (v_storage v)) v parent = Ok p \<and> peek_block (v_storage v) (i_page_block p) = Ok Y \<and>
    i_page_offset p + DISIZE \<le> length Y \<and> parse_dinode (slice (i_page_offset p) (i_page_offset p + DISIZE) Y) = Ok (i_dinode p) \<and>
    key_of (slice (i_page_offset p) (i_page_offset p + DISIZE) Y) = slot_key (peek_block (v_storage v)) (i_page_block p, i_page_offset p)"
proof -
  note id = idle_table [OF assms(1)]
  have at: "inode_at (peek_block (v_storage v)) v parent = Ok p" using assms(2) inode_read_at [OF id(1,3)] by simp
  note ip = inode_at_Ok [OF id(3) at]
  with slot_fits [OF id(3), of "(i_page_block p, i_page_offset p)"] at show ?thesis by (auto simp: slot_bytes_def slot_key_def)
qed

text \<open>Adding the entry as the first step of a transaction.\<close>

lemma first_entry:
  assumes "idle E valid k v" "inode_read E parent v = (Ok p, v)" "inode_read E parent (v\<lparr>v_tx := tm\<rparr>) = (Ok p, v\<lparr>v_tx := tm\<rparr>)"
    "accepts (dtroot_bytes (i_dinode p)) name" "length name \<le> 11"
  shows "\<exists>c r d2 dt. add_entry E parent name child (v\<lparr>v_tx := tm\<rparr>) = (Ok (), v\<lparr>v_tx := tm, v_cache := c\<rparr>) \<and> valid (cache c) \<and>
    lru_peek (e_lru E) (cache c) = [(parent, i_page_block p) \<mapsto> r] \<and>
    put_slot (i_page_block p, i_page_offset p) d2 (peek_block (v_storage v)) (i_page_block p) = Ok (cp_data r) \<and> length d2 = DISIZE \<and>
    key_of d2 = slot_key (peek_block (v_storage v)) (i_page_block p, i_page_offset p) \<and> parse_dinode d2 = Ok (with_root dt (i_dinode p)) \<and>
    dtroot_bytes (with_root dt (i_dinode p)) = dt \<and> added (dtroot_bytes (i_dinode p)) name child dt"
proof -
  let ?v1 = "v\<lparr>v_tx := tm\<rparr>"
  have q: "quiet E valid ?v1" "st_ok (v_storage ?v1)" using idle_table(1,2) [OF assms(1)] by (simp_all add: quiet_def)
  from dir_page [OF assms(1,2)] obtain Y where Y: "peek_block (v_storage v) (i_page_block p) = Ok Y" "i_page_offset p + DISIZE \<le> length Y"
    "parse_dinode (slice (i_page_offset p) (i_page_offset p + DISIZE) Y) = Ok (i_dinode p)"
    "key_of (slice (i_page_offset p) (i_page_offset p + DISIZE) Y) = slot_key (peek_block (v_storage v)) (i_page_block p, i_page_offset p)" by blast
  from add_entry_load [where Y = Y and m = Map.empty and child = child, OF q(2) assms(3) quiet_cache(1,2) [OF q(1)] _ quiet_cache(3) [OF q(1)] _ _ Y(2,3) assms(4,5)] Y(1,4)
  show ?thesis by (fastforce simp: put_slot_def parse_dinode_def)
qed

text \<open>Removing the entry as the first step.\<close>

lemma first_removal:
  assumes "idle E valid k v" "inode_read E parent v = (Ok p, v)" "inode_read E parent (v\<lparr>v_tx := tm\<rparr>) = (Ok p, v\<lparr>v_tx := tm\<rparr>)"
    "dt_wf (dtroot_bytes (i_dinode p))" "entry_list (dtroot_bytes (i_dinode p)) = es1 @ e # es2" "de_name e = name" "name \<notin> de_name ` set es1"
  shows "\<exists>c r d2 dt. remove_dir_entry E parent name (v\<lparr>v_tx := tm\<rparr>) = (Ok (Some (de_inumber e)), v\<lparr>v_tx := tm, v_cache := c\<rparr>) \<and> valid (cache c) \<and>
    lru_peek (e_lru E) (cache c) = [(parent, i_page_block p) \<mapsto> r] \<and>
    put_slot (i_page_block p, i_page_offset p) d2 (peek_block (v_storage v)) (i_page_block p) = Ok (cp_data r) \<and> length d2 = DISIZE \<and>
    key_of d2 = slot_key (peek_block (v_storage v)) (i_page_block p, i_page_offset p) \<and> parse_dinode d2 = Ok (with_root dt (i_dinode p)) \<and>
    dt_wf dt \<and> dtroot_bytes (with_root dt (i_dinode p)) = dt \<and> entry_list dt = es1 @ es2"
proof -
  let ?v1 = "v\<lparr>v_tx := tm\<rparr>"
  have q: "quiet E valid ?v1" "st_ok (v_storage ?v1)" using idle_table(1,2) [OF assms(1)] by (simp_all add: quiet_def)
  from dir_page [OF assms(1,2)] obtain Y where Y: "peek_block (v_storage v) (i_page_block p) = Ok Y" "i_page_offset p + DISIZE \<le> length Y"
    "parse_dinode (slice (i_page_offset p) (i_page_offset p + DISIZE) Y) = Ok (i_dinode p)"
    "key_of (slice (i_page_offset p) (i_page_offset p + DISIZE) Y) = slot_key (peek_block (v_storage v)) (i_page_block p, i_page_offset p)" by blast
  from dt_remove_entries [OF assms(4), of name] assms(5-7) obtain dt where
    dt: "dt_remove (dtroot_bytes (i_dinode p)) name = (Ok (Some (de_inumber e)), dt)" "dt_wf dt" "entry_list dt = es1 @ es2" by blast
  from put_root_load [where Y = Y and m = Map.empty and parent = parent, OF q(2) quiet_cache(1,2) [OF q(1)] _ quiet_cache(3) [OF q(1)] _ _ Y(2,3) dt(2)] Y(1)
  obtain c r d2 where u: "update_inode_page E parent (i_page_block p) (i_page_offset p) (put_root dt) ?v1 = (Ok (), v\<lparr>v_tx := tm, v_cache := c\<rparr>)"
    "valid (cache c)" "lru_peek (e_lru E) (cache c) = [(parent, i_page_block p) \<mapsto> r]" "cp_data r = splice (i_page_offset p) d2 Y"
    "length d2 = DISIZE" "key_of d2 = key_of (slice (i_page_offset p) (i_page_offset p + DISIZE) Y)"
    "dinode_parse d2 = Inr (with_root dt (i_dinode p))" "dtroot_bytes (with_root dt (i_dinode p)) = dt" by auto
  have "remove_dir_entry E parent name ?v1 = (Ok (Some (de_inumber e)), v\<lparr>v_tx := tm, v_cache := c\<rparr>)"
    using read_dir_wf [OF assms(3,4)] dt(1) u(1) by (simp add: remove_dir_entry_def)
  then show ?thesis using u dt(2,3) Y(1,4)
    by (intro exI [of _ c] exI [of _ r] exI [of _ d2] exI [of _ dt]) (simp add: put_slot_def parse_dinode_def)
qed

lemma inode_bytes:
  assumes "idle E valid k v" "inode_read E ino v = (Ok i, v)"
  shows "inode_at (peek_block (v_storage v)) v ino = Ok i" "i_ino i = ino"
    "length (slot_bytes (peek_block (v_storage v)) (i_page_block i, i_page_offset i)) = DISIZE"
    "dinode_parse (slot_bytes (peek_block (v_storage v)) (i_page_block i, i_page_offset i)) = Inr (i_dinode i)"
    "(i_page_block i, i_page_offset i) \<in> set (table_slots v)"
proof -
  note id = idle_table [OF assms(1)]
  from dir_page [OF assms] show at: "inode_at (peek_block (v_storage v)) v ino = Ok i" by blast
  note ip = inode_at_Ok [OF id(3) at]
  then show "i_ino i = ino" "(i_page_block i, i_page_offset i) \<in> set (table_slots v)" by auto
  from ip slot_fits [OF id(3), of "(i_page_block i, i_page_offset i)"]
  show "length (slot_bytes (peek_block (v_storage v)) (i_page_block i, i_page_offset i)) = DISIZE" by (auto simp: slot_bytes_def)
  from ip show "dinode_parse (slot_bytes (peek_block (v_storage v)) (i_page_block i, i_page_offset i)) = Inr (i_dinode i)"
    by (auto simp: parse_dinode_def split: sum.splits)
qed

end

lemma key_of_cong: "slice 4 12 d' = slice 4 12 d \<Longrightarrow> key_of d' = key_of d"
proof -
  assume "slice 4 12 d' = slice 4 12 d"
  then have "slice 0 4 (slice 4 12 d') = slice 0 4 (slice 4 12 d)" "slice 4 8 (slice 4 12 d') = slice 4 8 (slice 4 12 d)" by simp_all
  then show ?thesis by (simp add: key_of_def slice_slice)
qed

section \<open>Hard links\<close>

text \<open>
  The effect of a hard link in every case: the directory gets the entry, but the link count of the target grows only if the target
  and the directory lie in different blocks of the inode table.
\<close>

lemma link_file_effect:
  assumes "library E valid" "idle E (roomy E valid) (k + 3) v" "inode_read E parent v = (Ok p, v)" "is_dir (i_dinode p)"
    "accepts (dtroot_bytes (i_dinode p)) (encode_utf16 name)" "name_ok (encode_utf16 name)"
    "inode_read E target v = (Ok t, v)" "\<not> is_dir (i_dinode t)" "nlink (i_dinode t) \<noteq> - 1"
  shows "\<exists>v'. link_file E parent name target v = (Ok target, v') \<and> idle E (roomy E valid) k v' \<and>
    entered E id parent p (encode_utf16 name) target v' \<and>
    inode_read E target v' = (Ok (if i_page_block t = i_page_block p then t
      else t\<lparr>i_dinode := (i_dinode t)\<lparr>di_nlink := write_u32 (nlink (i_dinode t) + 1)\<rparr>\<rparr>), v') \<and>
    others_kept E {(i_page_block p, i_page_offset p), (i_page_block t, i_page_offset t)} v v'"
proof -
  have L: "library E (roomy E valid)" using library.roomy_library [OF assms(1)] .
  have room: "\<And>c. roomy E valid c \<Longrightarrow> 2 \<le> lru_cap (e_lru E) c" by (simp add: roomy_def)
  let ?s = "(i_page_block p, i_page_offset p)" and ?u = "(i_page_block t, i_page_offset t)" and ?rd = "peek_block (v_storage v)"
  let ?f = "\<lambda>d. Ok (put_u32 40 (nlink (i_dinode t) + 1) d)"
  from library.idle_begin [OF L assms(2)] obtain x tm a where b: "v_begin v = (Ok x, v\<lparr>v_tx := tm\<rparr>)" "active tm = Some a" "at_dirty_pages a = []"
    "\<And>ino i. inode_read E ino v = (Ok i, v) \<Longrightarrow> inode_read E ino (v\<lparr>v_tx := tm\<rparr>) = (Ok i, v\<lparr>v_tx := tm\<rparr>)" by blast
  have n: "length (encode_utf16 name) \<le> 11" using assms(6) by (simp add: name_ok_def)
  from library.first_entry [OF L assms(2,3) b(4) [OF assms(3)] assms(5) n, of target] obtain c r d2 dt where
    e: "add_entry E parent (encode_utf16 name) target (v\<lparr>v_tx := tm\<rparr>) = (Ok (), v\<lparr>v_tx := tm, v_cache := c\<rparr>)"
    and c: "roomy E valid (cache c)" "lru_peek (e_lru E) (cache c) = [(parent, i_page_block p) \<mapsto> r]" "put_slot ?s d2 ?rd (i_page_block p) = Ok (cp_data r)"
    and d2: "length d2 = DISIZE" "key_of d2 = slot_key ?rd ?s" "parse_dinode d2 = Ok (with_root dt (i_dinode p))"
    and dt: "dtroot_bytes (with_root dt (i_dinode p)) = dt" "added (dtroot_bytes (i_dinode p)) (encode_utf16 name) target dt" by blast
  note pb = library.inode_bytes [OF L assms(2,3)] and tb = library.inode_bytes [OF L assms(2,7)]
  have ne: "?s \<noteq> ?u" using assms(4,8) pb(4) tb(4) by auto
  define d' where "d' = put_u32 40 (nlink (i_dinode t) + 1) (slot_bytes ?rd ?u)"
  have d': "?f (slot_bytes ?rd ?u) = Ok d'" "length d' = DISIZE" "key_of d' = slot_key ?rd ?u"
    "parse_dinode d' = Ok ((i_dinode t)\<lparr>di_nlink := write_u32 (nlink (i_dinode t) + 1)\<rparr>)"
    using tb(3) put_fields(1) [OF tb(3,4)] key_of_cong [of d' "slot_bytes ?rd ?u"]
    by (simp_all add: d'_def slot_key_def parse_dinode_def) (simp_all add: DISIZE_def)
  have c2: "lru_peek (e_lru E) (cache c) = [(parent, fst ?s) \<mapsto> r]" "put_slot ?s d2 ?rd (fst ?s) = Ok (cp_data r)" using c(2,3) by simp_all
  from library.change_both [where f = ?f and x = target, OF L assms(2) room b(2,3) pb(1) tb(1) refl refl ne c(1) c2 d2 d'] obtain v' where
    v': "st_bind (update_at E t ?f (v\<lparr>v_tx := tm, v_cache := c\<rparr>)) (\<lambda>_ v. st_bind (mark_page_dirty E target (i_page_block t) v) (\<lambda>_ v.
      st_bind (mark_inode_dirty E parent v) (\<lambda>_ v. st_bind (v_commit E v) (\<lambda>_ v. (Ok target, v))))) = (Ok target, v')" "idle E (roomy E valid) k v'"
    "inode_read E parent v' = (Ok (p\<lparr>i_dinode := with_root dt (i_dinode p)\<rparr>), v')"
    "inode_read E target v' = (Ok (if fst ?u = fst ?s then t else t\<lparr>i_dinode := (i_dinode t)\<lparr>di_nlink := write_u32 (nlink (i_dinode t) + 1)\<rparr>\<rparr>), v')"
    "others_kept E {?s, ?u} v v'" by blast
  have "link_file E parent name target v = (Ok target, v')" using b(1) b(4) [OF assms(7)] assms(6,8,9) e v'(1) by (simp add: link_file_def)
  moreover have "entered E id parent p (encode_utf16 name) target v'" using v'(3) dt by (auto simp: entered_def)
  ultimately show ?thesis using v'(2,4,5) by auto
qed


text \<open>In the same block the raised count is lost: the target is as before, with one link too few.\<close>

theorem link_file_same_block:
  assumes "library E valid" "idle E (roomy E valid) (k + 3) v" "inode_read E parent v = (Ok p, v)" "is_dir (i_dinode p)"
    "accepts (dtroot_bytes (i_dinode p)) (encode_utf16 name)" "name_ok (encode_utf16 name)"
    "inode_read E target v = (Ok t, v)" "\<not> is_dir (i_dinode t)" "nlink (i_dinode t) \<noteq> - 1" "i_page_block t = i_page_block p"
  shows "\<exists>v'. link_file E parent name target v = (Ok target, v') \<and>
    entered E id parent p (encode_utf16 name) target v' \<and> inode_read E target v' = (Ok t, v')"
  using link_file_effect [OF assms(1-9)] assms(10) by auto

section \<open>Unlinking\<close>

text \<open>What happens to the inode when a link goes: it is freed with its last link unless it is open, else it loses the link.\<close>

definition unlink_bytes :: "bool \<Rightarrow> dinode \<Rightarrow> bytes \<Rightarrow> bytes" where
  "unlink_bytes open_now di d = (if sat_dec (nlink di) = 0 \<and> \<not> open_now then free_inode d else put_u32 40 (sat_dec (nlink di)) d)"

definition unlinked :: "bool \<Rightarrow> dinode \<Rightarrow> dinode" where
  "unlinked open_now di = (if sat_dec (nlink di) = 0 \<and> \<not> open_now
     then di\<lparr>di_mode := write_u32 0, di_size := write_u64 0, di_nlink := write_u32 0\<rparr> else di\<lparr>di_nlink := write_u32 (sat_dec (nlink di))\<rparr>)"

lemma unlink_bytes_parse:
  assumes "length d = DISIZE" "dinode_parse d = Inr di"
  shows "length (unlink_bytes b di d) = DISIZE" "key_of (unlink_bytes b di d) = key_of d" "dinode_parse (unlink_bytes b di d) = Inr (unlinked b di)"
proof -
  define d1 where "d1 = put_u32 52 0 d"
  define d2 where "d2 = put_u64 24 0 d1"
  have l: "length d1 = DISIZE" "length d2 = DISIZE" using assms(1) by (simp_all add: d1_def d2_def DISIZE_def)
  have "dinode_parse d1 = Inr (di\<lparr>di_mode := write_u32 0\<rparr>)" unfolding d1_def by (rule put_fields(4) [OF assms])
  note p2 = put_fields(9) [OF l(1) this, of 0, folded d2_def]
  have f: "free_inode d = put_u32 40 0 d2" by (simp add: free_inode_def d1_def d2_def)
  show "length (unlink_bytes b di d) = DISIZE" using assms(1) l(2) by (simp add: unlink_bytes_def f DISIZE_def)
  show "key_of (unlink_bytes b di d) = key_of d"
    using assms(1) l by (intro key_of_cong) (simp add: unlink_bytes_def f d2_def d1_def DISIZE_def)
  show "dinode_parse (unlink_bytes b di d) = Inr (unlinked b di)"
    using put_fields(1) [OF l(2) p2, of 0] put_fields(1) [OF assms] by (simp add: unlink_bytes_def unlinked_def f)
qed

lemma drop_link_plain:
  assumes "sat_dec (nlink (i_dinode c)) \<noteq> 0 \<or> has_open_handles v (i_page_block c) \<or> file_blocks c = Ok []"
  shows "drop_link E c v = update_at E c (\<lambda>d. Ok (unlink_bytes (has_open_handles v (i_page_block c)) (i_dinode c) d)) v"
proof -
  have "on_bmap (free_all []) = (Pair (Ok ()) :: 'a volume \<Rightarrow> unit res \<times> 'a volume)" by (simp add: fun_eq_iff on_bmap_def split: option.split)
  then show ?thesis using assms by (auto simp: drop_link_def unlink_bytes_def Let_def st_bind_unit)
qed

text \<open>
  The effect of unlinking a file that has no blocks to give back, in every case: the directory loses exactly the entry, but the file
  is freed or loses its link only if it lies in another block of the inode table than the directory.
\<close>

lemma unlink_file_effect:
  assumes "library E valid" "idle E (roomy E valid) (k + 3) v" "inode_read E parent v = (Ok p, v)" "is_dir (i_dinode p)"
    "dt_wf (dtroot_bytes (i_dinode p))" "entry_list (dtroot_bytes (i_dinode p)) = es1 @ e # es2" "de_name e = encode_utf16 name"
    "encode_utf16 name \<notin> de_name ` set es1" "inode_read E (de_inumber e) v = (Ok c, v)" "\<not> is_dir (i_dinode c)"
    "sat_dec (nlink (i_dinode c)) \<noteq> 0 \<or> has_open_handles v (i_page_block c) \<or> file_blocks c = Ok []"
  shows "\<exists>v' dt. unlink_file E parent name v = (Ok True, v') \<and> idle E (roomy E valid) k v' \<and>
    inode_read E parent v' = (Ok (p\<lparr>i_dinode := with_root dt (i_dinode p)\<rparr>), v') \<and> dt_wf dt \<and>
    dtroot_bytes (with_root dt (i_dinode p)) = dt \<and> entry_list dt = es1 @ es2 \<and>
    inode_read E (de_inumber e) v' = (Ok (if i_page_block c = i_page_block p then c
      else c\<lparr>i_dinode := unlinked (has_open_handles v (i_page_block c)) (i_dinode c)\<rparr>), v') \<and>
    others_kept E {(i_page_block p, i_page_offset p), (i_page_block c, i_page_offset c)} v v'"
proof -
  have L: "library E (roomy E valid)" using library.roomy_library [OF assms(1)] .
  have room: "\<And>c. roomy E valid c \<Longrightarrow> 2 \<le> lru_cap (e_lru E) c" by (simp add: roomy_def)
  let ?s = "(i_page_block p, i_page_offset p)" and ?u = "(i_page_block c, i_page_offset c)" and ?rd = "peek_block (v_storage v)"
  let ?o = "has_open_handles v (i_page_block c)" and ?ino = "de_inumber e"
  let ?f = "\<lambda>d. Ok (unlink_bytes ?o (i_dinode c) d)"
  from library.idle_begin [OF L assms(2)] obtain x tm a where b: "v_begin v = (Ok x, v\<lparr>v_tx := tm\<rparr>)" "active tm = Some a" "at_dirty_pages a = []"
    "\<And>ino i. inode_read E ino v = (Ok i, v) \<Longrightarrow> inode_read E ino (v\<lparr>v_tx := tm\<rparr>) = (Ok i, v\<lparr>v_tx := tm\<rparr>)" by blast
  from library.first_removal [OF L assms(2,3) b(4) [OF assms(3)] assms(5-8)] obtain pc r d2 dt where
    e: "remove_dir_entry E parent (encode_utf16 name) (v\<lparr>v_tx := tm\<rparr>) = (Ok (Some ?ino), v\<lparr>v_tx := tm, v_cache := pc\<rparr>)"
    and c: "roomy E valid (cache pc)" "lru_peek (e_lru E) (cache pc) = [(parent, i_page_block p) \<mapsto> r]" "put_slot ?s d2 ?rd (i_page_block p) = Ok (cp_data r)"
    and d2: "length d2 = DISIZE" "key_of d2 = slot_key ?rd ?s" "parse_dinode d2 = Ok (with_root dt (i_dinode p))"
    and dt: "dt_wf dt" "dtroot_bytes (with_root dt (i_dinode p)) = dt" "entry_list dt = es1 @ es2" by blast
  note pb = library.inode_bytes [OF L assms(2,3)] and tb = library.inode_bytes [OF L assms(2,9)] and id = library.idle_table [OF L assms(2)]
  have ne: "?s \<noteq> ?u" using assms(4,10) pb(4) tb(4) by auto
  have np: "?ino \<noteq> parent" using assms(3,4,9,10) by auto
  have rc: "inode_read E ?ino (v\<lparr>v_tx := tm, v_cache := pc\<rparr>) = (Ok c, v\<lparr>v_tx := tm, v_cache := pc\<rparr>)"
    using library.inode_read_beside [OF L id(2,3) tb(1) np c pb(5) d2(1,2)] .
  define d' where "d' = unlink_bytes ?o (i_dinode c) (slot_bytes ?rd ?u)"
  have d': "?f (slot_bytes ?rd ?u) = Ok d'" "length d' = DISIZE" "key_of d' = slot_key ?rd ?u" "parse_dinode d' = Ok (unlinked ?o (i_dinode c))"
    using unlink_bytes_parse [OF tb(3,4), of ?o] by (simp_all add: d'_def slot_key_def parse_dinode_def)
  have c2: "lru_peek (e_lru E) (cache pc) = [(parent, fst ?s) \<mapsto> r]" "put_slot ?s d2 ?rd (fst ?s) = Ok (cp_data r)" using c(2,3) by simp_all
  from library.change_both [where f = ?f and x = True, OF L assms(2) room b(2,3) pb(1) tb(1) refl refl ne c(1) c2 d2 d'] obtain v' where
    v': "st_bind (update_at E c ?f (v\<lparr>v_tx := tm, v_cache := pc\<rparr>)) (\<lambda>_ v. st_bind (mark_page_dirty E ?ino (i_page_block c) v) (\<lambda>_ v.
      st_bind (mark_inode_dirty E parent v) (\<lambda>_ v. st_bind (v_commit E v) (\<lambda>_ v. (Ok True, v))))) = (Ok True, v')" "idle E (roomy E valid) k v'"
    "inode_read E parent v' = (Ok (p\<lparr>i_dinode := with_root dt (i_dinode p)\<rparr>), v')"
    "inode_read E ?ino v' = (Ok (if fst ?u = fst ?s then c else c\<lparr>i_dinode := unlinked ?o (i_dinode c)\<rparr>), v')"
    "others_kept E {?s, ?u} v v'" by blast
  have "drop_link E c (v\<lparr>v_tx := tm, v_cache := pc\<rparr>) = update_at E c ?f (v\<lparr>v_tx := tm, v_cache := pc\<rparr>)"
    using drop_link_plain [of c "v\<lparr>v_tx := tm, v_cache := pc\<rparr>" E] assms(11) by (simp add: has_open_handles_def)
  then have "unlink_file E parent name v = (Ok True, v')" using b(1) e rc assms(10) v'(1) by (simp add: unlink_file_def)
  then show ?thesis using v'(2-5) dt by (intro exI [of _ v'] exI [of _ dt]) simp
qed

lemma last_link: "sat_dec w = 0 \<longleftrightarrow> \<not> 1 < w" "1 < w \<Longrightarrow> sat_dec w = w - 1" for w :: "32 word"
proof -
  have "w = 1" if "w \<noteq> 0" "\<not> 1 < w"
  proof -
    have "unat w \<noteq> 0" using that(1) by (simp add: unat_eq_zero)
    moreover have "\<not> 1 < unat w" using that(2) by (simp add: word_less_nat_alt)
    ultimately have "unat w = unat (1 :: 32 word)" by simp
    then show ?thesis by (simp only: word_unat_eq_iff)
  qed
  then show "sat_dec w = 0 \<longleftrightarrow> \<not> 1 < w" by (auto simp: sat_dec_def)
  show "1 < w \<Longrightarrow> sat_dec w = w - 1" by (auto simp: sat_dec_def)
qed

text \<open>
  C10. Unlinking a file that is not a directory works on a volume between operations when its inode lies in another block of the inode table
  than the directory, no handle is open on that block, and the file has further links or no blocks to give back: it
  commits, the directory lists exactly its other entries in their order, the link count of the file drops by one, or the inode is freed
  if that was the last link, and every other inode is as before.
\<close>

theorem unlink_file_correct:
  assumes "library E valid" "idle E (roomy E valid) (k + 3) v" "inode_read E parent v = (Ok p, v)" "is_dir (i_dinode p)"
    "dt_wf (dtroot_bytes (i_dinode p))" "entry_list (dtroot_bytes (i_dinode p)) = es1 @ e # es2" "de_name e = encode_utf16 name"
    "encode_utf16 name \<notin> de_name ` set es1" "inode_read E (de_inumber e) v = (Ok c, v)" "\<not> is_dir (i_dinode c)"
    "i_page_block c \<noteq> i_page_block p" "\<not> has_open_handles v (i_page_block c)" "1 < nlink (i_dinode c) \<or> file_blocks c = Ok []"
  shows "\<exists>v' dt. unlink_file E parent name v = (Ok True, v') \<and> idle E (roomy E valid) k v' \<and>
    inode_read E parent v' = (Ok (p\<lparr>i_dinode := with_root dt (i_dinode p)\<rparr>), v') \<and> dt_wf dt \<and>
    dtroot_bytes (with_root dt (i_dinode p)) = dt \<and> entry_list dt = es1 @ es2 \<and>
    inode_read E (de_inumber e) v' = (Ok (c\<lparr>i_dinode :=
      (if 1 < nlink (i_dinode c) then (i_dinode c)\<lparr>di_nlink := write_u32 (nlink (i_dinode c) - 1)\<rparr>
       else (i_dinode c)\<lparr>di_mode := write_u32 0, di_size := write_u64 0, di_nlink := write_u32 0\<rparr>)\<rparr>), v') \<and>
    others_kept E {(i_page_block p, i_page_offset p), (i_page_block c, i_page_offset c)} v v'"
  using unlink_file_effect [OF assms(1-10)] assms(11-13) last_link [of "nlink (i_dinode c)"] by (auto simp: unlinked_def)

text \<open>
  In the same block the change of the file is lost: its inode stays as it was, allocated and with its old link count, although
  the directory has lost the entry.
\<close>

theorem unlink_file_same_block:
  assumes "library E valid" "idle E (roomy E valid) (k + 3) v" "inode_read E parent v = (Ok p, v)" "is_dir (i_dinode p)"
    "dt_wf (dtroot_bytes (i_dinode p))" "entry_list (dtroot_bytes (i_dinode p)) = es1 @ e # es2" "de_name e = encode_utf16 name"
    "encode_utf16 name \<notin> de_name ` set es1" "inode_read E (de_inumber e) v = (Ok c, v)" "\<not> is_dir (i_dinode c)"
    "sat_dec (nlink (i_dinode c)) \<noteq> 0 \<or> has_open_handles v (i_page_block c) \<or> file_blocks c = Ok []" "i_page_block c = i_page_block p"
  shows "\<exists>v' dt. unlink_file E parent name v = (Ok True, v') \<and>
    inode_read E parent v' = (Ok (p\<lparr>i_dinode := with_root dt (i_dinode p)\<rparr>), v') \<and> entry_list dt = es1 @ es2 \<and>
    inode_read E (de_inumber e) v' = (Ok c, v')"
  using unlink_file_effect [OF assms(1-11)] assms(12) by auto

end
