(* ===== verification/Fresh_Volume.thy ===== *)
theory Fresh_Volume
  imports Format Volume_Files Volume_Mkdir Volume_Link
begin

text \<open>
  The first operations on a new file system: a formatted and mounted volume is between operations, with room for 126
  more log buffers (its log area of 256 blocks holds two for the superblock and 127 buffers), its root directory has no
  holes and its inodes are numbered by their slots, with free ones left. So the theorems about idle volumes apply
  to it; the theorem at the end follows an image from the formatter to its first files, and the examples run the
  operations on a memory device.
\<close>

section \<open>At rest\<close>

lemma log_range_fresh: "log_range 126 (Some (logmgr_new l 15728640)) = {3841..<4096}"
proof -
  have "log_end 126 (logmgr_new l 15728640) = 4096 * 4096" "log_base (logmgr_new l 15728640) = 3840 * 4096"
    by (simp_all add: log_end_def logmgr_new_def log_size_defs)
  then show ?thesis by (auto simp: log_range_def block_size_defs)
qed

lemma fresh_table:
  assumes "4096 \<le> n" "holds_format E valid n st v"
  shows "unat (pxd_address (s_ait2 (v_sb v))) = 24" "max_scan v = 36" "table_blocks v = {24..<60}" "map_block v = {17}"
    "v_agg_size v = n" "v_root_ino v = 18"
    "24 \<le> b \<Longrightarrow> b < 60 \<Longrightarrow> peek_block (v_storage v) b = Ok (slice (b * 4096) (b * 4096 + 4096) (format_image n))"
proof -
  from assms(2) obtain b where v: "formatted n st (v_storage v)" "v_sb v = super_state n st" "v_bmap v = Some b" "dmap_start b = 17"
    and agg: "v_agg_size v = n" and root: "v_root_ino v = 18" unfolding holds_format_def by blast
  have "n < 2 ^ 64" using formatted_size [OF assms(1) v(1)] by simp
  from format_super_facts(6) [OF this, of st] v(2) show ait: "unat (pxd_address (s_ait2 (v_sb v))) = 24" "max_scan v = 36"
    by (simp_all add: max_scan_def)
  show "table_blocks v = {24..<60}" using assms(1) agg ait by (auto simp: table_blocks_def)
  show "map_block v = {17}" using v(3,4) by (simp add: map_block_def)
  show "v_agg_size v = n" "v_root_ino v = 18" by fact+
  show "peek_block (v_storage v) b = Ok (slice (b * 4096) (b * 4096 + 4096) (format_image n))" if "24 \<le> b" "b < 60" for b
    using that assms(1) read_formatted(2) [OF assms(1) v(1), of b] state_blocks(2) [OF assms(1), of "b * 4096"] by (simp add: peek_block_def)
qed

lemma fresh_idle:
  assumes "4096 \<le> n" "holds_format E valid n st v"
  shows "idle E valid 126 v"
proof -
  from assms(2) obtain l b where v: "quiet E valid v" "formatted n st (v_storage v)" "active (v_tx v) = None"
    "v_log v = Some (logmgr_new l 15728640)" "ls_wf l" "v_bmap v = Some b" "dmap_start b = 17" "dirty_pages b = {}"
    unfolding holds_format_def by blast
  note t = fresh_table [OF assms]
  have sz: "size_blocks (v_storage v) = n" using read_formatted(3) [OF assms(1) v(2)] .
  have "log_end 126 (logmgr_new l 15728640) = 16777216" by (simp add: log_end_def logmgr_new_def log_size_defs)
  then have "log_ready 126 (logmgr_new l 15728640) (v_storage v)"
    using v(2,5) assms(1) sz by (simp add: log_ready_def formatted_def) (simp add: logmgr_new_def block_size_defs)
  then show ?thesis using v t sz assms(1) log_range_fresh by (auto simp: idle_def log_fits_def)
qed

section \<open>The root directory and the first free inode\<close>

lemma fresh_root:
  assumes "library E valid" "4096 \<le> n" "holds_format E valid n st v"
  shows "inode_read E 18 v = (Ok \<lparr>i_dinode = format_root, i_ino = 18, i_page_block = 28, i_page_offset = 1024\<rparr>, v)"
proof -
  note t = fresh_table [OF assms(2,3)]
  have "quiet E valid v" using assms(3) by (simp add: holds_format_def)
  from format_root_read [OF assms(1) this assms(2) t(1,2,5)] t(7) show ?thesis by simp
qed

lemma root_packed: "packed (dtroot_bytes format_root)" "entry_list (dtroot_bytes format_root) = []"
proof -
  let ?d = "dtroot_bytes format_root"
  have l: "length ?d = 288" by (rule format_root_facts)
  have u: "di_u format_root = slice 128 512 build_root_inode_bytes"
    by (simp add: format_root_def dinode_parse_def)
  have b: "build_root_inode_bytes ! 241 = 0" "build_root_inode_bytes ! 242 = 0"
    by (simp_all add: build_root_inode_bytes_def Let_def DISIZE_def nth_splice put_u32_def)
  have "?d ! 17 = 0" "?d ! 18 = 0" using u b by (simp_all add: dtroot_bytes_def)
  then have n: "dt_next_index ?d = 0" "no_free_list ?d" using l by (simp_all add: dt_next_index_def DTROOT_NEXTINDEX_def no_free_list_def)
  then have s: "stbl ?d = []" by (simp add: stbl_def read_stbl_def)
  show e: "entry_list ?d = []" by (simp add: entry_list_def s)
  show "packed ?d" using l n s by (simp add: packed_def dt_wf_def)
qed

lemma format_zero_block:
  assumes "4096 \<le> n" "29 \<le> b" "b < 3840"
  shows "slice (b * 4096) (b * 4096 + 4096) (format_image n) = replicate 4096 0"
proof -
  have "16777216 \<le> n * 4096" "118784 \<le> b * 4096" "b * 4096 + 4096 \<le> 15728640" using assms by simp_all
  then show ?thesis by (simp add: format_image_def slice_splice_other)
qed

text \<open>The slots of the new table: three inodes, and zeros.\<close>

lemma fresh_slot_bytes:
  assumes "4096 \<le> n" "holds_format E valid n st v" "s \<in> set (table_slots v)"
  shows "slot_bytes (peek_block (v_storage v)) s =
    (if s = (24, 512) then build_bmap_inode_bytes n else if s = (26, 0) then build_aggregate_inode_bytes n
     else if s = (28, 1024) then build_root_inode_bytes else replicate 512 0)"
proof -
  note t = fresh_table [OF assms(1,2)] and fb = format_blocks [OF assms(1)]
  obtain b i where s: "s = (b, i * DISIZE)" "24 \<le> b" "b < 60" "i < INOSPERPAGE" using slot_cases [OF assms(3)] t(3) by auto
  define k where "k = b - 24"
  have b: "b = 24 + k" "k < 36" using s(2,3) by (simp_all add: k_def)
  let ?bi = "build_bmap_inode_bytes n" and ?ai = "build_aggregate_inode_bytes n"
  have l: "length ?bi = 512" "length ?ai = 512" "length build_root_inode_bytes = 512" by (simp_all add: DISIZE_def)
  have z: "slot_bytes (peek_block (v_storage v)) s = replicate 512 0" if "peek_block (v_storage v) b = Ok (replicate 4096 0)"
    using that s(1,4) slot_page_slot [of "replicate 512 0" 0 i] zero_page by (simp add: slot_bytes_def INOSPERPAGE_def)
  consider "k = 0" | "k = 1" | "k = 2" | "k = 3" | "k = 4" | "5 \<le> k" by linarith
  then show ?thesis
  proof cases
    case 1
    then show ?thesis using t(7) [of b] b fb(5) s(1,4) slot_page_slot [OF l(1), of 1 i] by (simp add: slot_bytes_def INOSPERPAGE_def DISIZE_def)
  next
    case 3
    then show ?thesis using t(7) [of b] b fb(7) s(1,4) slot_page_slot [OF l(2), of 0 i] by (simp add: slot_bytes_def INOSPERPAGE_def DISIZE_def)
  next
    case 5
    then show ?thesis using t(7) [of b] b fb(9) s(1,4) slot_page_slot [OF l(3), of 2 i] by (simp add: slot_bytes_def INOSPERPAGE_def DISIZE_def)
  next
    case 6
    then show ?thesis using t(7) [of b] b format_zero_block [OF assms(1), of b] z s(1) by simp
  qed (use t(7) [of b] b fb(6,8) z s(1) in simp_all)
qed

lemma fresh_numbered:
  assumes "4096 \<le> n" "holds_format E valid n st v"
  shows "numbered v" "8 \<le> card (free_slots v)"
proof -
  note t = fresh_table [OF assms] and fs = fresh_slot_bytes [OF assms]
  have k: "key_of (replicate 512 0) = (0, 0)" "key_of (build_bmap_inode_bytes n) = (1, word_of_nat BMAP_I)"
    "fst (key_of (build_aggregate_inode_bytes n)) = 1" "key_of build_root_inode_bytes = (16, 2)"
    using bmap_inode_keys root_inode_slices by (simp_all add: key_of_def build_aggregate_inode_bytes_def DISIZE_def slice_zeros arr_zeros)
  show "numbered v"
    unfolding numbered_def slot_key_def using fs k by (auto simp: FILESYSTEM_I_def ROOT_I_def)
  let ?f = "\<lambda>i. (29 :: nat, i * 512 :: nat)"
  have "?f i \<in> free_slots v" if i: "i < 8" for i
  proof -
    have m: "?f i \<in> set (table_slots v)" using i t(3) by (auto simp: table_slots_iff INOSPERPAGE_def DISIZE_def)
    have "ino_of v (?f i) = word_of_nat (56 + i)" using t(1) by (simp add: ino_of_def slot_number_def INOSPERPAGE_def DISIZE_def FILESYSTEM_I_def)
    moreover have "unat (word_of_nat (56 + i) :: 32 word) = 56 + i" using i by (simp only: unsigned_of_nat) (simp add: take_bit_nat_eq_self)
    ultimately have u: "unat (ino_of v (?f i)) = 56 + i" by simp
    have "ino_of v (?f i) \<noteq> word_of_nat (FILESYSTEM_I + ROOT_I)"
    proof
      assume "ino_of v (?f i) = word_of_nat (FILESYSTEM_I + ROOT_I)"
      then have "unat (ino_of v (?f i)) = 18" by (simp add: FILESYSTEM_I_def ROOT_I_def)
      then show False using u by simp
    qed
    then show ?thesis using m fs [OF m] by (simp add: free_slots_def is_free_def get_u32_zeros)
  qed
  then have "?f ` {..<8} \<subseteq> free_slots v" by auto
  moreover have "card (?f ` {..<8}) = 8" by (subst card_image) (auto simp: inj_on_def)
  ultimately show "8 \<le> card (free_slots v)" using card_mono [of "free_slots v" "?f ` {..<8}"] by (simp add: free_slots_def)
qed

lemma fresh_first:
  assumes "4096 \<le> n" "holds_format E valid n st v"
  shows "find (is_free v) (table_slots v) = Some (24, 0)"
proof -
  note t = fresh_table [OF assms]
  have m: "(24, 0) \<in> set (table_slots v)" using t(3) by (auto simp: table_slots_iff INOSPERPAGE_def DISIZE_def)
  have "ino_of v (24, 0) = 16" using t(1) by (simp add: ino_of_def slot_number_def FILESYSTEM_I_def)
  then have "is_free v (24, 0)" using fresh_slot_bytes [OF assms m] by (simp add: is_free_def get_u32_zeros FILESYSTEM_I_def ROOT_I_def)
  moreover have "table_slots v = slots_from 24 n (0 # [1..<36])" using t(1,2,5) upt_conv_Cons [of 0 36] by (simp add: table_slots_def del: upt_Suc)
  then have "\<exists>ss. table_slots v = (24, 0) # ss"
    using assms(1) upt_conv_Cons [of 0 8] by (simp add: slots_from_def INOSPERPAGE_def del: upt_Suc)
  ultimately show ?thesis by auto
qed

section \<open>From the formatter to the first files\<close>

lemma fresh_mount:
  assumes "library E valid" "4096 \<le> n" "n \<le> 8192" "st_ok s" "contents s = replicate (n * BLOCK_SIZE) 0"
    "check_geometry s (format_super n) = Ok ()"
  shows "\<exists>s' v p. build_filesystem n s = (Ok (), s') \<and> mount_from_storage E s' = (Ok v, v_storage v) \<and>
    idle E (roomy E valid) 126 v \<and> takes E (v_root_ino v) 8 p v \<and> i_dinode p = format_root \<and> i_page_block p = 28 \<and>
    find (is_free v) (table_slots v) = Some (24, 0) \<and> v_open_handles v = Map.empty"
proof -
  have L: "library E (roomy E valid)" using library.roomy_library [OF assms(1)] .
  have z: "contents s = replicate (n * 4096) 0" using assms(5) by (simp add: block_size_defs)
  let ?s = "with_contents s (format_image n)"
  note s' = format_device [OF assms(2,4) z] format_makes [OF assms(2,4) z]
  obtain v where v: "mount_from_storage E ?s = (Ok v, v_storage v)" "holds_format E (roomy E valid) n FM_DIRTY v"
    using formatted_mounts [OF L assms(2,3) s'(2)] assms(6) by (auto simp: check_geometry_with_contents super_state_clean)
  have "v_open_handles v = Map.empty" using v(2) by (simp add: holds_format_def)
  with v show ?thesis
    using s'(1) fresh_idle [OF assms(2) v(2)] fresh_root [OF L assms(2) v(2)] fresh_table(6) [OF assms(2) v(2)]
      root_packed format_root_facts(2) fresh_numbered [OF assms(2) v(2)] fresh_first [OF assms(2) v(2)]
    by (intro exI [of _ ?s] exI [of _ v] exI [of _ "\<lparr>i_dinode = format_root, i_ino = 18, i_page_block = 28, i_page_offset = 1024\<rparr>"])
      (simp add: takes_def)
qed


section \<open>Examples on a memory device of 4096 blocks\<close>

lemma memory_4096:
  "st_ok (MemoryStorage (mem_new 4096))" "contents (MemoryStorage (mem_new 4096)) = replicate (4096 * BLOCK_SIZE) 0"
  "check_geometry (MemoryStorage (mem_new 4096)) (format_super 4096) = Ok ()"
  by (simp_all add: mem_new_ok block_size_defs check_geometry_def) (simp add: mem_new_def block_size_defs)

text \<open>The file names \<open>hi\<close> and \<open>ho\<close> and the target \<open>/etc\<close>, as code points.\<close>

abbreviation hi :: str where "hi \<equiv> [104, 105]"
abbreviation ho :: str where "ho \<equiv> [104, 111]"
abbreviation etc :: str where "etc \<equiv> [47, 101, 116, 99]"

lemma hi_name: "name_ok (encode_utf16 hi)" "name_ok (encode_utf16 ho)" "encode_utf16 hi \<noteq> encode_utf16 ho" "as_bytes etc = [47, 101, 116, 99]"
  by (simp_all add: name_ok_def encode_utf16_def utf16_char_def as_bytes_def utf8_char_def)

lemma root_links: "nlink format_root \<noteq> - 1"
proof -
  have "nlink format_root = read_u32 (arr4_of (slice 40 44 build_root_inode_bytes))" by (simp add: format_root_def dinode_parse_def nlink_def)
  also have "slice 40 44 build_root_inode_bytes = list_of_arr4 (write_u32 2)"
    by (simp add: build_root_inode_bytes_def Let_def DISIZE_def slice_splice_other put_u32_def put_u64_def slice_splice_same')
  finally show ?thesis by simp
qed

lemma memory_mount:
  "\<exists>s v p. create_filesystem_with_blocks 4096 = (Ok (), s) \<and> mount_from_storage list_env s = (Ok v, v_storage v) \<and>
     idle list_env (roomy list_env ll_valid) (123 + 3) v \<and> takes list_env (v_root_ino v) (Suc 7) p v \<and> i_dinode p = format_root \<and>
     i_page_block p = 28 \<and> find (is_free v) (table_slots v) = Some (24, 0) \<and> v_open_handles v = Map.empty"
  using fresh_mount [OF lenv.library_axioms _ _ memory_4096] unfolding create_filesystem_with_blocks_def by fastforce

text \<open>The volume is ready for the operations; the first inode it gives out lies in another block than the root directory.\<close>

lemma memory_ready:
  "\<exists>s v p child. create_filesystem_with_blocks 4096 = (Ok (), s) \<and> mount_from_storage list_env s = (Ok v, v_storage v) \<and>
     idle list_env (roomy list_env ll_valid) (123 + 3) v \<and> inode_read list_env (v_root_ino v) v = (Ok p, v) \<and> is_dir (i_dinode p) \<and>
     accepts (dtroot_bytes (i_dinode p)) name \<and> entry_list (dtroot_bytes (i_dinode p)) = [] \<and>
     fresh_slot list_env v (child, 24, 0) \<and> nlink (i_dinode p) \<noteq> - 1 \<and> i_page_block p = 28 \<and> v_open_handles v = Map.empty \<and>
     packed (dtroot_bytes (i_dinode p))"
proof -
  from memory_mount obtain s v p where v: "create_filesystem_with_blocks 4096 = (Ok (), s)" "mount_from_storage list_env s = (Ok v, v_storage v)"
    "idle list_env (roomy list_env ll_valid) (123 + 3) v" "takes list_env (v_root_ino v) (Suc 7) p v" "i_dinode p = format_root"
    "i_page_block p = 28" "find (is_free v) (table_slots v) = Some (24, 0)" "v_open_handles v = Map.empty" by blast
  have p: "inode_read list_env (v_root_ino v) v = (Ok p, v)" "is_dir (i_dinode p)" "packed (dtroot_bytes (i_dinode p))" "numbered v"
    using v(4) by (simp_all add: takes_def)
  note fr = numbered_fresh [OF library.roomy_library [OF lenv.library_axioms] v(3) p(4) v(7)]
  have "accepts (dtroot_bytes (i_dinode p)) name" using packed_accepts [OF p(3)] v(5) root_packed(2) by simp
  then show ?thesis using v p(1-3) root_packed(2) root_links fr
    by (intro exI [of _ s] exI [of _ v] exI [of _ p] exI [of _ "ino_of v (24, 0)"]) simp
qed



theorem symlink_read_symlink_witness:
  "\<exists>s v v' ino. create_filesystem_with_blocks 4096 = (Ok (), s) \<and> mount_from_storage list_env s = (Ok v, v_storage v) \<and>
     symlink list_env (v_root_ino v) hi etc v = (Ok ino, v') \<and> read_symlink list_env ino v' = (Ok [47, 101, 116, 99], v')"
proof -
  from memory_ready [of "encode_utf16 hi"] obtain s v p child where
    v: "create_filesystem_with_blocks 4096 = (Ok (), s)" "mount_from_storage list_env s = (Ok v, v_storage v)"
    "idle list_env (roomy list_env ll_valid) (123 + 3) v" "inode_read list_env (v_root_ino v) v = (Ok p, v)" "is_dir (i_dinode p)"
    "accepts (dtroot_bytes (i_dinode p)) (encode_utf16 hi)" "fresh_slot list_env v (child, 24, 0)" by blast
  from symlink_read_symlink [OF lenv.library_axioms v(3-6) hi_name(1) v(7), of etc] v(1,2) show ?thesis
    unfolding hi_name(4) by auto
qed

theorem mkdir_correct_witness:
  "\<exists>s v v' ino c. create_filesystem_with_blocks 4096 = (Ok (), s) \<and> mount_from_storage list_env s = (Ok v, v_storage v) \<and>
     mkdir list_env (v_root_ino v) hi v = (Ok ino, v') \<and>
     inode_read list_env ino v' = (Ok c, v') \<and> is_dir (i_dinode c) \<and> dt_entries (dtroot_bytes (i_dinode c)) = Ok (dot_entries ino (v_root_ino v))"
proof -
  from memory_ready [of "encode_utf16 hi"] obtain s v p child where
    v: "create_filesystem_with_blocks 4096 = (Ok (), s)" "mount_from_storage list_env s = (Ok v, v_storage v)"
    "idle list_env (roomy list_env ll_valid) (123 + 3) v" "inode_read list_env (v_root_ino v) v = (Ok p, v)" "is_dir (i_dinode p)"
    "accepts (dtroot_bytes (i_dinode p)) (encode_utf16 hi)" "fresh_slot list_env v (child, 24, 0)" "nlink (i_dinode p) \<noteq> - 1" by blast
  from mkdir_correct [OF lenv.library_axioms v(3-6) hi_name(1) v(7,8)] v(1,2) show ?thesis by blast
qed


theorem unlink_file_correct_witness:
  "\<exists>s v v1 v' ino c. create_filesystem_with_blocks 4096 = (Ok (), s) \<and> mount_from_storage list_env s = (Ok v, v_storage v) \<and>
     symlink list_env (v_root_ino v) hi etc v = (Ok ino, v1) \<and> unlink_file list_env (v_root_ino v) hi v1 = (Ok True, v') \<and>
     inode_read list_env ino v' = (Ok c, v') \<and> mode (i_dinode c) = 0"
proof -
  from memory_ready [of "encode_utf16 hi"] obtain s v p child where
    v: "create_filesystem_with_blocks 4096 = (Ok (), s)" "mount_from_storage list_env s = (Ok v, v_storage v)"
    "idle list_env (roomy list_env ll_valid) (123 + 3) v" "inode_read list_env (v_root_ino v) v = (Ok p, v)" "is_dir (i_dinode p)"
    "accepts (dtroot_bytes (i_dinode p)) (encode_utf16 hi)" "fresh_slot list_env v (child, 24, 0)" "entry_list (dtroot_bytes (i_dinode p)) = []"
    "i_page_block p = 28" "v_open_handles v = Map.empty" by blast
  from symlink_run [OF lenv.library_axioms v(3-6) hi_name(1) v(7), of etc] v(10) obtain v1 f where
    c: "symlink list_env (v_root_ino v) hi etc v = (Ok child, v1)" "idle list_env (roomy list_env ll_valid) 123 v1" "v_open_handles v1 = Map.empty"
    and f: "inode_read list_env child v1 = (Ok f, v1)" "is_symlink (i_dinode f)" "i_page_block f = 24" "nlink (i_dinode f) = 1"
    and e: "entered list_env id (v_root_ino v) p (encode_utf16 hi) child v1"
    unfolding hi_name(4) by auto
  have i: "idle list_env (roomy list_env ll_valid) (120 + 3) v1" using c(2) by simp
  have k: "\<not> is_dir (i_dinode f)" "file_blocks f = Ok []" using f(2) file_types_exclusive by (auto simp: file_blocks_def)
  have h: "\<not> has_open_handles v1 (i_page_block f)" using c(3) by (simp add: has_open_handles_def)
  from e v(8) obtain dt where dt: "inode_read list_env (v_root_ino v) v1 = (Ok (p\<lparr>i_dinode := with_root dt (i_dinode p)\<rparr>), v1)"
    "dtroot_bytes (with_root dt (i_dinode p)) = dt" "dt_wf dt" "entry_list dt = [] @ \<lparr>de_inumber = child, de_name = encode_utf16 hi, de_index = 0\<rparr> # []"
    by (auto simp: entered_def added_def)
  have d: "is_dir (i_dinode (p\<lparr>i_dinode := with_root dt (i_dinode p)\<rparr>))" using v(5) by (simp add: is_dir_def mode_def with_root_def)
  from unlink_file_correct [OF lenv.library_axioms i dt(1) d, of "[]" "\<lparr>de_inumber = child, de_name = encode_utf16 hi, de_index = 0\<rparr>" "[]" hi f]
    dt(2-4) f(1,3) k h v(9) obtain v' where "unlink_file list_env (v_root_ino v) hi v1 = (Ok True, v')"
    "inode_read list_env child v' = (Ok (f\<lparr>i_dinode := (if 1 < nlink (i_dinode f) then (i_dinode f)\<lparr>di_nlink := write_u32 (nlink (i_dinode f) - 1)\<rparr>
       else (i_dinode f)\<lparr>di_mode := write_u32 0, di_size := write_u64 0, di_nlink := write_u32 0\<rparr>)\<rparr>), v')" by auto
  then show ?thesis using v(1,2) c(1) f(4) by (fastforce simp: mode_def)
qed

end
