(* ===== verification/Tools.thy ===== *)
theory Tools
  imports Format Fuse_Adapter
begin

text \<open>
  The command line tools of \<open>bin/\<close>: \<open>newjfs\<close>, \<open>jfsck\<close> (built with the writable feature) and \<open>mount\<close> up to handing
  the file system object to the FUSE library. A tool takes its arguments and the files of the machine
  and returns its outcome (\<open>Exit\<close> is \<open>process::exit(1)\<close>, \<open>Err\<close> an error returned from \<open>main\<close>), what it
  printed and the files afterwards. A printed line is the constructor of its \<open>println!\<close> with the values in it.
\<close>

section \<open>Arguments and output\<close>

text \<open>\<open>str::parse\<close> for an unsigned integer of \<open>w\<close> bits: an optional plus sign and at least one digit, no overflow.\<close>

definition digit_of :: "char \<Rightarrow> nat option" where
  "digit_of c = (let n = of_char c :: nat in if 48 \<le> n \<and> n \<le> 57 then Some (n - 48) else None)"

fun parse_digits :: "nat \<Rightarrow> nat \<Rightarrow> string \<Rightarrow> nat option" where
  "parse_digits w acc [] = Some acc"
| "parse_digits w acc (c # cs) =
     (case digit_of c of
        None \<Rightarrow> None
      | Some d \<Rightarrow> if acc * 10 + d < 2 ^ w then parse_digits w (acc * 10 + d) cs else None)"

definition parse_uint :: "nat \<Rightarrow> string \<Rightarrow> nat option" where
  "parse_uint w s =
     (case s of
        [] \<Rightarrow> None
      | c # cs \<Rightarrow> if c = CHR ''+'' then (if cs = [] then None else parse_digits w 0 cs) else parse_digits w 0 s)"

datatype printed =
    Usage
  | UsageOf string
  | UnknownMode string
  | IssueLine string "32 word option" "nat option" string
  | Totals nat nat
  | WarningCount nat
  | FilesystemClean
  | StateCleared
  | RepairUnsafe
  | Repaired
  | JournalReplayed
  | InodeHeader "32 word"
  | InodeField string nat
  | InodeFlag string bool
  | NextIndex nat
  | ExtentLine extent
  | DtreeEntries nat
  | SymlinkTarget str
  | XtreeHeader "32 word"
  | ValidationOk
  | ValidationError
  | DtreeHeader "32 word"
  | EntryLine str "32 word"
  | NoInlineLog
  | LogHeader
  | LogField string nat
  | StateName string
  | TooFewBlocks
  | Created string nat nat "32 word"
  | OpenFailed storage_error
  | MountFailed storage_error
  | SpawnFailed
  | MountedAt string

text \<open>A command runs on what it printed so far and on its volume or its device.\<close>

type_synonym 'v session = "printed list \<times> 'v"

definition say :: "printed list \<Rightarrow> 'v session \<Rightarrow> unit res \<times> 'v session" where
  "say os w = (Ok (), (fst w @ os, snd w))"

definition within :: "('v \<Rightarrow> 'a res \<times> 'v) \<Rightarrow> 'v session \<Rightarrow> 'a res \<times> 'v session" where
  "within f w = (let (r, v) = f (snd w) in (r, (fst w, v)))"

definition on_opened :: "'c env \<Rightarrow> ('c volume session \<Rightarrow> unit res \<times> 'c volume session) \<Rightarrow> storage session
    \<Rightarrow> unit res \<times> storage session" where
  "on_opened E body w =
     st_bind (within (open_from_storage E) w) (\<lambda>v w.
       let (r, out, v') = body (fst w, v) in (r, (out, v_storage v')))"

definition on_image :: "file_storage res \<Rightarrow> string \<Rightarrow> (storage session \<Rightarrow> unit res \<times> storage session) \<Rightarrow> files
    \<Rightarrow> unit res \<times> printed list \<times> files" where
  "on_image opened path f fs =
     (case opened of
        Ok fd \<Rightarrow> (let (r, out, s) = f ([], FileStorage fd) in (r, out, keep_file fs path s))
      | Err e \<Rightarrow> (Err e, [], fs)
      | Panic \<Rightarrow> (Panic, [], fs)
      | Exit \<Rightarrow> (Exit, [], fs))"

section \<open>jfsck\<close>

definition issue_line :: "check_issue \<Rightarrow> printed" where
  "issue_line i =
     IssueLine (if ci_level i = 2 then ''ERROR'' else if ci_level i = 1 then ''WARNING'' else ''INFO'')
       (ci_ino i) (if ci_ino i = None then ci_block i else None) (ci_message i)"

definition errors_of :: "check_report \<Rightarrow> nat" where
  "errors_of r = length (filter (\<lambda>i. ci_level i = 2) r)"

definition warnings_of :: "check_report \<Rightarrow> nat" where
  "warnings_of r = length (filter (\<lambda>i. ci_level i = 1) r)"

definition check_image :: "'c env \<Rightarrow> 'c volume session \<Rightarrow> unit res \<times> 'c volume session" where
  "check_image E w =
     st_bind (within (check_consistent E) w) (\<lambda>report w.
     st_bind (say (map issue_line report) w) (\<lambda>_ w.
       let errors = errors_of report; warnings = warnings_of report in
       if 0 < errors then st_bind (say [Totals errors warnings] w) (\<lambda>_ w. (Exit, w))
       else if 0 < warnings then say [WarningCount warnings] w
       else say [FilesystemClean] w))"

definition repair_image :: "'c env \<Rightarrow> 'c volume session \<Rightarrow> unit res \<times> 'c volume session" where
  "repair_image E w =
     st_bind (within (check_consistent E) w) (\<lambda>report w.
     st_bind (say (map issue_line report) w) (\<lambda>_ w.
       let errors = errors_of report; warnings = warnings_of report;
           has_structural_errors = 0 < errors;
           current_state = sb_state (v_sb (snd w)) in
       st_bind (if current_state = FM_DIRTY \<and> \<not> has_structural_errors
                then st_bind (within (set_fs_state FM_CLEAN) w) (\<lambda>_ w.
                     st_bind (say [StateCleared] w) (\<lambda>_ w. (Ok True, w)))
                else (Ok False, w)) (\<lambda>has_repairable w.
         if has_structural_errors then st_bind (say [Totals errors warnings, RepairUnsafe] w) (\<lambda>_ w. (Exit, w))
         else
           st_bind (say (if 0 < warnings then [WarningCount warnings] else []) w) (\<lambda>_ w.
             say [if has_repairable then Repaired else FilesystemClean] w))))"

definition dump_extents :: "inode \<Rightarrow> printed list res" where
  "dump_extents i =
     (if is_regular (i_dinode i) \<or> is_dir (i_dinode i)
      then res_bind (from_inode_data (xtroot_bytes (i_dinode i))) (\<lambda>xt.
             Ok (NextIndex (next_index xt) # map ExtentLine (iter_extents xt)))
      else Ok [])"

definition dump_inode :: "'c env \<Rightarrow> 32 word \<Rightarrow> 'c volume session \<Rightarrow> unit res \<times> 'c volume session" where
  "dump_inode E ino w =
     st_bind (within (inode_read E ino) w) (\<lambda>i w.
     let d = i_dinode i in
     st_bind (say [InodeHeader ino, InodeField ''mode'' (unat (mode d)), InodeField ''size'' (inode_size i),
                   InodeField ''nlink'' (unat (nlink d)), InodeField ''uid'' (unat (uid d)), InodeField ''gid'' (unat (gid d)),
                   InodeField ''nblock'' (unat (nblocks d)), InodeFlag ''is_dir'' (is_dir d),
                   InodeFlag ''is_reg'' (is_regular d), InodeFlag ''is_lnk'' (is_symlink d)] w) (\<lambda>_ w.
     st_bind (dump_extents i, w) (\<lambda>ls w.
     st_bind (say ls w) (\<lambda>_ w.
     st_bind (if is_dir d
              then st_bind (dt_from_inode_data (dtroot_bytes d), w) (\<lambda>dt w. say [DtreeEntries (len_entries dt)] w)
              else (Ok (), w)) (\<lambda>_ w.
       if is_symlink d
       then st_bind (slice_res 0 (inode_size i) (di_u d), w) (\<lambda>target w. say [SymlinkTarget (from_utf8_lossy target)] w)
       else (Ok (), w))))))"

definition dump_xtree :: "'c env \<Rightarrow> 32 word \<Rightarrow> 'c volume session \<Rightarrow> unit res \<times> 'c volume session" where
  "dump_xtree E ino w =
     st_bind (within (inode_read E ino) w) (\<lambda>i w.
     st_bind (from_inode_data (xtroot_bytes (i_dinode i)), w) (\<lambda>xt w.
       say ([XtreeHeader ino, NextIndex (next_index xt), if validate xt then ValidationOk else ValidationError] @
            map ExtentLine (iter_extents xt)) w))"

definition dump_dtree :: "'c env \<Rightarrow> 32 word \<Rightarrow> 'c volume session \<Rightarrow> unit res \<times> 'c volume session" where
  "dump_dtree E ino w =
     st_bind (within (inode_read E ino) w) (\<lambda>i w.
     st_bind (dt_from_inode_data (dtroot_bytes (i_dinode i)), w) (\<lambda>dt w.
     st_bind (say [DtreeHeader ino, DtreeEntries (len_entries dt)] w) (\<lambda>_ w.
     st_bind (dt_entries dt, w) (\<lambda>es w.
       say (map (\<lambda>e. EntryLine (trim_end_nul (from_utf16_lossy (de_name e))) (de_inumber e)) es) w))))"

definition log_state_name :: "32 word \<Rightarrow> string" where
  "log_state_name st =
     (if st = 0 then ''LOGMOUNT'' else if st = LOGREDONE then ''LOGREDONE (clean)''
      else if st = LOGWRAP then ''LOGWRAP (needs recovery)'' else if st = 3 then ''LOGREADERR'' else ''unknown'')"

definition dump_journal :: "storage session \<Rightarrow> unit res \<times> storage session" where
  "dump_journal w =
     st_bind (within read_super w) (\<lambda>sb w.
       if \<not> has_inline_log sb then say [NoInlineLog] w
       else if 2 ^ 64 \<le> unat (pxd_address (s_logpxd sb)) * BLOCK_SIZE then (Panic, w)
       else
         st_bind (within (\<lambda>s. lm_read_super s (unat (pxd_address (s_logpxd sb)) * BLOCK_SIZE)) w) (\<lambda>ls w.
           say [LogHeader, LogField ''magic'' (unat (ls_magic_val ls)), LogField ''version'' (unat (ls_version_val ls)),
                LogField ''state'' (unat (ls_state_val ls)), LogField ''end'' (ls_end_val ls),
                LogField ''pages'' (ls_page_size ls), LogField ''bsize'' (unat (read_u32 (ls_bsize ls))),
                StateName (log_state_name (ls_state_val ls))] w))"

definition cmd_read_only :: "'c env \<Rightarrow> platform \<Rightarrow> string \<Rightarrow> files \<Rightarrow> unit res \<times> printed list \<times> files" where
  "cmd_read_only E p img fs = on_image (open_readonly p fs img) img (on_opened E (check_image E)) fs"

definition cmd_repair :: "'c env \<Rightarrow> platform \<Rightarrow> string \<Rightarrow> files \<Rightarrow> unit res \<times> printed list \<times> files" where
  "cmd_repair E p img fs = on_image (file_open p fs img) img (on_opened E (repair_image E)) fs"

definition cmd_replay :: "'c env \<Rightarrow> platform \<Rightarrow> string \<Rightarrow> files \<Rightarrow> unit res \<times> printed list \<times> files" where
  "cmd_replay E p img fs = on_image (file_open p fs img) img (on_opened E (say [JournalReplayed])) fs"

definition cmd_dump_inode :: "'c env \<Rightarrow> platform \<Rightarrow> string \<Rightarrow> 32 word \<Rightarrow> files \<Rightarrow> unit res \<times> printed list \<times> files" where
  "cmd_dump_inode E p img ino fs = on_image (open_readonly p fs img) img (on_opened E (dump_inode E ino)) fs"

definition cmd_dump_xtree :: "'c env \<Rightarrow> platform \<Rightarrow> string \<Rightarrow> 32 word \<Rightarrow> files \<Rightarrow> unit res \<times> printed list \<times> files" where
  "cmd_dump_xtree E p img ino fs = on_image (open_readonly p fs img) img (on_opened E (dump_xtree E ino)) fs"

definition cmd_dump_dtree :: "'c env \<Rightarrow> platform \<Rightarrow> string \<Rightarrow> 32 word \<Rightarrow> files \<Rightarrow> unit res \<times> printed list \<times> files" where
  "cmd_dump_dtree E p img ino fs = on_image (open_readonly p fs img) img (on_opened E (dump_dtree E ino)) fs"

definition cmd_dump_journal :: "platform \<Rightarrow> string \<Rightarrow> files \<Rightarrow> unit res \<times> printed list \<times> files" where
  "cmd_dump_journal p img fs = on_image (open_readonly p fs img) img dump_journal fs"

text \<open>The three modes that take an inode number.\<close>

definition with_ino :: "string \<Rightarrow> string list \<Rightarrow> (32 word \<Rightarrow> files \<Rightarrow> unit res \<times> printed list \<times> files) \<Rightarrow> files
    \<Rightarrow> unit res \<times> printed list \<times> files" where
  "with_ino mode_name args f fs =
     (if length args < 4 then (Exit, [UsageOf mode_name], fs)
      else case parse_uint 32 (args ! 3) of
        None \<Rightarrow> (Err (Other ''invalid inode number''), [], fs)
      | Some n \<Rightarrow> f (word_of_nat n) fs)"

definition jfsck_main :: "'c env \<Rightarrow> platform \<Rightarrow> string list \<Rightarrow> files \<Rightarrow> unit res \<times> printed list \<times> files" where
  "jfsck_main E p args fs =
     (if length args < 3 then (Exit, [Usage], fs)
      else
        let m = args ! 1; img = args ! 2 in
        if m = ''--read-only'' then cmd_read_only E p img fs
        else if m = ''--repair'' then cmd_repair E p img fs
        else if m = ''--replay'' then cmd_replay E p img fs
        else if m = ''--dump-inode'' then with_ino m args (cmd_dump_inode E p img) fs
        else if m = ''--dump-xtree'' then with_ino m args (cmd_dump_xtree E p img) fs
        else if m = ''--dump-dtree'' then with_ino m args (cmd_dump_dtree E p img) fs
        else if m = ''--dump-journal'' then cmd_dump_journal p img fs
        else (Exit, [UnknownMode m], fs))"

section \<open>newjfs\<close>

text \<open>
  \<open>OpenOptions::new().read(true).write(true).create(true).truncate(true).open(path)\<close>, where \<open>new\<close> is the empty
  file the operating system makes when there is none, and \<open>File::set_len\<close>.
\<close>

definition open_truncated :: "os_file \<Rightarrow> files \<Rightarrow> string \<Rightarrow> os_file" where
  "open_truncated new fs path =
     (case fs path of
        None \<Rightarrow> new
      | Some f \<Rightarrow> if of_type f = IsFile then f\<lparr>of_data := []\<rparr> else f)"

definition set_len :: "nat \<Rightarrow> os_file \<Rightarrow> os_file res" where
  "set_len n f =
     (if of_type f = IsFile
      then Ok (f\<lparr>of_data := take n (of_data f) @ replicate (n - length (of_data f)) 0\<rparr>)
      else Err (Io False))"

definition NEWJFS_BLOCKS :: nat where "NEWJFS_BLOCKS = 4096"

definition make_image :: "platform \<Rightarrow> string \<Rightarrow> nat \<Rightarrow> files \<Rightarrow> unit res \<times> printed list \<times> files" where
  "make_image p path num_blocks fs =
     on_image (file_open p fs path) path (\<lambda>w.
       st_bind (within (build_filesystem num_blocks) w) (\<lambda>_ w.
         say [Created path (size_blocks (snd w)) (num_blocks * BLOCK_SIZE) FM_CLEAN] w)) fs"

definition newjfs_main :: "platform \<Rightarrow> os_file \<Rightarrow> string list \<Rightarrow> files \<Rightarrow> unit res \<times> printed list \<times> files" where
  "newjfs_main p new args fs =
     (if length args < 2 then (Exit, [Usage], fs)
      else
        let path = args ! 1 in
        case (if 3 \<le> length args then parse_uint 64 (args ! 2) else Some NEWJFS_BLOCKS) of
          None \<Rightarrow> (Err (Other ''invalid block count''), [], fs)
        | Some num_blocks \<Rightarrow>
            if num_blocks < 64 then (Exit, [TooFewBlocks], fs)
            else if 2 ^ 64 \<le> num_blocks * BLOCK_SIZE then (Panic, [], fs)
            else
              let file = open_truncated new fs path in
              case set_len (num_blocks * BLOCK_SIZE) file of
                Ok file \<Rightarrow> make_image p path num_blocks (fs(path \<mapsto> file))
              | Err e \<Rightarrow> (Err e, [], fs(path \<mapsto> file))
              | Panic \<Rightarrow> (Panic, [], fs(path \<mapsto> file))
              | Exit \<Rightarrow> (Exit, [], fs(path \<mapsto> file)))"

section \<open>mount\<close>

datatype mount_option = FSName string | RO
datatype session_acl = AclAll | AclOwner

record mount_config =
  mc_options :: "mount_option list"
  mc_acl :: session_acl
  mc_threads :: nat

definition mount_config_for :: "bool \<Rightarrow> bool \<Rightarrow> mount_config" where
  "mount_config_for read_only allow_other =
     \<lparr>mc_options = FSName ''jfs'' # (if read_only then [RO] else []),
      mc_acl = (if allow_other then AclAll else AclOwner), mc_threads = 4\<rparr>"

text \<open>
  \<open>main\<close> of \<open>bin/mount.rs\<close> up to \<open>fuser::spawn_mount\<close>, whose outcome is the parameter \<open>spawn\<close>: the exit code of an
  early return or the running session's file system object, the printed lines, and the files.
\<close>

definition mount_main :: "'c env \<Rightarrow> platform \<Rightarrow> ('c fuse \<Rightarrow> string \<Rightarrow> mount_config \<Rightarrow> bool) \<Rightarrow> string list \<Rightarrow> files
    \<Rightarrow> (nat + 'c fuse) \<times> printed list \<times> files" where
  "mount_main E p spawn args fs =
     (if length args < 3 then (Inl 1, [Usage], fs)
      else
        let device = args ! 1; mountpoint = args ! 2;
            read_only = ''--ro'' \<in> set (drop 3 args); allow_other = ''--allow-other'' \<in> set (drop 3 args) in
        case (if read_only then volume_open E p device fs else volume_mount E p device fs) of
          (Ok v, fs) \<Rightarrow>
            let f = fuse_new v; f = (if read_only then f else snd (enable_writable f)) in
            if spawn f mountpoint (mount_config_for read_only allow_other)
            then (Inr f, [MountedAt mountpoint], fs) else (Inl 1, [SpawnFailed], fs)
        | (Err e, fs) \<Rightarrow> (Inl 1, [if read_only then OpenFailed e else MountFailed e], fs)
        | (_, fs) \<Rightarrow> (Inl 101, [], fs))"

section \<open>What the tools do to an image\<close>

lemma repair_refuses:
  assumes "check_consistent E v = (Ok r, v')" "0 < errors_of r"
  shows "repair_image E (out, v) =
    (Exit, (out @ map issue_line r @ [Totals (errors_of r) (warnings_of r), RepairUnsafe], v'))"
  using assms by (simp add: repair_image_def within_def say_def Let_def)

lemma repair_clears:
  assumes "check_consistent E v = (Ok r, v')" "errors_of r = 0" "sb_state (v_sb v') = FM_DIRTY"
    "set_fs_state FM_CLEAN v' = (Ok (), v'')"
  shows "repair_image E (out, v) =
    (Ok (), (out @ map issue_line r @ StateCleared # (if 0 < warnings_of r then [WarningCount (warnings_of r)] else []) @ [Repaired], v''))"
  using assms by (simp add: repair_image_def within_def say_def Let_def)

lemma repair_idle:
  assumes "check_consistent E v = (Ok r, v')" "errors_of r = 0" "sb_state (v_sb v') \<noteq> FM_DIRTY"
  shows "repair_image E (out, v) =
    (Ok (), (out @ map issue_line r @ (if 0 < warnings_of r then [WarningCount (warnings_of r)] else []) @ [FilesystemClean], v'))"
  using assms by (simp add: repair_image_def within_def say_def Let_def)

text \<open>The file of a formatted image: a regular file that serves every request.\<close>

definition image_file :: "nat \<Rightarrow> 32 word \<Rightarrow> os_file \<Rightarrow> bool" where
  "image_file n st f \<longleftrightarrow> of_type f = IsFile \<and> steady f \<and> of_data f = state_image n st"

definition opened :: "os_file \<Rightarrow> file_storage" where
  "opened f = \<lparr>fd_file = f, fd_size = length (of_data f), fd_read_only = False,
     fd_geometry = \<lparr>media_size = length (of_data f), num_sectors = length (of_data f) div 512, sector_size = 512\<rparr>\<rparr>"

lemma file_open_regular: "fs path = Some f \<Longrightarrow> of_type f = IsFile \<Longrightarrow> file_open p fs path = Ok (opened f)"
  by (simp add: file_open_def open_with_options_def from_file_def metadata_len_def opened_def)

lemma opened_ok: "steady f \<Longrightarrow> length (of_data f) < 2 ^ 64 \<Longrightarrow> st_ok (FileStorage (opened f))"
  by (simp add: file_ok_def opened_def)

lemma opened_geometry:
  assumes "4096 \<le> n" "n \<le> 8192" "length (of_data f) = n * 4096"
  shows "check_geometry (FileStorage (opened f)) (super_state n st) = Ok ()"
proof -
  have "is_valid_sector_size 512" by (simp add: is_valid_sector_size_def image_iff) (rule bexI [of _ 9]; simp)
  moreover have "n < 2 ^ 64" using assms(2) by simp
  note sf = format_super_facts [OF this, of st]
  ultimately show ?thesis using assms
    by (simp add: check_geometry_def opened_def validate_against_superblock_def sector_size_compatible_def sf(3,5) PSIZE_def SUPER1_OFF_def)
qed

lemma keep_opened:
  "keep_file fs path (with_contents (FileStorage (opened f)) x) = fs(path \<mapsto> f\<lparr>of_data := x\<rparr>)"
  "keep_file fs path (FileStorage (opened f)) = fs(path \<mapsto> f)"
  by (simp_all add: keep_file_def opened_def)

lemma image_file_opens:
  assumes "4096 \<le> n" "n \<le> 8192" "image_file n st f"
  shows "formatted n st (FileStorage (opened f))" "check_geometry (FileStorage (opened f)) (super_state n st) = Ok ()"
proof -
  have l: "length (of_data f) = n * 4096" using assms length_state_image [of n st] by (simp add: image_file_def)
  then show "check_geometry (FileStorage (opened f)) (super_state n st) = Ok ()" using opened_geometry [OF assms(1,2)] by blast
  show "formatted n st (FileStorage (opened f))"
    using assms l opened_ok [of f] by (simp add: formatted_def image_file_def opened_def)
qed

lemma image_mounts:
  assumes "library E valid" "4096 \<le> n" "n \<le> 8192" "image_file n st f" "fs path = Some f"
  shows "\<exists>v. volume_mount E p path fs = (Ok v, fs(path \<mapsto> f\<lparr>of_data := state_image n FM_DIRTY\<rparr>)) \<and> holds_format E valid n FM_DIRTY v"
proof -
  note o = image_file_opens [OF assms(2-4)]
  have "file_open p fs path = Ok (opened f)" using assms(4,5) file_open_regular by (simp add: image_file_def)
  with formatted_mounts [OF assms(1-3) o] show ?thesis
    by (auto simp: volume_mount_def with_file_def keep_opened simp del: with_contents.simps)
qed

lemma image_repaired:
  assumes "library E valid" "4096 \<le> n" "n \<le> 8192" "image_file n st f" "fs path = Some f"
  shows "cmd_repair E p path fs =
    (Ok (), if st = FM_DIRTY then [StateCleared, Repaired] else [FilesystemClean],
     if st = FM_DIRTY then fs(path \<mapsto> f\<lparr>of_data := state_image n FM_CLEAN\<rparr>) else fs)"
proof -
  note o = image_file_opens [OF assms(2-4)]
  have f: "file_open p fs path = Ok (opened f)" using assms(4,5) file_open_regular by (simp add: image_file_def)
  obtain v where v: "open_from_storage E (FileStorage (opened f)) = (Ok v, FileStorage (opened f))"
    "v_storage v = FileStorage (opened f)" "holds_format E valid n st v"
    using formatted_opens [OF assms(1,2) o] by blast
  have c: "check_consistent E v = (Ok [], v)" using holds_format_fresh [OF assms(1-3) v(3)] by (simp add: fresh_volume_def)
  have st: "sb_state (v_sb v) = st" using v(3) by (simp add: holds_format_def sb_state_def)
  obtain v' where v': "set_fs_state FM_CLEAN v = (Ok (), v')"
    "v_storage v' = with_contents (FileStorage (opened f)) (state_image n FM_CLEAN)"
    using set_state_holds [OF assms(2) v(3), of FM_CLEAN] v(2) by auto
  have e: "errors_of [] = 0" "warnings_of [] = 0" by (simp_all add: errors_of_def warnings_of_def)
  show ?thesis
  proof (cases "st = FM_DIRTY")
    case True
    with repair_clears [OF c e(1) _ v'(1), of "[]"] st v v'(2) f e show ?thesis
      by (simp add: cmd_repair_def on_image_def on_opened_def within_def keep_opened del: with_contents.simps)
  next
    case False
    with repair_idle [OF c e(1), of "[]"] st v f e assms(5) show ?thesis
      by (simp add: cmd_repair_def on_image_def on_opened_def within_def keep_opened fun_upd_idem)
  qed
qed



end
