(* ===== verification/Spec2Isabelle.thy ===== *)
theory Spec2Isabelle
  imports OnDisk Storage Xtree Xtree_Read Dtree Dmap Journal Recovery Log_Scan Page_Cache Transaction Crash Volume_File Volume_Write
    Volume_Dir Volume_Xattr Volume_Check Fuse_Adapter Fuse_Requests Format Fresh_Volume Tools
begin

text \<open>
  Verification library for JFSfuse, a JFS file system in Rust that is served through FUSE (sources under \<open>src/src\<close>).

  \<^bold>\<open>The program.\<close> A storage device (\<open>storage/mod.rs\<close>) is read and written in blocks of 4096 bytes. A mounted volume
  (\<open>volume.rs\<close>) holds such a device, the superblock, a page cache (\<open>storage/mod.rs\<close>), a transaction manager
  (\<open>transaction.rs\<close>), an optional log manager (\<open>journal/logmgr.rs\<close>) and an optional block allocator (\<open>alloc/dmap.rs\<close>). An
  operation begins a transaction, edits pages of the inode table in the cache, marks them dirty and commits: the commit
  logs the pages, flushes the log, and only then writes the pages to their blocks. After a crash \<open>journal/recovery.rs\<close>
  replays the log when the volume is mounted. Files map their blocks by an extent tree in the inode (\<open>btree/xtree.rs\<close>),
  directories hold their entries in the inode (\<open>btree/dtree.rs\<close>). \<open>FuseFs\<close> (\<open>fuse/mod.rs\<close>) adds locks, file handles,
  lookup counts and interrupts (\<open>fuse/interrupt.rs\<close>); \<open>Fuse3Fs\<close> serves the requests of the kernel with it. \<open>mkfs.rs\<close>
  formats a device, and \<open>bin/\<close> holds the tools \<open>newjfs\<close>, \<open>jfsck\<close> and \<open>mount\<close>.

  \<^bold>\<open>Conventions\<close> (\<open>JFS_Prelude\<close>). A fallible function returns \<open>'a res\<close>: \<open>Ok\<close>, \<open>Err\<close> with the constructors of
  \<open>StorageError\<close>, \<open>Panic\<close> where the source panics (arithmetic overflow as in a debug build, slices out of range), and
  \<open>Exit\<close> for \<open>process::exit\<close>. State is passed explicitly: a method is a function from the record of its object to a
  result and the record after it, also on errors, and \<open>st_bind\<close> is \<open>?\<close>. Packed structures are records of byte arrays with
  little-endian accessors, integers that the source keeps at a width are words or naturals with the bound written out.
  \<open>dyn Storage\<close> is the datatype \<open>storage\<close> of all its implementations. What the code takes from elsewhere is a
  parameter: the LRU map of the \<open>lru\<close> crate and the iteration order of a hash set are the fields of the record \<open>env\<close>; the
  results of system calls are fields of the records for files.

  \<^bold>\<open>Theories and sources.\<close>
  \<^item> \<open>OnDisk\<close>: \<open>types.rs\<close>. The fields of extent descriptors are independent, an inode is parsed and packed without loss.
  \<^item> \<open>Block_Device\<close>, \<open>File_Storage\<close>, \<open>Storage\<close>: \<open>storage/mod.rs\<close> with its files, memory, null, read-only and
    fault-injecting devices, \<open>storage/geometry.rs\<close>, \<open>storage/device_size.rs\<close>. The positional read and write loops end
    and transfer what they were asked to, a write of whole blocks inside the device reads back and any other is
    refused, the read-only device never changes its medium.
  \<^item> \<open>Page_Cache\<close>: \<open>CachedPage\<close>, \<open>PageCache\<close>, \<open>ConsistencyChecker\<close>. No dirty or pinned page is dropped by a guarded insertion,
    a flush leaves every dirty page on its block.
  \<^item> \<open>Xtree\<close>, \<open>Xtree_Read\<close>: \<open>btree/xtree.rs\<close>. Insertion, truncation and punching refine updates of the map from file
    blocks to disk blocks; reading a file without holes returns the bytes of the mapped blocks; the root is packed and parsed without loss.
  \<^item> \<open>Dtree\<close>: \<open>btree/dtree.rs\<close>. Insertion into a directory without holes appends to the list of entries or is
    refused, removal deletes from it. Removal of an entry that is not the last leaves a hole, and insertion into a
    directory with a hole overwrites an entry.
  \<^item> \<open>Dmap\<close>: \<open>alloc/dmap.rs\<close>, \<open>alloc/imap.rs\<close>. Allocation is first fit from a hint, then first fit from the start;
    rollback restores the bitmap when no block was both allocated and freed.
  \<^item> \<open>Journal\<close>, \<open>Recovery\<close>, \<open>Log_Scan\<close>: \<open>journal/\<close>. Recovery writes only images of committed transactions, and the scan finds
    the records that the log manager wrote while they fit its first buffer; of a longer run it can lose records.
  \<^item> \<open>Transaction\<close>, \<open>Log_Frame\<close>, \<open>Crash\<close>: \<open>transaction.rs\<close>. With a log on the device of the file system, as a volume has it, a
    commit writes the pages, the log and nothing else (\<open>Log_Frame\<close>); it writes no page before the records are on the
    log, and recovery from the device puts the logged pages on their blocks however far the page writes got
    (\<open>Crash\<close>). The last holds for records that fit one log buffer and a log that is not marked as replayed:
    recovery skips a log in state \<open>LOGREDONE\<close>, which is the state \<open>mkfs\<close> writes.
  \<^item> \<open>Volume\<close>, \<open>Inode_Edit\<close>, \<open>Inode_Table\<close>: \<open>volume.rs\<close> and \<open>inode.rs\<close>: mounting, transactions, the inode table. Reading
    an inode from the device and while pages of the table are cached; editing one inode in a transaction.
  \<^item> \<open>Volume_File\<close>, \<open>Volume_Write\<close>: writing, truncating, preallocating, moving extents, attributes. Writing over mapped
    blocks leaves exactly the data in the range; setting attributes changes exactly those, except that a given mode
    also loses its bits above the low sixteen.
  \<^item> \<open>Volume_Dir\<close> with \<open>Rust_Str\<close>: the operations on names. \<open>Volume_Create\<close>, \<open>Volume_Mkdir\<close>, \<open>Volume_Link\<close>: what creating files,
    symbolic links and directories, linking and unlinking do to the inode table. Linking and unlinking edit two inodes; when both lie in one block of the
    table the change of the link count is lost (\<open>link_file_same_block\<close>, \<open>unlink_file_same_block\<close>). \<open>Volume_Files\<close>: allocation takes the
    first free slot, and the numbering of the inodes is an invariant under which every number it gives is new.
  \<^item> \<open>Volume_Xattr\<close>, \<open>Volume_Check\<close>: extended attributes, and the consistency check with what it accepts.
  \<^item> \<open>Fuse_Locks\<close>, \<open>Interrupt\<close>, \<open>Fuse\<close>, \<open>Fuse_Adapter\<close>, \<open>Fuse_Requests\<close>: \<open>fuse/mod.rs\<close>, \<open>fuse/interrupt.rs\<close>. The requests are the rules
    of a step relation; lock tables and handles stay consistent along every run, and a read-only file system
    is never modified by a modifying request.
  \<^item> \<open>Format\<close>, \<open>Fresh_Volume\<close>: \<open>mkfs.rs\<close>. A zeroed device of 4096 to 8192 blocks, formatted, mounts with an empty root and the recorded free blocks, passes
    the check, and takes files. \<open>Tools\<close>: \<open>bin/\<close>. An image from \<open>newjfs\<close> is mounted, and repaired by \<open>jfsck\<close>.
  \<^item> This theory: the journal from the log manager to recovery, and transactions that an error left open.

  \<^bold>\<open>Interfaces.\<close> \<open>block_device\<close>, \<open>byte_device\<close> and \<open>sliced_device\<close> state what a device promises and are interpreted for memory,
  files and every \<open>storage\<close>; \<open>extent_editor\<close> carries the proofs about truncating, punching and taking extents;
  \<open>lru_cache\<close> is the contract of the LRU map and \<open>library\<close> that of all parameters, both interpreted by a list; \<open>lock_table\<close>
  covers byte-range and whole-file locks. The theorems about volumes assume \<open>library\<close>, so they hold for every such map.

  \<^bold>\<open>The state between operations.\<close> \<open>idle E valid k v\<close> says that no transaction is open, the cache is empty, the device works, the
  inode table lies outside the log and the block map, and the log has room for \<open>k\<close> more buffers. A commit of one page
  takes at most two buffers and one of two pages three, because the log manager starts a new buffer when a record does
  not fit and never looks at the size of its log; a new volume starts with 126. \<open>roomy\<close> says that the cache has room for two pages.

  \<^bold>\<open>Termination.\<close> Every function of the model is total and no fuel is used. Loops over lists and counters are
  structural; the others come with a measure: the bytes still to move (\<open>read_exact_at\<close>, \<open>write_all_at\<close>, \<open>copy_loop\<close>), the
  input still to read (\<open>utf8_lossy\<close>, \<open>parse_xattr_from\<close>), the blocks still to map (\<open>map_blocks_loop\<close>), and the distance
  to the end of the log (\<open>find_end_from\<close>, \<open>scan_log\<close>) or to its start (\<open>find_syncpt_from\<close>).

  \<^bold>\<open>Not modelled.\<close> Test modules; \<open>fuse/abi.rs\<close> (constants that nothing reads) and \<open>lib.rs\<close> (module declarations); the builds
  without the \<open>writable\<close> feature; threads and locks around the file system object, which serves one request at a
  time; the reply objects of the \<open>fuser\<close> crate, whose arguments are the results of the model; the texts of the operating
  system's errors; the session loop of \<open>mount\<close>. Modelled, but without a theorem on their whole effect: \<open>fallocate\<close>,
  \<open>copy_file_range\<close>, \<open>rmdir\<close>, renaming into another directory, and unlinking a file that has blocks.
\<close>

section \<open>The journal as a whole\<close>

text \<open>
  C4. What the log manager writes is what recovery reads: after a run of \<open>append_log_record\<close> and
  \<open>commit_transaction\<close> on a new log manager that ends with a commit and whose records fit the first log buffer of 8192 bytes
  without filling a page exactly, every call has succeeded, and the scan of the log device returns exactly the
  records of the run in order, with their transaction ids, back chains, block addresses and after-images.
\<close>

theorem log_written_is_scanned:
  assumes "fits_buffer ls base (ops @ [Commit t]) s"
  shows "\<exists>m' s' l reader. run_ops (ops @ [Commit t]) (logmgr_new ls base) s = (Ok (), (m', s')) \<and>
    lm_read_super s' base = (Ok l, s') \<and>
    scan_phase (recovery_new l) (data_start (logmgr_new l base)) s' =
      (Ok (op_records 0 0 (ops @ [Commit t]), reader), s')"
  using run_ops_scan [OF assms] unfolding data_start_new by metis

text \<open>An example run: transaction 1 logs block 2 and commits, on a log of 16 pages at offset 0.\<close>

definition sample_super :: "32 word \<Rightarrow> logsuper" where
  "sample_super st = logsuper_default\<lparr>ls_size := write_u32 16, ls_state := write_u32 st\<rparr>"

definition sample_ops :: "log_op list" where
  "sample_ops = [Append 1 2 (replicate BLOCK_SIZE 7)]"

lemma sample_records:
  "op_records 0 0 (sample_ops @ [Commit 1]) =
     [(redo_lrd 1 0 2 BLOCK_SIZE, replicate BLOCK_SIZE 7), (commit_lrd 1 0, [])]"
  by (simp add: sample_ops_def)

lemma sample_fits: "fits_buffer (sample_super st) 0 (sample_ops @ [Commit 1]) (MemoryStorage (mem_new 20))"
  unfolding fits_buffer_def Let_def sample_records
  by (auto simp: mem_new_ok sample_super_def sample_ops_def ls_wf_def logsuper_default_def ls_page_size_def log_size_defs)
    (simp_all add: mem_new_def block_size_defs)

lemma sample_images:
  "committed_images (op_records 0 0 (sample_ops @ [Commit 1])) = [(2, replicate BLOCK_SIZE 7)]"
  unfolding sample_records by simp

theorem log_written_is_scanned_witness:
  "\<exists>m' s' l reader. run_ops (sample_ops @ [Commit 1]) (logmgr_new (sample_super 0) 0) (MemoryStorage (mem_new 20)) =
      (Ok (), (m', s')) \<and> lm_read_super s' 0 = (Ok l, s') \<and>
    scan_phase (recovery_new l) (data_start (logmgr_new l 0)) s' =
      (Ok ([(redo_lrd 1 0 2 BLOCK_SIZE, replicate BLOCK_SIZE 7), (commit_lrd 1 0, [])], reader), s')"
  using log_written_is_scanned [OF sample_fits [of 0]] unfolding sample_records .

text \<open>
  C1. Crash recovery end to end, for a log on a device of its own: a run of a new log manager, whose log is not marked as replayed, that ends
  with a commit and whose records fit the first log buffer of 8192 bytes, so that it logs at most one block image,
  is recovered from the log device alone. Recovery succeeds on any healthy file system device, every block with a
  committed image holds that image afterwards although nothing else of the transaction had reached the device, all
  other blocks keep their contents, and the log is marked as replayed.
\<close>

theorem crash_recovery:
  assumes "fits_buffer ls base (ops @ [Commit t]) s" "ls_state_val ls \<noteq> LOGREDONE" "st_ok fs"
    "plain_log fs (op_records 0 0 (ops @ [Commit t]))"
    "distinct (map fst (committed_images (op_records 0 0 (ops @ [Commit t]))))"
  shows "\<exists>m' s' l rc' log' fs'. run_ops (ops @ [Commit t]) (logmgr_new ls base) s = (Ok (), (m', s')) \<and>
    lm_read_super s' base = (Ok l, s') \<and>
    replay (recovery_new l) s' fs (data_start (logmgr_new l base)) = (Ok (), rc', log', fs') \<and>
    (\<forall>b d. (b, d) \<in> set (committed_images (op_records 0 0 (ops @ [Commit t]))) \<longrightarrow>
       fst (read_block fs' b) = Ok d) \<and>
    (\<forall>b. b \<notin> fst ` set (committed_images (op_records 0 0 (ops @ [Commit t]))) \<longrightarrow>
       fst (read_block fs' b) = fst (read_block fs b)) \<and>
    ls_state_val (rc_logsuper rc') = LOGREDONE"
  by (rule recover_run [OF assms])

theorem crash_recovery_witness:
  "\<exists>m' s' l rc' log' fs'. run_ops (sample_ops @ [Commit 1]) (logmgr_new (sample_super 0) 0) (MemoryStorage (mem_new 20)) =
      (Ok (), (m', s')) \<and> lm_read_super s' 0 = (Ok l, s') \<and>
    replay (recovery_new l) s' (MemoryStorage (mem_new 4)) (data_start (logmgr_new l 0)) = (Ok (), rc', log', fs') \<and>
    fst (read_block fs' 2) = Ok (replicate BLOCK_SIZE 7)"
proof -
  let ?rs = "op_records 0 0 (sample_ops @ [Commit 1])" and ?fs = "MemoryStorage (mem_new 4)"
  have "ls_state_val (sample_super 0) \<noteq> LOGREDONE" by (simp add: sample_super_def ls_state_val_def LOGREDONE_def)
  moreover have "st_ok ?fs" by (simp add: mem_new_ok block_size_defs)
  moreover have "plain_log ?fs ?rs" unfolding plain_log_def sample_images using ops_plain by auto
  moreover have "distinct (map fst (committed_images ?rs))" unfolding sample_images by simp
  ultimately show ?thesis using crash_recovery [OF sample_fits [of 0], of ?fs] unfolding sample_images by force
qed

text \<open>
  The other side of it: on a log whose superblock says \<open>LOGREDONE\<close> (the state \<open>mkfs\<close> writes) the
  log manager never changes that state, so after a crash recovery reads \<open>LOGREDONE\<close> from the device,
  reports success and leaves the file system as it is: the committed images in the log are not applied.
\<close>

theorem committed_log_skipped:
  assumes "fits_buffer ls base (ops @ [Commit t]) s" "ls_state_val ls = LOGREDONE"
  shows "\<exists>m' s' l. run_ops (ops @ [Commit t]) (logmgr_new ls base) s = (Ok (), (m', s')) \<and>
    lm_read_super s' base = (Ok l, s') \<and>
    replay (recovery_new l) s' fs (data_start (logmgr_new l base)) = (Ok (), recovery_new l, s', fs)"
proof -
  from run_ops_scan [OF assms(1)] obtain m' s' l where
    r: "run_ops (ops @ [Commit t]) (logmgr_new ls base) s = (Ok (), (m', s'))"
    "lm_read_super s' base = (Ok l, s')" "ls_state l = ls_state ls" by metis
  moreover have "ls_state_val (rc_logsuper (recovery_new l)) = LOGREDONE"
    using assms(2) r(3) by (simp add: recovery_new_def ls_state_val_def)
  ultimately show ?thesis by (simp add: replay_def)
qed

theorem committed_log_skipped_witness:
  "\<exists>m' s' l. run_ops (sample_ops @ [Commit 1]) (logmgr_new (sample_super LOGREDONE) 0) (MemoryStorage (mem_new 20)) =
      (Ok (), (m', s')) \<and> lm_read_super s' 0 = (Ok l, s') \<and>
    replay (recovery_new l) s' NullStorage (data_start (logmgr_new l 0)) = (Ok (), recovery_new l, s', NullStorage)"
  by (rule committed_log_skipped [OF sample_fits]) (simp add: sample_super_def ls_state_val_def)

text \<open>
  A transaction of two block images is not recovered even from a log that is replayed: the second
  image does not fit the log buffer, so it starts the next one and leaves zeros behind the first. The
  scan takes the zeros for the end of the log and never sees the commit record; recovery reports success
  and leaves the file system as it is.
\<close>

theorem two_block_commit_lost:
  assumes "st_ok s" "base + 2 * BLOCK_SIZE + 2 * LOG_BUFFER_SIZE \<le> length (contents s)" "ls_wf ls"
    "length d1 = BLOCK_SIZE" "length d2 = BLOCK_SIZE" "(word_of_nat t :: 32 word) \<noteq> 0" "2 \<le> ls_page_size ls"
    "ls_state_val ls \<noteq> LOGREDONE"
  shows "\<exists>m' s' l rc' log'.
    run_ops [Append t b1 d1, Append t b2 d2, Commit t] (logmgr_new ls base) s = (Ok (), (m', s')) \<and>
    lm_read_super s' base = (Ok l, s') \<and>
    replay (recovery_new l) s' fs (data_start (logmgr_new l base)) = (Ok (), rc', log', fs)"
proof -
  let ?D = "base + 2 * BLOCK_SIZE" and ?r = "redo_lrd t 0 b1 BLOCK_SIZE"
  from two_images_run [OF assms(1-7)] obtain m' s' l reader where
    r: "run_ops [Append t b1 d1, Append t b2 d2, Commit t] (logmgr_new ls base) s = (Ok (), (m', s'))"
    "st_ok s'" "?D + LOG_BUFFER_SIZE \<le> length (contents s')" "lm_read_super s' base = (Ok l, s')"
    "ls_state l = ls_state ls" "scan_phase (recovery_new l) ?D s' = (Ok ([(?r, d1)], reader), s')" by metis
  have "write_seq write_block fs (replay_images (seen (recovery_new l)) [(?r, d1)]) = (Ok (), fs)" by simp
  from replay_records_plain [OF plain_new _ this] obtain rc1 where
    p: "replay_records ?D (lr_pos reader) 0 [(?r, d1)] (recovery_new l) fs = (Ok (), rc1, fs)" by auto
  from finish_phase_ok [OF r(2,3), of rc1] obtain rc' log' where
    f: "finish_phase rc1 ?D s' = (Ok (), rc', log')" by auto
  have "ls_state_val (rc_logsuper (recovery_new l)) \<noteq> LOGREDONE"
    using assms(8) r(5) by (simp add: recovery_new_def ls_state_val_def)
  then have "replay (recovery_new l) s' fs ?D = (Ok (), rc', log', fs)"
    using r(6) p f by (simp add: replay_def)
  with r(1,4) show ?thesis unfolding data_start_new by blast
qed

theorem two_block_commit_lost_witness:
  "\<exists>m' s' l rc' log'.
    run_ops [Append 1 2 (replicate BLOCK_SIZE 7), Append 1 3 (replicate BLOCK_SIZE 8), Commit 1]
      (logmgr_new (sample_super 0) 0) (MemoryStorage (mem_new 20)) = (Ok (), (m', s')) \<and>
    lm_read_super s' 0 = (Ok l, s') \<and>
    replay (recovery_new l) s' (MemoryStorage (mem_new 4)) (data_start (logmgr_new l 0)) =
      (Ok (), rc', log', MemoryStorage (mem_new 4))"
proof (rule two_block_commit_lost)
  show "st_ok (MemoryStorage (mem_new 20))" by (simp add: mem_new_ok block_size_defs)
  show "0 + 2 * BLOCK_SIZE + 2 * LOG_BUFFER_SIZE \<le> length (contents (MemoryStorage (mem_new 20)))"
    by (simp add: mem_new_def log_size_defs)
  show "ls_wf (sample_super 0)" "2 \<le> ls_page_size (sample_super 0)" "ls_state_val (sample_super 0) \<noteq> LOGREDONE"
    by (simp_all add: sample_super_def logsuper_default_def ls_wf_def ls_page_size_def ls_state_val_def LOGREDONE_def)
qed simp_all

section \<open>Operations after a failed operation\<close>

text \<open>Every operation that changes the volume starts with \<open>begin_transaction\<close> and cannot pass it while one is open.\<close>

definition refused :: "'a res \<times> 'c volume \<Rightarrow> 'c volume \<Rightarrow> bool" where
  "refused r v \<longleftrightarrow> r = (Err (Other ''transaction already in progress''), v)"

lemma begin_refused: "active (v_tx v) = Some a \<Longrightarrow> v_begin v = (Err (Other ''transaction already in progress''), v)"
  by (simp add: v_begin_def tx_begin_def)

text \<open>
  C40. What a failed change of a file leaves behind. On a volume between operations, for an inode that cannot be read: setting
  attributes, writing, truncating, preallocating (in a supported mode), \<open>fsync\<close>, setting and removing an extended
  attribute all return the error of the inode reader and change nothing on the device, but they leave their
  transaction open. The next operation that begins a transaction, on any inode, is refused with the error that a
  transaction is in progress and has no effect: each of those, and creating, linking, removing and renaming.
\<close>

theorem failed_operation_blocks_writes:
  assumes "library E valid" "idle E valid k v" "fst (inode_read E ino v) = Err e"
  shows "\<exists>v'. v_storage v' = v_storage v \<and> has_active_transaction (v_tx v') \<and>
    v_setattr E ino m u g atime mtime v = (Err e, v') \<and> write_at E ino off data v = (Err e, v') \<and> v_truncate E ino n v = (Err e, v') \<and>
    (fmode AND FALLOC_FL_UNSUPPORTED = 0 \<longrightarrow> fallocate E ino off n fmode v = (Err e, v')) \<and> v_fsync E ino v = (Err e, v') \<and>
    setxattr E ino nm data fl v = (Err e, v') \<and> removexattr E ino nm v = (Err e, v') \<and>
    refused (write_at E i off data v') v' \<and> refused (v_truncate E i n v') v' \<and>
    (fmode AND FALLOC_FL_UNSUPPORTED = 0 \<longrightarrow> refused (fallocate E i off n fmode v') v') \<and>
    refused (v_fsync E i v') v' \<and> refused (v_setattr E i m2 u2 g2 atime2 mtime2 v') v' \<and>
    refused (create_file E i nm v') v' \<and> refused (mkdir E i nm v') v' \<and> refused (mknod E i nm md rdev v') v' \<and>
    refused (symlink E i nm nm2 v') v' \<and> refused (link_file E i nm j v') v' \<and> refused (rmdir E i nm v') v' \<and>
    refused (unlink_file E i nm v') v' \<and> refused (rename E i nm j nm2 v') v' \<and>
    refused (setxattr E i nm data fl v') v' \<and> refused (removexattr E i nm v') v'"
proof -
  let ?a = "\<lparr>at_txid = next_txid (v_tx v), at_dirty_pages = [], at_allocated = [], at_freed = []\<rparr>"
  define v' where "v' = v\<lparr>v_tx := (v_tx v)\<lparr>next_txid := (next_txid (v_tx v) + 1) mod 2 ^ 64, active := Some ?a\<rparr>\<rparr>"
  have q: "quiet E valid v" and a: "active (v_tx v) = None" using assms(2) by (simp_all add: idle_def)
  have bg: "v_begin v = (Ok (next_txid (v_tx v)), v')" using a by (simp add: v_begin_def tx_begin_def v'_def Let_def)
  have q': "quiet E valid v'" using q by (simp add: quiet_def v'_def)
  have r: "inode_read E ino v' = (Err e, v')"
    using library.inode_read_quiet [OF assms(1) q, of ino] library.inode_read_quiet [OF assms(1) q', of ino] assms(3)
    by (simp add: v'_def scan_volume_def max_scan_def)
  then have "v_setattr E ino m u g atime mtime v = (Err e, v')" "v_fsync E ino v = (Err e, v')" "setxattr E ino nm data fl v = (Err e, v')"
    "removexattr E ino nm v = (Err e, v')" using bg by (simp_all add: v_setattr_def v_fsync_def setxattr_def removexattr_def)
  moreover from r have "write_at E ino off data v = (Err e, v')" "v_truncate E ino n v = (Err e, v')"
    "fmode AND FALLOC_FL_UNSUPPORTED = 0 \<longrightarrow> fallocate E ino off n fmode v = (Err e, v')"
    using bg by (simp_all add: read_file_def write_at_def write_at_with_interrupt_def v_truncate_def fallocate_def)
  moreover have "v_storage v' = v_storage v" "has_active_transaction (v_tx v')" by (simp_all add: v'_def has_active_transaction_def)
  moreover have b: "v_begin v' = (Err (Other ''transaction already in progress''), v')"
    by (rule begin_refused [of _ ?a]) (simp add: v'_def)
  moreover have "refused (write_at E i off data v') v'" "refused (v_truncate E i n v') v'" "refused (v_fsync E i v') v'"
    "refused (v_setattr E i m2 u2 g2 atime2 mtime2 v') v'"
    "fmode AND FALLOC_FL_UNSUPPORTED = 0 \<longrightarrow> refused (fallocate E i off n fmode v') v'"
    using b by (simp_all add: refused_def write_at_def write_at_with_interrupt_def v_truncate_def fallocate_def v_fsync_def v_setattr_def)
  moreover have "refused (create_file E i nm v') v'" "refused (mkdir E i nm v') v'" "refused (mknod E i nm md rdev v') v'"
    "refused (symlink E i nm nm2 v') v'" "refused (link_file E i nm j v') v'" "refused (rmdir E i nm v') v'"
    "refused (unlink_file E i nm v') v'" "refused (rename E i nm j nm2 v') v'"
    using b by (simp_all add: refused_def create_file_def mkdir_def mknod_def symlink_def link_file_def rmdir_def unlink_file_def rename_def)
  moreover have "refused (setxattr E i nm data fl v') v'" "refused (removexattr E i nm v') v'"
    using b by (simp_all add: refused_def setxattr_def removexattr_def)
  ultimately show ?thesis by (intro exI [of _ v']) simp
qed

lemma demo_slot:
  assumes "0 < i" "i < INOSPERPAGE" "length (di_u d) = 384"
  shows "slice (i * DISIZE) (i * DISIZE + DISIZE) (demo_page d) = replicate DISIZE 0"
  using assms by (simp add: demo_page_def slice_def DISIZE_def INOSPERPAGE_def block_size_defs min_def)

lemma demo_not_found:
  assumes "length (di_u d) = 384" "(fs, num) \<noteq> (0, 0)" "list_all (\<lambda>i. 0 < i \<and> i < INOSPERPAGE) is"
  shows "find_in_page (demo_page d) fs num is = Ok None"
  using assms(3)
proof (induction "is")
  case (Cons i "is")
  then have i: "0 < i" "i < INOSPERPAGE" by simp_all
  have l: "length (demo_page d) = BLOCK_SIZE" using assms(1) by (simp add: demo_page_def block_size_defs DISIZE_def)
  have "i * DISIZE + DISIZE \<le> length (demo_page d)" using i l by (simp add: DISIZE_def INOSPERPAGE_def block_size_defs)
  moreover have "read_u32 (arr4_of (slice 4 8 (replicate DISIZE 0))) = 0" "read_u32 (arr4_of (slice 8 12 (replicate DISIZE 0))) = 0"
    by (simp_all add: slice_def DISIZE_def arr4_of_def numeral_eq_Suc)
  ultimately show ?case using Cons assms(2) demo_slot [OF i assms(1)] by auto
qed simp

lemma demo_missing: "fst (inode_read list_env 3 (demo_volume demo_file)) = Err (Other ''inode not found in inode table'')"
proof -
  have d: "length (di_u demo_file) = 384" "di_fileset demo_file = write_u32 16" "di_number demo_file = write_u32 2"
    by (simp_all add: demo_file_def demo_inode_def)
  have s: "slice 0 512 (demo_page demo_file) = dinode_bytes demo_file" using d(1) by (simp add: demo_page_def layout_select)
  have k: "slice 4 8 (dinode_bytes demo_file) = list_of_arr4 (di_fileset demo_file)"
    "slice 8 12 (dinode_bytes demo_file) = list_of_arr4 (di_number demo_file)"
    using d(1) by (simp_all add: dinode_bytes_def layout_select del: dxd_bytes.simps)
  have lp: "length (demo_page demo_file) = 4096" using d(1) by (simp add: demo_page_def block_size_defs DISIZE_def)
  have upt: "[0..<INOSPERPAGE] = 0 # [1..<INOSPERPAGE]" by (simp add: INOSPERPAGE_def upt_conv_Cons)
  have key: "inode_key 3 = (fst (inode_key 3), snd (inode_key 3))" "inode_key 3 \<noteq> (0, 0)" "inode_key 3 \<noteq> (16, 2)"
    by (simp_all add: inode_key_def FILESYSTEM_I_def)
  have f: "find_in_page (demo_page demo_file) (fst (inode_key 3)) (snd (inode_key 3)) [0..<INOSPERPAGE] = Ok None"
    using demo_not_found [OF d(1), of "fst (inode_key 3)" "snd (inode_key 3)" "[1..<INOSPERPAGE]"] key lp s k d
    by (auto simp: DISIZE_def upt list_all_iff prod_eq_iff)
  have "scan_table (peek_block (v_storage (demo_volume demo_file))) 1 2 (fst (inode_key 3)) (snd (inode_key 3)) (0 # [1..<33]) =
      Err (Other ''inode not found in inode table'')"
  proof -
    have "scan_table rd 1 2 fs num ks = Err (Other ''inode not found in inode table'')" if "list_all (\<lambda>k. 1 \<le> k) ks" for rd fs num ks
      using that by (induction ks) simp_all
    then show ?thesis using f demo_block [OF d(1)] by (simp add: list_all_iff)
  qed
  moreover have "[0..<33::nat] = 0 # [1..<33]" by (simp add: upt_conv_Cons)
  ultimately show ?thesis using lenv.inode_read_quiet [OF demo_quiet [OF d(1)], of 3]
    by (simp add: scan_volume_def demo_ait) (simp add: demo_volume_def)
qed

theorem failed_operation_blocks_writes_witness:
  "\<exists>v'. write_at list_env 3 0 [1] (demo_volume demo_file) = (Err (Other ''inode not found in inode table''), v') \<and>
     refused (write_at list_env 18 0 [1] v') v'"
  using failed_operation_blocks_writes [OF lenv.library_axioms demo_file_read(2) demo_missing,
      where i = 18 and off = 0 and data = "[1]"] by blast

end
